(* ===== verification/Prelude.thy ===== *)
theory Prelude
  imports Main "HOL-Library.Char_ord" "HOL-Library.List_Lexorder"
begin

section \<open>Go values: strings, numbers, results\<close>

text \<open>
  Vocabulary shared by every component.  A Go string is a sequence of bytes, which is what an
  Isabelle string is (a list of 8-bit characters), so lengths and comparisons count bytes as in
  Go.  Case folding and white space are those of ASCII: the Unicode cases of
  strings.ToLower and strings.TrimSpace, which change code points above 127, are not modelled and
  such bytes pass through unchanged; what is folded with ToLower are names of roles, headers and
  vocabularies.  The redaction of the AI gateway, which cuts at indices of a folded line, folds
  runes instead (Redaction).  A pair of a value and an error is a sum type, the
  error on the left.
\<close>

named_theorems go_simps
named_theorems row_simps

subsection \<open>Results\<close>

abbreviation Err :: "'e \<Rightarrow> 'e + 'a" where
  "Err \<equiv> Inl"

abbreviation Ok :: "'a \<Rightarrow> 'e + 'a" where
  "Ok \<equiv> Inr"

definition bind_result :: "'e + 'a \<Rightarrow> ('a \<Rightarrow> 'e + 'b) \<Rightarrow> 'e + 'b" where
  "bind_result r f = (case r of Inl e \<Rightarrow> Inl e | Inr x \<Rightarrow> f x)"

lemma bind_result_simps [simp]:
  "bind_result (Inl e) f = Inl e"
  "bind_result (Inr x) f = f x"
  by (simp_all add: bind_result_def)

lemma bind_result_OkE:
  assumes "bind_result r f = Inr y"
  obtains x where "r = Inr x" and "f x = Inr y"
  using assms by (cases r) auto

fun map_result :: "('a \<Rightarrow> 'e + 'b) \<Rightarrow> 'a list \<Rightarrow> 'e + 'b list" where
  "map_result f [] = Inr []"
| "map_result f (x # xs) =
     (case f x of Inl e \<Rightarrow> Inl e
      | Inr y \<Rightarrow> (case map_result f xs of Inl e \<Rightarrow> Inl e | Inr ys \<Rightarrow> Inr (y # ys)))"

subsection \<open>Lists\<close>

lemma find_append_else:
  "find P (xs @ ys) = (case find P xs of None \<Rightarrow> find P ys | Some x \<Rightarrow> Some x)"
  by (induction xs) auto

subsection \<open>Characters\<close>

definition is_space :: "char \<Rightarrow> bool" where
  "is_space c \<longleftrightarrow> c \<in> {CHR 0x09, CHR 0x0A, CHR 0x0B, CHR 0x0C, CHR 0x0D, CHR '' ''}"

definition lower_char :: "char \<Rightarrow> char" where
  "lower_char c = (let n = of_char c :: nat in if 65 \<le> n \<and> n \<le> 90 then char_of (n + 32) else c)"

lemma of_char_less_256: "(of_char c :: nat) < 256"
proof -
  have "(of_char c :: nat) = of_char c mod 256" by (simp add: of_char_mod_256)
  then show ?thesis by (metis mod_less_divisor zero_less_numeral)
qed

lemma lower_char_idem [simp]: "lower_char (lower_char c) = lower_char c"
  by (auto simp: lower_char_def Let_def)

lemma is_space_lower_char [simp]: "is_space (lower_char c) = is_space c"
proof (cases "65 \<le> (of_char c :: nat) \<and> (of_char c :: nat) \<le> 90")
  case True
  have "c \<notin> {CHR 0x09, CHR 0x0A, CHR 0x0B, CHR 0x0C, CHR 0x0D, CHR '' ''}"
    using True by auto
  moreover have "(of_char (lower_char c) :: nat) \<ge> 97"
    using True by (simp add: lower_char_def)
  then have "lower_char c \<notin> {CHR 0x09, CHR 0x0A, CHR 0x0B, CHR 0x0C, CHR 0x0D, CHR '' ''}"
    by auto
  ultimately show ?thesis by (simp add: is_space_def)
next
  case False
  then have "lower_char c = c" by (auto simp: lower_char_def Let_def)
  then show ?thesis by simp
qed

subsection \<open>The strings package\<close>

definition TrimSpace :: "string \<Rightarrow> string" where
  "TrimSpace s = rev (dropWhile is_space (rev (dropWhile is_space s)))"

definition ToLower :: "string \<Rightarrow> string" where
  "ToLower s = map lower_char s"

definition HasPrefix :: "string \<Rightarrow> string \<Rightarrow> bool" where
  "HasPrefix s p \<longleftrightarrow> take (length p) s = p"

definition CutPrefix :: "string \<Rightarrow> string \<Rightarrow> string option" where
  "CutPrefix s p = (if HasPrefix s p then Some (drop (length p) s) else None)"

text \<open>strings.TrimRight with the cutset of one slash.\<close>

definition TrimRightSlash :: "string \<Rightarrow> string" where
  "TrimRightSlash s = rev (dropWhile (\<lambda>c. c = CHR ''/'') (rev s))"

text \<open>strings.Index: the first position at which the substring starts.\<close>

fun Index :: "string \<Rightarrow> string \<Rightarrow> nat option" where
  "Index s sub =
     (if HasPrefix s sub then Some 0
      else (case s of [] \<Rightarrow> None | _ # rest \<Rightarrow> map_option Suc (Index rest sub)))"

declare Index.simps [simp del]

text \<open>strings.Split on a separator of one byte, and strings.Join.\<close>

fun Split :: "string \<Rightarrow> char \<Rightarrow> string list" where
  "Split [] sep = [[]]"
| "Split (c # cs) sep =
     (if c = sep then [] # Split cs sep
      else (case Split cs sep of [] \<Rightarrow> [[c]] | f # fs \<Rightarrow> (c # f) # fs))"

fun Join :: "string list \<Rightarrow> string \<Rightarrow> string" where
  "Join [] sep = []"
| "Join [x] sep = x"
| "Join (x # y # ys) sep = x @ sep @ Join (y # ys) sep"

text \<open>strings.Cut on a separator of one byte.\<close>

fun Cut :: "string \<Rightarrow> char \<Rightarrow> (string \<times> string) option" where
  "Cut [] sep = None"
| "Cut (c # cs) sep =
     (if c = sep then Some ([], cs)
      else (case Cut cs sep of None \<Rightarrow> None | Some (a, b) \<Rightarrow> Some (c # a, b)))"

lemma TrimSpace_Nil [simp]: "TrimSpace [] = []"
  by (simp add: TrimSpace_def)

lemma dropWhile_idem_hd: "xs \<noteq> [] \<Longrightarrow> \<not> P (hd xs) \<Longrightarrow> dropWhile P xs = xs"
  by (cases xs) auto

lemma dropWhile_rev_keeps_head:
  assumes "xs \<noteq> []" "\<not> P (hd xs)"
  shows "dropWhile P (rev (dropWhile P (rev xs))) = rev (dropWhile P (rev xs))"
proof -
  obtain y ys where xs: "xs = y # ys" "\<not> P y" using assms by (cases xs) auto
  have "dropWhile P (rev xs) = dropWhile P (rev ys) @ [y] \<or> dropWhile P (rev xs) = [y]"
    using xs by (auto simp: dropWhile_append)
  then show ?thesis using xs by auto
qed

lemma TrimSpace_idem [simp]: "TrimSpace (TrimSpace s) = TrimSpace s"
proof (cases "dropWhile is_space s = []")
  case True
  then show ?thesis unfolding TrimSpace_def by (simp only: rev.simps dropWhile.simps)
next
  case False
  let ?t = "dropWhile is_space s"
  have "\<not> is_space (hd ?t)" using False by (rule hd_dropWhile)
  then have "dropWhile is_space (TrimSpace s) = TrimSpace s"
    using False dropWhile_rev_keeps_head [of ?t is_space] by (simp add: TrimSpace_def)
  then show ?thesis by (simp add: TrimSpace_def)
qed

lemma ToLower_idem [simp]: "ToLower (ToLower s) = ToLower s"
  by (simp add: ToLower_def)

lemma length_ToLower [simp]: "length (ToLower s) = length s"
  by (simp add: ToLower_def)

lemma dropWhile_map_lower: "dropWhile is_space (map lower_char xs) = map lower_char (dropWhile is_space xs)"
  by (induction xs) auto

lemma TrimSpace_ToLower: "TrimSpace (ToLower s) = ToLower (TrimSpace s)"
  by (simp add: TrimSpace_def ToLower_def rev_map dropWhile_map_lower)

lemma HasPrefix_append [simp]: "HasPrefix (p @ s) p"
  by (simp add: HasPrefix_def)

lemma HasPrefix_Nil [simp]: "HasPrefix s []"
  by (simp add: HasPrefix_def)

lemma CutPrefix_append [simp]: "CutPrefix (p @ s) p = Some s"
  by (simp add: CutPrefix_def)

lemma Split_not_Nil [simp]: "Split s c \<noteq> []"
  by (induction s c rule: Split.induct) (auto split: list.splits)

lemma Join_Split: "Join (Split s c) [c] = s"
proof (induction s c rule: Split.induct)
  case (1 sep)
  then show ?case by simp
next
  case (2 c cs sep)
  obtain f fs where s: "Split cs sep = f # fs"
    using Split_not_Nil [of cs sep] by (cases "Split cs sep") auto
  show ?case
  proof (cases "c = sep")
    case True
    with 2 s show ?thesis by simp
  next
    case False
    with 2 s show ?thesis by (cases fs) auto
  qed
qed

subsection \<open>Answers of the HTTP handlers\<close>

text \<open>
  What writeJSON sends: the status, and either the body or an error object, of which the message and
  the machine-readable code are kept (empty where the object has none).
\<close>

record 'b Reply =
  rp_Status :: int
  rp_Error :: string
  rp_Code :: string
  rp_Body :: "'b option"

definition reply :: "int \<Rightarrow> 'b \<Rightarrow> 'b Reply" where
  "reply status body = \<lparr> rp_Status = status, rp_Error = [], rp_Code = [], rp_Body = Some body \<rparr>"

definition reply_error :: "int \<Rightarrow> string \<Rightarrow> string \<Rightarrow> 'b Reply" where
  "reply_error status message code =
     \<lparr> rp_Status = status, rp_Error = message, rp_Code = code, rp_Body = None \<rparr>"

lemma reply_simps [simp]:
  "rp_Status (reply s b) = s" "rp_Body (reply s b) = Some b"
  "rp_Status (reply_error s m c) = s" "rp_Body (reply_error s m c) = None"
  "rp_Code (reply_error s m c) = c" "rp_Error (reply_error s m c) = m"
  by (simp_all add: reply_def reply_error_def)

end
