(* ===== verification/Strconv.thy ===== *)
theory Strconv
  imports Prelude
begin

section \<open>Decimal numbers and the unpadded URL alphabet\<close>

text \<open>
  The parts of strconv and encoding/base64 the program uses: decimal rendering and parsing of
  64-bit integers, the zero-padded rendering of Global IDs, and RawURLEncoding, whose decoder
  skips carriage returns and newlines and does not check trailing bits, as the library's
  non-strict mode does.
\<close>

subsection \<open>Decimal digits\<close>

definition digit_char :: "nat \<Rightarrow> char" where
  "digit_char d = char_of (48 + d)"

definition digit_val :: "char \<Rightarrow> nat option" where
  "digit_val c = (let n = of_char c in if 48 \<le> n \<and> n \<le> 57 then Some (n - 48) else None)"

lemma digit_val_digit_char [simp]: "d < 10 \<Longrightarrow> digit_val (digit_char d) = Some d"
  by (simp add: digit_val_def digit_char_def)

lemma digit_char_inject: "a < 10 \<Longrightarrow> b < 10 \<Longrightarrow> digit_char a = digit_char b \<longleftrightarrow> a = b"
  by (metis digit_val_digit_char option.inject)

text \<open>strconv.Itoa for the non-negative numbers.\<close>

fun itoa :: "nat \<Rightarrow> string" where
  "itoa n = (if n < 10 then [digit_char n] else itoa (n div 10) @ [digit_char (n mod 10)])"

declare itoa.simps [simp del]

definition Itoa :: "int \<Rightarrow> string" where
  "Itoa i = (if i < 0 then CHR ''-'' # itoa (nat (- i)) else itoa (nat i))"

fun digits_val :: "nat \<Rightarrow> string \<Rightarrow> nat option" where
  "digits_val acc [] = Some acc"
| "digits_val acc (c # cs) =
     (case digit_val c of None \<Rightarrow> None | Some d \<Rightarrow> digits_val (acc * 10 + d) cs)"

lemma digits_val_append:
  "digits_val acc (xs @ ys) = (case digits_val acc xs of None \<Rightarrow> None | Some v \<Rightarrow> digits_val v ys)"
  by (induction acc xs rule: digits_val.induct) (auto split: option.splits)

lemma itoa_not_Nil [simp]: "itoa n \<noteq> []"
  by (subst itoa.simps) simp

lemma digits_val_itoa: "digits_val 0 (itoa n) = Some n"
proof (induction n rule: itoa.induct)
  case (1 n)
  show ?case
  proof (cases "n < 10")
    case True
    then show ?thesis by (subst itoa.simps) simp
  next
    case False
    with 1 have "digits_val 0 (itoa (n div 10)) = Some (n div 10)" by simp
    with False show ?thesis
      by (subst itoa.simps) (simp add: digits_val_append mult.commute)
  qed
qed

lemma itoa_inject [simp]: "itoa a = itoa b \<longleftrightarrow> a = b"
  by (metis digits_val_itoa option.inject)

lemma digit_chars_itoa: "c \<in> set (itoa n) \<Longrightarrow> \<exists>d < 10. c = digit_char d"
proof (induction n rule: itoa.induct)
  case (1 n)
  show ?case
  proof (cases "n < 10 \<or> c = digit_char (n mod 10)")
    case True
    then have "c = digit_char (n mod 10)" using 1(2) by (auto simp: itoa.simps [of n])
    moreover have "n mod 10 < 10" by simp
    ultimately show ?thesis by blast
  next
    case False
    then show ?thesis using 1 by (auto simp: itoa.simps [of n])
  qed
qed

lemma of_char_digit_char: "d < 10 \<Longrightarrow> (of_char (digit_char d) :: nat) = 48 + d"
  by (simp add: digit_char_def)

lemma digit_char_neq:
  assumes "d < 10" and "(of_char c :: nat) < 48 \<or> 57 < (of_char c :: nat)"
  shows "digit_char d \<noteq> c"
  using assms of_char_digit_char [of d] by auto

lemma itoa_no_sign: "hd (itoa n) \<noteq> CHR ''-''" "hd (itoa n) \<noteq> CHR ''+''"
proof -
  obtain d where d: "d < 10" "hd (itoa n) = digit_char d"
    using digit_chars_itoa [of "hd (itoa n)" n] by auto
  show "hd (itoa n) \<noteq> CHR ''-''" using digit_char_neq [OF d(1), of "CHR ''-''"] d(2) by simp
  show "hd (itoa n) \<noteq> CHR ''+''" using digit_char_neq [OF d(1), of "CHR ''+''"] d(2) by simp
qed

lemma dash_notin_itoa: "CHR ''-'' \<notin> set (itoa n)"
proof
  assume "CHR ''-'' \<in> set (itoa n)"
  then obtain d where d: "d < 10" "digit_char d = CHR ''-''"
    using digit_chars_itoa [of "CHR ''-''" n] by auto
  show False using digit_char_neq [OF d(1), of "CHR ''-''"] d(2) by simp
qed

lemma Itoa_inject: "Itoa a = Itoa b \<longleftrightarrow> a = b"
  using dash_notin_itoa [of "nat a"] dash_notin_itoa [of "nat b"]
  by (auto simp: Itoa_def split: if_splits) (metis list.set_intros(1))+

subsection \<open>strconv.Atoi and strconv.ParseInt(s, 10, 64)\<close>

definition max_int64 :: int where "max_int64 = 9223372036854775807"
definition min_int64 :: int where "min_int64 = - 9223372036854775808"

text \<open>Signed 64-bit wrap-around.\<close>

definition wrap64 :: "int \<Rightarrow> int" where
  "wrap64 i = (i + 2 ^ 63) mod 2 ^ 64 - 2 ^ 63"

definition parse_digits :: "string \<Rightarrow> int option" where
  "parse_digits s = (if s = [] then None else map_option int (digits_val 0 s))"

definition ParseInt :: "string \<Rightarrow> int option" where
  "ParseInt s =
     (let v = (case s of [] \<Rightarrow> None
               | c # cs \<Rightarrow> if c = CHR ''-'' then map_option uminus (parse_digits cs)
                           else if c = CHR ''+'' then parse_digits cs
                           else parse_digits s)
      in case v of None \<Rightarrow> None
         | Some i \<Rightarrow> if min_int64 \<le> i \<and> i \<le> max_int64 then Some i else None)"

lemma ParseInt_Itoa:
  assumes "0 \<le> i" "i \<le> max_int64"
  shows "ParseInt (Itoa i) = Some i"
proof -
  obtain c cs where s: "itoa (nat i) = c # cs"
    using itoa_not_Nil [of "nat i"] by (cases "itoa (nat i)") auto
  have "c \<noteq> CHR ''-''" "c \<noteq> CHR ''+''" using itoa_no_sign [of "nat i"] s by auto
  moreover have "parse_digits (c # cs) = Some i"
    using digits_val_itoa [of "nat i"] s assms by (simp add: parse_digits_def)
  ultimately show ?thesis
    using assms s by (simp add: Itoa_def ParseInt_def min_int64_def)
qed

lemma ParseInt_bounds: "ParseInt s = Some i \<Longrightarrow> min_int64 \<le> i \<and> i \<le> max_int64"
  by (auto simp: ParseInt_def Let_def split: option.splits if_splits)

lemma ParseInt_Nil [simp]: "ParseInt [] = None"
  by (simp add: ParseInt_def)

text \<open>A number read from the environment (cmd/server/service.go).\<close>

definition intEnv :: "(string \<Rightarrow> string) \<Rightarrow> string \<Rightarrow> int \<Rightarrow> int" where
  "intEnv getenv name fallback =
     (case ParseInt (TrimSpace (getenv name)) of None \<Rightarrow> fallback | Some v \<Rightarrow> v)"

subsection \<open>Zero-padded rendering of six digits (the verb 06d of fmt)\<close>

definition pad6 :: "nat \<Rightarrow> string" where
  "pad6 n = replicate (6 - length (itoa n)) (CHR ''0'') @ itoa n"

lemma digits_val_zeros: "digits_val acc (replicate k (CHR ''0'')) = Some (acc * 10 ^ k)"
proof (induction k arbitrary: acc)
  case 0
  then show ?case by simp
next
  case (Suc k)
  have "digit_val (CHR ''0'') = Some 0" by (simp add: digit_val_def)
  with Suc show ?case by simp
qed

lemma digits_val_pad6: "digits_val 0 (pad6 n) = Some n"
  by (simp add: pad6_def digits_val_append digits_val_zeros digits_val_itoa)

lemma pad6_inject: "pad6 a = pad6 b \<longleftrightarrow> a = b"
  by (metis digits_val_pad6 option.inject)

lemma dash_notin_pad6: "CHR ''-'' \<notin> set (pad6 n)"
  using dash_notin_itoa [of n] by (auto simp: pad6_def)

subsection \<open>base64.RawURLEncoding\<close>

definition b64_alphabet :: string where
  "b64_alphabet = ''ABCDEFGHIJKLMNOPQRSTUVWXYZabcdefghijklmnopqrstuvwxyz0123456789-_''"

definition b64_char :: "nat \<Rightarrow> char" where
  "b64_char n = b64_alphabet ! n"

definition b64_val :: "char \<Rightarrow> nat option" where
  "b64_val c = (let i = length (takeWhile (\<lambda>x. x \<noteq> c) b64_alphabet)
                in if i < length b64_alphabet then Some i else None)"

lemma length_takeWhile_nth:
  "distinct xs \<Longrightarrow> n < length xs \<Longrightarrow> length (takeWhile (\<lambda>x. x \<noteq> xs ! n) xs) = n"
proof (induction xs arbitrary: n)
  case Nil
  then show ?case by simp
next
  case (Cons x xs)
  then show ?case by (cases n) (auto simp: nth_Cons')
qed

lemma b64_alphabet_facts: "distinct b64_alphabet" "length b64_alphabet = 64"
  by (simp_all add: b64_alphabet_def)

lemma b64_val_char [simp]: "n < 64 \<Longrightarrow> b64_val (b64_char n) = Some n"
  using length_takeWhile_nth [of b64_alphabet n] b64_alphabet_facts
  by (simp add: b64_val_def b64_char_def)

lemma b64_char_in: "n < 64 \<Longrightarrow> b64_char n \<in> set b64_alphabet"
  by (simp add: b64_char_def b64_alphabet_facts)

fun b64_sextets :: "nat list \<Rightarrow> nat list" where
  "b64_sextets [] = []"
| "b64_sextets [a] = [a div 4, a mod 4 * 16]"
| "b64_sextets [a, b] = [a div 4, a mod 4 * 16 + b div 16, b mod 16 * 4]"
| "b64_sextets (a # b # c # rest) =
     [a div 4, a mod 4 * 16 + b div 16, b mod 16 * 4 + c div 64, c mod 64] @ b64_sextets rest"

fun b64_bytes :: "nat list \<Rightarrow> nat list option" where
  "b64_bytes [] = Some []"
| "b64_bytes [p] = None"
| "b64_bytes [p, q] = Some [p * 4 + q div 16]"
| "b64_bytes [p, q, r] = Some [p * 4 + q div 16, q mod 16 * 16 + r div 4]"
| "b64_bytes (p # q # r # s # rest) =
     map_option (\<lambda>bs. [p * 4 + q div 16, q mod 16 * 16 + r div 4, r mod 4 * 64 + s] @ bs)
       (b64_bytes rest)"

fun all_some :: "'a option list \<Rightarrow> 'a list option" where
  "all_some [] = Some []"
| "all_some (x # xs) =
     (case x of None \<Rightarrow> None | Some y \<Rightarrow> map_option (\<lambda>ys. y # ys) (all_some xs))"

definition b64_encode :: "string \<Rightarrow> string" where
  "b64_encode s = map b64_char (b64_sextets (map of_char s))"

definition b64_decode :: "string \<Rightarrow> string option" where
  "b64_decode s =
     (case all_some (map b64_val (filter (\<lambda>c. c \<noteq> CHR 0x0D \<and> c \<noteq> CHR 0x0A) s)) of
        None \<Rightarrow> None
      | Some vs \<Rightarrow> map_option (map char_of) (b64_bytes vs))"

lemma b64_sextets_less: "\<forall>b \<in> set bs. b < 256 \<Longrightarrow> x \<in> set (b64_sextets bs) \<Longrightarrow> x < 64"
  by (induction bs rule: b64_sextets.induct) auto

lemma b64_bytes_sextets: "\<forall>b \<in> set bs. b < 256 \<Longrightarrow> b64_bytes (b64_sextets bs) = Some bs"
proof (induction bs rule: b64_sextets.induct)
  case (2 a)
  then show ?case by simp
next
  case (3 a b)
  have "b div 16 < 16" using 3 by auto
  then show ?case using 3 by simp
next
  case (4 a b c rest)
  have "b div 16 < 16" "c div 64 < 4" using 4 by auto
  then show ?case using 4 by simp
qed simp

lemma all_some_map: "(\<And>x. x \<in> set xs \<Longrightarrow> f x = Some (g x)) \<Longrightarrow> all_some (map f xs) = Some (map g xs)"
  by (induction xs) auto

lemma newline_notin_alphabet: "CHR 0x0D \<notin> set b64_alphabet" "CHR 0x0A \<notin> set b64_alphabet"
  by (simp_all add: b64_alphabet_def)

lemma b64_decode_encode [simp]: "b64_decode (b64_encode s) = Some s"
proof -
  let ?bs = "map of_char s :: nat list"
  have small: "\<forall>b \<in> set ?bs. b < 256" by (auto simp: of_char_less_256)
  have six: "\<And>x. x \<in> set (b64_sextets ?bs) \<Longrightarrow> x < 64"
    using b64_sextets_less [OF small] by blast
  have keep: "filter (\<lambda>c. c \<noteq> CHR 0x0D \<and> c \<noteq> CHR 0x0A) (b64_encode s) = b64_encode s"
    using b64_char_in six newline_notin_alphabet
    by (auto simp: b64_encode_def filter_id_conv) metis+
  have "all_some (map b64_val (b64_encode s)) = Some (b64_sextets ?bs)"
    using all_some_map [of "b64_sextets ?bs" "\<lambda>x. b64_val (b64_char x)" "\<lambda>x. x"] six
    by (simp add: b64_encode_def comp_def)
  with keep show ?thesis
    by (simp add: b64_decode_def b64_bytes_sextets [OF small] comp_def)
qed

lemma b64_sextets_Nil [simp]: "b64_sextets bs = [] \<longleftrightarrow> bs = []"
  by (induction bs rule: b64_sextets.induct) auto

lemma b64_encode_Nil [simp]: "b64_encode s = [] \<longleftrightarrow> s = []"
  by (simp add: b64_encode_def)

lemma b64_encode_alphabet: "set (b64_encode s) \<subseteq> set b64_alphabet"
proof -
  have "\<forall>b \<in> set (map of_char s). b < (256 :: nat)" by (auto simp: of_char_less_256)
  from b64_sextets_less [OF this] show ?thesis
    by (auto simp: b64_encode_def intro: b64_char_in)
qed

lemma no_space_in_alphabet: "c \<in> set b64_alphabet \<Longrightarrow> \<not> is_space c"
  by (auto simp: b64_alphabet_def is_space_def)

lemma TrimSpace_no_space: "(\<And>c. c \<in> set s \<Longrightarrow> \<not> is_space c) \<Longrightarrow> TrimSpace s = s"
proof -
  assume h: "\<And>c. c \<in> set s \<Longrightarrow> \<not> is_space c"
  have d: "dropWhile is_space s = s" using h by (cases s) auto
  have "\<And>c. c \<in> set (rev s) \<Longrightarrow> \<not> is_space c" using h by simp
  then have "dropWhile is_space (rev s) = rev s" by (cases "rev s") auto
  with d show ?thesis by (simp add: TrimSpace_def)
qed

lemma TrimSpace_b64_encode [simp]: "TrimSpace (b64_encode s) = b64_encode s"
  by (rule TrimSpace_no_space) (use b64_encode_alphabet no_space_in_alphabet in blast)

lemma digit_char_no_space: "d < 10 \<Longrightarrow> \<not> is_space (digit_char d)"
proof
  assume "d < 10" "is_space (digit_char d)"
  then have "digit_val (digit_char d) = None" by (auto simp: is_space_def digit_val_def)
  with \<open>d < 10\<close> show False by simp
qed

lemma itoa_no_space: "c \<in> set (itoa n) \<Longrightarrow> \<not> is_space c"
proof (induction n rule: itoa.induct)
  case (1 n)
  then show ?case
    by (subst (asm) itoa.simps) (auto simp: digit_char_no_space split: if_splits)
qed

lemma TrimSpace_Itoa [simp]: "0 \<le> i \<Longrightarrow> TrimSpace (Itoa i) = Itoa i"
  by (rule TrimSpace_no_space) (auto simp: Itoa_def itoa_no_space)

end
