(* ===== verification/Events.thy ===== *)
theory Events
  imports Prelude
begin

section \<open>The event envelope (internal/events/events.go)\<close>

text \<open>
  The envelope every published or queued event travels in, and the normalization the ingestion
  boundary applies.  Instants are nanoseconds, None being Go's zero time; UTC changes the rendering of
  an instant only.  The free-form data is a list of named strings.
\<close>

record Envelope =
  en_EventID :: string
  en_Event :: string
  en_Source :: string
  en_ActorID :: string
  en_EntityID :: string
  en_TenantID :: string
  en_Severity :: string
  en_OccurredAt :: "int option"
  en_RequestID :: string
  en_Data :: "(string \<times> string) list"

datatype NormalizeError =
  EventAndSourceRequired | EntityActionNaming | EmptyNameSegment | UnsupportedSeverity

definition event_severities :: "string list" where
  "event_severities = [''debug'', ''info'', ''warning'', ''error'', ''critical'']"

definition Normalize :: "int \<Rightarrow> Envelope \<Rightarrow> NormalizeError + Envelope" where
  "Normalize now e0 =
     (let e = e0 \<lparr> en_Event := TrimSpace (en_Event e0), en_Source := TrimSpace (en_Source e0),
                  en_ActorID := TrimSpace (en_ActorID e0), en_EntityID := TrimSpace (en_EntityID e0),
                  en_TenantID := TrimSpace (en_TenantID e0), en_EventID := TrimSpace (en_EventID e0),
                  en_Severity := TrimSpace (ToLower (en_Severity e0)) \<rparr>;
          parts = Split (en_Event e) (CHR ''.'')
      in if en_Event e = [] \<or> en_Source e = [] then Err EventAndSourceRequired
         else if length parts < 2 then Err EntityActionNaming
         else if [] \<in> set parts then Err EmptyNameSegment
         else
           (let e1 = e \<lparr> en_OccurredAt := Some (case en_OccurredAt e of None \<Rightarrow> now | Some t \<Rightarrow> t) \<rparr>;
                e2 = (if en_Severity e1 = [] then e1 \<lparr> en_Severity := ''info'' \<rparr> else e1)
            in if en_Severity e2 \<in> set event_severities then Ok e2 else Err UnsupportedSeverity))"

definition Subject :: "string \<Rightarrow> string" where
  "Subject event = ''bsystem.events.'' @ event"

lemma severities_normal:
  "s \<in> set event_severities \<Longrightarrow> TrimSpace (ToLower s) = s \<and> s \<noteq> []"
  unfolding event_severities_def
  by (simp, elim disjE; simp add: TrimSpace_def ToLower_def is_space_def lower_char_def)

definition normal :: "Envelope \<Rightarrow> bool" where
  "normal e \<longleftrightarrow> (\<forall>x \<in> {en_Event e, en_Source e, en_ActorID e, en_EntityID e, en_TenantID e, en_EventID e}.
       TrimSpace x = x) \<and> en_Event e \<noteq> [] \<and> en_Source e \<noteq> [] \<and>
     2 \<le> length (Split (en_Event e) (CHR ''.'')) \<and> [] \<notin> set (Split (en_Event e) (CHR ''.'')) \<and>
     en_Severity e \<in> set event_severities \<and> en_OccurredAt e \<noteq> None"

lemma Normalize_normal:
  assumes "Normalize now e0 = Ok e"
  shows "normal e"
  using assms by (auto simp: Normalize_def normal_def Let_def split: if_splits)

lemma normal_stable:
  assumes "normal e"
  shows "Normalize later e = Ok e"
proof (cases e)
  case (fields eventID event source actor entity tenant severity occurred request dat)
  obtain t where t: "occurred = Some t" using assms fields by (auto simp: normal_def)
  have sev: "severity \<in> set event_severities" using assms fields by (simp add: normal_def)
  have trims: "TrimSpace event = event" "TrimSpace source = source" "TrimSpace actor = actor"
    "TrimSpace entity = entity" "TrimSpace tenant = tenant" "TrimSpace eventID = eventID"
    "event \<noteq> []" "source \<noteq> []" "\<not> length (Split event (CHR ''.'')) < 2"
    "[] \<notin> set (Split event (CHR ''.''))"
    using assms fields by (simp_all add: normal_def)
  show ?thesis
    unfolding fields t Normalize_def Let_def
    by (simp only: trims severities_normal [OF sev] sev option.case if_False if_True Envelope.simps
        simp_thms)
qed

text \<open>
  Normalizing an accepted envelope is the identity: what the boundary accepted has an entity.action
  name of at least two non-empty segments, a source, a severity of the vocabulary and an
  instant, and passing it through the boundary again, at any later time, changes nothing.
\<close>

theorem Normalize_stable:
  assumes "Normalize now e0 = Ok e"
  shows "Normalize later e = Ok e \<and> 2 \<le> length (Split (en_Event e) (CHR ''.'')) \<and>
    [] \<notin> set (Split (en_Event e) (CHR ''.'')) \<and> en_Source e \<noteq> [] \<and>
    en_Severity e \<in> set event_severities \<and> en_OccurredAt e \<noteq> None"
proof -
  have n: "normal e" using assms by (rule Normalize_normal)
  then show ?thesis using normal_stable [of e later] by (auto simp: normal_def)
qed

definition sample_envelope :: Envelope where
  "sample_envelope = \<lparr> en_EventID = [], en_Event = '' a.b'', en_Source = ''s'', en_ActorID = [],
     en_EntityID = [], en_TenantID = [], en_Severity = ''INFO'', en_OccurredAt = None,
     en_RequestID = [], en_Data = [] \<rparr>"

theorem Normalize_stable_witness:
  "case Normalize 7 sample_envelope of Inl _ \<Rightarrow> False | Inr e \<Rightarrow> Normalize 8 e = Ok e"
proof -
  have "case Normalize 7 sample_envelope of Inl _ \<Rightarrow> False | Inr _ \<Rightarrow> True" by code_simp
  then obtain e where e: "Normalize 7 sample_envelope = Ok e" by (auto split: sum.splits)
  from Normalize_stable [OF e, of 8] e show ?thesis by simp
qed

end
