(* ===== verification/Database.thy ===== *)
theory Database
  imports Strconv Events
begin

section \<open>The platform database (internal/platformdb, internal/platformdb/migrations)\<close>

text \<open>
  The tables as lists of rows in insertion order, one record for those that share transactions:
  the RBAC catalogue, the audit trail, Global IDs and identities, and the event outbox.  SQL text is
  translated where it stands in the Go source.  PostgreSQL itself is a parameter:
  down names the statements that fail (begin, commit and the statements by the name given here),
  and a transaction that does not commit leaves the database as it was.  now is the database clock,
  which is also the process clock.
\<close>

subsection \<open>Rows\<close>

record Role =
  ro_ID :: string
  ro_Name :: string
  ro_Kind :: string
  ro_Description :: string
  ro_Enabled :: bool

record ScopeGrant =
  sg_PrincipalType :: string
  sg_PrincipalID :: string
  sg_ScopeType :: string
  sg_ScopeID :: string
  sg_PermissionID :: string

record AuditEvent =
  au_ID :: int
  au_OccurredAt :: int
  au_Subject :: string
  au_GlobalUserID :: string
  au_Action :: string
  au_ResourceType :: string
  au_ResourceID :: string
  au_RequestID :: string
  au_SourceIP :: string
  au_Metadata :: "(string \<times> string) list"

record GlobalEntity =
  ge_GlobalID :: string
  ge_EntityType :: string
  ge_Source :: string
  ge_SourceID :: string
  ge_TenantID :: string
  ge_Metadata :: "(string \<times> string) list"
  ge_CreatedAt :: int

record Counter =
  ct_EntityType :: string
  ct_Prefix :: string
  ct_NextValue :: nat

record IdentityRow =
  id_Subject :: string
  id_GlobalUserID :: string
  id_Email :: string
  id_DisplayName :: string
  id_Username :: string
  id_Groups :: "string list"
  id_FirstSeenAt :: int
  id_LastSeenAt :: int

record ServiceRow =
  sv_Subject :: string
  sv_GlobalServiceID :: string
  sv_Name :: string
  sv_Username :: string
  sv_Groups :: "string list"
  sv_LastSeenAt :: int

record OutboxRow =
  ob_EventID :: string
  ob_Subject :: string
  ob_Payload :: Envelope
  ob_OccurredAt :: int
  ob_Attempts :: nat
  ob_NextAttemptAt :: int
  ob_DeliveredAt :: "int option"
  ob_FailedAt :: "int option"
  ob_LastError :: "string option"

record DB =
  db_roles :: "Role list"
  db_group_roles :: "(string \<times> string) list"
  db_role_permissions :: "(string \<times> string) list"
  db_role_modules :: "(string \<times> string) list"
  db_permissions :: "string list"
  db_scopes :: "ScopeGrant list"
  db_audit :: "AuditEvent list"
  db_entities :: "GlobalEntity list"
  db_counters :: "Counter list"
  db_identities :: "IdentityRow list"
  db_services :: "ServiceRow list"
  db_outbox :: "OutboxRow list"

subsection \<open>Errors and transactions\<close>

datatype DBError =
  NoRows | StoreFailure string | UniqueViolation | ForeignKeyViolation
  | ErrInvalidPrincipalType | ErrInvalidScopeType | ErrUnknownPermission | ErrAuditNotDurable
  | ErrUnsupportedEntityType | OutboxEventIncomplete | CheckViolation
  | ErrNotificationNotVisible | ErrServerNotFound | ErrSupportRecordNotFound
  | ErrModuleNotFound | ErrModuleConflict | ErrUnknownRole | ErrModuleNeedsRoles
  | ErrMissingActor | ErrInvalidRelationType | ErrSelfRelationship | ErrUnknownGlobalID

definition isUniqueViolation :: "DBError \<Rightarrow> bool" where
  "isUniqueViolation e \<longleftrightarrow> e = UniqueViolation"

definition isForeignKeyViolation :: "DBError \<Rightarrow> bool" where
  "isForeignKeyViolation e \<longleftrightarrow> e = ForeignKeyViolation"

type_synonym down = "string \<Rightarrow> bool"

definition statement :: "down \<Rightarrow> string \<Rightarrow> 'a \<Rightarrow> DBError + 'a" where
  "statement down name x = (if down name then Err (StoreFailure name) else Ok x)"

lemma statement_simps [simp]:
  "down name \<Longrightarrow> statement down name x = Err (StoreFailure name)"
  "\<not> down name \<Longrightarrow> statement down name x = Ok x"
  by (simp_all add: statement_def)

text \<open>
  A transaction: begin, the body on the database the transaction sees, commit.  The body hands back its
  answer and its database; an error anywhere is a rollback.
\<close>

definition transaction ::
  "down \<Rightarrow> ('d \<Rightarrow> DBError + 'a \<times> 'd) \<Rightarrow> 'd \<Rightarrow> (DBError + 'a) \<times> 'd" where
  "transaction down body db =
     (if down ''begin'' then (Err (StoreFailure ''begin''), db)
      else case body db of
        Inl e \<Rightarrow> (Err e, db)
      | Inr (a, db') \<Rightarrow>
          if down ''commit'' then (Err (StoreFailure ''commit''), db) else (Ok a, db'))"

lemma transaction_error: "transaction down body db = (Err e, db') \<Longrightarrow> db' = db"
  by (auto simp: transaction_def split: if_splits sum.splits)

lemma transaction_ok:
  "transaction down body db = (Ok a, db') \<longleftrightarrow>
     \<not> down ''begin'' \<and> \<not> down ''commit'' \<and> body db = Ok (a, db')"
  by (auto simp: transaction_def split: if_splits sum.splits)

subsection \<open>The audit trail\<close>

text \<open>The statement auditInsert: the row number and the time are the database's.\<close>

definition auditInsert :: "int \<Rightarrow> AuditEvent \<Rightarrow> DB \<Rightarrow> DB" where
  "auditInsert now event db =
     db \<lparr> db_audit := db_audit db @
       [event \<lparr> au_ID := int (length (db_audit db)) + 1, au_OccurredAt := now \<rparr>] \<rparr>"

definition InsertAudit :: "down \<Rightarrow> int \<Rightarrow> AuditEvent \<Rightarrow> DB \<Rightarrow> (DBError + unit) \<times> DB" where
  "InsertAudit down now event db =
     (if down ''audit_insert'' then (Err (StoreFailure ''audit_insert''), db)
      else (Ok (), auditInsert now event db))"

definition ListAudit :: "down \<Rightarrow> int \<Rightarrow> DB \<Rightarrow> DBError + AuditEvent list" where
  "ListAudit down limit0 db =
     (let limit = (if limit0 \<le> 0 \<or> 500 < limit0 then 100 else limit0)
      in statement down ''audit_list''
           (take (nat limit) (rev (sort_key au_OccurredAt (db_audit db)))))"

subsection \<open>The outbox: writing\<close>

definition queued_row :: "int \<Rightarrow> string \<Rightarrow> string \<Rightarrow> Envelope \<Rightarrow> int option \<Rightarrow> OutboxRow" where
  "queued_row now eventID subject payload occurredAt =
     \<lparr> ob_EventID = eventID, ob_Subject = subject, ob_Payload = payload,
       ob_OccurredAt = (case occurredAt of None \<Rightarrow> now | Some t \<Rightarrow> t), ob_Attempts = 0,
       ob_NextAttemptAt = now, ob_DeliveredAt = None, ob_FailedAt = None, ob_LastError = None \<rparr>"

definition enqueueEvent :: "down \<Rightarrow> int \<Rightarrow> string \<Rightarrow> string \<Rightarrow> Envelope \<Rightarrow> int option \<Rightarrow> DB \<Rightarrow> DBError + DB" where
  "enqueueEvent down now eventID subject payload occurredAt db =
     (if eventID = [] \<or> subject = [] then Err OutboxEventIncomplete
      else statement down ''outbox_insert''
             (if eventID \<in> ob_EventID ` set (db_outbox db) then db
              else db \<lparr> db_outbox := db_outbox db @ [queued_row now eventID subject payload occurredAt] \<rparr>))"

definition EnqueueEvent ::
  "down \<Rightarrow> int \<Rightarrow> string \<Rightarrow> string \<Rightarrow> Envelope \<Rightarrow> int option \<Rightarrow> DB \<Rightarrow> (DBError + unit) \<times> DB" where
  "EnqueueEvent down now eventID subject payload occurredAt =
     transaction down (\<lambda>db. case enqueueEvent down now eventID subject payload occurredAt db of
       Inl e \<Rightarrow> Err e | Inr db' \<Rightarrow> Ok ((), db'))"

definition EventSource :: string where "EventSource = ''bsystem-integration-core''"

text \<open>
  The request a statement runs in: the correlation id its context carries and the identifier its
  next event draws (NewEventID reads the system's random source; None is its error).
\<close>

record RequestContext =
  rx_Correlation :: string
  rx_EventID :: "string option"
  rx_Now :: int

definition queueDurableEvent ::
  "down \<Rightarrow> RequestContext \<Rightarrow> string \<Rightarrow> string \<Rightarrow> string \<Rightarrow> (string \<times> string) list \<Rightarrow> DB \<Rightarrow> DBError + DB" where
  "queueDurableEvent down rx event entityID tenantID dat db =
     (case rx_EventID rx of
        None \<Rightarrow> Err (StoreFailure ''event_id'')
      | Some eventID \<Rightarrow>
          enqueueEvent down (rx_Now rx) eventID (Subject event)
            \<lparr> en_EventID = eventID, en_Event = event, en_Source = EventSource, en_ActorID = [],
              en_EntityID = entityID, en_TenantID = tenantID, en_Severity = ''info'',
              en_OccurredAt = Some (rx_Now rx), en_RequestID = rx_Correlation rx, en_Data = dat \<rparr>
            (Some (rx_Now rx)) db)"

lemma queued_row_simps [simp]:
  "ob_EventID (queued_row now i s p t) = i" "ob_Subject (queued_row now i s p t) = s"
  "ob_Payload (queued_row now i s p t) = p" "ob_Attempts (queued_row now i s p t) = 0"
  "ob_DeliveredAt (queued_row now i s p t) = None" "ob_FailedAt (queued_row now i s p t) = None"
  by (simp_all add: queued_row_def)

lemma enqueueEvent_ok:
  "enqueueEvent down now i subject payload t db = Ok db' \<longleftrightarrow>
     i \<noteq> [] \<and> subject \<noteq> [] \<and> \<not> down ''outbox_insert'' \<and>
     db' = (if i \<in> ob_EventID ` set (db_outbox db) then db
            else db \<lparr> db_outbox := db_outbox db @ [queued_row now i subject payload t] \<rparr>)"
  by (auto simp: enqueueEvent_def statement_def)

text \<open>The envelope an allocation announces itself with, and the row it is queued as.\<close>

definition durable_row ::
  "RequestContext \<Rightarrow> string \<Rightarrow> string \<Rightarrow> string \<Rightarrow> (string \<times> string) list \<Rightarrow> string \<Rightarrow> OutboxRow" where
  "durable_row rx event entityID tenantID dat i =
     queued_row (rx_Now rx) i (Subject event)
       \<lparr> en_EventID = i, en_Event = event, en_Source = EventSource, en_ActorID = [],
         en_EntityID = entityID, en_TenantID = tenantID, en_Severity = ''info'',
         en_OccurredAt = Some (rx_Now rx), en_RequestID = rx_Correlation rx, en_Data = dat \<rparr>
       (Some (rx_Now rx))"

lemma queueDurableEvent_ok:
  "queueDurableEvent down rx event entityID tenantID dat db = Ok db' \<longleftrightarrow>
     (\<exists>i. rx_EventID rx = Some i \<and> i \<noteq> [] \<and> \<not> down ''outbox_insert'' \<and>
       db' = (if i \<in> ob_EventID ` set (db_outbox db) then db
              else db \<lparr> db_outbox := db_outbox db @ [durable_row rx event entityID tenantID dat i] \<rparr>))"
  by (auto simp: queueDurableEvent_def enqueueEvent_ok Subject_def durable_row_def split: option.splits)

end
