(* ===== verification/Authz.thy ===== *)
theory Authz
  imports Prelude
begin

section \<open>The authorization evaluator (internal/authz/authz.go)\<close>

text \<open>
  The evaluator over an arbitrary Grants interface: a lookup that answers a boolean or fails.
  The interface and what its client relies on are a locale; platformdb.DB interprets it in
  theory Rbac.  A map from role names to true is the list of its keys.
\<close>

definition ScopeGlobal :: string where "ScopeGlobal = ''global''"
definition ScopeTenant :: string where "ScopeTenant = ''tenant''"
definition ScopeClient :: string where "ScopeClient = ''client''"
definition ScopeProject :: string where "ScopeProject = ''project''"
definition ScopeResource :: string where "ScopeResource = ''resource''"
definition KindUser :: string where "KindUser = ''user''"
definition KindService :: string where "KindService = ''service''"
definition PermissionAll :: string where "PermissionAll = ''*''"
definition CodeScopeRequired :: string where "CodeScopeRequired = ''scope_required''"
definition CodePermissionRequired :: string where "CodePermissionRequired = ''permission_required''"

lemmas scope_names = ScopeGlobal_def ScopeTenant_def ScopeClient_def ScopeProject_def
  ScopeResource_def KindUser_def KindService_def PermissionAll_def

record Scope =
  sc_Type :: string
  sc_ID :: string

definition Global :: Scope where
  "Global = \<lparr> sc_Type = ScopeGlobal, sc_ID = ''*'' \<rparr>"

definition Resource :: "string \<Rightarrow> string \<Rightarrow> Scope" where
  "Resource scopeType i = \<lparr> sc_Type = scopeType, sc_ID = i \<rparr>"

record Principal =
  pr_ID :: string
  pr_Kind :: string
  pr_Roles :: "string list"
  pr_Permissions :: "string list"

record Decision =
  dc_Allowed :: bool
  dc_Reason :: string
  dc_Code :: string

datatype AuthzError = BadPrincipalKind | ScopeTypeRequired | LookupFailed

type_synonym Grants = "string \<Rightarrow> string \<Rightarrow> string \<Rightarrow> string \<Rightarrow> string \<Rightarrow> AuthzError + bool"

record Evaluator =
  ev_grants :: "Grants option"
  ev_confinedRoles :: "string list"

definition DefaultConfinedRoles :: "string list" where
  "DefaultConfinedRoles = [''Customer'']"

definition authz_New :: "Grants option \<Rightarrow> string list \<Rightarrow> Evaluator" where
  "authz_New grants confinedRoles =
     \<lparr> ev_grants = grants, ev_confinedRoles = filter (\<lambda>r. r \<noteq> []) (map TrimSpace confinedRoles) \<rparr>"

definition IsConfined :: "Evaluator \<Rightarrow> Principal \<Rightarrow> bool" where
  "IsConfined e p \<longleftrightarrow> (\<exists>r \<in> set (pr_Roles p). r \<in> set (ev_confinedRoles e))"

definition hasPermission :: "string list \<Rightarrow> string \<Rightarrow> bool" where
  "hasPermission permissions wanted \<longleftrightarrow> wanted \<in> set permissions"

definition deny :: "string \<Rightarrow> string \<Rightarrow> Decision" where
  "deny code permission =
     \<lparr> dc_Allowed = False, dc_Reason = permission @ '' permission required'', dc_Code = code \<rparr>"

definition allow :: Decision where
  "allow = \<lparr> dc_Allowed = True, dc_Reason = [], dc_Code = [] \<rparr>"

fun any_granted :: "(Scope \<Rightarrow> AuthzError + bool) \<Rightarrow> Scope list \<Rightarrow> AuthzError + bool" where
  "any_granted ask [] = Ok False"
| "any_granted ask (c # cs) =
     (case ask c of Inl e \<Rightarrow> Err e | Inr True \<Rightarrow> Ok True | Inr False \<Rightarrow> any_granted ask cs)"

definition candidates :: "Scope \<Rightarrow> Scope list" where
  "candidates scope =
     [scope]
     @ (if sc_ID scope \<noteq> ''*'' then [\<lparr> sc_Type = sc_Type scope, sc_ID = ''*'' \<rparr>] else [])
     @ (if sc_Type scope \<noteq> ScopeGlobal then [\<lparr> sc_Type = ScopeGlobal, sc_ID = ''*'' \<rparr>] else [])"

definition scoped :: "Evaluator \<Rightarrow> Principal \<Rightarrow> string \<Rightarrow> Scope \<Rightarrow> AuthzError + bool" where
  "scoped e p permission scope =
     (case ev_grants e of
        None \<Rightarrow> Ok False
      | Some has \<Rightarrow>
          if pr_Kind p \<noteq> KindUser \<and> pr_Kind p \<noteq> KindService then Err BadPrincipalKind
          else if sc_Type scope = [] then Err ScopeTypeRequired
          else any_granted (\<lambda>c. has (pr_Kind p) (pr_ID p) (sc_Type c) (sc_ID c) permission)
                 (candidates scope))"

definition Evaluate :: "Evaluator \<Rightarrow> Principal \<Rightarrow> string \<Rightarrow> Scope \<Rightarrow> AuthzError + Decision" where
  "Evaluate e p permission0 scope =
     (let permission = TrimSpace permission0
      in if permission = [] then Ok allow
         else if pr_ID p = [] then Ok (deny CodePermissionRequired permission)
         else if hasPermission (pr_Permissions p) PermissionAll then Ok allow
         else if \<not> hasPermission (pr_Permissions p) permission
         then (case scoped e p permission scope of
                 Inl err \<Rightarrow> Err err
               | Inr granted \<Rightarrow> if granted then Ok allow else Ok (deny CodePermissionRequired permission))
         else if IsConfined e p
         then (case scoped e p permission scope of
                 Inl err \<Rightarrow> Err err
               | Inr granted \<Rightarrow> if granted then Ok allow
                   else Ok \<lparr> dc_Allowed = False,
                             dc_Reason = permission @ '' requires a scope grant for this resource'',
                             dc_Code = CodeScopeRequired \<rparr>)
         else Ok allow)"

lemma allow_simps [simp]: "dc_Allowed allow" "\<not> dc_Allowed (deny c p)"
  by (simp_all add: allow_def deny_def)

subsection \<open>The Grants interface\<close>

text \<open>
  What a provider of grants promises: the star identifier covers its scope type, the global scope
  covers everything, and a provider that fails for one question fails for every question.
\<close>

locale grants =
  fixes has :: Grants
  assumes star_covers: "has k p t ''*'' perm = Ok True \<Longrightarrow> has k p t i perm = Ok True"
    and global_covers: "has k p ScopeGlobal ''*'' perm = Ok True \<Longrightarrow> has k p t i perm = Ok True"
    and fails_alike: "has k p t i perm = Err e \<Longrightarrow> has k' p' t' i' perm' = Err e"
begin

text \<open>The three lookups of scoped answer what the first one does.\<close>

lemma any_granted_candidates:
  "any_granted (\<lambda>c. has k p (sc_Type c) (sc_ID c) perm) (candidates scope) =
   has k p (sc_Type scope) (sc_ID scope) perm"
proof (cases "has k p (sc_Type scope) (sc_ID scope) perm")
  case (Inl e)
  then show ?thesis by (simp add: candidates_def)
next
  case (Inr b)
  have ok: "\<exists>b'. has k p t i perm = Ok b'" for t i
    using fails_alike [of k p t i perm] Inr by (cases "has k p t i perm") auto
  show ?thesis
  proof (cases b)
    case True
    then show ?thesis using Inr by (simp add: candidates_def)
  next
    case False
    then have "has k p (sc_Type scope) ''*'' perm = Ok False" "has k p ScopeGlobal ''*'' perm = Ok False"
      using Inr ok star_covers [of k p "sc_Type scope" perm "sc_ID scope"]
        global_covers [of k p perm "sc_Type scope" "sc_ID scope"] by (metis sum.inject(2))+
    then show ?thesis using Inr False by (simp add: candidates_def)
  qed
qed

lemma scoped_single:
  assumes "ev_grants e = Some has" "pr_Kind p = KindUser \<or> pr_Kind p = KindService" "sc_Type scope \<noteq> []"
  shows "scoped e p perm scope = has (pr_Kind p) (pr_ID p) (sc_Type scope) (sc_ID scope) perm"
  using assms any_granted_candidates by (auto simp: scoped_def)

end

subsection \<open>Decisions\<close>

lemma Evaluate_characterized:
  "(\<exists>d. Evaluate e p permission scope = Ok d \<and> dc_Allowed d) \<longleftrightarrow>
     TrimSpace permission = [] \<or>
     pr_ID p \<noteq> [] \<and>
       (''*'' \<in> set (pr_Permissions p) \<or>
        TrimSpace permission \<in> set (pr_Permissions p) \<and> set (pr_Roles p) \<inter> set (ev_confinedRoles e) = {} \<or>
        scoped e p (TrimSpace permission) scope = Ok True)"
  by (auto simp: Evaluate_def Let_def hasPermission_def IsConfined_def
      PermissionAll_def split: sum.splits)

text \<open>
  Deny by default, in full: a request is allowed exactly when the route asks for no permission,
  or the caller is identified and is an administrator, or holds the permission through a role
  that is not confined, or has a scope grant for it.  In particular a
  confined caller is allowed nothing by its roles alone.
\<close>

theorem Evaluate_allows_iff:
  "(\<exists>d. Evaluate e p permission scope = Ok d \<and> dc_Allowed d) \<longleftrightarrow>
     TrimSpace permission = [] \<or>
     pr_ID p \<noteq> [] \<and>
       (''*'' \<in> set (pr_Permissions p) \<or>
        TrimSpace permission \<in> set (pr_Permissions p) \<and> set (pr_Roles p) \<inter> set (ev_confinedRoles e) = {} \<or>
        scoped e p (TrimSpace permission) scope = Ok True)"
  by (rule Evaluate_characterized)

text \<open>
  A decision that cannot be made is never an allow: when every lookup of the store fails, only
  the callers whose authority does not rest on a grant get in, the others get an error
  or a denial.
\<close>

theorem Evaluate_store_failure:
  assumes "ev_grants e = Some has" "\<And>k i t s q. has k i t s q = Err LookupFailed"
    and "Evaluate e p permission scope = Ok d" "dc_Allowed d" "TrimSpace permission \<noteq> []"
  shows "pr_ID p \<noteq> [] \<and> (''*'' \<in> set (pr_Permissions p) \<or>
     TrimSpace permission \<in> set (pr_Permissions p) \<and> \<not> IsConfined e p)"
proof -
  have "scoped e p (TrimSpace permission) scope \<noteq> Ok True"
    using assms(1,2) by (auto simp: scoped_def candidates_def)
  then show ?thesis using assms(3-5)
    by (auto simp: Evaluate_def Let_def hasPermission_def PermissionAll_def
        split: if_splits sum.splits)
qed

theorem Evaluate_store_failure_witness:
  "''crm.client.read'' \<in> set [''crm.client.read''] \<and>
   \<not> IsConfined (authz_New (Some (\<lambda>_ _ _ _ _. Err LookupFailed)) DefaultConfinedRoles)
      \<lparr> pr_ID = ''USR-000001'', pr_Kind = KindUser, pr_Roles = [''Manager''],
        pr_Permissions = [''crm.client.read''] \<rparr>"
proof -
  let ?e = "authz_New (Some (\<lambda>_ _ _ _ _. Err LookupFailed)) DefaultConfinedRoles"
  let ?p = "\<lparr> pr_ID = ''USR-000001'', pr_Kind = KindUser, pr_Roles = [''Manager''],
        pr_Permissions = [''crm.client.read''] \<rparr>"
  have t: "TrimSpace ''crm.client.read'' = ''crm.client.read''" by (simp add: TrimSpace_def is_space_def)
  have c: "TrimSpace ''Customer'' = ''Customer''" by (simp add: TrimSpace_def is_space_def)
  have "Evaluate ?e ?p ''crm.client.read'' Global = Ok allow"
    by (simp add: Evaluate_def t c Let_def hasPermission_def IsConfined_def authz_New_def
        DefaultConfinedRoles_def PermissionAll_def)
  from Evaluate_store_failure [OF _ _ this] show ?thesis by (simp add: t authz_New_def)
qed

end
