(* ===== verification/Rbac.thy ===== *)
theory Rbac
  imports Database Authz "HOL-Library.Product_Lexorder"
begin

section \<open>The RBAC store and its administration (platformdb/rbac.go, cmd/server/admin_rbac.go)\<close>

text \<open>
  Roles resolved from groups, scope grants with their fail-closed audit, the catalogue, and the handlers
  that administer them.  The evaluator's Grants interface is interpreted here on
  HasScopedPermission.  ORDER BY is byte order, as sort.Strings makes it for the access profile.
\<close>

record AccessProfile =
  ap_Roles :: "string list"
  ap_Permissions :: "string list"
  ap_Modules :: "string list"

record RoleView =
  rv_Role :: Role
  rv_Permissions :: "string list"
  rv_Modules :: "string list"

text \<open>The roles of the join that all three statements of ResolveAccess share.\<close>

definition mapped_roles :: "DB \<Rightarrow> string list \<Rightarrow> string \<Rightarrow> Role list" where
  "mapped_roles db groups kind =
     [r. (g, rid) \<leftarrow> db_group_roles db, g \<in> set groups,
         r \<leftarrow> db_roles db, ro_ID r = rid \<and> ro_Enabled r \<and> ro_Kind r = kind]"

definition ResolveAccess :: "down \<Rightarrow> string list \<Rightarrow> string \<Rightarrow> DB \<Rightarrow> DBError + AccessProfile" where
  "ResolveAccess down groups kind db =
     (if groups = [] then Ok \<lparr> ap_Roles = [], ap_Permissions = [], ap_Modules = [] \<rparr>
      else
        bind_result (statement down ''access_roles''
          (remdups (map ro_Name (mapped_roles db groups kind)))) (\<lambda>roleNames.
        bind_result (statement down ''access_permissions''
          (remdups [p. r \<leftarrow> mapped_roles db groups kind, (rid, p) \<leftarrow> db_role_permissions db, rid = ro_ID r]))
            (\<lambda>permissions.
        bind_result (statement down ''access_modules''
          (remdups [m. r \<leftarrow> mapped_roles db groups kind, (rid, m) \<leftarrow> db_role_modules db, rid = ro_ID r]))
            (\<lambda>modules.
        Ok \<lparr> ap_Roles = sort roleNames, ap_Permissions = sort permissions, ap_Modules = sort modules \<rparr>))))"

definition ListRoles :: "down \<Rightarrow> DB \<Rightarrow> DBError + RoleView list" where
  "ListRoles down db =
     bind_result (statement down ''roles'' (sort_key (\<lambda>r. (ro_Kind r, ro_Name r)) (db_roles db))) (\<lambda>roles.
     if roles = [] then Ok []
     else
       bind_result (statement down ''role_permissions'' (sort (db_role_permissions db))) (\<lambda>perms.
       bind_result (statement down ''role_modules'' (sort (db_role_modules db))) (\<lambda>mods.
       Ok (map (\<lambda>r. \<lparr> rv_Role = r,
                     rv_Permissions = [p. (rid, p) \<leftarrow> perms, rid = ro_ID r],
                     rv_Modules = [m. (rid, m) \<leftarrow> mods, rid = ro_ID r] \<rparr>) roles))))"

definition principalTypes :: "string list" where
  "principalTypes = [''user'', ''service'', ''group'']"

definition scopeTypes :: "string list" where
  "scopeTypes = [''global'', ''tenant'', ''client'', ''project'', ''resource'']"

text \<open>INSERT INTO principal_scopes ON CONFLICT DO NOTHING, with its foreign key.\<close>

definition insert_scope :: "down \<Rightarrow> ScopeGrant \<Rightarrow> DB \<Rightarrow> DBError + DB" where
  "insert_scope down grant db =
     (if down ''scope_insert'' then Err (StoreFailure ''scope_insert'')
      else if grant \<in> set (db_scopes db) then Ok db
      else if sg_PermissionID grant \<notin> set (db_permissions db) then Err ForeignKeyViolation
      else Ok (db \<lparr> db_scopes := db_scopes db @ [grant] \<rparr>))"

definition audit_in_tx :: "down \<Rightarrow> int \<Rightarrow> AuditEvent \<Rightarrow> DB \<Rightarrow> DBError + unit \<times> DB" where
  "audit_in_tx down now record db =
     (if down ''audit_insert'' then Err ErrAuditNotDurable else Ok ((), auditInsert now record db))"

definition AddScopeGrant ::
  "down \<Rightarrow> int \<Rightarrow> ScopeGrant \<Rightarrow> AuditEvent \<Rightarrow> DB \<Rightarrow> (DBError + unit) \<times> DB" where
  "AddScopeGrant down now grant record db =
     (if sg_PrincipalType grant \<notin> set principalTypes then (Err ErrInvalidPrincipalType, db)
      else if sg_ScopeType grant \<notin> set scopeTypes then (Err ErrInvalidScopeType, db)
      else transaction down (\<lambda>db1.
        case insert_scope down grant db1 of
          Inl e \<Rightarrow> Err (if isForeignKeyViolation e then ErrUnknownPermission else e)
        | Inr db2 \<Rightarrow> audit_in_tx down now record db2) db)"

definition DeleteScopeGrant ::
  "down \<Rightarrow> int \<Rightarrow> ScopeGrant \<Rightarrow> AuditEvent \<Rightarrow> DB \<Rightarrow> (DBError + unit) \<times> DB" where
  "DeleteScopeGrant down now grant record =
     transaction down (\<lambda>db1.
       bind_result (statement down ''scope_delete''
         (db1 \<lparr> db_scopes := filter (\<lambda>g. g \<noteq> grant) (db_scopes db1) \<rparr>))
       (audit_in_tx down now record))"

definition ListScopeGrants :: "down \<Rightarrow> string \<Rightarrow> string \<Rightarrow> DB \<Rightarrow> DBError + ScopeGrant list" where
  "ListScopeGrants down principalType principalID db =
     statement down ''scope_list''
       (sort_key (\<lambda>g. (sg_ScopeType g, sg_ScopeID g, sg_PermissionID g))
         (filter (\<lambda>g. sg_PrincipalType g = principalType \<and> sg_PrincipalID g = principalID) (db_scopes db)))"

definition scope_row_covers :: "ScopeGrant \<Rightarrow> string \<Rightarrow> string \<Rightarrow> string \<Rightarrow> string \<Rightarrow> string \<Rightarrow> bool" where
  "scope_row_covers g principalType principalID scopeType scopeID permissionID \<longleftrightarrow>
     sg_PrincipalType g = principalType \<and> sg_PrincipalID g = principalID \<and>
     (sg_PermissionID g = permissionID \<or> sg_PermissionID g = ''*'') \<and>
     (sg_ScopeType g = ''global'' \<and> sg_ScopeID g = ''*'' \<or>
      sg_ScopeType g = scopeType \<and> (sg_ScopeID g = scopeID \<or> sg_ScopeID g = ''*''))"

definition HasScopedPermission ::
  "down \<Rightarrow> DB \<Rightarrow> string \<Rightarrow> string \<Rightarrow> string \<Rightarrow> string \<Rightarrow> string \<Rightarrow> DBError + bool" where
  "HasScopedPermission down db principalType principalID scopeType scopeID permissionID =
     statement down ''scope_check''
       (\<exists>g \<in> set (db_scopes db).
          scope_row_covers g principalType principalID scopeType scopeID permissionID)"

text \<open>The store as the evaluator's Grants.\<close>

definition db_grants :: "down \<Rightarrow> DB \<Rightarrow> Grants" where
  "db_grants down db k p t i perm =
     (case HasScopedPermission down db k p t i perm of
        Inl _ \<Rightarrow> Err LookupFailed | Inr b \<Rightarrow> Ok b)"

definition platform_authz :: "down \<Rightarrow> DB \<Rightarrow> Evaluator" where
  "platform_authz down db = authz_New (Some (db_grants down db)) DefaultConfinedRoles"

lemma db_grants_up:
  "\<not> down ''scope_check'' \<Longrightarrow> db_grants down db k p t i perm =
     Ok (\<exists>g \<in> set (db_scopes db). scope_row_covers g k p t i perm)"
  by (simp add: db_grants_def HasScopedPermission_def)

lemma db_grants_down: "down ''scope_check'' \<Longrightarrow> db_grants down db k p t i perm = Err LookupFailed"
  by (simp add: db_grants_def HasScopedPermission_def)

interpretation store: grants "db_grants down db" for down db
proof (unfold_locales)
  show "db_grants down db k p t ''*'' perm = Ok True \<Longrightarrow> db_grants down db k p t i perm = Ok True"
    for k p t perm i
    by (cases "down ''scope_check''")
      (auto simp: db_grants_up db_grants_down scope_row_covers_def)
  show "db_grants down db k p ScopeGlobal ''*'' perm = Ok True \<Longrightarrow> db_grants down db k p t i perm = Ok True"
    for k p perm t i
    by (cases "down ''scope_check''")
      (auto simp: db_grants_up db_grants_down scope_row_covers_def ScopeGlobal_def)
  show "db_grants down db k p t i perm = Err e \<Longrightarrow> db_grants down db k' p' t' i' perm' = Err e"
    for k p t i perm e k' p' t' i' perm'
    by (cases "down ''scope_check''") (simp_all add: db_grants_up db_grants_down)
qed

subsection \<open>The requesting principal\<close>

record meResponse =
  me_ID :: string
  me_Subject :: string
  me_Email :: string
  me_Name :: string
  me_Username :: string
  me_Groups :: "string list"
  me_Roles :: "string list"
  me_Permissions :: "string list"
  me_Modules :: "string list"

record userInfo =
  ui_Sub :: string
  ui_Email :: string
  ui_Name :: string
  ui_PreferredUsername :: string
  ui_Groups :: "string list"

fun unique_from :: "string list \<Rightarrow> string list \<Rightarrow> string list" where
  "unique_from seen [] = []"
| "unique_from seen (v # vs) =
     (if v \<noteq> [] \<and> v \<notin> set seen then v # unique_from (v # seen) vs else unique_from seen vs)"

definition unique :: "string list \<Rightarrow> string list" where
  "unique vs = unique_from [] vs"

definition resolveAccess :: "down \<Rightarrow> userInfo \<Rightarrow> string \<Rightarrow> DB \<Rightarrow> DBError + meResponse" where
  "resolveAccess down info globalUserID db =
     bind_result (ResolveAccess down (unique (ui_Groups info)) ''human'' db) (\<lambda>profile.
       Ok \<lparr> me_ID = globalUserID, me_Subject = ui_Sub info, me_Email = ui_Email info,
            me_Name = ui_Name info,
            me_Username = (if ui_PreferredUsername info = [] then ui_Email info else ui_PreferredUsername info),
            me_Groups = unique (ui_Groups info), me_Roles = ap_Roles profile,
            me_Permissions = ap_Permissions profile, me_Modules = ap_Modules profile \<rparr>)"

text \<open>
  The parts of the request the handlers read, besides the decoded body.  Error messages that quote a
  value (the verb q of fmt) are kept without it.
\<close>

record HttpContext =
  hx_RequestID :: string
  hx_SourceIP :: string
  hx_Now :: int

definition auditRecord ::
  "HttpContext \<Rightarrow> meResponse \<Rightarrow> string \<Rightarrow> string \<Rightarrow> string \<Rightarrow> (string \<times> string) list \<Rightarrow> AuditEvent" where
  "auditRecord hx access action resourceType resourceID metadata =
     \<lparr> au_ID = 0, au_OccurredAt = 0, au_Subject = me_Subject access, au_GlobalUserID = me_ID access,
       au_Action = action, au_ResourceType = resourceType, au_ResourceID = resourceID,
       au_RequestID = hx_RequestID hx, au_SourceIP = hx_SourceIP hx, au_Metadata = metadata \<rparr>"

definition audit ::
  "down \<Rightarrow> HttpContext \<Rightarrow> meResponse \<Rightarrow> string \<Rightarrow> string \<Rightarrow> string \<Rightarrow> (string \<times> string) list \<Rightarrow> DB \<Rightarrow> DB" where
  "audit down hx access action resourceType resourceID metadata db =
     snd (InsertAudit down (hx_Now hx) (auditRecord hx access action resourceType resourceID metadata) db)"

subsection \<open>The administration handlers\<close>

definition adminRoles :: "down \<Rightarrow> DB \<Rightarrow> RoleView list Reply" where
  "adminRoles down db =
     (case ListRoles down db of
        Inl _ \<Rightarrow> reply_error 503 ''RBAC catalog unavailable'' []
      | Inr roles \<Rightarrow> reply 200 roles)"

definition adminListScopes :: "down \<Rightarrow> string \<Rightarrow> string \<Rightarrow> DB \<Rightarrow> ScopeGrant list Reply" where
  "adminListScopes down principalType0 principalID0 db =
     (let principalType = TrimSpace principalType0; principalID = TrimSpace principalID0
      in if principalType = [] \<or> principalID = []
         then reply_error 400 ''principal_type and principal_id are required'' []
         else case ListScopeGrants down principalType principalID db of
           Inl _ \<Rightarrow> reply_error 503 ''scope store unavailable'' []
         | Inr gs \<Rightarrow> reply 200 gs)"

text \<open>The body decoded by encoding/json, None when it is not a grant object.\<close>

definition decodeScopeGrant :: "ScopeGrant option \<Rightarrow> ScopeGrant Reply + ScopeGrant" where
  "decodeScopeGrant body =
     (case body of
        None \<Rightarrow> Inl (reply_error 400 ''invalid JSON body'' [])
      | Some g0 \<Rightarrow>
          (let g = \<lparr> sg_PrincipalType = TrimSpace (sg_PrincipalType g0),
                     sg_PrincipalID = TrimSpace (sg_PrincipalID g0),
                     sg_ScopeType = TrimSpace (sg_ScopeType g0), sg_ScopeID = TrimSpace (sg_ScopeID g0),
                     sg_PermissionID = TrimSpace (sg_PermissionID g0) \<rparr>
           in if sg_PrincipalType g = [] \<or> sg_PrincipalID g = [] \<or> sg_ScopeType g = [] \<or>
                 sg_ScopeID g = [] \<or> sg_PermissionID g = []
              then Inl (reply_error 400 ''all scope grant fields are required'' [])
              else Inr g))"

definition grant_metadata :: "ScopeGrant \<Rightarrow> (string \<times> string) list" where
  "grant_metadata g =
     [(''principal_type'', sg_PrincipalType g), (''principal_id'', sg_PrincipalID g),
      (''permission'', sg_PermissionID g)]"

definition adminAddScope ::
  "down \<Rightarrow> HttpContext \<Rightarrow> meResponse \<Rightarrow> ScopeGrant option \<Rightarrow> DB \<Rightarrow> ScopeGrant Reply \<times> DB" where
  "adminAddScope down hx access body db =
     (case decodeScopeGrant body of
        Inl r \<Rightarrow> (r, db)
      | Inr grant \<Rightarrow>
          (case AddScopeGrant down (hx_Now hx) grant
             (auditRecord hx access ''rbac.scope.granted'' (sg_ScopeType grant) (sg_ScopeID grant)
               (grant_metadata grant)) db of
             (Inr _, db') \<Rightarrow> (reply 201 grant, db')
           | (Inl e, db') \<Rightarrow>
               ((if e = ErrInvalidPrincipalType
                 then reply_error 400 ''principal_type must be user, service or group'' ''invalid_principal_type''
                 else if e = ErrInvalidScopeType
                 then reply_error 400 ''scope_type must be global, tenant, client, project or resource''
                        ''invalid_scope_type''
                 else if e = ErrUnknownPermission
                 then reply_error 400 ''unknown permission'' ''unknown_permission''
                 else if e = ErrAuditNotDurable
                 then reply_error 503 ''the grant was refused because its audit record could not be written''
                        ''audit_unavailable''
                 else reply_error 503 ''scope store unavailable'' ''scope_store_unavailable''), db')))"

definition adminDeleteScope ::
  "down \<Rightarrow> HttpContext \<Rightarrow> meResponse \<Rightarrow> ScopeGrant option \<Rightarrow> DB \<Rightarrow> ScopeGrant Reply \<times> DB" where
  "adminDeleteScope down hx access body db =
     (case decodeScopeGrant body of
        Inl r \<Rightarrow> (r, db)
      | Inr grant \<Rightarrow>
          (case DeleteScopeGrant down (hx_Now hx) grant
             (auditRecord hx access ''rbac.scope.revoked'' (sg_ScopeType grant) (sg_ScopeID grant)
               (grant_metadata grant)) db of
             (Inr _, db') \<Rightarrow> (reply 200 grant, db')
           | (Inl e, db') \<Rightarrow>
               ((if e = ErrAuditNotDurable
                 then reply_error 503 ''the revocation was refused because its audit record could not be written''
                        ''audit_unavailable''
                 else reply_error 503 ''scope store unavailable'' ''scope_store_unavailable''), db')))"

subsection \<open>Lemmas\<close>

lemma AddScopeGrant_ok:
  "AddScopeGrant down now grant record db = (Ok u, db') \<longleftrightarrow>
     sg_PrincipalType grant \<in> set principalTypes \<and> sg_ScopeType grant \<in> set scopeTypes \<and>
     \<not> down ''begin'' \<and> \<not> down ''commit'' \<and> \<not> down ''scope_insert'' \<and> \<not> down ''audit_insert'' \<and>
     (grant \<in> set (db_scopes db) \<or> sg_PermissionID grant \<in> set (db_permissions db)) \<and>
     db' = auditInsert now record
       (if grant \<in> set (db_scopes db) then db else db \<lparr> db_scopes := db_scopes db @ [grant] \<rparr>)"
  by (auto simp: AddScopeGrant_def transaction_ok insert_scope_def audit_in_tx_def
      split: sum.splits if_splits)

lemma AddScopeGrant_error: "AddScopeGrant down now grant record db = (Err e, db') \<Longrightarrow> db' = db"
  by (auto simp: AddScopeGrant_def split: if_splits dest: transaction_error)

lemma DeleteScopeGrant_ok:
  "DeleteScopeGrant down now grant record db = (Ok u, db') \<longleftrightarrow>
     \<not> down ''begin'' \<and> \<not> down ''commit'' \<and> \<not> down ''scope_delete'' \<and> \<not> down ''audit_insert'' \<and>
     db' = auditInsert now record (db \<lparr> db_scopes := filter (\<lambda>g. g \<noteq> grant) (db_scopes db) \<rparr>)"
  by (auto simp: DeleteScopeGrant_def transaction_ok audit_in_tx_def statement_def
      split: sum.splits if_splits)

lemma DeleteScopeGrant_error: "DeleteScopeGrant down now grant record db = (Err e, db') \<Longrightarrow> db' = db"
  by (auto simp: DeleteScopeGrant_def dest: transaction_error)

lemma auditInsert_simps [simp]:
  "db_scopes (auditInsert now r db) = db_scopes db"
  "length (db_audit (auditInsert now r db)) = Suc (length (db_audit db))"
  "db_outbox (auditInsert now r db) = db_outbox db"
  "db_entities (auditInsert now r db) = db_entities db"
  by (simp_all add: auditInsert_def)

lemma platform_authz_grants [simp]:
  "ev_grants (platform_authz down db) = Some (db_grants down db)"
  "ev_confinedRoles (platform_authz down db) = [''Customer'']"
proof -
  have "TrimSpace ''Customer'' = ''Customer''" by (simp add: TrimSpace_def is_space_def)
  then show "ev_confinedRoles (platform_authz down db) = [''Customer'']"
    by (simp add: platform_authz_def authz_New_def DefaultConfinedRoles_def)
qed (simp add: platform_authz_def authz_New_def)

lemma platform_scoped:
  assumes "pr_Kind p = KindUser \<or> pr_Kind p = KindService" "sc_Type scope \<noteq> []"
  shows "scoped (platform_authz down db) p perm scope =
    (if down ''scope_check'' then Err LookupFailed
     else Ok (\<exists>g \<in> set (db_scopes db).
       scope_row_covers g (pr_Kind p) (pr_ID p) (sc_Type scope) (sc_ID scope) perm))"
  by (simp add: store.scoped_single [OF platform_authz_grants(1) assms] db_grants_up db_grants_down)

subsection \<open>What the boundary promises\<close>

text \<open>
  C15.  The platform's authorization decision, against its stored data: with the grant table readable, a
  caller is allowed a permission in a scope exactly when it is an administrator, or holds the
  permission through its roles and is not a Customer, or one row of principal_scopes names it,
  the permission (or all of them) and the scope, its whole type or everything.  The three
  lookups the evaluator makes amount to that single row test.
\<close>

theorem platform_allows_iff:
  assumes "\<not> down ''scope_check''" "pr_Kind p = KindUser \<or> pr_Kind p = KindService"
    and "sc_Type scope \<noteq> []" "pr_ID p \<noteq> []" "TrimSpace perm = perm" "perm \<noteq> []"
  shows "(\<exists>d. Evaluate (platform_authz down db) p perm scope = Ok d \<and> dc_Allowed d) \<longleftrightarrow>
    ''*'' \<in> set (pr_Permissions p) \<or> perm \<in> set (pr_Permissions p) \<and> ''Customer'' \<notin> set (pr_Roles p) \<or>
    (\<exists>g \<in> set (db_scopes db).
       scope_row_covers g (pr_Kind p) (pr_ID p) (sc_Type scope) (sc_ID scope) perm)"
  unfolding Evaluate_characterized platform_scoped [OF assms(2,3)]
  using assms by auto

text \<open>
  C1.  Fail-closed audit: widening or narrowing what a principal may see either happens together with
  exactly one new audit record naming who did it, or changes nothing at all; this for every
  combination of failing statements, and both for the store and for what the
  administration endpoints answer (201 and 200 are sent only for the first case).
\<close>

theorem scope_changes_audited:
  "(case adminAddScope down hx access body db of (r, db') \<Rightarrow>
     if rp_Status r = 201
     then \<exists>grant. rp_Body r = Some grant \<and>
       set (db_scopes db') = insert grant (set (db_scopes db)) \<and>
       (\<exists>a. db_audit db' = db_audit db @ [a] \<and> au_Action a = ''rbac.scope.granted'' \<and>
          au_GlobalUserID a = me_ID access \<and> au_ResourceID a = sg_ScopeID grant \<and>
          au_Metadata a = grant_metadata grant)
     else db' = db) \<and>
   (case adminDeleteScope down hx access body db of (r, db') \<Rightarrow>
     if rp_Status r = 200
     then \<exists>grant. rp_Body r = Some grant \<and>
       set (db_scopes db') = set (db_scopes db) - {grant} \<and>
       (\<exists>a. db_audit db' = db_audit db @ [a] \<and> au_Action a = ''rbac.scope.revoked'' \<and>
          au_GlobalUserID a = me_ID access \<and> au_ResourceID a = sg_ScopeID grant \<and>
          au_Metadata a = grant_metadata grant)
     else db' = db)"
proof (intro conjI)
  have bad: "decodeScopeGrant body = Inl r \<Longrightarrow> rp_Status r = 400" for r
    by (auto simp: decodeScopeGrant_def Let_def split: option.splits if_splits)
  show "case adminAddScope down hx access body db of (r, db') \<Rightarrow>
     if rp_Status r = 201
     then \<exists>grant. rp_Body r = Some grant \<and>
       set (db_scopes db') = insert grant (set (db_scopes db)) \<and>
       (\<exists>a. db_audit db' = db_audit db @ [a] \<and> au_Action a = ''rbac.scope.granted'' \<and>
          au_GlobalUserID a = me_ID access \<and> au_ResourceID a = sg_ScopeID grant \<and>
          au_Metadata a = grant_metadata grant)
     else db' = db"
    by (auto simp: adminAddScope_def AddScopeGrant_ok auditInsert_def auditRecord_def bad
        dest!: bad split: sum.splits prod.splits dest: AddScopeGrant_error)
  show "case adminDeleteScope down hx access body db of (r, db') \<Rightarrow>
     if rp_Status r = 200
     then \<exists>grant. rp_Body r = Some grant \<and>
       set (db_scopes db') = set (db_scopes db) - {grant} \<and>
       (\<exists>a. db_audit db' = db_audit db @ [a] \<and> au_Action a = ''rbac.scope.revoked'' \<and>
          au_GlobalUserID a = me_ID access \<and> au_ResourceID a = sg_ScopeID grant \<and>
          au_Metadata a = grant_metadata grant)
     else db' = db"
    by (auto simp: adminDeleteScope_def DeleteScopeGrant_ok auditInsert_def auditRecord_def bad
        dest!: bad split: sum.splits prod.splits dest: DeleteScopeGrant_error)
qed

text \<open>A sample catalogue: two roles, a permission, no grants.\<close>

definition sample_db :: DB where
  "sample_db = \<lparr> db_roles = [\<lparr> ro_ID = ''customer'', ro_Name = ''Customer'', ro_Kind = ''human'',
       ro_Description = [], ro_Enabled = True \<rparr>],
     db_group_roles = [(''BSYSTEM-Customers'', ''customer'')],
     db_role_permissions = [(''customer'', ''support.incident.read'')], db_role_modules = [],
     db_permissions = [''*'', ''support.incident.read''], db_scopes = [], db_audit = [],
     db_entities = [],
     db_counters = [\<lparr> ct_EntityType = ''user'', ct_Prefix = ''USR'', ct_NextValue = 1 \<rparr>,
       \<lparr> ct_EntityType = ''service'', ct_Prefix = ''SVC'', ct_NextValue = 1 \<rparr>,
       \<lparr> ct_EntityType = ''incident'', ct_Prefix = ''INC'', ct_NextValue = 1 \<rparr>,
       \<lparr> ct_EntityType = ''client'', ct_Prefix = ''CL'', ct_NextValue = 1 \<rparr>],
     db_identities = [], db_services = [], db_outbox = [] \<rparr>"

definition all_up :: down where "all_up = (\<lambda>_. False)"

definition sample_principal :: Principal where
  "sample_principal = \<lparr> pr_ID = ''USR-000001'', pr_Kind = KindUser, pr_Roles = [''Customer''],
     pr_Permissions = [''support.incident.read''] \<rparr>"

definition sample_grant :: ScopeGrant where
  "sample_grant = \<lparr> sg_PrincipalType = ''user'', sg_PrincipalID = ''USR-000001'',
     sg_ScopeType = ''client'', sg_ScopeID = ''CL-000001'', sg_PermissionID = ''support.incident.read'' \<rparr>"

definition sample_audit :: AuditEvent where
  "sample_audit = \<lparr> au_ID = 0, au_OccurredAt = 0, au_Subject = [], au_GlobalUserID = [],
     au_Action = ''rbac.scope.granted'', au_ResourceType = [], au_ResourceID = [], au_RequestID = [],
     au_SourceIP = [], au_Metadata = [] \<rparr>"

lemma trim_perm: "TrimSpace ''support.incident.read'' = ''support.incident.read''"
  by code_simp

theorem platform_allows_iff_witness:
  "\<not> (\<exists>d. Evaluate (platform_authz all_up sample_db) sample_principal ''support.incident.read''
        (Resource ScopeClient ''CL-000001'') = Ok d \<and> dc_Allowed d)"
  using platform_allows_iff [of all_up sample_principal "Resource ScopeClient ''CL-000001''"
      "''support.incident.read''" sample_db] trim_perm
  by (simp add: all_up_def sample_principal_def sample_db_def Resource_def ScopeClient_def)

text \<open>
  What a stored grant does to decisions: it takes nothing from anybody, it lets the principal it
  names exercise its permission in its scope, and for every other principal (another
  identifier or another kind) every decision stays what it was.
\<close>

theorem grant_effect:
  assumes "AddScopeGrant down now grant record db = (Ok u, db')"
  shows "(Evaluate (platform_authz down db) p perm scope = Ok d \<and> dc_Allowed d \<longrightarrow>
      (\<exists>d'. Evaluate (platform_authz down db') p perm scope = Ok d' \<and> dc_Allowed d')) \<and>
    (sg_PrincipalType grant = pr_Kind p \<and> sg_PrincipalID grant = pr_ID p \<and> pr_ID p \<noteq> [] \<and>
       pr_Kind p \<in> {KindUser, KindService} \<and> sg_PermissionID grant = TrimSpace perm \<and>
       sg_ScopeType grant = sc_Type scope \<and> sg_ScopeID grant = sc_ID scope \<and> \<not> down ''scope_check'' \<longrightarrow>
       (\<exists>d'. Evaluate (platform_authz down db') p perm scope = Ok d' \<and> dc_Allowed d')) \<and>
    (sg_PrincipalType grant \<noteq> pr_Kind p \<or> sg_PrincipalID grant \<noteq> pr_ID p \<longrightarrow>
       Evaluate (platform_authz down db') p perm scope = Evaluate (platform_authz down db) p perm scope)"
proof -
  have s: "set (db_scopes db') = insert grant (set (db_scopes db))" "sg_ScopeType grant \<in> set scopeTypes"
    using assms by (auto simp: AddScopeGrant_ok)
  have more: "scoped (platform_authz down db) p q scope = Ok True \<Longrightarrow>
      scoped (platform_authz down db') p q scope = Ok True" for q
  proof -
    assume a: "scoped (platform_authz down db) p q scope = Ok True"
    then have k: "pr_Kind p = KindUser \<or> pr_Kind p = KindService" "sc_Type scope \<noteq> []"
      by (auto simp: scoped_def split: if_splits)
    show ?thesis using a unfolding platform_scoped [OF k] by (auto simp: s split: if_splits)
  qed
  have other: "scoped (platform_authz down db') p q scope = scoped (platform_authz down db) p q scope"
    if "sg_PrincipalType grant \<noteq> pr_Kind p \<or> sg_PrincipalID grant \<noteq> pr_ID p" for q
  proof (cases "(pr_Kind p = KindUser \<or> pr_Kind p = KindService) \<and> sc_Type scope \<noteq> []")
    case True
    then show ?thesis using that s by (auto simp: platform_scoped scope_row_covers_def)
  qed (auto simp: scoped_def)
  have given: "scoped (platform_authz down db') p (TrimSpace perm) scope = Ok True"
    if "sg_PrincipalType grant = pr_Kind p" "sg_PrincipalID grant = pr_ID p"
      "pr_Kind p \<in> {KindUser, KindService}" "sg_PermissionID grant = TrimSpace perm"
      "sg_ScopeType grant = sc_Type scope" "sg_ScopeID grant = sc_ID scope" "\<not> down ''scope_check''"
  proof -
    have "sc_Type scope \<noteq> []" using s(2) that(5) by (auto simp: scopeTypes_def)
    then show ?thesis using that s by (auto simp: platform_scoped scope_row_covers_def)
  qed
  show ?thesis
  proof (intro conjI impI)
    note c = Evaluate_characterized [of "platform_authz down db" p perm scope, unfolded platform_authz_grants]
    note c' = Evaluate_characterized [of "platform_authz down db'" p perm scope, unfolded platform_authz_grants]
    show "\<exists>d'. Evaluate (platform_authz down db') p perm scope = Ok d' \<and> dc_Allowed d'"
      if "Evaluate (platform_authz down db) p perm scope = Ok d \<and> dc_Allowed d"
      unfolding c' using that c more [of "TrimSpace perm"] by blast
    show "\<exists>d'. Evaluate (platform_authz down db') p perm scope = Ok d' \<and> dc_Allowed d'"
      if "sg_PrincipalType grant = pr_Kind p \<and> sg_PrincipalID grant = pr_ID p \<and> pr_ID p \<noteq> [] \<and>
        pr_Kind p \<in> {KindUser, KindService} \<and> sg_PermissionID grant = TrimSpace perm \<and>
        sg_ScopeType grant = sc_Type scope \<and> sg_ScopeID grant = sc_ID scope \<and> \<not> down ''scope_check''"
      unfolding c' using that given by blast
    show "Evaluate (platform_authz down db') p perm scope = Evaluate (platform_authz down db) p perm scope"
      if "sg_PrincipalType grant \<noteq> pr_Kind p \<or> sg_PrincipalID grant \<noteq> pr_ID p"
      using other [OF that] by (simp add: Evaluate_def Let_def IsConfined_def)
  qed
qed

theorem grant_effect_witness:
  "\<exists>d. Evaluate (platform_authz all_up (snd (AddScopeGrant all_up 0 sample_grant sample_audit sample_db)))
      sample_principal ''support.incident.read'' (Resource ScopeClient ''CL-000001'') = Ok d \<and> dc_Allowed d"
proof -
  obtain u db' where a: "AddScopeGrant all_up 0 sample_grant sample_audit sample_db = (Ok u, db')"
    by (simp add: AddScopeGrant_ok sample_grant_def sample_db_def all_up_def principalTypes_def scopeTypes_def)
  have "sg_PrincipalType sample_grant = pr_Kind sample_principal \<and>
      sg_PrincipalID sample_grant = pr_ID sample_principal \<and> pr_ID sample_principal \<noteq> [] \<and>
      pr_Kind sample_principal \<in> {KindUser, KindService} \<and>
      sg_PermissionID sample_grant = TrimSpace ''support.incident.read'' \<and>
      sg_ScopeType sample_grant = sc_Type (Resource ScopeClient ''CL-000001'') \<and>
      sg_ScopeID sample_grant = sc_ID (Resource ScopeClient ''CL-000001'') \<and> \<not> all_up ''scope_check''"
    by (simp add: trim_perm sample_grant_def sample_principal_def Resource_def ScopeClient_def KindUser_def
        all_up_def)
  with grant_effect [OF a, of sample_principal "''support.incident.read''" "Resource ScopeClient ''CL-000001''"]
  show ?thesis unfolding a snd_conv by blast
qed

text \<open>
  A divergence: the store accepts a scope grant for a group, and audits it, but no decision ever
  reads one: the evaluator looks grants up for users and services only, so the grant changes no answer for
  anybody.
\<close>

theorem group_grants_inert:
  assumes "AddScopeGrant down now grant record db = (Ok u, db')" "sg_PrincipalType grant = ''group''"
  shows "Evaluate (platform_authz down db') p perm scope = Evaluate (platform_authz down db) p perm scope"
proof -
  have s: "set (db_scopes db') = insert grant (set (db_scopes db))"
    using assms(1) by (auto simp: AddScopeGrant_ok)
  have "scoped (platform_authz down db') p q scope = scoped (platform_authz down db) p q scope" for q
  proof (cases "(pr_Kind p = KindUser \<or> pr_Kind p = KindService) \<and> sc_Type scope \<noteq> []")
    case True
    then have "pr_Kind p \<noteq> ''group''" by (auto simp: KindUser_def KindService_def)
    then show ?thesis using True assms(2) s by (auto simp: platform_scoped scope_row_covers_def)
  qed (auto simp: scoped_def)
  then show ?thesis by (simp add: Evaluate_def Let_def IsConfined_def)
qed

theorem group_grants_inert_witness:
  "let g = sample_grant \<lparr> sg_PrincipalType := ''group'', sg_PrincipalID := ''BSYSTEM-Customers'' \<rparr>;
       db' = snd (AddScopeGrant all_up 0 g sample_audit sample_db)
   in g \<in> set (db_scopes db') \<and>
      Evaluate (platform_authz all_up db') sample_principal ''support.incident.read'' Global =
      Evaluate (platform_authz all_up sample_db) sample_principal ''support.incident.read'' Global"
proof -
  let ?g = "sample_grant \<lparr> sg_PrincipalType := ''group'', sg_PrincipalID := ''BSYSTEM-Customers'' \<rparr>"
  obtain u db' where a: "AddScopeGrant all_up 0 ?g sample_audit sample_db = (Ok u, db')"
    by (simp add: AddScopeGrant_ok sample_grant_def sample_db_def all_up_def principalTypes_def scopeTypes_def)
  then have "?g \<in> set (db_scopes db')" by (auto simp: AddScopeGrant_ok)
  with group_grants_inert [OF a] show ?thesis by (simp add: a Let_def)
qed

text \<open>
  What groups resolve to: a permission is in the access profile exactly when an enabled role of the
  requested kind that one of the groups maps to has it, and likewise the role names; the
  lists come back sorted and without duplicates, and no group means no access.
\<close>

theorem ResolveAccess_exact:
  assumes "ResolveAccess down groups kind db = Ok profile"
  shows "set (ap_Permissions profile) =
      {p. \<exists>g rid. g \<in> set groups \<and> (g, rid) \<in> set (db_group_roles db) \<and> (rid, p) \<in> set (db_role_permissions db) \<and>
          (\<exists>r \<in> set (db_roles db). ro_ID r = rid \<and> ro_Enabled r \<and> ro_Kind r = kind)} \<and>
    set (ap_Roles profile) =
      {n. \<exists>g r. g \<in> set groups \<and> (g, ro_ID r) \<in> set (db_group_roles db) \<and> r \<in> set (db_roles db) \<and>
          ro_Enabled r \<and> ro_Kind r = kind \<and> n = ro_Name r} \<and>
    sorted (ap_Permissions profile) \<and> distinct (ap_Permissions profile) \<and>
    sorted (ap_Roles profile) \<and> distinct (ap_Roles profile)"
proof (cases "groups = []")
  case True
  then show ?thesis using assms by (auto simp: ResolveAccess_def)
next
  case False
  have m: "set (mapped_roles db groups kind) =
      {r. \<exists>g. g \<in> set groups \<and> (g, ro_ID r) \<in> set (db_group_roles db) \<and> r \<in> set (db_roles db) \<and>
          ro_Enabled r \<and> ro_Kind r = kind}"
    by (auto simp: mapped_roles_def split: prod.splits)
  obtain roles perms mods where p: "profile = \<lparr> ap_Roles = sort roles, ap_Permissions = sort perms, ap_Modules = sort mods \<rparr>"
    and r: "roles = remdups (map ro_Name (mapped_roles db groups kind))"
    and q: "perms = remdups [p. r \<leftarrow> mapped_roles db groups kind, (rid, p) \<leftarrow> db_role_permissions db, rid = ro_ID r]"
    using assms False
    by (auto simp: ResolveAccess_def statement_def elim!: bind_result_OkE split: if_splits)
  have perms: "set perms = {p. \<exists>g rid. g \<in> set groups \<and> (g, rid) \<in> set (db_group_roles db) \<and>
      (rid, p) \<in> set (db_role_permissions db) \<and>
      (\<exists>r \<in> set (db_roles db). ro_ID r = rid \<and> ro_Enabled r \<and> ro_Kind r = kind)}"
  proof -
    have "set perms = {p. \<exists>r \<in> set (mapped_roles db groups kind). (ro_ID r, p) \<in> set (db_role_permissions db)}"
      unfolding q by (auto split: prod.splits)
    then show ?thesis unfolding m by blast
  qed
  have roles: "set roles = {n. \<exists>g r. g \<in> set groups \<and> (g, ro_ID r) \<in> set (db_group_roles db) \<and>
      r \<in> set (db_roles db) \<and> ro_Enabled r \<and> ro_Kind r = kind \<and> n = ro_Name r}"
    unfolding r set_remdups set_map m by blast
  have "distinct perms" "distinct roles" unfolding q r by simp_all
  then show ?thesis using perms roles by (simp add: p)
qed

theorem ResolveAccess_exact_witness:
  "case ResolveAccess all_up [''BSYSTEM-Customers''] ''human'' sample_db of
     Inl _ \<Rightarrow> False
   | Inr profile \<Rightarrow> ''support.incident.read'' \<in> set (ap_Permissions profile) \<and>
       distinct (ap_Permissions profile)"
proof -
  have "\<not> isl (ResolveAccess all_up [''BSYSTEM-Customers''] ''human'' sample_db)" by code_simp
  then obtain profile where p: "ResolveAccess all_up [''BSYSTEM-Customers''] ''human'' sample_db = Ok profile"
    by (cases "ResolveAccess all_up [''BSYSTEM-Customers''] ''human'' sample_db") auto
  have "(''BSYSTEM-Customers'', ''customer'') \<in> set (db_group_roles sample_db)"
    "(''customer'', ''support.incident.read'') \<in> set (db_role_permissions sample_db)"
    "\<exists>r \<in> set (db_roles sample_db). ro_ID r = ''customer'' \<and> ro_Enabled r \<and> ro_Kind r = ''human''"
    by (simp_all add: sample_db_def)
  moreover have "''BSYSTEM-Customers'' \<in> set [''BSYSTEM-Customers'']" by simp
  ultimately have "''support.incident.read'' \<in> set (ap_Permissions profile)"
    using ResolveAccess_exact [OF p, THEN conjunct1] by blast
  moreover have "distinct (ap_Permissions profile)" using ResolveAccess_exact [OF p] by blast
  ultimately show ?thesis unfolding p by simp
qed

end
