(* ===== verification/GlobalIds.thy ===== *)
theory GlobalIds
  imports Rbac
begin

section \<open>Global IDs and identities (platformdb/db.go, identity.go, service_identity.go)\<close>

text \<open>
  Allocation of Global IDs, the first sighting of human and machine identities, and the handlers over
  them.  A transaction reads, then others commit (the argument others, which the code's comments call
  losing the race), then it writes; it is rolled back to what the others left.  The advisory lock that serializes
  the identity paths makes that argument the identity there.
\<close>

subsection \<open>Allocation\<close>

definition mk_global_id :: "string \<Rightarrow> nat \<Rightarrow> string" where
  "mk_global_id prefix value = prefix @ [CHR ''-''] @ pad6 value"

definition same_source :: "string \<Rightarrow> string \<Rightarrow> string \<Rightarrow> GlobalEntity \<Rightarrow> bool" where
  "same_source entityType source sourceID e \<longleftrightarrow>
     ge_Source e = source \<and> ge_EntityType e = entityType \<and> ge_SourceID e = sourceID"

definition by_source :: "string \<Rightarrow> string \<Rightarrow> string \<Rightarrow> DB \<Rightarrow> GlobalEntity option" where
  "by_source entityType source sourceID db = find (same_source entityType source sourceID) (db_entities db)"

definition LookupGlobalEntity :: "down \<Rightarrow> string \<Rightarrow> string \<Rightarrow> string \<Rightarrow> DB \<Rightarrow> DBError + GlobalEntity" where
  "LookupGlobalEntity down entityType source sourceID db =
     bind_result (statement down ''entity_lookup'' (by_source entityType source sourceID db))
       (\<lambda>r. case r of None \<Rightarrow> Err NoRows | Some e \<Rightarrow> Ok e)"

definition globalEntityBySource :: "down \<Rightarrow> string \<Rightarrow> string \<Rightarrow> string \<Rightarrow> DB \<Rightarrow> DBError + GlobalEntity" where
  "globalEntityBySource down entityType source sourceID db =
     bind_result (statement down ''entity_by_source'' (by_source entityType source sourceID db))
       (\<lambda>r. case r of None \<Rightarrow> Err NoRows | Some e \<Rightarrow> Ok e)"

definition ResolveGlobalEntity :: "down \<Rightarrow> string \<Rightarrow> DB \<Rightarrow> DBError + GlobalEntity" where
  "ResolveGlobalEntity down globalID db =
     bind_result (statement down ''entity_resolve'' (find (\<lambda>e. ge_GlobalID e = globalID) (db_entities db)))
       (\<lambda>r. case r of None \<Rightarrow> Err NoRows | Some e \<Rightarrow> Ok e)"

text \<open>UPDATE global_id_counters ... RETURNING prefix, next_value-1: the counter before the update.\<close>

definition take_counter :: "string \<Rightarrow> DB \<Rightarrow> (string \<times> nat \<times> DB) option" where
  "take_counter entityType db =
     (case find (\<lambda>c. ct_EntityType c = entityType) (db_counters db) of
        None \<Rightarrow> None
      | Some c \<Rightarrow> Some (ct_Prefix c, ct_NextValue c,
          db \<lparr> db_counters := map (\<lambda>c. if ct_EntityType c = entityType
                 then c \<lparr> ct_NextValue := ct_NextValue c + 1 \<rparr> else c) (db_counters db) \<rparr>))"

definition entity_conflict :: "GlobalEntity \<Rightarrow> DB \<Rightarrow> bool" where
  "entity_conflict e db \<longleftrightarrow>
     (\<exists>x \<in> set (db_entities db). ge_GlobalID x = ge_GlobalID e \<or>
        same_source (ge_EntityType e) (ge_Source e) (ge_SourceID e) x)"

definition CreateGlobalEntity ::
  "down \<Rightarrow> RequestContext \<Rightarrow> (DB \<Rightarrow> DB) \<Rightarrow> string \<Rightarrow> string \<Rightarrow> string \<Rightarrow> string \<Rightarrow> (string \<times> string) list
   \<Rightarrow> DB \<Rightarrow> (DBError + GlobalEntity) \<times> DB" where
  "CreateGlobalEntity down rx others entityType source sourceID tenantID metadata db =
     (if down ''begin'' then (Err (StoreFailure ''begin''), db)
      else if down ''entity_select'' then (Err (StoreFailure ''entity_select''), db)
      else case by_source entityType source sourceID db of
        Some existing \<Rightarrow>
          (if down ''commit'' then Err (StoreFailure ''commit'') else Ok existing, db)
      | None \<Rightarrow>
          (let db1 = others db
           in if down ''counter_update'' then (Err (StoreFailure ''counter_update''), db1)
              else case take_counter entityType db1 of
                None \<Rightarrow> (Err ErrUnsupportedEntityType, db1)
              | Some (prefix, val, db2) \<Rightarrow>
                  (let globalID = mk_global_id prefix val;
                       e = \<lparr> ge_GlobalID = globalID, ge_EntityType = entityType, ge_Source = source,
                             ge_SourceID = sourceID, ge_TenantID = tenantID, ge_Metadata = metadata,
                             ge_CreatedAt = rx_Now rx \<rparr>
                   in if down ''entity_insert'' then (Err (StoreFailure ''entity_insert''), db1)
                      else if entity_conflict e db1
                      then (globalEntityBySource down entityType source sourceID db1, db1)
                      else case queueDurableEvent down rx ''global_id.created'' globalID tenantID
                             [(''global_id'', globalID), (''entity_type'', entityType),
                              (''source'', source), (''source_id'', sourceID)]
                             (db2 \<lparr> db_entities := db_entities db2 @ [e] \<rparr>) of
                          Inl err \<Rightarrow> (Err err, db1)
                        | Inr db3 \<Rightarrow>
                            if down ''commit'' then (Err (StoreFailure ''commit''), db1) else (Ok e, db3))))"

record GlobalIDRequest =
  gr_SourceID :: string
  gr_TenantID :: string
  gr_Metadata :: "(string \<times> string) list"

text \<open>The allocation loop of MapGlobalIDs; the n-th request draws the n-th event identifier.\<close>

fun map_unmapped ::
  "down \<Rightarrow> (string \<Rightarrow> RequestContext) \<Rightarrow> string \<Rightarrow> string \<Rightarrow> GlobalIDRequest list \<Rightarrow> (string \<rightharpoonup> string)
   \<Rightarrow> DB \<Rightarrow> (DBError + (string \<rightharpoonup> string)) \<times> DB" where
  "map_unmapped down rx entityType source [] mapped db = (Ok mapped, db)"
| "map_unmapped down rx entityType source (r # rs) mapped db =
     (if gr_SourceID r = [] then map_unmapped down rx entityType source rs mapped db
      else case mapped (gr_SourceID r) of
        Some _ \<Rightarrow> map_unmapped down rx entityType source rs mapped db
      | None \<Rightarrow>
          (case CreateGlobalEntity down (rx (gr_SourceID r)) id entityType source (gr_SourceID r)
                  (gr_TenantID r) (gr_Metadata r) db of
             (Inl e, db') \<Rightarrow> (Err e, db')
           | (Inr entity, db') \<Rightarrow>
               map_unmapped down rx entityType source rs
                 (mapped(gr_SourceID r \<mapsto> ge_GlobalID entity)) db'))"

definition MapGlobalIDs ::
  "down \<Rightarrow> (string \<Rightarrow> RequestContext) \<Rightarrow> string \<Rightarrow> string \<Rightarrow> GlobalIDRequest list
   \<Rightarrow> DB \<Rightarrow> (DBError + (string \<rightharpoonup> string)) \<times> DB" where
  "MapGlobalIDs down rx entityType source requests db =
     (if requests = [] then (Ok Map.empty, db)
      else
        (let sourceIDs = unique (map gr_SourceID requests);
             rows = [(ge_SourceID e, ge_GlobalID e). e \<leftarrow> db_entities db,
                      ge_Source e = source \<and> ge_EntityType e = entityType \<and> ge_SourceID e \<in> set sourceIDs]
         in if down ''entity_select_many'' then (Err (StoreFailure ''entity_select_many''), db)
            else map_unmapped down rx entityType source requests (map_of (rev rows)) db))"

subsection \<open>Identities\<close>

record Identity =
  idn_Subject :: string
  idn_Email :: string
  idn_DisplayName :: string
  idn_Username :: string
  idn_Groups :: "string list"

text \<open>INSERT INTO identities ... ON CONFLICT (subject) DO UPDATE, which keeps the Global ID.\<close>

definition upsert_identity :: "int \<Rightarrow> string \<Rightarrow> Identity \<Rightarrow> DB \<Rightarrow> DB" where
  "upsert_identity now globalID i db =
     (if idn_Subject i \<in> id_Subject ` set (db_identities db)
      then db \<lparr> db_identities := map (\<lambda>r. if id_Subject r = idn_Subject i
             then r \<lparr> id_Email := idn_Email i, id_DisplayName := idn_DisplayName i,
                      id_Username := idn_Username i, id_Groups := idn_Groups i, id_LastSeenAt := now \<rparr>
             else r) (db_identities db) \<rparr>
      else db \<lparr> db_identities := db_identities db @
             [\<lparr> id_Subject = idn_Subject i, id_GlobalUserID = globalID, id_Email = idn_Email i,
                id_DisplayName = idn_DisplayName i, id_Username = idn_Username i,
                id_Groups = idn_Groups i, id_FirstSeenAt = now, id_LastSeenAt = now \<rparr>] \<rparr>)"

text \<open>INSERT INTO global_entities ... ON CONFLICT (source,entity_type,source_id) DO NOTHING.\<close>

definition register_entity :: "GlobalEntity \<Rightarrow> DB \<Rightarrow> DBError + DB" where
  "register_entity e db =
     (if by_source (ge_EntityType e) (ge_Source e) (ge_SourceID e) db \<noteq> None then Ok db
      else if ge_GlobalID e \<in> ge_GlobalID ` set (db_entities db) then Err UniqueViolation
      else Ok (db \<lparr> db_entities := db_entities db @ [e] \<rparr>))"

definition managed_entity :: "RequestContext \<Rightarrow> string \<Rightarrow> string \<Rightarrow> string \<Rightarrow> string \<Rightarrow> GlobalEntity" where
  "managed_entity rx globalID entityType subject managedBy =
     \<lparr> ge_GlobalID = globalID, ge_EntityType = entityType, ge_Source = ''authentik'',
       ge_SourceID = subject, ge_TenantID = [], ge_Metadata = [(''managed_by'', managedBy)],
       ge_CreatedAt = rx_Now rx \<rparr>"

text \<open>The tail both identity paths share for a first sighting: register the identifier, announce it.\<close>

definition register_identity ::
  "down \<Rightarrow> RequestContext \<Rightarrow> GlobalEntity \<Rightarrow> string \<Rightarrow> (string \<times> string) list \<Rightarrow> DB \<Rightarrow> DBError + DB" where
  "register_identity down rx e event dat db =
     bind_result (statement down ''entity_insert'' ()) (\<lambda>_.
     bind_result (register_entity e db) (\<lambda>db1.
       queueDurableEvent down rx event (ge_GlobalID e) [] dat db1))"

definition EnsureIdentity ::
  "down \<Rightarrow> RequestContext \<Rightarrow> Identity \<Rightarrow> DB \<Rightarrow> (DBError + string \<times> bool) \<times> DB" where
  "EnsureIdentity down rx i =
     transaction down (\<lambda>db.
       bind_result (statement down ''identity_lock'' ()) (\<lambda>_.
       bind_result (statement down ''identity_select''
           (find (\<lambda>r. id_Subject r = idn_Subject i) (db_identities db))) (\<lambda>row.
       bind_result
         (case row of
            Some r \<Rightarrow> Ok (id_GlobalUserID r, False, db)
          | None \<Rightarrow>
              bind_result (statement down ''counter_update'' (take_counter ''user'' db)) (\<lambda>c.
                case c of None \<Rightarrow> Err NoRows
                | Some (prefix, val, db1) \<Rightarrow> Ok (mk_global_id prefix val, True, db1)))
         (\<lambda>(globalID, created, db1).
       bind_result (statement down ''identity_upsert'' (upsert_identity (rx_Now rx) globalID i db1)) (\<lambda>db2.
       bind_result
         (if created
          then register_identity down rx (managed_entity rx globalID ''user'' (idn_Subject i) ''identity'')
                 ''identity.created'' [(''global_user_id'', globalID), (''subject'', idn_Subject i)] db2
          else Ok db2) (\<lambda>db3.
       Ok ((globalID, created), db3)))))))"

record ServiceIdentity =
  svi_Subject :: string
  svi_Name :: string
  svi_Username :: string
  svi_Groups :: "string list"

definition upsert_service :: "int \<Rightarrow> string \<Rightarrow> ServiceIdentity \<Rightarrow> DB \<Rightarrow> DB" where
  "upsert_service now globalID i db =
     (if svi_Subject i \<in> sv_Subject ` set (db_services db)
      then db \<lparr> db_services := map (\<lambda>r. if sv_Subject r = svi_Subject i
             then r \<lparr> sv_Name := svi_Name i, sv_Username := svi_Username i, sv_Groups := svi_Groups i,
                      sv_LastSeenAt := now \<rparr> else r) (db_services db) \<rparr>
      else db \<lparr> db_services := db_services db @
             [\<lparr> sv_Subject = svi_Subject i, sv_GlobalServiceID = globalID, sv_Name = svi_Name i,
                sv_Username = svi_Username i, sv_Groups = svi_Groups i, sv_LastSeenAt = now \<rparr>] \<rparr>)"

definition EnsureServiceIdentity ::
  "down \<Rightarrow> RequestContext \<Rightarrow> ServiceIdentity \<Rightarrow> DB \<Rightarrow> (DBError + string \<times> bool) \<times> DB" where
  "EnsureServiceIdentity down rx i =
     transaction down (\<lambda>db.
       bind_result (statement down ''service_lock'' ()) (\<lambda>_.
       bind_result (statement down ''service_select''
           (find (\<lambda>r. sv_Subject r = svi_Subject i) (db_services db))) (\<lambda>row.
       bind_result
         (case row of
            Some r \<Rightarrow> Ok (sv_GlobalServiceID r, False, db)
          | None \<Rightarrow>
              bind_result (statement down ''counter_update'' (take_counter ''service'' db)) (\<lambda>c.
                case c of None \<Rightarrow> Err NoRows
                | Some (prefix, val, db1) \<Rightarrow> Ok (mk_global_id prefix val, True, db1)))
         (\<lambda>(globalID, created, db1).
       bind_result (statement down ''service_upsert'' (upsert_service (rx_Now rx) globalID i db1)) (\<lambda>db2.
       bind_result
         (if created
          then register_identity down rx
                 (managed_entity rx globalID ''service'' (svi_Subject i) ''service_identity'')
                 ''service_identity.created''
                 [(''global_service_id'', globalID), (''subject'', svi_Subject i)] db2
          else Ok db2) (\<lambda>db3.
       Ok ((globalID, created), db3)))))))"

definition ListIdentities :: "down \<Rightarrow> DB \<Rightarrow> DBError + IdentityRow list" where
  "ListIdentities down db =
     statement down ''identity_list''
       (sort_key (\<lambda>r. (id_Username r, id_GlobalUserID r)) (db_identities db))"

subsection \<open>Identifiers are never handed out twice\<close>

lemma mk_global_id_inject: "mk_global_id p v = mk_global_id q w \<longleftrightarrow> p = q \<and> v = w"
proof
  assume "mk_global_id p v = mk_global_id q w"
  then have "rev (mk_global_id p v) = rev (mk_global_id q w)" by simp
  then have "rev (pad6 v) @ CHR ''-'' # rev p = rev (pad6 w) @ CHR ''-'' # rev q"
    by (simp add: mk_global_id_def)
  then have eq: "rev (pad6 v) @ CHR ''-'' # rev p = rev (pad6 w) @ CHR ''-'' # rev q" .
  have tw: "takeWhile (\<lambda>c. c \<noteq> CHR ''-'') (rev (pad6 n) @ CHR ''-'' # r) = rev (pad6 n)" for n r
    using dash_notin_pad6 [of n] by (subst takeWhile_append2) auto
  have "rev (pad6 v) = rev (pad6 w)"
    using arg_cong [OF eq, of "takeWhile (\<lambda>c. c \<noteq> CHR ''-'')"] by (simp only: tw)
  then show "p = q \<and> v = w" using eq by (simp add: pad6_inject)
qed simp

definition used :: "DB \<Rightarrow> string \<Rightarrow> bool" where
  "used db i \<longleftrightarrow> (\<exists>c \<in> set (db_counters db). \<exists>v < ct_NextValue c. i = mk_global_id (ct_Prefix c) v)"

definition counters_ok :: "DB \<Rightarrow> bool" where
  "counters_ok db \<longleftrightarrow> distinct (map ct_EntityType (db_counters db)) \<and> distinct (map ct_Prefix (db_counters db))"

text \<open>
  Every identifier the platform holds came from a counter that has moved past it; no two entities share an
  identifier or a source record; no two identities share an identifier or a subject.
\<close>

definition gid_inv :: "DB \<Rightarrow> bool" where
  "gid_inv db \<longleftrightarrow> counters_ok db \<and>
     (\<forall>i \<in> ge_GlobalID ` set (db_entities db) \<union> id_GlobalUserID ` set (db_identities db) \<union>
           sv_GlobalServiceID ` set (db_services db). used db i) \<and>
     distinct (map ge_GlobalID (db_entities db)) \<and>
     distinct (map (\<lambda>e. (ge_Source e, ge_EntityType e, ge_SourceID e)) (db_entities db)) \<and>
     distinct (map id_GlobalUserID (db_identities db)) \<and> distinct (map id_Subject (db_identities db)) \<and>
     distinct (map sv_GlobalServiceID (db_services db)) \<and> distinct (map sv_Subject (db_services db))"

lemma take_counter_frame:
  assumes "take_counter et db = Some (p, v, db2)"
  shows "db_entities db2 = db_entities db" "db_identities db2 = db_identities db"
    "db_services db2 = db_services db" "db_outbox db2 = db_outbox db" "db_audit db2 = db_audit db"
    "map ct_EntityType (db_counters db2) = map ct_EntityType (db_counters db)"
    "map ct_Prefix (db_counters db2) = map ct_Prefix (db_counters db)"
  using assms by (auto simp: take_counter_def split: option.splits)

lemma take_counter_used:
  assumes "take_counter et db = Some (p, v, db2)" "counters_ok db"
  shows "used db i \<Longrightarrow> used db2 i" "used db2 (mk_global_id p v)" "\<not> used db (mk_global_id p v)"
proof -
  obtain c where c: "find (\<lambda>c. ct_EntityType c = et) (db_counters db) = Some c"
    and pv: "p = ct_Prefix c" "v = ct_NextValue c"
    and db2: "db2 = db \<lparr> db_counters := map (\<lambda>c. if ct_EntityType c = et
                 then c \<lparr> ct_NextValue := ct_NextValue c + 1 \<rparr> else c) (db_counters db) \<rparr>"
    using assms(1) by (auto simp: take_counter_def split: option.splits)
  have mem: "c \<in> set (db_counters db)" "ct_EntityType c = et"
    using c by (auto simp: find_Some_iff)
  have up: "\<exists>d' \<in> set (db_counters db2). ct_Prefix d' = ct_Prefix d \<and> ct_NextValue d \<le> ct_NextValue d'"
    if "d \<in> set (db_counters db)" for d
  proof -
    let ?d = "if ct_EntityType d = et then d \<lparr> ct_NextValue := ct_NextValue d + 1 \<rparr> else d"
    have "?d \<in> set (db_counters db2)" using that by (simp add: db2)
    moreover have "ct_Prefix ?d = ct_Prefix d \<and> ct_NextValue d \<le> ct_NextValue ?d" by simp
    ultimately show ?thesis by blast
  qed
  show "used db i \<Longrightarrow> used db2 i"
    unfolding used_def using up by (metis order_less_le_trans)
  have "c \<lparr> ct_NextValue := ct_NextValue c + 1 \<rparr> \<in> set (db_counters db2)"
    using mem by (force simp: db2)
  then show "used db2 (mk_global_id p v)" unfolding used_def pv
    by (intro bexI [of _ "c \<lparr> ct_NextValue := ct_NextValue c + 1 \<rparr>"] exI [of _ "ct_NextValue c"]) simp_all
  show "\<not> used db (mk_global_id p v)"
  proof
    assume "used db (mk_global_id p v)"
    then obtain d w where d: "d \<in> set (db_counters db)" "w < ct_NextValue d" "ct_Prefix d = p" "w = v"
      by (auto simp: used_def mk_global_id_inject)
    then have "d = c" using mem assms(2) pv
      by (auto simp: counters_ok_def distinct_map inj_on_def)
    then show False using d pv by simp
  qed
qed

lemma by_source_Some: "by_source t s i db = Some e \<Longrightarrow> e \<in> set (db_entities db) \<and> same_source t s i e"
  by (auto simp: by_source_def find_Some_iff)

lemma by_source_None: "by_source t s i db = None \<longleftrightarrow> (\<forall>e \<in> set (db_entities db). \<not> same_source t s i e)"
  by (auto simp: by_source_def find_None_iff)

lemma queue_frame:
  assumes "queueDurableEvent down rx ev i t d db = Ok db'"
  shows "db_entities db' = db_entities db" "db_identities db' = db_identities db"
    "db_services db' = db_services db" "db_counters db' = db_counters db"
  using assms by (auto simp: queueDurableEvent_ok)

text \<open>The three ways an allocation can end.\<close>

lemma CreateGlobalEntity_cases:
  assumes "CreateGlobalEntity down rx others t s sid tn meta db = (r, db')"
  obtains (found) e where "by_source t s sid db = Some e" "r = Ok e" "db' = db"
  | (raced) e where "by_source t s sid (others db) = Some e" "r = Ok e" "db' = others db"
  | (minted) p v db2 e where "by_source t s sid db = None" "take_counter t (others db) = Some (p, v, db2)"
      "e = \<lparr> ge_GlobalID = mk_global_id p v, ge_EntityType = t, ge_Source = s, ge_SourceID = sid,
             ge_TenantID = tn, ge_Metadata = meta, ge_CreatedAt = rx_Now rx \<rparr>"
      "\<not> entity_conflict e (others db)" "r = Ok e"
      "queueDurableEvent down rx ''global_id.created'' (mk_global_id p v) tn
         [(''global_id'', mk_global_id p v), (''entity_type'', t), (''source'', s), (''source_id'', sid)]
         (db2 \<lparr> db_entities := db_entities db2 @ [e] \<rparr>) = Ok db'"
  | (failed) err where "r = Err err" "db' = db \<or> db' = others db"
proof -
  have "(\<exists>err. r = Err err) \<and> (db' = db \<or> db' = others db) \<or> (\<exists>e. r = Ok e)"
    using assms
    by (cases r) (auto simp: CreateGlobalEntity_def Let_def split: if_splits option.splits sum.splits)
  then consider "\<exists>err. r = Err err \<and> (db' = db \<or> db' = others db)" | e where "r = Ok e" by blast
  then show thesis
  proof cases
    case 1
    then show ?thesis using failed by blast
  next
    case 2
    show ?thesis
    proof (cases "by_source t s sid db")
      case (Some x)
      then show ?thesis using assms 2 found by (auto simp: CreateGlobalEntity_def split: if_splits)
    next
      case None
      then obtain p v db2 where tc: "take_counter t (others db) = Some (p, v, db2)"
        using assms 2 by (auto simp: CreateGlobalEntity_def Let_def split: if_splits option.splits)
      let ?e = "\<lparr> ge_GlobalID = mk_global_id p v, ge_EntityType = t, ge_Source = s, ge_SourceID = sid,
             ge_TenantID = tn, ge_Metadata = meta, ge_CreatedAt = rx_Now rx \<rparr>"
      show ?thesis
      proof (cases "entity_conflict ?e (others db)")
        case True
        then show ?thesis using assms 2 None tc
          by (intro raced)
            (auto simp: CreateGlobalEntity_def Let_def globalEntityBySource_def statement_def
              elim!: bind_result_OkE split: if_splits option.splits)
      next
        case False
        then show ?thesis using assms 2 None tc
          by (intro minted [OF None tc refl False])
            (auto simp: CreateGlobalEntity_def Let_def split: if_splits sum.splits)
      qed
    qed
  qed
qed

text \<open>The invariant over what it reads: the counters and the three lists of identifiers.\<close>

lemma gid_inv_frame:
  assumes "gid_inv db" "db_counters db' = db_counters db" "db_entities db' = db_entities db"
    and "map id_GlobalUserID (db_identities db') = map id_GlobalUserID (db_identities db)"
    and "map id_Subject (db_identities db') = map id_Subject (db_identities db)"
    and "map sv_GlobalServiceID (db_services db') = map sv_GlobalServiceID (db_services db)"
    and "map sv_Subject (db_services db') = map sv_Subject (db_services db)"
  shows "gid_inv db'"
proof -
  have "id_GlobalUserID ` set (db_identities db') = id_GlobalUserID ` set (db_identities db)"
    "sv_GlobalServiceID ` set (db_services db') = sv_GlobalServiceID ` set (db_services db)"
    using assms(4,6) by (metis list.set_map)+
  then show ?thesis using assms by (simp add: gid_inv_def counters_ok_def used_def)
qed

lemma entity_added:
  assumes "gid_inv db" "\<not> entity_conflict e db" "used db (ge_GlobalID e)"
    and "db_entities db' = db_entities db @ [e]" "db_counters db' = db_counters db"
    and "db_identities db' = db_identities db" "db_services db' = db_services db"
  shows "gid_inv db'"
proof -
  have "ge_GlobalID e \<notin> ge_GlobalID ` set (db_entities db)"
    "(ge_Source e, ge_EntityType e, ge_SourceID e) \<notin>
       (\<lambda>e. (ge_Source e, ge_EntityType e, ge_SourceID e)) ` set (db_entities db)"
    using assms(2) by (auto simp: entity_conflict_def same_source_def)
  then show ?thesis using assms by (auto simp: gid_inv_def counters_ok_def used_def)
qed

lemma counter_taken:
  assumes "gid_inv db" "take_counter t db = Some (p, v, db2)"
  shows "gid_inv db2"
proof -
  note fr = take_counter_frame [OF assms(2)]
  have c: "counters_ok db" using assms(1) by (simp add: gid_inv_def)
  note us = take_counter_used(1) [OF assms(2) c]
  show ?thesis using assms(1) us unfolding gid_inv_def counters_ok_def fr by blast
qed

lemma minted_fresh:
  assumes "gid_inv db" "take_counter t db = Some (p, v, db2)"
  shows "mk_global_id p v \<notin> ge_GlobalID ` set (db_entities db)"
    "mk_global_id p v \<notin> id_GlobalUserID ` set (db_identities db)"
    "mk_global_id p v \<notin> sv_GlobalServiceID ` set (db_services db)"
    "used db2 (mk_global_id p v)"
proof -
  have c: "counters_ok db" using assms(1) by (simp add: gid_inv_def)
  have "\<not> used db (mk_global_id p v)" by (rule take_counter_used(3) [OF assms(2) c])
  then show "mk_global_id p v \<notin> ge_GlobalID ` set (db_entities db)"
    "mk_global_id p v \<notin> id_GlobalUserID ` set (db_identities db)"
    "mk_global_id p v \<notin> sv_GlobalServiceID ` set (db_services db)"
    using assms(1) unfolding gid_inv_def by blast+
  show "used db2 (mk_global_id p v)" by (rule take_counter_used(2) [OF assms(2) c])
qed

lemma CreateGlobalEntity_inv:
  assumes "CreateGlobalEntity down rx others t s sid tn meta db = (r, db')"
    and "gid_inv db" "gid_inv (others db)"
  shows "gid_inv db'"
  using assms(1)
proof (cases rule: CreateGlobalEntity_cases)
  case (minted p v db2 e)
  note fr = take_counter_frame [OF minted(2)]
  note q = queue_frame [OF minted(6)]
  have "gid_inv db2" by (rule counter_taken [OF assms(3) minted(2)])
  moreover have "\<not> entity_conflict e db2" using minted(4) by (simp add: entity_conflict_def fr)
  moreover have "used db2 (ge_GlobalID e)" using minted_fresh(4) [OF assms(3) minted(2)] minted(3) by simp
  ultimately show ?thesis by (rule entity_added) (simp_all add: q)
qed (use assms in auto)

lemma register_identity_ok:
  assumes "register_identity down rx e ev d db = Ok db'"
  shows "db_identities db' = db_identities db" "db_services db' = db_services db"
    "db_counters db' = db_counters db"
    "db_entities db' = db_entities db \<and> by_source (ge_EntityType e) (ge_Source e) (ge_SourceID e) db \<noteq> None \<or>
     db_entities db' = db_entities db @ [e] \<and> \<not> entity_conflict e db"
proof -
  obtain db1 where r: "register_entity e db = Ok db1"
    and q: "queueDurableEvent down rx ev (ge_GlobalID e) [] d db1 = Ok db'"
    using assms by (auto simp: register_identity_def elim!: bind_result_OkE)
  note f = queue_frame [OF q]
  have r': "db1 = db \<and> by_source (ge_EntityType e) (ge_Source e) (ge_SourceID e) db \<noteq> None \<or>
      db1 = db \<lparr> db_entities := db_entities db @ [e] \<rparr> \<and> \<not> entity_conflict e db"
    using r by (auto simp: register_entity_def entity_conflict_def by_source_None image_iff split: if_splits)
  show "db_identities db' = db_identities db" "db_services db' = db_services db"
    "db_counters db' = db_counters db" using r' f by auto
  show "db_entities db' = db_entities db \<and> by_source (ge_EntityType e) (ge_Source e) (ge_SourceID e) db \<noteq> None \<or>
     db_entities db' = db_entities db @ [e] \<and> \<not> entity_conflict e db"
    using r' f by auto
qed

lemma EnsureIdentity_cases:
  assumes "EnsureIdentity down rx i db = (r, db')"
  obtains (known) row where "find (\<lambda>r. id_Subject r = idn_Subject i) (db_identities db) = Some row"
      "r = Ok (id_GlobalUserID row, False)"
      "db' = upsert_identity (rx_Now rx) (id_GlobalUserID row) i db"
  | (first) p v db1 where "find (\<lambda>r. id_Subject r = idn_Subject i) (db_identities db) = None"
      "take_counter ''user'' db = Some (p, v, db1)" "r = Ok (mk_global_id p v, True)"
      "register_identity down rx (managed_entity rx (mk_global_id p v) ''user'' (idn_Subject i) ''identity'')
         ''identity.created'' [(''global_user_id'', mk_global_id p v), (''subject'', idn_Subject i)]
         (upsert_identity (rx_Now rx) (mk_global_id p v) i db1) = Ok db'"
  | (failed) err where "r = Err err" "db' = db"
proof (cases r)
  case (Inl err)
  then have "db' = db" using assms unfolding EnsureIdentity_def by (auto dest: transaction_error)
  with Inl show thesis by (rule failed)
next
  case (Inr gc)
  then show thesis
    using assms known first
    unfolding EnsureIdentity_def
    by (auto simp: transaction_ok statement_def elim!: bind_result_OkE split: if_splits option.splits)
qed

lemma EnsureServiceIdentity_cases:
  assumes "EnsureServiceIdentity down rx i db = (r, db')"
  obtains (known) row where "find (\<lambda>r. sv_Subject r = svi_Subject i) (db_services db) = Some row"
      "r = Ok (sv_GlobalServiceID row, False)"
      "db' = upsert_service (rx_Now rx) (sv_GlobalServiceID row) i db"
  | (first) p v db1 where "find (\<lambda>r. sv_Subject r = svi_Subject i) (db_services db) = None"
      "take_counter ''service'' db = Some (p, v, db1)" "r = Ok (mk_global_id p v, True)"
      "register_identity down rx
         (managed_entity rx (mk_global_id p v) ''service'' (svi_Subject i) ''service_identity'')
         ''service_identity.created'' [(''global_service_id'', mk_global_id p v), (''subject'', svi_Subject i)]
         (upsert_service (rx_Now rx) (mk_global_id p v) i db1) = Ok db'"
  | (failed) err where "r = Err err" "db' = db"
proof (cases r)
  case (Inl err)
  then have "db' = db" using assms unfolding EnsureServiceIdentity_def by (auto dest: transaction_error)
  with Inl show thesis by (rule failed)
next
  case (Inr gc)
  then show thesis
    using assms known first
    unfolding EnsureServiceIdentity_def
    by (auto simp: transaction_ok statement_def elim!: bind_result_OkE split: if_splits option.splits)
qed

lemma upsert_identity_known:
  assumes "find (\<lambda>r. id_Subject r = idn_Subject i) (db_identities db) = Some row"
  shows "map id_GlobalUserID (db_identities (upsert_identity now g i db)) = map id_GlobalUserID (db_identities db)"
    "map id_Subject (db_identities (upsert_identity now g i db)) = map id_Subject (db_identities db)"
proof -
  have "row \<in> set (db_identities db)" "id_Subject row = idn_Subject i"
    using assms by (auto simp: find_Some_iff)
  then have "idn_Subject i \<in> id_Subject ` set (db_identities db)" by force
  then show "map id_GlobalUserID (db_identities (upsert_identity now g i db)) = map id_GlobalUserID (db_identities db)"
    "map id_Subject (db_identities (upsert_identity now g i db)) = map id_Subject (db_identities db)"
    by (simp_all add: upsert_identity_def)
qed

lemma upsert_identity_new:
  assumes "find (\<lambda>r. id_Subject r = idn_Subject i) (db_identities db) = None"
  shows "\<exists>row. id_GlobalUserID row = g \<and> id_Subject row = idn_Subject i \<and>
    db_identities (upsert_identity now g i db) = db_identities db @ [row]"
proof -
  have "idn_Subject i \<notin> id_Subject ` set (db_identities db)" using assms by (auto simp: find_None_iff)
  then show ?thesis by (simp add: upsert_identity_def)
qed

lemma upsert_service_known:
  assumes "find (\<lambda>r. sv_Subject r = svi_Subject i) (db_services db) = Some row"
  shows "map sv_GlobalServiceID (db_services (upsert_service now g i db)) = map sv_GlobalServiceID (db_services db)"
    "map sv_Subject (db_services (upsert_service now g i db)) = map sv_Subject (db_services db)"
proof -
  have "row \<in> set (db_services db)" "sv_Subject row = svi_Subject i"
    using assms by (auto simp: find_Some_iff)
  then have "svi_Subject i \<in> sv_Subject ` set (db_services db)" by force
  then show "map sv_GlobalServiceID (db_services (upsert_service now g i db)) = map sv_GlobalServiceID (db_services db)"
    "map sv_Subject (db_services (upsert_service now g i db)) = map sv_Subject (db_services db)"
    by (simp_all add: upsert_service_def)
qed

lemma upsert_service_new:
  assumes "find (\<lambda>r. sv_Subject r = svi_Subject i) (db_services db) = None"
  shows "\<exists>row. sv_GlobalServiceID row = g \<and> sv_Subject row = svi_Subject i \<and>
    db_services (upsert_service now g i db) = db_services db @ [row]"
proof -
  have "svi_Subject i \<notin> sv_Subject ` set (db_services db)" using assms by (auto simp: find_None_iff)
  then show ?thesis by (simp add: upsert_service_def)
qed

lemma upsert_frames [simp]:
  "db_entities (upsert_identity now g i db) = db_entities db"
  "db_services (upsert_identity now g i db) = db_services db"
  "db_counters (upsert_identity now g i db) = db_counters db"
  "db_entities (upsert_service now g j db) = db_entities db"
  "db_identities (upsert_service now g j db) = db_identities db"
  "db_counters (upsert_service now g j db) = db_counters db"
  by (simp_all add: upsert_identity_def upsert_service_def)

text \<open>Registering the identifier of a first sighting keeps the invariant.\<close>

lemma registered_inv:
  assumes "gid_inv db" "used db (ge_GlobalID e)" "register_identity down rx e ev d db = Ok db'"
  shows "gid_inv db'"
proof -
  note r = register_identity_ok [OF assms(3)]
  from r(4) show ?thesis
  proof
    assume "db_entities db' = db_entities db \<and>
        by_source (ge_EntityType e) (ge_Source e) (ge_SourceID e) db \<noteq> None"
    then show ?thesis using assms(1) r(1-3) by - (rule gid_inv_frame [of db], simp_all)
  next
    assume "db_entities db' = db_entities db @ [e] \<and> \<not> entity_conflict e db"
    then show ?thesis using assms(1,2) r(1-3) by - (rule entity_added [of db e], simp_all)
  qed
qed

lemma EnsureIdentity_inv:
  assumes "EnsureIdentity down rx i db = (r, db')" "gid_inv db"
  shows "gid_inv db'"
  using assms(1)
proof (cases rule: EnsureIdentity_cases)
  case (known row)
  then show ?thesis using assms(2) upsert_identity_known [OF known(1)]
    by - (rule gid_inv_frame [of db], simp_all)
next
  case (first p v db1)
  note fr = take_counter_frame [OF first(2)]
  note fresh = minted_fresh [OF assms(2) first(2)]
  have none: "find (\<lambda>r. id_Subject r = idn_Subject i) (db_identities db1) = None"
    using first(1) by (simp add: fr)
  obtain row where row: "id_GlobalUserID row = mk_global_id p v" "id_Subject row = idn_Subject i"
    "db_identities (upsert_identity (rx_Now rx) (mk_global_id p v) i db1) = db_identities db1 @ [row]"
    using upsert_identity_new [OF none] by blast
  have "idn_Subject i \<notin> id_Subject ` set (db_identities db1)" using none by (auto simp: find_None_iff)
  moreover have "gid_inv db1" by (rule counter_taken [OF assms(2) first(2)])
  ultimately have "gid_inv (upsert_identity (rx_Now rx) (mk_global_id p v) i db1)"
    using row fresh by (simp add: gid_inv_def counters_ok_def used_def fr)
  moreover have "used (upsert_identity (rx_Now rx) (mk_global_id p v) i db1) (mk_global_id p v)"
    using fresh(4) by (simp add: used_def)
  ultimately show ?thesis
    by - (rule registered_inv [OF _ _ first(4)], simp_all add: managed_entity_def)
qed (use assms in simp)

lemma EnsureServiceIdentity_inv:
  assumes "EnsureServiceIdentity down rx i db = (r, db')" "gid_inv db"
  shows "gid_inv db'"
  using assms(1)
proof (cases rule: EnsureServiceIdentity_cases)
  case (known row)
  then show ?thesis using assms(2) upsert_service_known [OF known(1)]
    by - (rule gid_inv_frame [of db], simp_all)
next
  case (first p v db1)
  note fr = take_counter_frame [OF first(2)]
  note fresh = minted_fresh [OF assms(2) first(2)]
  have none: "find (\<lambda>r. sv_Subject r = svi_Subject i) (db_services db1) = None"
    using first(1) by (simp add: fr)
  obtain row where row: "sv_GlobalServiceID row = mk_global_id p v" "sv_Subject row = svi_Subject i"
    "db_services (upsert_service (rx_Now rx) (mk_global_id p v) i db1) = db_services db1 @ [row]"
    using upsert_service_new [OF none] by blast
  have "svi_Subject i \<notin> sv_Subject ` set (db_services db1)" using none by (auto simp: find_None_iff)
  moreover have "gid_inv db1" by (rule counter_taken [OF assms(2) first(2)])
  ultimately have "gid_inv (upsert_service (rx_Now rx) (mk_global_id p v) i db1)"
    using row fresh by (simp add: gid_inv_def counters_ok_def used_def fr)
  moreover have "used (upsert_service (rx_Now rx) (mk_global_id p v) i db1) (mk_global_id p v)"
    using fresh(4) by (simp add: used_def)
  ultimately show ?thesis
    by - (rule registered_inv [OF _ _ first(4)], simp_all add: managed_entity_def)
qed (use assms in simp)

text \<open>
  What any number of callers can do to the database through the allocation operations, failing
  statements and lost races included; what the others commit during an allocation is itself
  such a history.
\<close>

inductive allocations :: "DB \<Rightarrow> DB \<Rightarrow> bool" where
  none: "allocations db db"
| create: "allocations db0 db \<Longrightarrow> allocations db (others db) \<Longrightarrow>
    allocations db0 (snd (CreateGlobalEntity down rx others t s sid tn meta db))"
| identity: "allocations db0 db \<Longrightarrow> allocations db0 (snd (EnsureIdentity down rx i db))"
| service: "allocations db0 db \<Longrightarrow> allocations db0 (snd (EnsureServiceIdentity down rx j db))"

lemma allocations_inv: "allocations db0 db \<Longrightarrow> gid_inv db0 \<Longrightarrow> gid_inv db"
proof (induction rule: allocations.induct)
  case (create db0 db others down rx t s sid tn meta)
  then show ?case
    using CreateGlobalEntity_inv [of down rx others t s sid tn meta db] by (metis prod.collapse)
next
  case (identity db0 db down rx i)
  then show ?case using EnsureIdentity_inv [of down rx i db] by (metis prod.collapse)
next
  case (service db0 db down rx j)
  then show ?case using EnsureServiceIdentity_inv [of down rx j db] by (metis prod.collapse)
qed

text \<open>
  C16.  No Global ID is ever handed out twice and no source record ever gets two: after any history of
  allocations and first sightings, racing and failing at will, from a migrated database, the entities have distinct
  identifiers and distinct source records, the human and the machine identities have distinct
  identifiers and one row per subject.
\<close>

theorem global_ids_unique:
  assumes "allocations db0 db" "counters_ok db0" "db_entities db0 = []" "db_identities db0 = []"
    "db_services db0 = []"
  shows "distinct (map ge_GlobalID (db_entities db)) \<and>
    distinct (map (\<lambda>e. (ge_Source e, ge_EntityType e, ge_SourceID e)) (db_entities db)) \<and>
    distinct (map id_GlobalUserID (db_identities db)) \<and> distinct (map id_Subject (db_identities db)) \<and>
    distinct (map sv_GlobalServiceID (db_services db)) \<and> distinct (map sv_Subject (db_services db))"
proof -
  have "gid_inv db0" using assms(2-5) by (simp add: gid_inv_def)
  from allocations_inv [OF assms(1) this] show ?thesis by (simp add: gid_inv_def)
qed

definition sample_rx :: RequestContext where
  "sample_rx = \<lparr> rx_Correlation = ''req'', rx_EventID = Some ''ev-1'', rx_Now = 5 \<rparr>"

definition sample_create :: "DB \<Rightarrow> (DBError + GlobalEntity) \<times> DB" where
  "sample_create = CreateGlobalEntity all_up sample_rx id ''client'' ''espocrm'' ''a1'' [] []"

theorem global_ids_unique_witness:
  "map ge_GlobalID (db_entities (snd (sample_create sample_db))) = [''CL-000001''] \<and>
   distinct (map ge_GlobalID (db_entities (snd (sample_create sample_db))))"
proof -
  have r: "allocations sample_db (snd (sample_create sample_db))"
    unfolding sample_create_def by (intro allocations.create allocations.none) (simp add: allocations.none)
  have "counters_ok sample_db" by (simp add: counters_ok_def sample_db_def)
  from global_ids_unique [OF r this]
  have "distinct (map ge_GlobalID (db_entities (snd (sample_create sample_db))))"
    by (simp add: sample_db_def)
  moreover have "map ge_GlobalID (db_entities (snd (sample_create sample_db))) = [''CL-000001'']" by code_simp
  ultimately show ?thesis by simp
qed

text \<open>
  An allocation that answers is stable and announced exactly once: the answered entity is the stored one for
  its source record, asking again in any later state that still holds it answers the same entity and
  changes nothing, and the outbox gains an event precisely when the identifier was minted by this
  call, the event naming that identifier.
\<close>

theorem allocation_stable_and_announced:
  assumes "CreateGlobalEntity down rx others t s sid tn meta db = (Ok e, db')"
    and "rx_EventID rx = Some i" "i \<notin> ob_EventID ` set (db_outbox (others db))"
    and "\<And>x. by_source t s sid db = Some x \<Longrightarrow> by_source t s sid (others db) = Some x"
  shows "by_source t s sid db' = Some e \<and>
    (\<not> down' ''begin'' \<and> \<not> down' ''commit'' \<and> \<not> down' ''entity_select'' \<longrightarrow>
       CreateGlobalEntity down' rx' others' t s sid tn' meta' db' = (Ok e, db')) \<and>
    (if by_source t s sid (others db) = None
     then \<exists>row. db_outbox db' = db_outbox (others db) @ [row] \<and> ob_EventID row = i \<and>
            en_Event (ob_Payload row) = ''global_id.created'' \<and> en_EntityID (ob_Payload row) = ge_GlobalID e
     else db' = db \<or> db' = others db)"
proof -
  have again: "by_source t s sid db' = Some e \<Longrightarrow>
      \<not> down' ''begin'' \<and> \<not> down' ''commit'' \<and> \<not> down' ''entity_select'' \<Longrightarrow>
      CreateGlobalEntity down' rx' others' t s sid tn' meta' db' = (Ok e, db')"
    by (simp add: CreateGlobalEntity_def)
  from assms(1) show ?thesis
  proof (cases rule: CreateGlobalEntity_cases)
    case (found x)
    then show ?thesis using assms(4) again by auto
  next
    case (raced x)
    then show ?thesis using again by auto
  next
    case (minted p v db2 x)
    note fr = take_counter_frame [OF minted(2)]
    have ex: "e = x" using minted(5) by simp
    have none: "by_source t s sid (others db) = None"
      using minted(3,4) by (auto simp: by_source_None entity_conflict_def)
    have ob: "db_outbox db' = db_outbox (others db) @ [durable_row rx ''global_id.created'' (ge_GlobalID e) tn
        [(''global_id'', mk_global_id p v), (''entity_type'', t), (''source'', s), (''source_id'', sid)] i]"
      and en: "db_entities db' = db_entities (others db) @ [e]"
      using minted(6) assms(2,3) ex minted(3) fr by (auto simp: queueDurableEvent_ok)
    have "same_source t s sid e" using ex minted(3) by (simp add: same_source_def)
    then have "by_source t s sid db' = Some e"
      using none unfolding by_source_def en by (simp add: find_append_else)
    then show ?thesis using again none ob by (simp add: durable_row_def)
  qed simp
qed

theorem allocation_stable_and_announced_witness:
  "case sample_create sample_db of (r, db') \<Rightarrow>
     (\<exists>e. r = Ok e \<and> sample_create db' = (Ok e, db')) \<and> length (db_outbox db') = 1"
proof -
  obtain r db' where c: "sample_create sample_db = (r, db')" by (cases "sample_create sample_db")
  have "\<not> isl (fst (sample_create sample_db))" by code_simp
  then obtain e where r: "r = Ok e" using c by (cases r) auto
  have out: "db_outbox sample_db = []" "db_entities sample_db = []" by (simp_all add: sample_db_def)
  have ev: "rx_EventID sample_rx = Some ''ev-1''" by (simp add: sample_rx_def)
  have main: "CreateGlobalEntity all_up sample_rx id ''client'' ''espocrm'' ''a1'' [] [] sample_db = (Ok e, db')"
    using c r by (simp add: sample_create_def)
  have "by_source ''client'' ''espocrm'' ''a1'' (id sample_db) = None" by (simp add: by_source_def out)
  with allocation_stable_and_announced [OF main ev, of all_up sample_rx id "[]" "[]"] out
  have "sample_create db' = (Ok e, db')" "\<exists>row. db_outbox db' = db_outbox (id sample_db) @ [row]"
    by (auto simp: sample_create_def all_up_def)
  then have "sample_create db' = (Ok e, db') \<and> length (db_outbox db') = 1" using out by auto
  with c r show ?thesis by simp
qed

subsection \<open>Mapping a page\<close>

lemma CreateGlobalEntity_maps:
  assumes "CreateGlobalEntity down rx id t s sid tn meta db = (Ok e, db')"
  shows "by_source t s sid db' = Some e"
    and "by_source t' s' sid' db = Some x \<Longrightarrow> by_source t' s' sid' db' = Some x"
proof -
  have "by_source t s sid db' = Some e \<and>
      (by_source t' s' sid' db = Some x \<longrightarrow> by_source t' s' sid' db' = Some x)"
    using assms
  proof (cases rule: CreateGlobalEntity_cases)
    case (minted p v db2 y)
    note fr = take_counter_frame [OF minted(2)]
    have en: "db_entities db' = db_entities db @ [y]" using queue_frame(1) [OF minted(6)] fr(1) by simp
    have "same_source t s sid y" using minted(3) by (simp add: same_source_def)
    then show ?thesis using minted(1,5) en by (simp add: by_source_def find_append_else)
  qed auto
  then show "by_source t s sid db' = Some e"
    and "by_source t' s' sid' db = Some x \<Longrightarrow> by_source t' s' sid' db' = Some x" by auto
qed

definition mapping_ok :: "string \<Rightarrow> string \<Rightarrow> (string \<rightharpoonup> string) \<Rightarrow> DB \<Rightarrow> bool" where
  "mapping_ok t s m db \<longleftrightarrow>
     (\<forall>sid g. m sid = Some g \<longrightarrow> (\<exists>e. by_source t s sid db = Some e \<and> ge_GlobalID e = g))"

lemma map_unmapped_ok:
  assumes "map_unmapped down rx t s rs m db = (Ok m', db')" "mapping_ok t s m db"
  shows "mapping_ok t s m' db' \<and> (\<forall>r \<in> set rs. gr_SourceID r \<noteq> [] \<longrightarrow> m' (gr_SourceID r) \<noteq> None) \<and>
    (\<forall>sid. m sid \<noteq> None \<longrightarrow> m' sid = m sid)"
  using assms
proof (induction rs arbitrary: m db)
  case (Cons r rs)
  show ?case
  proof (cases "gr_SourceID r = [] \<or> m (gr_SourceID r) \<noteq> None")
    case True
    then have "map_unmapped down rx t s rs m db = (Ok m', db')"
      using Cons.prems(1) by (auto split: option.splits)
    from Cons.IH [OF this Cons.prems(2)] True show ?thesis by auto
  next
    case False
    then obtain e db1 where c: "CreateGlobalEntity down (rx (gr_SourceID r)) id t s (gr_SourceID r)
        (gr_TenantID r) (gr_Metadata r) db = (Ok e, db1)"
      and rest: "map_unmapped down rx t s rs (m(gr_SourceID r \<mapsto> ge_GlobalID e)) db1 = (Ok m', db')"
      using Cons.prems(1) by (auto split: prod.splits sum.splits)
    let ?m = "m(gr_SourceID r \<mapsto> ge_GlobalID e)"
    have "mapping_ok t s ?m db1"
      unfolding mapping_ok_def
    proof (intro allI impI)
      fix sid g
      assume g: "?m sid = Some g"
      show "\<exists>e. by_source t s sid db1 = Some e \<and> ge_GlobalID e = g"
      proof (cases "sid = gr_SourceID r")
        case True
        then show ?thesis using g CreateGlobalEntity_maps(1) [OF c] by simp
      next
        case False
        then obtain x where "by_source t s sid db = Some x" "ge_GlobalID x = g"
          using g Cons.prems(2) by (auto simp: mapping_ok_def)
        then show ?thesis using CreateGlobalEntity_maps(2) [OF c] by blast
      qed
    qed
    note ih = Cons.IH [OF rest this]
    have "m' (gr_SourceID r) = Some (ge_GlobalID e)" using ih by auto
    moreover have "\<forall>sid. m sid \<noteq> None \<longrightarrow> m' sid = m sid"
    proof (intro allI impI)
      fix sid assume "m sid \<noteq> None"
      then have "sid \<noteq> gr_SourceID r" "?m sid \<noteq> None" using False by auto
      then show "m' sid = m sid" using ih by (metis fun_upd_other)
    qed
    ultimately show ?thesis using ih by simp
  qed
qed simp

lemma selected_mapping:
  assumes "gid_inv db"
  shows "mapping_ok t s (map_of (rev [(ge_SourceID e, ge_GlobalID e). e \<leftarrow> db_entities db,
      ge_Source e = s \<and> ge_EntityType e = t \<and> ge_SourceID e \<in> set ids])) db"
  unfolding mapping_ok_def
proof (intro allI impI)
  fix sid g
  assume "map_of (rev [(ge_SourceID e, ge_GlobalID e). e \<leftarrow> db_entities db,
      ge_Source e = s \<and> ge_EntityType e = t \<and> ge_SourceID e \<in> set ids]) sid = Some g"
  then have "(sid, g) \<in> set (rev [(ge_SourceID e, ge_GlobalID e). e \<leftarrow> db_entities db,
      ge_Source e = s \<and> ge_EntityType e = t \<and> ge_SourceID e \<in> set ids])" by (rule map_of_SomeD)
  then obtain e where e: "e \<in> set (db_entities db)" "same_source t s sid e" "ge_GlobalID e = g"
    by (auto simp: same_source_def split: if_splits)
  then obtain x where x: "by_source t s sid db = Some x" using by_source_None [of t s sid db] by blast
  have "x = e"
    using by_source_Some [OF x] e assms
    by (auto simp: gid_inv_def distinct_map inj_on_def same_source_def)
  with x e show "\<exists>e. by_source t s sid db = Some e \<and> ge_GlobalID e = g" by blast
qed

text \<open>Whatever becomes of the batch, the invariant holds after it and nothing mapped before changes.\<close>

lemma map_unmapped_keeps:
  "map_unmapped down rx t s rs m db = (r, db') \<Longrightarrow> gid_inv db \<Longrightarrow>
    gid_inv db' \<and> (\<forall>t' s' sid x. by_source t' s' sid db = Some x \<longrightarrow> by_source t' s' sid db' = Some x)"
proof (induction rs arbitrary: m db)
  case (Cons q rs)
  show ?case
  proof (cases "gr_SourceID q = [] \<or> m (gr_SourceID q) \<noteq> None")
    case True
    then have "map_unmapped down rx t s rs m db = (r, db')"
      using Cons.prems(1) by (auto split: option.splits)
    from Cons.IH [OF this Cons.prems(2)] show ?thesis .
  next
    case False
    obtain c db1 where c: "CreateGlobalEntity down (rx (gr_SourceID q)) id t s (gr_SourceID q)
        (gr_TenantID q) (gr_Metadata q) db = (c, db1)" by (meson surj_pair)
    have inv: "gid_inv db1" using CreateGlobalEntity_inv [OF c Cons.prems(2)] Cons.prems(2) by simp
    show ?thesis
    proof (cases c)
      case (Inl e)
      then have "db' = db1" using False c Cons.prems(1) by auto
      moreover have "db1 = db" using c Inl by (cases rule: CreateGlobalEntity_cases) auto
      ultimately show ?thesis using Cons.prems(2) by simp
    next
      case (Inr e)
      then have "map_unmapped down rx t s rs (m(gr_SourceID q \<mapsto> ge_GlobalID e)) db1 = (r, db')"
        using False c Cons.prems(1) by auto
      from Cons.IH [OF this inv] CreateGlobalEntity_maps(2) [OF c [unfolded Inr]] show ?thesis by blast
    qed
  qed
qed simp

lemma map_unmapped_dom:
  "map_unmapped down rx t s rs m db = (Ok m', db') \<Longrightarrow>
    dom m' \<subseteq> dom m \<union> {x \<in> gr_SourceID ` set rs. x \<noteq> []}"
proof (induction rs arbitrary: m db)
  case (Cons q rs)
  show ?case
  proof (cases "gr_SourceID q = [] \<or> m (gr_SourceID q) \<noteq> None")
    case True
    then have "map_unmapped down rx t s rs m db = (Ok m', db')"
      using Cons.prems(1) by (auto split: option.splits)
    from Cons.IH [OF this] show ?thesis by auto
  next
    case False
    then have "\<exists>(e :: GlobalEntity) db1. map_unmapped down rx t s rs (m(gr_SourceID q \<mapsto> ge_GlobalID e)) db1 = (Ok m', db')"
      using Cons.prems(1) by (auto split: prod.splits sum.splits)
    then obtain e :: GlobalEntity and db1 where
      "map_unmapped down rx t s rs (m(gr_SourceID q \<mapsto> ge_GlobalID e)) db1 = (Ok m', db')" by blast
    from Cons.IH [OF this] False show ?thesis by (simp del: fun_upd_apply) (auto simp del: fun_upd_apply)
  qed
qed simp

lemma unique_from_nonempty: "x \<in> set (unique_from seen xs) \<Longrightarrow> x \<noteq> [] \<and> x \<in> set xs"
  by (induction seen xs rule: unique_from.induct) (auto split: if_splits)

text \<open>With the store up, the counter there and identifiers for the events, the batch answers.\<close>

definition can_mint :: "string \<Rightarrow> (string \<Rightarrow> RequestContext) \<Rightarrow> DB \<Rightarrow> bool" where
  "can_mint t rx db \<longleftrightarrow> gid_inv db \<and> t \<in> ct_EntityType ` set (db_counters db) \<and>
     (\<forall>sid. \<exists>i. rx_EventID (rx sid) = Some i \<and> i \<noteq> [])"

lemma CreateGlobalEntity_total:
  assumes "can_mint t rx db"
  shows "\<exists>e db'. CreateGlobalEntity (\<lambda>_. False) (rx sid0) id t s sid tn meta db = (Ok e, db') \<and>
    can_mint t rx db'"
proof (cases "by_source t s sid db")
  case (Some e)
  then show ?thesis using assms by (simp add: CreateGlobalEntity_def)
next
  case None
  have inv: "gid_inv db" using assms by (simp add: can_mint_def)
  obtain c where "find (\<lambda>c. ct_EntityType c = t) (db_counters db) = Some c"
    using assms by (cases "find (\<lambda>c. ct_EntityType c = t) (db_counters db)")
      (auto simp: can_mint_def find_None_iff)
  then obtain p v db2 where tc: "take_counter t db = Some (p, v, db2)" by (auto simp: take_counter_def)
  let ?e = "\<lparr> ge_GlobalID = mk_global_id p v, ge_EntityType = t, ge_Source = s, ge_SourceID = sid,
             ge_TenantID = tn, ge_Metadata = meta, ge_CreatedAt = rx_Now (rx sid0) \<rparr>"
  have nc: "\<not> entity_conflict ?e db"
    using minted_fresh(1) [OF inv tc] None by (auto simp: entity_conflict_def by_source_None image_iff)
  obtain i where i: "rx_EventID (rx sid0) = Some i" "i \<noteq> []" using assms by (auto simp: can_mint_def)
  have "\<exists>db3. queueDurableEvent (\<lambda>_. False) (rx sid0) ''global_id.created'' (mk_global_id p v) tn
      [(''global_id'', mk_global_id p v), (''entity_type'', t), (''source'', s), (''source_id'', sid)]
      (db2 \<lparr> db_entities := db_entities db2 @ [?e] \<rparr>) = Ok db3"
    by (simp add: queueDurableEvent_ok i)
  then obtain db3 where q: "queueDurableEvent (\<lambda>_. False) (rx sid0) ''global_id.created'' (mk_global_id p v) tn
      [(''global_id'', mk_global_id p v), (''entity_type'', t), (''source'', s), (''source_id'', sid)]
      (db2 \<lparr> db_entities := db_entities db2 @ [?e] \<rparr>) = Ok db3" by blast
  have r: "CreateGlobalEntity (\<lambda>_. False) (rx sid0) id t s sid tn meta db = (Ok ?e, db3)"
    using None tc nc q by (simp add: CreateGlobalEntity_def Let_def)
  have "gid_inv db3" using CreateGlobalEntity_inv [OF r inv] inv by simp
  moreover have "ct_EntityType ` set (db_counters db3) = ct_EntityType ` set (db_counters db)"
  proof -
    have "db_counters db3 = db_counters db2" using queue_frame(4) [OF q] by simp
    then show ?thesis using take_counter_frame(6) [OF tc] by (metis list.set_map)
  qed
  ultimately show ?thesis using r assms by (auto simp: can_mint_def)
qed

lemma map_unmapped_total:
  "can_mint t rx db \<Longrightarrow> \<exists>m' db'. map_unmapped (\<lambda>_. False) rx t s rs m db = (Ok m', db') \<and> can_mint t rx db'"
proof (induction rs arbitrary: m db)
  case (Cons q rs)
  show ?case
  proof (cases "gr_SourceID q = [] \<or> m (gr_SourceID q) \<noteq> None")
    case True
    then have "map_unmapped (\<lambda>_. False) rx t s (q # rs) m db = map_unmapped (\<lambda>_. False) rx t s rs m db"
      by (auto split: option.splits)
    then show ?thesis using Cons.IH [OF Cons.prems] by simp
  next
    case False
    obtain e db1 where c: "CreateGlobalEntity (\<lambda>_. False) (rx (gr_SourceID q)) id t s (gr_SourceID q)
        (gr_TenantID q) (gr_Metadata q) db = (Ok e, db1)" "can_mint t rx db1"
      using CreateGlobalEntity_total [OF Cons.prems] by blast
    from Cons.IH [OF c(2), of "m(gr_SourceID q \<mapsto> ge_GlobalID e)"] show ?thesis
      using False c(1) by (simp del: fun_upd_apply)
  qed
qed simp

lemma MapGlobalIDs_total:
  "can_mint t rx db \<Longrightarrow>
    \<exists>m db'. MapGlobalIDs (\<lambda>_. False) rx t s requests db = (Ok m, db') \<and> can_mint t rx db'"
  using map_unmapped_total by (simp add: MapGlobalIDs_def)

lemma MapGlobalIDs_keeps:
  "MapGlobalIDs down rx t s requests db = (r, db') \<Longrightarrow> gid_inv db \<Longrightarrow>
    gid_inv db' \<and> (\<forall>t' s' sid x. by_source t' s' sid db = Some x \<longrightarrow> by_source t' s' sid db' = Some x)"
  using map_unmapped_keeps by (auto simp: MapGlobalIDs_def Let_def split: if_splits)

lemma MapGlobalIDs_dom:
  assumes "MapGlobalIDs down rx t s requests db = (Ok m, db')"
  shows "m [] = None"
proof (cases "requests = []")
  case False
  let ?rows = "[(ge_SourceID e, ge_GlobalID e). e \<leftarrow> db_entities db,
      ge_Source e = s \<and> ge_EntityType e = t \<and> ge_SourceID e \<in> set (unique (map gr_SourceID requests))]"
  have "map_unmapped down rx t s requests (map_of (rev ?rows)) db = (Ok m, db')"
    using assms False by (simp add: MapGlobalIDs_def Let_def split: if_splits)
  from map_unmapped_dom [OF this] have "[] \<in> dom m \<Longrightarrow> [] \<in> dom (map_of (rev ?rows))" by blast
  moreover have "fst r \<noteq> []" if "r \<in> set ?rows" for r
    using that unique_from_nonempty unfolding unique_def by (auto split: if_splits)
  then have "[] \<notin> dom (map_of (rev ?rows))"
    by (metis (no_types, lifting) dom_map_of_conv_image_fst imageE set_rev)
  ultimately show ?thesis by blast
qed (use assms in \<open>auto simp: MapGlobalIDs_def\<close>)

text \<open>
  A page of upstream records is mapped completely and truthfully: when the batch answers, every record with
  a source id has an identifier, and each identifier in the answer is the one stored for that source
  record, whether it was there before or minted now.
\<close>

theorem MapGlobalIDs_complete:
  assumes "MapGlobalIDs down rx t s requests db = (Ok m, db')" "gid_inv db"
  shows "(\<forall>r \<in> set requests. gr_SourceID r \<noteq> [] \<longrightarrow>
      (\<exists>e. by_source t s (gr_SourceID r) db' = Some e \<and> m (gr_SourceID r) = Some (ge_GlobalID e))) \<and>
    (\<forall>sid g. m sid = Some g \<longrightarrow> (\<exists>e. by_source t s sid db' = Some e \<and> ge_GlobalID e = g))"
proof (cases "requests = []")
  case True
  then show ?thesis using assms(1) by (auto simp: MapGlobalIDs_def)
next
  case False
  then have "map_unmapped down rx t s requests (map_of (rev [(ge_SourceID e, ge_GlobalID e). e \<leftarrow> db_entities db,
      ge_Source e = s \<and> ge_EntityType e = t \<and> ge_SourceID e \<in> set (unique (map gr_SourceID requests))])) db
      = (Ok m, db')"
    using assms(1) by (simp add: MapGlobalIDs_def Let_def split: if_splits)
  from map_unmapped_ok [OF this selected_mapping [OF assms(2)]]
  show ?thesis by (fastforce simp: mapping_ok_def)
qed

definition sample_page :: "GlobalIDRequest list" where
  "sample_page = map (\<lambda>s. \<lparr> gr_SourceID = s, gr_TenantID = [], gr_Metadata = [] \<rparr>) [''a1'', ''a2'', ''a1'']"

definition sample_rxs :: "string \<Rightarrow> RequestContext" where
  "sample_rxs sid = \<lparr> rx_Correlation = [], rx_EventID = Some (''ev-'' @ sid), rx_Now = 5 \<rparr>"

lemma sample_gid_inv: "gid_inv sample_db"
  by (simp add: gid_inv_def counters_ok_def sample_db_def)

theorem MapGlobalIDs_complete_witness:
  "case MapGlobalIDs all_up sample_rxs ''client'' ''espocrm'' sample_page sample_db of
     (Inr m, db') \<Rightarrow> (\<exists>e. by_source ''client'' ''espocrm'' ''a2'' db' = Some e \<and> m ''a2'' = Some (ge_GlobalID e))
   | _ \<Rightarrow> False"
proof -
  have "\<not> isl (fst (MapGlobalIDs all_up sample_rxs ''client'' ''espocrm'' sample_page sample_db))" by code_simp
  then obtain m db' where r: "MapGlobalIDs all_up sample_rxs ''client'' ''espocrm'' sample_page sample_db = (Ok m, db')"
    by (cases "MapGlobalIDs all_up sample_rxs ''client'' ''espocrm'' sample_page sample_db";
        cases "fst (MapGlobalIDs all_up sample_rxs ''client'' ''espocrm'' sample_page sample_db)") auto
  have "\<lparr> gr_SourceID = ''a2'', gr_TenantID = [], gr_Metadata = [] \<rparr> \<in> set sample_page"
    by (simp add: sample_page_def)
  with MapGlobalIDs_complete [OF r sample_gid_inv] show ?thesis unfolding r by fastforce
qed

subsection \<open>Identities\<close>

text \<open>
  A subject is given its Global ID once: a first sighting mints one and announces it with exactly one event,
  in one transaction; every later sighting answers the same identifier, announces nothing,
  and only refreshes the profile.
\<close>

theorem identity_minted_once:
  assumes "EnsureIdentity down rx i db = (Ok (g, created), db')"
    and "rx_EventID rx = Some ev" "ev \<notin> ob_EventID ` set (db_outbox db)"
  shows "(\<exists>row \<in> set (db_identities db'). id_Subject row = idn_Subject i \<and> id_GlobalUserID row = g) \<and>
    (created \<longleftrightarrow> idn_Subject i \<notin> id_Subject ` set (db_identities db)) \<and>
    (if created
     then \<exists>row. db_outbox db' = db_outbox db @ [row] \<and> ob_EventID row = ev \<and>
            en_Event (ob_Payload row) = ''identity.created'' \<and> en_EntityID (ob_Payload row) = g
     else db_outbox db' = db_outbox db) \<and>
    (\<forall>down' rx' i' g' c' db''. idn_Subject i' = idn_Subject i \<and> gid_inv db' \<and>
       EnsureIdentity down' rx' i' db' = (Ok (g', c'), db'') \<longrightarrow>
       g' = g \<and> \<not> c' \<and> db_outbox db'' = db_outbox db' \<and> db_entities db'' = db_entities db')"
proof -
  have later: "g' = g \<and> \<not> c' \<and> db_outbox db'' = db_outbox db' \<and> db_entities db'' = db_entities db'"
    if has: "\<exists>row \<in> set (db_identities db'). id_Subject row = idn_Subject i \<and> id_GlobalUserID row = g"
      and "idn_Subject i' = idn_Subject i" and inv: "gid_inv db'"
      and "EnsureIdentity down' rx' i' db' = (Ok (g', c'), db'')" for down' rx' i' g' c' db''
    using that(4)
  proof (cases rule: EnsureIdentity_cases)
    case (known row)
    obtain row0 where "row0 \<in> set (db_identities db')" "id_Subject row0 = idn_Subject i" "id_GlobalUserID row0 = g"
      using has by blast
    moreover have "row \<in> set (db_identities db')" "id_Subject row = idn_Subject i"
      using known(1) that(2) by (auto simp: find_Some_iff)
    ultimately have "id_GlobalUserID row = g"
      using inv by (auto simp: gid_inv_def distinct_map inj_on_def)
    then show ?thesis using known by (simp add: upsert_identity_def)
  next
    case (first p v db1)
    then show ?thesis using has that(2) by (auto simp: find_None_iff)
  qed simp
  from assms(1) show ?thesis
  proof (cases rule: EnsureIdentity_cases)
    case (known row)
    have row: "row \<in> set (db_identities db)" "id_Subject row = idn_Subject i"
      using known(1) by (auto simp: find_Some_iff)
    then have sub: "idn_Subject i \<in> id_Subject ` set (db_identities db)" by force
    let ?row = "row \<lparr> id_Email := idn_Email i, id_DisplayName := idn_DisplayName i,
        id_Username := idn_Username i, id_Groups := idn_Groups i, id_LastSeenAt := rx_Now rx \<rparr>"
    have "?row \<in> set (db_identities db')" using known(3) sub row by (force simp: upsert_identity_def)
    then have "\<exists>row \<in> set (db_identities db'). id_Subject row = idn_Subject i \<and> id_GlobalUserID row = g"
      using row known(2) by (intro bexI [of _ ?row]) simp_all
    note has = this
    have nc: "\<not> created" using known(2) by simp
    have ob: "db_outbox db' = db_outbox db" by (simp add: known(3) upsert_identity_def)
    show ?thesis
      by (rule conjI [OF has], rule conjI, use nc sub in blast, rule conjI, use nc ob in simp,
          use later [OF has] in blast)
  next
    case (first p v db1)
    note fr = take_counter_frame [OF first(2)]
    note re = register_identity_ok [OF first(4)]
    have none: "idn_Subject i \<notin> id_Subject ` set (db_identities db1)"
      using first(1) fr by (auto simp: find_None_iff)
    then have has: "\<exists>row \<in> set (db_identities db'). id_Subject row = idn_Subject i \<and> id_GlobalUserID row = g"
      using re(1) first(3) by (simp add: upsert_identity_def)
    have "db_outbox (upsert_identity (rx_Now rx) (mk_global_id p v) i db1) = db_outbox db"
      by (simp add: upsert_identity_def fr)
    then have "\<exists>row. db_outbox db' = db_outbox db @ [row] \<and> ob_EventID row = ev \<and>
        en_Event (ob_Payload row) = ''identity.created'' \<and> en_EntityID (ob_Payload row) = g"
      using first(3,4) assms(2,3)
      by (auto simp: register_identity_def register_entity_def queueDurableEvent_ok durable_row_def
          managed_entity_def elim!: bind_result_OkE split: if_splits)
    note ob = this
    have nc: "created" "idn_Subject i \<notin> id_Subject ` set (db_identities db)"
      using first(1,3) by (auto simp: find_None_iff)
    show ?thesis
      by (rule conjI [OF has], rule conjI, use nc in blast, rule conjI, use nc ob in simp,
          use later [OF has] in blast)
  qed simp
qed

definition sample_identity :: Identity where
  "sample_identity = \<lparr> idn_Subject = ''sub-1'', idn_Email = ''a@b'', idn_DisplayName = [],
     idn_Username = ''a'', idn_Groups = [] \<rparr>"

theorem identity_minted_once_witness:
  "case EnsureIdentity all_up sample_rx sample_identity sample_db of
     (Inr (g, created), db') \<Rightarrow> created \<and> length (db_outbox db') = 1
   | _ \<Rightarrow> False"
proof -
  have "\<not> isl (fst (EnsureIdentity all_up sample_rx sample_identity sample_db))" by code_simp
  then obtain g c db' where r: "EnsureIdentity all_up sample_rx sample_identity sample_db = (Ok (g, c), db')"
    by (cases "EnsureIdentity all_up sample_rx sample_identity sample_db";
        cases "fst (EnsureIdentity all_up sample_rx sample_identity sample_db)") auto
  have e: "db_outbox sample_db = []" "db_identities sample_db = []" by (simp_all add: sample_db_def)
  have ev: "rx_EventID sample_rx = Some ''ev-1''" by (simp add: sample_rx_def)
  have "''ev-1'' \<notin> ob_EventID ` set (db_outbox sample_db)" by (simp add: e)
  from identity_minted_once [OF r ev this] e show ?thesis unfolding r by auto
qed

text \<open>
  A defect: when an administrator has mapped the subject before it was first seen (the allocation
  endpoint takes any source), the first sighting still mints a second identifier, and the insert
  that should register it does nothing.  The identity then carries an identifier that does not
  resolve, while its source record resolves to another one.
\<close>

theorem identity_shadowed_by_mapping:
  assumes "gid_inv db" "by_source ''user'' ''authentik'' (idn_Subject i) db = Some e"
    and "EnsureIdentity down rx i db = (Ok (g, True), db')" "\<not> d' ''entity_resolve''"
  shows "g \<noteq> ge_GlobalID e \<and> ResolveGlobalEntity d' g db' = Err NoRows \<and>
    by_source ''user'' ''authentik'' (idn_Subject i) db' = Some e"
  using assms(3)
proof (cases rule: EnsureIdentity_cases)
  case (first p v db1)
  note fr = take_counter_frame [OF first(2)]
  note re = register_identity_ok [OF first(4)]
  have fresh: "g \<notin> ge_GlobalID ` set (db_entities db)"
    using minted_fresh(1) [OF assms(1) first(2)] first(3) by simp
  have "e \<in> set (db_entities db)" using by_source_Some [OF assms(2)] by simp
  then have ne: "g \<noteq> ge_GlobalID e" using fresh by blast
  have old: "by_source ''user'' ''authentik'' (idn_Subject i)
      (upsert_identity (rx_Now rx) (mk_global_id p v) i db1) = Some e"
    using assms(2) by (simp add: by_source_def fr)
  then have "\<not> \<not> entity_conflict (managed_entity rx (mk_global_id p v) ''user'' (idn_Subject i) ''identity'')
      (upsert_identity (rx_Now rx) (mk_global_id p v) i db1)"
    using by_source_Some [OF old] by (auto simp: entity_conflict_def managed_entity_def)
  then have en: "db_entities db' = db_entities db" using re(4) fr by simp
  have "find (\<lambda>x. ge_GlobalID x = g) (db_entities db) = None" using fresh by (auto simp: find_None_iff)
  then show ?thesis using ne en assms(2,4) by (simp add: ResolveGlobalEntity_def by_source_def)
qed (use assms in auto)

definition premapped :: DB where
  "premapped = snd (CreateGlobalEntity all_up sample_rx id ''user'' ''authentik'' ''sub-1'' [] [] sample_db)"

theorem identity_shadowed_by_mapping_witness:
  "case EnsureIdentity all_up (sample_rx \<lparr> rx_EventID := Some ''ev-2'' \<rparr>) sample_identity premapped of
     (Inr (g, _), db') \<Rightarrow> ResolveGlobalEntity all_up g db' = Err NoRows
   | _ \<Rightarrow> False"
proof -
  let ?rx = "sample_rx \<lparr> rx_EventID := Some ''ev-2'' \<rparr>"
  have "case EnsureIdentity all_up ?rx sample_identity premapped of (Inr (g, c), db') \<Rightarrow> c | _ \<Rightarrow> False"
    by code_simp
  then obtain g db' where r: "EnsureIdentity all_up ?rx sample_identity premapped = (Ok (g, True), db')"
    by (auto split: prod.splits sum.splits)
  have inv: "gid_inv premapped"
  proof -
    obtain r0 where "CreateGlobalEntity all_up sample_rx id ''user'' ''authentik'' ''sub-1'' [] [] sample_db
        = (r0, premapped)"
      unfolding premapped_def by (metis prod.collapse)
    then show ?thesis by (rule CreateGlobalEntity_inv) (simp_all add: sample_gid_inv)
  qed
  have "by_source ''user'' ''authentik'' (idn_Subject sample_identity) premapped \<noteq> None" by code_simp
  then obtain e where "by_source ''user'' ''authentik'' (idn_Subject sample_identity) premapped = Some e" by blast
  from identity_shadowed_by_mapping [OF inv this r, of all_up] show ?thesis
    unfolding r by (simp add: all_up_def)
qed

subsection \<open>The handlers (cmd/server/main.go)\<close>

record globalIDRequest =
  gq_EntityType :: string
  gq_Source :: string
  gq_SourceID :: string
  gq_TenantID :: string
  gq_Metadata :: "(string \<times> string) list"

definition createGlobalID ::
  "down \<Rightarrow> HttpContext \<Rightarrow> RequestContext \<Rightarrow> (DB \<Rightarrow> DB) \<Rightarrow> meResponse \<Rightarrow> globalIDRequest option \<Rightarrow> DB
   \<Rightarrow> GlobalEntity Reply \<times> DB" where
  "createGlobalID down hx rx others access body db =
     (case body of
        None \<Rightarrow> (reply_error 400 ''invalid JSON body'' [], db)
      | Some input \<Rightarrow>
          (let t = TrimSpace (gq_EntityType input); s = TrimSpace (gq_Source input);
               i = TrimSpace (gq_SourceID input)
           in if t = [] \<or> s = [] \<or> i = []
              then (reply_error 400 ''entity_type, source and source_id are required'' [], db)
              else case CreateGlobalEntity down rx others t s i (TrimSpace (gq_TenantID input))
                          (gq_Metadata input) db of
                (Inl e, db') \<Rightarrow>
                  (if e = ErrUnsupportedEntityType
                   then reply_error 400 ''unsupported entity_type'' ''unsupported_entity_type''
                   else reply_error 500 ''global id could not be allocated'' ''global_id_allocation_failed'', db')
              | (Inr entity, db') \<Rightarrow>
                  (reply 201 entity,
                   audit down hx access ''global_id.created'' t (ge_GlobalID entity)
                     [(''source'', s), (''source_id'', i)] db')))"

definition resolveGlobalID ::
  "down \<Rightarrow> HttpContext \<Rightarrow> meResponse \<Rightarrow> string \<Rightarrow> DB \<Rightarrow> GlobalEntity Reply \<times> DB" where
  "resolveGlobalID down hx access pathID db =
     (let i = TrimSpace pathID
      in if i = [] then (reply_error 400 ''Global ID is required'' [], db)
         else case ResolveGlobalEntity down i db of
           Inl _ \<Rightarrow> (reply_error 404 ''Global ID not found'' [], db)
         | Inr entity \<Rightarrow>
             (reply 200 entity,
              audit down hx access ''global_id.read'' (ge_EntityType entity) (ge_GlobalID entity) [] db))"

definition auditEvents :: "down \<Rightarrow> string \<Rightarrow> DB \<Rightarrow> AuditEvent list Reply" where
  "auditEvents down limit db =
     (case ListAudit down (case ParseInt limit of None \<Rightarrow> 0 | Some n \<Rightarrow> n) db of
        Inl _ \<Rightarrow> reply_error 503 ''audit store unavailable'' []
      | Inr es \<Rightarrow> reply 200 es)"

text \<open>
  The identifier endpoints agree: what createGlobalID answered with 201 is what resolveGlobalID
  answers for the identifier in it, as long as the store can be read.
\<close>

theorem created_then_resolved:
  assumes "createGlobalID down hx rx others access body db = (r, db')" "rp_Body r = Some e"
    and "gid_inv db" "gid_inv (others db)" "\<not> d' ''entity_resolve''"
    and "TrimSpace (ge_GlobalID e) = ge_GlobalID e" "ge_GlobalID e \<noteq> []"
    and "\<And>t s sid x. by_source t s sid db = Some x \<Longrightarrow> by_source t s sid (others db) = Some x"
  shows "rp_Status r = 201 \<and> rp_Body (fst (resolveGlobalID d' hx' access' (ge_GlobalID e) db')) = Some e"
proof -
  obtain t s sid tn meta db1 where c: "CreateGlobalEntity down rx others t s sid tn meta db = (Ok e, db1)"
    and r: "r = reply 201 e" and db': "db_entities db' = db_entities db1"
    using assms(1,2)
    by (auto simp: createGlobalID_def Let_def audit_def InsertAudit_def auditInsert_def
        split: option.splits if_splits prod.splits sum.splits)
  have inv: "gid_inv db1" by (rule CreateGlobalEntity_inv [OF c assms(3,4)])
  have mem: "e \<in> set (db_entities db1)"
    using c
  proof (cases rule: CreateGlobalEntity_cases)
    case (minted p v db2 x)
    then show ?thesis using queue_frame(1) [OF minted(6)] by simp
  qed (auto dest: by_source_Some)
  then obtain x where x: "find (\<lambda>y. ge_GlobalID y = ge_GlobalID e) (db_entities db1) = Some x"
    by (cases "find (\<lambda>y. ge_GlobalID y = ge_GlobalID e) (db_entities db1)") (auto simp: find_None_iff)
  then have "x \<in> set (db_entities db1)" "ge_GlobalID x = ge_GlobalID e" by (auto simp: find_Some_iff)
  then have "x = e" using mem inv by (auto simp: gid_inv_def distinct_map inj_on_def)
  then show ?thesis using x r assms(5-7)
    by (simp add: resolveGlobalID_def ResolveGlobalEntity_def db' Let_def)
qed

end
