(* ===== verification/Outbox.thy ===== *)
theory Outbox
  imports GlobalIds "HOL-Library.Word"
begin

unbundle bit_operations_syntax

section \<open>Delivering the outbox (platformdb/outbox.go, cmd/server/outbox.go)\<close>

text \<open>
  The half of the outbox that drains it: claiming due rows, the marks, and one delivery pass.  The
  broker is a function that acknowledges an event or refuses it with a text; locked names the rows
  another process holds (SKIP LOCKED).  A pass also returns the identifiers it handed to the
  broker, in order.  The ticker loop runOutbox is a sequence of passes.  Only the claim is a transaction: deliverOutbox puts the parts of one pass
  together as one process runs them, and outbox\_step takes them apart, for any number of processes at once.
\<close>

subsection \<open>Event identifiers\<close>

definition hex_digit :: "nat \<Rightarrow> char" where
  "hex_digit n = (if n < 10 then char_of (48 + n) else char_of (87 + n))"

definition hex_byte :: "8 word \<Rightarrow> string" where
  "hex_byte b = [hex_digit (unat b div 16), hex_digit (unat b mod 16)]"

definition NewEventID :: "8 word list \<Rightarrow> string" where
  "NewEventID raw0 =
     (let raw1 = raw0[6 := (raw0 ! 6 AND 0x0f) OR 0x40];
          raw = raw1[8 := (raw1 ! 8 AND 0x3f) OR 0x80];
          encoded = concat (map hex_byte raw);
          slice = (\<lambda>i j. take (j - i) (drop i encoded))
      in slice 0 8 @ ''-'' @ slice 8 12 @ ''-'' @ slice 12 16 @ ''-'' @ slice 16 20 @ ''-'' @ slice 20 32)"

subsection \<open>Claims and marks\<close>

record OutboxEvent =
  oe_EventID :: string
  oe_Subject :: string
  oe_Payload :: Envelope
  oe_OccurredAt :: int
  oe_Attempts :: nat

record OutboxCounts =
  oc_Queued :: nat
  oc_Retried :: nat
  oc_Failed :: nat

definition MaxOutboxAttempts :: nat where "MaxOutboxAttempts = 12"

definition nanos :: int where "nanos = 1000000000"

definition is_due :: "int \<Rightarrow> OutboxRow \<Rightarrow> bool" where
  "is_due now r \<longleftrightarrow> ob_DeliveredAt r = None \<and> ob_FailedAt r = None \<and> ob_NextAttemptAt r \<le> now"

definition claimable :: "(string \<Rightarrow> bool) \<Rightarrow> int \<Rightarrow> int \<Rightarrow> DB \<Rightarrow> OutboxRow list" where
  "claimable locked limit0 now db =
     (let limit = (if limit0 \<le> 0 then 50 else limit0)
      in take (nat limit) (sort_key ob_OccurredAt
           (filter (\<lambda>r. is_due now r \<and> \<not> locked (ob_EventID r)) (db_outbox db))))"

definition claim_row :: "int \<Rightarrow> OutboxRow \<Rightarrow> OutboxRow" where
  "claim_row now r =
     r \<lparr> ob_Attempts := ob_Attempts r + 1,
        ob_NextAttemptAt := now + nanos * min (2 ^ min (ob_Attempts r) 8) 256,
        ob_FailedAt := (if MaxOutboxAttempts \<le> ob_Attempts r + 1 then Some now else None) \<rparr>"

definition event_of :: "OutboxRow \<Rightarrow> OutboxEvent" where
  "event_of r = \<lparr> oe_EventID = ob_EventID r, oe_Subject = ob_Subject r, oe_Payload = ob_Payload r,
     oe_OccurredAt = ob_OccurredAt r, oe_Attempts = ob_Attempts r \<rparr>"

definition update_rows :: "string set \<Rightarrow> (OutboxRow \<Rightarrow> OutboxRow) \<Rightarrow> DB \<Rightarrow> DB" where
  "update_rows ids f db =
     db \<lparr> db_outbox := map (\<lambda>r. if ob_EventID r \<in> ids then f r else r) (db_outbox db) \<rparr>"

definition ClaimDueEvents ::
  "down \<Rightarrow> (string \<Rightarrow> bool) \<Rightarrow> int \<Rightarrow> int \<Rightarrow> DB \<Rightarrow> (DBError + OutboxEvent list) \<times> DB" where
  "ClaimDueEvents down locked limit now =
     transaction down (\<lambda>db.
       bind_result (statement down ''outbox_select'' (claimable locked limit now db)) (\<lambda>rows.
       if rows = [] then Ok ([], db)
       else
         (let claimed = map (\<lambda>r. (event_of r) \<lparr> oe_Attempts := ob_Attempts r + 1 \<rparr>) rows;
              ids = ob_EventID ` set rows
          in bind_result (statement down ''outbox_claim'' (update_rows ids (claim_row now) db))
               (\<lambda>db'. Ok (claimed, db')))))"

definition MarkDelivered :: "down \<Rightarrow> string \<Rightarrow> int \<Rightarrow> DB \<Rightarrow> (DBError + unit) \<times> DB" where
  "MarkDelivered down eventID at db =
     (if down (''mark_delivered:'' @ eventID) then (Err (StoreFailure ''mark_delivered''), db)
      else (Ok (), update_rows {eventID} (\<lambda>r. if ob_DeliveredAt r = None
              then r \<lparr> ob_DeliveredAt := Some at, ob_LastError := None \<rparr> else r) db))"

definition MarkAttemptFailed :: "down \<Rightarrow> string \<Rightarrow> string \<Rightarrow> DB \<Rightarrow> (DBError + unit) \<times> DB" where
  "MarkAttemptFailed down eventID reason0 db =
     (let reason = (if 300 < length reason0 then take 300 reason0 else reason0)
      in if down (''mark_failed:'' @ eventID) then (Err (StoreFailure ''mark_failed''), db)
         else (Ok (), update_rows {eventID} (\<lambda>r. if ob_DeliveredAt r = None
                 then r \<lparr> ob_LastError := Some reason \<rparr> else r) db))"

definition OutboxState :: "down \<Rightarrow> DB \<Rightarrow> DBError + OutboxCounts" where
  "OutboxState down db =
     statement down ''outbox_state''
       \<lparr> oc_Queued = length (filter (\<lambda>r. ob_DeliveredAt r = None \<and> ob_FailedAt r = None) (db_outbox db)),
         oc_Retried = length (filter (\<lambda>r. ob_DeliveredAt r = None \<and> ob_FailedAt r = None \<and> 0 < ob_Attempts r) (db_outbox db)),
         oc_Failed = length (filter (\<lambda>r. ob_FailedAt r \<noteq> None) (db_outbox db)) \<rparr>"

definition OutboxEventByID ::
  "down \<Rightarrow> string \<Rightarrow> DB \<Rightarrow> DBError + (OutboxEvent \<times> int option) option" where
  "OutboxEventByID down eventID db =
     statement down ''outbox_by_id''
       (map_option (\<lambda>r. (event_of r, ob_DeliveredAt r))
          (find (\<lambda>r. ob_EventID r = eventID) (db_outbox db)))"

subsection \<open>One delivery pass\<close>

definition outboxBatch :: int where "outboxBatch = 50"

type_synonym broker = "OutboxEvent \<Rightarrow> string option"

fun deliver_claimed ::
  "down \<Rightarrow> broker \<Rightarrow> int \<Rightarrow> OutboxEvent list \<Rightarrow> DB \<Rightarrow> (nat \<times> DBError option) \<times> string list \<times> DB" where
  "deliver_claimed down publish at [] db = ((0, None), [], db)"
| "deliver_claimed down publish at (e # es) db =
     (case publish e of
        Some reason \<Rightarrow>
          (case MarkAttemptFailed down (oe_EventID e) reason db of
             (Inl err, db1) \<Rightarrow> ((0, Some err), [oe_EventID e], db1)
           | (Inr _, db1) \<Rightarrow>
               (case deliver_claimed down publish at es db1 of
                  (res, sent, db2) \<Rightarrow> (res, oe_EventID e # sent, db2)))
      | None \<Rightarrow>
          (case MarkDelivered down (oe_EventID e) at db of
             (Inl err, db1) \<Rightarrow> ((0, Some err), [oe_EventID e], db1)
           | (Inr _, db1) \<Rightarrow>
               (case deliver_claimed down publish at es db1 of
                  ((n, err), sent, db2) \<Rightarrow> ((n + 1, err), oe_EventID e # sent, db2))))"

definition deliverOutbox ::
  "down \<Rightarrow> (string \<Rightarrow> bool) \<Rightarrow> broker \<Rightarrow> int \<Rightarrow> int \<Rightarrow> DB \<Rightarrow> (nat \<times> DBError option) \<times> string list \<times> DB" where
  "deliverOutbox down locked publish now at db =
     (case ClaimDueEvents down locked outboxBatch now db of
        (Inl err, db1) \<Rightarrow> ((0, Some err), [], db1)
      | (Inr claimed, db1) \<Rightarrow> deliver_claimed down publish at claimed db1)"

subsection \<open>Lemmas on rows\<close>

text \<open>A row is read by its identifier; the identifiers are the primary key.\<close>

definition row_of :: "DB \<Rightarrow> string \<Rightarrow> OutboxRow option" where
  "row_of db i = find (\<lambda>r. ob_EventID r = i) (db_outbox db)"

lemma find_map_same:
  "(\<And>x. P (f x) = P x) \<Longrightarrow> find P (map f xs) = map_option f (find P xs)"
  by (induction xs) auto

lemma row_of_update_rows:
  assumes "\<And>r. ob_EventID (f r) = ob_EventID r"
  shows "row_of (update_rows ids f db) i = map_option (\<lambda>r. if i \<in> ids then f r else r) (row_of db i)"
proof -
  have "find (\<lambda>r. ob_EventID r = i) (map (\<lambda>r. if ob_EventID r \<in> ids then f r else r) (db_outbox db)) =
      map_option (\<lambda>r. if ob_EventID r \<in> ids then f r else r) (find (\<lambda>r. ob_EventID r = i) (db_outbox db))"
    by (rule find_map_same) (simp add: assms)
  then show ?thesis
    by (auto simp: row_of_def update_rows_def find_Some_iff
        split: option.splits intro!: option.map_cong dest: sym)
qed

lemma claim_row_ID [simp]: "ob_EventID (claim_row now r) = ob_EventID r"
  by (simp add: claim_row_def)

definition outbox_key :: "DB \<Rightarrow> bool" where
  "outbox_key db \<longleftrightarrow> distinct (map ob_EventID (db_outbox db))"

lemma outbox_key_update [simp]:
  assumes "\<And>r. ob_EventID (f r) = ob_EventID r"
  shows "outbox_key (update_rows ids f db) = outbox_key db"
proof -
  have "map ob_EventID (db_outbox (update_rows ids f db)) = map ob_EventID (db_outbox db)"
    using assms by (simp add: update_rows_def)
  then show ?thesis unfolding outbox_key_def by simp
qed

lemma claimable_rows:
  "set (claimable locked limit now db) \<subseteq> {r \<in> set (db_outbox db). is_due now r \<and> \<not> locked (ob_EventID r)}"
  by (auto simp: claimable_def Let_def dest: in_set_takeD)

lemma distinct_sort_map: "distinct (map f (sort_key g xs)) = distinct (map f xs)"
  by (simp add: distinct_map)

lemma claimable_distinct: "outbox_key db \<Longrightarrow> distinct (map ob_EventID (claimable locked limit now db))"
  unfolding outbox_key_def claimable_def Let_def take_map [symmetric]
  by (intro distinct_take) (simp add: distinct_sort_map distinct_map_filter)

lemma find_distinct: "distinct (map f xs) \<Longrightarrow> x \<in> set xs \<Longrightarrow> find (\<lambda>y. f y = f x) xs = Some x"
  by (induction xs) auto

lemma row_of_mem: "outbox_key db \<Longrightarrow> r \<in> set (db_outbox db) \<Longrightarrow> row_of db (ob_EventID r) = Some r"
  unfolding row_of_def outbox_key_def by (rule find_distinct)

text \<open>What one pass does to a row: claimed at most once, published only if claimed.\<close>

lemma ClaimDueEvents_cases:
  assumes "ClaimDueEvents down locked limit now db = (res, db')"
  obtains (failed) e where "res = Inl e" "db' = db"
  | (claimed) rows where "rows = claimable locked limit now db"
      "res = Inr (map (\<lambda>r. (event_of r) \<lparr> oe_Attempts := ob_Attempts r + 1 \<rparr>) rows)"
      "db' = update_rows (ob_EventID ` set rows) (claim_row now) db"
proof (cases res)
  case (Inl e)
  then have "db' = db" using assms by (auto simp: ClaimDueEvents_def dest: transaction_error)
  with Inl show thesis by (rule failed)
next
  case (Inr es)
  have same: "update_rows {} f db = db" for f by (simp add: update_rows_def)
  show thesis
    using assms Inr claimed [OF refl] same
    by (auto simp: ClaimDueEvents_def transaction_ok statement_def Let_def
        elim!: bind_result_OkE split: if_splits)
qed

lemma mark_rows:
  assumes "MarkDelivered down i at db = (x, db')"
  shows "outbox_key db' = outbox_key db"
    "row_of db j = Some r \<Longrightarrow> \<exists>r'. row_of db' j = Some r' \<and> ob_Attempts r' = ob_Attempts r \<and>
      ob_FailedAt r' = ob_FailedAt r \<and> ob_NextAttemptAt r' = ob_NextAttemptAt r \<and>
      (ob_DeliveredAt r \<noteq> None \<or> i \<noteq> j \<longrightarrow> r' = r)"
  using assms by (auto simp: MarkDelivered_def row_of_update_rows split: if_splits)

lemma mark_failed_rows:
  assumes "MarkAttemptFailed down i reason db = (x, db')"
  shows "outbox_key db' = outbox_key db"
    "row_of db j = Some r \<Longrightarrow> \<exists>r'. row_of db' j = Some r' \<and> ob_Attempts r' = ob_Attempts r \<and>
      ob_FailedAt r' = ob_FailedAt r \<and> ob_NextAttemptAt r' = ob_NextAttemptAt r \<and>
      ob_DeliveredAt r' = ob_DeliveredAt r \<and> (ob_DeliveredAt r \<noteq> None \<or> i \<noteq> j \<longrightarrow> r' = r)"
  using assms by (auto simp: MarkAttemptFailed_def row_of_update_rows Let_def split: if_splits)

lemma deliver_claimed_rows:
  assumes "deliver_claimed down publish at es db = (res, sent, db')" "row_of db j = Some r"
  shows "outbox_key db' = outbox_key db \<and> (\<exists>k. sent = take k (map oe_EventID es)) \<and>
    (\<exists>r'. row_of db' j = Some r' \<and> ob_Attempts r' = ob_Attempts r \<and> ob_FailedAt r' = ob_FailedAt r \<and>
      ob_NextAttemptAt r' = ob_NextAttemptAt r \<and>
      (ob_DeliveredAt r \<noteq> None \<or> j \<notin> oe_EventID ` set es \<longrightarrow> r' = r))"
  using assms
proof (induction es arbitrary: res sent db r)
  case (Cons e es)
  obtain x db1 where m: "(case publish e of Some reason \<Rightarrow> MarkAttemptFailed down (oe_EventID e) reason db
      | None \<Rightarrow> MarkDelivered down (oe_EventID e) at db) = (x, db1)"
    by (metis prod.exhaust)
  have key: "outbox_key db1 = outbox_key db"
    using m mark_rows(1) mark_failed_rows(1) by (auto split: option.splits)
  obtain r1 where r1: "row_of db1 j = Some r1" "ob_Attempts r1 = ob_Attempts r" "ob_FailedAt r1 = ob_FailedAt r"
    "ob_NextAttemptAt r1 = ob_NextAttemptAt r" "ob_DeliveredAt r \<noteq> None \<or> oe_EventID e \<noteq> j \<longrightarrow> r1 = r"
    using m mark_rows(2) [of down "oe_EventID e" at db x db1 j r] Cons.prems(2)
      mark_failed_rows(2) [of down "oe_EventID e" _ db x db1 j r] by (auto split: option.splits)
  show ?case
  proof (cases x)
    case (Inl err)
    then have "sent = [oe_EventID e]" "db' = db1"
      using Cons.prems(1) m by (auto split: option.splits)
    then show ?thesis using key r1 by (auto intro!: exI [of _ "Suc 0"])
  next
    case (Inr u)
    then obtain res1 sent1 where rec: "deliver_claimed down publish at es db1 = (res1, sent1, db')"
      and sent: "sent = oe_EventID e # sent1"
      using Cons.prems(1) m by (auto split: option.splits prod.splits)
    from Cons.IH [OF rec r1(1)] obtain k r' where ih: "outbox_key db' = outbox_key db1"
      "sent1 = take k (map oe_EventID es)" "row_of db' j = Some r'" "ob_Attempts r' = ob_Attempts r1"
      "ob_FailedAt r' = ob_FailedAt r1" "ob_NextAttemptAt r' = ob_NextAttemptAt r1"
      "ob_DeliveredAt r1 \<noteq> None \<or> j \<notin> oe_EventID ` set es \<longrightarrow> r' = r1" by blast
    have "sent = take (Suc k) (map oe_EventID (e # es))" using sent ih(2) by simp
    moreover have "ob_DeliveredAt r \<noteq> None \<or> j \<notin> oe_EventID ` set (e # es) \<longrightarrow> r' = r"
      using r1(5) ih(7) by auto
    ultimately show ?thesis
      unfolding ih(1,3) key using r1(2-4) ih(4-6)
      by (intro conjI exI [of _ "Suc k"] exI [of _ r']) simp_all
  qed
qed auto

definition row_ok :: "OutboxRow \<Rightarrow> bool" where
  "row_ok r \<longleftrightarrow> ob_Attempts r \<le> MaxOutboxAttempts \<and> (ob_FailedAt r \<noteq> None \<longleftrightarrow> ob_Attempts r = MaxOutboxAttempts)"

lemma count_list_take_le: "count_list (take k xs) x \<le> count_list xs x"
proof -
  have "count_list xs x = count_list (take k xs) x + count_list (drop k xs) x"
    by (metis append_take_drop_id count_list_append)
  then show ?thesis by simp
qed

lemma count_list_distinct: "distinct xs \<Longrightarrow> count_list xs x \<le> 1"
  by (induction xs) (auto simp: count_list_0_iff)

lemma deliverOutbox_row:
  assumes "outbox_key db" "row_of db j = Some r" "deliverOutbox down locked publish now at db = (res, sent, db')"
  shows "outbox_key db' \<and> (\<exists>r'. row_of db' j = Some r' \<and>
    count_list sent j + ob_Attempts r \<le> ob_Attempts r' \<and>
    (row_ok r \<longrightarrow> row_ok r') \<and>
    (ob_DeliveredAt r \<noteq> None \<longrightarrow> r' = r) \<and>
    (ob_FailedAt r \<noteq> None \<longrightarrow> ob_Attempts r' = ob_Attempts r))"
proof -
  obtain cl db1 where c: "ClaimDueEvents down locked outboxBatch now db = (cl, db1)"
    by (cases "ClaimDueEvents down locked outboxBatch now db")
  from c show ?thesis
  proof (cases rule: ClaimDueEvents_cases)
    case (failed e)
    then show ?thesis using assms c by (auto simp: deliverOutbox_def)
  next
    case (claimed rows)
    let ?es = "map (\<lambda>r. (event_of r) \<lparr> oe_Attempts := ob_Attempts r + 1 \<rparr>) rows"
    let ?ids = "ob_EventID ` set rows"
    have ids1: "map oe_EventID ?es = map ob_EventID rows" by (simp add: event_of_def)
    then have "oe_EventID ` set ?es = ?ids" by (metis list.set_map)
    note ids = ids1 this
    have d: "deliver_claimed down publish at ?es db1 = (res, sent, db')"
      using assms(3) c claimed(2) by (simp add: deliverOutbox_def)
    define r1 where "r1 = (if j \<in> ?ids then claim_row now r else r)"
    have row1: "row_of db1 j = Some r1"
      using assms(2) by (simp add: claimed(3) row_of_update_rows r1_def)
    have key1: "outbox_key db1" using assms(1) by (simp add: claimed(3))
    from deliver_claimed_rows [OF d row1] ids obtain k r' where
      key: "outbox_key db'" and sent: "sent = take k (map ob_EventID rows)" and r': "row_of db' j = Some r'"
      "ob_Attempts r' = ob_Attempts r1" "ob_FailedAt r' = ob_FailedAt r1"
      "ob_DeliveredAt r1 \<noteq> None \<or> j \<notin> ?ids \<longrightarrow> r' = r1"
      using key1 by metis
    have cnt: "count_list sent j \<le> (if j \<in> ?ids then 1 else 0)"
    proof (cases "j \<in> ?ids")
      case True
      have "distinct (map ob_EventID rows)" unfolding claimed(1) by (rule claimable_distinct [OF assms(1)])
      then show ?thesis using True count_list_take_le [of k "map ob_EventID rows" j]
          count_list_distinct [of "map ob_EventID rows" j] by (simp add: sent)
    next
      case False
      then have "count_list (map ob_EventID rows) j = 0" by (auto simp: count_list_0_iff)
      then show ?thesis using False count_list_take_le [of k "map ob_EventID rows" j] by (simp add: sent)
    qed
    have due: "is_due now r" if mem: "j \<in> ?ids"
    proof -
      obtain x where x: "x \<in> set rows" "ob_EventID x = j" using mem by blast
      then have "x \<in> set (db_outbox db)" "is_due now x"
        using claimable_rows [of locked outboxBatch now db] unfolding claimed(1) by auto
      then show ?thesis using row_of_mem [OF assms(1)] x assms(2) by force
    qed
    show ?thesis
    proof (cases "j \<in> ?ids")
      case True
      note du = due [OF True]
      have r1: "r1 = claim_row now r" using True by (simp add: r1_def)
      have "count_list sent j + ob_Attempts r \<le> ob_Attempts r'" using cnt True r' r1 by (simp add: claim_row_def)
      moreover have "row_ok r \<longrightarrow> row_ok r'"
        using du r' r1 by (auto simp: row_ok_def claim_row_def is_due_def MaxOutboxAttempts_def)
      moreover have "ob_DeliveredAt r = None" "ob_FailedAt r = None" using du by (simp_all add: is_due_def)
      ultimately show ?thesis using key r' by simp
    next
      case False
      then have "r' = r" "count_list sent j = 0" using r' cnt by (simp_all add: r1_def)
      then show ?thesis using key r' by simp
    qed
  qed
qed

record Pass =
  ps_down :: down
  ps_locked :: "string \<Rightarrow> bool"
  ps_publish :: broker
  ps_now :: int
  ps_at :: int

fun outbox_run :: "Pass list \<Rightarrow> DB \<Rightarrow> string list \<times> DB" where
  "outbox_run [] db = ([], db)"
| "outbox_run (p # ps) db =
     (case deliverOutbox (ps_down p) (ps_locked p) (ps_publish p) (ps_now p) (ps_at p) db of
        (_, sent, db1) \<Rightarrow> (case outbox_run ps db1 of (sent', db2) \<Rightarrow> (sent @ sent', db2)))"

lemma outbox_run_row:
  assumes "outbox_key db" "row_of db j = Some r" "outbox_run ps db = (sent, db')"
  shows "\<exists>r'. row_of db' j = Some r' \<and> count_list sent j + ob_Attempts r \<le> ob_Attempts r' \<and>
    (row_ok r \<longrightarrow> row_ok r') \<and> (ob_DeliveredAt r \<noteq> None \<longrightarrow> r' = r)"
  using assms
proof (induction ps arbitrary: db r sent)
  case (Cons p ps)
  obtain res s1 db1 where d: "deliverOutbox (ps_down p) (ps_locked p) (ps_publish p) (ps_now p) (ps_at p) db = (res, s1, db1)"
    by (metis prod.exhaust)
  obtain s2 where rest: "outbox_run ps db1 = (s2, db')" and sent: "sent = s1 @ s2"
    using Cons.prems(3) d by (auto split: prod.splits)
  from deliverOutbox_row [OF Cons.prems(1,2) d] obtain r1 where
    key: "outbox_key db1" and r1: "row_of db1 j = Some r1" "count_list s1 j + ob_Attempts r \<le> ob_Attempts r1"
    "row_ok r \<longrightarrow> row_ok r1" "ob_DeliveredAt r \<noteq> None \<longrightarrow> r1 = r" by blast
  from Cons.IH [OF key r1(1) rest] obtain r2 where r2: "row_of db' j = Some r2"
    "count_list s2 j + ob_Attempts r1 \<le> ob_Attempts r2" "row_ok r1 \<longrightarrow> row_ok r2"
    "ob_DeliveredAt r1 \<noteq> None \<longrightarrow> r2 = r1" by blast
  then show ?case using r1 by (auto simp: sent)
qed auto

subsection \<open>Passes of several processes, interleaved\<close>

text \<open>
  Where a process stands: between two events of the batch it has claimed (nothing claimed is an empty batch), or with one published, with the
  broker's answer, and still to be marked.
\<close>

datatype phase = Holding "OutboxEvent list" | Published OutboxEvent "string option" "OutboxEvent list"

record Relay =
  rl_db :: DB
  rl_sent :: "string list"
  rl_phases :: "phase list"

definition mark :: "down \<Rightarrow> OutboxEvent \<Rightarrow> string option \<Rightarrow> int \<Rightarrow> DB \<Rightarrow> (DBError + unit) \<times> DB" where
  "mark down e answer at db =
     (case answer of None \<Rightarrow> MarkDelivered down (oe_EventID e) at db | Some reason \<Rightarrow> MarkAttemptFailed down (oe_EventID e) reason db)"

text \<open>
  The steps of process k: its claim, one publish with any answer of the broker, one mark (the pass ends with the first that fails), and its death or
  cancellation.  Meanwhile any request may queue a new event.
\<close>

inductive outbox_step :: "Relay \<Rightarrow> Relay \<Rightarrow> bool" where
  claimed: "\<lbrakk>k < length (rl_phases w); rl_phases w ! k = Holding []; ClaimDueEvents down locked limit now (rl_db w) = (res, db')\<rbrakk>
    \<Longrightarrow> outbox_step w (w \<lparr> rl_db := db', rl_phases := (rl_phases w) [k := Holding (case res of Inl _ \<Rightarrow> [] | Inr es \<Rightarrow> es)] \<rparr>)"
| published: "\<lbrakk>k < length (rl_phases w); rl_phases w ! k = Holding (e # es)\<rbrakk>
    \<Longrightarrow> outbox_step w (w \<lparr> rl_sent := rl_sent w @ [oe_EventID e], rl_phases := (rl_phases w) [k := Published e answer es] \<rparr>)"
| marked: "\<lbrakk>k < length (rl_phases w); rl_phases w ! k = Published e answer es; mark down e answer at (rl_db w) = (res, db')\<rbrakk>
    \<Longrightarrow> outbox_step w (w \<lparr> rl_db := db', rl_phases := (rl_phases w) [k := Holding (if isl res then [] else es)] \<rparr>)"
| died: "k < length (rl_phases w) \<Longrightarrow> outbox_step w (w \<lparr> rl_phases := (rl_phases w) [k := Holding []] \<rparr>)"
| queued: "\<lbrakk>ob_EventID r \<notin> ob_EventID ` set (db_outbox (rl_db w)); ob_Attempts r = 0; ob_FailedAt r = None; ob_DeliveredAt r = None\<rbrakk>
    \<Longrightarrow> outbox_step w (w \<lparr> rl_db := (rl_db w) \<lparr> db_outbox := db_outbox (rl_db w) @ [r] \<rparr> \<rparr>)"

text \<open>A pass on its own is a run of these steps.\<close>

lemma deliver_claimed_steps:
  assumes "deliver_claimed down publish at es (rl_db w) = (res, sent, db')" "k < length (rl_phases w)" "rl_phases w ! k = Holding es"
  shows "outbox_step\<^sup>*\<^sup>* w (w \<lparr> rl_db := db', rl_sent := rl_sent w @ sent, rl_phases := (rl_phases w) [k := Holding []] \<rparr>)"
  using assms
proof (induction es arbitrary: w res sent)
  case Nil
  have "w = w \<lparr> rl_db := db', rl_sent := rl_sent w @ sent, rl_phases := (rl_phases w) [k := Holding []] \<rparr>"
    using Nil.prems list_update_id [of "rl_phases w" k] by simp
  then show ?case by (metis rtranclp.rtrancl_refl)
next
  case (Cons e es)
  define w1 where "w1 = w \<lparr> rl_sent := rl_sent w @ [oe_EventID e], rl_phases := (rl_phases w) [k := Published e (publish e) es] \<rparr>"
  have s1: "outbox_step w w1" unfolding w1_def by (rule outbox_step.published [OF Cons.prems(2,3)])
  have k1: "k < length (rl_phases w1)" "rl_phases w1 ! k = Published e (publish e) es" using Cons.prems(2) by (simp_all add: w1_def)
  obtain x db1 where m: "mark down e (publish e) at (rl_db w) = (x, db1)" by fastforce
  then have m1: "mark down e (publish e) at (rl_db w1) = (x, db1)" by (simp add: w1_def)
  define w2 where "w2 = w1 \<lparr> rl_db := db1, rl_phases := (rl_phases w1) [k := Holding (if isl x then [] else es)] \<rparr>"
  have s2: "outbox_step w1 w2" unfolding w2_def by (rule outbox_step.marked [OF k1 m1])
  show ?case
  proof (cases x)
    case (Inl err)
    then have "sent = [oe_EventID e]" "db' = db1" using Cons.prems(1) m by (auto simp: mark_def split: option.splits)
    then have "w2 = w \<lparr> rl_db := db', rl_sent := rl_sent w @ sent, rl_phases := (rl_phases w) [k := Holding []] \<rparr>"
      by (simp add: w2_def w1_def Inl)
    then show ?thesis using s1 s2 by (metis converse_rtranclp_into_rtranclp r_into_rtranclp)
  next
    case (Inr u)
    have "\<exists>res1 sent1. deliver_claimed down publish at es db1 = (res1, sent1, db') \<and> sent = oe_EventID e # sent1"
      using Cons.prems(1) m Inr by (auto simp: mark_def split: option.splits prod.splits)
    then obtain res1 sent1 where rec: "deliver_claimed down publish at es (rl_db w2) = (res1, sent1, db')"
      and sent: "sent = oe_EventID e # sent1" by (auto simp: w2_def)
    have k2: "k < length (rl_phases w2)" "rl_phases w2 ! k = Holding es" using k1(1) Inr by (simp_all add: w2_def)
    have "outbox_step\<^sup>*\<^sup>* w2 (w2 \<lparr> rl_db := db', rl_sent := rl_sent w2 @ sent1, rl_phases := (rl_phases w2) [k := Holding []] \<rparr>)"
      by (rule Cons.IH [OF rec k2])
    moreover have "w2 \<lparr> rl_db := db', rl_sent := rl_sent w2 @ sent1, rl_phases := (rl_phases w2) [k := Holding []] \<rparr> =
        w \<lparr> rl_db := db', rl_sent := rl_sent w @ sent, rl_phases := (rl_phases w) [k := Holding []] \<rparr>"
      by (simp add: w2_def w1_def sent)
    ultimately show ?thesis using s1 s2 by (metis converse_rtranclp_into_rtranclp)
  qed
qed

lemma pass_is_steps:
  assumes "deliverOutbox down locked publish now at (rl_db w) = (res, sent, db')" "k < length (rl_phases w)" "rl_phases w ! k = Holding []"
  shows "outbox_step\<^sup>*\<^sup>* w (w \<lparr> rl_db := db', rl_sent := rl_sent w @ sent, rl_phases := (rl_phases w) [k := Holding []] \<rparr>)"
proof -
  obtain cl db1 where c: "ClaimDueEvents down locked outboxBatch now (rl_db w) = (cl, db1)" by fastforce
  define es where "es = (case cl of Inl _ \<Rightarrow> [] | Inr es \<Rightarrow> es)"
  define w1 where "w1 = w \<lparr> rl_db := db1, rl_phases := (rl_phases w) [k := Holding es] \<rparr>"
  have s1: "outbox_step w w1" unfolding w1_def es_def by (rule outbox_step.claimed [OF assms(2,3) c])
  have k1: "k < length (rl_phases w1)" "rl_phases w1 ! k = Holding es" using assms(2) by (simp_all add: w1_def)
  have "\<exists>res. deliver_claimed down publish at es (rl_db w1) = (res, sent, db')"
    using assms(1) c by (auto simp: deliverOutbox_def es_def w1_def split: sum.splits)
  then obtain res1 where "deliver_claimed down publish at es (rl_db w1) = (res1, sent, db')" by blast
  from deliver_claimed_steps [OF this k1] s1 show ?thesis by (simp add: w1_def converse_rtranclp_into_rtranclp)
qed

text \<open>How many copies of an event the processes hold that they have not yet published.\<close>

fun held :: "string \<Rightarrow> phase \<Rightarrow> nat" where
  "held j (Holding es) = count_list (map oe_EventID es) j"
| "held j (Published e answer es) = count_list (map oe_EventID es) j"

definition in_flight :: "string \<Rightarrow> phase list \<Rightarrow> nat" where
  "in_flight j phs = sum_list (map (held j) phs)"

lemma in_flight_update:
  "k < length phs \<Longrightarrow> in_flight j (phs[k := x]) + held j (phs ! k) = in_flight j phs + held j x"
proof (induction phs arbitrary: k)
  case (Cons y phs)
  then show ?case by (cases k) (auto simp: in_flight_def)
qed simp

lemma ClaimDueEvents_row:
  assumes "outbox_key db" "row_of db j = Some r" "ClaimDueEvents down locked limit now db = (res, db')"
  shows "outbox_key db' \<and> (\<exists>r'. row_of db' j = Some r' \<and>
    count_list (map oe_EventID (case res of Inl _ \<Rightarrow> [] | Inr es \<Rightarrow> es)) j + ob_Attempts r \<le> ob_Attempts r' \<and>
    (row_ok r \<longrightarrow> row_ok r') \<and> (ob_DeliveredAt r \<noteq> None \<longrightarrow> r' = r))"
  using assms(3)
proof (cases rule: ClaimDueEvents_cases)
  case (failed e)
  then show ?thesis using assms(1,2) by simp
next
  case (claimed rows)
  let ?ids = "ob_EventID ` set rows"
  define r1 where "r1 = (if j \<in> ?ids then claim_row now r else r)"
  have row1: "row_of db' j = Some r1" using assms(2) by (simp add: claimed(3) row_of_update_rows r1_def)
  have key1: "outbox_key db'" using assms(1) by (simp add: claimed(3))
  have held: "map oe_EventID (case res of Inl _ \<Rightarrow> [] | Inr es \<Rightarrow> es) = map ob_EventID rows" by (simp add: claimed(2) event_of_def)
  show ?thesis
  proof (cases "j \<in> ?ids")
    case True
    then obtain x where x: "x \<in> set rows" "ob_EventID x = j" by blast
    then have "x \<in> set (db_outbox db)" "is_due now x"
      using claimable_rows [of locked limit now db] unfolding claimed(1) by auto
    then have due: "is_due now r" using row_of_mem [OF assms(1)] x(2) assms(2) by force
    have "distinct (map ob_EventID rows)" unfolding claimed(1) by (rule claimable_distinct [OF assms(1)])
    then have "count_list (map ob_EventID rows) j + ob_Attempts r \<le> ob_Attempts r1"
      using True count_list_distinct [of "map ob_EventID rows" j] by (simp add: r1_def claim_row_def)
    moreover have "row_ok r \<longrightarrow> row_ok r1" using due True by (auto simp: r1_def row_ok_def claim_row_def is_due_def MaxOutboxAttempts_def)
    moreover have "ob_DeliveredAt r = None" using due by (simp add: is_due_def)
    ultimately show ?thesis using key1 row1 unfolding held by simp
  next
    case False
    then have "count_list (map ob_EventID rows) j = 0" "r1 = r" by (auto simp: count_list_0_iff r1_def)
    then show ?thesis using key1 row1 unfolding held by simp
  qed
qed

lemma mark_row:
  assumes "outbox_key db" "row_of db j = Some r" "mark down e answer at db = (res, db')"
  shows "outbox_key db' \<and> (\<exists>r'. row_of db' j = Some r' \<and> ob_Attempts r' = ob_Attempts r \<and> ob_FailedAt r' = ob_FailedAt r \<and>
    (ob_DeliveredAt r \<noteq> None \<longrightarrow> r' = r))"
proof (cases answer)
  case None
  then have m: "MarkDelivered down (oe_EventID e) at db = (res, db')" using assms(3) by (simp add: mark_def)
  show ?thesis using mark_rows(1) [OF m] mark_rows(2) [OF m assms(2)] assms(1) by blast
next
  case (Some reason)
  then have m: "MarkAttemptFailed down (oe_EventID e) reason db = (res, db')" using assms(3) by (simp add: mark_def)
  show ?thesis using mark_failed_rows(1) [OF m] mark_failed_rows(2) [OF m assms(2)] assms(1) by blast
qed

text \<open>What a step does for one event.\<close>

lemma outbox_step_row:
  assumes "outbox_step w w'" "outbox_key (rl_db w)" "row_of (rl_db w) j = Some r"
  shows "outbox_key (rl_db w') \<and> (\<exists>r'. row_of (rl_db w') j = Some r' \<and>
    count_list (rl_sent w') j + in_flight j (rl_phases w') + ob_Attempts r \<le> count_list (rl_sent w) j + in_flight j (rl_phases w) + ob_Attempts r' \<and>
    (row_ok r \<longrightarrow> row_ok r') \<and> (ob_DeliveredAt r \<noteq> None \<longrightarrow> r' = r))"
  using assms(1)
proof cases
  case (claimed k down locked limit now res db')
  let ?es = "case res of Inl _ \<Rightarrow> [] | Inr es \<Rightarrow> es"
  have "in_flight j ((rl_phases w) [k := Holding ?es]) = in_flight j (rl_phases w) + count_list (map oe_EventID ?es) j"
    using in_flight_update [OF claimed(2), of j "Holding ?es"] claimed(3) by simp
  then show ?thesis using ClaimDueEvents_row [OF assms(2,3) claimed(4)] claimed(1) by auto
next
  case (published k e es answer)
  have "in_flight j ((rl_phases w) [k := Published e answer es]) + count_list (map oe_EventID (e # es)) j =
      in_flight j (rl_phases w) + count_list (map oe_EventID es) j"
    using in_flight_update [OF published(2), of j "Published e answer es"] published(3) by simp
  then show ?thesis using assms(2,3) published(1) by (auto split: if_splits)
next
  case (marked k e answer es down at res db')
  have "in_flight j ((rl_phases w) [k := Holding (if isl res then [] else es)]) \<le> in_flight j (rl_phases w)"
    using in_flight_update [OF marked(2), of j "Holding (if isl res then [] else es)"] marked(3) by (simp split: if_splits)
  then show ?thesis using mark_row [OF assms(2,3) marked(4)] marked(1) by (fastforce simp: row_ok_def)
next
  case (died k)
  have "in_flight j ((rl_phases w) [k := Holding []]) \<le> in_flight j (rl_phases w)"
    using in_flight_update [OF died(2), of j "Holding []"] by simp
  then show ?thesis using assms(2,3) died(1) by auto
next
  case (queued x)
  have "row_of (rl_db w') j = Some r" using assms(3) queued(1) by (simp add: row_of_def find_append_else)
  moreover have "outbox_key (rl_db w')" using assms(2) queued(1,2) by (simp add: outbox_key_def)
  ultimately show ?thesis using queued(1) by simp
qed

text \<open>
  C31.  Delivery is bounded.  However the claims, publishes and marks of any number of processes interleave with one another and with events being queued, against
  any broker, with any statement failing and any process dying, a row is never lost, its attempts never pass twelve, and the publishes of
  its event that have happened and that are still to come from batches already claimed never grow by more than its attempts do; so from a state with nothing
  claimed it is handed to the broker at most twelve times.  From the moment it is recorded as delivered its row never changes, and only processes that had
  claimed it before can publish it again, each once.
\<close>

theorem outbox_bounded:
  assumes "outbox_key (rl_db w)" "row_of (rl_db w) j = Some r" "row_ok r" "outbox_step\<^sup>*\<^sup>* w w'"
  shows "\<exists>r'. row_of (rl_db w') j = Some r' \<and> ob_Attempts r' \<le> 12 \<and> (ob_FailedAt r' \<noteq> None \<longleftrightarrow> ob_Attempts r' = 12) \<and>
    count_list (rl_sent w') j + in_flight j (rl_phases w') + ob_Attempts r \<le>
      count_list (rl_sent w) j + in_flight j (rl_phases w) + ob_Attempts r' \<and>
    (rl_sent w = [] \<and> in_flight j (rl_phases w) = 0 \<longrightarrow> count_list (rl_sent w') j \<le> 12) \<and>
    (ob_DeliveredAt r \<noteq> None \<longrightarrow> r' = r \<and> count_list (rl_sent w') j \<le> count_list (rl_sent w) j + in_flight j (rl_phases w))"
proof -
  have "outbox_key (rl_db w') \<and> (\<exists>r'. row_of (rl_db w') j = Some r' \<and>
    count_list (rl_sent w') j + in_flight j (rl_phases w') + ob_Attempts r \<le> count_list (rl_sent w) j + in_flight j (rl_phases w) + ob_Attempts r' \<and>
    row_ok r' \<and> (ob_DeliveredAt r \<noteq> None \<longrightarrow> r' = r))"
    using assms(4)
  proof (induction rule: rtranclp_induct)
    case base
    then show ?case using assms(1-3) by simp
  next
    case (step u v)
    then obtain r1 where r1: "outbox_key (rl_db u)" "row_of (rl_db u) j = Some r1"
      "count_list (rl_sent u) j + in_flight j (rl_phases u) + ob_Attempts r \<le> count_list (rl_sent w) j + in_flight j (rl_phases w) + ob_Attempts r1"
      "row_ok r1" "ob_DeliveredAt r \<noteq> None \<longrightarrow> r1 = r" by blast
    from outbox_step_row [OF step(2) r1(1,2)] obtain r2 where r2: "outbox_key (rl_db v)" "row_of (rl_db v) j = Some r2"
      "count_list (rl_sent v) j + in_flight j (rl_phases v) + ob_Attempts r1 \<le> count_list (rl_sent u) j + in_flight j (rl_phases u) + ob_Attempts r2"
      "row_ok r1 \<longrightarrow> row_ok r2" "ob_DeliveredAt r1 \<noteq> None \<longrightarrow> r2 = r1" by blast
    then show ?case using r1 by (intro conjI exI [of _ r2]) auto
  qed
  then obtain r' where r': "row_of (rl_db w') j = Some r'" "row_ok r'" "ob_DeliveredAt r \<noteq> None \<longrightarrow> r' = r"
    "count_list (rl_sent w') j + in_flight j (rl_phases w') + ob_Attempts r \<le> count_list (rl_sent w) j + in_flight j (rl_phases w) + ob_Attempts r'"
    by blast
  then show ?thesis by (intro exI [of _ r']) (auto simp: row_ok_def MaxOutboxAttempts_def)
qed

definition outbox_sample :: DB where
  "outbox_sample = snd (sample_create sample_db)"

definition steady_pass :: "int \<Rightarrow> bool \<Rightarrow> Pass" where
  "steady_pass now up = \<lparr> ps_down = all_up, ps_locked = (\<lambda>_. False),
     ps_publish = (\<lambda>_. if up then None else Some ''no responders''), ps_now = now, ps_at = now \<rparr>"

lemma outbox_sample_row:
  "outbox_key outbox_sample" "\<exists>r. row_of outbox_sample ''ev-1'' = Some r \<and> row_ok r \<and> ob_Attempts r = 0"
proof -
  have "case row_of outbox_sample ''ev-1'' of None \<Rightarrow> False | Some r \<Rightarrow>
      ob_Attempts r = 0 \<and> ob_FailedAt r = None"
    by code_simp
  then show "\<exists>r. row_of outbox_sample ''ev-1'' = Some r \<and> row_ok r \<and> ob_Attempts r = 0"
    by (auto simp: row_ok_def MaxOutboxAttempts_def split: option.splits)
  have "distinct (map ob_EventID (db_outbox outbox_sample))" by code_simp
  then show "outbox_key outbox_sample" by (simp add: outbox_key_def)
qed

text \<open>
  Two processes against one event: the second claims it a second later, while the first is still publishing.  The first records the delivery, and the second
  publishes it again.
\<close>

definition two_idle :: Relay where
  "two_idle = \<lparr> rl_db = outbox_sample, rl_sent = [], rl_phases = [Holding [], Holding []] \<rparr>"

definition claim_by :: "nat \<Rightarrow> int \<Rightarrow> Relay \<Rightarrow> Relay" where
  "claim_by k now w = (case ClaimDueEvents all_up (\<lambda>_. False) outboxBatch now (rl_db w) of
     (res, db') \<Rightarrow> w \<lparr> rl_db := db', rl_phases := (rl_phases w) [k := Holding (case res of Inl _ \<Rightarrow> [] | Inr es \<Rightarrow> es)] \<rparr>)"

definition both_claimed :: Relay where
  "both_claimed = claim_by 1 (2 * nanos) (claim_by 0 (1 * nanos) two_idle)"

definition first_delivers :: "Relay" where
  "first_delivers = (case rl_phases both_claimed ! 0 of
     Holding (e # es) \<Rightarrow>
       both_claimed \<lparr> rl_sent := [oe_EventID e], rl_db := snd (MarkDelivered all_up (oe_EventID e) (3 * nanos) (rl_db both_claimed)),
                      rl_phases := (rl_phases both_claimed) [0 := Holding es] \<rparr>
   | _ \<Rightarrow> both_claimed)"

lemma claim_by_step: "k < length (rl_phases w) \<Longrightarrow> rl_phases w ! k = Holding [] \<Longrightarrow> outbox_step w (claim_by k now w)"
  using outbox_step.claimed [of k w all_up "\<lambda>_. False" outboxBatch now] by (simp add: claim_by_def split: prod.split)

definition queued_event :: OutboxEvent where
  "queued_event = (event_of (hd (db_outbox outbox_sample)))"

lemma both_claimed_phases:
  "rl_phases both_claimed = [Holding [queued_event \<lparr> oe_Attempts := 1 \<rparr>], Holding [queued_event \<lparr> oe_Attempts := 2 \<rparr>]]"
  by code_simp

lemma first_delivers_facts:
  "oe_EventID queued_event = ''ev-1''" "rl_sent both_claimed = []"
  "case row_of (rl_db first_delivers) ''ev-1'' of None \<Rightarrow> False | Some r \<Rightarrow> ob_DeliveredAt r \<noteq> None \<and> ob_Attempts r = 2 \<and> ob_FailedAt r = None"
  "distinct (map ob_EventID (db_outbox (rl_db first_delivers)))"
  by code_simp+

lemma first_delivers_reached: "outbox_step\<^sup>*\<^sup>* two_idle first_delivers"
proof -
  let ?e = "queued_event \<lparr> oe_Attempts := 1 \<rparr>"
  have a: "outbox_step two_idle (claim_by 0 (1 * nanos) two_idle)" by (rule claim_by_step) (simp_all add: two_idle_def)
  have "rl_phases (claim_by 0 (1 * nanos) two_idle) = [Holding [?e], Holding []]" by code_simp
  then have b: "outbox_step (claim_by 0 (1 * nanos) two_idle) both_claimed" unfolding both_claimed_def by (intro claim_by_step) simp_all
  define w where "w = both_claimed \<lparr> rl_sent := rl_sent both_claimed @ [oe_EventID ?e], rl_phases := (rl_phases both_claimed) [0 := Published ?e None []] \<rparr>"
  have c: "outbox_step both_claimed w" unfolding w_def by (rule outbox_step.published) (simp_all add: both_claimed_phases)
  have m: "mark all_up ?e None (3 * nanos) (rl_db w) = (Ok (), snd (MarkDelivered all_up (oe_EventID ?e) (3 * nanos) (rl_db both_claimed)))"
    by (simp add: mark_def MarkDelivered_def all_up_def w_def)
  have "outbox_step w (w \<lparr> rl_db := snd (MarkDelivered all_up (oe_EventID ?e) (3 * nanos) (rl_db both_claimed)),
      rl_phases := (rl_phases w) [0 := Holding (if isl (Ok () :: DBError + unit) then [] else [])] \<rparr>)"
    by (rule outbox_step.marked [OF _ _ m]) (simp_all add: w_def both_claimed_phases)
  moreover have "first_delivers = w \<lparr> rl_db := snd (MarkDelivered all_up (oe_EventID ?e) (3 * nanos) (rl_db both_claimed)),
      rl_phases := (rl_phases w) [0 := Holding (if isl (Ok () :: DBError + unit) then [] else [])] \<rparr>"
    by (simp add: first_delivers_def w_def both_claimed_phases first_delivers_facts(2))
  ultimately have d: "outbox_step w first_delivers" by simp
  show ?thesis using a b c d by (meson converse_rtranclp_into_rtranclp r_into_rtranclp)
qed

theorem republished_after_delivery:
  "\<exists>w'. outbox_step\<^sup>*\<^sup>* two_idle first_delivers \<and> outbox_step first_delivers w' \<and>
     (\<exists>r. row_of (rl_db first_delivers) ''ev-1'' = Some r \<and> ob_DeliveredAt r \<noteq> None) \<and>
     rl_sent first_delivers = [''ev-1''] \<and> rl_sent w' = [''ev-1'', ''ev-1'']"
proof -
  let ?e = "queued_event \<lparr> oe_Attempts := 2 \<rparr>"
  have ph: "rl_phases first_delivers = [Holding [], Holding [?e]]" "rl_sent first_delivers = [''ev-1'']"
    by (simp_all add: first_delivers_def both_claimed_phases first_delivers_facts(1))
  have "outbox_step first_delivers (first_delivers \<lparr> rl_sent := rl_sent first_delivers @ [oe_EventID ?e],
      rl_phases := (rl_phases first_delivers) [1 := Published ?e None []] \<rparr>)"
    by (rule outbox_step.published) (simp_all add: ph)
  then show ?thesis using first_delivers_reached first_delivers_facts(1,3) ph(2) by (auto split: option.splits)
qed

theorem outbox_bounded_witness:
  "(\<exists>r'. row_of (rl_db first_delivers) ''ev-1'' = Some r' \<and> ob_Attempts r' \<le> 12) \<and> count_list (rl_sent first_delivers) ''ev-1'' \<le> 12"
proof -
  obtain r where r: "row_of outbox_sample ''ev-1'' = Some r" "row_ok r" using outbox_sample_row(2) by blast
  have w: "rl_db two_idle = outbox_sample" "rl_sent two_idle = []" "in_flight ''ev-1'' (rl_phases two_idle) = 0"
    by (simp_all add: two_idle_def in_flight_def)
  from outbox_bounded [of two_idle "''ev-1''" r first_delivers] first_delivers_reached outbox_sample_row(1) r show ?thesis unfolding w by auto
qed

lemma deliver_claimed_all:
  assumes "\<forall>s. \<not> down s" "\<forall>e. publish e = None"
  shows "fst (fst (deliver_claimed down publish at es db)) = length es \<and>
    snd (fst (deliver_claimed down publish at es db)) = None \<and> fst (snd (deliver_claimed down publish at es db)) = map oe_EventID es"
proof (induction es arbitrary: db)
  case (Cons e es)
  let ?db = "snd (MarkDelivered down (oe_EventID e) at db)"
  have "MarkDelivered down (oe_EventID e) at db = (Ok (), ?db)"
    using assms(1) by (simp add: MarkDelivered_def)
  then show ?case using Cons [of ?db] assms(2) by (auto split: prod.splits)
qed simp

lemma deliver_claimed_keeps:
  assumes "\<forall>s. \<not> down s" "\<forall>e. publish e = None" "row_of db j = Some r" "ob_DeliveredAt r \<noteq> None"
  shows "row_of (snd (snd (deliver_claimed down publish at es db))) j = Some r"
  using deliver_claimed_rows [of down publish at es db _ _ _ j r] assms(3,4)
  by (metis prod.collapse option.inject)

lemma deliver_claimed_marks:
  assumes "\<forall>s. \<not> down s" "\<forall>e. publish e = None" "row_of db j = Some r" "ob_DeliveredAt r = None"
    and "j \<in> oe_EventID ` set es"
  shows "row_of (snd (snd (deliver_claimed down publish at es db))) j =
    Some (r \<lparr> ob_DeliveredAt := Some at, ob_LastError := None \<rparr>)"
  using assms(3-5)
proof (induction es arbitrary: db)
  case (Cons e es)
  let ?db = "update_rows {oe_EventID e} (\<lambda>r. if ob_DeliveredAt r = None
      then r \<lparr> ob_DeliveredAt := Some at, ob_LastError := None \<rparr> else r) db"
  have m: "MarkDelivered down (oe_EventID e) at db = (Ok (), ?db)"
    using assms(1) by (simp add: MarkDelivered_def)
  have step: "snd (snd (deliver_claimed down publish at (e # es) db)) =
      snd (snd (deliver_claimed down publish at es ?db))"
    by (simp add: assms(2) m split: prod.splits)
  show ?case
  proof (cases "oe_EventID e = j")
    case True
    then have "row_of ?db j = Some (r \<lparr> ob_DeliveredAt := Some at, ob_LastError := None \<rparr>)"
      using Cons.prems(1,2) by (simp add: row_of_update_rows)
    from deliver_claimed_keeps [OF assms(1,2) this] show ?thesis unfolding step by simp
  next
    case False
    then have "row_of ?db j = Some r" using Cons.prems(1) by (simp add: row_of_update_rows)
    from Cons.IH [OF this Cons.prems(2)] False Cons.prems(3) show ?thesis unfolding step by auto
  qed
qed simp

lemma due_delivered:
  assumes "\<forall>s. \<not> down s" "\<forall>e. publish e = None" "\<forall>i. \<not> locked i"
    and "outbox_key db" "row_of db j = Some r" "is_due now r"
    and "length (filter (is_due now) (db_outbox db)) \<le> 50"
  shows "row_of (snd (snd (deliverOutbox down locked publish now at db))) j =
      Some ((claim_row now r) \<lparr> ob_DeliveredAt := Some at, ob_LastError := None \<rparr>)"
    and "fst (fst (deliverOutbox down locked publish now at db)) = length (filter (is_due now) (db_outbox db))"
proof -
  let ?rows = "claimable locked outboxBatch now db"
  have rows: "?rows = sort_key ob_OccurredAt (filter (is_due now) (db_outbox db))"
    using assms(3,7) by (simp add: claimable_def outboxBatch_def Let_def)
  obtain cl db1 where c: "ClaimDueEvents down locked outboxBatch now db = (cl, db1)"
    by (cases "ClaimDueEvents down locked outboxBatch now db")
  have nofail: "\<not> isl cl"
    using c assms(1) by (auto simp: ClaimDueEvents_def transaction_def statement_def Let_def split: if_splits)
  from c have cl: "cl = Inr (map (\<lambda>r. (event_of r) \<lparr> oe_Attempts := ob_Attempts r + 1 \<rparr>) ?rows)"
    and db1: "db1 = update_rows (ob_EventID ` set ?rows) (claim_row now) db"
    using nofail by (cases rule: ClaimDueEvents_cases; auto)+
  let ?es = "map (\<lambda>r. (event_of r) \<lparr> oe_Attempts := ob_Attempts r + 1 \<rparr>) ?rows"
  have d: "deliverOutbox down locked publish now at db = deliver_claimed down publish at ?es db1"
    by (simp add: deliverOutbox_def c cl)
  have "map oe_EventID ?es = map ob_EventID ?rows" by (simp add: event_of_def)
  then have ids: "oe_EventID ` set ?es = ob_EventID ` set ?rows" by (metis list.set_map)
  have "r \<in> set (db_outbox db)" "ob_EventID r = j" using assms(5) by (auto simp: row_of_def find_Some_iff)
  then have mem: "j \<in> ob_EventID ` set ?rows" using assms(6) by (auto simp: rows)
  have r1: "row_of db1 j = Some (claim_row now r)" using assms(5) mem by (simp add: db1 row_of_update_rows)
  have "ob_DeliveredAt (claim_row now r) = None" using assms(6) by (simp add: claim_row_def is_due_def)
  from deliver_claimed_marks [OF assms(1,2) r1 this] mem ids
  show "row_of (snd (snd (deliverOutbox down locked publish now at db))) j =
      Some ((claim_row now r) \<lparr> ob_DeliveredAt := Some at, ob_LastError := None \<rparr>)"
    by (simp add: d)
  have "fst (fst (deliver_claimed down publish at ?es db1)) = length ?es"
    using deliver_claimed_all [OF assms(1,2)] by blast
  then show "fst (fst (deliverOutbox down locked publish now at db)) = length (filter (is_due now) (db_outbox db))"
    by (simp add: d rows)
qed

lemma pass_sends:
  assumes "\<forall>s. \<not> down s" "\<forall>e. publish e = None" "\<forall>i. \<not> locked i" "length (filter (is_due now) (db_outbox db)) \<le> 50"
  shows "fst (snd (deliverOutbox down locked publish now at db)) = map ob_EventID (sort_key ob_OccurredAt (filter (is_due now) (db_outbox db))) \<and>
    fst (deliverOutbox down locked publish now at db) = (length (filter (is_due now) (db_outbox db)), None)"
proof -
  have rows: "claimable locked outboxBatch now db = sort_key ob_OccurredAt (filter (is_due now) (db_outbox db))"
    using assms(3,4) by (simp add: claimable_def outboxBatch_def Let_def)
  obtain cl db1 where c: "ClaimDueEvents down locked outboxBatch now db = (cl, db1)" by fastforce
  have "\<not> isl cl" using c assms(1) by (auto simp: ClaimDueEvents_def transaction_def statement_def Let_def split: if_splits)
  with c have cl: "cl = Inr (map (\<lambda>r. (event_of r) \<lparr> oe_Attempts := ob_Attempts r + 1 \<rparr>) (claimable locked outboxBatch now db))"
    by (cases rule: ClaimDueEvents_cases) auto
  show ?thesis
    using deliver_claimed_all [OF assms(1,2), of at "map (\<lambda>r. (event_of r) \<lparr> oe_Attempts := ob_Attempts r + 1 \<rparr>) (claimable locked outboxBatch now db)" db1]
    by (simp add: deliverOutbox_def c cl rows prod_eq_iff event_of_def o_def)
qed

text \<open>
  C38.  Delivery happens: a pass in which the store answers, the broker acknowledges everything and no row is locked by another process, with at most one
  batch due, hands to the broker every due event and nothing else, each once and the oldest first, records each of them as delivered, and reports how many.
\<close>

theorem outbox_drains:
  assumes "\<forall>s. \<not> down s" "\<forall>e. publish e = None" "\<forall>i. \<not> locked i" "outbox_key db"
    and "length (filter (is_due now) (db_outbox db)) \<le> 50"
    and "deliverOutbox down locked publish now at db = ((n, err), sent, db')"
  shows "sent = map ob_EventID (sort_key ob_OccurredAt (filter (is_due now) (db_outbox db))) \<and>
    n = length sent \<and> err = None \<and>
    (\<forall>j \<in> set sent. \<exists>r'. row_of db' j = Some r' \<and> ob_DeliveredAt r' = Some at)"
proof -
  have "\<exists>r'. row_of db' j = Some r' \<and> ob_DeliveredAt r' = Some at" if mem: "j \<in> ob_EventID ` {r \<in> set (db_outbox db). is_due now r}" for j
  proof -
    obtain r where r: "r \<in> set (db_outbox db)" "ob_EventID r = j" "is_due now r" using mem by blast
    have "row_of db j = Some r" using row_of_mem [OF assms(4) r(1)] r(2) by simp
    from due_delivered(1) [OF assms(1-4) this r(3) assms(5), of at] show ?thesis by (simp add: assms(6))
  qed
  moreover note pass = pass_sends [OF assms(1-3,5), of at]
  ultimately show ?thesis unfolding assms(6) by simp
qed

theorem outbox_drains_witness:
  "case deliverOutbox all_up (\<lambda>_. False) (\<lambda>_. None) 100 101 outbox_sample of ((n, err), sent, db') \<Rightarrow> n = 1 \<and> sent = [''ev-1'']"
proof -
  obtain n err sent db' where d: "deliverOutbox all_up (\<lambda>_. False) (\<lambda>_. None) 100 101 outbox_sample = ((n, err), sent, db')"
    by (metis prod.exhaust)
  have one: "map ob_EventID (sort_key ob_OccurredAt (filter (is_due 100) (db_outbox outbox_sample))) = [''ev-1'']"
    "length (filter (is_due 100) (db_outbox outbox_sample)) \<le> 50" by code_simp+
  from outbox_drains [OF _ _ _ outbox_sample_row(1) one(2) d] one(1) show ?thesis unfolding d by (simp add: all_up_def)
qed

text \<open>
  A defect: the claim that spends the last attempt also records the row as failed, and the
  acknowledgement does not take that back.  An event that succeeds on its twelfth attempt is delivered and
  failed at once, is counted as failed, and stays so for ever.
\<close>

theorem delivered_yet_failed:
  assumes "\<forall>s. \<not> down s" "\<forall>e. publish e = None" "\<forall>i. \<not> locked i" "outbox_key db"
    and "length (filter (is_due now) (db_outbox db)) \<le> 50" "row_of db j = Some r" "is_due now r"
    and "ob_Attempts r = 11" "deliverOutbox down locked publish now at db = (res, sent, db')"
    and "outbox_run ps db' = (sent', db'')" "OutboxState down db'' = Ok counts"
  shows "0 < oc_Failed counts \<and>
    (\<exists>r'. row_of db'' j = Some r' \<and> ob_DeliveredAt r' = Some at \<and> ob_FailedAt r' = Some now)"
proof -
  let ?r = "(claim_row now r) \<lparr> ob_DeliveredAt := Some at, ob_LastError := None \<rparr>"
  have r1: "row_of db' j = Some ?r"
    using due_delivered(1) [OF assms(1,2,3,4,6,7,5), of at] by (simp add: assms(9))
  have key: "outbox_key db'" using deliverOutbox_row [OF assms(4,6,9)] by simp
  from outbox_run_row [OF key r1 assms(10)] have r2: "row_of db'' j = Some ?r" by auto
  have f: "ob_FailedAt ?r = Some now" "ob_DeliveredAt ?r = Some at"
    using assms(8) by (simp_all add: claim_row_def MaxOutboxAttempts_def)
  have "?r \<in> set (filter (\<lambda>r. ob_FailedAt r \<noteq> None) (db_outbox db''))"
    using r2 f(1) by (auto simp: row_of_def find_Some_iff)
  then have "0 < length (filter (\<lambda>r. ob_FailedAt r \<noteq> None) (db_outbox db''))"
    by (rule length_pos_if_in_set)
  moreover have "oc_Failed counts = length (filter (\<lambda>r. ob_FailedAt r \<noteq> None) (db_outbox db''))"
    using assms(1,11) by (auto simp: OutboxState_def)
  ultimately have "0 < oc_Failed counts" by simp
  then show ?thesis using r2 f by auto
qed

definition eleven_failures :: DB where
  "eleven_failures = snd (outbox_run (map (\<lambda>n. steady_pass (int n * 10 ^ 12) False) [1..<12]) outbox_sample)"

theorem delivered_yet_failed_witness:
  "case deliverOutbox all_up (\<lambda>_. False) (\<lambda>_. None) (10 ^ 14) (10 ^ 14) eleven_failures of (res, sent, db') \<Rightarrow>
     (case OutboxState all_up db' of Inl _ \<Rightarrow> False | Inr c \<Rightarrow> 0 < oc_Failed c)"
proof -
  obtain res sent db' where d: "deliverOutbox all_up (\<lambda>_. False) (\<lambda>_. None) (10 ^ 14) (10 ^ 14) eleven_failures = (res, sent, db')"
    by (metis prod.exhaust)
  have one: "length (filter (is_due (10 ^ 14)) (db_outbox eleven_failures)) \<le> 50" by code_simp
  have "distinct (map ob_EventID (db_outbox eleven_failures))" by code_simp
  then have key: "outbox_key eleven_failures" by (simp add: outbox_key_def)
  have "case row_of eleven_failures ''ev-1'' of None \<Rightarrow> False | Some r \<Rightarrow> is_due (10 ^ 14) r \<and> ob_Attempts r = 11"
    by code_simp
  then obtain r where r: "row_of eleven_failures ''ev-1'' = Some r" "is_due (10 ^ 14) r" "ob_Attempts r = 11"
    by (auto split: option.splits)
  obtain c where c: "OutboxState all_up db' = Ok c" by (simp add: OutboxState_def all_up_def)
  from delivered_yet_failed [OF _ _ _ key one r d, of "[]"] c show ?thesis
    unfolding d by (simp add: all_up_def)
qed

end
