(* ===== verification/Oidc.thy ===== *)
theory Oidc
  imports Strconv "HOL-Library.AList"
begin

section \<open>Local validation of bearer tokens (internal/oidc)\<close>

text \<open>
  The verifier: splitting and decoding a signed token, the key set and its cache, discovery, the
  signature and the claims.  Parameters are what the standard library decides: the hash and signature
  functions (record Crypto), how a JSON text decodes and how a URL parses (record Wire), and what the
  client's Do answers for a URL during one call (the argument fetch).  Do follows redirects, since the client sets no CheckRedirect: client\_Do
  makes such a fetch of single round trips.  The lists of URLs asked for are returned
  beside each answer.  now is the clock when a call starts and later when its fetches have ended; others is
  what other requests do to the shared verifier while this one is fetching.  An instant beyond the range of
  int64 seconds wraps as in time.Unix; the saturation of Time.Add at the end of that range is not
  modelled.  Error texts that quote a value are kept without it.
\<close>

subsection \<open>Keys\<close>

datatype Hash = SHA256 | SHA384 | SHA512
datatype Curve = P256 | P384 | P521
datatype PublicKey = RSAKey nat nat | ECKey Curve string

primrec curve_bits :: "Curve \<Rightarrow> nat" where
  "curve_bits P256 = 256"
| "curve_bits P384 = 384"
| "curve_bits P521 = 521"

definition curve_size :: "Curve \<Rightarrow> nat" where
  "curve_size c = (curve_bits c + 7) div 8"

record Crypto =
  cr_Sum :: "Hash \<Rightarrow> string \<Rightarrow> string"
  cr_PKCS1v15 :: "nat \<times> nat \<Rightarrow> Hash \<Rightarrow> string \<Rightarrow> string \<Rightarrow> bool"
  cr_PSS :: "nat \<times> nat \<Rightarrow> Hash \<Rightarrow> string \<Rightarrow> string \<Rightarrow> bool"
  cr_ECDSA :: "Curve \<times> string \<Rightarrow> string \<Rightarrow> nat \<Rightarrow> nat \<Rightarrow> bool"
  cr_OnCurve :: "Curve \<Rightarrow> string \<Rightarrow> bool"

record jwk =
  jk_Kty :: string
  jk_Kid :: string
  jk_Use :: string
  jk_Alg :: string
  jk_N :: string
  jk_E :: string
  jk_Crv :: string
  jk_X :: string
  jk_Y :: string

text \<open>big.Int.SetBytes and binary.BigEndian.\<close>

definition be_nat :: "string \<Rightarrow> nat" where
  "be_nat s = foldl (\<lambda>acc c. acc * 256 + of_char c) 0 s"

definition decodeBigInt :: "string \<Rightarrow> nat option" where
  "decodeBigInt encoded =
     (case b64_decode encoded of
        None \<Rightarrow> None
      | Some raw \<Rightarrow> if raw = [] then None else Some (be_nat raw))"

definition curve_of :: "string \<Rightarrow> Curve option" where
  "curve_of crv = (if crv = ''P-256'' then Some P256 else if crv = ''P-384'' then Some P384
                   else if crv = ''P-521'' then Some P521 else None)"

text \<open>None is any of its errors: the only caller skips the key.\<close>

definition publicKey :: "Crypto \<Rightarrow> jwk \<Rightarrow> PublicKey option" where
  "publicKey cr k =
     (if jk_Kty k = ''RSA'' then
        (case decodeBigInt (jk_N k) of
           None \<Rightarrow> None
         | Some n \<Rightarrow>
             (case b64_decode (jk_E k) of
                None \<Rightarrow> None
              | Some exponent \<Rightarrow>
                  if exponent = [] \<or> 8 < length exponent then None
                  else if 2 ^ 31 < be_nat exponent then None
                  else if n < 2 ^ 2047 then None
                  else Some (RSAKey n (be_nat exponent))))
      else if jk_Kty k = ''EC'' then
        (case curve_of (jk_Crv k) of
           None \<Rightarrow> None
         | Some curve \<Rightarrow>
             (case (b64_decode (jk_X k), b64_decode (jk_Y k)) of
                (Some x, Some y) \<Rightarrow>
                  if length x \<noteq> curve_size curve \<or> length y \<noteq> curve_size curve then None
                  else if cr_OnCurve cr curve (CHR 0x04 # x @ y) then Some (ECKey curve (CHR 0x04 # x @ y))
                  else None
              | _ \<Rightarrow> None))
      else None)"

type_synonym key_set = "(string \<times> PublicKey) list"

fun collect_keys :: "Crypto \<Rightarrow> jwk list \<Rightarrow> key_set \<Rightarrow> key_set" where
  "collect_keys cr [] keys = keys"
| "collect_keys cr (entry # es) keys =
     (if jk_Use entry = ''enc'' then collect_keys cr es keys
      else case publicKey cr entry of
        None \<Rightarrow> collect_keys cr es keys
      | Some key \<Rightarrow> collect_keys cr es (AList.update (jk_Kid entry) key keys))"

subsection \<open>Signatures\<close>

definition digestFor :: "Crypto \<Rightarrow> string \<Rightarrow> string \<Rightarrow> Hash \<times> string" where
  "digestFor cr alg signed =
     (let h = (if drop 2 alg = ''384'' then SHA384 else if drop 2 alg = ''512'' then SHA512 else SHA256)
      in (h, cr_Sum cr h signed))"

text \<open>None is the nil error.\<close>

definition verifySignature :: "Crypto \<Rightarrow> string \<Rightarrow> PublicKey \<Rightarrow> string \<Rightarrow> string \<Rightarrow> string option" where
  "verifySignature cr alg key signed signature =
     (case digestFor cr alg signed of (hash, digest) \<Rightarrow>
        if alg \<in> set [''RS256'', ''RS384'', ''RS512''] then
          (case key of
             RSAKey n e \<Rightarrow> if cr_PKCS1v15 cr (n, e) hash digest signature then None
                          else Some ''crypto/rsa: verification error''
           | _ \<Rightarrow> Some ''the signing key is not an RSA key'')
        else if alg \<in> set [''PS256'', ''PS384'', ''PS512''] then
          (case key of
             RSAKey n e \<Rightarrow> if cr_PSS cr (n, e) hash digest signature then None
                          else Some ''crypto/rsa: verification error''
           | _ \<Rightarrow> Some ''the signing key is not an RSA key'')
        else if alg \<in> set [''ES256'', ''ES384'', ''ES512''] then
          (case key of
             ECKey curve point \<Rightarrow>
               (let size = curve_size curve
                in if length signature \<noteq> 2 * size then Some ''signature is the wrong length for this curve''
                   else if cr_ECDSA cr (curve, point) digest (be_nat (take size signature)) (be_nat (drop size signature))
                   then None else Some ''signature does not verify'')
           | _ \<Rightarrow> Some ''the signing key is not an ECDSA key'')
        else Some ''unsupported signing algorithm'')"

subsection \<open>Claims, configuration, state\<close>

datatype OidcError = ErrNotConfigured | ErrInvalidToken string | ErrProviderUnavailable string

datatype audience_json = AudString string | AudStrings "string list" | AudOther

text \<open>A JSON null unmarshals into the empty string: AudString of the empty one.\<close>

definition audience_UnmarshalJSON :: "audience_json \<Rightarrow> string list option" where
  "audience_UnmarshalJSON j =
     (case j of AudString single \<Rightarrow> Some [single] | AudStrings many \<Rightarrow> Some many | AudOther \<Rightarrow> None)"

definition audience_contains :: "string list \<Rightarrow> string \<Rightarrow> bool" where
  "audience_contains a value \<longleftrightarrow> value \<in> set a"

record Claims =
  cl_Subject :: string
  cl_Issuer :: string
  cl_Email :: string
  cl_Name :: string
  cl_PreferredUsername :: string
  cl_Groups :: "string list"
  cl_Audience :: "string list"
  cl_ExpiresAt :: int
  cl_NotBefore :: int
  cl_IssuedAt :: int

record OidcConfig =
  oc_Issuer :: string
  oc_Audience :: string
  oc_ClockSkew :: int
  oc_CacheTTL :: int
  oc_Timeout :: int

definition second :: int where "second = 1000000000"

definition withDefaults_oidc :: "OidcConfig \<Rightarrow> OidcConfig" where
  "withDefaults_oidc c = c
     \<lparr> oc_ClockSkew := (if oc_ClockSkew c \<le> 0 then 60 * second else oc_ClockSkew c),
       oc_CacheTTL := (if oc_CacheTTL c \<le> 0 then 900 * second else oc_CacheTTL c),
       oc_Timeout := (if oc_Timeout c \<le> 0 then 5 * second else oc_Timeout c) \<rparr>"

record Verifier =
  vf_config :: OidcConfig
  vf_jwksURI :: string
  vf_keys :: "key_set option"
  vf_fetchedAt :: int
  vf_lastKidRefresh :: "int option"
  vf_refreshEvery :: int

definition oidc_New :: "OidcConfig \<Rightarrow> OidcError + Verifier" where
  "oidc_New config0 =
     (let config = withDefaults_oidc config0
      in if TrimSpace (oc_Issuer config) = [] then Err ErrNotConfigured
         else Ok \<lparr> vf_config = config, vf_jwksURI = [], vf_keys = None, vf_fetchedAt = 0,
                   vf_lastKidRefresh = None, vf_refreshEvery = 30 * second \<rparr>)"

text \<open>time.Unix, in nanoseconds: the seconds are kept as an int64 from year 1.\<close>

definition time_Unix :: "int \<Rightarrow> int" where
  "time_Unix s = (wrap64 (s + 62135596800) - 62135596800) * second"

definition checkClaims :: "OidcConfig \<Rightarrow> int \<Rightarrow> Claims \<Rightarrow> OidcError option" where
  "checkClaims cfg now c =
     (if cl_Subject c = [] then Some (ErrInvalidToken ''no subject'')
      else if cl_Issuer c \<noteq> oc_Issuer cfg then Some (ErrInvalidToken ''issued by'')
      else if oc_Audience cfg \<noteq> [] \<and> \<not> audience_contains (cl_Audience c) (oc_Audience cfg)
      then Some (ErrInvalidToken ''not issued for this client'')
      else if cl_ExpiresAt c = 0 then Some (ErrInvalidToken ''no expiry'')
      else if time_Unix (cl_ExpiresAt c) + oc_ClockSkew cfg < now then Some (ErrInvalidToken ''expired'')
      else if cl_NotBefore c \<noteq> 0 \<and> now < time_Unix (cl_NotBefore c) - oc_ClockSkew cfg
      then Some (ErrInvalidToken ''not valid yet'')
      else None)"

subsection \<open>Fetching the key set\<close>

record Wire =
  wi_header :: "string \<Rightarrow> (string \<times> string) option"
  wi_claims :: "string \<Rightarrow> (audience_json option \<times> Claims) option"
  wi_jwks :: "string \<Rightarrow> jwk list option"
  wi_discovery :: "string \<Rightarrow> (string \<times> string) option"
  wi_parse :: "string \<Rightarrow> (string \<times> string) option"
  wi_crypto :: Crypto

text \<open>json.Unmarshal into Claims: the audience by its own method, the other fields as the library decodes them.\<close>

definition decodeClaims :: "Wire \<Rightarrow> string \<Rightarrow> Claims option" where
  "decodeClaims w payload =
     (case wi_claims w payload of
        None \<Rightarrow> None
      | Some (None, c) \<Rightarrow> Some (c \<lparr> cl_Audience := [] \<rparr>)
      | Some (Some j, c) \<Rightarrow> map_option (\<lambda>a. c \<lparr> cl_Audience := a \<rparr>) (audience_UnmarshalJSON j))"

type_synonym fetch = "string \<Rightarrow> (int \<times> string) option"

text \<open>
  http.Client.Do for a GET and the client as it is built, over single round trips: an answer, or a redirect with its Location resolved
  against the request (None when it does not parse).  The first request and nine redirects at most are sent; the URLs are returned in order.
\<close>

datatype trip = Answered int string | Redirected "string option"

fun client_Do :: "(string \<Rightarrow> trip option) \<Rightarrow> nat \<Rightarrow> string \<Rightarrow> (int \<times> string) option \<times> string list" where
  "client_Do rt n url =
     (case rt url of
        None \<Rightarrow> (None, [url])
      | Some (Answered status body) \<Rightarrow> (Some (status, body), [url])
      | Some (Redirected None) \<Rightarrow> (None, [url])
      | Some (Redirected (Some x)) \<Rightarrow>
          (case n of 0 \<Rightarrow> (None, [url]) | Suc m \<Rightarrow> (case client_Do rt m x of (r, urls) \<Rightarrow> (r, url # urls))))"

definition max_redirects :: nat where "max_redirects = 9"

definition fetched_by :: "(string \<Rightarrow> trip option) \<Rightarrow> fetch" where
  "fetched_by rt url = fst (client_Do rt max_redirects url)"

definition requests_sent :: "(string \<Rightarrow> trip option) \<Rightarrow> string list \<Rightarrow> string list" where
  "requests_sent rt urls = concat (map (\<lambda>url. snd (client_Do rt max_redirects url)) urls)"

declare client_Do.simps [simp del]

definition parseJWKS :: "Wire \<Rightarrow> string \<Rightarrow> string + key_set" where
  "parseJWKS w body =
     (case wi_jwks w body of
        None \<Rightarrow> Inl ''decode JWKS''
      | Some entries \<Rightarrow>
          (let keys = collect_keys (wi_crypto w) entries []
           in if keys = [] then Inl ''the key set contains no usable signing key'' else Inr keys))"

text \<open>io.LimitReader of one mebibyte.\<close>

definition limited :: "string \<Rightarrow> string" where
  "limited body = (if int (length body) \<le> 1048576 then body else take 1048576 body)"

definition oidc_get :: "fetch \<Rightarrow> string \<Rightarrow> string + string" where
  "oidc_get fetch url =
     (case fetch url of
        None \<Rightarrow> Inl ''request failed''
      | Some (status, body) \<Rightarrow> if status \<noteq> 200 then Inl (''HTTP '' @ Itoa status) else Inr (limited body))"

definition originOf :: "Wire \<Rightarrow> string \<Rightarrow> string option" where
  "originOf w raw =
     (case wi_parse w raw of
        None \<Rightarrow> None
      | Some (scheme, host) \<Rightarrow> if scheme = [] \<or> host = [] then None else Some (scheme @ ''://'' @ host))"

definition discovery_url :: "string \<Rightarrow> string" where
  "discovery_url issuer = TrimRightSlash issuer @ ''/.well-known/openid-configuration''"

definition discover :: "Wire \<Rightarrow> fetch \<Rightarrow> OidcConfig \<Rightarrow> OidcError + string" where
  "discover w fetch cfg =
     (case oidc_get fetch (discovery_url (oc_Issuer cfg)) of
        Inl e \<Rightarrow> Err (ErrProviderUnavailable (''discovery: '' @ e))
      | Inr body \<Rightarrow>
          (case wi_discovery w body of
             None \<Rightarrow> Err (ErrProviderUnavailable ''discovery document is not JSON'')
           | Some (issuer, jwks_uri) \<Rightarrow>
               if TrimRightSlash issuer \<noteq> TrimRightSlash (oc_Issuer cfg)
               then Err (ErrProviderUnavailable ''discovery names issuer'')
               else if jwks_uri = [] then Err (ErrProviderUnavailable ''discovery names no jwks_uri'')
               else case originOf w (oc_Issuer cfg) of
                 None \<Rightarrow> Err (ErrProviderUnavailable ''the configured issuer is not a usable URL'')
               | Some issuerOrigin \<Rightarrow>
                   (case originOf w jwks_uri of
                      None \<Rightarrow> Err (ErrProviderUnavailable ''discovery names a jwks_uri that is not a usable URL'')
                    | Some keysOrigin \<Rightarrow>
                        if keysOrigin \<noteq> issuerOrigin
                        then Err (ErrProviderUnavailable ''discovery points its key set elsewhere'')
                        else Ok jwks_uri)))"

text \<open>The requests refresh makes and its answer: the endpoint used and the keys, or the error.\<close>

definition refresh_fetch :: "Wire \<Rightarrow> fetch \<Rightarrow> Verifier \<Rightarrow> (OidcError + string \<times> key_set) \<times> string list" where
  "refresh_fetch w fetch v =
     (let asked = (if vf_jwksURI v = [] then [discovery_url (oc_Issuer (vf_config v))] else [])
      in case (if vf_jwksURI v = [] then discover w fetch (vf_config v) else Ok (vf_jwksURI v)) of
           Inl e \<Rightarrow> (Err e, asked)
         | Inr uri \<Rightarrow>
             (case oidc_get fetch uri of
                Inl e \<Rightarrow> (Err (ErrProviderUnavailable e), asked @ [uri])
              | Inr body \<Rightarrow>
                  (case parseJWKS w body of
                     Inl e \<Rightarrow> (Err (ErrProviderUnavailable e), asked @ [uri])
                   | Inr keys \<Rightarrow> (Ok (uri, keys), asked @ [uri]))))"

definition oidc_refresh ::
  "Wire \<Rightarrow> fetch \<Rightarrow> int \<Rightarrow> (Verifier \<Rightarrow> Verifier) \<Rightarrow> Verifier \<Rightarrow> (OidcError + key_set) \<times> string list \<times> Verifier" where
  "oidc_refresh w fetch later others v =
     (case refresh_fetch w fetch v of
        (Inl e, urls) \<Rightarrow> (Err e, urls, others v)
      | (Inr (uri, keys), urls) \<Rightarrow>
          (Ok keys, urls, (others v) \<lparr> vf_jwksURI := uri, vf_keys := Some keys, vf_fetchedAt := later \<rparr>))"

definition cache_fresh :: "int \<Rightarrow> Verifier \<Rightarrow> bool" where
  "cache_fresh now v \<longleftrightarrow> vf_keys v \<noteq> None \<and> now - vf_fetchedAt v < oc_CacheTTL (vf_config v)"

definition cached_key :: "int \<Rightarrow> string \<Rightarrow> Verifier \<Rightarrow> PublicKey option" where
  "cached_key now kid v =
     (if cache_fresh now v then (case vf_keys v of None \<Rightarrow> None | Some keys \<Rightarrow> map_of keys kid) else None)"

text \<open>An unknown kid on a fresh cache, within the window of the last one that was believed.\<close>

definition kid_throttled :: "int \<Rightarrow> Verifier \<Rightarrow> bool" where
  "kid_throttled now v \<longleftrightarrow> cache_fresh now v \<and>
     (case vf_lastKidRefresh v of None \<Rightarrow> False | Some t \<Rightarrow> now - t < vf_refreshEvery v)"

definition kid_decided :: "int \<Rightarrow> Verifier \<Rightarrow> Verifier" where
  "kid_decided now v = (if cache_fresh now v then v \<lparr> vf_lastKidRefresh := Some now \<rparr> else v)"

text \<open>The key among those just fetched: the one named, or the only one when none is named.\<close>

definition fetched_key :: "string \<Rightarrow> key_set \<Rightarrow> OidcError + PublicKey" where
  "fetched_key kid keys =
     (case map_of keys kid of
        Some key \<Rightarrow> Ok key
      | None \<Rightarrow> if kid = [] \<and> length keys = 1 then Ok (snd (hd keys))
                else Err (ErrInvalidToken ''unknown signing key''))"

definition keyFor ::
  "Wire \<Rightarrow> fetch \<Rightarrow> int \<Rightarrow> int \<Rightarrow> (Verifier \<Rightarrow> Verifier) \<Rightarrow> string \<Rightarrow> Verifier
   \<Rightarrow> (OidcError + PublicKey) \<times> string list \<times> Verifier" where
  "keyFor w fetch now later others kid v =
     (case cached_key now kid v of
        Some key \<Rightarrow> (Ok key, [], v)
      | None \<Rightarrow>
          if kid_throttled now v then (Err (ErrInvalidToken ''unknown signing key''), [], v)
          else (case oidc_refresh w fetch later others (kid_decided now v) of
                  (Inl e, urls, v') \<Rightarrow> (Err e, urls, v')
                | (Inr keys, urls, v') \<Rightarrow> (fetched_key kid keys, urls, v')))"

definition Verify ::
  "Wire \<Rightarrow> fetch \<Rightarrow> int \<Rightarrow> int \<Rightarrow> (Verifier \<Rightarrow> Verifier) \<Rightarrow> string \<Rightarrow> Verifier
   \<Rightarrow> (OidcError + Claims) \<times> string list \<times> Verifier" where
  "Verify w fetch now later others raw v =
     (case Split (TrimSpace raw) (CHR ''.'') of
        [p0, p1, p2] \<Rightarrow>
          (case b64_decode p0 of
             None \<Rightarrow> (Err (ErrInvalidToken ''header is not base64url''), [], v)
           | Some headerBytes \<Rightarrow>
               (case wi_header w headerBytes of
                  None \<Rightarrow> (Err (ErrInvalidToken ''header is not JSON''), [], v)
                | Some (alg, kid) \<Rightarrow>
                    if alg = [] \<or> alg = ''none'' then (Err (ErrInvalidToken ''unsigned token''), [], v)
                    else case b64_decode p2 of
                      None \<Rightarrow> (Err (ErrInvalidToken ''signature is not base64url''), [], v)
                    | Some signature \<Rightarrow>
                        (case keyFor w fetch now later others kid v of
                           (Inl e, urls, v') \<Rightarrow> (Err e, urls, v')
                         | (Inr key, urls, v') \<Rightarrow>
                             (case verifySignature (wi_crypto w) alg key (p0 @ ''.'' @ p1) signature of
                                Some e \<Rightarrow> (Err (ErrInvalidToken e), urls, v')
                              | None \<Rightarrow>
                                  (case b64_decode p1 of
                                     None \<Rightarrow> (Err (ErrInvalidToken ''payload is not base64url''), urls, v')
                                   | Some payload \<Rightarrow>
                                       (case decodeClaims w payload of
                                          None \<Rightarrow> (Err (ErrInvalidToken ''payload is not JSON''), urls, v')
                                        | Some claims \<Rightarrow>
                                            (case checkClaims (vf_config v) later claims of
                                               Some e \<Rightarrow> (Err e, urls, v')
                                             | None \<Rightarrow> (Ok claims, urls, v'))))))))
      | _ \<Rightarrow> (Err (ErrInvalidToken ''not a signed token''), [], v))"

subsection \<open>Who the verifier talks to and whose keys it believes\<close>

text \<open>
  The states of the shared verifier that requests can produce, in any interleaving: the two critical
  sections of a lookup are its steps, the second with what a refresh started from any earlier state has
  fetched.  served holds the answers with status 200 the provider has ever given.
\<close>

definition answers :: "(string \<times> string) set \<Rightarrow> fetch \<Rightarrow> bool" where
  "answers served fetch \<longleftrightarrow> (\<forall>url body. fetch url = Some (200, body) \<longrightarrow> (url, limited body) \<in> served)"

inductive verifier_reach :: "Wire \<Rightarrow> OidcConfig \<Rightarrow> (string \<times> string) set \<Rightarrow> Verifier \<Rightarrow> bool"
  for w cfg served where
  init: "oidc_New cfg = Ok v \<Longrightarrow> verifier_reach w cfg served v"
| decided: "verifier_reach w cfg served v \<Longrightarrow> verifier_reach w cfg served (v \<lparr> vf_lastKidRefresh := Some now \<rparr>)"
| stored: "\<lbrakk>verifier_reach w cfg served v; verifier_reach w cfg served v0; answers served fetch;
     refresh_fetch w fetch v0 = (Ok (uri, keys), urls)\<rbrakk>
    \<Longrightarrow> verifier_reach w cfg served (v \<lparr> vf_jwksURI := uri, vf_keys := Some keys, vf_fetchedAt := later \<rparr>)"

definition at_issuer :: "Wire \<Rightarrow> OidcConfig \<Rightarrow> string \<Rightarrow> bool" where
  "at_issuer w cfg url \<longleftrightarrow> originOf w url \<noteq> None \<and> originOf w url = originOf w (oc_Issuer cfg)"

definition issuer_key_set :: "Wire \<Rightarrow> OidcConfig \<Rightarrow> (string \<times> string) set \<Rightarrow> key_set \<Rightarrow> bool" where
  "issuer_key_set w cfg served keys \<longleftrightarrow>
     (\<exists>url body. (url, body) \<in> served \<and> at_issuer w cfg url \<and> parseJWKS w body = Inr keys)"

definition verifier_inv :: "Wire \<Rightarrow> OidcConfig \<Rightarrow> (string \<times> string) set \<Rightarrow> Verifier \<Rightarrow> bool" where
  "verifier_inv w cfg served v \<longleftrightarrow> vf_config v = withDefaults_oidc cfg \<and>
     (vf_jwksURI v = [] \<or> at_issuer w cfg (vf_jwksURI v)) \<and>
     (case vf_keys v of None \<Rightarrow> True | Some keys \<Rightarrow> issuer_key_set w cfg served keys)"

lemma withDefaults_oidc_Issuer [simp]:
  "oc_Issuer (withDefaults_oidc c) = oc_Issuer c" "oc_Audience (withDefaults_oidc c) = oc_Audience c"
  by (simp_all add: withDefaults_oidc_def)

lemma discover_ok: "discover w fetch cfg = Ok uri \<Longrightarrow> at_issuer w cfg uri \<and> uri \<noteq> []"
  by (auto simp: discover_def at_issuer_def split: sum.splits option.splits if_splits)

lemma oidc_get_ok: "oidc_get fetch url = Inr body \<Longrightarrow> \<exists>b. fetch url = Some (200, b) \<and> body = limited b"
  by (auto simp: oidc_get_def split: option.splits if_splits)

lemma refresh_fetch_urls:
  assumes "verifier_inv w cfg served v" "refresh_fetch w fetch v = (r, urls)" "u \<in> set urls"
  shows "u = discovery_url (oc_Issuer cfg) \<or> at_issuer w cfg u"
proof -
  have i: "oc_Issuer (vf_config v) = oc_Issuer cfg" using assms(1) by (simp add: verifier_inv_def)
  have d: "discover w fetch (vf_config v) = Ok uri \<Longrightarrow> at_issuer w cfg uri" for uri
    using discover_ok [of w fetch "vf_config v" uri] by (auto simp: at_issuer_def i)
  show ?thesis using assms d
    by (auto simp: refresh_fetch_def i verifier_inv_def Let_def split: sum.splits if_splits)
qed

lemma refresh_fetch_keys:
  assumes "verifier_inv w cfg served v" "answers served fetch" "refresh_fetch w fetch v = (Ok (uri, keys), urls)"
  shows "at_issuer w cfg uri \<and> issuer_key_set w cfg served keys"
proof -
  have i: "oc_Issuer (vf_config v) = oc_Issuer cfg" using assms(1) by (simp add: verifier_inv_def)
  have at: "at_issuer w cfg uri"
  proof (cases "vf_jwksURI v = []")
    case True
    then have "discover w fetch (vf_config v) = Ok uri"
      using assms(3) by (auto simp: refresh_fetch_def Let_def split: sum.splits)
    from discover_ok [OF this] show ?thesis by (auto simp: at_issuer_def i)
  next
    case False
    then have "uri = vf_jwksURI v" using assms(3) by (auto simp: refresh_fetch_def Let_def split: sum.splits)
    then show ?thesis using False assms(1) by (simp add: verifier_inv_def)
  qed
  obtain body where "oidc_get fetch uri = Inr body" "parseJWKS w body = Inr keys"
    using assms(3) by (auto simp: refresh_fetch_def Let_def split: sum.splits if_splits)
  then show ?thesis using at assms(2) oidc_get_ok [of fetch uri body]
    by (auto simp: issuer_key_set_def answers_def)
qed

lemma verifier_reach_inv: "verifier_reach w cfg served v \<Longrightarrow> verifier_inv w cfg served v"
proof (induction rule: verifier_reach.induct)
  case (init v)
  then show ?case by (auto simp: oidc_New_def verifier_inv_def Let_def split: if_splits)
next
  case (decided v now)
  then show ?case by (simp add: verifier_inv_def)
next
  case (stored v v0 fetch uri keys urls later)
  then show ?case using refresh_fetch_keys [of w cfg served v0 fetch uri keys urls] by (simp add: verifier_inv_def)
qed

definition fair_others :: "Wire \<Rightarrow> OidcConfig \<Rightarrow> (string \<times> string) set \<Rightarrow> (Verifier \<Rightarrow> Verifier) \<Rightarrow> bool" where
  "fair_others w cfg served others \<longleftrightarrow> (\<forall>x. verifier_reach w cfg served x \<longrightarrow> verifier_reach w cfg served (others x))"

lemma fetched_key_in: "fetched_key kid keys = Ok key \<Longrightarrow> key \<in> snd ` set keys"
proof -
  assume "fetched_key kid keys = Ok key"
  then have "map_of keys kid = Some key \<or> length keys = 1 \<and> key = snd (hd keys)"
    by (auto simp: fetched_key_def split: option.splits if_splits)
  then show ?thesis
  proof
    assume "map_of keys kid = Some key"
    then show ?thesis by (metis map_of_SomeD image_eqI snd_conv)
  next
    assume "length keys = 1 \<and> key = snd (hd keys)"
    then show ?thesis by (cases keys) auto
  qed
qed

lemma keyFor_cases:
  assumes "keyFor w fetch now later others kid v = (res, urls, v')"
  obtains (cached) key where "cached_key now kid v = Some key" "res = Ok key" "urls = []" "v' = v"
    | (refused) e where "kid_throttled now v" "res = Err (ErrInvalidToken e)" "urls = []" "v' = v"
    | (failed) e where "\<not> kid_throttled now v" "cached_key now kid v = None"
        "refresh_fetch w fetch (kid_decided now v) = (Inl e, urls)" "res = Err e"
        "v' = others (kid_decided now v)"
    | (fetched) uri keys where "\<not> kid_throttled now v" "cached_key now kid v = None"
        "refresh_fetch w fetch (kid_decided now v) = (Inr (uri, keys), urls)"
        "v' = (others (kid_decided now v)) \<lparr> vf_jwksURI := uri, vf_keys := Some keys, vf_fetchedAt := later \<rparr>"
        "res = fetched_key kid keys"
proof (cases "cached_key now kid v")
  case (Some key)
  then have "res = Ok key \<and> urls = [] \<and> v' = v" using assms by (simp add: keyFor_def)
  then show thesis using cached [OF Some] by blast
next
  case None
  show thesis
  proof (cases "kid_throttled now v")
    case True
    then have "res = Err (ErrInvalidToken ''unknown signing key'') \<and> urls = [] \<and> v' = v"
      using assms None by (simp add: keyFor_def)
    then show thesis using refused [OF True] by blast
  next
    case False
    obtain x us where f: "refresh_fetch w fetch (kid_decided now v) = (x, us)" by (cases "refresh_fetch w fetch (kid_decided now v)")
    show thesis
    proof (cases x)
      case (Inl e)
      then have "res = Err e \<and> urls = us \<and> v' = others (kid_decided now v)"
        using assms None False f by (simp add: keyFor_def oidc_refresh_def)
      then show thesis using failed [OF False None, of e] f Inl by blast
    next
      case (Inr uk)
      obtain uri keys where uk: "uk = (uri, keys)" by (cases uk)
      then have "res = fetched_key kid keys \<and> urls = us \<and>
          v' = (others (kid_decided now v)) \<lparr> vf_jwksURI := uri, vf_keys := Some keys, vf_fetchedAt := later \<rparr>"
        using assms None False f Inr by (simp add: keyFor_def oidc_refresh_def)
      then show thesis using fetched [OF False None, of uri keys] f Inr uk by blast
    qed
  qed
qed

lemma keyFor_reach:
  assumes r: "verifier_reach w cfg served v" and a: "answers served fetch" and o: "fair_others w cfg served others"
    and k: "keyFor w fetch now later others kid v = (res, urls, v')"
  shows "verifier_reach w cfg served v' \<and>
    (\<forall>u \<in> set urls. u = discovery_url (oc_Issuer cfg) \<or> at_issuer w cfg u) \<and>
    (\<forall>key. res = Ok key \<longrightarrow> (\<exists>keys. issuer_key_set w cfg served keys \<and> key \<in> snd ` set keys))"
proof -
  have r1: "verifier_reach w cfg served (kid_decided now v)"
    using r verifier_reach.decided by (simp add: kid_decided_def)
  have r2: "verifier_reach w cfg served (others (kid_decided now v))" using r1 o by (simp add: fair_others_def)
  from k show ?thesis
  proof (cases rule: keyFor_cases)
    case (cached key)
    then obtain keys where keys: "vf_keys v = Some keys" "map_of keys kid = Some key"
      by (auto simp: cached_key_def split: if_splits option.splits)
    then have "issuer_key_set w cfg served keys" using verifier_reach_inv [OF r] by (simp add: verifier_inv_def)
    moreover have "key \<in> snd ` set keys" using keys(2) by (metis map_of_SomeD image_eqI snd_conv)
    ultimately show ?thesis using cached r by auto
  next
    case refused
    then show ?thesis using r by simp
  next
    case failed
    then show ?thesis using r2 refresh_fetch_urls [OF verifier_reach_inv [OF r1]] by auto
  next
    case (fetched uri keys)
    have "issuer_key_set w cfg served keys"
      using refresh_fetch_keys [OF verifier_reach_inv [OF r1] a fetched(3)] by blast
    moreover have "verifier_reach w cfg served v'"
      unfolding fetched(4) by (rule verifier_reach.stored [OF r2 r1 a fetched(3)])
    ultimately show ?thesis
      using refresh_fetch_urls [OF verifier_reach_inv [OF r1] fetched(3)] fetched(5) fetched_key_in by metis
  qed
qed

lemma Verify_key:
  assumes "Verify w fetch now later others raw v = (r, urls, v')"
  shows "urls = [] \<and> v' = v \<or> (\<exists>kid res. keyFor w fetch now later others kid v = (res, urls, v'))"
  using assms unfolding Verify_def
  by (auto split: list.splits option.splits if_splits prod.splits sum.splits)

lemma Verify_ok:
  assumes "Verify w fetch now later others raw v = (Ok c, urls, v')"
  shows "\<exists>p0 p1 p2 hb alg kid signature key payload.
    Split (TrimSpace raw) (CHR ''.'') = [p0, p1, p2] \<and> b64_decode p0 = Some hb \<and> wi_header w hb = Some (alg, kid) \<and>
    b64_decode p2 = Some signature \<and> keyFor w fetch now later others kid v = (Ok key, urls, v') \<and>
    verifySignature (wi_crypto w) alg key (p0 @ ''.'' @ p1) signature = None \<and>
    b64_decode p1 = Some payload \<and> decodeClaims w payload = Some c \<and> checkClaims (vf_config v) later c = None"
  using assms unfolding Verify_def
  by (auto split: list.splits option.splits if_splits prod.splits sum.splits)

lemma checkClaims_ok:
  "checkClaims cfg now c = None \<longleftrightarrow> cl_Subject c \<noteq> [] \<and> cl_Issuer c = oc_Issuer cfg \<and>
     (oc_Audience cfg = [] \<or> oc_Audience cfg \<in> set (cl_Audience c)) \<and> cl_ExpiresAt c \<noteq> 0 \<and>
     now \<le> time_Unix (cl_ExpiresAt c) + oc_ClockSkew cfg \<and>
     (cl_NotBefore c = 0 \<or> time_Unix (cl_NotBefore c) - oc_ClockSkew cfg \<le> now)"
  by (auto simp: checkClaims_def audience_contains_def)

definition fits :: "string \<Rightarrow> PublicKey \<Rightarrow> bool" where
  "fits alg key = (case key of
     RSAKey _ _ \<Rightarrow> alg \<in> set [''RS256'', ''RS384'', ''RS512'', ''PS256'', ''PS384'', ''PS512'']
   | ECKey _ _ \<Rightarrow> alg \<in> set [''ES256'', ''ES384'', ''ES512''])"

lemma verifySignature_fits: "verifySignature cr alg key signed signature = None \<Longrightarrow> fits alg key"
  by (auto simp: verifySignature_def fits_def Let_def split: prod.splits PublicKey.splits if_splits)

text \<open>
  C3.  An accepted token is genuine.  Whatever requests the verifier has served and in whatever
  interleaving, the claims it hands on come from a token of three parts whose signature verifies, under one of
  the nine asymmetric algorithms and with a key of the family that algorithm needs, by a key out of a key set
  served for a URL of the issuer's own origin (by whom that origin redirects to, if it does); they name the configured issuer and audience and a
  subject, and the token is neither expired nor early by more than the skew.
\<close>

theorem accepted_token_genuine:
  assumes "verifier_reach w cfg served v" "answers served fetch" "fair_others w cfg served others"
    and "Verify w fetch now later others raw v = (Ok c, urls, v')"
  shows "\<exists>p0 p1 p2 hb alg kid signature keys key payload.
    Split (TrimSpace raw) (CHR ''.'') = [p0, p1, p2] \<and> b64_decode p0 = Some hb \<and> wi_header w hb = Some (alg, kid) \<and>
    b64_decode p2 = Some signature \<and> issuer_key_set w cfg served keys \<and> key \<in> snd ` set keys \<and> fits alg key \<and>
    verifySignature (wi_crypto w) alg key (p0 @ ''.'' @ p1) signature = None \<and>
    b64_decode p1 = Some payload \<and> decodeClaims w payload = Some c \<and>
    cl_Issuer c = oc_Issuer cfg \<and> cl_Subject c \<noteq> [] \<and> (oc_Audience cfg = [] \<or> oc_Audience cfg \<in> set (cl_Audience c)) \<and>
    cl_ExpiresAt c \<noteq> 0 \<and> later \<le> time_Unix (cl_ExpiresAt c) + oc_ClockSkew (withDefaults_oidc cfg) \<and>
    (cl_NotBefore c = 0 \<or> time_Unix (cl_NotBefore c) - oc_ClockSkew (withDefaults_oidc cfg) \<le> later)"
proof -
  obtain p0 p1 p2 hb alg kid signature key payload where o:
    "Split (TrimSpace raw) (CHR ''.'') = [p0, p1, p2]" "b64_decode p0 = Some hb" "wi_header w hb = Some (alg, kid)"
    "b64_decode p2 = Some signature" "keyFor w fetch now later others kid v = (Ok key, urls, v')"
    "verifySignature (wi_crypto w) alg key (p0 @ ''.'' @ p1) signature = None"
    "b64_decode p1 = Some payload" "decodeClaims w payload = Some c" "checkClaims (vf_config v) later c = None"
    using Verify_ok [OF assms(4)] by blast
  obtain keys where "issuer_key_set w cfg served keys" "key \<in> snd ` set keys"
    using keyFor_reach [OF assms(1-3) o(5)] by blast
  moreover have "vf_config v = withDefaults_oidc cfg" using verifier_reach_inv [OF assms(1)] by (simp add: verifier_inv_def)
  then have "cl_Issuer c = oc_Issuer cfg \<and> cl_Subject c \<noteq> [] \<and> (oc_Audience cfg = [] \<or> oc_Audience cfg \<in> set (cl_Audience c)) \<and>
    cl_ExpiresAt c \<noteq> 0 \<and> later \<le> time_Unix (cl_ExpiresAt c) + oc_ClockSkew (withDefaults_oidc cfg) \<and>
    (cl_NotBefore c = 0 \<or> time_Unix (cl_NotBefore c) - oc_ClockSkew (withDefaults_oidc cfg) \<le> later)"
    using o(9) by (simp add: checkClaims_ok)
  moreover have "fits alg key" using o(6) by (rule verifySignature_fits)
  ultimately show ?thesis using o(1-4,6-8) by blast
qed

text \<open>The URLs the issuer leads to: its own, its discovery endpoint, and where an answer of one of these redirects to.\<close>

inductive led_to :: "Wire \<Rightarrow> OidcConfig \<Rightarrow> (string \<Rightarrow> trip option) \<Rightarrow> string \<Rightarrow> bool" for w cfg rt where
  own: "at_issuer w cfg url \<Longrightarrow> led_to w cfg rt url"
| discovery: "led_to w cfg rt (discovery_url (oc_Issuer cfg))"
| redirected: "led_to w cfg rt url \<Longrightarrow> rt url = Some (Redirected (Some x)) \<Longrightarrow> led_to w cfg rt x"

lemma client_Do_led:
  assumes "led_to w cfg rt url"
  shows "\<forall>u \<in> set (snd (client_Do rt n url)). led_to w cfg rt u"
  using assms
proof (induction n arbitrary: url)
  case 0
  then show ?case by (subst client_Do.simps) (auto split: option.splits trip.splits)
next
  case (Suc n)
  show ?case
  proof (cases "\<exists>x. rt url = Some (Redirected (Some x))")
    case True
    then obtain x where x: "rt url = Some (Redirected (Some x))" by blast
    then have "led_to w cfg rt x" using Suc.prems led_to.redirected by blast
    from Suc.IH [OF this] Suc.prems show ?thesis by (subst client_Do.simps) (auto simp: x split: prod.splits)
  next
    case False
    then show ?thesis using Suc.prems by (subst client_Do.simps) (auto split: option.splits trip.splits)
  qed
qed

lemma client_Do_length: "length (snd (client_Do rt n url)) \<le> Suc n"
proof (induction n arbitrary: url)
  case 0
  show ?case by (subst client_Do.simps) (simp split: option.split trip.split)
next
  case (Suc n)
  show ?case
    using Suc.IH by (subst client_Do.simps) (simp split: option.split trip.split prod.split, metis snd_conv)
qed

lemma keyFor_asks: "keyFor w fetch now later others kid v = (res, urls, v') \<Longrightarrow> length urls \<le> 2"
  by (erule keyFor_cases) (auto simp: refresh_fetch_def Let_def split: sum.splits if_splits)

text \<open>
  C30.  The verifier talks to the issuer and to nobody the issuer does not send it to: whatever token is presented, and whatever the discovery document
  says, it asks for two URLs at most, each the issuer's discovery endpoint or a URL of the issuer's own scheme and host; it sends twenty requests
  at most, each to one of these or to where an answer of one of these, or of one they led to, redirects; and the state it leaves is again
  one of which all of this holds.
\<close>

theorem issuer_decides_who_is_asked:
  assumes "verifier_reach w cfg served v" "answers served (fetched_by rt)" "fair_others w cfg served others"
    and "Verify w (fetched_by rt) now later others raw v = (r, urls, v')"
  shows "length urls \<le> 2 \<and> (\<forall>u \<in> set urls. u = discovery_url (oc_Issuer cfg) \<or> at_issuer w cfg u) \<and>
    length (requests_sent rt urls) \<le> 20 \<and> (\<forall>u \<in> set (requests_sent rt urls). led_to w cfg rt u) \<and>
    verifier_reach w cfg served v'"
proof -
  have asked: "length urls \<le> 2 \<and> (\<forall>u \<in> set urls. u = discovery_url (oc_Issuer cfg) \<or> at_issuer w cfg u) \<and> verifier_reach w cfg served v'"
    using Verify_key [OF assms(4)]
  proof (elim disjE exE conjE)
    assume "urls = []" "v' = v"
    then show ?thesis using assms(1) by simp
  next
    fix kid res
    assume k: "keyFor w (fetched_by rt) now later others kid v = (res, urls, v')"
    from keyFor_reach [OF assms(1-3) k] keyFor_asks [OF k] show ?thesis by blast
  qed
  have "length (requests_sent rt us) \<le> 10 * length us" for us
  proof (induction us)
    case (Cons u us)
    then show ?case using client_Do_length [of rt max_redirects u] by (simp add: requests_sent_def max_redirects_def)
  qed (simp add: requests_sent_def)
  from this [of urls] have "length (requests_sent rt urls) \<le> 20" using asked by simp
  moreover have "led_to w cfg rt u" if "u \<in> set (requests_sent rt urls)" for u
    using that asked client_Do_led [of w cfg rt] led_to.own led_to.discovery by (fastforce simp: requests_sent_def)
  ultimately show ?thesis using asked by blast
qed

subsection \<open>How often the provider is asked\<close>

definition fresh_until :: "int \<Rightarrow> Verifier \<Rightarrow> bool" where
  "fresh_until t v \<longleftrightarrow> vf_keys v \<noteq> None \<and> t \<le> vf_fetchedAt v + oc_CacheTTL (vf_config v)"

fun verify_run :: "Wire \<Rightarrow> (fetch \<times> int \<times> int \<times> string) list \<Rightarrow> Verifier \<Rightarrow> string list list" where
  "verify_run w [] v = []"
| "verify_run w ((fetch, now, later, raw) # calls) v =
     (case Verify w fetch now later id raw v of (r, urls, v') \<Rightarrow> urls # verify_run w calls v')"

lemma Verify_fresh:
  assumes "Verify w fetch now later id raw v = (r, urls, v')"
    and "fresh_until (t + vf_refreshEvery v) v" "t \<le> now" "now < t + vf_refreshEvery v" "now \<le> later"
    and "vf_refreshEvery v \<le> oc_CacheTTL (vf_config v)"
  shows "vf_refreshEvery v' = vf_refreshEvery v \<and> vf_config v' = vf_config v \<and>
    fresh_until (t + vf_refreshEvery v) v' \<and>
    (urls = [] \<and> v' = v \<or> vf_lastKidRefresh v' = Some now) \<and>
    ((\<exists>s. vf_lastKidRefresh v = Some s \<and> t \<le> s) \<longrightarrow> urls = [] \<and> v' = v)"
proof (cases "urls = [] \<and> v' = v")
  case True
  then show ?thesis using assms(2) by simp
next
  case False
  then obtain kid res where k: "keyFor w fetch now later id kid v = (res, urls, v')" using Verify_key [OF assms(1)] by blast
  have f: "cache_fresh now v" using assms(2,4) by (auto simp: fresh_until_def cache_fresh_def)
  have d: "kid_decided now v = v \<lparr> vf_lastKidRefresh := Some now \<rparr>" using f by (simp add: kid_decided_def)
  have n: "\<not> kid_throttled now v" using k by (cases rule: keyFor_cases) (use False in auto)
  then have last: "\<not> (\<exists>s. vf_lastKidRefresh v = Some s \<and> t \<le> s)" using f assms(4) by (auto simp: kid_throttled_def)
  from k show ?thesis
  proof (cases rule: keyFor_cases)
    case (failed e)
    then show ?thesis using d last assms(2) by (auto simp: fresh_until_def)
  next
    case (fetched uri keys)
    then show ?thesis using d last assms(3,5,6) by (auto simp: fresh_until_def)
  qed (use False in auto)
qed

lemma verify_run_throttled:
  assumes "fresh_until (t + vf_refreshEvery v) v" "vf_refreshEvery v \<le> oc_CacheTTL (vf_config v)"
    and "\<forall>(f, now, later, raw) \<in> set calls. t \<le> now \<and> now < t + vf_refreshEvery v \<and> now \<le> later"
    and "vf_lastKidRefresh v = Some s" "t \<le> s"
  shows "filter (\<lambda>us. us \<noteq> []) (verify_run w calls v) = []"
  using assms
proof (induction calls)
  case (Cons call calls)
  obtain f now later raw where c: "call = (f, now, later, raw)" by (cases call)
  obtain r urls v' where ver: "Verify w f now later id raw v = (r, urls, v')" by (cases "Verify w f now later id raw v")
  have "urls = [] \<and> v' = v" using Verify_fresh [OF ver Cons.prems(1)] Cons.prems by (auto simp: c)
  then show ?case using Cons ver by (simp add: c)
qed simp

text \<open>
  A stream of tokens with invented key names cannot turn the platform on its own identity provider while the
  key set is fresh: of any number of calls within one refresh window, at most one sends anything.
\<close>

theorem unknown_kids_bounded:
  assumes "fresh_until (t + vf_refreshEvery v) v" "vf_refreshEvery v \<le> oc_CacheTTL (vf_config v)"
    and "\<forall>(f, now, later, raw) \<in> set calls. t \<le> now \<and> now < t + vf_refreshEvery v \<and> now \<le> later"
  shows "length (filter (\<lambda>us. us \<noteq> []) (verify_run w calls v)) \<le> 1"
  using assms
proof (induction calls)
  case (Cons call calls)
  obtain f now later raw where c: "call = (f, now, later, raw)" by (cases call)
  obtain r urls v' where ver: "Verify w f now later id raw v = (r, urls, v')" by (cases "Verify w f now later id raw v")
  have s: "vf_refreshEvery v' = vf_refreshEvery v \<and> vf_config v' = vf_config v \<and>
      fresh_until (t + vf_refreshEvery v) v' \<and> (urls = [] \<and> v' = v \<or> vf_lastKidRefresh v' = Some now)"
    using Verify_fresh [OF ver Cons.prems(1)] Cons.prems by (auto simp: c)
  show ?case
  proof (cases "urls = [] \<and> v' = v")
    case True
    then show ?thesis using Cons ver by (simp add: c)
  next
    case False
    then have "filter (\<lambda>us. us \<noteq> []) (verify_run w calls v') = []"
      using s Cons.prems by (intro verify_run_throttled [of t v' calls now]) (auto simp: c)
    then show ?thesis by (simp add: c ver)
  qed
qed simp

text \<open>The name of the key a token asks for.\<close>

definition token_kid :: "Wire \<Rightarrow> string \<Rightarrow> string option" where
  "token_kid w raw =
     (case Split (TrimSpace raw) (CHR ''.'') of
        p0 # _ \<Rightarrow> Option.bind (b64_decode p0) (\<lambda>hb. map_option snd (wi_header w hb))
      | [] \<Rightarrow> None)"

lemma Verify_key_error:
  assumes "Split (TrimSpace raw) (CHR ''.'') = [p0, p1, p2]" "b64_decode p0 = Some hb" "wi_header w hb = Some (alg, kid)"
    and "alg \<noteq> []" "alg \<noteq> ''none''" "b64_decode p2 = Some signature"
    and "keyFor w fetch now later others kid v = (Err e, urls, v')"
  shows "Verify w fetch now later others raw v = (Err e, urls, v')"
  using assms by (simp add: Verify_def)

text \<open>
  A defect: a valid token that names no key is refused while the cache is fresh.  The rule that a key set of one key
  serves it is applied to a set just fetched only, so when the provider names its one key, a token that has been
  accepted after such a fetch is refused as invalid, without a request, for the rest of the refresh window.
\<close>

theorem kidless_token_refused:
  assumes "Verify w fetch now later id raw v = (Ok c, urls, v')" "cache_fresh now v" "urls \<noteq> []"
    and "token_kid w raw = Some []" "vf_keys v' = Some keys" "map_of keys [] = None"
    and "now2 - now < vf_refreshEvery v" "now2 - later < oc_CacheTTL (vf_config v)"
  shows "Verify w fetch2 now2 later2 others raw v' = (Err (ErrInvalidToken ''unknown signing key''), [], v')"
proof -
  obtain p0 p1 p2 hb alg kid signature key payload where o:
    "Split (TrimSpace raw) (CHR ''.'') = [p0, p1, p2]" "b64_decode p0 = Some hb" "wi_header w hb = Some (alg, kid)"
    "b64_decode p2 = Some signature" "keyFor w fetch now later id kid v = (Ok key, urls, v')"
    "verifySignature (wi_crypto w) alg key (p0 @ ''.'' @ p1) signature = None"
    using Verify_ok [OF assms(1)] by blast
  have kid: "kid = []" using assms(4) o(1-3) by (simp add: token_kid_def)
  have alg: "alg \<noteq> []" "alg \<noteq> ''none''" using verifySignature_fits [OF o(6)] by (auto simp: fits_def split: PublicKey.splits)
  have f: "vf_lastKidRefresh v' = Some now \<and> vf_fetchedAt v' = later \<and> vf_config v' = vf_config v \<and>
      vf_refreshEvery v' = vf_refreshEvery v"
    using o(5)
  proof (cases rule: keyFor_cases)
    case (fetched uri keys)
    then show ?thesis using assms(2) by (simp add: kid_decided_def)
  qed (use assms(3) in auto)
  have fresh: "cache_fresh now2 v'" using f assms(5,8) by (simp add: cache_fresh_def)
  then have "cached_key now2 [] v' = None" "kid_throttled now2 v'"
    using assms(5,6,7) f by (simp_all add: cached_key_def kid_throttled_def)
  then have "keyFor w fetch2 now2 later2 others kid v' = (Err (ErrInvalidToken ''unknown signing key''), [], v')"
    by (simp add: keyFor_def kid)
  then show ?thesis by (rule Verify_key_error [OF o(1-3) alg o(4)])
qed

subsection \<open>The properties at concrete inputs\<close>

text \<open>
  A provider that publishes one named P-256 key, and a token that names none.  The answers repeat
  the URL they were asked for, so that the decoders can tell them apart; the key set is answered by a redirect to another host.
\<close>

definition sample_jwk :: jwk where
  "sample_jwk = \<lparr> jk_Kty = ''EC'', jk_Kid = ''k1'', jk_Use = ''sig'', jk_Alg = [], jk_N = [], jk_E = [],
     jk_Crv = ''P-256'', jk_X = b64_encode (replicate 32 (CHR ''x'')), jk_Y = b64_encode (replicate 32 (CHR ''y'')) \<rparr>"

definition sample_claims :: Claims where
  "sample_claims = \<lparr> cl_Subject = ''u'', cl_Issuer = ''https://id/o'', cl_Email = [], cl_Name = [],
     cl_PreferredUsername = [], cl_Groups = [], cl_Audience = [], cl_ExpiresAt = 1000, cl_NotBefore = 0, cl_IssuedAt = 0 \<rparr>"

definition sample_wire :: Wire where
  "sample_wire = \<lparr> wi_header = (\<lambda>hb. if hb = ''h'' then Some (''ES256'', []) else None),
     wi_claims = (\<lambda>p. if p = ''p'' then Some (Some (AudString ''hub''), sample_claims) else None),
     wi_jwks = (\<lambda>body. if body = ''https://id/keys'' then Some [sample_jwk] else None),
     wi_discovery = (\<lambda>body. if body = ''https://id/o/.well-known/openid-configuration''
                            then Some (''https://id/o/'', ''https://id/keys'') else None),
     wi_parse = (\<lambda>raw. if HasPrefix raw ''https://id/'' then Some (''https'', ''id'') else None),
     wi_crypto = \<lparr> cr_Sum = (\<lambda>_ m. m), cr_PKCS1v15 = (\<lambda>_ _ _ _. False), cr_PSS = (\<lambda>_ _ _ _. False),
                   cr_ECDSA = (\<lambda>_ digest _ _. digest = b64_encode ''h'' @ ''.'' @ b64_encode ''p''), cr_OnCurve = (\<lambda>_ _. True) \<rparr> \<rparr>"

definition sample_oidc :: OidcConfig where
  "sample_oidc = \<lparr> oc_Issuer = ''https://id/o'', oc_Audience = ''hub'', oc_ClockSkew = 0, oc_CacheTTL = 0, oc_Timeout = 0 \<rparr>"

definition elsewhere :: string where "elsewhere = ''http://169.254.169.254/keys''"

definition sample_trip :: "string \<Rightarrow> trip option" where
  "sample_trip url =
     Some (if url = ''https://id/keys'' then Redirected (Some elsewhere)
           else if url = elsewhere then Answered 200 ''https://id/keys'' else Answered 200 url)"

definition sample_fetch :: fetch where "sample_fetch = fetched_by sample_trip"

lemma sample_fetch_url: "sample_fetch url = Some (200, if url = elsewhere then ''https://id/keys'' else url)"
  by (auto simp: sample_fetch_def fetched_by_def max_redirects_def client_Do.simps sample_trip_def elsewhere_def)

definition sample_token :: string where
  "sample_token = b64_encode ''h'' @ ''.'' @ b64_encode ''p'' @ ''.'' @ b64_encode (replicate 64 (CHR ''s''))"

definition sample_key :: PublicKey where
  "sample_key = ECKey P256 (CHR 0x04 # replicate 32 (CHR ''x'') @ replicate 32 (CHR ''y''))"

definition sample_verify :: "int \<Rightarrow> Verifier \<Rightarrow> (OidcError + Claims) \<times> string list \<times> Verifier" where
  "sample_verify s = Verify sample_wire sample_fetch (s * second) (s * second) id sample_token"

definition verifier_0 :: Verifier where
  "verifier_0 = \<lparr> vf_config = withDefaults_oidc sample_oidc, vf_jwksURI = [], vf_keys = None, vf_fetchedAt = 0,
     vf_lastKidRefresh = None, vf_refreshEvery = 30 * second \<rparr>"

definition verifier_1 :: Verifier where
  "verifier_1 = verifier_0 \<lparr> vf_jwksURI := ''https://id/keys'', vf_keys := Some [(''k1'', sample_key)],
     vf_fetchedAt := 1 * second \<rparr>"

definition verifier_2 :: Verifier where
  "verifier_2 = verifier_1 \<lparr> vf_lastKidRefresh := Some (2 * second), vf_fetchedAt := 2 * second \<rparr>"

definition sample_served :: "(string \<times> string) set" where
  "sample_served = {x. \<exists>u. x = (u, limited (if u = elsewhere then ''https://id/keys'' else u))}"

lemma sample_answers: "answers sample_served sample_fetch"
  by (auto simp: answers_def sample_fetch_url sample_served_def)

lemma sample_others: "fair_others w cfg served id"
  by (simp add: fair_others_def)

lemma verifier_0_reach: "verifier_reach sample_wire sample_oidc sample_served verifier_0"
proof -
  have "TrimSpace ''https://id/o'' \<noteq> []" by (simp add: TrimSpace_def is_space_def)
  then have "oidc_New sample_oidc = Ok verifier_0"
    by (simp add: verifier_0_def oidc_New_def Let_def sample_oidc_def)
  then show ?thesis by (rule verifier_reach.init)
qed

lemma Split_last: "sep \<notin> set a \<Longrightarrow> Split a sep = [a]"
  by (induction a) auto

lemma Split_first: "sep \<notin> set a \<Longrightarrow> Split (a @ sep # b) sep = a # Split b sep"
  by (induction a) auto

lemma b64_no_dot: "CHR ''.'' \<notin> set (b64_encode x)"
proof -
  have "CHR ''.'' \<notin> set b64_alphabet" by code_simp
  then show ?thesis using b64_encode_alphabet by blast
qed

lemma sample_split: "Split (TrimSpace sample_token) (CHR ''.'') =
    [b64_encode ''h'', b64_encode ''p'', b64_encode (replicate 64 (CHR ''s''))]"
proof -
  have "\<not> is_space c" if "c \<in> set sample_token" for c
    using that b64_encode_alphabet no_space_in_alphabet by (auto simp: sample_token_def is_space_def)
  then have "TrimSpace sample_token = sample_token" by (rule TrimSpace_no_space)
  then show ?thesis by (simp add: sample_token_def Split_first Split_last b64_no_dot)
qed

lemma sample_keys: "parseJWKS sample_wire ''https://id/keys'' = Inr [(''k1'', sample_key)]"
proof -
  have "publicKey (wi_crypto sample_wire) sample_jwk = Some sample_key"
    by (simp add: publicKey_def sample_jwk_def curve_of_def curve_size_def sample_wire_def sample_key_def)
  then show ?thesis by (simp add: parseJWKS_def sample_wire_def sample_jwk_def Let_def)
qed

lemma sample_get:
  "oidc_get sample_fetch ''https://id/keys'' = Inr (limited ''https://id/keys'')"
  "oidc_get sample_fetch ''https://id/o/.well-known/openid-configuration'' = Inr (limited ''https://id/o/.well-known/openid-configuration'')"
  by (simp_all add: oidc_get_def sample_fetch_url elsewhere_def)

lemma sample_discover: "discover sample_wire sample_fetch (withDefaults_oidc sample_oidc) = Ok ''https://id/keys''"
  by (simp add: discover_def sample_get discovery_url_def sample_oidc_def TrimRightSlash_def limited_def
      sample_wire_def originOf_def HasPrefix_def)

lemma sample_refresh_0:
  "refresh_fetch sample_wire sample_fetch verifier_0 =
     (Ok (''https://id/keys'', [(''k1'', sample_key)]), [discovery_url ''https://id/o'', ''https://id/keys''])"
  using sample_keys
  by (simp add: refresh_fetch_def verifier_0_def sample_discover sample_get limited_def Let_def)
    (simp add: sample_oidc_def)

lemma sample_refresh_1:
  "vf_jwksURI v = ''https://id/keys'' \<Longrightarrow> refresh_fetch sample_wire sample_fetch v =
     (Ok (''https://id/keys'', [(''k1'', sample_key)]), [''https://id/keys''])"
  using sample_keys by (simp add: refresh_fetch_def sample_get limited_def Let_def)

text \<open>Once the key is found, the sample token is accepted.\<close>

lemma sample_accepts:
  assumes "keyFor sample_wire sample_fetch (s * second) (s * second) id [] v = (Ok sample_key, urls, v')"
    and "vf_config v = withDefaults_oidc sample_oidc" "s \<le> 1000"
  shows "sample_verify s v = (Ok (sample_claims \<lparr> cl_Audience := [''hub''] \<rparr>), urls, v')"
proof -
  let ?c = "sample_claims \<lparr> cl_Audience := [''hub''] \<rparr>"
  have h: "wi_header sample_wire ''h'' = Some (''ES256'', [])" by (simp add: sample_wire_def)
  have c: "decodeClaims sample_wire ''p'' = Some ?c"
    by (simp add: decodeClaims_def sample_wire_def audience_UnmarshalJSON_def)
  have sig: "verifySignature (wi_crypto sample_wire) ''ES256'' sample_key (b64_encode ''h'' @ ''.'' @ b64_encode ''p'')
      (replicate 64 (CHR ''s'')) = None"
    by (simp add: verifySignature_def digestFor_def sample_key_def curve_size_def sample_wire_def Let_def)
  have ok: "checkClaims (vf_config v) (s * second) ?c = None"
    using assms(3) by (simp add: assms(2) checkClaims_ok sample_claims_def sample_oidc_def time_Unix_def wrap64_def
        withDefaults_oidc_def second_def)
  show ?thesis using h c sig ok assms(1) by (simp add: sample_verify_def Verify_def sample_split)
qed

lemma sample_first: "sample_verify 1 verifier_0 =
    (Ok (sample_claims \<lparr> cl_Audience := [''hub''] \<rparr>), [discovery_url ''https://id/o'', ''https://id/keys''], verifier_1)"
proof (rule sample_accepts)
  show "keyFor sample_wire sample_fetch (1 * second) (1 * second) id [] verifier_0 =
      (Ok sample_key, [discovery_url ''https://id/o'', ''https://id/keys''], verifier_1)"
    using sample_refresh_0
    by (simp add: keyFor_def oidc_refresh_def fetched_key_def cached_key_def kid_throttled_def kid_decided_def
        cache_fresh_def verifier_1_def) (simp add: verifier_0_def cache_fresh_def)
qed (simp_all add: verifier_0_def)

lemma sample_oidc_times: "vf_refreshEvery verifier_1 = 30 * second" "oc_CacheTTL (vf_config verifier_1) = 900 * second"
  by (simp_all add: verifier_1_def verifier_0_def withDefaults_oidc_def sample_oidc_def)

lemma sample_oidc_config: "vf_config verifier_1 = withDefaults_oidc sample_oidc"
  by (simp add: verifier_1_def verifier_0_def)

lemma sample_fresh_1: "cache_fresh (2 * second) verifier_1"
  by (simp add: cache_fresh_def sample_oidc_times) (simp add: verifier_1_def second_def)

lemma sample_second: "sample_verify 2 verifier_1 =
    (Ok (sample_claims \<lparr> cl_Audience := [''hub''] \<rparr>), [''https://id/keys''], verifier_2)"
proof (rule sample_accepts)
  have c: "cached_key (2 * second) [] verifier_1 = None" by (simp add: cached_key_def verifier_1_def)
  have n: "\<not> kid_throttled (2 * second) verifier_1" by (simp add: kid_throttled_def verifier_1_def verifier_0_def)
  have d: "kid_decided (2 * second) verifier_1 = verifier_1 \<lparr> vf_lastKidRefresh := Some (2 * second) \<rparr>"
    by (simp add: kid_decided_def sample_fresh_1)
  have "refresh_fetch sample_wire sample_fetch (verifier_1 \<lparr> vf_lastKidRefresh := Some (2 * second) \<rparr>) =
      (Ok (''https://id/keys'', [(''k1'', sample_key)]), [''https://id/keys''])"
    by (rule sample_refresh_1) (simp add: verifier_1_def)
  then show "keyFor sample_wire sample_fetch (2 * second) (2 * second) id [] verifier_1 =
      (Ok sample_key, [''https://id/keys''], verifier_2)"
    using c n d by (simp add: keyFor_def oidc_refresh_def fetched_key_def verifier_2_def verifier_1_def)
qed (simp_all add: sample_oidc_config)

theorem accepted_token_genuine_witness:
  "\<exists>keys key. issuer_key_set sample_wire sample_oidc sample_served keys \<and> key \<in> snd ` set keys \<and>
     fits ''ES256'' key \<and> fst (sample_verify 1 verifier_0) = Ok (sample_claims \<lparr> cl_Audience := [''hub''] \<rparr>)"
proof -
  have alg: "alg = ''ES256''" if "wi_header sample_wire ''h'' = Some (alg, kid)" for alg kid
    using that by (simp add: sample_wire_def)
  from accepted_token_genuine [OF verifier_0_reach sample_answers sample_others sample_first [unfolded sample_verify_def]]
  show ?thesis using alg unfolding sample_split by (auto simp: sample_first)
qed

theorem issuer_decides_who_is_asked_witness:
  "verifier_reach sample_wire sample_oidc sample_served verifier_1 \<and> at_issuer sample_wire sample_oidc ''https://id/keys'' \<and>
   led_to sample_wire sample_oidc sample_trip elsewhere \<and> \<not> at_issuer sample_wire sample_oidc elsewhere"
proof -
  have v: "Verify sample_wire (fetched_by sample_trip) (1 * second) (1 * second) id sample_token verifier_0 =
      (fst (sample_verify 1 verifier_0), snd (sample_verify 1 verifier_0))"
    by (simp add: sample_verify_def sample_fetch_def)
  have a: "answers sample_served (fetched_by sample_trip)" using sample_answers by (simp add: sample_fetch_def)
  obtain r urls v' where run: "sample_verify 1 verifier_0 = (r, urls, v')" by (cases "sample_verify 1 verifier_0")
  have u: "''https://id/keys'' \<in> set urls" "v' = verifier_1" using run sample_first by auto
  note t = issuer_decides_who_is_asked [OF verifier_0_reach a sample_others, of "1 * second" "1 * second" sample_token r urls v']
  have ok: "Verify sample_wire (fetched_by sample_trip) (1 * second) (1 * second) id sample_token verifier_0 = (r, urls, v')"
    using v run by simp
  have "elsewhere \<in> set (snd (client_Do sample_trip max_redirects ''https://id/keys''))"
    by (simp add: max_redirects_def client_Do.simps sample_trip_def elsewhere_def)
  then have "elsewhere \<in> set (requests_sent sample_trip urls)" using u(1) by (auto simp: requests_sent_def)
  moreover have "''https://id/keys'' \<noteq> discovery_url (oc_Issuer sample_oidc)" "\<not> at_issuer sample_wire sample_oidc elsewhere" by code_simp+
  ultimately show ?thesis using t [OF ok] u by blast
qed

text \<open>Three calls a second apart with the same token: the first fetches, the others would if they could.\<close>

theorem unknown_kids_bounded_witness:
  "length (filter (\<lambda>us. us \<noteq> []) (verify_run sample_wire
     (map (\<lambda>s. (sample_fetch, s * second, s * second, sample_token)) [2, 3, 4]) verifier_1)) = 1"
proof -
  let ?calls = "map (\<lambda>s. (sample_fetch, s * second, s * second, sample_token)) [2, 3, 4]"
  have f: "fresh_until (2 * second + vf_refreshEvery verifier_1) verifier_1"
    by (simp add: fresh_until_def sample_oidc_times) (simp add: verifier_1_def second_def)
  have t: "vf_refreshEvery verifier_1 \<le> oc_CacheTTL (vf_config verifier_1)" by (simp add: sample_oidc_times second_def)
  have c: "\<forall>(f, now, later, raw) \<in> set ?calls. 2 * second \<le> now \<and> now < 2 * second + vf_refreshEvery verifier_1 \<and> now \<le> later"
    by (simp add: sample_oidc_times second_def)
  obtain rest where r: "verify_run sample_wire ?calls verifier_1 = [''https://id/keys''] # rest"
    using sample_second by (simp add: sample_verify_def)
  have "length (filter (\<lambda>us. us \<noteq> []) (verify_run sample_wire ?calls verifier_1)) \<le> 1"
    by (rule unknown_kids_bounded [OF f t c])
  then show ?thesis unfolding r by simp
qed

theorem kidless_token_refused_witness:
  "fst (sample_verify 1 verifier_0) = Ok (sample_claims \<lparr> cl_Audience := [''hub''] \<rparr>) \<and>
   fst (sample_verify 2 verifier_1) = Ok (sample_claims \<lparr> cl_Audience := [''hub''] \<rparr>) \<and>
   sample_verify 3 verifier_2 = (Err (ErrInvalidToken ''unknown signing key''), [], verifier_2)"
proof -
  have keys: "vf_keys verifier_2 = Some [(''k1'', sample_key)]" by (simp add: verifier_2_def verifier_1_def)
  have t: "token_kid sample_wire sample_token = Some []"
    unfolding token_kid_def sample_split by (simp add: sample_wire_def)
  have w: "3 * second - 2 * second < vf_refreshEvery verifier_1" by (simp add: sample_oidc_times second_def)
  have l: "3 * second - 2 * second < oc_CacheTTL (vf_config verifier_1)" by (simp add: sample_oidc_times second_def)
  from kidless_token_refused [OF sample_second [unfolded sample_verify_def] sample_fresh_1 _ t keys _ w l,
      of sample_fetch "3 * second" id]
  show ?thesis using sample_first sample_second by (simp add: sample_verify_def)
qed

end
