(* ===== verification/Float64.thy ===== *)
theory Float64
  imports Complex_Main "HOL-Library.Log_Nat"
begin

section \<open>float64 arithmetic\<close>

text \<open>
  Go evaluates an operation on float64 values exactly and rounds the result to 53 significant bits,
  to the nearest and, between two, to the one with the even last bit (IEEE 754).  A float64 is the
  rational it denotes, and f64 is the rounding, so f64 (x + y) is the sum Go computes.  The exponent
  is unbounded here: no operation of the modelled code leaves the normal range of a float64.
\<close>

definition exponent2 :: "rat \<Rightarrow> int" where
  "exponent2 x =
     (case quotient_of x of (p, q) \<Rightarrow>
        let e = bitlen p - bitlen q in if 2 powi e \<le> x then e else e - 1)"

definition nearest :: "rat \<Rightarrow> int" where
  "nearest y =
     (let n = \<lfloor>y\<rfloor>; r = y - of_int n in if r < 1/2 \<or> r = 1/2 \<and> even n then n else n + 1)"

definition f64 :: "rat \<Rightarrow> rat" where
  "f64 x = (if x = 0 then 0 else let u = 2 powi (exponent2 \<bar>x\<bar> - 52) in of_int (nearest (x / u)) * u)"

lemma exponent2_le:
  assumes "0 < x"
  shows "2 powi exponent2 x \<le> x"
proof -
  obtain p q where pq: "quotient_of x = (p, q)" by (cases "quotient_of x")
  then have q: "0 < q" and x: "x = of_int p / of_int q"
    using quotient_of_denom_pos quotient_of_div by blast+
  then have p: "0 < p" using assms by (simp add: zero_less_divide_iff)
  let ?P = "2 ^ nat (bitlen p - 1) :: int" and ?Q = "2 ^ nat (bitlen q) :: int"
  have "bitlen p \<noteq> 0" "bitlen q \<noteq> 0" using p q by (auto simp: bitlen_eq_zero_iff)
  then have b: "1 \<le> bitlen p" "1 \<le> bitlen q" using bitlen_nonneg [of p] bitlen_nonneg [of q] by linarith+
  have "?P \<le> p" "q \<le> ?Q" using bitlen_bounds [OF p] bitlen_bounds [OF q] by auto
  then have le: "of_int ?P \<le> (of_int p :: rat)" "of_int q \<le> (of_int ?Q :: rat)"
    by (simp_all only: of_int_le_iff)
  have "(of_int ?P / of_int ?Q :: rat) \<le> of_int p / of_int q"
    using le q p by (intro frac_le) auto
  moreover have "(of_int ?P / of_int ?Q :: rat) = 2 powi (bitlen p - bitlen q - 1)"
  proof -
    have "(2 :: rat) powi (int (nat (bitlen p - 1)) - int (nat (bitlen q))) =
        2 powi int (nat (bitlen p - 1)) / 2 powi int (nat (bitlen q))"
      by (rule power_int_diff) simp
    moreover have "int (nat (bitlen p - 1)) - int (nat (bitlen q)) = bitlen p - bitlen q - 1" using b by simp
    ultimately show ?thesis by (simp only: power_int_of_nat) simp
  qed
  ultimately have "2 powi (bitlen p - bitlen q - 1) \<le> x" by (simp add: x)
  then show ?thesis by (simp add: exponent2_def pq Let_def)
qed

lemma nearest_error: "\<bar>of_int (nearest y) - y\<bar> \<le> 1/2"
  unfolding nearest_def Let_def by (auto simp: abs_if split: if_splits) linarith+

lemma nearest_of_int [simp]: "nearest (of_int n) = n"
  by (simp add: nearest_def)

lemma f64_error: "\<bar>f64 x - x\<bar> \<le> \<bar>x\<bar> / 2 ^ 53"
proof (cases "x = 0")
  case False
  let ?e = "exponent2 \<bar>x\<bar>"
  define u where "u = (2 :: rat) powi (?e - 52)"
  have u: "0 < u" by (simp add: u_def)
  have "f64 x - x = (of_int (nearest (x / u)) - x / u) * u"
    using False u by (simp add: f64_def u_def [symmetric] algebra_simps)
  then have "\<bar>f64 x - x\<bar> = \<bar>of_int (nearest (x / u)) - x / u\<bar> * u" using u by (simp add: abs_mult)
  also have "\<dots> \<le> 1/2 * u" using u by (intro mult_right_mono nearest_error) simp
  also have "1/2 * u = 2 powi ?e / 2 ^ 53" by (simp add: u_def power_int_diff)
  also have "\<dots> \<le> \<bar>x\<bar> / 2 ^ 53" using exponent2_le [of "\<bar>x\<bar>"] False by (simp add: divide_right_mono)
  finally show ?thesis .
qed (simp add: f64_def)

lemma f64_0 [simp]: "f64 0 = 0"
  by (simp add: f64_def)

lemma f64_up: "0 \<le> x \<Longrightarrow> f64 x \<le> x * (1 + 1 / 2 ^ 53)"
  using f64_error [of x] by (simp add: abs_if algebra_simps split: if_splits)

lemma f64_down: "0 \<le> x \<Longrightarrow> x * (1 - 1 / 2 ^ 53) \<le> f64 x"
  using f64_error [of x] by (simp add: abs_if algebra_simps split: if_splits)

lemma f64_nonneg: "0 \<le> x \<Longrightarrow> 0 \<le> f64 x"
  using f64_down [of x] by (rule order_trans [rotated]) simp_all

lemma f64_pos: "0 < x \<Longrightarrow> 0 < f64 x"
  using f64_down [of x] by (simp add: field_simps)

text \<open>Integers of up to 53 bits are float64 values.\<close>

lemma f64_of_int:
  assumes "\<bar>n\<bar> < 2 ^ 53"
  shows "f64 (of_int n) = of_int n"
proof (cases "n = 0")
  case False
  let ?x = "\<bar>of_int n :: rat\<bar>"
  let ?e = "exponent2 ?x"
  have "2 powi ?e \<le> ?x" using False by (intro exponent2_le) simp
  moreover have "?x < 2 ^ 53" using assms by (metis of_int_abs of_int_less_iff of_int_numeral of_int_power)
  ultimately have "(2 :: rat) powi ?e < 2 powi 53" by simp
  then have e: "?e \<le> 52" using power_int_increasing [of 53 ?e "2 :: rat"] by fastforce
  define k where "k = nat (52 - ?e)"
  have u: "(2 :: rat) powi (?e - 52) = 1 / 2 ^ k"
    using e by (simp add: k_def power_int_def field_simps)
  have "(of_int n :: rat) / (1 / 2 ^ k) = of_int (n * 2 ^ k)" by simp
  then have "nearest (of_int n / (1 / 2 ^ k)) = n * 2 ^ k" by (simp only: nearest_of_int)
  then show ?thesis using False by (simp add: f64_def u)
qed simp

lemma f64_of_nat: "n < 2 ^ 53 \<Longrightarrow> f64 (of_nat n) = of_nat n"
  using f64_of_int [of "int n"] by simp

end
