(* ===== verification/RateLimit.thy ===== *)
theory RateLimit
  imports Prelude Float64 "HOL-Library.AList"
begin

section \<open>The token bucket limiter (internal/ratelimit/limiter.go)\<close>

text \<open>
  One limiter: a bucket of tokens per authenticated principal.  Token counts are float64 values, every
  operation on them rounded where Go rounds it (f64); instants are integers of nanoseconds.
  Allow reads the clock before it takes the mutex, so a call is modelled by its reading and calls run
  in the order in which they get the mutex: a reading may be older than one stored before
  it.  The map of buckets is an association list whose order stands for the order in which
  Go ranges over the map, so a statement about every list holds for every order.
\<close>

record bucket =
  bk_tokens :: rat
  bk_seen :: int

record Limiter =
  lm_rate :: rat
  lm_burst :: rat
  lm_idle :: int
  lm_maxKeys :: nat
  lm_buckets :: "(string \<times> bucket) list"

definition ns_per_second :: int where "ns_per_second = 1000000000"

definition limiter_New :: "int \<Rightarrow> int \<Rightarrow> Limiter" where
  "limiter_New perMinute burst =
     \<lparr> lm_rate = f64 (f64 (of_int perMinute) / 60), lm_burst = f64 (of_int burst), lm_idle = 600 * ns_per_second,
       lm_maxKeys = 10000, lm_buckets = [] \<rparr>"

definition Enabled :: "Limiter \<Rightarrow> bool" where
  "Enabled l \<longleftrightarrow> 0 < lm_rate l \<and> 0 < lm_burst l"

definition seconds_of :: "int \<Rightarrow> rat" where
  "seconds_of ns = of_int ns / of_int ns_per_second"

text \<open>
  What Duration.Seconds computes: the whole seconds plus the rest over 1e9, each operation rounded,
  with the sign of the duration.
\<close>

definition Seconds :: "int \<Rightarrow> rat" where
  "Seconds d =
     of_int (sgn d) * f64 (f64 (of_int (\<bar>d\<bar> div ns_per_second)) +
                           f64 (f64 (of_int (\<bar>d\<bar> mod ns_per_second)) / of_int ns_per_second))"

definition is_idle :: "Limiter \<Rightarrow> int \<Rightarrow> string \<times> bucket \<Rightarrow> bool" where
  "is_idle l now e \<longleftrightarrow> lm_idle l < now - bk_seen (snd e)"

text \<open>The stalest entry among those kept, the first one met winning a tie.\<close>

fun stalest :: "(string \<times> bucket) list \<Rightarrow> (string \<times> int) option \<Rightarrow> (string \<times> int) option" where
  "stalest [] acc = acc"
| "stalest ((k, b) # es) acc =
     stalest es (case acc of None \<Rightarrow> Some (k, bk_seen b)
                 | Some (k', seen) \<Rightarrow> if bk_seen b < seen then Some (k, bk_seen b) else acc)"

definition sweepLocked :: "int \<Rightarrow> Limiter \<Rightarrow> Limiter" where
  "sweepLocked now l =
     (let kept = filter (\<lambda>e. \<not> is_idle l now e) (lm_buckets l)
      in if length (lm_buckets l) < lm_maxKeys l then l \<lparr> lm_buckets := kept \<rparr>
         else case stalest kept None of
           None \<Rightarrow> l \<lparr> lm_buckets := kept \<rparr>
         | Some (k, seen) \<Rightarrow>
             if lm_maxKeys l \<le> length kept \<and> k \<noteq> [] then l \<lparr> lm_buckets := AList.delete k kept \<rparr>
             else l \<lparr> lm_buckets := kept \<rparr>)"

definition refill :: "Limiter \<Rightarrow> int \<Rightarrow> bucket \<Rightarrow> bucket" where
  "refill l now b =
     (let elapsed = Seconds (now - bk_seen b);
          tokens = (if 0 < elapsed
                    then (let total = f64 (bk_tokens b + f64 (elapsed * lm_rate l))
                          in if lm_burst l < total then lm_burst l else total)
                    else bk_tokens b)
      in \<lparr> bk_tokens = tokens, bk_seen = now \<rparr>)"

definition limiter_Allow :: "int \<Rightarrow> string \<Rightarrow> Limiter \<Rightarrow> bool \<times> int \<times> Limiter" where
  "limiter_Allow now key l =
     (if \<not> Enabled l then (True, 0, l)
      else
        (let present = map_of (lm_buckets l) key;
             l1 = (case present of None \<Rightarrow> sweepLocked now l | Some _ \<Rightarrow> l);
             entry = (case present of None \<Rightarrow> \<lparr> bk_tokens = lm_burst l, bk_seen = now \<rparr>
                      | Some b \<Rightarrow> refill l now b)
         in if 1 \<le> bk_tokens entry
            then (True, 0, l1 \<lparr> lm_buckets := AList.update key (entry \<lparr> bk_tokens := f64 (bk_tokens entry - 1) \<rparr>)
                                             (lm_buckets l1) \<rparr>)
            else
              (let wait = \<lfloor>f64 (f64 (f64 (1 - bk_tokens entry) / lm_rate l) * of_int ns_per_second)\<rfloor>
               in (False, if wait < ns_per_second then ns_per_second else wait,
                   l1 \<lparr> lm_buckets := AList.update key entry (lm_buckets l1) \<rparr>))))"

definition Tracked :: "Limiter \<Rightarrow> nat" where
  "Tracked l = length (lm_buckets l)"

subsection \<open>Runs of calls\<close>

fun limiter_run :: "(int \<times> string) list \<Rightarrow> Limiter \<Rightarrow> bool list \<times> Limiter" where
  "limiter_run [] l = ([], l)"
| "limiter_run ((now, key) # cs) l =
     (case limiter_Allow now key l of (ok, _, l1) \<Rightarrow>
        (case limiter_run cs l1 of (oks, l2) \<Rightarrow> (ok # oks, l2)))"

definition admitted :: "string \<Rightarrow> (int \<times> string) list \<Rightarrow> bool list \<Rightarrow> nat" where
  "admitted key cs oks = length (filter (\<lambda>((now, k), ok). k = key \<and> ok) (zip cs oks))"

definition limiter_inv :: "Limiter \<Rightarrow> bool" where
  "limiter_inv l \<longleftrightarrow> Enabled l \<and> lm_burst l \<le> 2 ^ 53 \<and> 0 \<le> lm_idle l \<and> distinct (map fst (lm_buckets l)) \<and> 0 < lm_maxKeys l \<and>
     length (lm_buckets l) \<le> lm_maxKeys l \<and>
     (\<forall>e \<in> set (lm_buckets l). fst e \<noteq> [] \<and> 0 \<le> bk_tokens (snd e) \<and> bk_tokens (snd e) \<le> lm_burst l)"

lemma stalest_in: "stalest es acc = Some (k, seen) \<Longrightarrow> acc = Some (k, seen) \<or> k \<in> fst ` set es"
  by (induction es acc rule: stalest.induct) (auto split: option.splits if_splits)

lemma stalest_None [simp]: "stalest es acc = None \<longleftrightarrow> es = [] \<and> acc = None"
  by (induction es acc rule: stalest.induct) (auto split: option.splits)

lemma length_delete_in:
  assumes "distinct (map fst es)" "k \<in> fst ` set es"
  shows "length (AList.delete k es) < length es"
  using assms by (auto simp: AList.delete_eq intro!: length_filter_less)

lemma sweep_params [simp]:
  "lm_rate (sweepLocked now l) = lm_rate l" "lm_burst (sweepLocked now l) = lm_burst l"
  "lm_idle (sweepLocked now l) = lm_idle l" "lm_maxKeys (sweepLocked now l) = lm_maxKeys l"
  by (auto simp: sweepLocked_def Let_def split: option.splits)

lemma sweep_subset: "set (lm_buckets (sweepLocked now l)) \<subseteq> set (lm_buckets l)"
  by (auto simp: sweepLocked_def Let_def AList.delete_eq split: option.splits)

lemma sweep_distinct:
  "distinct (map fst (lm_buckets l)) \<Longrightarrow> distinct (map fst (lm_buckets (sweepLocked now l)))"
  by (auto simp: sweepLocked_def Let_def AList.delete_eq distinct_map_filter split: option.splits)

lemma sweep_room:
  assumes "limiter_inv l"
  shows "length (lm_buckets (sweepLocked now l)) < lm_maxKeys l"
proof -
  let ?kept = "filter (\<lambda>e. \<not> is_idle l now e) (lm_buckets l)"
  have le: "length ?kept \<le> length (lm_buckets l)" by (rule length_filter_le)
  show ?thesis
  proof (cases "length (lm_buckets l) < lm_maxKeys l")
    case True
    then have "length ?kept < lm_maxKeys l" using le by (rule order_le_less_trans [rotated])
    then show ?thesis using True by (simp add: sweepLocked_def)
  next
    case full: False
    show ?thesis
    proof (cases "stalest ?kept None")
      case None
      then show ?thesis using full assms by (simp add: sweepLocked_def limiter_inv_def)
    next
      case (Some ks)
      obtain k seen where ks: "ks = (k, seen)" by (cases ks)
      then have k: "k \<in> fst ` set ?kept" using stalest_in [of ?kept None k seen] Some by simp
      have "distinct (map fst ?kept)" using assms by (simp add: limiter_inv_def distinct_map_filter)
      then have "length (AList.delete k ?kept) < length ?kept" using k by (rule length_delete_in)
      moreover have "k \<in> fst ` set (lm_buckets l)" using k by auto
      then have "k \<noteq> []" using assms by (auto simp: limiter_inv_def)
      ultimately have "length (AList.delete k ?kept) < length ?kept" "k \<noteq> []" by blast+
      then show ?thesis using full assms le Some ks by (auto simp: sweepLocked_def limiter_inv_def Let_def)
    qed
  qed
qed

lemma limiter_Allow_params:
  assumes "limiter_Allow now key l = (ok, wait, l')"
  shows "lm_rate l' = lm_rate l" "lm_burst l' = lm_burst l" "lm_idle l' = lm_idle l"
    "lm_maxKeys l' = lm_maxKeys l"
  using assms by (auto simp: limiter_Allow_def Let_def split: if_splits option.splits)

lemma update_subset: "set (AList.update k v es) \<subseteq> insert (k, v) (set es)"
  by (induction es) auto

lemma length_update:
  "length (AList.update k v es) = (if k \<in> fst ` set es then length es else Suc (length es))"
proof -
  have "length (map fst (AList.update k v es)) =
      (if k \<in> fst ` set es then length es else Suc (length es))"
    by (simp add: AList.update_keys)
  then show ?thesis by simp
qed

text \<open>What one call stores: the swept map with the caller's bucket.\<close>

definition stored :: "Limiter \<Rightarrow> int \<Rightarrow> string \<Rightarrow> bucket" where
  "stored l now key =
     (let e = (case map_of (lm_buckets l) key of None \<Rightarrow> \<lparr> bk_tokens = lm_burst l, bk_seen = now \<rparr>
               | Some b \<Rightarrow> refill l now b)
      in if 1 \<le> bk_tokens e then e \<lparr> bk_tokens := f64 (bk_tokens e - 1) \<rparr> else e)"

definition base_map :: "Limiter \<Rightarrow> int \<Rightarrow> string \<Rightarrow> (string \<times> bucket) list" where
  "base_map l now key =
     (if map_of (lm_buckets l) key = None then lm_buckets (sweepLocked now l) else lm_buckets l)"

lemma limiter_Allow_buckets:
  "Enabled l \<Longrightarrow> limiter_Allow now key l = (ok, wait, l') \<Longrightarrow>
   lm_buckets l' = AList.update key (stored l now key) (base_map l now key)"
  by (auto simp: limiter_Allow_def stored_def base_map_def Let_def split: if_splits option.splits)

lemma refill_range:
  assumes "0 \<le> bk_tokens b" "bk_tokens b \<le> lm_burst l" "0 \<le> lm_rate l"
  shows "0 \<le> bk_tokens (refill l now b)" "bk_tokens (refill l now b) \<le> lm_burst l"
  using assms by (auto simp: refill_def Let_def intro!: f64_nonneg add_nonneg_nonneg mult_nonneg_nonneg)

text \<open>A token taken: the rounding neither creates a token nor goes below zero.\<close>

lemma f64_take:
  assumes "1 \<le> t" "t \<le> 2 ^ 53"
  shows "0 \<le> f64 (t - 1)" "f64 (t - 1) \<le> t" "f64 (t - 1) \<le> t - 1 + t / 2 ^ 53"
proof -
  show "0 \<le> f64 (t - 1)" using assms(1) by (intro f64_nonneg) simp
  have "f64 (t - 1) \<le> (t - 1) * (1 + 1 / 2 ^ 53)" using assms(1) by (intro f64_up) simp
  also have "\<dots> \<le> t - 1 + t / 2 ^ 53" by (simp add: field_simps)
  finally show le: "f64 (t - 1) \<le> t - 1 + t / 2 ^ 53" .
  then show "f64 (t - 1) \<le> t" using assms(2) by simp
qed

lemma stored_range:
  assumes "limiter_inv l"
  shows "0 \<le> bk_tokens (stored l now key) \<and> bk_tokens (stored l now key) \<le> lm_burst l"
proof (cases "map_of (lm_buckets l) key")
  case None
  then show ?thesis using assms f64_take [of "lm_burst l"]
    by (auto simp: stored_def Let_def limiter_inv_def Enabled_def)
next
  case (Some b)
  then have "0 \<le> bk_tokens b" "bk_tokens b \<le> lm_burst l"
    using assms by (auto simp: limiter_inv_def dest!: map_of_SomeD)
  then have "0 \<le> bk_tokens (refill l now b)" "bk_tokens (refill l now b) \<le> lm_burst l"
    using refill_range [of b l now] assms by (auto simp: limiter_inv_def Enabled_def)
  then show ?thesis
    using f64_take [of "bk_tokens (refill l now b)"] assms Some
    by (auto simp: stored_def Let_def limiter_inv_def Enabled_def)
qed

lemma limiter_Allow_inv:
  assumes inv: "limiter_inv l" and key: "key \<noteq> []" and al: "limiter_Allow now key l = (ok, wait, l')"
  shows "limiter_inv l'"
proof -
  have en: "Enabled l" using inv by (simp add: limiter_inv_def)
  note b = limiter_Allow_buckets [OF en al] and p = limiter_Allow_params [OF al]
  have sub: "set (base_map l now key) \<subseteq> set (lm_buckets l)"
    using sweep_subset by (auto simp: base_map_def)
  have room: "key \<in> fst ` set (base_map l now key) \<and> length (base_map l now key) \<le> lm_maxKeys l
      \<or> length (base_map l now key) < lm_maxKeys l"
  proof (cases "map_of (lm_buckets l) key = None")
    case True
    then show ?thesis using sweep_room [OF inv] by (simp add: base_map_def)
  next
    case False
    then have "key \<in> fst ` set (lm_buckets l)" by (simp only: map_of_eq_None_iff) simp
    moreover have "base_map l now key = lm_buckets l" using False by (simp only: base_map_def if_False)
    ultimately show ?thesis using inv by (simp add: limiter_inv_def)
  qed
  have len: "length (lm_buckets l') \<le> lm_maxKeys l"
    unfolding b length_update using room by (auto split: if_splits)
  have d: "distinct (map fst (lm_buckets l'))"
    unfolding b using inv sweep_distinct
    by (intro AList.distinct_update) (auto simp: base_map_def limiter_inv_def)
  have "\<forall>e \<in> set (lm_buckets l'). e = (key, stored l now key) \<or> e \<in> set (lm_buckets l)"
    unfolding b using update_subset [of key "stored l now key" "base_map l now key"] sub by blast
  note entries = this
  have old: "\<forall>e \<in> set (lm_buckets l). fst e \<noteq> [] \<and> 0 \<le> bk_tokens (snd e) \<and> bk_tokens (snd e) \<le> lm_burst l"
    using inv by (simp add: limiter_inv_def)
  have "\<forall>e \<in> set (lm_buckets l'). fst e \<noteq> [] \<and> 0 \<le> bk_tokens (snd e) \<and> bk_tokens (snd e) \<le> lm_burst l"
  proof
    fix e assume "e \<in> set (lm_buckets l')"
    then consider "e = (key, stored l now key)" | "e \<in> set (lm_buckets l)" using entries by blast
    then show "fst e \<noteq> [] \<and> 0 \<le> bk_tokens (snd e) \<and> bk_tokens (snd e) \<le> lm_burst l"
      using old key stored_range [OF inv, of now key] by cases auto
  qed
  moreover have "Enabled l'" using en by (simp add: Enabled_def p)
  ultimately show ?thesis using inv len d unfolding limiter_inv_def p by blast
qed

lemma burst_below: "0 < burst \<Longrightarrow> burst < 2 ^ 53 \<Longrightarrow> (of_int burst :: rat) \<le> 2 ^ 53"
  by (metis less_imp_le of_int_le_iff of_int_numeral of_int_power)

lemma New_fields:
  assumes "0 < perMinute" "perMinute < 2 ^ 53" "0 < burst" "burst < 2 ^ 53"
  shows "lm_burst (limiter_New perMinute burst) = of_int burst"
    and "lm_rate (limiter_New perMinute burst) = f64 (of_int perMinute / 60)"
    and "Enabled (limiter_New perMinute burst)"
  using assms by (simp_all add: limiter_New_def Enabled_def f64_of_int f64_pos)

lemma limiter_New_inv:
  assumes "0 < perMinute" "perMinute < 2 ^ 53" "0 < burst" "burst < 2 ^ 53"
  shows "limiter_inv (limiter_New perMinute burst)"
  using New_fields [OF assms] burst_below [OF assms(3,4)]
  by (simp add: limiter_inv_def) (simp add: limiter_New_def ns_per_second_def)

lemma limiter_run_inv:
  assumes "limiter_inv l" "\<forall>(now, key) \<in> set cs. key \<noteq> []"
  shows "limiter_inv (snd (limiter_run cs l))"
  using assms by (induction cs l rule: limiter_run.induct)
    (auto split: prod.splits dest: limiter_Allow_inv)

lemma limiter_run_params:
  "lm_maxKeys (snd (limiter_run cs l)) = lm_maxKeys l \<and>
   lm_burst (snd (limiter_run cs l)) = lm_burst l \<and>
   lm_rate (snd (limiter_run cs l)) = lm_rate l"
  by (induction cs l rule: limiter_run.induct)
    (auto split: prod.splits dest: limiter_Allow_params)

text \<open>
  The memory bound: whatever principals call, in whatever order and with whatever clock readings, an
  enabled limiter never holds more than 10000 buckets, and every bucket holds between zero
  and burst tokens.
\<close>

theorem limiter_bounded:
  assumes "0 < perMinute" "perMinute < 2 ^ 53" "0 < burst" "burst < 2 ^ 53"
    and "\<forall>(now, key) \<in> set cs. key \<noteq> []"
    and "limiter_run cs (limiter_New perMinute burst) = (oks, l)"
  shows "Tracked l \<le> 10000 \<and>
    (\<forall>e \<in> set (lm_buckets l). 0 \<le> bk_tokens (snd e) \<and> bk_tokens (snd e) \<le> of_int burst)"
proof -
  have "snd (limiter_run cs (limiter_New perMinute burst)) = l" using assms(6) by simp
  then have "lm_maxKeys l = 10000" "lm_burst l = of_int burst"
    using limiter_run_params [of cs "limiter_New perMinute burst"] New_fields(1) [OF assms(1-4)]
    by (auto simp: limiter_New_def)
  note params = this
  have "limiter_inv l"
    using limiter_run_inv [OF limiter_New_inv [OF assms(1-4)] assms(5)] assms(6) by simp
  then show ?thesis using params by (simp add: limiter_inv_def Tracked_def)
qed

subsection \<open>How many calls a principal gets\<close>

text \<open>
  The allowance a principal has at a clock reading: the tokens its bucket would be refilled to if
  nothing were rounded.  A reading older than the bucket's refills nothing.
\<close>

definition allowance :: "Limiter \<Rightarrow> int \<Rightarrow> string \<Rightarrow> rat" where
  "allowance l now key =
     (case map_of (lm_buckets l) key of None \<Rightarrow> lm_burst l
      | Some b \<Rightarrow> min (lm_burst l) (bk_tokens b + max 0 (seconds_of (now - bk_seen b)) * lm_rate l))"

text \<open>An idle bucket has refilled to the burst (up to the rounding of the rate), so dropping it changes nothing.\<close>

definition idle_refills :: "Limiter \<Rightarrow> bool" where
  "idle_refills l \<longleftrightarrow> lm_burst l * (1 - 1 / 2 ^ 53) \<le> seconds_of (lm_idle l) * lm_rate l"

text \<open>How far the readings of a run step back, in all.\<close>

fun setbacks :: "int list \<Rightarrow> int" where
  "setbacks (a # b # ts) = max 0 (a - b) + setbacks (b # ts)"
| "setbacks ts = 0"

lemma setbacks_sorted: "sorted ts \<Longrightarrow> setbacks ts = 0"
  by (induction ts rule: setbacks.induct) auto

lemma seconds_of_mono: "a \<le> b \<Longrightarrow> seconds_of a \<le> seconds_of b"
  by (simp add: seconds_of_def ns_per_second_def)

lemma seconds_of_nonneg: "0 \<le> a \<Longrightarrow> 0 \<le> seconds_of a"
  by (simp add: seconds_of_def ns_per_second_def)

lemma seconds_of_pos [simp]: "0 < seconds_of a \<longleftrightarrow> 0 < a"
  by (simp add: seconds_of_def ns_per_second_def)

lemma seconds_of_zero [simp]: "seconds_of 0 = 0"
  by (simp add: seconds_of_def)

lemma seconds_of_add: "seconds_of (a + b) = seconds_of a + seconds_of b"
  by (simp add: seconds_of_def add_divide_distrib)

lemma seconds_of_max: "max 0 (seconds_of a) = seconds_of (max 0 a)"
  using seconds_of_mono [of 0 a] seconds_of_mono [of a 0] by (auto simp: max_def)

text \<open>The rounding of a chain of n operations.\<close>

lemma round_up_chain:
  assumes "0 \<le> x" "x \<le> y * (1 + 1 / 2 ^ 53) ^ n" 
  shows "f64 x \<le> y * (1 + 1 / 2 ^ 53) ^ Suc n"
proof -
  have "f64 x \<le> x * (1 + 1 / 2 ^ 53)" by (rule f64_up [OF assms(1)])
  also have "\<dots> \<le> y * (1 + 1 / 2 ^ 53) ^ n * (1 + 1 / 2 ^ 53)" using assms(2) by (intro mult_right_mono) simp_all
  finally show ?thesis by (simp add: mult_ac)
qed

lemma round_down_chain:
  assumes "0 \<le> y" "y * (1 - 1 / 2 ^ 53) ^ n \<le> x"
  shows "y * (1 - 1 / 2 ^ 53) ^ Suc n \<le> f64 x"
proof -
  have "0 \<le> y * (1 - 1 / 2 ^ 53) ^ n" using assms(1) by (intro mult_nonneg_nonneg) simp_all
  then have "0 \<le> x" using assms(2) by linarith
  have "y * (1 - 1 / 2 ^ 53) ^ n * (1 - 1 / 2 ^ 53) \<le> x * (1 - 1 / 2 ^ 53)"
    using assms(2) by (intro mult_right_mono) simp_all
  also have "\<dots> \<le> f64 x" by (rule f64_down [OF \<open>0 \<le> x\<close>])
  finally show ?thesis by (simp add: mult_ac)
qed

lemma round_both:
  assumes "0 \<le> x" "0 \<le> y"
  shows "f64 x + f64 y \<le> (x + y) * (1 + 1 / 2 ^ 53) ^ 1" "(x + y) * (1 - 1 / 2 ^ 53) ^ 1 \<le> f64 x + f64 y"
  using f64_up [OF assms(1)] f64_up [OF assms(2)] f64_down [OF assms(1)] f64_down [OF assms(2)]
  unfolding distrib_right power_one_right by linarith+

lemma Seconds_bounds:
  assumes "0 \<le> d"
  shows "Seconds d \<le> seconds_of d * (1 + 1 / 2 ^ 53) ^ 3" "seconds_of d * (1 - 1 / 2 ^ 53) ^ 3 \<le> Seconds d"
proof -
  let ?s = "of_int (d div ns_per_second) :: rat"
  let ?r = "of_int (d mod ns_per_second) / of_int ns_per_second :: rat"
  have ns: "0 < ns_per_second" by (simp add: ns_per_second_def)
  then have nn: "0 \<le> ?s" "0 \<le> ?r" using assms by (simp_all add: pos_imp_zdiv_nonneg_iff)
  have "d = d div ns_per_second * ns_per_second + d mod ns_per_second" by simp
  then have "(of_int d :: rat) = of_int (d div ns_per_second * ns_per_second + d mod ns_per_second)"
    by (rule arg_cong)
  then have "(of_int d :: rat) = of_int (d div ns_per_second) * of_int ns_per_second + of_int (d mod ns_per_second)"
    by (simp only: of_int_add of_int_mult)
  then have sum: "seconds_of d = ?s + ?r" using ns by (simp add: seconds_of_def add_divide_distrib)
  have S: "Seconds d = f64 (f64 ?s + f64 (f64 (of_int (d mod ns_per_second)) / of_int ns_per_second))"
    using assms by (cases "d = 0") (simp_all add: Seconds_def)
  have "\<bar>d mod ns_per_second\<bar> < 2 ^ 53"
    using pos_mod_bound [OF ns, of d] pos_mod_sign [OF ns, of d] by (simp add: ns_per_second_def)
  then have S: "Seconds d = f64 (f64 ?s + f64 ?r)" unfolding S by (simp add: f64_of_int)
  have ineq: "f64 ?s + f64 ?r \<le> seconds_of d * (1 + 1 / 2 ^ 53) ^ 1"
    "seconds_of d * (1 - 1 / 2 ^ 53) ^ 1 \<le> f64 ?s + f64 ?r"
    unfolding sum by (rule round_both [OF nn])+
  have "0 \<le> f64 ?s + f64 ?r" using nn by (intro add_nonneg_nonneg f64_nonneg)
  note two = round_up_chain [OF this ineq(1)] round_down_chain [OF seconds_of_nonneg [OF assms] ineq(2)]
  have nn: "0 \<le> seconds_of d" by (rule seconds_of_nonneg [OF assms])
  have "(1 + 1 / 2 ^ 53 :: rat) ^ Suc 1 \<le> (1 + 1 / 2 ^ 53) ^ 3" by (rule power_increasing) simp_all
  from mult_left_mono [OF this nn] two(1)
  show "Seconds d \<le> seconds_of d * (1 + 1 / 2 ^ 53) ^ 3" unfolding S by linarith
  have "(1 - 1 / 2 ^ 53 :: rat) ^ 3 \<le> (1 - 1 / 2 ^ 53) ^ Suc 1" by (rule power_decreasing) simp_all
  from mult_left_mono [OF this nn] two(2)
  show "seconds_of d * (1 - 1 / 2 ^ 53) ^ 3 \<le> Seconds d" unfolding S by linarith
qed

lemma Seconds_pos: "0 < Seconds d \<longleftrightarrow> 0 < d"
proof (cases "0 < d")
  case True
  then have "0 < seconds_of d * (1 - 1 / 2 ^ 53) ^ 3" by (intro mult_pos_pos) simp_all
  also have "\<dots> \<le> Seconds d" using True by (intro Seconds_bounds(2)) simp
  finally show ?thesis using True by simp
next
  case False
  have "0 \<le> f64 (f64 (of_int (\<bar>d\<bar> div ns_per_second)) +
        f64 (f64 (of_int (\<bar>d\<bar> mod ns_per_second)) / of_int ns_per_second))"
    by (intro f64_nonneg add_nonneg_nonneg divide_nonneg_nonneg)
      (simp_all add: pos_imp_zdiv_nonneg_iff ns_per_second_def)
  then have "of_int (sgn d) * f64 (f64 (of_int (\<bar>d\<bar> div ns_per_second)) +
        f64 (f64 (of_int (\<bar>d\<bar> mod ns_per_second)) / of_int ns_per_second)) \<le> 0"
    using False by (intro mult_nonpos_nonneg) (simp_all add: sgn_if)
  then show ?thesis using False by (simp add: Seconds_def)
qed

lemma allowance_range:
  assumes "limiter_inv l"
  shows "0 \<le> allowance l now key" "allowance l now key \<le> lm_burst l"
proof -
  have r: "0 \<le> lm_rate l" "0 \<le> lm_burst l" using assms(1) by (simp_all add: limiter_inv_def Enabled_def)
  show "0 \<le> allowance l now key"
  proof (cases "map_of (lm_buckets l) key")
    case (Some b)
    then have "(key, b) \<in> set (lm_buckets l)" by (rule map_of_SomeD)
    then have "0 \<le> bk_tokens b" using assms by (force simp: limiter_inv_def)
    then show ?thesis using r Some by (simp add: allowance_def)
  qed (use r in \<open>simp add: allowance_def\<close>)
  show "allowance l now key \<le> lm_burst l" by (simp add: allowance_def split: option.splits)
qed

lemma allowance_later:
  assumes "limiter_inv l"
  shows "allowance l now key \<le> allowance l t0 key + seconds_of (max 0 (now - t0)) * lm_rate l"
proof -
  have r: "0 \<le> lm_rate l" using assms(1) by (simp add: limiter_inv_def Enabled_def)
  have nn: "0 \<le> seconds_of (max 0 (now - t0)) * lm_rate l"
    using r seconds_of_nonneg [of "max 0 (now - t0)"] by simp
  show ?thesis
  proof (cases "map_of (lm_buckets l) key")
    case (Some b)
    have "seconds_of (max 0 (now - bk_seen b)) \<le> seconds_of (max 0 (t0 - bk_seen b) + max 0 (now - t0))"
      by (rule seconds_of_mono) linarith
    from mult_right_mono [OF this r]
    have "seconds_of (max 0 (now - bk_seen b)) * lm_rate l
        \<le> seconds_of (max 0 (t0 - bk_seen b)) * lm_rate l + seconds_of (max 0 (now - t0)) * lm_rate l"
      by (simp add: seconds_of_add distrib_right)
    then show ?thesis using Some nn by (auto simp: allowance_def seconds_of_max min_def)
  qed (use nn in \<open>simp add: allowance_def\<close>)
qed

text \<open>What a bucket is refilled to in float64: at most six roundings above the exact value.\<close>

lemma refill_error:
  assumes "0 \<le> bk_tokens b" "bk_tokens b \<le> lm_burst l" "0 \<le> lm_rate l"
  shows "bk_tokens (refill l now b) \<le>
    min (lm_burst l) (bk_tokens b + max 0 (seconds_of (now - bk_seen b)) * lm_rate l) + 6 * lm_burst l / 2 ^ 53"
proof (cases "0 < now - bk_seen b")
  case False
  then have "bk_tokens (refill l now b) = bk_tokens b" by (simp add: refill_def Seconds_pos)
  moreover have "0 \<le> max 0 (seconds_of (now - bk_seen b)) * lm_rate l" using assms(3) by simp
  ultimately show ?thesis using assms(1,2) by (simp add: min_def)
next
  case True
  let ?c = "1 + 1 / 2 ^ 53 :: rat" and ?S = "Seconds (now - bk_seen b)"
  define y where "y = seconds_of (now - bk_seen b) * lm_rate l"
  define x where "x = bk_tokens b + y"
  have Suc3: "Suc 3 = 4" by simp
  have S: "0 < ?S" using True by (simp add: Seconds_pos)
  have y: "0 \<le> y" using True assms(3) seconds_of_nonneg by (simp add: y_def)
  have "?S * lm_rate l \<le> seconds_of (now - bk_seen b) * ?c ^ 3 * lm_rate l"
    using True assms(3) by (intro mult_right_mono Seconds_bounds(1)) simp_all
  also have "\<dots> = y * ?c ^ 3" by (simp add: y_def)
  finally have f: "f64 (?S * lm_rate l) \<le> y * ?c ^ Suc 3"
    using S assms(3) by (intro round_up_chain) simp_all
  have "bk_tokens b * 1 \<le> bk_tokens b * ?c ^ 4" using assms(1) by (intro mult_left_mono) simp_all
  then have "bk_tokens b + f64 (?S * lm_rate l) \<le> x * ?c ^ 4"
    using f unfolding x_def distrib_right Suc3 by linarith
  then have "f64 (bk_tokens b + f64 (?S * lm_rate l)) \<le> x * ?c ^ Suc 4"
    using S assms by (intro round_up_chain add_nonneg_nonneg f64_nonneg) simp_all
  also have "\<dots> \<le> x * (1 + 6 / 2 ^ 53)"
    using assms(1) y by (intro mult_left_mono) (simp_all add: x_def power_divide)
  finally have e: "f64 (bk_tokens b + f64 (?S * lm_rate l)) \<le> x + 6 * x / 2 ^ 53"
    by (simp add: distrib_left)
  have b: "0 \<le> lm_burst l" using assms by linarith
  have t: "bk_tokens (refill l now b) = min (lm_burst l) (f64 (bk_tokens b + f64 (?S * lm_rate l)))"
    using S by (simp add: refill_def Let_def min_def)
  have "max 0 (seconds_of (now - bk_seen b)) = seconds_of (now - bk_seen b)"
    using seconds_of_nonneg [of "now - bk_seen b"] True by simp
  then have "min (lm_burst l) (f64 (bk_tokens b + f64 (?S * lm_rate l)))
      \<le> min (lm_burst l) x + 6 * lm_burst l / 2 ^ 53"
    using e b by (cases "x \<le> lm_burst l") (auto simp: min_def)
  then show ?thesis unfolding t using True seconds_of_nonneg [of "now - bk_seen b"] by (simp add: x_def y_def)
qed

lemma map_of_filter:
  "distinct (map fst es) \<Longrightarrow> map_of (filter P es) k =
     (case map_of es k of None \<Rightarrow> None | Some b \<Rightarrow> if P (k, b) then Some b else None)"
proof (induction es)
  case (Cons e es)
  obtain k' b' where e: "e = (k', b')" by (cases e)
  show ?case
  proof (cases "k = k'")
    case True
    then have "map_of es k = None" using Cons.prems e by (simp add: map_of_eq_None_iff)
    then show ?thesis using Cons e True by simp
  qed (use Cons e in simp)
qed simp

lemma sweep_map_of:
  assumes "limiter_inv l" "length (lm_buckets l) < lm_maxKeys l"
  shows "map_of (lm_buckets (sweepLocked now l)) k =
    (case map_of (lm_buckets l) k of None \<Rightarrow> None
     | Some b \<Rightarrow> if is_idle l now (k, b) then None else Some b)"
  using assms map_of_filter [of "lm_buckets l" "\<lambda>e. \<not> is_idle l now e" k]
  by (auto simp: sweepLocked_def limiter_inv_def split: option.splits)

lemma sweep_allowance:
  assumes "limiter_inv l" "idle_refills l" "length (lm_buckets l) < lm_maxKeys l"
  shows "allowance (sweepLocked now l) now k \<le> allowance l now k + lm_burst l / 2 ^ 53"
proof -
  have pos: "0 \<le> lm_burst l" using assms(1) by (simp add: limiter_inv_def Enabled_def)
  show ?thesis
  proof (cases "map_of (lm_buckets l) k")
    case None
    then show ?thesis using sweep_map_of [OF assms(1,3), of now k] pos by (simp add: allowance_def)
  next
    case (Some b)
    show ?thesis
    proof (cases "is_idle l now (k, b)")
      case True
      then have "seconds_of (lm_idle l) \<le> seconds_of (max 0 (now - bk_seen b))"
        by (intro seconds_of_mono) (simp add: is_idle_def)
      then have "seconds_of (lm_idle l) * lm_rate l \<le> seconds_of (max 0 (now - bk_seen b)) * lm_rate l"
        using assms(1) by (intro mult_right_mono) (auto simp: limiter_inv_def Enabled_def)
      moreover have "0 \<le> bk_tokens b"
        using map_of_SomeD [OF Some] assms(1) by (force simp: limiter_inv_def)
      moreover have "lm_burst l - lm_burst l / 2 ^ 53 \<le> seconds_of (lm_idle l) * lm_rate l"
        using assms(2) by (simp add: idle_refills_def right_diff_distrib)
      ultimately have "lm_burst l \<le> allowance l now k + lm_burst l / 2 ^ 53"
        using Some pos by (auto simp: allowance_def seconds_of_max min_def)
      then show ?thesis using Some True sweep_map_of [OF assms(1,3), of now k]
        by (simp add: allowance_def)
    next
      case False
      then show ?thesis using Some sweep_map_of [OF assms(1,3), of now k] pos by (simp add: allowance_def)
    qed
  qed
qed

definition entry_of :: "Limiter \<Rightarrow> int \<Rightarrow> string \<Rightarrow> bucket" where
  "entry_of l now key =
     (case map_of (lm_buckets l) key of None \<Rightarrow> \<lparr> bk_tokens = lm_burst l, bk_seen = now \<rparr>
      | Some b \<Rightarrow> refill l now b)"

lemma entry_seen [simp]: "bk_seen (entry_of l now key) = now"
  by (simp add: entry_of_def refill_def Let_def split: option.splits)

lemma entry_allowance:
  assumes "limiter_inv l"
  shows "bk_tokens (entry_of l now key) \<le> allowance l now key + 6 * lm_burst l / 2 ^ 53"
    and "0 \<le> bk_tokens (entry_of l now key)" "bk_tokens (entry_of l now key) \<le> lm_burst l"
proof -
  have r: "0 \<le> lm_rate l" "0 \<le> lm_burst l" using assms by (simp_all add: limiter_inv_def Enabled_def)
  have b: "0 \<le> bk_tokens b \<and> bk_tokens b \<le> lm_burst l" if "map_of (lm_buckets l) key = Some b" for b
    using map_of_SomeD [OF that] assms by (force simp: limiter_inv_def)
  show "bk_tokens (entry_of l now key) \<le> allowance l now key + 6 * lm_burst l / 2 ^ 53"
    using r b refill_error [of _ l now] by (auto simp: entry_of_def allowance_def split: option.splits)
  show "0 \<le> bk_tokens (entry_of l now key)" "bk_tokens (entry_of l now key) \<le> lm_burst l"
    using r b refill_range [of _ l now] by (auto simp: entry_of_def split: option.splits)
qed

lemma stored_entry:
  "stored l now key =
     (if 1 \<le> bk_tokens (entry_of l now key)
      then (entry_of l now key) \<lparr> bk_tokens := f64 (bk_tokens (entry_of l now key) - 1) \<rparr>
      else entry_of l now key)"
  by (simp add: stored_def entry_of_def Let_def)

lemma limiter_Allow_ok:
  "Enabled l \<Longrightarrow> limiter_Allow now key l = (ok, wait, l') \<Longrightarrow>
   ok = (1 \<le> bk_tokens (entry_of l now key))"
  by (auto simp: limiter_Allow_def entry_of_def Let_def split: if_splits option.splits)

text \<open>
  One call: it takes a token off the caller's allowance if it is let through, and the roundings and
  the sweep add at most a 2^50th of the burst to anybody's.
\<close>

lemma limiter_Allow_allowance:
  assumes inv: "limiter_inv l" and safe: "idle_refills l"
    and room: "key \<in> fst ` set (lm_buckets l) \<or> length (lm_buckets l) < lm_maxKeys l"
    and al: "limiter_Allow now key l = (ok, wait, l')"
  shows "allowance l' now k + (if k = key \<and> ok then 1 else 0) \<le> allowance l now k + lm_burst l / 2 ^ 50"
proof (cases "k = key")
  case True
  have en: "Enabled l" using inv by (simp add: limiter_inv_def)
  let ?t = "bk_tokens (entry_of l now key)"
  have "map_of (lm_buckets l') k = Some (stored l now key)"
    using True by (simp add: limiter_Allow_buckets [OF en al] update_conv')
  moreover have "bk_seen (stored l now key) = now" by (simp add: stored_entry)
  ultimately have "allowance l' now k \<le> bk_tokens (stored l now key)"
    by (simp add: allowance_def)
  also have "\<dots> \<le> ?t - (if ok then 1 else 0) + lm_burst l / 2 ^ 53"
  proof (cases ok)
    case True
    then have "1 \<le> ?t" using limiter_Allow_ok [OF en al] by simp
    moreover have "?t \<le> lm_burst l" "lm_burst l \<le> 2 ^ 53"
      using entry_allowance(3) [OF inv] inv by (simp_all add: limiter_inv_def)
    moreover note f64_take(3) [of ?t]
    moreover have "?t / 2 ^ 53 \<le> lm_burst l / 2 ^ 53"
      using entry_allowance(3) [OF inv] by (rule divide_right_mono) simp
    ultimately show ?thesis using True by (simp add: stored_entry)
  next
    case False
    then show ?thesis using limiter_Allow_ok [OF en al] en by (simp add: stored_entry Enabled_def)
  qed
  finally show ?thesis using entry_allowance(1) [OF inv, of now key] True en
    by (simp add: Enabled_def split: if_splits)
next
  case other: False
  have en: "Enabled l" using inv by (simp add: limiter_inv_def)
  then have pos: "0 \<le> lm_burst l" by (simp add: Enabled_def)
  have "map_of (lm_buckets l') k = map_of (base_map l now key) k"
    using other by (simp add: limiter_Allow_buckets [OF en al] update_conv')
  then have "allowance l' now k = allowance (l \<lparr> lm_buckets := base_map l now key \<rparr>) now k"
    by (simp add: allowance_def limiter_Allow_params [OF al] split: option.splits)
  also have "\<dots> \<le> allowance l now k + lm_burst l / 2 ^ 53"
  proof (cases "map_of (lm_buckets l) key = None")
    case True
    then have "length (lm_buckets l) < lm_maxKeys l" using room by (simp add: map_of_eq_None_iff)
    from sweep_allowance [OF inv safe this, of now k] True show ?thesis
      by (simp add: base_map_def allowance_def split: option.splits)
  next
    case False
    then show ?thesis using pos by (auto simp: base_map_def)
  qed
  also have "lm_burst l / 2 ^ 53 \<le> lm_burst l / 2 ^ 50" using pos by simp
  finally show ?thesis using other by simp
qed

lemma admitted_Cons:
  "admitted key ((now, k) # cs) (ok # oks) = (if k = key \<and> ok then 1 else 0) + admitted key cs oks"
  by (simp add: admitted_def)

lemma keys_after:
  assumes "Enabled l" "limiter_Allow now key l = (ok, wait, l')"
  shows "fst ` set (lm_buckets l') \<subseteq> insert key (fst ` set (lm_buckets l))"
proof -
  have "set (lm_buckets l') \<subseteq> insert (key, stored l now key) (set (lm_buckets l))"
    unfolding limiter_Allow_buckets [OF assms]
    using update_subset [of key "stored l now key" "base_map l now key"] sweep_subset
    by (fastforce simp: base_map_def split: if_splits)
  then show ?thesis by force
qed

lemma room_for_caller:
  assumes "limiter_inv l" "finite K" "fst ` set (lm_buckets l) \<subseteq> K" "k \<in> K" "card K \<le> lm_maxKeys l"
  shows "k \<in> fst ` set (lm_buckets l) \<or> length (lm_buckets l) < lm_maxKeys l"
proof (rule disjCI)
  assume "\<not> length (lm_buckets l) < lm_maxKeys l"
  moreover have "length (lm_buckets l) = card (fst ` set (lm_buckets l))"
    using assms(1) distinct_card [of "map fst (lm_buckets l)"] by (simp add: limiter_inv_def)
  ultimately have "fst ` set (lm_buckets l) = K" using assms(2,3,5) by (intro card_seteq) auto
  then show "k \<in> fst ` set (lm_buckets l)" using assms(4) by simp
qed

lemma limiter_run_bound:
  assumes "limiter_inv l" "idle_refills l" "\<forall>(now, k) \<in> set cs. k \<noteq> []"
    and "finite K" "fst ` set (lm_buckets l) \<union> snd ` set cs \<subseteq> K" "card K \<le> lm_maxKeys l"
    and "limiter_run cs l = (oks, l')"
  shows "of_nat (admitted key cs oks) \<le> allowance l t0 key +
     seconds_of (last (t0 # map fst cs) - t0 + setbacks (t0 # map fst cs)) * lm_rate l +
     of_nat (length cs) * (lm_burst l / 2 ^ 50)"
  using assms
proof (induction cs arbitrary: l t0 oks l')
  case Nil
  then show ?case using allowance_range(1) [OF Nil.prems(1), of t0 key] by (simp add: admitted_def)
next
  case (Cons c cs)
  obtain now k where c: "c = (now, k)" by (cases c)
  obtain ok wait l1 where al: "limiter_Allow now k l = (ok, wait, l1)"
    by (cases "limiter_Allow now k l")
  obtain oks1 where run: "limiter_run cs l1 = (oks1, l')" and oks: "oks = ok # oks1"
    using Cons.prems(7) by (auto simp: c al split: prod.splits)
  have k: "k \<noteq> []" using Cons.prems(3) by (simp add: c)
  have en: "Enabled l" using Cons.prems(1) by (simp add: limiter_inv_def)
  have room: "k \<in> fst ` set (lm_buckets l) \<or> length (lm_buckets l) < lm_maxKeys l"
    using Cons.prems(1,4-6) by (intro room_for_caller) (auto simp: c)
  note step = limiter_Allow_allowance [OF Cons.prems(1,2) room al, of key]
  note params = limiter_Allow_params [OF al]
  have ih: "of_nat (admitted key cs oks1) \<le> allowance l1 now key +
     seconds_of (last (now # map fst cs) - now + setbacks (now # map fst cs)) * lm_rate l1 +
     of_nat (length cs) * (lm_burst l1 / 2 ^ 50)"
  proof (rule Cons.IH)
    show "limiter_inv l1" by (rule limiter_Allow_inv [OF Cons.prems(1) k al])
    show "idle_refills l1" using Cons.prems(2) by (simp add: idle_refills_def params)
    show "fst ` set (lm_buckets l1) \<union> snd ` set cs \<subseteq> K"
      using keys_after [OF en al] Cons.prems(5) by (auto simp: c)
    show "card K \<le> lm_maxKeys l1" using Cons.prems(6) by (simp add: params)
  qed (use Cons.prems(3,4) run in auto)
  have "last (t0 # map fst (c # cs)) - t0 + setbacks (t0 # map fst (c # cs)) =
      max 0 (now - t0) + (last (now # map fst cs) - now + setbacks (now # map fst cs))"
    by (simp add: c)
  then have "seconds_of (last (t0 # map fst (c # cs)) - t0 + setbacks (t0 # map fst (c # cs))) * lm_rate l =
      seconds_of (max 0 (now - t0)) * lm_rate l +
      seconds_of (last (now # map fst cs) - now + setbacks (now # map fst cs)) * lm_rate l"
    by (simp only: seconds_of_add distrib_right)
  moreover have "of_nat (admitted key (c # cs) oks) =
      (if key = k \<and> ok then 1 else 0 :: rat) + of_nat (admitted key cs oks1)"
    unfolding c oks admitted_Cons by auto
  moreover have "of_nat (length (c # cs)) * (lm_burst l / 2 ^ 50) =
      lm_burst l / 2 ^ 50 + of_nat (length cs) * (lm_burst l / 2 ^ 50)"
    unfolding length_Cons of_nat_Suc by (simp only: distrib_right mult_1_left)
  ultimately show ?case using ih step allowance_later [OF Cons.prems(1), of now key t0]
    unfolding params by linarith
qed

lemma run_length: "0 \<le> last (t # ts) - t + setbacks (t # ts)"
proof (induction ts arbitrary: t)
  case (Cons a ts)
  show ?case using Cons.IH [of a] by simp
qed simp

lemma New_idle_refills:
  assumes "0 < perMinute" "perMinute < 2 ^ 53" "0 < burst" "burst \<le> 10 * perMinute" "burst < 2 ^ 53"
  shows "idle_refills (limiter_New perMinute burst)"
proof -
  have "of_int perMinute / 60 * (1 - 1 / 2 ^ 53) \<le> (f64 (of_int perMinute / 60) :: rat)"
    using assms(1) by (intro f64_down) simp
  moreover have "(of_int burst :: rat) \<le> of_int (10 * perMinute)" using assms(4) by (simp only: of_int_le_iff)
  moreover have "seconds_of (600 * ns_per_second) = 600" by (simp add: seconds_of_def ns_per_second_def)
  ultimately show ?thesis using New_fields [OF assms(1-3,5)]
    by (simp add: idle_refills_def) (simp add: limiter_New_def)
qed

text \<open>
  C37.  The limit itself, in float64 arithmetic and for any interleaving of any principals' calls:
  take the calls in the order in which they got the mutex, with the clock readings they
  brought.  With a burst no larger than what ten minutes refill (so that the idle
  sweep is invisible) and at most 10000 principals, the calls of one principal that are let
  through number at most the burst plus the rate times the length of the run, where every step the
  readings take backwards (a call overtaken between reading the clock and locking) is counted into
  that length again, up to a relative error of 2^-50 per call for the roundings.  With the
  readings in order (setbacks_sorted) the length is simply the last reading less the
  first; that a stale reading really is granted its refill twice is stale_readings_regrant.
\<close>

theorem admission_bound:
  assumes "0 < perMinute" "perMinute < 2 ^ 53" "0 < burst" "burst < 2 ^ 53" "burst \<le> 10 * perMinute"
    and "map fst cs = t0 # ts" "\<forall>(now, k) \<in> set cs. k \<noteq> []" "card (snd ` set cs) \<le> 10000"
  shows "of_nat (admitted key cs (fst (limiter_run cs (limiter_New perMinute burst)))) \<le>
    (of_int burst + seconds_of (last (t0 # ts) - t0 + setbacks (t0 # ts)) * (of_int perMinute / 60)) *
    (1 + of_nat (length cs) / 2 ^ 50 :: rat)"
proof -
  let ?l = "limiter_New perMinute burst" and ?n = "of_nat (length cs) :: rat"
  let ?s = "seconds_of (last (t0 # ts) - t0 + setbacks (t0 # ts))"
  note new = New_fields [OF assms(1-4)]
  have s: "0 \<le> ?s" by (rule seconds_of_nonneg [OF run_length])
  obtain oks l' where run: "limiter_run cs ?l = (oks, l')" by (cases "limiter_run cs ?l")
  have "of_nat (admitted key cs oks) \<le> allowance ?l t0 key +
      seconds_of (last (t0 # map fst cs) - t0 + setbacks (t0 # map fst cs)) * lm_rate ?l + ?n * (lm_burst ?l / 2 ^ 50)"
    using limiter_New_inv [OF assms(1-4)] New_idle_refills [OF assms(1-3,5,4)] assms(7,8) run
    by (intro limiter_run_bound [where K = "snd ` set cs"]) (simp_all add: limiter_New_def)
  moreover have "allowance ?l t0 key = of_int burst" using new(1) by (simp add: allowance_def limiter_New_def)
  ultimately have bound: "of_nat (admitted key cs oks) \<le>
      of_int burst + ?s * f64 (of_int perMinute / 60) + ?n * (of_int burst / 2 ^ 50)"
    by (simp add: assms(6) new)
  have "1 \<le> length cs" using assms(6) by (cases cs) auto
  then have n: "1 \<le> ?n" by (metis of_nat_1 of_nat_le_iff)
  have "f64 (of_int perMinute / 60) \<le> (of_int perMinute / 60 :: rat) * (1 + 1 / 2 ^ 53)"
    using assms(1) by (intro f64_up) simp
  also have "\<dots> \<le> of_int perMinute / 60 * (1 + ?n / 2 ^ 50)"
    using assms(1) n by (intro mult_left_mono) simp_all
  finally have "?s * f64 (of_int perMinute / 60) \<le> ?s * (of_int perMinute / 60 * (1 + ?n / 2 ^ 50))"
    by (rule mult_left_mono [OF _ s])
  with bound have "of_nat (admitted key cs oks) \<le>
      of_int burst + ?s * (of_int perMinute / 60 * (1 + ?n / 2 ^ 50)) + ?n * (of_int burst / 2 ^ 50)" by linarith
  also have "\<dots> = (of_int burst + ?s * (of_int perMinute / 60)) * (1 + ?n / 2 ^ 50)"
    by (simp add: algebra_simps)
  finally show ?thesis by (simp only: run fst_conv)
qed

text \<open>
  A divergence from the limit (limiter.go, Allow): seen is set to the call's reading even when
  that is older than what is stored, so after an overtaken call the same second is refilled
  again.  One call a second and a burst of one let three calls through within one second.
\<close>

theorem stale_readings_regrant:
  "fst (limiter_run (map (\<lambda>t. (t * ns_per_second, ''USR-000001'')) [1, 2, 1, 2]) (limiter_New 60 1)) =
     [True, True, False, True]"
proof -
  have [simp]: "f64 60 = 60" "f64 1 = 1" "f64 (-1) = -1" "f64 2 = 2"
    using f64_of_int [of 60] f64_of_int [of 1] f64_of_int [of "-1"] f64_of_int [of 2] by simp_all
  show ?thesis
    by (simp add: limiter_Allow_def limiter_New_def Enabled_def sweepLocked_def refill_def Let_def
        ns_per_second_def Seconds_def)
qed

text \<open>
  A refused call is told to wait at least a second, and the wait is enough: the same principal
  calling again any time after it (by more than two nanoseconds, for the truncation and the
  roundings) is let through, the other principals' calls in between aside.
\<close>

lemma wait_long_enough:
  assumes "0 \<le> t" "t < 1" "0 < r"
  shows "(1 - t) / r * (1 - 1 / 2 ^ 53) ^ 3 \<le> f64 (f64 (f64 (1 - t) / r) * of_int ns_per_second) / of_int ns_per_second"
proof -
  let ?d = "1 - 1 / 2 ^ 53 :: rat" and ?N = "of_int ns_per_second :: rat"
  have N: "0 < ?N" by (simp add: ns_per_second_def)
  have "(1 - t) * ?d / r \<le> f64 (1 - t) / r"
    using assms by (intro divide_right_mono f64_down) simp_all
  then have "(1 - t) / r * ?d ^ Suc 1 \<le> f64 (f64 (1 - t) / r)"
    using assms by (intro round_down_chain) simp_all
  then have "(1 - t) / r * ?d ^ Suc 1 * ?N \<le> f64 (f64 (1 - t) / r) * ?N"
    using N by (intro mult_right_mono) simp_all
  then have "((1 - t) / r * ?N) * ?d ^ Suc 1 \<le> f64 (f64 (1 - t) / r) * ?N" by (simp only: mult_ac)
  moreover have "0 \<le> (1 - t) / r * ?N" using assms N by simp
  ultimately have "((1 - t) / r * ?N) * ?d ^ Suc (Suc 1) \<le> f64 (f64 (f64 (1 - t) / r) * ?N)"
    by (intro round_down_chain)
  moreover have "Suc (Suc 1) = 3" by simp
  ultimately have "((1 - t) / r * ?N) * ?d ^ 3 \<le> f64 (f64 (f64 (1 - t) / r) * ?N)" by (simp only:)
  from divide_right_mono [OF this, of ?N] N show ?thesis by simp
qed

lemma refill_down:
  assumes "0 \<le> bk_tokens b" "0 \<le> lm_rate l" "0 < now - bk_seen b"
  shows "min (lm_burst l) ((bk_tokens b + seconds_of (now - bk_seen b) * lm_rate l) * (1 - 1 / 2 ^ 53) ^ 5)
    \<le> bk_tokens (refill l now b)"
proof -
  let ?d = "1 - 1 / 2 ^ 53 :: rat" and ?S = "Seconds (now - bk_seen b)"
  define y where "y = seconds_of (now - bk_seen b) * lm_rate l"
  have y: "0 \<le> y" using assms(2,3) seconds_of_nonneg by (simp add: y_def)
  have "y * ?d ^ 3 = seconds_of (now - bk_seen b) * ?d ^ 3 * lm_rate l" by (simp add: y_def)
  also have "\<dots> \<le> ?S * lm_rate l"
    using assms(2,3) by (intro mult_right_mono Seconds_bounds(2)) simp_all
  finally have "y * ?d ^ Suc 3 \<le> f64 (?S * lm_rate l)" by (rule round_down_chain [OF y])
  moreover have "bk_tokens b * ?d ^ Suc 3 \<le> bk_tokens b * 1"
    using assms(1) by (intro mult_left_mono power_le_one) simp_all
  ultimately have "(bk_tokens b + y) * ?d ^ Suc 3 \<le> bk_tokens b + f64 (?S * lm_rate l)"
    unfolding distrib_right by linarith
  then have "(bk_tokens b + y) * ?d ^ Suc (Suc 3) \<le> f64 (bk_tokens b + f64 (?S * lm_rate l))"
    using assms(1) y by (intro round_down_chain) simp_all
  moreover have "Suc (Suc 3) = 5" by simp
  ultimately have "(bk_tokens b + y) * ?d ^ 5 \<le> f64 (bk_tokens b + f64 (?S * lm_rate l))" by (simp only:)
  moreover have "0 < ?S" using assms(3) by (simp add: Seconds_pos)
  then have "bk_tokens (refill l now b) = min (lm_burst l) (f64 (bk_tokens b + f64 (?S * lm_rate l)))"
    by (simp add: refill_def Let_def min_def)
  ultimately show ?thesis unfolding y_def [symmetric] by (auto simp: min_def)
qed

lemma rate_at_least:
  assumes "0 < perMinute"
  shows "1 / 61 \<le> (f64 (of_int perMinute / 60) :: rat)"
proof -
  have "1 / 60 \<le> (of_int perMinute / 60 :: rat)" using assms by simp
  then have "1 / 60 * (1 - 1 / 2 ^ 53) \<le> (of_int perMinute / 60 :: rat) * (1 - 1 / 2 ^ 53)"
    by (rule mult_right_mono) simp
  also have "\<dots> \<le> f64 (of_int perMinute / 60)" using assms by (intro f64_down) simp
  finally have "1 / 60 * (1 - 1 / 2 ^ 53) \<le> (f64 (of_int perMinute / 60) :: rat)" .
  moreover have "1 / 61 \<le> (1 / 60 * (1 - 1 / 2 ^ 53) :: rat)" by simp
  ultimately show ?thesis by linarith
qed

lemma a_token_again:
  assumes "0 \<le> t" "t < 1" "1 / 61 \<le> r"
    and "(1 - t) / r * (1 - 1 / 2 ^ 53) ^ 3 + 1 / 1000000000 \<le> s"
  shows "1 \<le> (t + s * r) * (1 - 1 / 2 ^ 53 :: rat) ^ 5"
proof -
  let ?d = "1 - 1 / 2 ^ 53 :: rat"
  have "((1 - t) / r * ?d ^ 3 + 1 / 1000000000) * r \<le> s * r" using assms(3,4) by (intro mult_right_mono) simp_all
  moreover have "((1 - t) / r * ?d ^ 3 + 1 / 1000000000) * r = (1 - t) * ?d ^ 3 + r / 1000000000"
    using assms(3) by (simp add: distrib_right)
  moreover have "(1 - t) * (1 - 4 / 2 ^ 53) \<le> (1 - t) * ?d ^ 3"
    using assms(2) by (intro mult_left_mono) (simp_all add: power_divide)
  moreover have "1 - t - 4 / 2 ^ 53 \<le> (1 - t) * (1 - 4 / 2 ^ 53)" using assms(1) by (simp add: algebra_simps)
  moreover have "1 / 61 / 1000000000 \<le> r / 1000000000" using assms(3) by (rule divide_right_mono) simp
  ultimately have "1 - 4 / 2 ^ 53 + 1 / 61 / 1000000000 \<le> t + s * r" by linarith
  then have "(1 - 4 / 2 ^ 53 + 1 / 61 / 1000000000) * ?d ^ 5 \<le> (t + s * r) * ?d ^ 5"
    by (rule mult_right_mono) simp
  moreover have "1 \<le> (1 - 4 / 2 ^ 53 + 1 / 61 / 1000000000) * ?d ^ 5" by (simp add: power_divide)
  ultimately show ?thesis by linarith
qed

theorem refused_wait_is_enough:
  assumes "0 < perMinute" "perMinute < 2 ^ 53" "0 < burst" "burst < 2 ^ 53"
    and "\<forall>(t, k) \<in> set cs. k \<noteq> []" "key \<noteq> []"
    and "limiter_run cs (limiter_New perMinute burst) = (oks, l)"
    and "limiter_Allow now key l = (False, wait, l1)" "now + wait + 1 < later"
  shows "ns_per_second \<le> wait \<and> fst (limiter_Allow later key l1)"
proof -
  have inv: "limiter_inv l"
    using limiter_run_inv [OF limiter_New_inv [OF assms(1-4)] assms(5)] assms(7) by simp
  then have en: "Enabled l" by (simp add: limiter_inv_def)
  have "snd (limiter_run cs (limiter_New perMinute burst)) = l" using assms(7) by simp
  then have "lm_burst l = of_int burst" "lm_rate l = f64 (of_int perMinute / 60)"
    using limiter_run_params [of cs "limiter_New perMinute burst"] New_fields [OF assms(1-4)] by auto
  then have burst: "1 \<le> lm_burst l" and r: "1 / 61 \<le> lm_rate l"
    using assms(3) rate_at_least [OF assms(1)] by simp_all
  note p = limiter_Allow_params [OF assms(8)]
  define e where "e = entry_of l now key"
  let ?t = "bk_tokens e" and ?s = "seconds_of (later - now)"
  have refused: "?t < 1" and t: "0 \<le> ?t"
    using limiter_Allow_ok [OF en assms(8)] entry_allowance(2) [OF inv] by (simp_all add: e_def)
  let ?W = "f64 (f64 (f64 (1 - ?t) / lm_rate l) * of_int ns_per_second)"
  have w: "wait = max ns_per_second \<lfloor>?W\<rfloor>"
    using assms(8) en refused
    by (auto simp: limiter_Allow_def e_def entry_of_def Let_def max_def split: if_splits option.splits)
  have m: "map_of (lm_buckets l1) key = Some e"
    using limiter_Allow_buckets [OF en assms(8)] refused by (simp add: stored_entry update_conv' e_def)
  have "?W + 1 \<le> of_int (wait + 2)" using w by simp linarith
  also have "\<dots> \<le> of_int (later - now)" using assms(9) by (simp only: of_int_le_iff)
  finally have "(?W + 1) / of_int ns_per_second \<le> ?s"
    unfolding seconds_of_def by (rule divide_right_mono) (simp add: ns_per_second_def)
  moreover have "(1 - ?t) / lm_rate l * (1 - 1 / 2 ^ 53) ^ 3 \<le> ?W / of_int ns_per_second"
    using t refused r by (intro wait_long_enough) simp_all
  ultimately have "(1 - ?t) / lm_rate l * (1 - 1 / 2 ^ 53) ^ 3 + 1 / 1000000000 \<le> ?s"
    unfolding add_divide_distrib unfolding ns_per_second_def of_int_numeral by linarith
  from a_token_again [OF t refused r this] burst
  have "1 \<le> min (lm_burst l1) ((?t + seconds_of (later - bk_seen e) * lm_rate l1) * (1 - 1 / 2 ^ 53) ^ 5)"
    by (simp add: p e_def)
  also have "\<dots> \<le> bk_tokens (refill l1 later e)"
    using t r assms(9) w by (intro refill_down) (auto simp: p e_def ns_per_second_def)
  finally have "1 \<le> bk_tokens (entry_of l1 later key)" by (simp add: entry_of_def m)
  moreover have "Enabled l1" using en by (simp add: Enabled_def p)
  ultimately have "fst (limiter_Allow later key l1)"
    using limiter_Allow_ok [of l1 later key] by (cases "limiter_Allow later key l1") auto
  then show ?thesis using w by simp
qed

theorem limiter_bounded_witness:
  "Tracked (snd (limiter_run [(0, ''USR-000001'')] (limiter_New 60 1))) \<le> 10000"
  using limiter_bounded [of 60 1 "[(0, ''USR-000001'')]"]
  by (cases "limiter_run [(0, ''USR-000001'')] (limiter_New 60 1)") simp

text \<open>Five calls in a hundredth of a second, one of them with a stale reading: two and a bit at most.\<close>

theorem admission_bound_witness:
  "let cs = [(2000000, ''USR-000001''), (6000000, ''SVC-000001''), (9000000, ''USR-000001''),
             (8000000, ''USR-000001''), (10000000, ''USR-000001'')]
   in of_nat (admitted ''USR-000001'' cs (fst (limiter_run cs (limiter_New 60 2)))) \<le>
        (2 + 9 / 1000 :: rat) * (1 + 5 / 2 ^ 50)"
  using admission_bound [of 60 2
      "[(2000000, ''USR-000001''), (6000000, ''SVC-000001''), (9000000, ''USR-000001''),
        (8000000, ''USR-000001''), (10000000, ''USR-000001'')]" 2000000 "[6000000, 9000000, 8000000, 10000000]"
      "''USR-000001''"]
  by (simp add: card_insert_if seconds_of_def ns_per_second_def Let_def del: limiter_run.simps)

theorem refused_wait_is_enough_witness:
  "fst (limiter_Allow (ns_per_second + 2) ''USR-000001''
     (snd (snd (limiter_Allow 0 ''USR-000001''
       (snd (limiter_run [(0, ''USR-000001'')] (limiter_New 60 1)))))))"
proof -
  let ?l = "snd (limiter_run [(0, ''USR-000001'')] (limiter_New 60 1))"
  obtain oks where run: "limiter_run [(0, ''USR-000001'')] (limiter_New 60 1) = (oks, ?l)"
    by (metis prod.collapse)
  have [simp]: "f64 60 = 60" "f64 1 = 1" "f64 1000000000 = 1000000000"
    using f64_of_int [of 60] f64_of_int [of 1] f64_of_int [of 1000000000] by simp_all
  obtain l1 where al: "limiter_Allow 0 ''USR-000001'' ?l = (False, ns_per_second, l1)"
    by (simp add: limiter_Allow_def limiter_New_def Enabled_def sweepLocked_def refill_def Let_def
        ns_per_second_def Seconds_def)
  show ?thesis
    unfolding al snd_conv
    by (rule refused_wait_is_enough [OF _ _ _ _ _ _ run al, of "ns_per_second + 2", THEN conjunct2]) simp_all
qed

text \<open>
  The source says a dropped idle bucket comes back in the same state it would have refilled
  into.  That needs a burst of at most ten minutes of refill, which New does not enforce.
  A principal spends its burst, pauses while another one calls, and comes back.
\<close>

definition pausing_calls :: "string \<Rightarrow> string \<Rightarrow> nat \<Rightarrow> int \<Rightarrow> (int \<times> string) list" where
  "pausing_calls u v n pause = replicate n (0, u) @ (pause, v) # replicate n (pause, u)"

lemma update_last: "k \<notin> fst ` set pre \<Longrightarrow> AList.update k b (pre @ [(k, c)]) = pre @ [(k, b)]"
  by (induction pre) auto

lemma update_new: "k \<notin> fst ` set pre \<Longrightarrow> AList.update k b pre = pre @ [(k, b)]"
  by (induction pre) auto

lemma refill_now: "bk_seen b = t \<Longrightarrow> refill l t b = b"
  by (simp add: refill_def Let_def Seconds_pos)

lemma f64_count: "m < 2 ^ 53 \<Longrightarrow> f64 (of_nat (Suc m) - 1) = of_nat m"
  using f64_of_nat [of m] by simp

lemma drain:
  assumes "Enabled l" "lm_buckets l = pre @ [(k, \<lparr> bk_tokens = of_nat (m + n), bk_seen = t \<rparr>)]"
    and "k \<notin> fst ` set pre" "m + n < 2 ^ 53"
  shows "limiter_run (replicate n (t, k)) l =
    (replicate n True, l \<lparr> lm_buckets := pre @ [(k, \<lparr> bk_tokens = of_nat m, bk_seen = t \<rparr>)] \<rparr>)"
  using assms
proof (induction n arbitrary: l)
  case 0
  then show ?case by simp
next
  case (Suc n)
  let ?b = "\<lparr> bk_tokens = of_nat (m + Suc n), bk_seen = t \<rparr>"
  have "map_of pre k = None" using Suc.prems(3) by (simp only: map_of_eq_None_iff not_False_eq_True)
  then have m: "map_of (lm_buckets l) k = Some ?b" by (simp add: Suc.prems(2) map_add_def)
  let ?l1 = "l \<lparr> lm_buckets := pre @ [(k, \<lparr> bk_tokens = of_nat (m + n), bk_seen = t \<rparr>)] \<rparr>"
  have take: "f64 (of_nat (m + Suc n) - 1) = of_nat (m + n)" using Suc.prems(4) f64_count [of "m + n"] by simp
  have one: "limiter_Allow t k l = (True, 0, ?l1)"
    unfolding limiter_Allow_def Let_def m using Suc.prems take
    by (simp add: refill_now update_last del: of_nat_add of_nat_Suc)
  have "limiter_run (replicate n (t, k)) ?l1 =
      (replicate n True, ?l1 \<lparr> lm_buckets := pre @ [(k, \<lparr> bk_tokens = of_nat m, bk_seen = t \<rparr>)] \<rparr>)"
    using Suc.prems by (intro Suc.IH) (auto simp: Enabled_def)
  then show ?case by (simp add: one)
qed

lemma fresh_drain:
  assumes "Enabled l" "sweepLocked t l = l" "k \<notin> fst ` set (lm_buckets l)" "lm_burst l = of_nat n" "n < 2 ^ 53"
  shows "limiter_run (replicate n (t, k)) l =
    (replicate n True, l \<lparr> lm_buckets := lm_buckets l @ [(k, \<lparr> bk_tokens = 0, bk_seen = t \<rparr>)] \<rparr>)"
proof (cases n)
  case 0
  then show ?thesis using assms(1,4) by (simp add: Enabled_def)
next
  case (Suc m)
  have none: "map_of (lm_buckets l) k = None" using assms(3) by (simp add: map_of_eq_None_iff)
  let ?l1 = "l \<lparr> lm_buckets := lm_buckets l @ [(k, \<lparr> bk_tokens = of_nat (0 + m), bk_seen = t \<rparr>)] \<rparr>"
  have take: "f64 (lm_burst l - 1) = of_nat m" using assms(4,5) Suc f64_of_nat [of m] by simp
  have one: "limiter_Allow t k l = (True, 0, ?l1)"
    using assms Suc take by (simp add: limiter_Allow_def none Let_def update_new)
  have "limiter_run (replicate m (t, k)) ?l1 =
    (replicate m True, ?l1 \<lparr> lm_buckets := lm_buckets l @ [(k, \<lparr> bk_tokens = of_nat 0, bk_seen = t \<rparr>)] \<rparr>)"
    using assms(1,3,5) Suc by (intro drain) (auto simp: Enabled_def)
  then show ?thesis by (simp add: Suc one)
qed

lemma limiter_run_append:
  "limiter_run (cs @ ds) l =
     (case limiter_run cs l of (oks, l1) \<Rightarrow>
        (case limiter_run ds l1 of (oks', l2) \<Rightarrow> (oks @ oks', l2)))"
  by (induction cs l rule: limiter_run.induct) (auto split: prod.splits)

lemma admitted_append:
  "length cs = length oks \<Longrightarrow>
   admitted k (cs @ ds) (oks @ oks') = admitted k cs oks + admitted k ds oks'"
  by (simp add: admitted_def)

lemma admitted_replicate:
  "admitted k (replicate n (t, u)) (replicate n True) = (if k = u then n else 0)"
  by (induction n) (simp_all add: admitted_def)

text \<open>
  A divergence from the documented limit: when the burst is more than the refill of the pause,
  a pause just over ten minutes gives a principal its whole burst twice, more than the burst and
  the refill together, because the sweep drops its bucket and a new one starts full.
\<close>

theorem idle_sweep_overgrants:
  assumes "0 < perMinute" "perMinute < 2 ^ 53" "n < 2 ^ 53" "u \<noteq> v" "600 * ns_per_second < pause"
    and "seconds_of pause * (of_int perMinute / 60) < (of_nat n :: rat)"
  shows "admitted u (pausing_calls u v n pause)
      (fst (limiter_run (pausing_calls u v n pause) (limiter_New perMinute (int n)))) = 2 * n \<and>
    (of_nat n + seconds_of pause * (of_int perMinute / 60) :: rat) < of_nat (2 * n)"
proof -
  let ?l = "limiter_New perMinute (int n)"
  have "0 < ns_per_second" by (simp add: ns_per_second_def)
  then have "0 < seconds_of pause * (of_int perMinute / 60 :: rat)" using assms(1,5) by simp
  then have n: "0 < n" using assms(6) by (cases n) auto
  then have "0 < int n" "int n < 2 ^ 53" using assms(3) by simp_all
  note new = New_fields [OF assms(1,2) this]
  then have en: "Enabled ?l" by simp
  have b: "lm_burst ?l = of_nat n" using new by simp
  let ?l1 = "?l \<lparr> lm_buckets := [(u, \<lparr> bk_tokens = 0, bk_seen = 0 \<rparr>)] \<rparr>"
  have r1: "limiter_run (replicate n (0, u)) ?l = (replicate n True, ?l1)"
    using en b assms(3) by (subst fresh_drain) (auto simp: limiter_New_def sweepLocked_def)
  let ?v = "\<lparr> bk_tokens = f64 (of_nat n - 1), bk_seen = pause \<rparr>"
  let ?l2 = "?l \<lparr> lm_buckets := [(v, ?v)] \<rparr>"
  have s: "sweepLocked pause ?l1 = ?l"
    using assms(5) by (simp add: limiter_New_def sweepLocked_def is_idle_def)
  have al: "limiter_Allow pause v ?l1 = (True, 0, ?l2)"
    using assms(4) en n b s by (simp add: limiter_Allow_def Enabled_def Let_def) (simp add: limiter_New_def)
  let ?l3 = "?l \<lparr> lm_buckets := [(v, ?v), (u, \<lparr> bk_tokens = 0, bk_seen = pause \<rparr>)] \<rparr>"
  have r2: "limiter_run (replicate n (pause, u)) ?l2 = (replicate n True, ?l3)"
    using en b assms(3,4)
    by (subst fresh_drain) (auto simp: limiter_New_def sweepLocked_def is_idle_def Enabled_def ns_per_second_def)
  have "fst (limiter_run (pausing_calls u v n pause) ?l) = replicate n True @ True # replicate n True"
    unfolding pausing_calls_def limiter_run_append by (simp add: r1 al r2)
  moreover have "admitted u (pausing_calls u v n pause) (replicate n True @ True # replicate n True) = 2 * n"
    unfolding pausing_calls_def using assms(4)
    by (simp add: admitted_append admitted_Cons admitted_replicate)
  ultimately show ?thesis using assms(6) by simp
qed

theorem idle_sweep_overgrants_witness:
  "admitted ''USR-000001'' (pausing_calls ''USR-000001'' ''USR-000002'' 12 (601 * ns_per_second))
     (fst (limiter_run (pausing_calls ''USR-000001'' ''USR-000002'' 12 (601 * ns_per_second))
        (limiter_New 1 12))) = 24"
  using idle_sweep_overgrants [of 1 12 "''USR-000001''" "''USR-000002''" "601 * ns_per_second"]
  by (simp add: seconds_of_def ns_per_second_def)

end
