(* ===== verification/Platform.thy ===== *)
theory Platform
  imports GlobalIds
begin

section \<open>The platform state the business handlers share\<close>

text \<open>
  The tables beside those of theory Database, as lists of rows in insertion order: notifications and
  who read them, servers and what was reported about them, support records with their relations and
  SLA targets, and relationships between Global IDs; the message bus; and the checks that several
  handlers make (cmd/server/main.go, operations\_business.go).  A nullable text column that the code
  reads with COALESCE and writes with NULLIF is a string, the empty one for NULL.  A BIGSERIAL column is
  a counter kept in the state; the gaps that failed inserts leave in it are not modelled.  Instants are
  nanoseconds; their printed form is not modelled.
\<close>

subsection \<open>Rows\<close>

record Notification =
  nt_ID :: int
  nt_Event :: string
  nt_Source :: string
  nt_Severity :: string
  nt_Title :: string
  nt_Body :: string
  nt_DeepLink :: string
  nt_EntityID :: string
  nt_TenantID :: string
  nt_RecipientID :: string
  nt_AudiencePermission :: string
  nt_CorrelationID :: string
  nt_OccurredAt :: int
  nt_Read :: bool

record NotificationRow =
  nr_Note :: Notification
  nr_Recipient :: "string option"
  nr_Audience :: "string option"

record Server =
  sr_ID :: string
  sr_Name :: string
  sr_Environment :: string
  sr_Status :: string
  sr_ClientID :: string
  sr_ProjectID :: string
  sr_Source :: string
  sr_SourceID :: string
  sr_LastEventAt :: "int option"
  sr_CreatedAt :: int

record Report =
  rt_ID :: int
  rt_ServerID :: string
  rt_Event :: string
  rt_Severity :: string
  rt_Summary :: string
  rt_Source :: string
  rt_CorrelationID :: string
  rt_OccurredAt :: int

record Relation =
  rn_EntityType :: string
  rn_GlobalID :: string

record SLA =
  sla_State :: string
  sla_RespondBy :: "int option"
  sla_ResolveBy :: "int option"

record SupportRecord =
  sp_ID :: string
  sp_Kind :: string
  sp_Title :: string
  sp_Summary :: string
  sp_Severity :: string
  sp_Status :: string
  sp_ClientID :: string
  sp_Relations :: "Relation list"
  sp_ReportedBy :: string
  sp_CreatedAt :: int
  sp_UpdatedAt :: int
  sp_AcknowledgedAt :: "int option"
  sp_ResolvedAt :: "int option"
  sp_SLA :: SLA

record Relationship =
  rl_ID :: int
  rl_FromGlobalID :: string
  rl_RelationType :: string
  rl_ToGlobalID :: string
  rl_CreatedByUserID :: string
  rl_CreatedByServiceID :: string
  rl_CreatedAt :: int

record Platform =
  pf_db :: DB
  pf_bus :: "(string \<times> Envelope) list"
  pf_notifications :: "NotificationRow list"
  pf_reads :: "(int \<times> string) list"
  pf_notification_seq :: int
  pf_servers :: "Server list"
  pf_reports :: "Report list"
  pf_report_seq :: int
  pf_support :: "SupportRecord list"
  pf_support_relations :: "(string \<times> Relation) list"
  pf_sla_policies :: "(string \<times> int \<times> int) list"
  pf_relationships :: "Relationship list"
  pf_relationship_seq :: int

subsection \<open>The bus and the audit trail\<close>

text \<open>publish: a message lost because the bus is away is counted and forgotten.\<close>

definition publish :: "down \<Rightarrow> string \<Rightarrow> Envelope \<Rightarrow> Platform \<Rightarrow> Platform" where
  "publish down subject payload pf =
     (if down ''bus'' then pf else pf \<lparr> pf_bus := pf_bus pf @ [(subject, payload)] \<rparr>)"

definition audit_pf ::
  "down \<Rightarrow> HttpContext \<Rightarrow> meResponse \<Rightarrow> string \<Rightarrow> string \<Rightarrow> string \<Rightarrow> (string \<times> string) list
   \<Rightarrow> Platform \<Rightarrow> Platform" where
  "audit_pf down hx access action resourceType resourceID metadata pf =
     pf \<lparr> pf_db := audit down hx access action resourceType resourceID metadata (pf_db pf) \<rparr>"

subsection \<open>Authorization in the handlers\<close>

definition principal_of :: "meResponse \<Rightarrow> Principal" where
  "principal_of access = \<lparr> pr_ID = me_ID access, pr_Kind = KindUser, pr_Roles = me_Roles access,
     pr_Permissions = me_Permissions access \<rparr>"

definition writeDenied :: "Decision \<Rightarrow> 'b Reply" where
  "writeDenied d = reply_error 403 (dc_Reason d) (dc_Code d)"

definition notFound :: "'b Reply" where
  "notFound = reply_error 404 ''resource not found'' ''not_found''"

definition authz_unavailable :: "'b Reply" where
  "authz_unavailable = reply_error 503 ''authorization store unavailable'' []"

text \<open>The state the handler runs on is arbitrary; db is the database at that moment.\<close>

definition authorize ::
  "down \<Rightarrow> DB \<Rightarrow> Principal \<Rightarrow> string \<Rightarrow> ('s \<Rightarrow> 'b Reply \<times> 's) \<Rightarrow> 's \<Rightarrow> 'b Reply \<times> 's" where
  "authorize down db p permission next st =
     (case Evaluate (platform_authz down db) p permission Global of
        Inl _ \<Rightarrow> (authz_unavailable, st)
      | Inr d \<Rightarrow> if dc_Allowed d then next st else (writeDenied d, st))"

text \<open>The answer authorizeResource has written, or None when the caller may proceed.\<close>

definition authorizeResource ::
  "down \<Rightarrow> DB \<Rightarrow> Principal \<Rightarrow> string \<Rightarrow> string \<Rightarrow> string \<Rightarrow> 'b Reply option" where
  "authorizeResource down db p permission scopeType scopeID =
     (case Evaluate (platform_authz down db) p permission (Resource scopeType scopeID) of
        Inl _ \<Rightarrow> Some authz_unavailable
      | Inr d \<Rightarrow> if dc_Allowed d then None else Some (writeDenied d))"

text \<open>
  The two checks of every detail endpoint: before the lookup, whether a caller who is not confined
  holds the permission at all; after it, whether the caller may reach this resource.
\<close>

definition may_look :: "down \<Rightarrow> DB \<Rightarrow> Principal \<Rightarrow> string \<Rightarrow> 'b Reply option" where
  "may_look down db p permission =
     (if IsConfined (platform_authz down db) p then None
      else authorizeResource down db p permission ScopeGlobal ''*'')"

definition may_reach :: "down \<Rightarrow> DB \<Rightarrow> Principal \<Rightarrow> string \<Rightarrow> string \<times> string \<Rightarrow> 'b Reply option" where
  "may_reach down db p permission scope =
     (case Evaluate (platform_authz down db) p permission (Resource (fst scope) (snd scope)) of
        Inl _ \<Rightarrow> Some authz_unavailable
      | Inr d \<Rightarrow>
          if dc_Allowed d then None
          else Some (if IsConfined (platform_authz down db) p then notFound else writeDenied d))"

subsection \<open>Relations named in a request\<close>

definition resolveRelation ::
  "down \<Rightarrow> DB \<Rightarrow> string \<Rightarrow> string \<Rightarrow> string \<Rightarrow> 'b Reply + string" where
  "resolveRelation down db globalID0 entityType field =
     (let globalID = TrimSpace globalID0
      in if globalID = [] then Inr []
         else case ResolveGlobalEntity down globalID db of
           Inl _ \<Rightarrow> Inl (reply_error 400 (field @ '' does not name a known '' @ entityType) ''invalid_relation'')
         | Inr e \<Rightarrow>
             if ge_EntityType e = entityType then Inr globalID
             else Inl (reply_error 400 (field @ '' does not name a known '' @ entityType) ''invalid_relation''))"

lemma resolveRelation_ok:
  "resolveRelation down db g t field = Inr i \<Longrightarrow>
     i = TrimSpace g \<and> (i = [] \<or> (\<exists>e \<in> set (db_entities db). ge_GlobalID e = i \<and> ge_EntityType e = t))"
  by (auto simp: resolveRelation_def Let_def ResolveGlobalEntity_def bind_result_def statement_def find_Some_iff
      split: if_splits sum.splits option.splits)

subsection \<open>What the detail checks let through\<close>

text \<open>A caller with a grant that covers the scope, or with the permission and no confinement.\<close>

lemma may_look_confined [simp]:
  "IsConfined (platform_authz down db) p \<Longrightarrow> may_look down db p perm = None"
  by (simp add: may_look_def)

lemma may_reach_None:
  "may_reach down db p perm sc = None \<longleftrightarrow>
     (\<exists>d. Evaluate (platform_authz down db) p perm (Resource (fst sc) (snd sc)) = Ok d \<and> dc_Allowed d)"
  by (auto simp: may_reach_def split: sum.splits)

lemma may_look_None:
  "may_look down db p perm = None \<longleftrightarrow> IsConfined (platform_authz down db) p \<or>
     (\<exists>d. Evaluate (platform_authz down db) p perm (Resource ScopeGlobal ''*'') = Ok d \<and> dc_Allowed d)"
  by (auto simp: may_look_def authorizeResource_def split: sum.splits)

lemma confined_reach_answer:
  assumes "IsConfined (platform_authz down db) p" "\<not> down ''scope_check''"
    and "may_reach down db p perm sc = Some r"
  shows "r = notFound \<or> r = authz_unavailable \<and> (\<exists>e. Evaluate (platform_authz down db) p perm
     (Resource (fst sc) (snd sc)) = Err e)"
  using assms by (auto simp: may_reach_def split: sum.splits if_splits)

text \<open>
  Stored authority over one resource: an administrator's, or a row of principal\_scopes that names the
  caller, the permission (or all) and the scope, its whole type, or everything.
\<close>

definition granted :: "DB \<Rightarrow> Principal \<Rightarrow> string \<Rightarrow> string \<times> string \<Rightarrow> bool" where
  "granted db p perm scope \<longleftrightarrow> pr_ID p \<noteq> [] \<and>
     (PermissionAll \<in> set (pr_Permissions p) \<or>
      (\<exists>g \<in> set (db_scopes db). scope_row_covers g (pr_Kind p) (pr_ID p) (fst scope) (snd scope) perm))"

definition asks :: "string \<Rightarrow> bool" where
  "asks perm \<longleftrightarrow> perm \<noteq> [] \<and> TrimSpace perm = perm"

lemma confined_evaluation:
  assumes "''Customer'' \<in> set (pr_Roles p)" "pr_Kind p = KindUser" "asks perm" "\<not> down ''scope_check''" "ty \<noteq> []"
  shows "\<exists>d. Evaluate (platform_authz down db) p perm (Resource ty i) = Ok d \<and>
    (dc_Allowed d \<longleftrightarrow> granted db p perm (ty, i))"
proof -
  have sc: "scoped (platform_authz down db) p perm (Resource ty i) = Ok (\<exists>g \<in> set (db_scopes db).
      scope_row_covers g (pr_Kind p) (pr_ID p) ty i perm)"
    using assms by (subst platform_scoped) (simp_all add: Resource_def)
  show ?thesis
    using assms(1,3) sc
    by (auto simp: Evaluate_def Let_def hasPermission_def IsConfined_def granted_def asks_def PermissionAll_def)
qed

lemma may_reach_confined:
  assumes "''Customer'' \<in> set (pr_Roles p)" "pr_Kind p = KindUser" "asks perm" "\<not> down ''scope_check''"
    "fst scope \<noteq> []"
  shows "may_reach down db p perm scope = (if granted db p perm scope then None else Some notFound)"
proof -
  obtain d where "Evaluate (platform_authz down db) p perm (Resource (fst scope) (snd scope)) = Ok d"
    "dc_Allowed d \<longleftrightarrow> granted db p perm scope"
    using confined_evaluation [of p perm down "fst scope" db "snd scope"] assms by auto
  moreover have "IsConfined (platform_authz down db) p" using assms(1) by (auto simp: IsConfined_def)
  ultimately show ?thesis by (simp add: may_reach_def)
qed

lemma may_look_Customer [simp]:
  "''Customer'' \<in> set (pr_Roles p) \<Longrightarrow> may_look down db p perm = None"
  by (auto simp: may_look_def IsConfined_def)

text \<open>The empty platform over a database.\<close>

definition platform_of :: "DB \<Rightarrow> Platform" where
  "platform_of db = \<lparr> pf_db = db, pf_bus = [], pf_notifications = [], pf_reads = [],
     pf_notification_seq = 0, pf_servers = [], pf_reports = [], pf_report_seq = 0, pf_support = [],
     pf_support_relations = [], pf_sla_policies = [], pf_relationships = [], pf_relationship_seq = 0 \<rparr>"

lemma publish_frame [simp]:
  "pf_db (publish down s e pf) = pf_db pf"
  "pf_notifications (publish down s e pf) = pf_notifications pf"
  "pf_reads (publish down s e pf) = pf_reads pf"
  "pf_servers (publish down s e pf) = pf_servers pf"
  "pf_reports (publish down s e pf) = pf_reports pf"
  "pf_support (publish down s e pf) = pf_support pf"
  "pf_support_relations (publish down s e pf) = pf_support_relations pf"
  "pf_relationships (publish down s e pf) = pf_relationships pf"
  "pf_notification_seq (publish down s e pf) = pf_notification_seq pf"
  by (simp_all add: publish_def)

lemma audit_pf_frame [simp]:
  "pf_bus (audit_pf down hx a x y z m pf) = pf_bus pf"
  "pf_notifications (audit_pf down hx a x y z m pf) = pf_notifications pf"
  "pf_reads (audit_pf down hx a x y z m pf) = pf_reads pf"
  "pf_servers (audit_pf down hx a x y z m pf) = pf_servers pf"
  "pf_reports (audit_pf down hx a x y z m pf) = pf_reports pf"
  "pf_support (audit_pf down hx a x y z m pf) = pf_support pf"
  "pf_support_relations (audit_pf down hx a x y z m pf) = pf_support_relations pf"
  "pf_relationships (audit_pf down hx a x y z m pf) = pf_relationships pf"
  by (simp_all add: audit_pf_def)

end
