(* ===== verification/Paging.thy ===== *)
theory Paging
  imports Prelude "HOL-Library.Multiset"
begin

section \<open>Collections walked page by page (cmd/server/business.go)\<close>

text \<open>
  The envelope every list endpoint answers with, and what a caller does with it: ask for a page, then
  for the page its cursor names, until there is no cursor.  follow is that caller; its first argument
  is the endpoint as it answers the k-th call, so the store may change between two calls.  The locale
  paged is the contract of a keyset listing, and its theorem says the caller collects every row once.
\<close>

record 'a collection =
  co_Data :: "'a list"
  co_Total :: int
  co_Limit :: int
  co_NextCursor :: string

definition writeCollection :: "'a list \<Rightarrow> int \<Rightarrow> string \<Rightarrow> 'a collection Reply" where
  "writeCollection items n nextCursor =
     reply 200 \<lparr> co_Data = items, co_Total = n, co_Limit = int (length items),
                 co_NextCursor = nextCursor \<rparr>"

definition page_view :: "('a, 'm) collection_scheme Reply \<Rightarrow> ('a list \<times> string) option" where
  "page_view r = map_option (\<lambda>c. (co_Data c, co_NextCursor c)) (rp_Body r)"

lemma page_view_simps [simp]:
  "page_view (reply s c) = Some (co_Data c, co_NextCursor c)"
  "page_view (reply_error s m k) = None"
  "page_view (writeCollection xs t nxt) = Some (xs, nxt)"
  by (simp_all add: page_view_def reply_def reply_error_def writeCollection_def)

fun follow :: "(nat \<Rightarrow> string \<Rightarrow> ('a list \<times> string) option) \<Rightarrow> nat \<Rightarrow> nat \<Rightarrow> string \<Rightarrow> 'a list option" where
  "follow ask 0 k cursor = None"
| "follow ask (Suc fuel) k cursor =
     (case ask k cursor of
        None \<Rightarrow> None
      | Some (items, nextCursor) \<Rightarrow>
          if nextCursor = [] then Some items
          else (case follow ask fuel (Suc k) nextCursor of
                  None \<Rightarrow> None | Some rest \<Rightarrow> Some (items @ rest)))"

text \<open>An endpoint that answers what another one does, seen through two views, is walked the same way.\<close>

lemma follow_simulates:
  assumes "\<And>k c xs nxt. ask k c = Some (xs, nxt) \<Longrightarrow> \<exists>ys. ask' k c = Some (ys, nxt) \<and> map f ys = map g xs"
  shows "follow ask fuel k c = Some xs \<Longrightarrow> \<exists>ys. follow ask' fuel k c = Some ys \<and> map f ys = map g xs"
proof (induction fuel arbitrary: k c xs)
  case (Suc fuel)
  obtain items nxt where a: "ask k c = Some (items, nxt)"
    using Suc.prems by (auto split: option.splits)
  from assms [OF a] obtain ys where y: "ask' k c = Some (ys, nxt)" "map f ys = map g items" by blast
  show ?case
  proof (cases "nxt = []")
    case True
    then show ?thesis using a y Suc.prems by auto
  next
    case False
    then obtain rest where r: "follow ask fuel (Suc k) nxt = Some rest" "xs = items @ rest"
      using a Suc.prems by (auto split: option.splits)
    from Suc.IH [OF r(1)] obtain zs where "follow ask' fuel (Suc k) nxt = Some zs" "map f zs = map g rest"
      by blast
    then show ?thesis using False y r(2) by auto
  qed
qed simp

text \<open>The cursor of a page of at most n rows: the last row of a full page, none after a short one.\<close>

definition next_of :: "('r \<Rightarrow> string) \<Rightarrow> nat \<Rightarrow> 'r list \<Rightarrow> string" where
  "next_of cursor n page = (if length page = n \<and> page \<noteq> [] then cursor (last page) else [])"

lemma next_of_take:
  assumes "0 < n"
  shows "next_of cursor n (take n xs) = (if n \<le> length xs then cursor (xs ! (n - 1)) else [])"
proof (cases "n \<le> length xs")
  case True
  then have "last (take n xs) = xs ! (n - 1)" using assms by (subst last_conv_nth) auto
  moreover have "xs \<noteq> []" using True assms by auto
  ultimately show ?thesis using True assms by (simp add: next_of_def)
qed (simp add: next_of_def)

locale paged =
  fixes ask :: "nat \<Rightarrow> string \<Rightarrow> ('a list \<times> string) option"
    and view :: "'a \<Rightarrow> 'r" and rows :: "'r list" and cursor :: "'r \<Rightarrow> string" and n :: nat and ok :: bool
  assumes positive: "ok \<Longrightarrow> 0 < n"
    and starts: "ok \<Longrightarrow> \<exists>items. ask 0 [] = Some (items, next_of cursor n (take n rows)) \<and>
      map view items = take n rows"
    and continues: "\<lbrakk>ok; i < length rows\<rbrakk> \<Longrightarrow>
      cursor (rows ! i) \<noteq> [] \<and>
      (\<exists>items. ask (Suc k) (cursor (rows ! i)) = Some (items, next_of cursor n (take n (drop (Suc i) rows))) \<and>
        map view items = take n (drop (Suc i) rows))"
begin

lemma follow_from:
  assumes ok and i: "i < length rows" and fuel: "length rows - i \<le> fuel"
  shows "\<exists>items. follow ask fuel (Suc k) (cursor (rows ! i)) = Some items \<and> map view items = drop (Suc i) rows"
  using i fuel
proof (induction fuel arbitrary: i k)
  case 0
  then show ?case by simp
next
  case (Suc fuel)
  let ?rest = "drop (Suc i) rows"
  from continues [OF \<open>ok\<close> Suc.prems(1), of k] obtain items where
    c: "ask (Suc k) (cursor (rows ! i)) = Some (items, next_of cursor n (take n ?rest))"
       "map view items = take n ?rest" by blast
  show ?case
  proof (cases "n \<le> length ?rest")
    case False
    then have "next_of cursor n (take n ?rest) = []" "take n ?rest = ?rest" by (simp_all add: next_of_def)
    then show ?thesis using c by simp
  next
    case True
    let ?j = "i + n"
    have j: "?j < length rows" using True Suc.prems(1) by simp
    have "?rest ! (n - 1) = rows ! ?j" using True positive [OF \<open>ok\<close>] by simp
    then have nx: "next_of cursor n (take n ?rest) = cursor (rows ! ?j)"
      using True positive [OF \<open>ok\<close>] by (simp only: next_of_take if_True)
    have ne: "cursor (rows ! ?j) \<noteq> []" using continues [OF \<open>ok\<close> j] by blast
    have "length rows - ?j \<le> fuel" using Suc.prems positive [OF \<open>ok\<close>] by linarith
    from Suc.IH [OF j this, of "Suc k"] obtain rest where
      r: "follow ask fuel (Suc (Suc k)) (cursor (rows ! ?j)) = Some rest" "map view rest = drop (Suc ?j) rows"
      by blast
    have "drop (Suc ?j) rows = drop n ?rest" by (simp add: add.commute)
    then have "take n ?rest @ drop (Suc ?j) rows = ?rest" by (simp only: append_take_drop_id)
    then show ?thesis using c r ne unfolding nx by simp
  qed
qed

lemma follow_all:
  assumes ok "length rows < fuel"
  shows "\<exists>items. follow ask fuel 0 [] = Some items \<and> map view items = rows"
proof -
  obtain f where f: "fuel = Suc f" using assms(2) by (cases fuel) auto
  from starts [OF \<open>ok\<close>] obtain items where
    s: "ask 0 [] = Some (items, next_of cursor n (take n rows))" "map view items = take n rows" by blast
  show ?thesis
  proof (cases "n \<le> length rows")
    case False
    then have "next_of cursor n (take n rows) = []" "take n rows = rows" by (simp_all add: next_of_def)
    then show ?thesis using s f by simp
  next
    case True
    let ?j = "n - 1"
    have j: "?j < length rows" using True positive [OF \<open>ok\<close>] by simp
    have nx: "next_of cursor n (take n rows) = cursor (rows ! ?j)"
      using True positive [OF \<open>ok\<close>] by (simp only: next_of_take if_True)
    have ne: "cursor (rows ! ?j) \<noteq> []" using continues [OF \<open>ok\<close> j] by blast
    have "length rows - ?j \<le> f" using assms(2) f j positive [OF \<open>ok\<close>] True by linarith
    from follow_from [OF \<open>ok\<close> j this, of 0] obtain rest where
      r: "follow ask f (Suc 0) (cursor (rows ! ?j)) = Some rest" "map view rest = drop (Suc ?j) rows" by blast
    have "drop (Suc ?j) rows = drop n rows" using positive [OF \<open>ok\<close>] by simp
    then have "take n rows @ drop (Suc ?j) rows = rows" by (simp only: append_take_drop_id)
    then show ?thesis using s r ne f unfolding nx by simp
  qed
qed

end

subsection \<open>Rows in key order\<close>

text \<open>What a keyset condition leaves of rows that are strictly ordered by their key.\<close>

lemma filter_after_sorted:
  assumes "sorted_wrt R xs" "i < length xs" "\<And>x y. R x y \<Longrightarrow> \<not> R y x"
  shows "filter (R (xs ! i)) xs = drop (Suc i) xs"
  using assms(1,2)
proof (induction xs arbitrary: i)
  case (Cons a xs)
  then show ?case
  proof (cases i)
    case 0
    moreover have "\<not> R a a" using assms(3) by blast
    moreover have "filter (R a) xs = xs" using Cons.prems(1) by (simp add: filter_id_conv)
    ultimately show ?thesis by simp
  next
    case (Suc j)
    then have "R a (xs ! j)" using Cons.prems by simp
    then have "\<not> R (xs ! j) a" by (rule assms(3))
    then show ?thesis using Cons Suc by simp
  qed
qed simp

lemma sort_key_strict:
  fixes key :: "'a \<Rightarrow> 'k :: linorder"
  assumes "distinct (map key xs)"
  shows "sorted_wrt (\<lambda>x y. key x < key y) (sort_key key xs)"
proof -
  have "distinct (map key (sort_key key xs))" using assms by (simp add: distinct_map)
  moreover have "sorted (map key (sort_key key xs))" by simp
  ultimately have "sorted_wrt (<) (map key (sort_key key xs))" by (simp add: strict_sorted_iff)
  then show ?thesis by (simp add: sorted_wrt_map)
qed

lemma sorted_wrt_flip: "sorted_wrt R (rev xs) \<longleftrightarrow> sorted_wrt (\<lambda>x y. R y x) xs"
  by (rule sorted_wrt_rev)

lemma map_sort_key: "map key (sort_key key xs) = sort (map key xs)"
  for key :: "'a \<Rightarrow> 'k :: linorder"
  by (rule properties_for_sort [symmetric]) simp_all

lemma sorted_distinct_desc: "distinct xs \<Longrightarrow> sorted_wrt (>) (rev (sort xs))"
  for xs :: "'k :: linorder list"
proof -
  assume "distinct xs"
  then have "sorted_wrt (<) (sort xs)" by (simp add: strict_sorted_iff)
  then show "sorted_wrt (>) (rev (sort xs))" by (simp add: sorted_wrt_rev)
qed

subsection \<open>Cursors\<close>

text \<open>What a cursor codec promises for the positions it is asked to name.\<close>

locale cursor_codec =
  fixes encode :: "'k \<Rightarrow> string" and decode :: "string \<Rightarrow> 'k option" and valid :: "'k \<Rightarrow> bool"
  assumes names: "valid k \<Longrightarrow> encode k \<noteq> [] \<and> decode (encode k) = Some k"
begin

lemma encode_inj: "\<lbrakk>valid a; valid b; encode a = encode b\<rbrakk> \<Longrightarrow> a = b"
  by (metis names option.inject)

end

end
