(* ===== verification/Notifications.thy ===== *)
theory Notifications
  imports Platform Paging
begin

section \<open>Notifications (internal/notifications, platformdb/notifications.go, cmd/server/notifications.go)\<close>

text \<open>
  Which events raise a notification, whom it is addressed to, what one reader may see of the store, the
  keyset cursor the listing pages by, and the handlers.  A reader's view of the store is a
  NotificationQuery; visible is the SQL predicate that the listing and the marking share.
\<close>

subsection \<open>The mapping table\<close>

record Mapping =
  mp_Permission :: string
  mp_Severity :: string
  mp_Title :: string

definition mapping :: "string \<Rightarrow> string \<Rightarrow> string \<Rightarrow> Mapping" where
  "mapping p s t = \<lparr> mp_Permission = p, mp_Severity = s, mp_Title = t \<rparr>"

definition mappings :: "(string \<times> Mapping) list" where
  "mappings =
     [(''backup.failed'', mapping ''operations.server.read'' ''critical'' ''Backup failed''),
      (''server.offline'', mapping ''operations.server.read'' ''critical'' ''Server offline''),
      (''build.failed'', mapping ''development.repo.read'' ''error'' ''Build failed''),
      (''test.failed'', mapping ''qa.testcase.read'' ''error'' ''Test run failed''),
      (''selftest.failed'', mapping ''operations.server.read'' ''error'' ''Server self-test failed''),
      (''server.error'', mapping ''operations.server.read'' ''error'' ''Server reporting errors''),
      (''incident.created'', mapping ''support.incident.read'' ''error'' ''Incident created''),
      (''release.created'', mapping ''development.repo.read'' ''info'' ''Release created'')]"

definition severityOrder :: "(string \<times> nat) list" where
  "severityOrder = [(''debug'', 0), (''info'', 1), (''warning'', 2), (''error'', 3), (''critical'', 4)]"

definition EscalateTo :: "string \<Rightarrow> string \<Rightarrow> string" where
  "EscalateTo fl reported0 =
     (let reported = ToLower (TrimSpace reported0)
      in case map_of severityOrder fl of
           None \<Rightarrow> reported
         | Some base \<Rightarrow>
             (case map_of severityOrder reported of
                None \<Rightarrow> fl
              | Some rank \<Rightarrow> if base < rank then reported else fl))"

definition deepLinkRoutes :: "(string \<times> string) list" where
  "deepLinkRoutes = [(''CL'', ''/clients/''), (''CT'', ''/contacts/''), (''PR'', ''/projects/''),
     (''TSK'', ''/issues/''), (''DOC'', ''/documents/'')]"

definition DeepLink :: "string \<Rightarrow> string" where
  "DeepLink globalID0 =
     (let globalID = TrimSpace globalID0
      in case Cut globalID (CHR ''-'') of
           None \<Rightarrow> []
         | Some (prefix, _) \<Rightarrow>
             (if prefix = [] then []
              else case map_of deepLinkRoutes prefix of None \<Rightarrow> [] | Some route \<Rightarrow> route @ globalID))"

record SourceEvent =
  se_Event :: string
  se_Source :: string
  se_Severity :: string
  se_EntityID :: string
  se_TenantID :: string
  se_CorrelationID :: string
  se_OccurredAt :: int
  se_Body :: string

definition FromEvent :: "SourceEvent \<Rightarrow> Notification option" where
  "FromEvent e =
     (case map_of mappings (TrimSpace (se_Event e)) of
        None \<Rightarrow> None
      | Some m \<Rightarrow> Some
          \<lparr> nt_ID = 0, nt_Event = se_Event e, nt_Source = se_Source e,
            nt_Severity = EscalateTo (mp_Severity m) (se_Severity e), nt_Title = mp_Title m,
            nt_Body = se_Body e, nt_DeepLink = DeepLink (se_EntityID e), nt_EntityID = se_EntityID e,
            nt_TenantID = se_TenantID e, nt_RecipientID = [], nt_AudiencePermission = mp_Permission m,
            nt_CorrelationID = se_CorrelationID e, nt_OccurredAt = se_OccurredAt e, nt_Read = False \<rparr>)"

subsection \<open>Cursors and page bounds\<close>

definition note_cursorPrefix :: string where "note_cursorPrefix = ''n:''"

definition note_EncodeCursor :: "int \<Rightarrow> string" where
  "note_EncodeCursor lastID = (if lastID \<le> 0 then [] else b64_encode (note_cursorPrefix @ Itoa lastID))"

text \<open>None is ErrInvalidCursor.\<close>

definition note_DecodeCursor :: "string \<Rightarrow> int option" where
  "note_DecodeCursor cursor0 =
     (let cursor = TrimSpace cursor0
      in if cursor = [] then Some 0
         else case b64_decode cursor of
           None \<Rightarrow> None
         | Some decoded \<Rightarrow>
             (case CutPrefix decoded note_cursorPrefix of
                None \<Rightarrow> None
              | Some body \<Rightarrow>
                  (case ParseInt body of None \<Rightarrow> None | Some i \<Rightarrow> if i \<le> 0 then None else Some i)))"

definition DefaultLimit :: int where "DefaultLimit = 25"
definition MaxLimit :: int where "MaxLimit = 100"

definition ClampLimit :: "int \<Rightarrow> int" where
  "ClampLimit limit =
     (if limit \<le> 0 then DefaultLimit else if MaxLimit < limit then MaxLimit else limit)"

lemma ClampLimit_bounds: "1 \<le> ClampLimit n \<and> ClampLimit n \<le> 100"
  by (simp add: ClampLimit_def DefaultLimit_def MaxLimit_def)

subsection \<open>The store\<close>

record NotificationQuery =
  nq_GlobalUserID :: string
  nq_AllAudiences :: bool
  nq_AudiencePermissions :: "string list"
  nq_UnreadOnly :: bool
  nq_AfterID :: int
  nq_Limit :: int

definition visible :: "NotificationQuery \<Rightarrow> NotificationRow \<Rightarrow> bool" where
  "visible q n \<longleftrightarrow>
     nr_Recipient n = Some (nq_GlobalUserID q) \<or>
     nq_AllAudiences q \<and> nr_Audience n \<noteq> None \<or>
     \<not> nq_AllAudiences q \<and> (\<exists>a \<in> set (nq_AudiencePermissions q). nr_Audience n = Some a)"

definition is_read :: "string \<Rightarrow> Platform \<Rightarrow> NotificationRow \<Rightarrow> bool" where
  "is_read user pf n \<longleftrightarrow> (nt_ID (nr_Note n), user) \<in> set (pf_reads pf)"

definition nullable :: "string \<Rightarrow> string option" where
  "nullable v = (if TrimSpace v = [] then None else Some v)"

text \<open>The table's own constraints: a known severity, exactly one address, a defined audience.\<close>

definition note_admissible :: "DB \<Rightarrow> NotificationRow \<Rightarrow> DBError option" where
  "note_admissible db n =
     (if nt_Severity (nr_Note n) \<notin> set event_severities then Some CheckViolation
      else if (nr_Recipient n = None) = (nr_Audience n = None) then Some CheckViolation
      else case nr_Audience n of
        None \<Rightarrow> None
      | Some a \<Rightarrow> if a \<in> set (db_permissions db) then None else Some ForeignKeyViolation)"

definition InsertNotification ::
  "down \<Rightarrow> Notification \<Rightarrow> int \<Rightarrow> Platform \<Rightarrow> (DBError + int) \<times> Platform" where
  "InsertNotification down n occurredAt pf =
     (let i = pf_notification_seq pf + 1;
          row = \<lparr> nr_Note = n \<lparr> nt_ID := i, nt_OccurredAt := occurredAt \<rparr>,
                  nr_Recipient = nullable (nt_RecipientID n),
                  nr_Audience = nullable (nt_AudiencePermission n) \<rparr>
      in if down ''notification_insert'' then (Err (StoreFailure ''notification_insert''), pf)
         else case note_admissible (pf_db pf) row of
           Some e \<Rightarrow> (Err e, pf)
         | None \<Rightarrow> (Ok i, pf \<lparr> pf_notifications := pf_notifications pf @ [row], pf_notification_seq := i \<rparr>))"

definition served :: "string \<Rightarrow> Platform \<Rightarrow> NotificationRow \<Rightarrow> Notification" where
  "served user pf n = (nr_Note n)
     \<lparr> nt_RecipientID := (case nr_Recipient n of None \<Rightarrow> [] | Some r \<Rightarrow> r),
       nt_AudiencePermission := (case nr_Audience n of None \<Rightarrow> [] | Some a \<Rightarrow> a),
       nt_Read := is_read user pf n \<rparr>"

definition ListNotifications ::
  "down \<Rightarrow> NotificationQuery \<Rightarrow> Platform \<Rightarrow> DBError + Notification list \<times> int \<times> int" where
  "ListNotifications down q pf =
     (let user = nq_GlobalUserID q;
          mine = filter (visible q) (pf_notifications pf);
          page = take (nat (nq_Limit q))
            (rev (sort_key (\<lambda>n. nt_ID (nr_Note n))
              (filter (\<lambda>n. (nq_AfterID q = 0 \<or> nt_ID (nr_Note n) < nq_AfterID q) \<and>
                           (\<not> nq_UnreadOnly q \<or> \<not> is_read user pf n)) mine)))
      in if down ''notification_count'' then Err (StoreFailure ''notification_count'')
         else statement down ''notification_list''
           (map (served user pf) page, int (length mine),
            int (length (filter (\<lambda>n. \<not> is_read user pf n) mine))))"

definition MarkNotificationRead ::
  "down \<Rightarrow> int \<Rightarrow> NotificationQuery \<Rightarrow> Platform \<Rightarrow> (DBError + unit) \<times> Platform" where
  "MarkNotificationRead down i q pf =
     (let user = nq_GlobalUserID q;
          seen = filter (\<lambda>n. nt_ID (nr_Note n) = i \<and> visible q n) (pf_notifications pf)
      in if down ''notification_mark'' then (Err (StoreFailure ''notification_mark''), pf)
         else if seen \<noteq> [] \<and> (i, user) \<notin> set (pf_reads pf)
         then (Ok (), pf \<lparr> pf_reads := pf_reads pf @ [(i, user)] \<rparr>)
         else if down ''notification_visible'' then (Err (StoreFailure ''notification_visible''), pf)
         else if seen = [] then (Err ErrNotificationNotVisible, pf)
         else (Ok (), pf))"

definition IdentityExists :: "down \<Rightarrow> string \<Rightarrow> DB \<Rightarrow> DBError + bool" where
  "IdentityExists down globalUserID db =
     statement down ''identity_exists'' (globalUserID \<in> id_GlobalUserID ` set (db_identities db))"

definition PermissionExists :: "down \<Rightarrow> string \<Rightarrow> DB \<Rightarrow> DBError + bool" where
  "PermissionExists down permission db =
     statement down ''permission_exists'' (permission \<in> set (db_permissions db))"

subsection \<open>The handlers\<close>

record 'a notificationCollection = "'a collection" +
  co_UnreadCount :: int

definition notificationQueryFor :: "down \<Rightarrow> meResponse \<Rightarrow> DB \<Rightarrow> NotificationQuery" where
  "notificationQueryFor down access db =
     (let q = \<lparr> nq_GlobalUserID = me_ID access, nq_AllAudiences = False, nq_AudiencePermissions = [],
                nq_UnreadOnly = False, nq_AfterID = 0, nq_Limit = 0 \<rparr>
      in if IsConfined (platform_authz down db) (principal_of access) then q
         else if PermissionAll \<in> set (me_Permissions access) then q \<lparr> nq_AllAudiences := True \<rparr>
         else q \<lparr> nq_AudiencePermissions := me_Permissions access \<rparr>)"

text \<open>strconv.Atoi of a query parameter, 0 where it is not a number.\<close>

definition query_limit :: "string \<Rightarrow> int" where
  "query_limit v = (case ParseInt (TrimSpace v) of None \<Rightarrow> 0 | Some n \<Rightarrow> n)"

definition query_true :: "string \<Rightarrow> bool" where
  "query_true v \<longleftrightarrow> ToLower (TrimSpace v) = ''true''"

definition listNotifications ::
  "down \<Rightarrow> meResponse \<Rightarrow> string \<Rightarrow> string \<Rightarrow> string \<Rightarrow> Platform \<Rightarrow> Notification notificationCollection Reply" where
  "listNotifications down access cursor limit unreadOnly pf =
     (case note_DecodeCursor cursor of
        None \<Rightarrow> reply_error 400 ''invalid pagination cursor'' ''invalid_cursor''
      | Some after \<Rightarrow>
          (let query = (notificationQueryFor down access (pf_db pf))
                 \<lparr> nq_AfterID := after, nq_Limit := ClampLimit (query_limit limit),
                   nq_UnreadOnly := query_true unreadOnly \<rparr>
           in case ListNotifications down query pf of
                Inl _ \<Rightarrow> reply_error 503 ''notification store unavailable'' []
              | Inr (items, matching, unread) \<Rightarrow>
                  reply 200 \<lparr> co_Data = items, co_Total = matching, co_Limit = int (length items),
                    co_NextCursor = (if int (length items) = nq_Limit query \<and> items \<noteq> []
                                     then note_EncodeCursor (nt_ID (last items)) else []),
                    co_UnreadCount = unread \<rparr>))"

definition note_missing :: "'b Reply" where
  "note_missing = reply_error 404 ''notification not found'' ''not_found''"

definition note_unavailable :: "'b Reply" where
  "note_unavailable = reply_error 503 ''notification store unavailable'' []"

definition markNotificationRead ::
  "down \<Rightarrow> HttpContext \<Rightarrow> meResponse \<Rightarrow> string \<Rightarrow> Platform \<Rightarrow> unit Reply \<times> Platform" where
  "markNotificationRead down hx access pathID pf =
     (case ParseInt (TrimSpace pathID) of
        None \<Rightarrow> (note_missing, pf)
      | Some i \<Rightarrow>
          if i \<le> 0 then (note_missing, pf)
          else case MarkNotificationRead down i (notificationQueryFor down access (pf_db pf)) pf of
            (Inl e, pf') \<Rightarrow> (if e = ErrNotificationNotVisible then note_missing else note_unavailable, pf')
          | (Inr _, pf') \<Rightarrow>
              (reply 204 (), audit_pf down hx access ''notification.read'' ''notification'' (Itoa i) [] pf'))"

record notificationRequest =
  nb_RecipientID :: string
  nb_AudiencePermission :: string
  nb_Severity :: string
  nb_Title :: string
  nb_Body :: string
  nb_EntityID :: string
  nb_TenantID :: string
  nb_Source :: string
  nb_Event :: string

definition requested_note :: "HttpContext \<Rightarrow> notificationRequest \<Rightarrow> Notification" where
  "requested_note hx q =
     \<lparr> nt_ID = 0,
       nt_Event = (if TrimSpace (nb_Event q) = [] then ''notification.raised'' else TrimSpace (nb_Event q)),
       nt_Source = TrimSpace (nb_Source q), nt_Severity = EscalateTo ''info'' (nb_Severity q),
       nt_Title = TrimSpace (nb_Title q), nt_Body = nb_Body q, nt_DeepLink = DeepLink (nb_EntityID q),
       nt_EntityID = TrimSpace (nb_EntityID q), nt_TenantID = TrimSpace (nb_TenantID q),
       nt_RecipientID = TrimSpace (nb_RecipientID q),
       nt_AudiencePermission = TrimSpace (nb_AudiencePermission q),
       nt_CorrelationID = hx_RequestID hx, nt_OccurredAt = hx_Now hx, nt_Read = False \<rparr>"

definition servicePublishNotification ::
  "down \<Rightarrow> HttpContext \<Rightarrow> notificationRequest option \<Rightarrow> Platform \<Rightarrow> Notification Reply \<times> Platform" where
  "servicePublishNotification down hx body pf =
     (case body of
        None \<Rightarrow> (reply_error 400 ''invalid JSON body'' [], pf)
      | Some q \<Rightarrow>
          (let n = requested_note hx q; rcpt = nt_RecipientID n; aud = nt_AudiencePermission n;
               known = (if rcpt \<noteq> [] then IdentityExists down rcpt (pf_db pf)
                        else PermissionExists down aud (pf_db pf))
           in if (rcpt = []) = (aud = [])
              then (reply_error 400 ''exactly one of recipient_id and audience_permission is required'' [], pf)
              else if nt_Title n = [] \<or> nt_Source n = []
              then (reply_error 400 ''title and source are required'' [], pf)
              else case known of
                Inl _ \<Rightarrow> (note_unavailable, pf)
              | Inr False \<Rightarrow>
                  (if rcpt \<noteq> [] then reply_error 400 ''recipient_id is not a known Global user ID'' []
                   else reply_error 400 ''audience_permission is not a known permission'' [], pf)
              | Inr True \<Rightarrow>
                  (case InsertNotification down n (hx_Now hx) pf of
                     (Inl _, pf') \<Rightarrow> (note_unavailable, pf')
                   | (Inr i, pf') \<Rightarrow> (reply 201 (n \<lparr> nt_ID := i \<rparr>), pf'))))"

definition notifyFromEvent :: "down \<Rightarrow> SourceEvent \<Rightarrow> Platform \<Rightarrow> Platform" where
  "notifyFromEvent down e pf =
     (case FromEvent e of
        None \<Rightarrow> pf
      | Some n \<Rightarrow> snd (InsertNotification down n (se_OccurredAt e) pf))"

definition eventBody :: "(string \<times> string) list \<Rightarrow> string" where
  "eventBody dat = TrimSpace (case map_of dat ''message'' of None \<Rightarrow> [] | Some m \<Rightarrow> m)"

subsection \<open>Publishing an event (cmd/server/service.go)\<close>

definition normalize_message :: "NormalizeError \<Rightarrow> string" where
  "normalize_message e =
     (case e of
        EventAndSourceRequired \<Rightarrow> ''event and source are required''
      | EntityActionNaming \<Rightarrow> ''event must use entity.action naming''
      | EmptyNameSegment \<Rightarrow> ''event contains an empty name segment''
      | UnsupportedSeverity \<Rightarrow> ''unsupported severity'')"

text \<open>eventID is what NewEventID returned, None when the random source failed.\<close>

definition servicePublishEvent ::
  "down \<Rightarrow> HttpContext \<Rightarrow> string \<Rightarrow> string option \<Rightarrow> Envelope option \<Rightarrow> Platform \<Rightarrow> Envelope Reply \<times> Platform" where
  "servicePublishEvent down hx serviceID eventID body pf =
     (case body of
        None \<Rightarrow> (reply_error 400 ''invalid JSON body'' [], pf)
      | Some e0 \<Rightarrow>
          (let e1 = (if en_ActorID e0 = [] then e0 \<lparr> en_ActorID := serviceID \<rparr> else e0);
               e2 = (if en_RequestID e1 = [] then e1 \<lparr> en_RequestID := hx_RequestID hx \<rparr> else e1);
               e3 = (case eventID of None \<Rightarrow> e2 | Some i \<Rightarrow> e2 \<lparr> en_EventID := i \<rparr>)
           in case Normalize (hx_Now hx) e3 of
                Inl err \<Rightarrow> (reply_error 400 (normalize_message err) [], pf)
              | Inr e \<Rightarrow>
                  if down ''bus'' then (reply_error 503 ''event bus unavailable'' [], pf)
                  else (reply 202 e,
                    notifyFromEvent down
                      \<lparr> se_Event = en_Event e, se_Source = en_Source e, se_Severity = en_Severity e,
                        se_EntityID = en_EntityID e, se_TenantID = en_TenantID e,
                        se_CorrelationID = en_RequestID e,
                        se_OccurredAt = (case en_OccurredAt e of None \<Rightarrow> 0 | Some t \<Rightarrow> t),
                        se_Body = eventBody (en_Data e) \<rparr>
                      (publish down (Subject (en_Event e)) e pf))))"

subsection \<open>The cursor\<close>

interpretation note_cursor: cursor_codec note_EncodeCursor note_DecodeCursor "\<lambda>i. 0 < i \<and> i \<le> max_int64"
proof unfold_locales
  fix k :: int
  assume k: "0 < k \<and> k \<le> max_int64"
  have e: "note_EncodeCursor k = b64_encode (note_cursorPrefix @ Itoa k)" using k by (simp add: note_EncodeCursor_def)
  have d: "b64_decode (b64_encode (note_cursorPrefix @ Itoa k)) = Some (note_cursorPrefix @ Itoa k)" by simp
  have ne: "b64_encode (note_cursorPrefix @ Itoa k) \<noteq> []"
  proof
    assume "b64_encode (note_cursorPrefix @ Itoa k) = []"
    then have "b64_decode [] = Some (note_cursorPrefix @ Itoa k)" using d by (simp only:)
    moreover have "b64_decode [] = Some []" by code_simp
    ultimately have "[] = note_cursorPrefix @ Itoa k" by (metis option.inject)
    then show False by (simp add: note_cursorPrefix_def)
  qed
  have "ParseInt (Itoa k) = Some k" using k ParseInt_Itoa [of k] by simp
  then have "note_DecodeCursor (note_EncodeCursor k) = Some k"
    unfolding e using k ne by (simp add: note_DecodeCursor_def)
  then show "note_EncodeCursor k \<noteq> [] \<and> note_DecodeCursor (note_EncodeCursor k) = Some k"
    using e ne by simp
qed

subsection \<open>Lemmas\<close>

lemma IsConfined_platform:
  "IsConfined (platform_authz down db) p \<longleftrightarrow> ''Customer'' \<in> set (pr_Roles p)"
proof -
  have "TrimSpace ''Customer'' = ''Customer''" by code_simp
  then show ?thesis
    by (auto simp: IsConfined_def platform_authz_def authz_New_def DefaultConfinedRoles_def)
qed

lemma notificationQueryFor_db: "notificationQueryFor down access db = notificationQueryFor down' access db'"
  by (simp add: notificationQueryFor_def IsConfined_platform)

lemma query_user [simp]: "nq_GlobalUserID (notificationQueryFor down access db) = me_ID access"
  by (simp add: notificationQueryFor_def Let_def)

lemma visible_cong:
  "nq_GlobalUserID q = nq_GlobalUserID q' \<Longrightarrow> nq_AllAudiences q = nq_AllAudiences q' \<Longrightarrow>
   nq_AudiencePermissions q = nq_AudiencePermissions q' \<Longrightarrow> visible q n = visible q' n"
  by (simp add: visible_def)

lemma visible_update [simp]:
  "visible (q \<lparr> nq_AfterID := a, nq_Limit := l, nq_UnreadOnly := u \<rparr>) = visible q"
  by (rule ext, rule visible_cong) simp_all

lemma ListNotifications_up:
  "\<not> down ''notification_count'' \<Longrightarrow> \<not> down ''notification_list'' \<Longrightarrow>
   ListNotifications down q pf = Ok
     (map (served (nq_GlobalUserID q) pf) (take (nat (nq_Limit q))
        (rev (sort_key (\<lambda>n. nt_ID (nr_Note n))
          (filter (\<lambda>n. (nq_AfterID q = 0 \<or> nt_ID (nr_Note n) < nq_AfterID q) \<and>
             (\<not> nq_UnreadOnly q \<or> \<not> is_read (nq_GlobalUserID q) pf n))
            (filter (visible q) (pf_notifications pf)))))),
      int (length (filter (visible q) (pf_notifications pf))),
      int (length (filter (\<lambda>n. \<not> is_read (nq_GlobalUserID q) pf n) (filter (visible q) (pf_notifications pf)))))"
  by (simp add: ListNotifications_def Let_def)

lemma served_ID [simp]: "nt_ID (served u pf n) = nt_ID (nr_Note n)"
  by (simp add: served_def)

lemma severity_rank: "map_of severityOrder s = Some r \<Longrightarrow> s \<in> set event_severities"
  by (auto simp: severityOrder_def event_severities_def split: if_splits)

lemma EscalateTo_floor:
  assumes "map_of severityOrder fl = Some r"
  shows "\<exists>r'. map_of severityOrder (EscalateTo fl s) = Some r' \<and> r \<le> r'"
  using assms by (auto simp: EscalateTo_def Let_def split: option.splits)

lemma EscalateTo_severity:
  "map_of severityOrder fl \<noteq> None \<Longrightarrow> EscalateTo fl s \<in> set event_severities"
  using EscalateTo_floor [of fl _ s] severity_rank by blast

lemma mappings_ok:
  "map_of mappings e = Some m \<Longrightarrow>
     map_of severityOrder (mp_Severity m) \<noteq> None \<and> TrimSpace (mp_Permission m) = mp_Permission m \<and>
     mp_Permission m \<noteq> []"
proof -
  have all: "\<forall>m \<in> snd ` set mappings. map_of severityOrder (mp_Severity m) \<noteq> None \<and>
      TrimSpace (mp_Permission m) = mp_Permission m \<and> mp_Permission m \<noteq> []" by code_simp
  assume "map_of mappings e = Some m"
  then have "m \<in> snd ` set mappings" by (force dest: map_of_SomeD)
  with all show ?thesis by blast
qed

lemma notifyFromEvent_frame [simp]:
  "pf_db (notifyFromEvent down e pf) = pf_db pf"
  "pf_bus (notifyFromEvent down e pf) = pf_bus pf"
  "pf_servers (notifyFromEvent down e pf) = pf_servers pf"
  "pf_reports (notifyFromEvent down e pf) = pf_reports pf"
  "pf_report_seq (notifyFromEvent down e pf) = pf_report_seq pf"
  "pf_support (notifyFromEvent down e pf) = pf_support pf"
  "pf_support_relations (notifyFromEvent down e pf) = pf_support_relations pf"
  "pf_relationships (notifyFromEvent down e pf) = pf_relationships pf"
  by (simp_all add: notifyFromEvent_def InsertNotification_def Let_def split: option.splits)

subsection \<open>What the notification centre promises\<close>

text \<open>
  A mapped event raises exactly one notification: it is addressed to the permission of the table
  and to nobody by name, readable exactly by those who hold that permission (or all of them), and its
  severity is a known one that is at least the platform's own classification, whatever the
  publisher reported; so the table's constraints never refuse it.
\<close>

theorem event_raises_notification:
  assumes "map_of mappings (TrimSpace (se_Event e)) = Some m" "mp_Permission m \<in> set (db_permissions (pf_db pf))"
    and "\<not> down ''notification_insert''"
  shows "\<exists>row r r'. pf_notifications (notifyFromEvent down e pf) = pf_notifications pf @ [row] \<and>
    map_of severityOrder (mp_Severity m) = Some r \<and>
    map_of severityOrder (nt_Severity (nr_Note row)) = Some r' \<and> r \<le> r' \<and>
    (\<forall>q. visible q row \<longleftrightarrow> nq_AllAudiences q \<or> mp_Permission m \<in> set (nq_AudiencePermissions q))"
proof -
  obtain n where n: "FromEvent e = Some n" "nt_Severity n = EscalateTo (mp_Severity m) (se_Severity e)"
      "nt_RecipientID n = []" "nt_AudiencePermission n = mp_Permission m"
    using assms(1) by (simp add: FromEvent_def)
  obtain r where r: "map_of severityOrder (mp_Severity m) = Some r" using mappings_ok [OF assms(1)] by blast
  obtain r' where r': "map_of severityOrder (nt_Severity n) = Some r'" "r \<le> r'"
    using EscalateTo_floor [OF r] n(2) by metis
  define row where "row = \<lparr> nr_Note = n \<lparr> nt_ID := pf_notification_seq pf + 1, nt_OccurredAt := se_OccurredAt e \<rparr>,
      nr_Recipient = None, nr_Audience = Some (mp_Permission m) \<rparr>"
  have "nullable (nt_RecipientID n) = None" "nullable (nt_AudiencePermission n) = Some (mp_Permission m)"
    using mappings_ok [OF assms(1)] n by (simp_all add: nullable_def)
  moreover have "note_admissible (pf_db pf) row = None"
    using assms(2) severity_rank [OF r'(1)] by (simp add: note_admissible_def row_def)
  ultimately have "pf_notifications (notifyFromEvent down e pf) = pf_notifications pf @ [row]"
    using assms(3) by (simp add: notifyFromEvent_def n(1) InsertNotification_def Let_def row_def)
  moreover have "\<forall>q. visible q row \<longleftrightarrow> nq_AllAudiences q \<or> mp_Permission m \<in> set (nq_AudiencePermissions q)"
    by (auto simp: visible_def row_def)
  ultimately show ?thesis using r r' by (auto simp: row_def)
qed

text \<open>
  C36.  Nobody reads a notification that is not theirs: every item a listing serves is addressed to the
  caller by name, or is addressed to a permission and the caller is no customer and holds that permission
  or is an administrator; a customer sees only what names them.
\<close>

theorem listing_is_addressed:
  assumes "rp_Body (listNotifications down access cursor limit unreadOnly pf) = Some c" "n \<in> set (co_Data c)"
  shows "nt_RecipientID n = me_ID access \<or>
    ''Customer'' \<notin> set (me_Roles access) \<and>
    (\<exists>row \<in> set (pf_notifications pf). nr_Audience row = Some (nt_AudiencePermission n) \<and>
      (''*'' \<in> set (me_Permissions access) \<or> nt_AudiencePermission n \<in> set (me_Permissions access)))"
proof -
  let ?q = "notificationQueryFor down access (pf_db pf)"
  obtain row where row: "row \<in> set (pf_notifications pf)" "visible ?q row" "n = served (me_ID access) pf row"
    using assms
    by (auto simp: listNotifications_def ListNotifications_def statement_def Let_def
        split: option.splits sum.splits if_splits dest!: in_set_takeD)
  show ?thesis
  proof (cases "nr_Recipient row = Some (me_ID access)")
    case True
    then show ?thesis using row(3) by (simp add: served_def)
  next
    case False
    with row(2) have "''Customer'' \<notin> set (me_Roles access)"
      by (auto simp: visible_def notificationQueryFor_def IsConfined_platform principal_of_def Let_def)
    moreover obtain a where "nr_Audience row = Some a" "''*'' \<in> set (me_Permissions access) \<or> a \<in> set (me_Permissions access)"
      using row(2) False
      by (auto simp: visible_def notificationQueryFor_def PermissionAll_def Let_def split: if_splits)
    ultimately show ?thesis using row by (auto simp: served_def)
  qed
qed

text \<open>
  Marking and listing apply one visibility rule.  With the store answering, marking an identifier
  is accepted exactly when a notification with that identifier is visible to the caller; then it is
  read for this caller, for nobody else, and no other notification changes; otherwise the
  answer is the one an unknown identifier gets and the platform is untouched.
\<close>

theorem mark_agrees_with_listing:
  assumes "markNotificationRead down hx access (Itoa i) pf = (r, pf')" "0 < i" "i \<le> max_int64"
    and "\<not> down ''notification_mark''" "\<not> down ''notification_visible''"
  shows "(rp_Status r = 204 \<longleftrightarrow>
      (\<exists>n \<in> set (pf_notifications pf). nt_ID (nr_Note n) = i \<and>
         visible (notificationQueryFor down access (pf_db pf)) n)) \<and>
    (rp_Status r = 204 \<longrightarrow> pf_notifications pf' = pf_notifications pf \<and>
       set (pf_reads pf') = insert (i, me_ID access) (set (pf_reads pf))) \<and>
    (rp_Status r \<noteq> 204 \<longrightarrow> r = note_missing \<and> pf' = pf)"
proof -
  have "ParseInt (TrimSpace (Itoa i)) = Some i" using assms(2,3) ParseInt_Itoa [of i] by simp
  then show ?thesis using assms(1,2,4,5)
    by (auto simp: markNotificationRead_def MarkNotificationRead_def note_missing_def filter_empty_conv Let_def
        split: if_splits)
qed

subsection \<open>Walking the notifications\<close>

text \<open>
  The store as it is when the k-th page is asked for: notifications have arrived since the first page,
  under identifiers above all those there were.
\<close>

definition arriving :: "(nat \<Rightarrow> Platform) \<Rightarrow> bool" where
  "arriving pfs \<longleftrightarrow>
     distinct (map (\<lambda>n. nt_ID (nr_Note n)) (pf_notifications (pfs 0))) \<and>
     (\<forall>n \<in> set (pf_notifications (pfs 0)). 0 < nt_ID (nr_Note n) \<and> nt_ID (nr_Note n) \<le> max_int64) \<and>
     (\<forall>k. \<exists>new. pf_notifications (pfs k) = pf_notifications (pfs 0) @ new \<and>
        (\<forall>x \<in> set new. \<forall>n \<in> set (pf_notifications (pfs 0)). nt_ID (nr_Note n) < nt_ID (nr_Note x)))"

definition visible_ids :: "down \<Rightarrow> meResponse \<Rightarrow> Platform \<Rightarrow> int list" where
  "visible_ids down access pf = rev (sort (map (\<lambda>n. nt_ID (nr_Note n))
     (filter (visible (notificationQueryFor down access (pf_db pf))) (pf_notifications pf))))"

lemma ids_of_page:
  "map (\<lambda>n. nt_ID (nr_Note n)) (rev (sort_key (\<lambda>n. nt_ID (nr_Note n)) (filter P xs))) =
     rev (sort (map (\<lambda>n. nt_ID (nr_Note n)) (filter P xs)))"
  by (simp add: rev_map [symmetric] map_sort_key)

lemma page_next:
  fixes n :: int
  assumes "0 < n"
  shows "(if int (length items) = n \<and> items \<noteq> [] then f (g (last items)) else []) =
    next_of f (nat n) (map g items)"
  using assms by (auto simp: next_of_def last_map)

lemma listNotifications_page:
  assumes "\<not> down ''notification_count''" "\<not> down ''notification_list''" "note_DecodeCursor cursor = Some a"
  shows "\<exists>items. page_view (listNotifications down access cursor limit [] pf) =
      Some (items, next_of note_EncodeCursor (nat (ClampLimit (query_limit limit)))
        (take (nat (ClampLimit (query_limit limit)))
          (filter (\<lambda>i. a = 0 \<or> i < a) (visible_ids down access pf)))) \<and>
    map nt_ID items = take (nat (ClampLimit (query_limit limit)))
      (filter (\<lambda>i. a = 0 \<or> i < a) (visible_ids down access pf))"
proof -
  let ?n = "ClampLimit (query_limit limit)"
  let ?id = "\<lambda>n. nt_ID (nr_Note n)"
  let ?q = "notificationQueryFor down access (pf_db pf)"
  let ?rows = "take (nat ?n) (rev (sort_key ?id (filter (\<lambda>n. a = 0 \<or> ?id n < a)
      (filter (visible ?q) (pf_notifications pf)))))"
  let ?items = "map (served (me_ID access) pf) ?rows"
  have ids: "map nt_ID ?items = take (nat ?n) (filter (\<lambda>i. a = 0 \<or> i < a) (visible_ids down access pf))"
  proof -
    have "map nt_ID ?items = take (nat ?n) (map ?id (rev (sort_key ?id (filter (\<lambda>n. a = 0 \<or> ?id n < a)
        (filter (visible ?q) (pf_notifications pf))))))" by (simp add: take_map)
    also have "\<dots> = take (nat ?n) (rev (sort (map ?id (filter (\<lambda>n. a = 0 \<or> ?id n < a)
        (filter (visible ?q) (pf_notifications pf))))))" by (simp only: ids_of_page)
    also have "map ?id (filter (\<lambda>n. a = 0 \<or> ?id n < a) (filter (visible ?q) (pf_notifications pf))) =
        filter (\<lambda>i. a = 0 \<or> i < a) (map ?id (filter (visible ?q) (pf_notifications pf)))"
      by (simp add: filter_map comp_def)
    finally show ?thesis by (simp only: visible_ids_def rev_filter [symmetric] filter_sort)
  qed
  have nt: "\<not> query_true []" by (simp add: query_true_def ToLower_def)
  have "page_view (listNotifications down access cursor limit [] pf) =
      Some (?items, if int (length ?items) = ?n \<and> ?items \<noteq> [] then note_EncodeCursor (nt_ID (last ?items)) else [])"
    using assms by (simp add: listNotifications_def ListNotifications_up nt Let_def)
  moreover have "(if int (length ?items) = ?n \<and> ?items \<noteq> [] then note_EncodeCursor (nt_ID (last ?items)) else []) =
      next_of note_EncodeCursor (nat ?n) (map nt_ID ?items)"
    by (rule page_next) (use ClampLimit_bounds [of "query_limit limit"] in simp)
  ultimately have "page_view (listNotifications down access cursor limit [] pf) =
      Some (?items, next_of note_EncodeCursor (nat ?n) (map nt_ID ?items))" by (simp only:)
  then have "page_view (listNotifications down access cursor limit [] pf) =
      Some (?items, next_of note_EncodeCursor (nat ?n)
        (take (nat ?n) (filter (\<lambda>i. a = 0 \<or> i < a) (visible_ids down access pf))))"
    by (simp only: ids)
  then show ?thesis using ids by blast
qed

lemma visible_ids_old:
  assumes "arriving pfs" "a \<in> set (visible_ids down access (pfs 0))"
  shows "filter (\<lambda>i. i < a) (visible_ids down access (pfs k)) = filter (\<lambda>i. i < a) (visible_ids down access (pfs 0))"
proof -
  let ?id = "\<lambda>n. nt_ID (nr_Note n)"
  let ?v = "visible (notificationQueryFor down access (pf_db (pfs 0)))"
  from assms(1) have "\<exists>new. pf_notifications (pfs k) = pf_notifications (pfs 0) @ new \<and>
      (\<forall>x \<in> set new. \<forall>n \<in> set (pf_notifications (pfs 0)). ?id n < ?id x)"
    unfolding arriving_def by blast
  then obtain new where new: "pf_notifications (pfs k) = pf_notifications (pfs 0) @ new"
      "\<forall>x \<in> set new. \<forall>n \<in> set (pf_notifications (pfs 0)). ?id n < ?id x" by blast
  have q: "notificationQueryFor down access (pf_db (pfs k)) = notificationQueryFor down access (pf_db (pfs 0))"
    by (rule notificationQueryFor_db)
  obtain n where "n \<in> set (pf_notifications (pfs 0))" "a = ?id n"
    using assms(2) by (auto simp: visible_ids_def)
  with new(2) have "\<forall>x \<in> set new. \<not> ?id x < a" by (metis less_asym)
  then have "filter (\<lambda>i. i < a) (map ?id (filter ?v new)) = []" by (auto simp: filter_empty_conv)
  then have "filter (\<lambda>i. i < a) (map ?id (filter ?v (pf_notifications (pfs k)))) =
      filter (\<lambda>i. i < a) (map ?id (filter ?v (pf_notifications (pfs 0))))"
    by (simp add: new(1))
  then show ?thesis
    by (simp only: visible_ids_def q rev_filter [symmetric] filter_sort)
qed

lemma visible_ids_desc:
  assumes "arriving pfs"
  shows "sorted_wrt (>) (visible_ids down access (pfs 0))"
    and "i \<in> set (visible_ids down access (pfs 0)) \<Longrightarrow> 0 < i \<and> i \<le> max_int64"
proof -
  have "distinct (map (\<lambda>n. nt_ID (nr_Note n))
      (filter (visible (notificationQueryFor down access (pf_db (pfs 0)))) (pf_notifications (pfs 0))))"
    using assms by (simp add: arriving_def distinct_map_filter)
  then show "sorted_wrt (>) (visible_ids down access (pfs 0))"
    unfolding visible_ids_def by (rule sorted_distinct_desc)
  show "i \<in> set (visible_ids down access (pfs 0)) \<Longrightarrow> 0 < i \<and> i \<le> max_int64"
    using assms by (auto simp: arriving_def visible_ids_def)
qed

interpretation note_pages: paged
  "\<lambda>k c. page_view (listNotifications down access c limit [] (pfs k))" nt_ID
  "visible_ids down access (pfs 0)" note_EncodeCursor "nat (ClampLimit (query_limit limit))"
  "arriving pfs \<and> \<not> down ''notification_count'' \<and> \<not> down ''notification_list''"
  for down access limit pfs
proof unfold_locales
  let ?n = "nat (ClampLimit (query_limit limit))"
  let ?rows = "visible_ids down access (pfs 0)"
  assume ok: "arriving pfs \<and> \<not> down ''notification_count'' \<and> \<not> down ''notification_list''"
  show "0 < ?n" using ClampLimit_bounds [of "query_limit limit"] by simp
  have d: "note_DecodeCursor [] = Some 0" by (simp add: note_DecodeCursor_def)
  show "\<exists>items. page_view (listNotifications down access [] limit [] (pfs 0)) =
      Some (items, next_of note_EncodeCursor ?n (take ?n ?rows)) \<and> map nt_ID items = take ?n ?rows"
    using listNotifications_page [where down = down, OF _ _ d, of access limit "pfs 0"] ok by simp
next
  let ?n = "nat (ClampLimit (query_limit limit))"
  let ?rows = "visible_ids down access (pfs 0)"
  fix i k
  assume ok: "arriving pfs \<and> \<not> down ''notification_count'' \<and> \<not> down ''notification_list''"
    and i: "i < length ?rows"
  let ?a = "?rows ! i"
  have ar: "arriving pfs" and up: "\<not> down ''notification_count''" "\<not> down ''notification_list''"
    using ok by blast+
  have m: "?a \<in> set ?rows" by (rule nth_mem [OF i])
  have a: "0 < ?a \<and> ?a \<le> max_int64" by (rule visible_ids_desc(2) [where pfs = pfs, OF ar m])
  have c: "note_EncodeCursor ?a \<noteq> []" "note_DecodeCursor (note_EncodeCursor ?a) = Some ?a"
    using note_cursor.names [OF a] by blast+
  have f: "filter (\<lambda>j. ?a = 0 \<or> j < ?a) (visible_ids down access (pfs (Suc k))) = drop (Suc i) ?rows"
  proof -
    have "(\<lambda>j. ?a = 0 \<or> j < ?a) = (\<lambda>j. j < ?a)" using a by (intro ext) linarith
    then have "filter (\<lambda>j. ?a = 0 \<or> j < ?a) (visible_ids down access (pfs (Suc k))) = filter (\<lambda>j. j < ?a) ?rows"
      by (simp only: visible_ids_old [where pfs = pfs and k = "Suc k", OF ar m])
    also have "\<dots> = drop (Suc i) ?rows"
      using filter_after_sorted [where R = "(>)" and xs = ?rows and i = i, OF visible_ids_desc(1) [where pfs = pfs, OF ar] i]
        less_asym by blast
    finally show ?thesis .
  qed
  show "note_EncodeCursor ?a \<noteq> [] \<and>
      (\<exists>items. page_view (listNotifications down access (note_EncodeCursor ?a) limit [] (pfs (Suc k))) =
        Some (items, next_of note_EncodeCursor ?n (take ?n (drop (Suc i) ?rows))) \<and>
        map nt_ID items = take ?n (drop (Suc i) ?rows))"
    using listNotifications_page [where down = down and pf = "pfs (Suc k)", OF up c(2), of access limit] c(1)
    unfolding f by blast
qed

text \<open>
  Keyset paging is stable under insertion: a caller who follows the cursors, with notifications
  arriving between any two pages, collects exactly the notifications that were visible when the walk
  began, each once, newest first; it takes at most one call more than there are of them.
\<close>

theorem notifications_walked_once:
  assumes "arriving pfs" "\<not> down ''notification_count''" "\<not> down ''notification_list''"
    and "length (visible_ids down access (pfs 0)) < fuel"
  shows "\<exists>items. follow (\<lambda>k c. page_view (listNotifications down access c limit [] (pfs k))) fuel 0 [] = Some items \<and>
    map nt_ID items = visible_ids down access (pfs 0)"
  by (rule note_pages.follow_all) (use assms in simp_all)

subsection \<open>Witnesses\<close>

definition sample_access :: meResponse where
  "sample_access = \<lparr> me_ID = ''USR-000001'', me_Subject = ''s'', me_Email = [], me_Name = [],
     me_Username = [], me_Groups = [], me_Roles = [''Support''],
     me_Permissions = [''support.incident.read''], me_Modules = [] \<rparr>"

definition sample_hx :: HttpContext where
  "sample_hx = \<lparr> hx_RequestID = ''r'', hx_SourceIP = [], hx_Now = 7 \<rparr>"

definition sample_incident :: SourceEvent where
  "sample_incident = \<lparr> se_Event = ''incident.created'', se_Source = ''bsystem-support'', se_Severity = ''info'',
     se_EntityID = ''INC-000001'', se_TenantID = [], se_CorrelationID = [], se_OccurredAt = 5, se_Body = [] \<rparr>"

definition noted :: Platform where
  "noted = notifyFromEvent all_up sample_incident (platform_of sample_db)"

theorem event_raises_notification_witness:
  "\<exists>row. pf_notifications noted = [row] \<and> (\<forall>q. visible q row \<longleftrightarrow>
     nq_AllAudiences q \<or> ''support.incident.read'' \<in> set (nq_AudiencePermissions q))"
proof -
  have m: "map_of mappings (TrimSpace (se_Event sample_incident)) =
      Some (mapping ''support.incident.read'' ''error'' ''Incident created'')"
    and p: "mp_Permission (mapping ''support.incident.read'' ''error'' ''Incident created'') \<in>
      set (db_permissions (pf_db (platform_of sample_db)))"
    and u: "\<not> all_up ''notification_insert''"
    and s: "pf_notifications (platform_of sample_db) = []"
    and e: "mp_Permission (mapping ''support.incident.read'' ''error'' ''Incident created'') = ''support.incident.read''"
    by code_simp+
  from event_raises_notification [where pf = "platform_of sample_db" and e = sample_incident and down = all_up, OF m p u]
  show ?thesis unfolding noted_def s e append_Nil by blast
qed

theorem listing_is_addressed_witness:
  "\<exists>c n. rp_Body (listNotifications all_up sample_access [] [] [] noted) = Some c \<and> n \<in> set (co_Data c) \<and>
     nt_AudiencePermission n \<in> set (me_Permissions sample_access)"
proof -
  have ne: "map_option (\<lambda>c. map nt_RecipientID (co_Data c))
      (rp_Body (listNotifications all_up sample_access [] [] [] noted)) = Some [[]]" by code_simp
  then obtain c n where c: "rp_Body (listNotifications all_up sample_access [] [] [] noted) = Some c"
      "co_Data c = [n]" "nt_RecipientID n = []" by (auto simp: map_eq_Cons_conv)
  then have m: "n \<in> set (co_Data c)" by simp
  from listing_is_addressed [OF c(1) m] c m show ?thesis by (auto simp: sample_access_def)
qed

theorem mark_agrees_with_listing_witness:
  "\<exists>r pf'. markNotificationRead all_up sample_hx sample_access (Itoa 1) noted = (r, pf') \<and>
     rp_Status r = 204 \<and> (1, ''USR-000001'') \<in> set (pf_reads pf')"
proof -
  obtain r pf' where m: "markNotificationRead all_up sample_hx sample_access (Itoa 1) noted = (r, pf')"
    by (cases "markNotificationRead all_up sample_hx sample_access (Itoa 1) noted") auto
  have "\<exists>n \<in> set (pf_notifications noted). nt_ID (nr_Note n) = 1 \<and>
      visible (notificationQueryFor all_up sample_access (pf_db noted)) n" by code_simp
  with mark_agrees_with_listing [OF m] m show ?thesis
    by (simp add: all_up_def max_int64_def sample_access_def)
qed

theorem notifications_walked_once_witness:
  "\<exists>items. follow (\<lambda>k c. page_view (listNotifications all_up sample_access c ''1'' [] noted)) 3 0 [] = Some items \<and>
     map nt_ID items = [1]"
proof -
  have f: "distinct (map (\<lambda>n. nt_ID (nr_Note n)) (pf_notifications noted)) \<and>
     (\<forall>n \<in> set (pf_notifications noted). 0 < nt_ID (nr_Note n) \<and> nt_ID (nr_Note n) \<le> max_int64)" by code_simp
  then have a: "arriving (\<lambda>_. noted)" by (auto simp: arriving_def intro: exI [of _ "[]"])
  have v: "visible_ids all_up sample_access noted = [1]" by code_simp
  from notifications_walked_once [OF a, of all_up sample_access 3 "''1''"]
  show ?thesis unfolding v by (simp add: all_up_def)
qed

end
