(* ===== verification/Boundary.thy ===== *)
theory Boundary
  imports Oidc RateLimit Notifications
begin

section \<open>The request boundary (cmd/server/identity.go, routes.go, ratelimits.go, main.go, service.go)\<close>

text \<open>
  How a request becomes a handler's: the bearer token is resolved into an identity, locally or by the
  provider's UserInfo endpoint; the identity gets its Global ID and its access; its allowance is spent; the route's
  permission is evaluated; then the handler runs.  routes is the route table with the handlers by
  name, and serve the composition that handler builds for one route.  The environment variables, the
  provider's answers and the two clock readings of one request are its IdEnv.
\<close>

subsection \<open>Environment\<close>

text \<open>The identity that a request carries, from X-Request-ID or the clock.\<close>

definition requestID :: "string \<Rightarrow> string \<Rightarrow> string" where
  "requestID header stamp = (if header = [] then stamp else header)"

text \<open>The client address; splitHost is net.SplitHostPort.\<close>

definition sourceIP :: "(string \<Rightarrow> string option) \<Rightarrow> string \<Rightarrow> string \<Rightarrow> string" where
  "sourceIP splitHost forwardedFor remoteAddr =
     (let forwarded = TrimSpace (hd (Split forwardedFor (CHR '','')))
      in if forwarded \<noteq> [] then forwarded
         else case splitHost remoteAddr of Some host \<Rightarrow> host | None \<Rightarrow> remoteAddr)"

subsection \<open>Resolving a bearer token\<close>

datatype AuthError = OidcErr OidcError | UserInfoErr string

record IdEnv =
  ie_wire :: Wire
  ie_fetch :: fetch
  ie_now :: int
  ie_later :: int
  ie_userinfo_url :: string
  ie_userinfo :: "string \<Rightarrow> (int \<times> userInfo option) option"

definition fetchUserInfo :: "IdEnv \<Rightarrow> string \<Rightarrow> AuthError + userInfo" where
  "fetchUserInfo env token =
     (if ie_userinfo_url env = [] then Err (UserInfoErr ''AUTHENTIK_USERINFO_URL is not configured'')
      else case ie_userinfo env token of
        None \<Rightarrow> Err (UserInfoErr ''request failed'')
      | Some (status, body) \<Rightarrow>
          if status \<noteq> 200 then Err (UserInfoErr ''token rejected by authentik'')
          else case body of
            None \<Rightarrow> Err (UserInfoErr ''userinfo is not JSON'')
          | Some info \<Rightarrow>
              if ui_Sub info = [] then Err (UserInfoErr ''userinfo response has no subject'') else Ok info)"

definition enrich :: "IdEnv \<Rightarrow> string \<Rightarrow> userInfo \<Rightarrow> userInfo" where
  "enrich env token info =
     (if TrimSpace (ie_userinfo_url env) = [] then info
      else case fetchUserInfo env token of
        Inl _ \<Rightarrow> info
      | Inr enriched \<Rightarrow>
          if ui_Sub enriched \<noteq> ui_Sub info then info
          else info \<lparr> ui_Groups := ui_Groups enriched,
                      ui_Email := (if ui_Email info = [] then ui_Email enriched else ui_Email info),
                      ui_Name := (if ui_Name info = [] then ui_Name enriched else ui_Name info),
                      ui_PreferredUsername := (if ui_PreferredUsername info = [] then ui_PreferredUsername enriched
                                               else ui_PreferredUsername info) \<rparr>)"

text \<open>The verifier is None when no issuer is configured.\<close>

definition identify ::
  "IdEnv \<Rightarrow> string \<Rightarrow> Verifier option \<Rightarrow> (AuthError + userInfo) \<times> Verifier option" where
  "identify env token tokens =
     (case tokens of
        None \<Rightarrow> (fetchUserInfo env token, None)
      | Some v \<Rightarrow>
          (case Verify (ie_wire env) (ie_fetch env) (ie_now env) (ie_later env) id token v of
             (Inl e, _, v') \<Rightarrow> (Err (OidcErr e), Some v')
           | (Inr c, _, v') \<Rightarrow>
               (let info = \<lparr> ui_Sub = cl_Subject c, ui_Email = cl_Email c, ui_Name = cl_Name c,
                             ui_PreferredUsername = cl_PreferredUsername c, ui_Groups = cl_Groups c \<rparr>
                in (Ok (if ui_Groups info = [] then enrich env token info else info), Some v'))))"

definition authenticationStatus :: "AuthError \<Rightarrow> int \<times> string" where
  "authenticationStatus e =
     (case e of
        OidcErr (ErrProviderUnavailable _) \<Rightarrow> (503, ''identity provider unavailable'')
      | _ \<Rightarrow> (401, ''invalid or expired token''))"

subsection \<open>Callers\<close>

record servicePrincipal =
  sp2_ID :: string
  sp2_Subject :: string
  sp2_Name :: string
  sp2_Username :: string
  sp2_Groups :: "string list"
  sp2_Roles :: "string list"
  sp2_Permissions :: "string list"

datatype Caller = Nobody | Human meResponse | Service servicePrincipal

text \<open>The principal of the request context; the zero value when none was put there.\<close>

primrec principalFrom :: "Caller \<Rightarrow> Principal" where
  "principalFrom Nobody = \<lparr> pr_ID = [], pr_Kind = [], pr_Roles = [], pr_Permissions = [] \<rparr>"
| "principalFrom (Human access) = principal_of access"
| "principalFrom (Service s) = \<lparr> pr_ID = sp2_ID s, pr_Kind = KindService, pr_Roles = sp2_Roles s,
                                pr_Permissions = sp2_Permissions s \<rparr>"

text \<open>The second lookup of principalKey finds the service the first one has already named.\<close>

definition principalKey :: "Caller \<Rightarrow> string" where
  "principalKey caller =
     (if pr_ID (principalFrom caller) \<noteq> [] then pr_ID (principalFrom caller)
      else case caller of Service s \<Rightarrow> sp2_ID s | _ \<Rightarrow> [])"

record Site =
  st_pf :: Platform
  st_tokens :: "Verifier option"
  st_limits :: "(string \<times> Limiter) list"

type_synonym 'b handler = "Caller \<Rightarrow> Site \<Rightarrow> 'b Reply \<times> Site"

definition bearer :: string where "bearer = ''Bearer ''"
definition serviceGroup :: string where "serviceGroup = ''BSYSTEM-Services''"

definition username_of :: "userInfo \<Rightarrow> string" where
  "username_of info = (if ui_PreferredUsername info = [] then ui_Email info else ui_PreferredUsername info)"

definition identity_of :: "userInfo \<Rightarrow> Identity" where
  "identity_of info = \<lparr> idn_Subject = ui_Sub info, idn_Email = ui_Email info, idn_DisplayName = ui_Name info,
     idn_Username = username_of info, idn_Groups = unique (ui_Groups info) \<rparr>"

definition authenticate ::
  "down \<Rightarrow> IdEnv \<Rightarrow> RequestContext \<Rightarrow> string \<Rightarrow> 'b handler \<Rightarrow> Site \<Rightarrow> 'b Reply \<times> Site" where
  "authenticate down env rx header next st =
     (if \<not> HasPrefix header bearer then (reply_error 401 ''missing bearer token'' [], st)
      else case identify env (drop (length bearer) header) (st_tokens st) of
        (Inl e, tokens) \<Rightarrow>
          (case authenticationStatus e of (status, message) \<Rightarrow>
             (reply_error status message [], st \<lparr> st_tokens := tokens \<rparr>))
      | (Inr info, tokens) \<Rightarrow>
          (case EnsureIdentity down rx (identity_of info) (pf_db (st_pf st)) of
             (Inl _, db) \<Rightarrow> (reply_error 503 ''identity persistence unavailable'' [], st \<lparr> st_tokens := tokens \<rparr>)
           | (Inr (globalUserID, _), db) \<Rightarrow>
               (let st1 = st \<lparr> st_tokens := tokens, st_pf := (st_pf st) \<lparr> pf_db := db \<rparr> \<rparr>
                in case resolveAccess down info globalUserID db of
                     Inl _ \<Rightarrow> (reply_error 503 ''RBAC store unavailable'' [], st1)
                   | Inr access \<Rightarrow> next (Human access) st1)))"

definition service_identity_of :: "userInfo \<Rightarrow> ServiceIdentity" where
  "service_identity_of info =
     \<lparr> svi_Subject = ui_Sub info, svi_Name = (if ui_Name info = [] then username_of info else ui_Name info),
       svi_Username = username_of info, svi_Groups = unique (ui_Groups info) \<rparr>"

definition authenticateService ::
  "down \<Rightarrow> IdEnv \<Rightarrow> RequestContext \<Rightarrow> string \<Rightarrow> 'b handler \<Rightarrow> Site \<Rightarrow> 'b Reply \<times> Site" where
  "authenticateService down env rx header next st =
     (if \<not> HasPrefix header bearer then (reply_error 401 ''missing bearer token'' [], st)
      else case identify env (drop (length bearer) header) (st_tokens st) of
        (Inl e, tokens) \<Rightarrow>
          (case authenticationStatus e of (status, message) \<Rightarrow>
             (reply_error status message [], st \<lparr> st_tokens := tokens \<rparr>))
      | (Inr info, tokens) \<Rightarrow>
          if serviceGroup \<notin> set (ui_Groups info)
          then (reply_error 403 ''service identity group required'' [], st \<lparr> st_tokens := tokens \<rparr>)
          else case EnsureServiceIdentity down rx (service_identity_of info) (pf_db (st_pf st)) of
             (Inl _, db) \<Rightarrow> (reply_error 503 ''service identity persistence unavailable'' [], st \<lparr> st_tokens := tokens \<rparr>)
           | (Inr (globalID, _), db) \<Rightarrow>
               (let st1 = st \<lparr> st_tokens := tokens, st_pf := (st_pf st) \<lparr> pf_db := db \<rparr> \<rparr>;
                    i = service_identity_of info
                in case ResolveAccess down (svi_Groups i) ''service'' db of
                     Inl _ \<Rightarrow> (reply_error 503 ''RBAC store unavailable'' [], st1)
                   | Inr profile \<Rightarrow>
                       next (Service \<lparr> sp2_ID = globalID, sp2_Subject = svi_Subject i, sp2_Name = svi_Name i,
                                       sp2_Username = svi_Username i, sp2_Groups = svi_Groups i,
                                       sp2_Roles = ap_Roles profile, sp2_Permissions = ap_Permissions profile \<rparr>) st1))"

subsection \<open>Rate limits by class\<close>

definition limitNone :: string where "limitNone = []"
definition limitHuman :: string where "limitHuman = ''human''"
definition limitService :: string where "limitService = ''service''"
definition limitAI :: string where "limitAI = ''ai''"
definition limitSearch :: string where "limitSearch = ''search''"

definition newLimits :: "(string \<Rightarrow> string) \<Rightarrow> (string \<times> Limiter) list" where
  "newLimits getenv =
     [(limitHuman, limiter_New (intEnv getenv ''RATE_LIMIT_HUMAN_PER_MINUTE'' 300) (intEnv getenv ''RATE_LIMIT_HUMAN_BURST'' 60)),
      (limitService, limiter_New (intEnv getenv ''RATE_LIMIT_SERVICE_PER_MINUTE'' 1200) (intEnv getenv ''RATE_LIMIT_SERVICE_BURST'' 200)),
      (limitAI, limiter_New (intEnv getenv ''RATE_LIMIT_AI_PER_MINUTE'' 20) (intEnv getenv ''RATE_LIMIT_AI_BURST'' 5)),
      (limitSearch, limiter_New (intEnv getenv ''RATE_LIMIT_SEARCH_PER_MINUTE'' 120) (intEnv getenv ''RATE_LIMIT_SEARCH_BURST'' 30))]"

definition forClass :: "(string \<times> Limiter) list \<Rightarrow> string \<Rightarrow> Limiter option" where
  "forClass limits class = map_of limits class"

text \<open>The Retry-After header of a refusal, in whole seconds.\<close>

definition retry_after :: "int \<Rightarrow> int" where
  "retry_after wait = (wait + ns_per_second - 1) div ns_per_second"

definition limit_requests :: "string \<Rightarrow> int \<Rightarrow> 'b handler \<Rightarrow> 'b handler" where
  "limit_requests class now next caller st =
     (case forClass (st_limits st) class of
        None \<Rightarrow> next caller st
      | Some limiter \<Rightarrow>
          if \<not> Enabled limiter then next caller st
          else if principalKey caller = [] then next caller st
          else (case limiter_Allow now (principalKey caller) limiter of
                  (allowed, wait, limiter') \<Rightarrow>
                    (let st1 = st \<lparr> st_limits := AList.update class limiter' (st_limits st) \<rparr>
                     in if allowed then next caller st1
                        else (reply_error 429 ''too many requests'' ''rate_limited'', st1))))"

subsection \<open>The route table\<close>

definition authNone :: string where "authNone = ''none''"
definition authHuman :: string where "authHuman = ''human''"
definition authService :: string where "authService = ''service''"

record route =
  rte_Method :: string
  rte_Path :: string
  rte_Auth :: string
  rte_Permission :: string
  rte_ResourceScope :: string
  rte_Class :: string
  rte_Handler :: string

definition rte :: "string \<Rightarrow> string \<Rightarrow> string \<Rightarrow> string \<Rightarrow> string \<Rightarrow> string \<Rightarrow> string \<Rightarrow> route" where
  "rte m p a perm sc cl h = \<lparr> rte_Method = m, rte_Path = p, rte_Auth = a, rte_Permission = perm,
     rte_ResourceScope = sc, rte_Class = cl, rte_Handler = h \<rparr>"

definition Pattern :: "route \<Rightarrow> string" where
  "Pattern r = rte_Method r @ '' '' @ rte_Path r"

definition routes :: "route list" where
  "routes =
     [
      rte ''GET'' ''/health'' authNone [] [] limitNone ''health'',
      rte ''GET'' ''/readyz'' authNone [] [] limitNone ''readiness'',
      rte ''GET'' ''/metrics'' authNone [] [] limitNone ''metrics'',
      rte ''GET'' ''/api/v1/me'' authHuman [] [] limitNone ''me'',
      rte ''GET'' ''/api/v1/modules'' authHuman [] [] limitNone ''modules'',
      rte ''GET'' ''/api/v1/clients'' authHuman ''crm.client.read'' [] limitNone ''listClients'',
      rte ''GET'' ''/api/v1/clients/{id}'' authHuman ''crm.client.read'' ScopeClient limitNone ''getClient'',
      rte ''GET'' ''/api/v1/contacts'' authHuman ''crm.client.read'' [] limitNone ''listContacts'',
      rte ''GET'' ''/api/v1/contacts/{id}'' authHuman ''crm.client.read'' ScopeResource limitNone ''getContact'',
      rte ''GET'' ''/api/v1/projects'' authHuman ''projects.task.read'' [] limitNone ''listProjects'',
      rte ''GET'' ''/api/v1/projects/{id}'' authHuman ''projects.task.read'' ScopeProject limitNone ''getProject'',
      rte ''GET'' ''/api/v1/issues'' authHuman ''projects.task.read'' [] limitNone ''listIssues'',
      rte ''GET'' ''/api/v1/issues/{id}'' authHuman ''projects.task.read'' ScopeResource limitNone ''getIssue'',
      rte ''GET'' ''/api/v1/documents'' authHuman ''wiki.document.read'' [] limitNone ''listDocuments'',
      rte ''GET'' ''/api/v1/documents/{id}'' authHuman ''wiki.document.read'' ScopeResource limitNone ''getDocument'',
      rte ''POST'' ''/api/v1/ai/ask'' authHuman ''ai.query'' [] limitAI ''aiAsk'',
      rte ''GET'' ''/api/v1/ai/audit'' authHuman ''*'' [] limitNone ''aiAudit'',
      rte ''GET'' ''/api/v1/incidents'' authHuman ''support.incident.read'' [] limitNone ''listSupportRecords'',
      rte ''POST'' ''/api/v1/incidents'' authHuman ''support.incident.write'' [] limitNone ''createSupportRecord'',
      rte ''GET'' ''/api/v1/incidents/{id}'' authHuman ''support.incident.read'' ScopeClient limitNone ''getSupportRecord'',
      rte ''PATCH'' ''/api/v1/incidents/{id}'' authHuman ''support.incident.write'' ScopeClient limitNone ''updateSupportRecord'',
      rte ''GET'' ''/api/v1/servers'' authHuman ''operations.server.read'' [] limitNone ''listServers'',
      rte ''GET'' ''/api/v1/servers/{id}'' authHuman ''operations.server.read'' ScopeClient limitNone ''getServer'',
      rte ''GET'' ''/api/v1/operations/events'' authHuman ''operations.server.read'' [] limitNone ''listOperationsEvents'',
      rte ''POST'' ''/api/v1/global-ids'' authHuman ''*'' [] limitNone ''createGlobalID'',
      rte ''GET'' ''/api/v1/global-ids/{id}'' authHuman ''*'' [] limitNone ''resolveGlobalID'',
      rte ''GET'' ''/api/v1/global-ids/{id}/relationships'' authHuman ''relationships.read'' [] limitNone ''listGlobalIDRelationships'',
      rte ''GET'' ''/api/v1/search'' authHuman [] [] limitSearch ''search'',
      rte ''GET'' ''/api/v1/notifications'' authHuman [] [] limitNone ''listNotifications'',
      rte ''POST'' ''/api/v1/notifications/{id}/read'' authHuman [] [] limitNone ''markNotificationRead'',
      rte ''GET'' ''/api/v1/audit'' authHuman ''*'' [] limitNone ''auditEvents'',
      rte ''GET'' ''/api/v1/admin/users'' authHuman ''identity.user.read'' [] limitNone ''adminUsers'',
      rte ''GET'' ''/api/v1/admin/accounts'' authHuman ''identity.user.read'' [] limitNone ''adminAccounts'',
      rte ''POST'' ''/api/v1/admin/accounts'' authHuman ''identity.user.manage'' [] limitNone ''adminCreateAccount'',
      rte ''PATCH'' ''/api/v1/admin/accounts/{id}'' authHuman ''identity.user.manage'' [] limitNone ''adminUpdateAccount'',
      rte ''POST'' ''/api/v1/admin/accounts/{id}/password'' authHuman ''identity.user.manage'' [] limitNone ''adminSetAccountPassword'',
      rte ''GET'' ''/api/v1/admin/modules'' authHuman ''module.admin'' [] limitNone ''adminModules'',
      rte ''POST'' ''/api/v1/admin/modules'' authHuman ''module.admin'' [] limitNone ''adminCreateModule'',
      rte ''GET'' ''/api/v1/admin/modules/allowed-origins'' authHuman ''module.admin'' [] limitNone ''adminModuleAllowedOrigins'',
      rte ''PATCH'' ''/api/v1/admin/modules/{id}'' authHuman ''module.admin'' [] limitNone ''adminUpdateModule'',
      rte ''GET'' ''/api/v1/admin/rbac/roles'' authHuman ''*'' [] limitNone ''adminRoles'',
      rte ''GET'' ''/api/v1/admin/rbac/scopes'' authHuman ''*'' [] limitNone ''adminListScopes'',
      rte ''POST'' ''/api/v1/admin/rbac/scopes'' authHuman ''*'' [] limitNone ''adminAddScope'',
      rte ''DELETE'' ''/api/v1/admin/rbac/scopes'' authHuman ''*'' [] limitNone ''adminDeleteScope'',
      rte ''GET'' ''/api/service/v1/whoami'' authService [] [] limitNone ''serviceWhoAmI'',
      rte ''GET'' ''/api/service/v1/adapters'' authService ''adapters.read'' [] limitNone ''serviceAdapters'',
      rte ''GET'' ''/api/service/v1/adapters/health'' authService ''adapters.read'' [] limitNone ''serviceAdapterHealth'',
      rte ''POST'' ''/api/service/v1/events'' authService ''events.publish'' [] limitNone ''servicePublishEvent'',
      rte ''POST'' ''/api/service/v1/notifications'' authService ''notifications.publish'' [] limitNone ''servicePublishNotification'',
      rte ''POST'' ''/api/service/v1/servers'' authService ''operations.report'' [] limitNone ''serviceRegisterServer'',
      rte ''POST'' ''/api/service/v1/operations/events'' authService ''operations.report'' [] limitNone ''serviceReportOperationsEvent'',
      rte ''POST'' ''/api/service/v1/search/documents'' authService ''search.index'' [] limitNone ''serviceIndexSearchDocuments'',
      rte ''DELETE'' ''/api/service/v1/search/documents/{id}'' authService ''search.index'' [] limitNone ''serviceDeleteSearchDocument'',
      rte ''POST'' ''/api/service/v1/relationships'' authService ''relationships.write'' [] limitNone ''serviceCreateRelationship'',
      rte ''GET'' ''/api/service/v1/relationships'' authService ''relationships.read'' [] limitNone ''serviceListRelationships'',
      rte ''DELETE'' ''/api/service/v1/relationships/{id}'' authService ''relationships.write'' [] limitNone ''serviceDeleteRelationship'']"

definition routePatterns :: "string list" where
  "routePatterns = sort (map Pattern routes)"

definition classOf :: "route \<Rightarrow> string" where
  "classOf r =
     (if rte_Class r \<noteq> limitNone then rte_Class r
      else if rte_Auth r = authHuman then limitHuman
      else if rte_Auth r = authService then limitService
      else limitNone)"

text \<open>What handler wraps around the handler of one route; header is the Authorization header.\<close>

definition serve ::
  "down \<Rightarrow> IdEnv \<Rightarrow> RequestContext \<Rightarrow> string \<Rightarrow> route \<Rightarrow> 'b handler \<Rightarrow> Site \<Rightarrow> 'b Reply \<times> Site" where
  "serve down env rx header r h =
     (let h1 = (if rte_Auth r \<noteq> authNone \<and> rte_ResourceScope r = []
                then (\<lambda>caller st. authorize down (pf_db (st_pf st)) (principalFrom caller) (rte_Permission r) (h caller) st)
                else h);
          h2 = limit_requests (classOf r) (ie_later env) h1
      in if rte_Auth r = authHuman then authenticate down env rx header h2
         else if rte_Auth r = authService then authenticateService down env rx header h2
         else h2 Nobody)"

subsection \<open>The operational and identity endpoints\<close>

record healthResponse =
  hl_Status :: string
  hl_Database :: string
  hl_Nats :: string

definition health :: "down \<Rightarrow> healthResponse Reply" where
  "health down =
     (let database = (if down ''ping'' then ''error'' else ''ok'');
          nats = (if down ''bus'' then ''degraded'' else ''ok'');
          status = (if database = ''error'' \<or> nats = ''degraded'' then ''degraded'' else ''ok'')
      in reply (if database = ''error'' then 503 else 200)
           \<lparr> hl_Status = status, hl_Database = database, hl_Nats = nats \<rparr>)"

text \<open>The checks of readiness; circuits are the breaker states of the registered adapters.\<close>

definition readiness :: "down \<Rightarrow> (string \<times> string) list \<Rightarrow> (string \<times> (string \<times> string) list) Reply" where
  "readiness down circuits =
     (if down ''ping'' then reply 503 (''not_ready'', [(''database'', ''error'')])
      else reply 200 (''ready'',
        [(''database'', ''ok''), (''nats'', if down ''bus'' then ''degraded'' else ''ok'')]
        @ map (\<lambda>(i, s). (''adapter:'' @ i, ''circuit_'' @ s)) (filter (\<lambda>(i, s). s \<noteq> ''closed'') circuits)))"

definition me :: "meResponse \<Rightarrow> meResponse Reply" where
  "me access = reply 200 access"

definition serviceWhoAmI :: "servicePrincipal \<Rightarrow> servicePrincipal Reply" where
  "serviceWhoAmI s = reply 200 s"

subsection \<open>What a request must pass to reach a handler\<close>

definition human_caller :: "down \<Rightarrow> IdEnv \<Rightarrow> RequestContext \<Rightarrow> string \<Rightarrow> Site \<Rightarrow> Caller \<Rightarrow> Site \<Rightarrow> bool" where
  "human_caller down env rx header st caller st1 \<longleftrightarrow>
     (\<exists>info tokens globalUserID created db access. HasPrefix header bearer \<and>
        identify env (drop (length bearer) header) (st_tokens st) = (Ok info, tokens) \<and>
        EnsureIdentity down rx (identity_of info) (pf_db (st_pf st)) = (Ok (globalUserID, created), db) \<and>
        resolveAccess down info globalUserID db = Ok access \<and> caller = Human access \<and>
        st1 = st \<lparr> st_tokens := tokens, st_pf := (st_pf st) \<lparr> pf_db := db \<rparr> \<rparr>)"

definition service_caller :: "down \<Rightarrow> IdEnv \<Rightarrow> RequestContext \<Rightarrow> string \<Rightarrow> Site \<Rightarrow> Caller \<Rightarrow> Site \<Rightarrow> bool" where
  "service_caller down env rx header st caller st1 \<longleftrightarrow>
     (\<exists>info tokens globalID created db profile. HasPrefix header bearer \<and>
        identify env (drop (length bearer) header) (st_tokens st) = (Ok info, tokens) \<and>
        serviceGroup \<in> set (ui_Groups info) \<and>
        EnsureServiceIdentity down rx (service_identity_of info) (pf_db (st_pf st)) = (Ok (globalID, created), db) \<and>
        ResolveAccess down (unique (ui_Groups info)) ''service'' db = Ok profile \<and>
        caller = Service \<lparr> sp2_ID = globalID, sp2_Subject = ui_Sub info, sp2_Name = svi_Name (service_identity_of info),
          sp2_Username = username_of info, sp2_Groups = unique (ui_Groups info),
          sp2_Roles = ap_Roles profile, sp2_Permissions = ap_Permissions profile \<rparr> \<and>
        st1 = st \<lparr> st_tokens := tokens, st_pf := (st_pf st) \<lparr> pf_db := db \<rparr> \<rparr>)"

text \<open>Each layer either answers by itself, whatever it wraps, or hands on to what it wraps.\<close>

lemma authenticationStatus_range: "fst (authenticationStatus e) \<in> {401, 503}"
  by (auto simp: authenticationStatus_def split: AuthError.splits OidcError.splits)

lemma authenticate_factor:
  "(\<exists>rp st'. rp_Status rp \<in> {401, 503} \<and> (\<forall>next :: 'b handler. authenticate down env rx header next st = (rp, st'))) \<or>
   (\<exists>caller st1. human_caller down env rx header st caller st1 \<and>
      (\<forall>next :: 'b handler. authenticate down env rx header next st = next caller st1))"
proof (cases "HasPrefix header bearer")
  case False
  then show ?thesis by (intro disjI1) (simp add: authenticate_def)
next
  case True
  obtain r tokens where i: "identify env (drop (length bearer) header) (st_tokens st) = (r, tokens)"
    by (cases "identify env (drop (length bearer) header) (st_tokens st)")
  show ?thesis
  proof (cases r)
    case (Inl e)
    then show ?thesis using True i authenticationStatus_range [of e]
      by (intro disjI1) (cases "authenticationStatus e", auto simp: authenticate_def)
  next
    case (Inr info)
    obtain r2 db where e: "EnsureIdentity down rx (identity_of info) (pf_db (st_pf st)) = (r2, db)"
      by (cases "EnsureIdentity down rx (identity_of info) (pf_db (st_pf st))")
    show ?thesis
    proof (cases r2)
      case (Inl _)
      then show ?thesis using True i Inr e by (intro disjI1) (simp add: authenticate_def)
    next
      case r2: (Inr gc)
      obtain g c where gc: "gc = (g, c)" by (cases gc)
      show ?thesis
      proof (cases "resolveAccess down info g db")
        case (Inl _)
        then show ?thesis using True i \<open>r = Inr info\<close> e r2 gc by (intro disjI1) (simp add: authenticate_def Let_def)
      next
        case acc: (Inr access)
        then have "human_caller down env rx header st (Human access) (st \<lparr> st_tokens := tokens, st_pf := (st_pf st) \<lparr> pf_db := db \<rparr> \<rparr>)"
          using True i \<open>r = Inr info\<close> e r2 gc unfolding human_caller_def by blast
        moreover have "authenticate down env rx header nx st =
            nx (Human access) (st \<lparr> st_tokens := tokens, st_pf := (st_pf st) \<lparr> pf_db := db \<rparr> \<rparr>)" for nx :: "'b handler"
          using True i \<open>r = Inr info\<close> e r2 gc acc by (simp add: authenticate_def Let_def)
        ultimately show ?thesis by blast
      qed
    qed
  qed
qed

lemma authenticateService_factor:
  "(\<exists>rp st'. rp_Status rp \<in> {401, 403, 503} \<and> (\<forall>next :: 'b handler. authenticateService down env rx header next st = (rp, st'))) \<or>
   (\<exists>caller st1. service_caller down env rx header st caller st1 \<and>
      (\<forall>next :: 'b handler. authenticateService down env rx header next st = next caller st1))"
proof (cases "HasPrefix header bearer")
  case False
  then show ?thesis by (intro disjI1) (simp add: authenticateService_def)
next
  case True
  obtain r tokens where i: "identify env (drop (length bearer) header) (st_tokens st) = (r, tokens)"
    by (cases "identify env (drop (length bearer) header) (st_tokens st)")
  show ?thesis
  proof (cases r)
    case (Inl e)
    then show ?thesis using True i authenticationStatus_range [of e]
      by (intro disjI1) (cases "authenticationStatus e", auto simp: authenticateService_def)
  next
    case (Inr info)
    show ?thesis
    proof (cases "serviceGroup \<in> set (ui_Groups info)")
      case False
      then show ?thesis using True i Inr by (intro disjI1) (simp add: authenticateService_def)
    next
      case grp: True
      obtain r2 db where e: "EnsureServiceIdentity down rx (service_identity_of info) (pf_db (st_pf st)) = (r2, db)"
        by (cases "EnsureServiceIdentity down rx (service_identity_of info) (pf_db (st_pf st))")
      show ?thesis
      proof (cases r2)
        case (Inl _)
        then show ?thesis using True i Inr e grp by (intro disjI1) (simp add: authenticateService_def)
      next
        case r2: (Inr gc)
        obtain g c where gc: "gc = (g, c)" by (cases gc)
        have sv: "svi_Groups (service_identity_of info) = unique (ui_Groups info)"
          "svi_Subject (service_identity_of info) = ui_Sub info"
          "svi_Username (service_identity_of info) = username_of info" by (simp_all add: service_identity_of_def)
        let ?st1 = "st \<lparr> st_tokens := tokens, st_pf := (st_pf st) \<lparr> pf_db := db \<rparr> \<rparr>"
        show ?thesis
        proof (cases "ResolveAccess down (unique (ui_Groups info)) ''service'' db")
          case (Inl _)
          then show ?thesis using True i \<open>r = Inr info\<close> e r2 gc grp
            by (intro disjI1) (simp add: authenticateService_def Let_def sv)
        next
          case acc: (Inr profile)
          let ?caller = "Service \<lparr> sp2_ID = g, sp2_Subject = ui_Sub info, sp2_Name = svi_Name (service_identity_of info),
            sp2_Username = username_of info, sp2_Groups = unique (ui_Groups info),
            sp2_Roles = ap_Roles profile, sp2_Permissions = ap_Permissions profile \<rparr>"
          have "service_caller down env rx header st ?caller ?st1"
            using True i \<open>r = Inr info\<close> e r2 gc acc grp unfolding service_caller_def by blast
          moreover have "authenticateService down env rx header nx st = nx ?caller ?st1" for nx :: "'b handler"
            using True i \<open>r = Inr info\<close> e r2 gc acc grp by (simp add: authenticateService_def Let_def sv)
          ultimately show ?thesis by blast
        qed
      qed
    qed
  qed
qed

text \<open>The allowance of the caller's class was not spent.\<close>

definition within_limit :: "string \<Rightarrow> int \<Rightarrow> Caller \<Rightarrow> Site \<Rightarrow> bool" where
  "within_limit class now caller st =
     (case forClass (st_limits st) class of
        None \<Rightarrow> True
      | Some limiter \<Rightarrow> principalKey caller = [] \<or> fst (limiter_Allow now (principalKey caller) limiter))"

lemma limit_factor:
  "(\<exists>rp st'. rp_Status rp = 429 \<and> (\<forall>next :: 'b handler. limit_requests class now next caller st = (rp, st'))) \<or>
   (\<exists>st1. within_limit class now caller st \<and> st_pf st1 = st_pf st \<and>
      (\<forall>next :: 'b handler. limit_requests class now next caller st = next caller st1))"
proof (cases "forClass (st_limits st) class")
  case None
  then show ?thesis by (intro disjI2 exI [of _ st]) (simp add: limit_requests_def within_limit_def)
next
  case (Some limiter)
  show ?thesis
  proof (cases "\<not> Enabled limiter \<or> principalKey caller = []")
    case True
    then show ?thesis using Some
      by (intro disjI2 exI [of _ st]) (auto simp: limit_requests_def within_limit_def limiter_Allow_def)
  next
    case False
    obtain allowed wait limiter' where a: "limiter_Allow now (principalKey caller) limiter = (allowed, wait, limiter')"
      by (cases "limiter_Allow now (principalKey caller) limiter")
    show ?thesis
    proof (cases allowed)
      case True
      then show ?thesis using Some False a
        by (intro disjI2 exI [of _ "st \<lparr> st_limits := AList.update class limiter' (st_limits st) \<rparr>"])
          (simp add: limit_requests_def within_limit_def)
    next
      case no: False
      then show ?thesis using Some False a by (intro disjI1) (simp add: limit_requests_def)
    qed
  qed
qed

definition permitted :: "down \<Rightarrow> Caller \<Rightarrow> string \<Rightarrow> Site \<Rightarrow> bool" where
  "permitted down caller permission st \<longleftrightarrow>
     (\<exists>d. Evaluate (platform_authz down (pf_db (st_pf st))) (principalFrom caller) permission Global = Ok d \<and> dc_Allowed d)"

lemma authorize_factor:
  "(\<exists>rp. rp_Status rp \<in> {403, 503} \<and> (\<forall>next :: Site \<Rightarrow> 'b Reply \<times> Site.
      authorize down (pf_db (st_pf st)) (principalFrom caller) permission next st = (rp, st))) \<or>
   permitted down caller permission st \<and> (\<forall>next :: Site \<Rightarrow> 'b Reply \<times> Site.
      authorize down (pf_db (st_pf st)) (principalFrom caller) permission next st = next st)"
proof (cases "Evaluate (platform_authz down (pf_db (st_pf st))) (principalFrom caller) permission Global")
  case (Inl e)
  then show ?thesis by (intro disjI1) (simp add: authorize_def authz_unavailable_def)
next
  case (Inr d)
  show ?thesis
  proof (cases "dc_Allowed d")
    case True
    then show ?thesis using Inr by (intro disjI2) (simp add: authorize_def permitted_def)
  next
    case False
    then show ?thesis using Inr by (intro disjI1) (simp add: authorize_def writeDenied_def)
  qed
qed

subsection \<open>The route table\<close>

text \<open>The boundary a route's path announces: the machine API, the rest of the API, the operational endpoints.\<close>

definition announced_boundary :: "route \<Rightarrow> bool" where
  "announced_boundary r =
     (if HasPrefix (rte_Path r) ''/api/service/v1/'' then rte_Auth r = authService
      else if HasPrefix (rte_Path r) ''/api/v1/'' then rte_Auth r = authHuman
      else rte_Auth r = authNone \<and> rte_Method r = ''GET'' \<and> \<not> HasPrefix (rte_Path r) ''/api/'')"

lemma routes_announced: "list_all announced_boundary routes"
  by code_simp

lemma serve_factor:
  assumes auth: "(\<exists>rp st'. rp_Status rp \<in> {401, 403, 503} \<and> (\<forall>next :: 'b handler. boundary next st = (rp, st'))) \<or>
      (\<exists>caller st1. let_in caller st1 \<and> (\<forall>next :: 'b handler. boundary next st = next caller st1))"
    and s: "\<And>h :: 'b handler. serve down env rx header r h st = boundary (limit_requests (classOf r) (ie_later env)
      (if rte_ResourceScope r = []
       then (\<lambda>caller st. authorize down (pf_db (st_pf st)) (principalFrom caller) (rte_Permission r) (h caller) st)
       else h)) st"
  shows "(\<exists>rp st'. rp_Status rp \<in> {401, 403, 429, 503} \<and> (\<forall>h :: 'b handler. serve down env rx header r h st = (rp, st'))) \<or>
    (\<exists>caller st1 st2. let_in caller st1 \<and> within_limit (classOf r) (ie_later env) caller st1 \<and> st_pf st2 = st_pf st1 \<and>
       (rte_ResourceScope r = [] \<longrightarrow> permitted down caller (rte_Permission r) st2) \<and>
       (\<forall>h :: 'b handler. serve down env rx header r h st = h caller st2))"
  using auth
proof
  assume "\<exists>rp st'. rp_Status rp \<in> {401, 403, 503} \<and> (\<forall>next :: 'b handler. boundary next st = (rp, st'))"
  then obtain rp st' where "rp_Status rp \<in> {401, 403, 503}" "\<And>h :: 'b handler. serve down env rx header r h st = (rp, st')"
    unfolding s by auto
  then show ?thesis by (intro disjI1 exI [of _ rp] exI [of _ st']) auto
next
  assume "\<exists>caller st1. let_in caller st1 \<and> (\<forall>next :: 'b handler. boundary next st = next caller st1)"
  then obtain caller st1 where c: "let_in caller st1" "\<And>next :: 'b handler. boundary next st = next caller st1" by blast
  from limit_factor [of "classOf r" "ie_later env" caller st1, where 'b = 'b]
  show ?thesis
  proof (elim disjE exE conjE)
    fix rp st'
    assume "rp_Status rp = 429" "\<forall>next :: 'b handler. limit_requests (classOf r) (ie_later env) next caller st1 = (rp, st')"
    then show ?thesis by (intro disjI1 exI [of _ rp] exI [of _ st']) (simp add: s c(2))
  next
    fix st2
    assume l: "within_limit (classOf r) (ie_later env) caller st1" "st_pf st2 = st_pf st1"
      "\<forall>next :: 'b handler. limit_requests (classOf r) (ie_later env) next caller st1 = next caller st2"
    show ?thesis
    proof (cases "rte_ResourceScope r = []")
      case False
      then show ?thesis using c(1) l
        by (intro disjI2 exI [of _ caller] exI [of _ st1] exI [of _ st2]) (simp add: s c(2))
    next
      case True
      from authorize_factor [where 'b = 'b and down = down and caller = caller and st = st2 and permission = "rte_Permission r"]
      show ?thesis
      proof (elim disjE exE conjE)
        fix rp
        assume "rp_Status rp \<in> {403, 503}" "\<forall>next :: Site \<Rightarrow> 'b Reply \<times> Site.
          authorize down (pf_db (st_pf st2)) (principalFrom caller) (rte_Permission r) next st2 = (rp, st2)"
        then show ?thesis using l True by (intro disjI1 exI [of _ rp] exI [of _ st2]) (auto simp: s c(2))
      next
        assume "permitted down caller (rte_Permission r) st2" "\<forall>next :: Site \<Rightarrow> 'b Reply \<times> Site.
          authorize down (pf_db (st_pf st2)) (principalFrom caller) (rte_Permission r) next st2 = next st2"
        then show ?thesis using c(1) l True
          by (intro disjI2 exI [of _ caller] exI [of _ st1] exI [of _ st2]) (simp add: s c(2))
      qed
    qed
  qed
qed

text \<open>
  C2.  No handler of the API runs unguarded.  For every route of the table under /api and every handler put
  behind it, either the request is refused with 401, 403, 429 or 503 without the handler having any part in it, or the handler
  runs on a caller whom the route's own boundary admitted (a service of the service group for the machine API,
  a person with resolved access elsewhere), whose allowance was not spent, and who holds the route's permission globally
  unless the route leaves the evaluation to its handler.
\<close>

theorem handler_guarded:
  assumes "r \<in> set routes" "HasPrefix (rte_Path r) ''/api/''"
  shows "(\<exists>rp st'. rp_Status rp \<in> {401, 403, 429, 503} \<and> (\<forall>h :: 'b handler. serve down env rx header r h st = (rp, st'))) \<or>
    (\<exists>caller st1 st2. (if HasPrefix (rte_Path r) ''/api/service/v1/'' then service_caller down env rx header st caller st1
         else human_caller down env rx header st caller st1) \<and>
       within_limit (classOf r) (ie_later env) caller st1 \<and> st_pf st2 = st_pf st1 \<and>
       (rte_ResourceScope r = [] \<longrightarrow> permitted down caller (rte_Permission r) st2) \<and>
       (\<forall>h :: 'b handler. serve down env rx header r h st = h caller st2))"
proof -
  have "announced_boundary r" using routes_announced assms(1) by (simp add: list_all_iff)
  note k = this [unfolded announced_boundary_def]
  have ne: "authService \<noteq> authNone" "authHuman \<noteq> authNone" "authService \<noteq> authHuman"
    by (simp_all add: authNone_def authHuman_def authService_def)
  show ?thesis
  proof (cases "HasPrefix (rte_Path r) ''/api/service/v1/''")
    case True
    then have "rte_Auth r = authService" using k by simp
    then show ?thesis unfolding if_P [OF True]
      by (intro serve_factor [where boundary = "authenticateService down env rx header"] authenticateService_factor)
        (simp add: serve_def Let_def ne)
  next
    case False
    then have a: "rte_Auth r = authHuman" using k assms(2) by (simp split: if_splits)
    show ?thesis unfolding if_not_P [OF False]
    proof (rule serve_factor [where boundary = "authenticate down env rx header"])
      show "(\<exists>rp st'. rp_Status rp \<in> {401, 403, 503} \<and> (\<forall>next :: 'b handler. authenticate down env rx header next st = (rp, st'))) \<or>
        (\<exists>caller st1. human_caller down env rx header st caller st1 \<and>
          (\<forall>next :: 'b handler. authenticate down env rx header next st = next caller st1))"
        using authenticate_factor [where 'b = 'b and down = down and env = env and rx = rx and header = header and st = st] by auto
    qed (simp add: serve_def Let_def a ne)
  qed
qed

text \<open>
  A divergence: without a local verifier, which is the default, an identity provider that cannot be reached makes every
  bearer token answer 401, on both boundaries, although the status is meant to tell a caller whose token is
  bad from one whose token could not be checked.
\<close>

theorem userinfo_outage_is_401:
  assumes "HasPrefix header bearer" "st_tokens st = None" "ie_userinfo env (drop (length bearer) header) = None"
  shows "authenticate down env rx header next st = (reply_error 401 ''invalid or expired token'' [], st) \<and>
    authenticateService down env rx header next st = (reply_error 401 ''invalid or expired token'' [], st)"
proof -
  obtain e where "identify env (drop (length bearer) header) (st_tokens st) = (Err (UserInfoErr e), None)"
    using assms(2,3) by (cases "ie_userinfo_url env = []") (simp_all add: identify_def fetchUserInfo_def)
  then show ?thesis using assms(1,2)
    by (cases st) (simp add: authenticate_def authenticateService_def authenticationStatus_def)
qed

subsection \<open>The properties at concrete inputs\<close>

definition sample_user :: userInfo where
  "sample_user = \<lparr> ui_Sub = ''s1'', ui_Email = ''a@b'', ui_Name = ''A'', ui_PreferredUsername = [],
     ui_Groups = [''BSYSTEM-Customers''] \<rparr>"

definition sample_env :: IdEnv where
  "sample_env = \<lparr> ie_wire = sample_wire, ie_fetch = sample_fetch, ie_now = 0, ie_later = 0,
     ie_userinfo_url = ''https://id/u'', ie_userinfo = (\<lambda>t. if t = ''tok'' then Some (200, Some sample_user) else None) \<rparr>"

definition sample_site :: Site where
  "sample_site = \<lparr> st_pf = platform_of sample_db, st_tokens = None, st_limits = newLimits (\<lambda>_. []) \<rparr>"

definition sample_route :: route where
  "sample_route = rte ''GET'' ''/api/v1/notifications'' authHuman [] [] limitNone ''listNotifications''"

definition sample_handler :: "unit handler" where
  "sample_handler caller st = (reply 299 (), st)"

theorem handler_guarded_witness:
  "\<exists>caller st1 st2. human_caller all_up sample_env sample_rx ''Bearer tok'' sample_site caller st1 \<and>
     serve all_up sample_env sample_rx ''Bearer tok'' sample_route sample_handler sample_site = sample_handler caller st2"
proof -
  have m: "sample_route \<in> set routes" by code_simp
  have p: "HasPrefix (rte_Path sample_route) ''/api/''" by code_simp
  have np: "\<not> HasPrefix (rte_Path sample_route) ''/api/service/v1/''" by code_simp
  have "rp_Status (fst (serve all_up sample_env sample_rx ''Bearer tok'' sample_route sample_handler sample_site)) = 299"
    by code_simp
  then show ?thesis
    using handler_guarded [OF m p, where 'b = unit, of all_up sample_env sample_rx "''Bearer tok''" sample_site] np by fastforce
qed

theorem userinfo_outage_is_401_witness:
  "fst (authenticate all_up sample_env sample_rx ''Bearer other'' sample_handler sample_site) =
     reply_error 401 ''invalid or expired token'' []"
proof -
  have b: "HasPrefix ''Bearer other'' bearer" by code_simp
  have t: "st_tokens sample_site = None" by (simp add: sample_site_def)
  have o: "ie_userinfo sample_env (drop (length bearer) ''Bearer other'') = None" by code_simp
  from userinfo_outage_is_401 [OF b t o, of all_up sample_rx sample_handler] show ?thesis by simp
qed

end
