(* ===== verification/Relationships.thy ===== *)
theory Relationships
  imports Boundary
begin

section \<open>Relationships between Global IDs (platformdb/relationships.go, cmd/server/relationships.go)\<close>

text \<open>
  Typed edges between identifiers that exist: the vocabulary and its inverse labels, the store with its
  audit and event in the same transaction, and the machine and human handlers, which act for an end user whose
  own token they re-verify.  The map of labels is a list of pairs.  Error texts that quote a value are
  kept without it, and numbers in the event's data are in their decimal form.
\<close>

subsection \<open>Vocabulary\<close>

definition relationVocabulary :: "(string \<times> string) list" where
  "relationVocabulary =
     [(''related-to'', ''related-to''),
      (''tests'', ''tested-by''),
      (''validates'', ''validated-by''),
      (''documents'', ''documented-by''),
      (''implements'', ''implemented-by''),
      (''depends-on'', ''required-by''),
      (''blocks'', ''blocked-by''),
      (''references'', ''referenced-by'')]"

definition inverseVocabulary :: "(string \<times> string) list" where
  "inverseVocabulary = map (\<lambda>(f, i). (i, f)) (filter (\<lambda>(f, i). f \<noteq> i) relationVocabulary)"

text \<open>The canonical label and whether the endpoints are to be swapped.\<close>

definition normalizeRelation :: "string \<Rightarrow> (string \<times> bool) option" where
  "normalizeRelation label =
     (if map_of relationVocabulary label \<noteq> None then Some (label, False)
      else case map_of inverseVocabulary label of
        Some forward \<Rightarrow> Some (forward, True)
      | None \<Rightarrow> None)"

definition InverseRelation :: "string \<Rightarrow> string option" where
  "InverseRelation canonical = map_of relationVocabulary canonical"

record RelationshipActor =
  ra_UserGlobalID :: string
  ra_ServiceGlobalID :: string
  ra_RequestID :: string

definition actor_validate :: "RelationshipActor \<Rightarrow> DBError option" where
  "actor_validate a = (if ra_UserGlobalID a = [] \<and> ra_ServiceGlobalID a = [] then Some ErrMissingActor else None)"

record RelationshipView =
  rw_GlobalID :: string
  rw_RelationType :: string
  rw_Direction :: string
  rw_CreatedAt :: int

subsection \<open>The store\<close>

definition is_edge :: "string \<Rightarrow> string \<Rightarrow> string \<Rightarrow> Relationship \<Rightarrow> bool" where
  "is_edge fr rel to r \<longleftrightarrow> rl_FromGlobalID r = fr \<and> rl_RelationType r = rel \<and> rl_ToGlobalID r = to"

definition find_edge :: "string \<Rightarrow> string \<Rightarrow> string \<Rightarrow> Platform \<Rightarrow> Relationship option" where
  "find_edge fr rel to pf = find (is_edge fr rel to) (pf_relationships pf)"

definition known_id :: "string \<Rightarrow> Platform \<Rightarrow> bool" where
  "known_id i pf \<longleftrightarrow> i \<in> ge_GlobalID ` set (db_entities (pf_db pf))"

definition edge_audit :: "string \<Rightarrow> string \<Rightarrow> RelationshipActor \<Rightarrow> Relationship \<Rightarrow> AuditEvent" where
  "edge_audit action verb actor row =
     \<lparr> au_ID = 0, au_OccurredAt = 0, au_Subject = [], au_GlobalUserID = ra_UserGlobalID actor, au_Action = action,
       au_ResourceType = ''relationship'', au_ResourceID = Itoa (rl_ID row), au_RequestID = ra_RequestID actor,
       au_SourceIP = [],
       au_Metadata = [(''from_global_id'', rl_FromGlobalID row), (''relation_type'', rl_RelationType row),
         (''to_global_id'', rl_ToGlobalID row), (verb @ ''_by_user_id'', ra_UserGlobalID actor),
         (verb @ ''_by_service_id'', ra_ServiceGlobalID actor)] \<rparr>"

definition edge_data :: "string \<Rightarrow> RelationshipActor \<Rightarrow> Relationship \<Rightarrow> (string \<times> string) list" where
  "edge_data verb actor row =
     [(''id'', Itoa (rl_ID row)), (''from_global_id'', rl_FromGlobalID row), (''relation_type'', rl_RelationType row),
      (''to_global_id'', rl_ToGlobalID row), (verb @ ''_by_user_id'', ra_UserGlobalID actor),
      (verb @ ''_by_service_id'', ra_ServiceGlobalID actor)]"

text \<open>The audit row and the event of one mutation, inside its transaction.\<close>

definition record_edge ::
  "down \<Rightarrow> RequestContext \<Rightarrow> string \<Rightarrow> string \<Rightarrow> RelationshipActor \<Rightarrow> Relationship \<Rightarrow> Platform \<Rightarrow> DBError + Platform" where
  "record_edge down rx event verb actor row pf =
     (if down ''audit_insert'' then Err (StoreFailure ''audit_insert'')
      else bind_result
        (queueDurableEvent down rx event (rl_FromGlobalID row) [] (edge_data verb actor row)
          (auditInsert (rx_Now rx) (edge_audit event verb actor row) (pf_db pf)))
        (\<lambda>db. Ok (pf \<lparr> pf_db := db \<rparr>)))"

definition insert_edge ::
  "down \<Rightarrow> RequestContext \<Rightarrow> string \<Rightarrow> string \<Rightarrow> string \<Rightarrow> RelationshipActor \<Rightarrow> Platform
   \<Rightarrow> (DBError + Relationship \<times> bool) \<times> Platform" where
  "insert_edge down rx fr rel to actor =
     transaction down (\<lambda>pf.
       if down ''relationship_insert'' then Err (StoreFailure ''relationship_insert'')
       else case find_edge fr rel to pf of
         Some row \<Rightarrow>
           if down ''relationship_select'' then Err (StoreFailure ''relationship_select'') else Ok ((row, False), pf)
       | None \<Rightarrow>
           if \<not> known_id fr pf \<or> \<not> known_id to pf then Err ErrUnknownGlobalID
           else
             (let row = \<lparr> rl_ID = pf_relationship_seq pf + 1, rl_FromGlobalID = fr, rl_RelationType = rel,
                          rl_ToGlobalID = to, rl_CreatedByUserID = ra_UserGlobalID actor,
                          rl_CreatedByServiceID = ra_ServiceGlobalID actor, rl_CreatedAt = rx_Now rx \<rparr>
              in bind_result
                   (record_edge down rx ''relationship.created'' ''created'' actor row
                     (pf \<lparr> pf_relationships := pf_relationships pf @ [row],
                           pf_relationship_seq := pf_relationship_seq pf + 1 \<rparr>))
                   (\<lambda>pf'. Ok ((row, True), pf'))))"

definition CreateRelationship ::
  "down \<Rightarrow> RequestContext \<Rightarrow> string \<Rightarrow> string \<Rightarrow> string \<Rightarrow> RelationshipActor \<Rightarrow> Platform
   \<Rightarrow> (DBError + Relationship \<times> bool) \<times> Platform" where
  "CreateRelationship down rx fromGlobalID label toGlobalID actor pf =
     (case actor_validate actor of
        Some e \<Rightarrow> (Err e, pf)
      | None \<Rightarrow>
          (case normalizeRelation label of
             None \<Rightarrow> (Err ErrInvalidRelationType, pf)
           | Some (canonical, swap) \<Rightarrow>
               (let fr = (if swap then toGlobalID else fromGlobalID);
                    to = (if swap then fromGlobalID else toGlobalID)
                in if fr = [] \<or> to = [] then (Err ErrUnknownGlobalID, pf)
                   else if fr = to then (Err ErrSelfRelationship, pf)
                   else insert_edge down rx fr canonical to actor pf)))"

definition LookupRelationship ::
  "down \<Rightarrow> string \<Rightarrow> string \<Rightarrow> string \<Rightarrow> Platform \<Rightarrow> DBError + Relationship option" where
  "LookupRelationship down fromGlobalID label toGlobalID pf =
     (case normalizeRelation label of
        None \<Rightarrow> Err ErrInvalidRelationType
      | Some (canonical, swap) \<Rightarrow>
          statement down ''relationship_lookup''
            (find_edge (if swap then toGlobalID else fromGlobalID) canonical
               (if swap then fromGlobalID else toGlobalID) pf))"

definition outgoing_view :: "Relationship \<Rightarrow> RelationshipView" where
  "outgoing_view r = \<lparr> rw_GlobalID = rl_ToGlobalID r, rw_RelationType = rl_RelationType r,
     rw_Direction = ''outgoing'', rw_CreatedAt = rl_CreatedAt r \<rparr>"

definition incoming_view :: "Relationship \<Rightarrow> RelationshipView" where
  "incoming_view r = \<lparr> rw_GlobalID = rl_FromGlobalID r,
     rw_RelationType = (case InverseRelation (rl_RelationType r) of None \<Rightarrow> rl_RelationType r | Some i \<Rightarrow> i),
     rw_Direction = ''incoming'', rw_CreatedAt = rl_CreatedAt r \<rparr>"

text \<open>The union of both directions, ordered by creation; the order among equal times is PostgreSQL's.\<close>

definition ListRelationships :: "down \<Rightarrow> string \<Rightarrow> Platform \<Rightarrow> DBError + RelationshipView list" where
  "ListRelationships down globalID pf =
     statement down ''relationship_list''
       (sort_key rw_CreatedAt
          (map outgoing_view (filter (\<lambda>r. rl_FromGlobalID r = globalID) (pf_relationships pf)) @
           map incoming_view (filter (\<lambda>r. rl_ToGlobalID r = globalID) (pf_relationships pf))))"

definition DeleteRelationship ::
  "down \<Rightarrow> RequestContext \<Rightarrow> int \<Rightarrow> RelationshipActor \<Rightarrow> Platform \<Rightarrow> (DBError + bool) \<times> Platform" where
  "DeleteRelationship down rx i actor pf =
     (case actor_validate actor of
        Some e \<Rightarrow> (Err e, pf)
      | None \<Rightarrow>
          if down ''begin'' then (Err (StoreFailure ''begin''), pf)
          else if down ''relationship_delete'' then (Err (StoreFailure ''relationship_delete''), pf)
          else case find (\<lambda>r. rl_ID r = i) (pf_relationships pf) of
            None \<Rightarrow> (Ok False, pf)
          | Some row \<Rightarrow>
              (case record_edge down rx ''relationship.deleted'' ''deleted'' actor row
                      (pf \<lparr> pf_relationships := filter (\<lambda>r. rl_ID r \<noteq> i) (pf_relationships pf) \<rparr>) of
                 Inl e \<Rightarrow> (Err e, pf)
               | Inr pf' \<Rightarrow> if down ''commit'' then (Err (StoreFailure ''commit''), pf) else (Ok True, pf')))"

subsection \<open>The handlers\<close>

text \<open>The end user whose token the second header carries; Inl is the refusal written.\<close>

definition onBehalfOfUser ::
  "down \<Rightarrow> IdEnv \<Rightarrow> RequestContext \<Rightarrow> string \<Rightarrow> Site \<Rightarrow> ('b Reply + string) \<times> Site" where
  "onBehalfOfUser down env rx header st =
     (if \<not> HasPrefix header bearer
      then (Inl (reply_error 401 ''an on-behalf-of end-user bearer token is required'' ''on_behalf_of_required''), st)
      else case identify env (drop (length bearer) header) (st_tokens st) of
        (Inl e, tokens) \<Rightarrow>
          (case authenticationStatus e of (status, message) \<Rightarrow>
             (Inl (reply_error status message ''on_behalf_of_invalid''), st \<lparr> st_tokens := tokens \<rparr>))
      | (Inr info, tokens) \<Rightarrow>
          (case EnsureIdentity down rx (identity_of info) (pf_db (st_pf st)) of
             (Inl _, db) \<Rightarrow>
               (Inl (reply_error 503 ''identity persistence unavailable'' ''identity_store_unavailable''),
                st \<lparr> st_tokens := tokens \<rparr>)
           | (Inr (globalUserID, _), db) \<Rightarrow>
               (Inr globalUserID, st \<lparr> st_tokens := tokens, st_pf := (st_pf st) \<lparr> pf_db := db \<rparr> \<rparr>)))"

record relationshipRequest =
  rr_FromGlobalID :: string
  rr_RelationType :: string
  rr_ToGlobalID :: string

definition relationshipErrorResponse :: "DBError \<Rightarrow> 'b Reply" where
  "relationshipErrorResponse e =
     (if e = ErrInvalidRelationType then reply_error 400 ''unsupported relation_type'' ''invalid_relation_type''
      else if e = ErrSelfRelationship then reply_error 400 ''a Global ID cannot relate to itself'' ''self_relationship''
      else if e = ErrUnknownGlobalID
      then reply_error 400 ''relationship endpoint is not a known Global ID'' ''unknown_relationship_endpoint''
      else if e = ErrMissingActor
      then reply_error 400 ''relationship requires a user or service actor'' ''relationship_actor_required''
      else reply_error 500 ''relationship could not be processed'' ''relationship_store_unavailable'')"

definition serviceCreateRelationship ::
  "down \<Rightarrow> IdEnv \<Rightarrow> RequestContext \<Rightarrow> string \<Rightarrow> string \<Rightarrow> servicePrincipal \<Rightarrow> relationshipRequest option \<Rightarrow> Site
   \<Rightarrow> Relationship Reply \<times> Site" where
  "serviceCreateRelationship down env rx reqID header caller body st =
     (case onBehalfOfUser down env rx header st of
        (Inl refusal, st1) \<Rightarrow> (refusal, st1)
      | (Inr userGlobalID, st1) \<Rightarrow>
          (case body of
             None \<Rightarrow> (reply_error 400 ''invalid JSON body'' [], st1)
           | Some input \<Rightarrow>
               (let fr = TrimSpace (rr_FromGlobalID input); rel = TrimSpace (rr_RelationType input);
                    to = TrimSpace (rr_ToGlobalID input)
                in if fr = [] \<or> rel = [] \<or> to = []
                   then (reply_error 400 ''from_global_id, relation_type and to_global_id are required'' [], st1)
                   else case CreateRelationship down rx fr rel to
                          \<lparr> ra_UserGlobalID = userGlobalID, ra_ServiceGlobalID = sp2_ID caller, ra_RequestID = reqID \<rparr>
                          (st_pf st1) of
                     (Inl e, pf') \<Rightarrow> (relationshipErrorResponse e, st1 \<lparr> st_pf := pf' \<rparr>)
                   | (Inr (row, created), pf') \<Rightarrow>
                       (reply (if created then 201 else 200) row, st1 \<lparr> st_pf := pf' \<rparr>))))"

definition renderRelationships :: "down \<Rightarrow> string \<Rightarrow> Platform \<Rightarrow> RelationshipView list Reply" where
  "renderRelationships down globalID0 pf =
     (let globalID = TrimSpace globalID0
      in if globalID = [] then reply_error 400 ''global_id is required'' []
         else case ListRelationships down globalID pf of
           Inl _ \<Rightarrow> reply_error 500 ''relationships could not be listed'' ''relationship_store_unavailable''
         | Inr views \<Rightarrow> reply 200 views)"

definition listGlobalIDRelationships :: "down \<Rightarrow> string \<Rightarrow> Platform \<Rightarrow> RelationshipView list Reply" where
  "listGlobalIDRelationships down pathID pf = renderRelationships down pathID pf"

definition serviceListRelationships :: "down \<Rightarrow> string \<Rightarrow> Platform \<Rightarrow> RelationshipView list Reply" where
  "serviceListRelationships down queryID pf = renderRelationships down queryID pf"

definition serviceDeleteRelationship ::
  "down \<Rightarrow> IdEnv \<Rightarrow> RequestContext \<Rightarrow> string \<Rightarrow> string \<Rightarrow> servicePrincipal \<Rightarrow> string \<Rightarrow> Site
   \<Rightarrow> unit Reply \<times> Site" where
  "serviceDeleteRelationship down env rx reqID header caller pathID st =
     (case onBehalfOfUser down env rx header st of
        (Inl refusal, st1) \<Rightarrow> (refusal, st1)
      | (Inr userGlobalID, st1) \<Rightarrow>
          (case ParseInt (TrimSpace pathID) of
             None \<Rightarrow> (reply_error 400 ''relationship id must be a positive integer'' [], st1)
           | Some i \<Rightarrow>
               if i \<le> 0 then (reply_error 400 ''relationship id must be a positive integer'' [], st1)
               else (case DeleteRelationship down rx i
                       \<lparr> ra_UserGlobalID = userGlobalID, ra_ServiceGlobalID = sp2_ID caller, ra_RequestID = reqID \<rparr>
                       (st_pf st1) of
                      (Inl e, pf') \<Rightarrow> (relationshipErrorResponse e, st1 \<lparr> st_pf := pf' \<rparr>)
                    | (Inr _, pf') \<Rightarrow> (reply 204 (), st1 \<lparr> st_pf := pf' \<rparr>))))"

subsection \<open>Lemmas\<close>

definition audited :: "RequestContext \<Rightarrow> string \<Rightarrow> string \<Rightarrow> RelationshipActor \<Rightarrow> Relationship \<Rightarrow> DB \<Rightarrow> DB" where
  "audited rx event verb actor row db = auditInsert (rx_Now rx) (edge_audit event verb actor row) db"

lemma audited_fields [simp]:
  "db_audit (audited rx event verb actor row db) = db_audit db @
     [edge_audit event verb actor row \<lparr> au_ID := int (length (db_audit db)) + 1, au_OccurredAt := rx_Now rx \<rparr>]"
  "db_outbox (audited rx event verb actor row db) = db_outbox db"
  "db_entities (audited rx event verb actor row db) = db_entities db"
  by (simp_all add: audited_def auditInsert_def)

lemma record_edge_ok:
  assumes "record_edge down rx event verb actor row pf = Ok pf'"
  shows "\<exists>i. rx_EventID rx = Some i \<and> pf' = pf \<lparr> pf_db :=
    (if i \<in> ob_EventID ` set (db_outbox (pf_db pf)) then audited rx event verb actor row (pf_db pf)
     else (audited rx event verb actor row (pf_db pf)) \<lparr> db_outbox := db_outbox (pf_db pf) @
        [durable_row rx event (rl_FromGlobalID row) [] (edge_data verb actor row) i] \<rparr>) \<rparr>"
proof -
  obtain db where "queueDurableEvent down rx event (rl_FromGlobalID row) [] (edge_data verb actor row)
      (audited rx event verb actor row (pf_db pf)) = Ok db" "pf' = pf \<lparr> pf_db := db \<rparr>"
    using assms by (auto simp: record_edge_def audited_def split: if_splits elim!: bind_result_OkE)
  then show ?thesis unfolding queueDurableEvent_ok by auto
qed

lemma record_edge_fields:
  assumes "record_edge down rx event verb actor row pf = Ok pf'"
  shows "pf_relationships pf' = pf_relationships pf" "pf_relationship_seq pf' = pf_relationship_seq pf"
    "db_entities (pf_db pf') = db_entities (pf_db pf)"
    "db_audit (pf_db pf') = db_audit (pf_db pf) @
      [edge_audit event verb actor row \<lparr> au_ID := int (length (db_audit (pf_db pf))) + 1, au_OccurredAt := rx_Now rx \<rparr>]"
  using record_edge_ok [OF assms] by (elim exE conjE; simp)+

text \<open>What the store's insertion does, by its answer.\<close>

lemma insert_edge_cases:
  assumes "insert_edge down rx fr rel to actor pf = (r, pf')"
  obtains (existing) row where "find_edge fr rel to pf = Some row" "r = Ok (row, False)" "pf' = pf"
  | (fresh) row where "find_edge fr rel to pf = None" "r = Ok (row, True)" "is_edge fr rel to row"
      "rl_ID row = pf_relationship_seq pf + 1" "known_id fr pf" "known_id to pf"
      "rl_CreatedByUserID row = ra_UserGlobalID actor" "rl_CreatedByServiceID row = ra_ServiceGlobalID actor"
      "record_edge down rx ''relationship.created'' ''created'' actor row
         (pf \<lparr> pf_relationships := pf_relationships pf @ [row], pf_relationship_seq := pf_relationship_seq pf + 1 \<rparr>) = Ok pf'"
  | (failed) e where "r = Err e" "pf' = pf"
proof (cases r)
  case (Inl e)
  then have "pf' = pf" using assms unfolding insert_edge_def by (auto dest: transaction_error)
  with Inl show thesis by (rule failed)
next
  case (Inr rc)
  show thesis
  proof (cases "find_edge fr rel to pf")
    case (Some row)
    then have "r = Ok (row, False)" "pf' = pf"
      using assms Inr unfolding insert_edge_def by (auto simp: transaction_ok split: if_splits)
    with Some show thesis by (rule existing)
  next
    case None
    let ?row = "\<lparr> rl_ID = pf_relationship_seq pf + 1, rl_FromGlobalID = fr, rl_RelationType = rel, rl_ToGlobalID = to,
      rl_CreatedByUserID = ra_UserGlobalID actor, rl_CreatedByServiceID = ra_ServiceGlobalID actor, rl_CreatedAt = rx_Now rx \<rparr>"
    have "r = Ok (?row, True) \<and> known_id fr pf \<and> known_id to pf \<and>
        record_edge down rx ''relationship.created'' ''created'' actor ?row
         (pf \<lparr> pf_relationships := pf_relationships pf @ [?row], pf_relationship_seq := pf_relationship_seq pf + 1 \<rparr>) = Ok pf'"
      using assms Inr None unfolding insert_edge_def
      by (auto simp: transaction_ok Let_def split: if_splits elim!: bind_result_OkE)
    then show thesis using fresh [OF None, of ?row] by (simp add: is_edge_def)
  qed
qed

text \<open>The edge a claim stands for, whichever of its labels is used.\<close>

definition canonical_edge :: "string \<Rightarrow> string \<Rightarrow> string \<Rightarrow> (string \<times> string \<times> string) option" where
  "canonical_edge a label b =
     map_option (\<lambda>(rel, swap). if swap then (b, rel, a) else (a, rel, b)) (normalizeRelation label)"

lemma CreateRelationship_ok:
  "CreateRelationship down rx a label b actor pf = (Ok rc, pf') \<Longrightarrow>
     \<exists>fr rel to. canonical_edge a label b = Some (fr, rel, to) \<and> fr \<noteq> [] \<and> to \<noteq> [] \<and> fr \<noteq> to \<and>
       actor_validate actor = None \<and> insert_edge down rx fr rel to actor pf = (Ok rc, pf')"
  by (cases "normalizeRelation label")
    (auto simp: CreateRelationship_def canonical_edge_def Let_def split: option.splits if_splits)

lemma CreateRelationship_canonical:
  assumes "canonical_edge a label b = Some (fr, rel, to)" "fr \<noteq> []" "to \<noteq> []" "fr \<noteq> to" "actor_validate actor = None"
  shows "CreateRelationship down rx a label b actor pf = insert_edge down rx fr rel to actor pf"
  using assms
  by (cases "normalizeRelation label") (auto simp: CreateRelationship_def canonical_edge_def Let_def split: if_splits)

lemma find_edge_append_new:
  "find_edge fr rel to pf = None \<Longrightarrow> is_edge fr rel to row \<Longrightarrow> pf_relationships pf' = pf_relationships pf @ [row] \<Longrightarrow>
     find_edge fr rel to pf' = Some row"
  by (simp add: find_edge_def find_append_else)

lemma insert_edge_found:
  assumes "insert_edge down rx fr rel to actor pf = (Ok (row, created), pf')"
  shows "find_edge fr rel to pf' = Some row"
  using assms
proof (cases rule: insert_edge_cases)
  case (fresh row')
  then show ?thesis using record_edge_fields(1) [OF fresh(9)] by (intro find_edge_append_new [of fr rel to pf]) auto
qed auto

lemma insert_edge_again:
  assumes "find_edge fr rel to pf = Some row" "\<not> down ''begin''" "\<not> down ''commit''"
    "\<not> down ''relationship_insert''" "\<not> down ''relationship_select''"
  shows "insert_edge down rx fr rel to actor pf = (Ok (row, False), pf)"
  using assms by (simp add: insert_edge_def transaction_def)

lemma vocabulary_distinct: "distinct (map fst relationVocabulary)" "distinct (map snd relationVocabulary)"
  by (simp_all add: relationVocabulary_def)

text \<open>A label and its inverse name one edge, the symmetric label excepted.\<close>

lemma labels_normalized:
  "list_all (\<lambda>(f, i). normalizeRelation f = Some (f, False) \<and> (f = i \<or> normalizeRelation i = Some (f, True))) relationVocabulary"
  by code_simp

lemma inverse_spelling:
  assumes "(f, i) \<in> set relationVocabulary" "f \<noteq> i"
  shows "canonical_edge b i a = canonical_edge a f b \<and> canonical_edge a f b = Some (a, f, b)"
proof -
  have "normalizeRelation f = Some (f, False) \<and> normalizeRelation i = Some (f, True)"
    using labels_normalized assms by (auto simp: list_all_iff)
  then show ?thesis by (simp add: canonical_edge_def)
qed

subsection \<open>The stored graph\<close>

definition edge_ok :: "Platform \<Rightarrow> Relationship \<Rightarrow> bool" where
  "edge_ok pf r \<longleftrightarrow> rl_RelationType r \<in> fst ` set relationVocabulary \<and> rl_FromGlobalID r \<noteq> rl_ToGlobalID r \<and>
     known_id (rl_FromGlobalID r) pf \<and> known_id (rl_ToGlobalID r) pf \<and>
     (rl_CreatedByUserID r \<noteq> [] \<or> rl_CreatedByServiceID r \<noteq> []) \<and> rl_ID r \<le> pf_relationship_seq pf"

definition edge_key :: "Relationship \<Rightarrow> string \<times> string \<times> string" where
  "edge_key r = (rl_FromGlobalID r, rl_RelationType r, rl_ToGlobalID r)"

definition graph_ok :: "Platform \<Rightarrow> bool" where
  "graph_ok pf \<longleftrightarrow> distinct (map rl_ID (pf_relationships pf)) \<and> distinct (map edge_key (pf_relationships pf)) \<and>
     (\<forall>r \<in> set (pf_relationships pf). edge_ok pf r)"

lemma graph_okI:
  "distinct (map rl_ID (pf_relationships pf)) \<Longrightarrow> distinct (map edge_key (pf_relationships pf)) \<Longrightarrow>
     (\<And>r. r \<in> set (pf_relationships pf) \<Longrightarrow> edge_ok pf r) \<Longrightarrow> graph_ok pf"
  by (simp add: graph_ok_def)

lemma graph_okD:
  assumes "graph_ok pf"
  shows "distinct (map rl_ID (pf_relationships pf))" "distinct (map edge_key (pf_relationships pf))"
    "r \<in> set (pf_relationships pf) \<Longrightarrow> edge_ok pf r"
  using assms by (simp_all add: graph_ok_def)

lemma edge_ok_mono:
  "edge_ok pf r \<Longrightarrow> pf_relationship_seq pf \<le> pf_relationship_seq pf' \<Longrightarrow>
     set (db_entities (pf_db pf)) \<subseteq> set (db_entities (pf_db pf')) \<Longrightarrow> edge_ok pf' r"
  unfolding edge_ok_def known_id_def by auto

text \<open>The requests, and whatever else adds to the identifiers meanwhile.\<close>

inductive relationship_calls :: "Platform \<Rightarrow> Platform \<Rightarrow> bool" for pf0 where
  none: "relationship_calls pf0 pf0"
| created: "\<lbrakk>relationship_calls pf0 pf; CreateRelationship down rx a label b actor pf = (r, pf')\<rbrakk> \<Longrightarrow> relationship_calls pf0 pf'"
| deleted: "\<lbrakk>relationship_calls pf0 pf; DeleteRelationship down rx i actor pf = (d, pf')\<rbrakk> \<Longrightarrow> relationship_calls pf0 pf'"
| elsewhere: "\<lbrakk>relationship_calls pf0 pf; set (db_entities (pf_db pf)) \<subseteq> set (db_entities db)\<rbrakk>
    \<Longrightarrow> relationship_calls pf0 (pf \<lparr> pf_db := db \<rparr>)"

lemma canonical_in_vocabulary: "canonical_edge a label b = Some (fr, rel, to) \<Longrightarrow> rel \<in> fst ` set relationVocabulary"
proof -
  assume e: "canonical_edge a label b = Some (fr, rel, to)"
  have "list_all (\<lambda>(i, f). f \<in> fst ` set relationVocabulary) inverseVocabulary" by code_simp
  then have inv: "map_of inverseVocabulary label = Some f \<Longrightarrow> f \<in> fst ` set relationVocabulary" for f
    by (auto simp: list_all_iff dest!: map_of_SomeD)
  show ?thesis using e inv
    by (auto simp: canonical_edge_def normalizeRelation_def map_of_eq_None_iff split: if_splits option.splits)
qed

lemma insert_edge_graph:
  assumes "insert_edge down rx fr rel to actor pf = (r, pf')" "graph_ok pf"
    and "rel \<in> fst ` set relationVocabulary" "fr \<noteq> to" "actor_validate actor = None"
  shows "graph_ok pf'"
  using assms(1)
proof (cases rule: insert_edge_cases)
  case (fresh row)
  note g = graph_okD [OF assms(2)]
  note f = record_edge_fields(1-3) [OF fresh(9), simplified]
  have k: "rl_FromGlobalID row = fr" "rl_RelationType row = rel" "rl_ToGlobalID row = to"
    using fresh(3) by (simp_all add: is_edge_def)
  have actor: "ra_UserGlobalID actor \<noteq> [] \<or> ra_ServiceGlobalID actor \<noteq> []"
    using assms(5) by (simp add: actor_validate_def split: if_splits)
  have new: "edge_ok pf' row"
    using fresh(4-8) k assms(3,4) actor f(2,3) by (simp add: edge_ok_def known_id_def)
  have old: "edge_ok pf' x" if "x \<in> set (pf_relationships pf)" for x
    by (rule edge_ok_mono [OF g(3) [OF that]]) (simp_all add: f)
  have ids: "rl_ID row \<notin> rl_ID ` set (pf_relationships pf)"
  proof
    assume "rl_ID row \<in> rl_ID ` set (pf_relationships pf)"
    then obtain x where "x \<in> set (pf_relationships pf)" "rl_ID x = rl_ID row" by auto
    then show False using g(3) [of x] fresh(4) by (simp add: edge_ok_def)
  qed
  have edges: "edge_key row \<notin> edge_key ` set (pf_relationships pf)"
    using fresh(1) k by (auto simp: find_edge_def find_None_iff is_edge_def edge_key_def)
  show ?thesis
  proof (rule graph_okI)
    show "distinct (map rl_ID (pf_relationships pf'))" using g(1) ids by (simp add: f)
    show "distinct (map edge_key (pf_relationships pf'))" using g(2) edges by (simp add: f)
    show "edge_ok pf' x" if "x \<in> set (pf_relationships pf')" for x using that new old by (auto simp: f)
  qed
qed (use assms(2) in auto)

lemma DeleteRelationship_cases:
  assumes "DeleteRelationship down rx i actor pf = (r, pf')"
  shows "pf' = pf \<or> (\<exists>row. record_edge down rx ''relationship.deleted'' ''deleted'' actor row
      (pf \<lparr> pf_relationships := filter (\<lambda>r. rl_ID r \<noteq> i) (pf_relationships pf) \<rparr>) = Ok pf')"
proof (cases "actor_validate actor = None \<and> \<not> down ''begin'' \<and> \<not> down ''relationship_delete''")
  case False
  then show ?thesis using assms by (auto simp: DeleteRelationship_def split: option.splits if_splits)
next
  case True
  show ?thesis
  proof (cases "find (\<lambda>r. rl_ID r = i) (pf_relationships pf)")
    case None
    then show ?thesis using assms True by (simp add: DeleteRelationship_def)
  next
    case (Some row)
    show ?thesis
    proof (cases "record_edge down rx ''relationship.deleted'' ''deleted'' actor row
        (pf \<lparr> pf_relationships := filter (\<lambda>r. rl_ID r \<noteq> i) (pf_relationships pf) \<rparr>)")
      case (Inl e)
      then show ?thesis using assms True Some by (simp add: DeleteRelationship_def)
    next
      case (Inr pf2)
      then have "pf' = pf \<or> pf' = pf2" using assms True Some by (auto simp: DeleteRelationship_def split: if_splits)
      then show ?thesis using Inr by auto
    qed
  qed
qed

lemma DeleteRelationship_graph:
  assumes "DeleteRelationship down rx i actor pf = (r, pf')" "graph_ok pf"
  shows "graph_ok pf'"
  using DeleteRelationship_cases [OF assms(1)]
proof (elim disjE exE)
  fix row
  assume row: "record_edge down rx ''relationship.deleted'' ''deleted'' actor row
      (pf \<lparr> pf_relationships := filter (\<lambda>r. rl_ID r \<noteq> i) (pf_relationships pf) \<rparr>) = Ok pf'"
  note g = graph_okD [OF assms(2)]
  note f = record_edge_fields(1-3) [OF row, simplified]
  have old: "edge_ok pf' x" if "x \<in> set (pf_relationships pf)" for x
    by (rule edge_ok_mono [OF g(3) [OF that]]) (simp_all add: f)
  show ?thesis
  proof (rule graph_okI)
    show "distinct (map rl_ID (pf_relationships pf'))" unfolding f by (rule distinct_map_filter [OF g(1)])
    show "distinct (map edge_key (pf_relationships pf'))" unfolding f by (rule distinct_map_filter [OF g(2)])
    show "edge_ok pf' x" if "x \<in> set (pf_relationships pf')" for x using that old by (simp add: f)
  qed
qed (use assms(2) in simp)

lemma CreateRelationship_error:
  assumes "CreateRelationship down rx a label b actor pf = (Err e, pf')"
  shows "pf' = pf"
proof (cases "actor_validate actor")
  case None
  show ?thesis
  proof (cases "normalizeRelation label")
    case (Some c)
    then show ?thesis using assms None
      by (cases c) (auto simp: CreateRelationship_def Let_def insert_edge_def split: if_splits dest: transaction_error)
  qed (use assms None in \<open>simp add: CreateRelationship_def\<close>)
qed (use assms in \<open>simp add: CreateRelationship_def\<close>)

lemma CreateRelationship_graph:
  assumes "CreateRelationship down rx a label b actor pf = (r, pf')" "graph_ok pf"
  shows "graph_ok pf'"
proof (cases r)
  case (Inl e)
  then show ?thesis using CreateRelationship_error assms by metis
next
  case (Inr rc)
  then obtain fr rel to where "canonical_edge a label b = Some (fr, rel, to)" "fr \<noteq> to" "actor_validate actor = None"
    "insert_edge down rx fr rel to actor pf = (Ok rc, pf')"
    using CreateRelationship_ok [of down rx a label b actor pf rc pf'] assms(1) by blast
  then show ?thesis using insert_edge_graph [of down rx fr rel to actor pf "Ok rc" pf'] canonical_in_vocabulary assms(2) by blast
qed

text \<open>
  C29.  The relationship store stays a graph: however many creations and deletions run, by whatever actors, in
  whatever spelling and with any statement failing, no two rows carry the same edge or the same number, every label is one of
  the eight canonical ones, no identifier relates to itself, both ends are registered Global IDs, and
  every row says who asked for it.
\<close>

theorem graph_stays_sound:
  assumes "relationship_calls pf0 pf" "graph_ok pf0"
  shows "graph_ok pf"
  using assms
proof (induction rule: relationship_calls.induct)
  case (created pf down rx a label b actor r pf')
  then show ?case using CreateRelationship_graph by blast
next
  case (deleted pf down rx i actor d pf')
  then show ?case using DeleteRelationship_graph by blast
next
  case (elsewhere pf db)
  note g = graph_okD [OF elsewhere.IH [OF elsewhere.prems]]
  show ?case
  proof (rule graph_okI)
    show "edge_ok (pf \<lparr> pf_db := db \<rparr>) x" if "x \<in> set (pf_relationships (pf \<lparr> pf_db := db \<rparr>))" for x
      by (rule edge_ok_mono [of pf]) (use that g(3) elsewhere.hyps(2) in simp_all)
  qed (use g(1,2) in simp_all)
qed

text \<open>
  One fact, one row, one record.  A creation that answers success either wrote one row, together with one audit record and
  one queued event about it, or found the row and changed nothing; and asserting the same fact again, by anybody,
  under either of its two labels, answers that same row and changes nothing.
\<close>

theorem edge_written_once:
  assumes "CreateRelationship down rx a label b actor pf = (Ok (row, created), pf')"
    and "rx_EventID rx = Some ev" "ev \<notin> ob_EventID ` set (db_outbox (pf_db pf))"
  shows "(if created
      then pf_relationships pf' = pf_relationships pf @ [row] \<and>
        (\<exists>au. db_audit (pf_db pf') = db_audit (pf_db pf) @ [au] \<and> au_Action au = ''relationship.created'' \<and>
           au_ResourceID au = Itoa (rl_ID row) \<and> au_GlobalUserID au = ra_UserGlobalID actor) \<and>
        (\<exists>o1. db_outbox (pf_db pf') = db_outbox (pf_db pf) @ [o1] \<and> ob_EventID o1 = ev \<and>
           en_Event (ob_Payload o1) = ''relationship.created'' \<and> en_EntityID (ob_Payload o1) = rl_FromGlobalID row)
      else pf' = pf) \<and>
    (\<forall>down2 rx2 a2 label2 b2 actor2. canonical_edge a2 label2 b2 = canonical_edge a label b \<and> actor_validate actor2 = None \<and>
       \<not> down2 ''begin'' \<and> \<not> down2 ''commit'' \<and> \<not> down2 ''relationship_insert'' \<and> \<not> down2 ''relationship_select'' \<longrightarrow>
       CreateRelationship down2 rx2 a2 label2 b2 actor2 pf' = (Ok (row, False), pf')) \<and>
    (\<forall>f i. (f, i) \<in> set relationVocabulary \<and> f \<noteq> i \<longrightarrow> canonical_edge b i a = canonical_edge a f b)"
proof -
  obtain fr rel to where c: "canonical_edge a label b = Some (fr, rel, to)" "fr \<noteq> []" "to \<noteq> []" "fr \<noteq> to"
    and ins: "insert_edge down rx fr rel to actor pf = (Ok (row, created), pf')"
    using CreateRelationship_ok [OF assms(1)] by blast
  have again: "CreateRelationship down2 rx2 a2 label2 b2 actor2 pf' = (Ok (row, False), pf')"
    if "canonical_edge a2 label2 b2 = canonical_edge a label b" "actor_validate actor2 = None"
      "\<not> down2 ''begin''" "\<not> down2 ''commit''" "\<not> down2 ''relationship_insert''" "\<not> down2 ''relationship_select''"
    for down2 rx2 a2 label2 b2 actor2
    using that c CreateRelationship_canonical [of a2 label2 b2 fr rel to actor2 down2 rx2 pf']
      insert_edge_again [OF insert_edge_found [OF ins]] by simp
  have "if created
      then pf_relationships pf' = pf_relationships pf @ [row] \<and>
        (\<exists>au. db_audit (pf_db pf') = db_audit (pf_db pf) @ [au] \<and> au_Action au = ''relationship.created'' \<and>
           au_ResourceID au = Itoa (rl_ID row) \<and> au_GlobalUserID au = ra_UserGlobalID actor) \<and>
        (\<exists>o1. db_outbox (pf_db pf') = db_outbox (pf_db pf) @ [o1] \<and> ob_EventID o1 = ev \<and>
           en_Event (ob_Payload o1) = ''relationship.created'' \<and> en_EntityID (ob_Payload o1) = rl_FromGlobalID row)
      else pf' = pf"
    using ins
  proof (cases rule: insert_edge_cases)
    case (fresh row')
    then have e: "row' = row" "created" by simp_all
    have au: "db_audit (pf_db pf') = db_audit (pf_db pf) @ [edge_audit ''relationship.created'' ''created'' actor row
        \<lparr> au_ID := int (length (db_audit (pf_db pf))) + 1, au_OccurredAt := rx_Now rx \<rparr>]"
      "pf_relationships pf' = pf_relationships pf @ [row]"
      using record_edge_fields [OF fresh(9)] e by simp_all
    have out: "db_outbox (pf_db pf') = db_outbox (pf_db pf) @
        [durable_row rx ''relationship.created'' (rl_FromGlobalID row) [] (edge_data ''created'' actor row) ev]"
      using record_edge_ok [OF fresh(9)] assms(2,3) e by simp
    show ?thesis using e(2) au out by (simp add: edge_audit_def durable_row_def)
  qed auto
  then show ?thesis using again inverse_spelling by blast
qed

lemma filter_hit: "x \<in> set xs \<Longrightarrow> P x \<Longrightarrow> 1 \<le> length (filter P xs)"
  by (induction xs) auto

text \<open>
  A defect: the one symmetric label escapes the rule.  related-to carries no direction in meaning, yet asserting it from A to B and
  then from B to A writes two rows for the one fact, each with its audit record and event, and a listing for A shows B twice.
\<close>

theorem related_to_written_twice:
  assumes "CreateRelationship down rx a ''related-to'' b actor pf = (Ok (row1, c1), pf1)"
    and "CreateRelationship down2 rx2 b ''related-to'' a actor2 pf1 = (Ok (row2, c2), pf2)"
    and "find_edge b ''related-to'' a pf = None" "ListRelationships down3 a pf2 = Ok views"
  shows "c2 \<and> row1 \<in> set (pf_relationships pf2) \<and> row2 \<in> set (pf_relationships pf2) \<and> row1 \<noteq> row2 \<and>
    2 \<le> length (filter (\<lambda>v. rw_GlobalID v = b \<and> rw_RelationType v = ''related-to'') views)"
proof -
  have n: "normalizeRelation ''related-to'' = Some (''related-to'', False)" by code_simp
  have e: "canonical_edge x ''related-to'' y = Some (x, ''related-to'', y)" for x y
    by (simp add: canonical_edge_def n)
  have ab: "a \<noteq> b" and i1: "insert_edge down rx a ''related-to'' b actor pf = (Ok (row1, c1), pf1)"
    using CreateRelationship_ok [OF assms(1)] by (auto simp: e)
  have i2: "insert_edge down2 rx2 b ''related-to'' a actor2 pf1 = (Ok (row2, c2), pf2)"
    using CreateRelationship_ok [OF assms(2)] by (auto simp: e)
  have none: "find_edge b ''related-to'' a pf1 = None"
    using i1
  proof (cases rule: insert_edge_cases)
    case (fresh row)
    then have "find_edge b ''related-to'' a pf1 = find (is_edge b ''related-to'' a) [row]"
      using record_edge_fields(1) [OF fresh(9)] assms(3) by (simp add: find_edge_def find_append_else)
    then show ?thesis using fresh(3) ab by (auto simp: is_edge_def)
  qed (use assms(3) in auto)
  have r1: "find_edge a ''related-to'' b pf1 = Some row1" by (rule insert_edge_found [OF i1])
  have two: "c2 \<and> is_edge b ''related-to'' a row2 \<and> pf_relationships pf2 = pf_relationships pf1 @ [row2]"
    using i2
  proof (cases rule: insert_edge_cases)
    case (fresh row)
    then show ?thesis using record_edge_fields(1) [OF fresh(9)] by simp
  qed (use none in auto)
  have m1: "row1 \<in> set (pf_relationships pf1)" "is_edge a ''related-to'' b row1"
    using r1 by (auto simp: find_edge_def find_Some_iff)
  have ne: "row1 \<noteq> row2" using m1(2) two ab by (auto simp: is_edge_def)
  let ?hit = "\<lambda>v. rw_GlobalID v = b \<and> rw_RelationType v = ''related-to''"
  let ?out = "map outgoing_view (filter (\<lambda>r. rl_FromGlobalID r = a) (pf_relationships pf2))"
  let ?in = "map incoming_view (filter (\<lambda>r. rl_ToGlobalID r = a) (pf_relationships pf2))"
  have v: "views = sort_key rw_CreatedAt (?out @ ?in)"
    using assms(4) by (auto simp: ListRelationships_def statement_def split: if_splits)
  have "row1 \<in> set (filter (\<lambda>r. rl_FromGlobalID r = a) (pf_relationships pf2))"
    using m1 two by (simp add: is_edge_def)
  then have "outgoing_view row1 \<in> set ?out" unfolding set_map by (rule imageI)
  moreover have "?hit (outgoing_view row1)" using m1(2) by (simp add: is_edge_def outgoing_view_def)
  ultimately have o: "1 \<le> length (filter ?hit ?out)" by (rule filter_hit [where P = ?hit])
  have inv: "InverseRelation ''related-to'' = Some ''related-to''" by code_simp
  have "row2 \<in> set (filter (\<lambda>r. rl_ToGlobalID r = a) (pf_relationships pf2))"
    using two by (simp add: is_edge_def)
  then have "incoming_view row2 \<in> set ?in" unfolding set_map by (rule imageI)
  moreover have "?hit (incoming_view row2)" using two inv by (simp add: is_edge_def incoming_view_def)
  ultimately have i: "1 \<le> length (filter ?hit ?in)" by (rule filter_hit [where P = ?hit])
  have "length (filter ?hit views) = length (filter ?hit (?out @ ?in))"
    unfolding v by (simp only: filter_sort length_sort)
  then have "length (filter ?hit views) = length (filter ?hit ?out) + length (filter ?hit ?in)"
    by (simp only: filter_append length_append)
  then have "2 \<le> length (filter ?hit views)" using o i by linarith
  then show ?thesis using two m1(1) ne by simp
qed

subsection \<open>On whose behalf\<close>

lemma EnsureIdentity_row:
  assumes "EnsureIdentity down rx i db = (Ok (g, c), db')"
  shows "\<exists>row \<in> set (db_identities db'). id_Subject row = idn_Subject i \<and> id_GlobalUserID row = g"
  using assms
proof (cases rule: EnsureIdentity_cases)
  case (known row)
  then have "row \<in> set (db_identities db)" "id_Subject row = idn_Subject i" by (auto simp: find_Some_iff)
  moreover from this have "idn_Subject i \<in> id_Subject ` set (db_identities db)" by (metis image_eqI)
  ultimately have "\<exists>f. db_identities db' = map f (db_identities db) \<and> id_Subject (f row) = idn_Subject i \<and> id_GlobalUserID (f row) = g"
    using known by (intro exI [of _ "\<lambda>r. if id_Subject r = idn_Subject i
        then r \<lparr> id_Email := idn_Email i, id_DisplayName := idn_DisplayName i,
               id_Username := idn_Username i, id_Groups := idn_Groups i, id_LastSeenAt := rx_Now rx \<rparr> else r"])
      (auto simp: upsert_identity_def)
  then show ?thesis using \<open>row \<in> set (db_identities db)\<close> by (metis image_eqI set_map)
next
  case (first p v db1)
  have "idn_Subject i \<notin> id_Subject ` set (db_identities db1)"
    using first(1) take_counter_frame [OF first(2)] by (auto simp: find_None_iff)
  moreover have "g = mk_global_id p v" using first(3) by simp
  ultimately show ?thesis using register_identity_ok(1) [OF first(4)] by (simp add: upsert_identity_def)
qed auto

text \<open>
  A divergence: the end-user token proves nothing about an end user.  A service that puts its own token into the
  on-behalf-of header is taken for one: the identifier it acts for is the user identity of the service's own
  subject, and the only refusal left is that of an unavailable store.
\<close>

theorem service_is_its_own_user:
  assumes "service_caller down env rx header st (Service s) st1" "st_tokens st = None"
  shows "case onBehalfOfUser down env rx2 header st1 of
      (Inr g, st2) \<Rightarrow> (\<exists>row \<in> set (db_identities (pf_db (st_pf st2))). id_Subject row = sp2_Subject s \<and> id_GlobalUserID row = g)
    | (Inl refusal, st2) \<Rightarrow> rp_Status refusal = 503"
proof -
  obtain info where i: "HasPrefix header bearer" "identify env (drop (length bearer) header) None = (Ok info, None)"
    "sp2_Subject s = ui_Sub info" "st_tokens st1 = None"
    using assms by (auto simp: service_caller_def identify_def)
  obtain r db where e: "EnsureIdentity down rx2 (identity_of info) (pf_db (st_pf st1)) = (r, db)"
    by (cases "EnsureIdentity down rx2 (identity_of info) (pf_db (st_pf st1))")
  show ?thesis
  proof (cases r)
    case (Inl err)
    then show ?thesis using i e by (simp add: onBehalfOfUser_def)
  next
    case (Inr gc)
    then show ?thesis using i e EnsureIdentity_row [of down rx2 "identity_of info" "pf_db (st_pf st1)" "fst gc" "snd gc" db]
      by (cases gc) (simp add: onBehalfOfUser_def identity_of_def)
  qed
qed

subsection \<open>The properties at concrete inputs\<close>

definition sample_entity :: "string \<Rightarrow> GlobalEntity" where
  "sample_entity i = \<lparr> ge_GlobalID = i, ge_EntityType = ''client'', ge_Source = ''espocrm'', ge_SourceID = i,
     ge_TenantID = [], ge_Metadata = [], ge_CreatedAt = 0 \<rparr>"

definition graph_empty :: Platform where
  "graph_empty = platform_of (sample_db \<lparr> db_entities := [sample_entity ''A-1'', sample_entity ''B-1''] \<rparr>)"

definition sample_actor :: RelationshipActor where
  "sample_actor = \<lparr> ra_UserGlobalID = ''USR-000001'', ra_ServiceGlobalID = [], ra_RequestID = [] \<rparr>"

definition sample_relate :: "string \<Rightarrow> string \<Rightarrow> string \<Rightarrow> Platform \<Rightarrow> (DBError + Relationship \<times> bool) \<times> Platform" where
  "sample_relate a label b = CreateRelationship all_up sample_rx a label b sample_actor"

lemma sample_written:
  assumes "case fst (sample_relate a label b pf) of Inl _ \<Rightarrow> False | Inr (row, c) \<Rightarrow> c"
  obtains row where "CreateRelationship all_up sample_rx a label b sample_actor pf = (Ok (row, True), snd (sample_relate a label b pf))"
  using assms by (cases "sample_relate a label b pf") (auto simp: sample_relate_def split: sum.splits prod.splits)

theorem graph_stays_sound_witness:
  "graph_ok (snd (sample_relate ''A-1'' ''tests'' ''B-1'' graph_empty)) \<and>
   length (pf_relationships (snd (sample_relate ''A-1'' ''tests'' ''B-1'' graph_empty))) = 1"
proof -
  have "graph_ok graph_empty" by (simp add: graph_ok_def graph_empty_def platform_of_def)
  moreover have "relationship_calls graph_empty (snd (sample_relate ''A-1'' ''tests'' ''B-1'' graph_empty))"
    by (rule relationship_calls.created [OF relationship_calls.none, where down = all_up and rx = sample_rx and a = "''A-1''"
        and label = "''tests''" and b = "''B-1''" and actor = sample_actor
        and r = "fst (sample_relate ''A-1'' ''tests'' ''B-1'' graph_empty)"]) (simp add: sample_relate_def)
  moreover have "length (pf_relationships (snd (sample_relate ''A-1'' ''tests'' ''B-1'' graph_empty))) = 1" by code_simp
  ultimately show ?thesis using graph_stays_sound by blast
qed

theorem edge_written_once_witness:
  "\<exists>row. sample_relate ''A-1'' ''tests'' ''B-1'' graph_empty =
       (Ok (row, True), snd (sample_relate ''A-1'' ''tests'' ''B-1'' graph_empty)) \<and>
     sample_relate ''B-1'' ''tested-by'' ''A-1'' (snd (sample_relate ''A-1'' ''tests'' ''B-1'' graph_empty)) =
       (Ok (row, False), snd (sample_relate ''A-1'' ''tests'' ''B-1'' graph_empty))"
proof -
  have "case fst (sample_relate ''A-1'' ''tests'' ''B-1'' graph_empty) of Inl _ \<Rightarrow> False | Inr (row, c) \<Rightarrow> c" by code_simp
  then obtain row where r: "CreateRelationship all_up sample_rx ''A-1'' ''tests'' ''B-1'' sample_actor graph_empty =
      (Ok (row, True), snd (sample_relate ''A-1'' ''tests'' ''B-1'' graph_empty))" by (rule sample_written)
  have ev: "rx_EventID sample_rx = Some ''ev-1''" by (simp add: sample_rx_def)
  have new: "''ev-1'' \<notin> ob_EventID ` set (db_outbox (pf_db graph_empty))"
    by (simp add: graph_empty_def platform_of_def sample_db_def)
  have same: "canonical_edge ''B-1'' ''tested-by'' ''A-1'' = canonical_edge ''A-1'' ''tests'' ''B-1''" by code_simp
  have v: "actor_validate sample_actor = None" by (simp add: actor_validate_def sample_actor_def)
  note again = edge_written_once [OF r ev new, THEN conjunct2, THEN conjunct1, rule_format,
    of "''B-1''" "''tested-by''" "''A-1''" sample_actor all_up sample_rx]
  have "CreateRelationship all_up sample_rx ''B-1'' ''tested-by'' ''A-1'' sample_actor
      (snd (sample_relate ''A-1'' ''tests'' ''B-1'' graph_empty)) =
      (Ok (row, False), snd (sample_relate ''A-1'' ''tests'' ''B-1'' graph_empty))"
    by (rule again) (simp add: same v all_up_def)
  then show ?thesis using r unfolding sample_relate_def by blast
qed

definition graph_one :: Platform where
  "graph_one = snd (sample_relate ''A-1'' ''related-to'' ''B-1'' graph_empty)"

definition sample_relate_2 :: "(DBError + Relationship \<times> bool) \<times> Platform" where
  "sample_relate_2 = CreateRelationship all_up (sample_rx \<lparr> rx_EventID := Some ''ev-2'' \<rparr>) ''B-1'' ''related-to'' ''A-1''
     sample_actor graph_one"

theorem related_to_written_twice_witness:
  "\<exists>views. ListRelationships all_up ''A-1'' (snd sample_relate_2) = Ok views \<and>
     2 \<le> length (filter (\<lambda>v. rw_GlobalID v = ''B-1'' \<and> rw_RelationType v = ''related-to'') views)"
proof -
  have "case fst (sample_relate ''A-1'' ''related-to'' ''B-1'' graph_empty) of Inl _ \<Rightarrow> False | Inr (row, c) \<Rightarrow> c" by code_simp
  then obtain row1 where r1: "CreateRelationship all_up sample_rx ''A-1'' ''related-to'' ''B-1'' sample_actor graph_empty =
      (Ok (row1, True), graph_one)" unfolding graph_one_def by (rule sample_written)
  have "case fst sample_relate_2 of Inl _ \<Rightarrow> False | Inr (row, c) \<Rightarrow> c" by code_simp
  then obtain row2 where r2: "CreateRelationship all_up (sample_rx \<lparr> rx_EventID := Some ''ev-2'' \<rparr>) ''B-1'' ''related-to'' ''A-1''
     sample_actor graph_one = (Ok (row2, True), snd sample_relate_2)"
    by (cases sample_relate_2) (auto simp: sample_relate_2_def split: sum.splits prod.splits)
  have n: "find_edge ''B-1'' ''related-to'' ''A-1'' graph_empty = None"
    by (simp add: find_edge_def graph_empty_def platform_of_def)
  have "\<not> isl (ListRelationships all_up ''A-1'' (snd sample_relate_2))"
    by (simp add: ListRelationships_def all_up_def)
  then obtain views where v: "ListRelationships all_up ''A-1'' (snd sample_relate_2) = Ok views"
    by (cases "ListRelationships all_up ''A-1'' (snd sample_relate_2)") auto
  from related_to_written_twice [OF r1 r2 n v] v show ?thesis by blast
qed

text \<open>A service token presented twice: as its own authority and as an end user's.\<close>

definition service_user :: userInfo where
  "service_user = \<lparr> ui_Sub = ''svc'', ui_Email = [], ui_Name = ''sync'', ui_PreferredUsername = ''sync'',
     ui_Groups = [''BSYSTEM-Services''] \<rparr>"

definition service_env :: IdEnv where
  "service_env = sample_env \<lparr> ie_userinfo := (\<lambda>t. Some (200, Some service_user)) \<rparr>"

definition service_site :: Site where
  "service_site = snd (authenticateService all_up service_env sample_rx ''Bearer tok'' (\<lambda>caller st. (reply 299 caller, st)) sample_site)"

theorem service_is_its_own_user_witness:
  "fst (onBehalfOfUser all_up service_env (sample_rx \<lparr> rx_EventID := Some ''ev-2'' \<rparr>) ''Bearer tok'' service_site ::
      (unit Reply + string) \<times> Site) = Inr ''USR-000001'' \<and>
   (\<exists>row. id_Subject row = ''svc'' \<and> id_GlobalUserID row = ''USR-000001'' \<and>
      row \<in> set (db_identities (pf_db (st_pf (snd (onBehalfOfUser all_up service_env (sample_rx \<lparr> rx_EventID := Some ''ev-2'' \<rparr>)
        ''Bearer tok'' service_site :: (unit Reply + string) \<times> Site))))))"
proof -
  let ?h = "\<lambda>caller st. (reply 299 caller, st)"
  have ok: "rp_Status (fst (authenticateService all_up service_env sample_rx ''Bearer tok'' ?h sample_site)) = 299" by code_simp
  obtain caller st1 where c: "service_caller all_up service_env sample_rx ''Bearer tok'' sample_site caller st1"
    "authenticateService all_up service_env sample_rx ''Bearer tok'' ?h sample_site = ?h caller st1"
    using authenticateService_factor [where 'b = Caller and down = all_up and env = service_env and rx = sample_rx
        and header = "''Bearer tok''" and st = sample_site] ok by fastforce
  have st1: "st1 = service_site" using c(2) by (simp add: service_site_def)
  obtain s where s: "caller = Service s" "sp2_Subject s = ''svc''"
    using c(1) by (auto simp: service_caller_def identify_def sample_site_def fetchUserInfo_def service_env_def
        sample_env_def service_user_def)
  have t: "st_tokens sample_site = None" by (simp add: sample_site_def)
  have g: "fst (onBehalfOfUser all_up service_env (sample_rx \<lparr> rx_EventID := Some ''ev-2'' \<rparr>) ''Bearer tok'' service_site ::
      (unit Reply + string) \<times> Site) = Inr ''USR-000001''" by code_simp
  from service_is_its_own_user [OF c(1) [unfolded s(1)] t, where 'a = unit, of "sample_rx \<lparr> rx_EventID := Some ''ev-2'' \<rparr>"] g s(2)
  show ?thesis unfolding st1
    by (cases "onBehalfOfUser all_up service_env (sample_rx \<lparr> rx_EventID := Some ''ev-2'' \<rparr>) ''Bearer tok'' service_site ::
      (unit Reply + string) \<times> Site") auto
qed

end
