(* ===== verification/Breaker.thy ===== *)
theory Breaker
  imports Prelude "HOL-Library.Word" "HOL-Library.Multiset"
begin

section \<open>The circuit breaker (internal/adapters/httpx/breaker.go)\<close>

text \<open>
  The breaker as the code has it: a record whose operations read the clock the settings inject,
  so the instant is an argument here.  Instants and durations are integers of nanoseconds
  (time.Time.Sub saturates after 292 years, which is not modelled).  The episode and the ticket
  keep their 64 bits and wrap; the int counters are integers.  Every operation runs under the
  breaker's mutex, so concurrent callers are an interleaving of whole operations:
  the step relation below keeps the tickets of the calls in flight as a multiset.
\<close>

datatype BreakerState = BreakerClosed | BreakerOpen | BreakerHalfOpen

record BreakerSettings =
  FailureThreshold :: int
  OpenFor :: int
  HalfOpenProbes :: int

type_synonym Ticket = "64 word"

record Breaker =
  br_settings :: BreakerSettings
  br_episode :: "64 word"
  br_state :: BreakerState
  br_failures :: int
  br_probes :: int
  br_successes :: int
  br_openedAt :: int
  br_transitions :: int
  br_shortCircuit :: int

record Stats =
  st_State :: BreakerState
  st_ConsecutiveFails :: int
  st_Transitions :: int
  st_ShortCircuited :: int

definition second :: int where "second = 1000000000"

definition DefaultBreakerSettings :: BreakerSettings where
  "DefaultBreakerSettings =
     \<lparr> FailureThreshold = 5, OpenFor = 30 * second, HalfOpenProbes = 1 \<rparr>"

definition NewBreaker :: "BreakerSettings \<Rightarrow> Breaker" where
  "NewBreaker s0 =
     (let s1 = (if HalfOpenProbes s0 \<le> 0 then s0 \<lparr> HalfOpenProbes := 1 \<rparr> else s0);
          s2 = (if OpenFor s1 \<le> 0 then s1 \<lparr> OpenFor := 30 * second \<rparr> else s1)
      in \<lparr> br_settings = s2, br_episode = 0, br_state = BreakerClosed, br_failures = 0,
           br_probes = 0, br_successes = 0, br_openedAt = 0, br_transitions = 0,
           br_shortCircuit = 0 \<rparr>)"

definition enabled :: "Breaker \<Rightarrow> bool" where
  "enabled b \<longleftrightarrow> 0 < FailureThreshold (br_settings b)"

definition transition :: "BreakerState \<Rightarrow> Breaker \<Rightarrow> Breaker" where
  "transition target b =
     b \<lparr> br_state := target, br_transitions := br_transitions b + 1,
        br_episode := br_episode b + 1 \<rparr>"

definition current :: "Ticket \<Rightarrow> Breaker \<Rightarrow> bool" where
  "current ticket b \<longleftrightarrow> ticket = br_episode b"

definition Allow :: "int \<Rightarrow> Breaker \<Rightarrow> bool \<times> Ticket \<times> Breaker" where
  "Allow now b =
     (if \<not> enabled b then (True, 0, b)
      else case br_state b of
        BreakerClosed \<Rightarrow> (True, br_episode b, b)
      | BreakerOpen \<Rightarrow>
          if now - br_openedAt b < OpenFor (br_settings b)
          then (False, 0, b \<lparr> br_shortCircuit := br_shortCircuit b + 1 \<rparr>)
          else (let b' = (transition BreakerHalfOpen b) \<lparr> br_probes := 1, br_successes := 0 \<rparr>
                in (True, br_episode b', b'))
      | BreakerHalfOpen \<Rightarrow>
          if HalfOpenProbes (br_settings b) \<le> br_probes b
          then (False, 0, b \<lparr> br_shortCircuit := br_shortCircuit b + 1 \<rparr>)
          else (True, br_episode b, b \<lparr> br_probes := br_probes b + 1 \<rparr>))"

definition Succeed :: "Ticket \<Rightarrow> Breaker \<Rightarrow> Breaker" where
  "Succeed ticket b =
     (if \<not> enabled b then b
      else if \<not> current ticket b then b
      else case br_state b of
        BreakerHalfOpen \<Rightarrow>
          (let b1 = b \<lparr> br_successes := br_successes b + 1 \<rparr>
           in if HalfOpenProbes (br_settings b1) \<le> br_successes b1
              then (transition BreakerClosed b1) \<lparr> br_failures := 0, br_probes := 0, br_successes := 0 \<rparr>
              else b1)
      | _ \<Rightarrow> b \<lparr> br_failures := 0 \<rparr>)"

definition Fail :: "Ticket \<Rightarrow> bool \<Rightarrow> int \<Rightarrow> Breaker \<Rightarrow> Breaker" where
  "Fail ticket retryable now b =
     (if \<not> enabled b \<or> \<not> retryable then b
      else if \<not> current ticket b then b
      else case br_state b of
        BreakerHalfOpen \<Rightarrow>
          (transition BreakerOpen b) \<lparr> br_openedAt := now, br_probes := 0, br_successes := 0 \<rparr>
      | _ \<Rightarrow>
          (let b1 = b \<lparr> br_failures := br_failures b + 1 \<rparr>
           in if FailureThreshold (br_settings b1) \<le> br_failures b1
              then (transition BreakerOpen b1)
                     \<lparr> br_openedAt := now, br_probes := 0, br_successes := 0 \<rparr>
              else b1))"

definition State :: "int \<Rightarrow> Breaker \<Rightarrow> BreakerState" where
  "State now b =
     (if \<not> enabled b then BreakerClosed
      else if br_state b = BreakerOpen \<and> OpenFor (br_settings b) \<le> now - br_openedAt b
      then BreakerHalfOpen
      else br_state b)"

definition breaker_Stats :: "Breaker \<Rightarrow> Stats" where
  "breaker_Stats b =
     (if \<not> enabled b
      then \<lparr> st_State = BreakerClosed, st_ConsecutiveFails = 0, st_Transitions = 0, st_ShortCircuited = 0 \<rparr>
      else \<lparr> st_State = br_state b, st_ConsecutiveFails = br_failures b,
             st_Transitions = br_transitions b, st_ShortCircuited = br_shortCircuit b \<rparr>)"

lemmas breaker_ops =
  Allow_def Succeed_def Fail_def enabled_def current_def transition_def Let_def

subsection \<open>Concurrent callers\<close>

text \<open>
  A configuration is the breaker and the tickets handed to calls that have not reported yet.
  A refused caller gets no ticket to report with.
\<close>

type_synonym breaker_config = "Breaker \<times> Ticket multiset"

inductive breaker_step :: "breaker_config \<Rightarrow> breaker_config \<Rightarrow> bool" where
  admit: "Allow now b = (True, t, b') \<Longrightarrow> breaker_step (b, F) (b', add_mset t F)"
| refuse: "Allow now b = (False, t, b') \<Longrightarrow> breaker_step (b, F) (b', F)"
| succeed: "t \<in># F \<Longrightarrow> breaker_step (b, F) (Succeed t b, F - {#t#})"
| fail: "t \<in># F \<Longrightarrow> breaker_step (b, F) (Fail t retryable now b, F - {#t#})"

inductive breaker_reachable :: "BreakerSettings \<Rightarrow> breaker_config \<Rightarrow> bool" for s where
  start: "breaker_reachable s (NewBreaker s, {#})"
| step: "breaker_reachable s c \<Longrightarrow> breaker_step c c' \<Longrightarrow> breaker_reachable s c'"

inductive_cases breaker_stepE [elim!]: "breaker_step (b, F) c'"

text \<open>What holds of a breaker between two operations, and of the calls in flight.\<close>

definition breaker_inv :: "Breaker \<Rightarrow> Ticket multiset \<Rightarrow> bool" where
  "breaker_inv b F \<longleftrightarrow>
     0 < FailureThreshold (br_settings b) \<and> 0 < HalfOpenProbes (br_settings b) \<and>
     0 < OpenFor (br_settings b) \<and> 0 \<le> br_failures b \<and> 0 \<le> br_transitions b \<and>
     br_episode b = of_int (br_transitions b) \<and>
     (case br_state b of
        BreakerClosed \<Rightarrow>
          br_failures b < FailureThreshold (br_settings b) \<and> br_probes b = 0 \<and> br_successes b = 0
      | BreakerOpen \<Rightarrow> br_probes b = 0 \<and> br_successes b = 0 \<and> 0 < br_transitions b
      | BreakerHalfOpen \<Rightarrow>
          1 \<le> br_probes b \<and> br_probes b \<le> HalfOpenProbes (br_settings b) \<and>
          0 \<le> br_successes b \<and> br_successes b < HalfOpenProbes (br_settings b))"

lemma Allow_settings: "Allow now b = (ok, t, b') \<Longrightarrow> br_settings b' = br_settings b"
  by (auto simp: breaker_ops split: if_splits BreakerState.splits)

lemma Succeed_settings [simp]: "br_settings (Succeed t b) = br_settings b"
  by (auto simp: breaker_ops split: BreakerState.splits)

lemma Fail_settings [simp]: "br_settings (Fail t r now b) = br_settings b"
  by (auto simp: breaker_ops split: BreakerState.splits)

lemma Allow_inv: "breaker_inv b F \<Longrightarrow> Allow now b = (ok, t, b') \<Longrightarrow> breaker_inv b' F'"
  by (auto simp: breaker_inv_def breaker_ops split: if_splits BreakerState.splits)

lemma Succeed_inv: "breaker_inv b F \<Longrightarrow> breaker_inv (Succeed t b) F'"
  by (auto simp: breaker_inv_def breaker_ops split: BreakerState.splits)

lemma Fail_inv: "breaker_inv b F \<Longrightarrow> breaker_inv (Fail t r now b) F'"
  by (auto simp: breaker_inv_def breaker_ops split: BreakerState.splits)

text \<open>
  Tickets in flight are of the episode in progress or of an earlier one, until the 64-bit
  counter wraps; and the probes of a half-open episode cover its calls in flight and its successes.
\<close>

definition flight_inv :: "Breaker \<Rightarrow> Ticket multiset \<Rightarrow> bool" where
  "flight_inv b F \<longleftrightarrow>
     (br_transitions b < 2 ^ 64 \<longrightarrow>
        (\<forall>t \<in># F. uint t \<le> br_transitions b) \<and>
        (br_state b = BreakerHalfOpen \<longrightarrow>
           int (count F (br_episode b)) + br_successes b \<le> br_probes b) \<and>
        (br_state b = BreakerOpen \<longrightarrow> count F (br_episode b) = 0))"

lemma uint_episode:
  "0 \<le> n \<Longrightarrow> n < 2 ^ 64 \<Longrightarrow> uint (of_int n :: 64 word) = n"
  by (simp add: uint_word_of_int take_bit_int_eq_self)

lemma fresh_episode:
  assumes "0 \<le> n" "n + 1 < 2 ^ 64" "\<forall>t \<in># F. uint (t :: 64 word) \<le> n"
  shows "count F (of_int n + 1) = 0"
proof -
  have "uint (of_int (n + 1) :: 64 word) = n + 1" using assms by (intro uint_episode) auto
  then have "of_int (n + 1) \<notin># F" using assms(3) by fastforce
  then show ?thesis by (simp add: not_in_iff)
qed

lemma Allow_new: "Allow now (NewBreaker s) = (True, 0, NewBreaker s)"
  by (simp add: Allow_def NewBreaker_def Let_def)

lemma Allow_refused:
  "Allow now b = (False, t, b') \<Longrightarrow> b' = b \<lparr> br_shortCircuit := br_shortCircuit b + 1 \<rparr>"
  by (auto simp: breaker_ops split: if_splits BreakerState.splits)

lemma flight_inv_shortCircuit [simp]: "flight_inv (b \<lparr> br_shortCircuit := n \<rparr>) F = flight_inv b F"
  by (simp add: flight_inv_def)

lemma Allow_flight:
  assumes "breaker_inv b F" "flight_inv b F" "Allow now b = (True, t, b')"
  shows "flight_inv b' (add_mset t F)"
proof -
  have T: "0 \<le> br_transitions b" "br_episode b = of_int (br_transitions b)"
    using assms(1) by (auto simp: breaker_inv_def)
  have en: "enabled b" using assms(1) by (simp add: breaker_inv_def enabled_def)
  have cur: "br_transitions b < 2 ^ 64 \<Longrightarrow> uint (br_episode b) = br_transitions b"
    unfolding T(2) by (rule uint_episode [OF T(1)])
  show ?thesis
  proof (cases "br_state b")
    case BreakerOpen
    then have b': "b' = (transition BreakerHalfOpen b) \<lparr> br_probes := 1, br_successes := 0 \<rparr>"
      and t: "t = br_episode b + 1"
      using assms(3) en by (auto simp: Allow_def transition_def Let_def split: if_splits)
    have "count F t = 0 \<and> uint t = br_transitions b + 1 \<and> (\<forall>u \<in># F. uint u \<le> br_transitions b + 1)"
      if small: "br_transitions b + 1 < 2 ^ 64"
    proof -
      have old: "\<forall>u \<in># F. uint u \<le> br_transitions b"
        using assms(2) small by (auto simp: flight_inv_def)
      have te: "t = of_int (br_transitions b + 1)" using t T by simp
      have "uint (of_int (br_transitions b + 1) :: 64 word) = br_transitions b + 1"
        by (rule uint_episode) (use T(1) small in \<open>linarith+\<close>)
      then have u: "uint t = br_transitions b + 1" by (subst te)
      have "t = of_int (br_transitions b) + 1" using t T(2) by (simp only:)
      then have c: "count F t = 0" using fresh_episode [OF T(1) small old] by (simp only:)
      have "\<forall>u \<in># F. uint u \<le> br_transitions b + 1"
        using old by (meson order_trans zle_add1_eq_le less_imp_le zless_add1_eq)
      with u c show ?thesis by blast
    qed
    note facts = this
    have "br_transitions b' = br_transitions b + 1" "br_episode b' = t" "br_successes b' = 0"
      "br_probes b' = 1" "br_state b' = BreakerHalfOpen"
      using t by (simp_all add: b' transition_def)
    then show ?thesis using facts by (simp add: flight_inv_def)
  next
    case BreakerClosed
    then have "b' = b" "t = br_episode b" using assms(3) en by (auto simp: Allow_def)
    then show ?thesis using BreakerClosed assms(2) cur by (simp add: flight_inv_def)
  next
    case BreakerHalfOpen
    then have "b' = b \<lparr> br_probes := br_probes b + 1 \<rparr>" "t = br_episode b"
      using assms(3) en by (auto simp: Allow_def split: if_splits)
    then show ?thesis using BreakerHalfOpen assms(2) cur by (simp add: flight_inv_def)
  qed
qed

lemma count_remove_le: "int (count (F - {#t#}) e) \<le> int (count F e)"
  by simp

lemma flight_inv_remove: "flight_inv b F \<Longrightarrow> flight_inv b (F - {#t#})"
  using count_remove_le [of F t "br_episode b"]
  by (auto simp: flight_inv_def dest: in_diffD)

lemma flight_inv_transition:
  assumes "breaker_inv b F" "flight_inv b F" "target \<noteq> BreakerHalfOpen"
    and "br_state b' = target" "br_transitions b' = br_transitions b + 1"
    and "br_episode b' = br_episode b + 1"
  shows "flight_inv b' (F - {#t#})"
proof -
  have T: "0 \<le> br_transitions b" "br_episode b = of_int (br_transitions b)"
    using assms(1) by (auto simp: breaker_inv_def)
  show ?thesis
  proof (cases "br_transitions b + 1 < 2 ^ 64")
    case small: True
    then have old: "\<forall>u \<in># F. uint u \<le> br_transitions b"
      using assms(2) by (auto simp: flight_inv_def)
    have "count F (br_episode b') = 0"
      unfolding assms(6) T(2) by (rule fresh_episode [OF T(1) small old])
    moreover have "\<forall>u \<in># F - {#t#}. uint u \<le> br_transitions b + 1"
      using old by (fastforce dest: in_diffD)
    ultimately show ?thesis using assms(3,4,5) by (simp add: flight_inv_def)
  qed (use assms in \<open>simp add: flight_inv_def\<close>)
qed

lemma flight_inv_same:
  assumes "flight_inv b F" "br_state b \<noteq> BreakerHalfOpen"
    and "br_state b' = br_state b" "br_transitions b' = br_transitions b"
    and "br_episode b' = br_episode b"
  shows "flight_inv b' (F - {#t#})"
  using assms by (auto simp: flight_inv_def dest: in_diffD)

lemma Succeed_flight:
  assumes inv: "breaker_inv b F" and fl: "flight_inv b F" and t: "t \<in># F"
  shows "flight_inv (Succeed t b) (F - {#t#})"
proof -
  have en: "enabled b" using inv by (simp add: breaker_inv_def enabled_def)
  show ?thesis
  proof (cases "current t b")
    case False
    then show ?thesis using fl by (simp add: Succeed_def en flight_inv_remove)
  next
    case cur: True
    show ?thesis
    proof (cases "br_state b = BreakerHalfOpen")
      case False
      then have "br_state (Succeed t b) = br_state b" "br_transitions (Succeed t b) = br_transitions b"
        "br_episode (Succeed t b) = br_episode b"
        using en cur by (auto simp: Succeed_def split: BreakerState.splits)
      then show ?thesis using flight_inv_same [OF fl False] by simp
    next
      case ho: True
      show ?thesis
      proof (cases "HalfOpenProbes (br_settings b) \<le> br_successes b + 1")
        case True
        then show ?thesis
          using en cur ho by (intro flight_inv_transition [OF inv fl, of BreakerClosed])
            (auto simp: Succeed_def transition_def Let_def)
      next
        case False
        then have b': "Succeed t b = b \<lparr> br_successes := br_successes b + 1 \<rparr>"
          using en cur ho by (simp add: Succeed_def Let_def)
        have "0 < count F t" using t by simp
        then have "int (count (F - {#t#}) t) + 1 = int (count F t)" by simp
        then show ?thesis using fl ho cur unfolding b'
          by (auto simp: flight_inv_def current_def dest: in_diffD)
      qed
    qed
  qed
qed

lemma Fail_flight:
  assumes inv: "breaker_inv b F" and fl: "flight_inv b F"
  shows "flight_inv (Fail t retryable now b) (F - {#t#})"
proof (cases "retryable \<and> current t b")
  case False
  then show ?thesis using fl by (auto simp: Fail_def flight_inv_remove)
next
  case True
  have en: "enabled b" using inv by (simp add: breaker_inv_def enabled_def)
  show ?thesis
  proof (cases "br_state b = BreakerHalfOpen \<or>
                FailureThreshold (br_settings b) \<le> br_failures b + 1")
    case opens: True
    then show ?thesis
      using en True by (intro flight_inv_transition [OF inv fl, of BreakerOpen])
        (auto simp: Fail_def transition_def Let_def split: BreakerState.splits)
  next
    case False
    then have "br_state (Fail t retryable now b) = br_state b"
      "br_transitions (Fail t retryable now b) = br_transitions b"
      "br_episode (Fail t retryable now b) = br_episode b"
      using en True by (auto simp: Fail_def Let_def split: BreakerState.splits)
    then show ?thesis using flight_inv_same [OF fl] False by simp
  qed
qed

lemma breaker_step_inv:
  assumes "breaker_step c c'" "breaker_inv (fst c) (snd c) \<and> flight_inv (fst c) (snd c)"
  shows "breaker_inv (fst c') (snd c') \<and> flight_inv (fst c') (snd c')"
proof -
  obtain b F where c: "c = (b, F)" by (cases c)
  with assms have "breaker_inv b F" "flight_inv b F" "breaker_step (b, F) c'" by auto
  then show ?thesis
    by (auto intro: Allow_inv Succeed_inv Fail_inv Allow_flight Succeed_flight Fail_flight
        dest: Allow_refused)
qed

lemma breaker_reachable_inv:
  assumes "0 < FailureThreshold s" "breaker_reachable s c"
  shows "breaker_inv (fst c) (snd c) \<and> flight_inv (fst c) (snd c)"
  using assms(2)
proof (induction rule: breaker_reachable.induct)
  case start
  then show ?case using assms(1)
    by (auto simp: NewBreaker_def breaker_inv_def flight_inv_def second_def Let_def)
next
  case (step c c')
  then show ?case using breaker_step_inv by blast
qed

lemma breaker_reachable_steps:
  "breaker_step\<^sup>*\<^sup>* c c' \<Longrightarrow> breaker_reachable s c \<Longrightarrow> breaker_reachable s c'"
  by (induction rule: rtranclp_induct) (blast intro: breaker_reachable.step)+

lemma breaker_reachable_settings:
  "breaker_reachable s c \<Longrightarrow> br_settings (fst c) = br_settings (NewBreaker s)"
proof (induction rule: breaker_reachable.induct)
  case (step c c')
  then show ?case by (cases c) (auto dest: Allow_settings)
qed simp

lemma transitions_mono:
  assumes "breaker_step\<^sup>*\<^sup>* c c'"
  shows "br_transitions (fst c) \<le> br_transitions (fst c')"
  using assms
proof (induction rule: rtranclp_induct)
  case (step y z)
  have "br_transitions (fst y) \<le> br_transitions (fst z)"
    using step.hyps(2) by (cases y) (auto simp: breaker_ops split: if_splits BreakerState.splits)
  with step.IH show ?case by simp
qed simp

lemma stale_noop:
  assumes "t \<noteq> br_episode b"
  shows "Succeed t b = b" "Fail t r now b = b"
  using assms by (simp_all add: Succeed_def Fail_def current_def)

subsection \<open>What the breaker promises\<close>

text \<open>
  C28.  In every configuration concurrent callers can reach, a closed circuit holds fewer
  consecutive failures than the threshold, an open one keeps no probe, and a half-open one has
  between one and HalfOpenProbes probes, of which the calls of its episode still in flight and the
  recorded successes are a part (until the 64-bit episode wraps): no more than
  HalfOpenProbes calls at a time test a suspected upstream.
\<close>

theorem breaker_safe:
  assumes "0 < FailureThreshold s" "breaker_reachable s (b, F)"
  shows "case br_state b of
      BreakerClosed \<Rightarrow> 0 \<le> br_failures b \<and> br_failures b < FailureThreshold (br_settings b)
    | BreakerOpen \<Rightarrow> br_probes b = 0 \<and>
        (br_transitions b < 2 ^ 64 \<longrightarrow> br_episode b \<notin># F)
    | BreakerHalfOpen \<Rightarrow> 1 \<le> br_probes b \<and> br_probes b \<le> HalfOpenProbes (br_settings b) \<and>
        (br_transitions b < 2 ^ 64 \<longrightarrow>
           int (count F (br_episode b)) + br_successes b \<le> HalfOpenProbes (br_settings b))"
  using breaker_reachable_inv [OF assms]
  by (auto simp: breaker_inv_def flight_inv_def not_in_iff split: BreakerState.splits)

text \<open>
  Stale evidence decides nothing: once the breaker has changed state after admitting a call
  (fewer than 2 to the 64 times in all), the report of that call, success or failure, at any
  later moment and whatever the other callers did, leaves the breaker exactly as it is.
\<close>

theorem stale_report_ignored:
  assumes "0 < FailureThreshold s" "breaker_reachable s (b, F)"
    and "Allow now b = (True, t, b1)" "breaker_step\<^sup>*\<^sup>* (b1, add_mset t F) (b2, F2)"
    and "br_transitions b1 < br_transitions b2" "br_transitions b2 < 2 ^ 64"
  shows "Succeed t b2 = b2 \<and> Fail t retryable later b2 = b2"
proof -
  have r1: "breaker_reachable s (b1, add_mset t F)"
    using assms(2,3) by (blast intro: breaker_reachable.step admit)
  then have r2: "breaker_reachable s (b2, F2)" using assms(4) breaker_reachable_steps by blast
  have "uint t \<le> br_transitions b1"
    using breaker_reachable_inv [OF assms(1) r1] assms(5,6) by (auto simp: flight_inv_def)
  moreover have "uint (br_episode b2) = br_transitions b2"
    using breaker_reachable_inv [OF assms(1) r2] assms(6) uint_episode [of "br_transitions b2"]
    by (simp add: breaker_inv_def)
  ultimately have "t \<noteq> br_episode b2" using assms(5) by auto
  then show ?thesis using stale_noop by blast
qed

text \<open>Schedules of the callers' operations, for running the relation on concrete inputs.\<close>

datatype breaker_op = Call int | Succeeded Ticket | Failed Ticket bool int

fun breaker_exec :: "breaker_op \<Rightarrow> breaker_config \<Rightarrow> breaker_config" where
  "breaker_exec (Call now) (b, F) =
     (case Allow now b of (ok, t, b') \<Rightarrow> (b', if ok then add_mset t F else F))"
| "breaker_exec (Succeeded t) (b, F) = (if t \<in># F then (Succeed t b, F - {#t#}) else (b, F))"
| "breaker_exec (Failed t r now) (b, F) = (if t \<in># F then (Fail t r now b, F - {#t#}) else (b, F))"

definition breaker_run :: "breaker_op list \<Rightarrow> breaker_config \<Rightarrow> breaker_config" where
  "breaker_run ops c = fold breaker_exec ops c"

lemma breaker_exec_steps: "breaker_step\<^sup>*\<^sup>* c (breaker_exec op c)"
proof (cases "(op, c)" rule: breaker_exec.cases)
  case (1 now b F)
  obtain ok t b' where "Allow now b = (ok, t, b')" by (cases "Allow now b")
  with 1 show ?thesis by (cases ok) (auto intro: admit refuse)
qed (auto intro: succeed fail)

lemma breaker_run_steps: "breaker_step\<^sup>*\<^sup>* c (breaker_run ops c)"
proof (induction ops arbitrary: c)
  case (Cons op ops)
  have "breaker_step\<^sup>*\<^sup>* c (breaker_exec op c)" by (rule breaker_exec_steps)
  also have "breaker_step\<^sup>*\<^sup>* (breaker_exec op c) (breaker_run ops (breaker_exec op c))"
    by (rule Cons.IH)
  finally show ?case by (simp add: breaker_run_def)
qed (simp add: breaker_run_def)

lemma breaker_run_reachable: "breaker_reachable s (breaker_run ops (NewBreaker s, {#}))"
  using breaker_reachable_steps [OF breaker_run_steps] breaker_reachable.start by blast

definition five_failures :: "breaker_op list" where
  "five_failures = concat (replicate 5 [Call 0, Failed 0 True 0])"

lemmas breaker_eval =
  breaker_run_def five_failures_def NewBreaker_def DefaultBreakerSettings_def second_def
  breaker_ops numeral_eq_Suc

definition probing :: breaker_config where
  "probing = breaker_run (five_failures @ [Call (30 * second)]) (NewBreaker DefaultBreakerSettings, {#})"

lemma probing_eval:
  "probing =
     (\<lparr> br_settings = DefaultBreakerSettings, br_episode = 2, br_state = BreakerHalfOpen,
        br_failures = 5, br_probes = 1, br_successes = 0, br_openedAt = 0, br_transitions = 2,
        br_shortCircuit = 0 \<rparr>, {#2#})"
  by (simp add: probing_def breaker_eval)

theorem breaker_safe_witness:
  "br_state (fst probing) = BreakerHalfOpen \<and> 1 \<le> br_probes (fst probing) \<and>
   int (count (snd probing) (br_episode (fst probing))) + br_successes (fst probing) \<le> 1"
proof -
  have "breaker_reachable DefaultBreakerSettings (fst probing, snd probing)"
    using breaker_run_reachable by (simp add: probing_def)
  moreover have "0 < FailureThreshold DefaultBreakerSettings"
    by (simp add: DefaultBreakerSettings_def)
  ultimately show ?thesis
    using breaker_safe [of DefaultBreakerSettings "fst probing" "snd probing"]
    by (simp add: probing_eval DefaultBreakerSettings_def)
qed

text \<open>A call admitted before the outage reports its success while the probe is in flight.\<close>

definition straggling :: breaker_config where
  "straggling = breaker_run (five_failures @ [Call (30 * second)])
     (NewBreaker DefaultBreakerSettings, {#0#})"

lemma straggling_eval: "straggling = (fst probing, {#0, 2#})"
  by (simp add: straggling_def probing_eval breaker_eval)

theorem stale_report_ignored_witness: "Succeed 0 (fst straggling) = fst straggling"
proof -
  have en: "0 < FailureThreshold DefaultBreakerSettings" by (simp add: DefaultBreakerSettings_def)
  have steps: "breaker_step\<^sup>*\<^sup>* (NewBreaker DefaultBreakerSettings, add_mset 0 {#}) (fst straggling, snd straggling)"
    using breaker_run_steps by (simp add: straggling_def)
  have "br_transitions (NewBreaker DefaultBreakerSettings) < br_transitions (fst straggling)"
    "br_transitions (fst straggling) < 2 ^ 64"
    by (simp_all add: straggling_eval probing_eval breaker_eval)
  from stale_report_ignored [OF en breaker_reachable.start Allow_new steps this]
  show ?thesis by blast
qed

definition failing :: "Ticket \<Rightarrow> int list \<Rightarrow> Breaker \<Rightarrow> Breaker" where
  "failing t ts b = fold (\<lambda>now. Fail t True now) ts b"

lemma Fail_closed:
  assumes "enabled b" "br_state b = BreakerClosed"
  shows "Fail (br_episode b) True now b =
    (if FailureThreshold (br_settings b) \<le> br_failures b + 1
     then (transition BreakerOpen b) \<lparr> br_failures := br_failures b + 1, br_openedAt := now,
            br_probes := 0, br_successes := 0 \<rparr>
     else b \<lparr> br_failures := br_failures b + 1 \<rparr>)"
  using assms by (simp add: Fail_def current_def transition_def Let_def)

lemma failing_stale: "t \<noteq> br_episode b \<Longrightarrow> failing t ts b = b"
  unfolding failing_def by (induction ts) (simp_all add: stale_noop)

lemma failing_closed:
  assumes "enabled b" "br_state b = BreakerClosed" "br_failures b < FailureThreshold (br_settings b)"
    and "need = nat (FailureThreshold (br_settings b) - br_failures b)"
  shows "failing (br_episode b) ts b =
    (if length ts < need then b \<lparr> br_failures := br_failures b + int (length ts) \<rparr>
     else (transition BreakerOpen b) \<lparr> br_failures := FailureThreshold (br_settings b),
            br_openedAt := ts ! (need - 1), br_probes := 0, br_successes := 0 \<rparr>)"
  using assms
proof (induction ts arbitrary: b need)
  case Nil
  then show ?case by (simp add: failing_def)
next
  case (Cons now ts)
  let ?b = "Fail (br_episode b) True now b"
  have unf: "failing (br_episode b) (now # ts) b = failing (br_episode b) ts ?b"
    by (simp add: failing_def)
  show ?case
  proof (cases "FailureThreshold (br_settings b) \<le> br_failures b + 1")
    case True
    then have one: "need = 1" "br_failures b + 1 = FailureThreshold (br_settings b)"
      using Cons.prems by auto
    have b: "?b = (transition BreakerOpen b) \<lparr> br_failures := FailureThreshold (br_settings b),
        br_openedAt := now, br_probes := 0, br_successes := 0 \<rparr>"
      using Fail_closed [OF Cons.prems(1,2)] one by simp
    have "br_episode b \<noteq> br_episode ?b" by (simp add: b transition_def)
    then have "failing (br_episode b) ts ?b = ?b" by (rule failing_stale)
    with unf b one show ?thesis by simp
  next
    case False
    then have b: "?b = b \<lparr> br_failures := br_failures b + 1 \<rparr>"
      using Fail_closed [OF Cons.prems(1,2)] by simp
    have need: "need - 1 = nat (FailureThreshold (br_settings b) - br_failures ?b)" "1 < need"
      using False Cons.prems b by auto
    have "failing (br_episode ?b) ts ?b =
      (if length ts < need - 1 then ?b \<lparr> br_failures := br_failures ?b + int (length ts) \<rparr>
       else (transition BreakerOpen ?b) \<lparr> br_failures := FailureThreshold (br_settings ?b),
              br_openedAt := ts ! (need - 1 - 1), br_probes := 0, br_successes := 0 \<rparr>)"
      using Cons.prems(1,2) False b need(1) by (intro Cons.IH) (auto simp: enabled_def)
    then show ?thesis
      using unf b need(2) by (auto simp: transition_def nth_Cons')
  qed
qed

text \<open>
  Consecutive retryable failures open a closed circuit exactly when they reach the
  threshold, and the open period is measured from the failure that reached it: the failures of
  the same episode that arrive later do not extend it.
\<close>

theorem opens_at_threshold:
  assumes "0 < FailureThreshold s" "breaker_reachable s (b, F)" "br_state b = BreakerClosed"
    and "need = nat (FailureThreshold (br_settings b) - br_failures b)"
  shows "(br_state (failing (br_episode b) ts b) = BreakerOpen \<longleftrightarrow> need \<le> length ts) \<and>
    (need \<le> length ts \<longrightarrow> br_openedAt (failing (br_episode b) ts b) = ts ! (need - 1))"
proof -
  have "breaker_inv b F" using breaker_reachable_inv [OF assms(1,2)] by simp
  then have "enabled b" "br_failures b < FailureThreshold (br_settings b)"
    using assms(3) by (auto simp: breaker_inv_def enabled_def)
  from failing_closed [OF this(1) assms(3) this(2) assms(4), of ts] assms(3)
  show ?thesis by (auto simp: transition_def)
qed

theorem opens_at_threshold_witness:
  "br_openedAt (failing 0 [1, 2, 3, 4, 5, 9] (NewBreaker DefaultBreakerSettings)) = 5"
  using opens_at_threshold [of DefaultBreakerSettings "NewBreaker DefaultBreakerSettings" "{#}" 5
      "[1, 2, 3, 4, 5, 9]", OF _ breaker_reachable.start]
  by (simp add: NewBreaker_def DefaultBreakerSettings_def second_def numeral_eq_Suc)

text \<open>A prober: a call that is let through and succeeds.\<close>

definition probe_ok :: "int \<Rightarrow> Breaker \<Rightarrow> Breaker" where
  "probe_ok now b = (case Allow now b of (ok, t, b') \<Rightarrow> if ok then Succeed t b' else b')"

lemma probe_ok_half_open:
  assumes "enabled b" "br_state b = BreakerHalfOpen" "br_probes b = br_successes b"
    and "br_probes b < HalfOpenProbes (br_settings b)"
  shows "probe_ok now b =
    (if br_successes b + 1 < HalfOpenProbes (br_settings b)
     then b \<lparr> br_probes := br_probes b + 1, br_successes := br_successes b + 1 \<rparr>
     else (transition BreakerClosed b) \<lparr> br_failures := 0, br_probes := 0, br_successes := 0 \<rparr>)"
  using assms by (simp add: probe_ok_def Allow_def Succeed_def enabled_def current_def
      transition_def Let_def)

lemma probe_ok_half_open_run:
  assumes "enabled b" "br_state b = BreakerHalfOpen" "br_probes b = br_successes b"
    and "br_successes b + int (length ts) = HalfOpenProbes (br_settings b)" "ts \<noteq> []"
  shows "fold probe_ok ts b =
    (transition BreakerClosed b) \<lparr> br_failures := 0, br_probes := 0, br_successes := 0 \<rparr>"
  using assms
proof (induction ts arbitrary: b)
  case (Cons now ts)
  show ?case
  proof (cases "ts = []")
    case True
    then show ?thesis using Cons.prems by (simp add: probe_ok_half_open)
  next
    case False
    let ?b = "b \<lparr> br_probes := br_probes b + 1, br_successes := br_successes b + 1 \<rparr>"
    have one: "probe_ok now b = ?b" using Cons.prems False
      by (cases ts) (simp_all add: probe_ok_half_open)
    have "fold probe_ok ts ?b =
        (transition BreakerClosed ?b) \<lparr> br_failures := 0, br_probes := 0, br_successes := 0 \<rparr>"
      using Cons.prems False by (intro Cons.IH) (auto simp: enabled_def)
    then show ?thesis by (simp add: one transition_def)
  qed
qed simp

text \<open>
  The open period: until OpenFor has passed since the circuit opened every call is refused
  without a ticket and nothing else changes; the first call after it is a probe, and
  when HalfOpenProbes probes in a row succeed the circuit is closed with its failures forgotten, while
  one retryable failure of the probe serves the full open period again.
\<close>

theorem open_period_and_recovery:
  assumes "0 < FailureThreshold s" "breaker_reachable s (b, F)" "br_state b = BreakerOpen"
  shows "(now < br_openedAt b + OpenFor (br_settings b) \<longrightarrow>
           Allow now b = (False, 0, b \<lparr> br_shortCircuit := br_shortCircuit b + 1 \<rparr>)) \<and>
    (br_openedAt b + OpenFor (br_settings b) \<le> now \<longrightarrow>
       (\<exists>b1. Allow now b = (True, br_episode b + 1, b1) \<and>
          br_state b1 = BreakerHalfOpen \<and>
          (let b2 = Fail (br_episode b + 1) True later b1
           in br_state b2 = BreakerOpen \<and> br_openedAt b2 = later)) \<and>
       (int (length ts) + 1 = HalfOpenProbes (br_settings b) \<longrightarrow>
          (let b3 = fold probe_ok (now # ts) b
           in br_state b3 = BreakerClosed \<and> br_failures b3 = 0 \<and>
              br_transitions b3 = br_transitions b + 2)))"
proof -
  have inv: "breaker_inv b F" using breaker_reachable_inv [OF assms(1,2)] by simp
  then have en: "enabled b" by (simp add: breaker_inv_def enabled_def)
  let ?h = "(transition BreakerHalfOpen b) \<lparr> br_probes := 1, br_successes := 0 \<rparr>"
  have early: "Allow now b = (False, 0, b \<lparr> br_shortCircuit := br_shortCircuit b + 1 \<rparr>)"
    if "now < br_openedAt b + OpenFor (br_settings b)"
    using that en assms(3) by (simp add: Allow_def)
  have late: "Allow now b = (True, br_episode b + 1, ?h)"
    if "br_openedAt b + OpenFor (br_settings b) \<le> now"
    using that en assms(3) by (simp add: Allow_def Let_def transition_def)
  have refail: "br_state (Fail (br_episode b + 1) True later ?h) = BreakerOpen \<and>
      br_openedAt (Fail (br_episode b + 1) True later ?h) = later"
    using en by (simp add: Fail_def enabled_def current_def transition_def)
  have closes: "br_state (fold probe_ok (now # ts) b) = BreakerClosed \<and>
      br_failures (fold probe_ok (now # ts) b) = 0 \<and>
      br_transitions (fold probe_ok (now # ts) b) = br_transitions b + 2"
    if l: "br_openedAt b + OpenFor (br_settings b) \<le> now"
      and n: "int (length ts) + 1 = HalfOpenProbes (br_settings b)"
  proof (cases "ts = []")
    case True
    then show ?thesis using late [OF l] en n
      by (simp add: probe_ok_def Succeed_def enabled_def current_def transition_def Let_def)
  next
    case False
    let ?one = "?h \<lparr> br_successes := 1 \<rparr>"
    have one: "probe_ok now b = ?one" using late [OF l] en n False
      by (cases ts) (simp_all add: probe_ok_def Succeed_def enabled_def current_def transition_def Let_def)
    have "fold probe_ok ts ?one =
        (transition BreakerClosed ?one) \<lparr> br_failures := 0, br_probes := 0, br_successes := 0 \<rparr>"
      using en n False by (intro probe_ok_half_open_run) (auto simp: enabled_def transition_def)
    then show ?thesis by (simp add: one transition_def)
  qed
  show ?thesis using early late refail closes by (simp add: Let_def transition_def)
qed

definition opened :: breaker_config where
  "opened = breaker_run five_failures (NewBreaker DefaultBreakerSettings, {#})"

lemma opened_eval:
  "opened =
     (\<lparr> br_settings = DefaultBreakerSettings, br_episode = 1, br_state = BreakerOpen,
        br_failures = 5, br_probes = 0, br_successes = 0, br_openedAt = 0, br_transitions = 1,
        br_shortCircuit = 0 \<rparr>, {#})"
  by (simp add: opened_def breaker_eval)

theorem open_period_and_recovery_witness:
  "fst (Allow 7 (fst opened)) = False \<and>
   br_state (fold probe_ok [30 * second] (fst opened)) = BreakerClosed"
proof -
  have r: "breaker_reachable DefaultBreakerSettings (fst opened, snd opened)"
    using breaker_run_reachable by (simp add: opened_def)
  have "0 < FailureThreshold DefaultBreakerSettings" "br_state (fst opened) = BreakerOpen"
    by (simp_all add: DefaultBreakerSettings_def opened_eval)
  note here = open_period_and_recovery [OF this(1) r this(2)]
  have "fst (Allow 7 (fst opened)) = False"
    using here [of 7] by (simp add: opened_eval DefaultBreakerSettings_def second_def)
  moreover have "br_state (fold probe_ok [30 * second] (fst opened)) = BreakerClosed"
    using here [of "30 * second" 0 "[]"]
    by (simp add: opened_eval DefaultBreakerSettings_def Let_def)
  ultimately show ?thesis by blast
qed

subsection \<open>A probe that ends without a verdict\<close>

text \<open>
  A half-open circuit whose probe slots are all taken and none of whose probes is in flight.
  Fail returns early on a deterministic failure, so such a probe gives its slot back to nobody,
  and half-open has no clock of its own.
\<close>

definition wedged :: "breaker_config \<Rightarrow> bool" where
  "wedged c \<longleftrightarrow> enabled (fst c) \<and> br_state (fst c) = BreakerHalfOpen \<and>
     HalfOpenProbes (br_settings (fst c)) \<le> br_probes (fst c) \<and> br_episode (fst c) \<notin># snd c"

lemma wedged_step:
  assumes "breaker_step c c'" "wedged c"
  shows "wedged c'"
proof -
  obtain b F where c: "c = (b, F)" by (cases c)
  have stale: "t \<in># F \<Longrightarrow> Succeed t b = b \<and> Fail t r now b = b" for t r now
    using assms(2) c by (auto simp: wedged_def intro: stale_noop)
  have refused: "Allow now b = (ok, t, b') \<Longrightarrow> \<not> ok" for now ok t b'
    using assms(2) c by (auto simp: wedged_def Allow_def)
  from assms show ?thesis unfolding c
    by (auto dest: refused Allow_refused in_diffD simp: stale wedged_def enabled_def)
qed

text \<open>
  A defect: once every probe of a half-open circuit has ended in a failure the caller
  reports as deterministic (a 404, a rejected credential, a cancelled request), the circuit is
  half-open for good.  Whatever the callers do afterwards and however long they wait, every
  call is refused, so the adapter never recovers without a restart.
\<close>

theorem half_open_wedge:
  assumes "enabled b" "br_state b = BreakerHalfOpen"
    and "HalfOpenProbes (br_settings b) \<le> br_probes b" "br_episode b \<notin># F"
    and "breaker_step\<^sup>*\<^sup>* (b, F) (b', F')"
  shows "br_state b' = BreakerHalfOpen \<and> fst (Allow now b') = False"
proof -
  have "wedged (b, F)" using assms(1-4) by (simp add: wedged_def)
  with assms(5) have "wedged (b', F')" by (induction rule: rtranclp_induct) (blast intro: wedged_step)+
  then show ?thesis by (auto simp: wedged_def Allow_def)
qed

text \<open>The default breaker: five failures, the probe, and its 404, followed by any schedule.\<close>

theorem half_open_wedge_witness:
  "\<forall>ops now. fst (Allow now (fst (breaker_run
     (five_failures @ [Call (30 * second), Failed 2 False (31 * second)] @ ops)
     (NewBreaker DefaultBreakerSettings, {#})))) = False"
proof (intro allI)
  fix ops now
  let ?c = "breaker_run (five_failures @ [Call (30 * second), Failed 2 False (31 * second)])
              (NewBreaker DefaultBreakerSettings, {#})"
  have c: "?c = (fst probing, {#})"
    using probing_eval by (simp add: probing_def breaker_run_def Fail_def)
  have steps: "breaker_step\<^sup>*\<^sup>* (fst probing, {#}) (fst (breaker_run ops ?c), snd (breaker_run ops ?c))"
    using breaker_run_steps [of "(fst probing, {#})" ops] by (simp add: c)
  have "fst (Allow now (fst (breaker_run ops ?c))) = False"
    using half_open_wedge [OF _ _ _ _ steps, of now]
    by (simp add: probing_eval enabled_def DefaultBreakerSettings_def)
  then show "fst (Allow now (fst (breaker_run
     (five_failures @ [Call (30 * second), Failed 2 False (31 * second)] @ ops)
     (NewBreaker DefaultBreakerSettings, {#})))) = False"
    by (simp add: breaker_run_def)
qed

end
