(* ===== verification/HttpClient.thy ===== *)
theory HttpClient
  imports Strconv Breaker
begin

section \<open>The adapters' HTTP client (internal/adapters/httpx/client.go, errors.go)\<close>

text \<open>
  One call of Client.Do is a pure function of the world it meets: the transport, the JSON codec,
  the HTTP date parser, the sleeping caller and the jitter are fields of a record of functions,
  because they are the network, the clock and library code; each takes the attempt number.
  Durations are nanoseconds, with wrap64 written where the code's int64 arithmetic can overflow.
  The causes kept inside errors are their classes only.  Elapsed times handed to the recorder
  are not modelled.
\<close>

datatype Kind =
  KindNone | KindNotFound | KindUnauthorized | KindRateLimited | KindTimeout | KindCanceled
  | KindCircuitOpen | KindUnavailable | KindDecode | KindTooLarge

definition kind_string :: "Kind \<Rightarrow> string" where
  "kind_string k = (case k of
     KindNone \<Rightarrow> [] | KindNotFound \<Rightarrow> ''not_found'' | KindUnauthorized \<Rightarrow> ''unauthorized''
   | KindRateLimited \<Rightarrow> ''rate_limited'' | KindTimeout \<Rightarrow> ''timeout'' | KindCanceled \<Rightarrow> ''canceled''
   | KindCircuitOpen \<Rightarrow> ''circuit_open'' | KindUnavailable \<Rightarrow> ''unavailable''
   | KindDecode \<Rightarrow> ''decode'' | KindTooLarge \<Rightarrow> ''too_large'')"

text \<open>What the code asks of a transport error and of the caller's context at that moment.\<close>

record TransportErr =
  te_ctxCanceled :: bool
  te_deadlineExceeded :: bool
  te_timeout :: bool
  te_canceled :: bool

datatype Cause = NoCause | CauseEncode | CauseRequest | CauseTransport TransportErr | CauseDecode | CauseWait

record Error =
  er_Adapter :: string
  er_Kind :: Kind
  er_Status :: int
  er_RetryAfter :: int
  er_cause :: Cause

definition Error_message :: "Error \<Rightarrow> string" where
  "Error_message e =
     (if er_Status e \<noteq> 0
      then er_Adapter e @ '' upstream '' @ kind_string (er_Kind e) @ '' (HTTP '' @ Itoa (er_Status e) @ '')''
      else er_Adapter e @ '' upstream '' @ kind_string (er_Kind e))"

definition retryable :: "Error \<Rightarrow> bool" where
  "retryable e \<longleftrightarrow> er_Kind e \<in> {KindRateLimited, KindTimeout, KindUnavailable}"

definition kindForStatus :: "int \<Rightarrow> Kind" where
  "kindForStatus status =
     (if status = 401 \<or> status = 403 then KindUnauthorized
      else if status = 404 then KindNotFound
      else if status = 408 then KindTimeout
      else if status = 429 then KindRateLimited
      else if 500 \<le> status then KindUnavailable
      else KindUnavailable)"

subsection \<open>Policies and options\<close>

definition millisecond :: int where "millisecond = 1000000"

record RetryPolicy =
  MaxAttempts :: int
  BaseDelay :: int
  MaxDelay :: int

definition DefaultRetryPolicy :: RetryPolicy where
  "DefaultRetryPolicy =
     \<lparr> MaxAttempts = 3, BaseDelay = 100 * millisecond, MaxDelay = 2 * second \<rparr>"

text \<open>The parsed base URL: the parts the client reads.\<close>

record URL =
  url_Scheme :: string
  url_Host :: string
  url_Path :: string

record Options =
  op_Adapter :: string
  op_BaseURL :: string
  op_Timeout :: int
  op_MaxBodyBytes :: int
  op_Retry :: RetryPolicy
  op_Breaker :: BreakerSettings
  op_Recorder :: bool

record Client =
  c_adapter :: string
  c_baseURL :: URL
  c_timeout :: int
  c_maxBodyBytes :: int
  c_retry :: RetryPolicy
  c_breaker :: Breaker
  c_recorder :: bool

record Config =
  cfg_BaseURL :: string
  cfg_APIKey :: string
  cfg_Timeout :: int
  cfg_MaxBodyBytes :: int
  cfg_RetryAttempts :: int
  cfg_CircuitFailureThreshold :: int
  cfg_CircuitOpenFor :: int
  cfg_Recorder :: bool

datatype NewError = AdapterRequired | BaseURLRequired | InvalidBaseURL

text \<open>The parser is url.Parse, whose None is an error.\<close>

definition httpx_New :: "(string \<Rightarrow> URL option) \<Rightarrow> Options \<Rightarrow> NewError + Client" where
  "httpx_New parse op =
     (let adapter = TrimSpace (op_Adapter op);
          raw = TrimSpace (op_BaseURL op)
      in if adapter = [] then Err AdapterRequired
         else if raw = [] then Err BaseURLRequired
         else case parse (TrimRightSlash raw) of
           None \<Rightarrow> Err InvalidBaseURL
         | Some parsed \<Rightarrow>
             if url_Scheme parsed = [] \<or> url_Host parsed = [] then Err InvalidBaseURL
             else
               let timeout = (if op_Timeout op \<le> 0 then 10 * second else op_Timeout op);
                   maxBody = (if op_MaxBodyBytes op \<le> 0 then 8 * 2 ^ 20 else op_MaxBodyBytes op);
                   r1 = (if MaxAttempts (op_Retry op) \<le> 0 then DefaultRetryPolicy else op_Retry op);
                   r2 = (if BaseDelay r1 \<le> 0
                         then r1 \<lparr> BaseDelay := BaseDelay DefaultRetryPolicy \<rparr> else r1);
                   r3 = (if MaxDelay r2 \<le> 0
                         then r2 \<lparr> MaxDelay := MaxDelay DefaultRetryPolicy \<rparr> else r2);
                   breaker = (if FailureThreshold (op_Breaker op) = 0 \<and> OpenFor (op_Breaker op) = 0
                              then DefaultBreakerSettings else op_Breaker op)
               in Ok \<lparr> c_adapter = adapter, c_baseURL = parsed, c_timeout = timeout,
                       c_maxBodyBytes = maxBody, c_retry = r3, c_breaker = NewBreaker breaker,
                       c_recorder = op_Recorder op \<rparr>)"

definition OptionsFor :: "string \<Rightarrow> Config \<Rightarrow> Options" where
  "OptionsFor adapter config =
     (let retry = (if 0 < cfg_RetryAttempts config
                   then DefaultRetryPolicy \<lparr> MaxAttempts := cfg_RetryAttempts config \<rparr>
                   else DefaultRetryPolicy);
          b1 = (if cfg_CircuitFailureThreshold config < 0
                then DefaultBreakerSettings \<lparr> FailureThreshold := 0 \<rparr>
                else if 0 < cfg_CircuitFailureThreshold config
                then DefaultBreakerSettings \<lparr> FailureThreshold := cfg_CircuitFailureThreshold config \<rparr>
                else DefaultBreakerSettings);
          b2 = (if 0 < cfg_CircuitOpenFor config
                then b1 \<lparr> OpenFor := cfg_CircuitOpenFor config \<rparr> else b1)
      in \<lparr> op_Adapter = adapter, op_BaseURL = cfg_BaseURL config, op_Timeout = cfg_Timeout config,
           op_MaxBodyBytes = cfg_MaxBodyBytes config, op_Retry = retry, op_Breaker = b2,
           op_Recorder = cfg_Recorder config \<rparr>)"

subsection \<open>Requests, responses and the world\<close>

datatype 'j Body = Single 'j | NDJSON "'j list"

record 'j Request =
  rq_Method :: string
  rq_Path :: string
  rq_Query :: "string option"
  rq_Body :: "'j Body option"
  rq_Header :: "(string \<times> string list) list"
  rq_Idempotent :: bool

record HttpRequest =
  hr_Method :: string
  hr_URL :: URL
  hr_RawQuery :: string
  hr_Header :: "(string \<times> string) list"
  hr_Body :: "string option"

text \<open>
  A response: its status, its Retry-After header (empty when absent), the bytes its body
  delivers and the error, if any, that ends it.
\<close>

record Response =
  rs_Status :: int
  rs_RetryAfter :: string
  rs_Bytes :: string
  rs_ReadError :: "TransportErr option"

record ('j, 'o) World =
  w_marshal :: "'j \<Rightarrow> string option"
  w_unmarshal :: "string \<Rightarrow> 'o option"
  w_validRequest :: "HttpRequest \<Rightarrow> bool"
  w_send :: "int \<Rightarrow> HttpRequest \<Rightarrow> TransportErr + Response"
  w_sleepCanceled :: "int \<Rightarrow> int \<Rightarrow> bool"
  w_jitter :: "int \<Rightarrow> int \<Rightarrow> int"
  w_untilDate :: "string \<Rightarrow> int option"

fun encode_lines :: "('j \<Rightarrow> string option) \<Rightarrow> 'j list \<Rightarrow> string option" where
  "encode_lines marshal [] = Some []"
| "encode_lines marshal (l # ls) =
     (case marshal l of None \<Rightarrow> None
      | Some e \<Rightarrow> map_option (\<lambda>rest. e @ [CHR 0x0A] @ rest) (encode_lines marshal ls))"

definition encodeBody :: "('j \<Rightarrow> string option) \<Rightarrow> 'j Body \<Rightarrow> (string \<times> string) option" where
  "encodeBody marshal body = (case body of
     Single x \<Rightarrow> map_option (\<lambda>e. (e, ''application/json'')) (marshal x)
   | NDJSON ls \<Rightarrow> map_option (\<lambda>e. (e, ''application/x-ndjson'')) (encode_lines marshal ls))"

definition isTimeout :: "TransportErr \<Rightarrow> bool" where
  "isTimeout e = te_timeout e"

definition plain_error :: "string \<Rightarrow> Kind \<Rightarrow> Cause \<Rightarrow> Error" where
  "plain_error adapter k cause =
     \<lparr> er_Adapter = adapter, er_Kind = k, er_Status = 0, er_RetryAfter = 0, er_cause = cause \<rparr>"

definition transportError :: "Client \<Rightarrow> TransportErr \<Rightarrow> Error" where
  "transportError c e =
     plain_error (c_adapter c)
       (if te_ctxCanceled e then KindCanceled
        else if te_deadlineExceeded e \<or> isTimeout e then KindTimeout
        else if te_canceled e then KindCanceled
        else KindUnavailable) (CauseTransport e)"

definition retryAfter :: "(string \<Rightarrow> int option) \<Rightarrow> string \<Rightarrow> int" where
  "retryAfter untilDate header =
     (let raw = TrimSpace header
      in if raw = [] then 0
         else case ParseInt raw of
           Some seconds \<Rightarrow> if seconds < 0 then 0 else wrap64 (seconds * second)
         | None \<Rightarrow> (case untilDate raw of
             Some delay \<Rightarrow> if 0 < delay then delay else 0
           | None \<Rightarrow> 0))"

definition backoff :: "Client \<Rightarrow> (int \<Rightarrow> int) \<Rightarrow> int \<Rightarrow> int \<Rightarrow> int" where
  "backoff c jitter attempt ra =
     (if 0 < ra
      then (if MaxDelay (c_retry c) < ra then MaxDelay (c_retry c) else ra)
      else
        (let delay = wrap64 (BaseDelay (c_retry c) * 2 ^ nat (attempt - 1))
         in jitter (if MaxDelay (c_retry c) < delay \<or> delay \<le> 0 then MaxDelay (c_retry c) else delay)))"

text \<open>fullJitter draws r uniformly below the delay; the draw is the argument.\<close>

definition fullJitter :: "int \<Rightarrow> int \<Rightarrow> int" where
  "fullJitter r delay = (if delay \<le> 0 then 0 else r mod delay + 1)"

definition build_request :: "Client \<Rightarrow> 'j Request \<Rightarrow> (string \<times> string) option \<Rightarrow> HttpRequest" where
  "build_request c rq encoded =
     \<lparr> hr_Method = rq_Method rq,
       hr_URL = (c_baseURL c) \<lparr> url_Path := TrimRightSlash (url_Path (c_baseURL c)) @ rq_Path rq \<rparr>,
       hr_RawQuery = (case rq_Query rq of None \<Rightarrow> [] | Some q \<Rightarrow> q),
       hr_Header = [(''Accept'', ''application/json'')]
         @ (case encoded of None \<Rightarrow> [] | Some (_, contentType) \<Rightarrow> [(''Content-Type'', contentType)])
         @ concat (map (\<lambda>(name, vals). map (Pair name) vals) (rq_Header rq)),
       hr_Body = map_option fst encoded \<rparr>"

text \<open>io.ReadAll of the body limited to one byte past the bound.\<close>

definition read_limited :: "int \<Rightarrow> Response \<Rightarrow> TransportErr + string" where
  "read_limited bound rs =
     (let limit = nat (wrap64 (bound + 1))
      in if limit \<le> length (rs_Bytes rs) then Ok (take limit (rs_Bytes rs))
         else case rs_ReadError rs of Some e \<Rightarrow> Err e | None \<Rightarrow> Ok (rs_Bytes rs))"

definition receive :: "('j, 'o) World \<Rightarrow> Client \<Rightarrow> bool \<Rightarrow> Response \<Rightarrow> Error + 'o option" where
  "receive w c wantOut rs =
     (if rs_Status rs < 200 \<or> 300 \<le> rs_Status rs
      then Err \<lparr> er_Adapter = c_adapter c, er_Kind = kindForStatus (rs_Status rs),
                 er_Status = rs_Status rs, er_RetryAfter = retryAfter (w_untilDate w) (rs_RetryAfter rs),
                 er_cause = NoCause \<rparr>
      else if \<not> wantOut then Ok None
      else case read_limited (c_maxBodyBytes c) rs of
        Inl e \<Rightarrow> Err (transportError c e)
      | Inr payload \<Rightarrow>
          if c_maxBodyBytes c < int (length payload)
          then Err \<lparr> er_Adapter = c_adapter c, er_Kind = KindTooLarge, er_Status = rs_Status rs,
                     er_RetryAfter = 0, er_cause = NoCause \<rparr>
          else case w_unmarshal w payload of
            None \<Rightarrow> Err \<lparr> er_Adapter = c_adapter c, er_Kind = KindDecode, er_Status = rs_Status rs,
                          er_RetryAfter = 0, er_cause = CauseDecode \<rparr>
          | Some v \<Rightarrow> Ok (Some v))"

definition attempt_once ::
  "('j, 'o) World \<Rightarrow> Client \<Rightarrow> 'j Request \<Rightarrow> bool \<Rightarrow> int \<Rightarrow> Error + 'o option" where
  "attempt_once w c rq wantOut n =
     (let send = (\<lambda>encoded.
        let hr = build_request c rq encoded
        in if \<not> w_validRequest w hr
           then Err (plain_error (c_adapter c) KindUnavailable CauseRequest)
           else case w_send w n hr of
             Inl e \<Rightarrow> Err (transportError c e)
           | Inr rs \<Rightarrow> receive w c wantOut rs)
      in case rq_Body rq of
        None \<Rightarrow> send None
      | Some body \<Rightarrow> (case encodeBody (w_marshal w) body of
          None \<Rightarrow> Err (plain_error (c_adapter c) KindDecode CauseEncode)
        | Some enc \<Rightarrow> send (Some enc)))"

subsection \<open>One call\<close>

datatype Act = Attempted int | Recorded string string bool | Waited int | Rejected string

datatype Verdict = VSucceed | VFail bool

definition record_attempt :: "Client \<Rightarrow> Error option \<Rightarrow> bool \<Rightarrow> Act list" where
  "record_attempt c err again =
     (if \<not> c_recorder c then []
      else [Recorded (c_adapter c)
              (kind_string (case err of None \<Rightarrow> KindNone | Some e \<Rightarrow> er_Kind e)) again])"

function do_loop ::
  "('j, 'o) World \<Rightarrow> Client \<Rightarrow> 'j Request \<Rightarrow> bool \<Rightarrow> int \<Rightarrow> int \<Rightarrow> Error option
   \<Rightarrow> (Error + 'o option) \<times> Verdict \<times> Act list" where
  "do_loop w c rq wantOut attempts n lastErr =
     (if attempts < n
      then ((case lastErr of None \<Rightarrow> Ok None | Some e \<Rightarrow> Err e), VFail True, [])
      else case attempt_once w c rq wantOut n of
        Inr v \<Rightarrow> (Ok v, VSucceed, Attempted n # record_attempt c None (1 < n))
      | Inl e \<Rightarrow>
          (let log = Attempted n # record_attempt c (Some e) (1 < n)
           in if \<not> retryable e then (Err e, VFail False, log)
              else if n = attempts then (Err e, VFail True, log)
              else
                (let d = backoff c (w_jitter w n) n (er_RetryAfter e)
                 in if w_sleepCanceled w n d
                    then (Err (plain_error (c_adapter c) KindCanceled CauseWait), VFail True, log @ [Waited d])
                    else (case do_loop w c rq wantOut attempts (n + 1) (Some e) of
                            (r, v, l) \<Rightarrow> (r, v, log @ [Waited d] @ l)))))"
  by pat_completeness auto
termination
  by (relation "measure (\<lambda>(w, c, rq, wantOut, attempts, n, lastErr). nat (attempts + 1 - n))") auto

declare do_loop.simps [simp del]

definition report :: "Verdict \<Rightarrow> Ticket \<Rightarrow> int \<Rightarrow> Breaker \<Rightarrow> Breaker" where
  "report v t now b = (case v of VSucceed \<Rightarrow> Succeed t b | VFail r \<Rightarrow> Fail t r now b)"

text \<open>
  Client.Do: the clock is read when the call is admitted and when its failure is reported, and the
  other callers move the breaker in between.
\<close>

definition Do ::
  "('j, 'o) World \<Rightarrow> Client \<Rightarrow> 'j Request \<Rightarrow> bool \<Rightarrow> int \<Rightarrow> int \<Rightarrow> (Breaker \<Rightarrow> Breaker)
   \<Rightarrow> (Error + 'o option) \<times> Client \<times> Act list" where
  "Do w c rq wantOut start finish others =
     (case Allow start (c_breaker c) of (admitted, ticket, b1) \<Rightarrow>
        if \<not> admitted
        then (Err (plain_error (c_adapter c) KindCircuitOpen NoCause), c \<lparr> c_breaker := b1 \<rparr>,
              if c_recorder c then [Rejected (c_adapter c)] else [])
        else
          (let attempts = (if rq_Idempotent rq then MaxAttempts (c_retry c) else 1)
           in case do_loop w c rq wantOut attempts 1 None of (r, v, log) \<Rightarrow>
                (r, c \<lparr> c_breaker := report v ticket finish (others b1) \<rparr>, log)))"

subsection \<open>What a call does\<close>

definition sent :: "Act list \<Rightarrow> int list" where
  "sent log = concat (map (\<lambda>a. case a of Attempted n \<Rightarrow> [n] | _ \<Rightarrow> []) log)"

definition waits :: "Act list \<Rightarrow> int list" where
  "waits log = concat (map (\<lambda>a. case a of Waited d \<Rightarrow> [d] | _ \<Rightarrow> []) log)"

lemma sent_simps [simp]:
  "sent [] = []" "sent (Attempted n # l) = n # sent l" "sent (Waited d # l) = sent l"
  "sent (Recorded a k g # l) = sent l" "sent (Rejected a # l) = sent l"
  "sent (l @ l') = sent l @ sent l'" "sent (record_attempt c e g) = []"
  by (simp_all add: sent_def record_attempt_def)

lemma waits_simps [simp]:
  "waits [] = []" "waits (Attempted n # l) = waits l" "waits (Waited d # l) = d # waits l"
  "waits (Recorded a k g # l) = waits l" "waits (Rejected a # l) = waits l"
  "waits (l @ l') = waits l @ waits l'" "waits (record_attempt c e g) = []"
  by (simp_all add: waits_def record_attempt_def)

definition policy_ok :: "RetryPolicy \<Rightarrow> bool" where
  "policy_ok r \<longleftrightarrow> 1 \<le> MaxAttempts r \<and> 0 < BaseDelay r \<and> 0 < MaxDelay r"

lemma httpx_New_ok:
  assumes "httpx_New parse op = Ok c"
  shows "policy_ok (c_retry c)" "0 < c_maxBodyBytes c" "0 < c_timeout c"
    "c_adapter c \<noteq> []" "url_Host (c_baseURL c) \<noteq> []"
  using assms
  by (auto simp: httpx_New_def policy_ok_def Let_def DefaultRetryPolicy_def millisecond_def second_def
      split: if_splits option.splits)

lemma fullJitter_bounds:
  assumes "0 < d"
  shows "1 \<le> fullJitter r d \<and> fullJitter r d \<le> d"
proof -
  have "0 \<le> r mod d" "r mod d + 1 \<le> d"
    using assms pos_mod_sign [of d r] pos_mod_bound [of d r] by linarith+
  then show ?thesis using assms by (simp add: fullJitter_def)
qed

lemma backoff_bounds:
  assumes "policy_ok (c_retry c)" "\<And>d. 0 < d \<Longrightarrow> 1 \<le> jitter d \<and> jitter d \<le> d"
  shows "1 \<le> backoff c jitter n ra \<and> backoff c jitter n ra \<le> MaxDelay (c_retry c)"
proof (cases "0 < ra")
  case True
  then show ?thesis using assms(1) by (auto simp: backoff_def policy_ok_def)
next
  case False
  define d where "d = (let delay = wrap64 (BaseDelay (c_retry c) * 2 ^ nat (n - 1))
    in if MaxDelay (c_retry c) < delay \<or> delay \<le> 0 then MaxDelay (c_retry c) else delay)"
  have "0 < d" "d \<le> MaxDelay (c_retry c)" using assms(1) by (auto simp: d_def policy_ok_def Let_def)
  moreover have "backoff c jitter n ra = jitter d" using False by (simp add: backoff_def d_def Let_def)
  ultimately show ?thesis using assms(2) [of d] by auto
qed

lemma wrap64_id: "- (2 ^ 63) \<le> i \<Longrightarrow> i < 2 ^ 63 \<Longrightarrow> wrap64 i = i"
  by (simp add: wrap64_def)

lemma do_loop_ok:
  "n \<le> attempts \<Longrightarrow> attempt_once w c rq wantOut n = Inr x \<Longrightarrow>
   do_loop w c rq wantOut attempts n lastErr =
     (Ok x, VSucceed, Attempted n # record_attempt c None (1 < n))"
  by (subst do_loop.simps) simp

lemma do_loop_deterministic:
  "n \<le> attempts \<Longrightarrow> attempt_once w c rq wantOut n = Inl e \<Longrightarrow> \<not> retryable e \<Longrightarrow>
   do_loop w c rq wantOut attempts n lastErr =
     (Err e, VFail False, Attempted n # record_attempt c (Some e) (1 < n))"
  by (subst do_loop.simps) simp

lemma do_loop_last:
  "attempt_once w c rq wantOut n = Inl e \<Longrightarrow> retryable e \<Longrightarrow>
   do_loop w c rq wantOut n n lastErr =
     (Err e, VFail True, Attempted n # record_attempt c (Some e) (1 < n))"
  by (subst do_loop.simps) simp

lemma do_loop_canceled:
  "n < attempts \<Longrightarrow> attempt_once w c rq wantOut n = Inl e \<Longrightarrow> retryable e \<Longrightarrow>
   d = backoff c (w_jitter w n) n (er_RetryAfter e) \<Longrightarrow> w_sleepCanceled w n d \<Longrightarrow>
   do_loop w c rq wantOut attempts n lastErr =
     (Err (plain_error (c_adapter c) KindCanceled CauseWait), VFail True,
      Attempted n # record_attempt c (Some e) (1 < n) @ [Waited d])"
  by (subst do_loop.simps) (simp add: Let_def)

lemma do_loop_again:
  "n < attempts \<Longrightarrow> attempt_once w c rq wantOut n = Inl e \<Longrightarrow> retryable e \<Longrightarrow>
   d = backoff c (w_jitter w n) n (er_RetryAfter e) \<Longrightarrow> \<not> w_sleepCanceled w n d \<Longrightarrow>
   do_loop w c rq wantOut attempts (n + 1) (Some e) = (r, v, l) \<Longrightarrow>
   do_loop w c rq wantOut attempts n lastErr =
     (r, v, Attempted n # record_attempt c (Some e) (1 < n) @ [Waited d] @ l)"
  by (subst do_loop.simps) (simp add: Let_def)

text \<open>
  A run of the loop from attempt n: which attempts it makes, how they end, what it reports to the
  breaker, and how long it waits.
\<close>

definition loop_ok ::
  "('j, 'o) World \<Rightarrow> Client \<Rightarrow> 'j Request \<Rightarrow> bool \<Rightarrow> int \<Rightarrow> int \<Rightarrow> int
   \<Rightarrow> (Error + 'o option) \<times> Verdict \<times> Act list \<Rightarrow> bool" where
  "loop_ok w c rq wantOut attempts n k res = (case res of (r, v, log) \<Rightarrow>
     n \<le> k \<and> k \<le> attempts \<and> sent log = [n..k] \<and>
     int (length (waits log)) \<le> attempts - n \<and>
     (\<forall>i \<in> {n..<k}. \<exists>e. attempt_once w c rq wantOut i = Err e \<and> retryable e) \<and>
     (case attempt_once w c rq wantOut k of
        Inr x \<Rightarrow> r = Ok x \<and> v = VSucceed
      | Inl e \<Rightarrow> if retryable e then isl r \<and> v = VFail True else r = Err e \<and> v = VFail False))"

lemma do_loop_shape: "n \<le> attempts \<Longrightarrow>
  \<exists>k. loop_ok w c rq wantOut attempts n k (do_loop w c rq wantOut attempts n lastErr)"
proof (induction "nat (attempts - n)" arbitrary: n lastErr rule: less_induct)
  case less
  note here = exI [of _ n]
  show ?case
  proof (cases "attempt_once w c rq wantOut n")
    case (Inr x)
    then show ?thesis using less.prems by (intro here) (simp add: do_loop_ok loop_ok_def)
  next
    case (Inl e)
    consider "\<not> retryable e" | "retryable e" "n = attempts" | "retryable e" "n < attempts"
      using less.prems by fastforce
    then show ?thesis
    proof cases
      case 1
      then show ?thesis using Inl less.prems
        by (intro here) (simp add: do_loop_deterministic loop_ok_def)
    next
      case 2
      then show ?thesis using Inl do_loop_last [OF Inl 2(1)]
        by (intro here) (simp add: loop_ok_def)
    next
      case 3
      define d where "d = backoff c (w_jitter w n) n (er_RetryAfter e)"
      show ?thesis
      proof (cases "w_sleepCanceled w n d")
        case True
        then show ?thesis using Inl do_loop_canceled [OF 3(2) Inl 3(1) d_def] 3
          by (intro here) (simp add: loop_ok_def)
      next
        case False
        obtain r v l where rec: "do_loop w c rq wantOut attempts (n + 1) (Some e) = (r, v, l)"
          by (cases "do_loop w c rq wantOut attempts (n + 1) (Some e)")
        have "nat (attempts - (n + 1)) < nat (attempts - n)" "n + 1 \<le> attempts" using 3 by auto
        from less.hyps [OF this, of "Some e"] obtain k
          where k: "loop_ok w c rq wantOut attempts (n + 1) k (r, v, l)" by (auto simp: rec)
        then have "n + 1 \<le> k" by (simp add: loop_ok_def)
        then have "[n..k] = n # [n + 1..k]" "{n..<k} = insert n {n + 1..<k}"
          by (auto simp: upto_rec1)
        with k Inl 3(1) show ?thesis
          unfolding do_loop_again [OF 3(2) Inl 3(1) d_def False rec]
          by (intro exI [of _ k]) (simp add: loop_ok_def)
      qed
    qed
  qed
qed

lemma do_loop_waits:
  assumes "policy_ok (c_retry c)" "\<And>i d. 0 < d \<Longrightarrow> 1 \<le> w_jitter w i d \<and> w_jitter w i d \<le> d"
  shows "n \<le> attempts \<Longrightarrow>
    \<forall>d \<in> set (waits (snd (snd (do_loop w c rq wantOut attempts n lastErr)))).
      1 \<le> d \<and> d \<le> MaxDelay (c_retry c)"
proof (induction "nat (attempts - n)" arbitrary: n lastErr rule: less_induct)
  case less
  show ?case
  proof (cases "attempt_once w c rq wantOut n")
    case (Inr x)
    then show ?thesis using less.prems by (simp add: do_loop_ok)
  next
    case (Inl e)
    define d where "d = backoff c (w_jitter w n) n (er_RetryAfter e)"
    have d: "1 \<le> d \<and> d \<le> MaxDelay (c_retry c)"
      unfolding d_def using backoff_bounds [OF assms(1), of "w_jitter w n"] assms(2) by blast
    consider "\<not> retryable e" | "retryable e" "n = attempts" | "retryable e" "n < attempts"
      using less.prems by fastforce
    then show ?thesis
    proof cases
      case 1
      then show ?thesis using Inl less.prems by (simp add: do_loop_deterministic)
    next
      case 2
      then show ?thesis using do_loop_last [OF Inl 2(1)] by simp
    next
      case 3
      obtain r v l where rec: "do_loop w c rq wantOut attempts (n + 1) (Some e) = (r, v, l)"
        by (cases "do_loop w c rq wantOut attempts (n + 1) (Some e)")
      have "nat (attempts - (n + 1)) < nat (attempts - n)" "n + 1 \<le> attempts" using 3 by auto
      note ih = less.hyps [OF this, of "Some e", unfolded rec]
      show ?thesis
      proof (cases "w_sleepCanceled w n d")
        case True
        then show ?thesis using do_loop_canceled [OF 3(2) Inl 3(1) d_def] d by simp
      next
        case False
        then show ?thesis using do_loop_again [OF 3(2) Inl 3(1) d_def False rec] d ih by simp
      qed
    qed
  qed
qed

lemma sum_list_bound:
  fixes ds :: "int list"
  assumes "\<forall>d \<in> set ds. d \<le> m"
  shows "sum_list ds \<le> int (length ds) * m"
  using assms by (induction ds) (auto simp: algebra_simps)

text \<open>
  C32.  What one call may cost, for a client that New accepted, in any breaker state and
  whatever the network, the clock and the other callers do: the attempts are numbered from 1
  without gaps and there are at most MaxAttempts of them, at most one when the request is not marked idempotent;
  every attempt that is followed by another failed in a retryable way; and the waits
  between them are at most MaxDelay each and (MaxAttempts - 1) * MaxDelay together.
\<close>

theorem Do_bounded:
  assumes "httpx_New parse op = Ok c0" "c = c0 \<lparr> c_breaker := b \<rparr>"
    and "\<And>i d. w_jitter w i d = fullJitter (draw i) d"
    and "Do w c rq wantOut start finish others = (r, c', log)"
  shows "\<exists>k. sent log = [1..k] \<and> k \<le> (if rq_Idempotent rq then MaxAttempts (c_retry c) else 1) \<and>
    (\<forall>i \<in> {1..<k}. \<exists>e. attempt_once w c rq wantOut i = Err e \<and> retryable e) \<and>
    (\<forall>d \<in> set (waits log). 1 \<le> d \<and> d \<le> MaxDelay (c_retry c)) \<and>
    sum_list (waits log) \<le> (MaxAttempts (c_retry c) - 1) * MaxDelay (c_retry c)"
proof -
  have ok: "policy_ok (c_retry c)" using httpx_New_ok(1) [OF assms(1)] assms(2) by simp
  have j: "0 < d \<Longrightarrow> 1 \<le> w_jitter w i d \<and> w_jitter w i d \<le> d" for i d
    unfolding assms(3) by (rule fullJitter_bounds)
  define n where "n = (if rq_Idempotent rq then MaxAttempts (c_retry c) else 1)"
  have n: "1 \<le> n" "n \<le> MaxAttempts (c_retry c)" using ok by (auto simp: n_def policy_ok_def)
  obtain admitted t b1 where al: "Allow start (c_breaker c) = (admitted, t, b1)"
    by (cases "Allow start (c_breaker c)")
  show ?thesis
  proof (cases admitted)
    case False
    then have "sent log = [1..0]" "waits log = []" using assms(4) al by (auto simp: Do_def)
    then show ?thesis using ok n by (intro exI [of _ 0]) (auto simp: policy_ok_def)
  next
    case True
    then have log: "log = snd (snd (do_loop w c rq wantOut n 1 None))"
      using assms(4) al by (auto simp: Do_def n_def Let_def split: prod.splits)
    obtain k where k: "loop_ok w c rq wantOut n 1 k (do_loop w c rq wantOut n 1 None)"
      using do_loop_shape [OF n(1)] by blast
    have w: "\<forall>d \<in> set (waits log). 1 \<le> d \<and> d \<le> MaxDelay (c_retry c)"
      unfolding log using do_loop_waits [OF ok j n(1)] by blast
    have "int (length (waits log)) \<le> MaxAttempts (c_retry c) - 1"
      using k n by (auto simp: loop_ok_def log split: prod.splits)
    then have "int (length (waits log)) * MaxDelay (c_retry c)
        \<le> (MaxAttempts (c_retry c) - 1) * MaxDelay (c_retry c)"
      using ok by (intro mult_right_mono) (auto simp: policy_ok_def)
    moreover have "sum_list (waits log) \<le> int (length (waits log)) * MaxDelay (c_retry c)"
      using w by (intro sum_list_bound) auto
    ultimately show ?thesis
      using k w by (intro exI [of _ k]) (auto simp: loop_ok_def log n_def split: prod.splits)
  qed
qed

text \<open>
  What a call answers and what it tells the breaker, when it is admitted and the
  policy allows an attempt: it answers with a value exactly when its last attempt did, and
  reports a success; a deterministic failure is returned at once and
  reported as not counting; anything else is an error reported as counting.
\<close>

theorem Do_verdict:
  assumes "Allow start (c_breaker c) = (True, t, b1)" "1 \<le> MaxAttempts (c_retry c)"
    and "Do w c rq wantOut start finish others = (r, c', log)"
  shows "sent log \<noteq> [] \<and>
    (case attempt_once w c rq wantOut (last (sent log)) of
       Inr x \<Rightarrow> r = Ok x \<and> c_breaker c' = Succeed t (others b1)
     | Inl e \<Rightarrow> if retryable e then isl r \<and> c_breaker c' = Fail t True finish (others b1)
               else r = Err e \<and> c_breaker c' = Fail t False finish (others b1))"
proof -
  define n where "n = (if rq_Idempotent rq then MaxAttempts (c_retry c) else 1)"
  have n: "1 \<le> n" using assms(2) by (auto simp: n_def)
  obtain r0 v l where d: "do_loop w c rq wantOut n 1 None = (r0, v, l)"
    by (cases "do_loop w c rq wantOut n 1 None")
  then have res: "r = r0" "log = l" "c_breaker c' = report v t finish (others b1)"
    using assms(1,3) by (auto simp: Do_def n_def Let_def)
  obtain k where k: "loop_ok w c rq wantOut n 1 k (r0, v, l)"
    using do_loop_shape [OF n, of w c rq wantOut None] d by auto
  then have "sent l = [1..k]" "1 \<le> k" by (auto simp: loop_ok_def)
  then have "last (sent l) = k" "sent l \<noteq> []" by (simp_all add: upto_rec2)
  with k show ?thesis by (auto simp: loop_ok_def res report_def split: sum.splits if_splits)
qed

text \<open>
  A response is accepted only when it was read to its end within the bound: a value is
  decoded from the whole body of a 2xx answer, never from a truncated one, and
  the body is no longer than MaxBodyBytes.
\<close>

theorem accepted_body_is_whole:
  assumes "attempt_once w c rq wantOut n = Ok (Some v)"
    and "0 < c_maxBodyBytes c" "c_maxBodyBytes c < max_int64"
  shows "\<exists>hr rs. w_send w n hr = Ok rs \<and> 200 \<le> rs_Status rs \<and> rs_Status rs < 300 \<and>
    int (length (rs_Bytes rs)) \<le> c_maxBodyBytes c \<and> rs_ReadError rs = None \<and>
    w_unmarshal w (rs_Bytes rs) = Some v"
proof -
  obtain hr rs where s: "w_send w n hr = Ok rs" and r: "receive w c wantOut rs = Ok (Some v)"
    using assms(1) by (auto simp: attempt_once_def Let_def split: option.splits sum.splits if_splits)
  have lim: "nat (wrap64 (c_maxBodyBytes c + 1)) = nat (c_maxBodyBytes c) + 1"
    using assms(2,3) by (subst wrap64_id) (auto simp: max_int64_def nat_add_distrib)
  obtain payload where p: "read_limited (c_maxBodyBytes c) rs = Ok payload"
    "int (length payload) \<le> c_maxBodyBytes c" "w_unmarshal w payload = Some v"
    using r by (auto simp: receive_def split: if_splits sum.splits option.splits)
  have "\<not> nat (wrap64 (c_maxBodyBytes c + 1)) \<le> length (rs_Bytes rs)"
  proof
    assume long: "nat (wrap64 (c_maxBodyBytes c + 1)) \<le> length (rs_Bytes rs)"
    then have "payload = take (nat (c_maxBodyBytes c) + 1) (rs_Bytes rs)"
      using p(1) lim by (simp add: read_limited_def)
    then have "length payload = nat (c_maxBodyBytes c) + 1" using long lim by simp
    then show False using p(2) assms(2) by simp
  qed
  then have "payload = rs_Bytes rs \<and> rs_ReadError rs = None"
    using p(1) by (auto simp: read_limited_def Let_def split: option.splits)
  moreover have "200 \<le> rs_Status rs" "rs_Status rs < 300"
    using r by (auto simp: receive_def split: if_splits)
  ultimately show ?thesis using s p by (intro exI [of _ hr] exI [of _ rs]) simp
qed

text \<open>
  The configuration reaches the client: a negative circuit threshold disables the breaker
  and it stays disabled, zero selects the default of five, a positive one is used; the
  attempts are the configured ones or three; and every bound of the client is positive whatever the
  configuration says.
\<close>

theorem configured_client:
  assumes "httpx_New parse (OptionsFor adapter cfg) = Ok c"
  shows "enabled (c_breaker c) = (0 \<le> cfg_CircuitFailureThreshold cfg) \<and>
    (0 \<le> cfg_CircuitFailureThreshold cfg \<longrightarrow> FailureThreshold (br_settings (c_breaker c)) =
       (if cfg_CircuitFailureThreshold cfg = 0 then 5 else cfg_CircuitFailureThreshold cfg)) \<and>
    OpenFor (br_settings (c_breaker c)) =
      (if 0 < cfg_CircuitOpenFor cfg then cfg_CircuitOpenFor cfg else 30 * second) \<and>
    HalfOpenProbes (br_settings (c_breaker c)) = 1 \<and>
    MaxAttempts (c_retry c) = (if 0 < cfg_RetryAttempts cfg then cfg_RetryAttempts cfg else 3) \<and>
    0 < c_maxBodyBytes c \<and> 0 < c_timeout c \<and> 0 < MaxDelay (c_retry c)"
proof -
  have s: "0 < second" by (simp add: second_def)
  have c: "c_retry c = op_Retry (OptionsFor adapter cfg)"
    "c_breaker c = NewBreaker (op_Breaker (OptionsFor adapter cfg))"
    using assms s
    by (auto simp: httpx_New_def OptionsFor_def Let_def DefaultRetryPolicy_def millisecond_def
        DefaultBreakerSettings_def split: if_splits option.splits)
  have r: "MaxAttempts (c_retry c) = (if 0 < cfg_RetryAttempts cfg then cfg_RetryAttempts cfg else 3)"
    by (simp add: c(1) OptionsFor_def Let_def DefaultRetryPolicy_def)
  have b: "br_settings (c_breaker c) =
      \<lparr> FailureThreshold = (if cfg_CircuitFailureThreshold cfg < 0 then 0
           else if 0 < cfg_CircuitFailureThreshold cfg then cfg_CircuitFailureThreshold cfg else 5),
         OpenFor = (if 0 < cfg_CircuitOpenFor cfg then cfg_CircuitOpenFor cfg else 30 * second),
         HalfOpenProbes = 1 \<rparr>"
    using s by (simp add: c(2) OptionsFor_def NewBreaker_def Let_def DefaultBreakerSettings_def)
  show ?thesis
    using r b httpx_New_ok(1,2,3) [OF assms] by (simp add: enabled_def policy_ok_def)
qed

text \<open>
  The defect of the breaker seen from an adapter: if the one probe of an expired open circuit
  is answered with a deterministic failure, every later call through this client fails with
  circuit_open without any attempt, at every later time and for every request.
\<close>

theorem client_wedged:
  assumes "enabled (c_breaker c)" "br_state (c_breaker c) = BreakerOpen"
    and "HalfOpenProbes (br_settings (c_breaker c)) = 1"
    and "OpenFor (br_settings (c_breaker c)) \<le> start - br_openedAt (c_breaker c)"
    and "attempt_once w c rq wantOut 1 = Err e" "\<not> retryable e" "1 \<le> MaxAttempts (c_retry c)"
    and "Do w c rq wantOut start finish id = (r, c1, log)"
    and "Do w' c1 rq' wantOut' start' finish' id = (r', c2, log')"
  shows "r = Err e \<and> r' = Err (plain_error (c_adapter c1) KindCircuitOpen NoCause) \<and>
    sent log' = [] \<and> br_state (c_breaker c2) = BreakerHalfOpen"
proof -
  let ?h = "(transition BreakerHalfOpen (c_breaker c)) \<lparr> br_probes := 1, br_successes := 0 \<rparr>"
  have al: "Allow start (c_breaker c) = (True, br_episode ?h, ?h)"
    using assms(1,2,4) by (simp add: Allow_def Let_def)
  have "do_loop w c rq wantOut (if rq_Idempotent rq then MaxAttempts (c_retry c) else 1) 1 None =
      (Err e, VFail False, Attempted 1 # record_attempt c (Some e) (1 < (1 :: int)))"
    using assms(5,6,7) by (intro do_loop_deterministic) auto
  then have one: "r = Err e" "c1 = c \<lparr> c_breaker := ?h \<rparr>"
    using assms(8) al by (auto simp: Do_def report_def Fail_def)
  have en: "enabled ?h" using assms(1) by (simp add: enabled_def transition_def)
  have "Allow start' ?h = (False, 0, ?h \<lparr> br_shortCircuit := br_shortCircuit ?h + 1 \<rparr>)"
    using en assms(3) by (simp add: Allow_def transition_def)
  then show ?thesis
    using assms(9) one by (auto simp: Do_def transition_def)
qed

lemma wrap64_multiple: "2 ^ m dvd i \<Longrightarrow> m \<le> 63 \<Longrightarrow> (2 :: int) ^ m dvd wrap64 i"
proof -
  assume i: "2 ^ m dvd i" "m \<le> 63"
  have "(2 :: int) ^ m dvd 2 ^ 63" "(2 :: int) ^ m dvd 2 ^ 64"
    using i(2) by (intro le_imp_power_dvd; simp only: numeral_le_iff; linarith)+
  with i(1) show ?thesis unfolding wrap64_def by (intro dvd_diff) (auto intro: dvd_mod dvd_add)
qed

lemma default_delay:
  fixes k :: nat
  defines "delay \<equiv> wrap64 (100000000 * 2 ^ k)"
  shows "(if 2000000000 < delay \<or> delay \<le> 0 then 2000000000 else delay) =
         min (100000000 * 2 ^ k) 2000000000"
proof (cases "k \<le> 36")
  case True
  have "(2 :: int) ^ k \<le> 2 ^ 36" using True by (intro power_increasing) auto
  moreover have pos: "(0 :: int) < 2 ^ k" by simp
  ultimately have "100000000 * (2 :: int) ^ k \<le> 100000000 * 2 ^ 36" by (intro mult_left_mono) simp_all
  then have up: "100000000 * (2 :: int) ^ k < 2 ^ 63" by (rule order_le_less_trans) simp
  have "- (2 ^ 63) \<le> (0 :: int)" "0 \<le> 100000000 * (2 :: int) ^ k" by simp_all
  then have "- (2 ^ 63) \<le> 100000000 * (2 :: int) ^ k" by (rule order_trans)
  note this up
  then have "delay = 100000000 * 2 ^ k" unfolding delay_def by (rule wrap64_id)
  with pos show ?thesis by (simp add: min_def)
next
  case False
  then have "(2 :: int) ^ 37 dvd 2 ^ k" by (intro le_imp_power_dvd) simp
  then have "2 ^ 37 dvd 100000000 * (2 :: int) ^ k" by simp
  then have d: "2 ^ 37 dvd delay" unfolding delay_def by (rule wrap64_multiple) simp
  have "2000000000 < delay \<or> delay \<le> 0"
  proof (cases "0 < delay")
    case True
    then have "2 ^ 37 \<le> delay" using d zdvd_imp_le by blast
    then show ?thesis by simp
  qed simp
  moreover have "(2 :: int) ^ 37 \<le> 2 ^ k" using False by (intro power_increasing) auto
  then have "min (100000000 * 2 ^ k) 2000000000 = (2000000000 :: int)" by simp
  ultimately show ?thesis by simp
qed

text \<open>
  Without a Retry-After header the default policy backs off by doubling from 100 ms up
  to 2 s for every attempt number, also for those at which the 64-bit shift of the
  code overflows (the jitter then draws below this delay).
\<close>

theorem default_backoff:
  "backoff (c \<lparr> c_retry := DefaultRetryPolicy \<rparr>) jitter (int k + 1) 0 =
   jitter (min (100 * millisecond * 2 ^ k) (2 * second))"
proof -
  have "backoff (c \<lparr> c_retry := DefaultRetryPolicy \<rparr>) jitter (int k + 1) 0 =
    jitter (if 2000000000 < wrap64 (100000000 * 2 ^ k) \<or> wrap64 (100000000 * 2 ^ k) \<le> 0
            then 2000000000 else wrap64 (100000000 * 2 ^ k))"
    by (simp add: backoff_def DefaultRetryPolicy_def millisecond_def second_def Let_def)
  then show ?thesis by (simp only: default_delay millisecond_def second_def) simp
qed

subsection \<open>Runs on concrete inputs\<close>

definition sample_client :: "int \<Rightarrow> int \<Rightarrow> NewError + Client" where
  "sample_client retries threshold =
     httpx_New (\<lambda>_. Some \<lparr> url_Scheme = ''https'', url_Host = ''crm'', url_Path = [] \<rparr>)
       (OptionsFor ''espocrm'' \<lparr> cfg_BaseURL = ''https://crm/'', cfg_APIKey = [], cfg_Timeout = 0,
          cfg_MaxBodyBytes = 4, cfg_RetryAttempts = retries, cfg_CircuitFailureThreshold = threshold,
          cfg_CircuitOpenFor = 0, cfg_Recorder = True \<rparr>)"

definition the_client :: Client where
  "the_client = (case sample_client 0 1 of Inr c \<Rightarrow> c
     | Inl _ \<Rightarrow> \<lparr> c_adapter = [], c_baseURL = \<lparr> url_Scheme = [], url_Host = [], url_Path = [] \<rparr>,
         c_timeout = 0, c_maxBodyBytes = 0, c_retry = DefaultRetryPolicy,
         c_breaker = NewBreaker DefaultBreakerSettings, c_recorder = False \<rparr>)"

lemma trim_samples:
  "TrimSpace ''espocrm'' = ''espocrm''" "TrimSpace ''https://crm/'' = ''https://crm/''"
  "TrimRightSlash ''https://crm/'' = ''https://crm''"
  by (simp_all add: TrimSpace_def is_space_def TrimRightSlash_def)

lemma sample_client_eval:
  "sample_client retries threshold = Ok
     \<lparr> c_adapter = ''espocrm'',
       c_baseURL = \<lparr> url_Scheme = ''https'', url_Host = ''crm'', url_Path = [] \<rparr>,
       c_timeout = 10 * second, c_maxBodyBytes = 4,
       c_retry = DefaultRetryPolicy \<lparr> MaxAttempts := if 0 < retries then retries else 3 \<rparr>,
       c_breaker = NewBreaker (DefaultBreakerSettings \<lparr> FailureThreshold :=
         if threshold < 0 then 0 else if 0 < threshold then threshold else 5 \<rparr>),
       c_recorder = True \<rparr>"
  by (simp add: sample_client_def httpx_New_def OptionsFor_def trim_samples Let_def
      DefaultRetryPolicy_def DefaultBreakerSettings_def millisecond_def second_def)

lemma the_client_eval:
  "the_client =
     \<lparr> c_adapter = ''espocrm'',
       c_baseURL = \<lparr> url_Scheme = ''https'', url_Host = ''crm'', url_Path = [] \<rparr>,
       c_timeout = 10 * second, c_maxBodyBytes = 4, c_retry = DefaultRetryPolicy,
       c_breaker = NewBreaker (DefaultBreakerSettings \<lparr> FailureThreshold := 1 \<rparr>),
       c_recorder = True \<rparr>"
  by (simp add: the_client_def sample_client_eval DefaultRetryPolicy_def)

lemma sample_accepted: "sample_client 0 1 = Ok the_client"
  by (simp add: the_client_def sample_client_eval)

text \<open>An upstream that answers every attempt with one status and the body ok.\<close>

definition steady :: "int \<Rightarrow> (unit, string) World" where
  "steady status = \<lparr> w_marshal = (\<lambda>_. None), w_unmarshal = Some, w_validRequest = (\<lambda>_. True),
     w_send = (\<lambda>_ _. Ok \<lparr> rs_Status = status, rs_RetryAfter = [], rs_Bytes = ''ok'', rs_ReadError = None \<rparr>),
     w_sleepCanceled = (\<lambda>_ _. False), w_jitter = (\<lambda>_ d. fullJitter 0 d), w_untilDate = (\<lambda>_. None) \<rparr>"

definition get_request :: "unit Request" where
  "get_request = \<lparr> rq_Method = ''GET'', rq_Path = ''/x'', rq_Query = None, rq_Body = None,
     rq_Header = [], rq_Idempotent = True \<rparr>"

lemma attempt_steady:
  "attempt_once (steady status) c get_request True n =
     receive (steady status) c True
       \<lparr> rs_Status = status, rs_RetryAfter = [], rs_Bytes = ''ok'', rs_ReadError = None \<rparr>"
  by (simp add: attempt_once_def steady_def get_request_def)

lemma attempt_404:
  "attempt_once (steady 404) c get_request True n =
     Err \<lparr> er_Adapter = c_adapter c, er_Kind = KindNotFound, er_Status = 404, er_RetryAfter = 0,
           er_cause = NoCause \<rparr>"
  by (simp add: attempt_steady receive_def kindForStatus_def retryAfter_def)

theorem Do_bounded_witness:
  "case Do (steady 503) the_client get_request True 0 0 id of (r, c', log) \<Rightarrow>
     sum_list (waits log) \<le> 4 * second \<and> (\<exists>k \<le> 3. sent log = [1..k])"
proof -
  obtain r c' log where d: "Do (steady 503) the_client get_request True 0 0 id = (r, c', log)"
    by (cases "Do (steady 503) the_client get_request True 0 0 id")
  have j: "w_jitter (steady 503) i x = fullJitter 0 x" for i x by (simp add: steady_def)
  have c: "the_client = the_client \<lparr> c_breaker := c_breaker the_client \<rparr>" by simp
  from Do_bounded [OF sample_accepted [unfolded sample_client_def] c j d] d
  show ?thesis
    by (auto simp: the_client_eval DefaultRetryPolicy_def get_request_def second_def)
qed

theorem Do_verdict_witness:
  "case Do (steady 404) the_client get_request True 0 0 id of (r, c', log) \<Rightarrow>
     isl r \<and> c_breaker c' = c_breaker the_client"
proof -
  obtain r c' log where d: "Do (steady 404) the_client get_request True 0 0 id = (r, c', log)"
    by (cases "Do (steady 404) the_client get_request True 0 0 id")
  have al: "Allow 0 (c_breaker the_client) = (True, 0, c_breaker the_client)"
    by (simp add: the_client_eval Allow_new)
  have "1 \<le> MaxAttempts (c_retry the_client)" by (simp add: the_client_eval DefaultRetryPolicy_def)
  from Do_verdict [OF al this d] d show ?thesis
    by (auto simp: attempt_404 retryable_def Fail_def)
qed

theorem accepted_body_is_whole_witness:
  "\<exists>hr rs. w_send (steady 200) 1 hr = Ok rs \<and> w_unmarshal (steady 200) (rs_Bytes rs) = Some ''ok''"
proof -
  have "attempt_once (steady 200) the_client get_request True 1 = Ok (Some ''ok'')"
    unfolding attempt_steady
    by (simp add: receive_def read_limited_def wrap64_def the_client_eval steady_def)
  from accepted_body_is_whole [OF this] show ?thesis
    by (auto simp: the_client_eval max_int64_def)
qed

theorem configured_client_witness:
  "\<exists>c. sample_client 0 (-1) = Ok c \<and> \<not> enabled (c_breaker c)"
proof -
  obtain c where c: "sample_client 0 (-1) = Ok c" by (simp add: sample_client_eval)
  from configured_client [OF this [unfolded sample_client_def]] c show ?thesis by auto
qed

theorem client_wedged_witness:
  "case Do (steady 404) (the_client \<lparr> c_breaker := fst opened \<rparr>) get_request True (30 * second) 0 id of
     (r, c1, log) \<Rightarrow>
       (case Do (steady 200) c1 get_request True (10 ^ 20) 0 id of (r', c2, log') \<Rightarrow>
          r' = Err (plain_error ''espocrm'' KindCircuitOpen NoCause) \<and> sent log' = [])"
proof -
  let ?c = "the_client \<lparr> c_breaker := fst opened \<rparr>"
  obtain r c1 log where d: "Do (steady 404) ?c get_request True (30 * second) 0 id = (r, c1, log)"
    by (cases "Do (steady 404) ?c get_request True (30 * second) 0 id")
  obtain r' c2 log' where d': "Do (steady 200) c1 get_request True (10 ^ 20) 0 id = (r', c2, log')"
    by (cases "Do (steady 200) c1 get_request True (10 ^ 20) 0 id")
  have a: "c_adapter c1 = ''espocrm''"
    using d by (auto simp: Do_def the_client_eval Let_def split: prod.splits if_splits)
  have 1: "enabled (c_breaker ?c)" "br_state (c_breaker ?c) = BreakerOpen"
    "HalfOpenProbes (br_settings (c_breaker ?c)) = 1"
    "OpenFor (br_settings (c_breaker ?c)) \<le> 30 * second - br_openedAt (c_breaker ?c)"
    "1 \<le> MaxAttempts (c_retry ?c)"
    by (simp_all add: opened_eval enabled_def DefaultBreakerSettings_def the_client_eval
        DefaultRetryPolicy_def)
  have 2: "\<not> retryable \<lparr> er_Adapter = c_adapter ?c, er_Kind = KindNotFound, er_Status = 404,
      er_RetryAfter = 0, er_cause = NoCause \<rparr>" by (simp add: retryable_def)
  from client_wedged [OF 1(1-4) attempt_404 2 1(5) d d'] d d' a show ?thesis by simp
qed

end
