(* ===== verification/Urls.thy ===== *)
theory Urls
  imports Strconv
begin

section \<open>Percent encoding (net/url)\<close>

text \<open>
  The escaping of the Go library the adapters use, over bytes: what url.PathEscape,
  url.QueryEscape and URL.EscapedPath leave as it is, the percent form of every other byte, and
  url.Values.Encode.  unescape is the library's inverse on paths, which is what an upstream applies to the
  path it receives.
\<close>

datatype encoding = encodePath | encodePathSegment | encodeQueryComponent

definition in_range :: "char \<Rightarrow> char \<Rightarrow> char \<Rightarrow> bool" where
  "in_range lo hi c \<longleftrightarrow> (of_char lo :: nat) \<le> of_char c \<and> (of_char c :: nat) \<le> of_char hi"

definition shouldEscape :: "encoding \<Rightarrow> char \<Rightarrow> bool" where
  "shouldEscape mode c \<longleftrightarrow>
     \<not> (in_range (CHR ''a'') (CHR ''z'') c \<or> in_range (CHR ''A'') (CHR ''Z'') c \<or>
        in_range (CHR ''0'') (CHR ''9'') c \<or> c \<in> set ''-_.~'' \<or>
        (case mode of
           encodePath \<Rightarrow> c \<in> set ''$&+,/:;=@''
         | encodePathSegment \<Rightarrow> c \<in> set ''$&+:=@''
         | encodeQueryComponent \<Rightarrow> False))"

definition upperhex :: string where
  "upperhex = ''0123456789ABCDEF''"

definition hex_char :: "nat \<Rightarrow> char" where
  "hex_char n = upperhex ! n"

definition escape_char :: "encoding \<Rightarrow> char \<Rightarrow> string" where
  "escape_char mode c =
     (if c = CHR '' '' \<and> mode = encodeQueryComponent then ''+''
      else if shouldEscape mode c
      then [CHR ''%'', hex_char (of_char c div 16), hex_char (of_char c mod 16)]
      else [c])"

definition escape :: "encoding \<Rightarrow> string \<Rightarrow> string" where
  "escape mode s = concat (map (escape_char mode) s)"

definition PathEscape :: "string \<Rightarrow> string" where
  "PathEscape = escape encodePathSegment"

definition QueryEscape :: "string \<Rightarrow> string" where
  "QueryEscape = escape encodeQueryComponent"

definition EscapedPath :: "string \<Rightarrow> string" where
  "EscapedPath path = (if path = ''*'' then ''*'' else escape encodePath path)"

text \<open>url.Values.Encode of values with one entry per key.\<close>

definition values_Encode :: "(string \<times> string) list \<Rightarrow> string" where
  "values_Encode query =
     Join (map (\<lambda>(k, v). QueryEscape k @ ''='' @ QueryEscape v) (sort_key fst query)) ''&''"

definition hex_val :: "char \<Rightarrow> nat option" where
  "hex_val c =
     (if in_range (CHR ''0'') (CHR ''9'') c then Some (of_char c - 48)
      else if in_range (CHR ''a'') (CHR ''f'') c then Some (of_char c - 87)
      else if in_range (CHR ''A'') (CHR ''F'') c then Some (of_char c - 55)
      else None)"

fun unescape :: "string \<Rightarrow> string option" where
  "unescape [] = Some []"
| "unescape (c # cs) =
     (if c \<noteq> CHR ''%'' then map_option (Cons c) (unescape cs)
      else case cs of
        h # l # rest \<Rightarrow>
          (case (hex_val h, hex_val l) of
             (Some a, Some b) \<Rightarrow> map_option (Cons (char_of (16 * a + b))) (unescape rest)
           | _ \<Rightarrow> None)
      | _ \<Rightarrow> None)"

lemma escape_simps [simp]:
  "escape mode [] = []" "escape mode (c # cs) = escape_char mode c @ escape mode cs"
  by (simp_all add: escape_def)

lemma escape_append: "escape mode (s @ t) = escape mode s @ escape mode t"
  by (simp add: escape_def)

lemma less_16: "n < (16 :: nat) \<Longrightarrow> n \<in> {0, 1, 2, 3, 4, 5, 6, 7, 8, 9, 10, 11, 12, 13, 14, 15}"
  by (simp only: insert_iff empty_iff simp_thms) presburger

lemma hex_val_char [simp]: "n < 16 \<Longrightarrow> hex_val (hex_char n) = Some n"
  by (drule less_16) (auto simp: hex_val_def hex_char_def upperhex_def in_range_def)

lemma percent_escaped [simp]: "shouldEscape mode (CHR ''%'')"
  by (cases mode) (simp_all add: shouldEscape_def in_range_def)

text \<open>Unescaping a path gives back what was escaped, in either path mode.\<close>

lemma unescape_escape:
  assumes "mode \<noteq> encodeQueryComponent"
  shows "unescape (escape mode s @ t) = map_option (\<lambda>u. s @ u) (unescape t)"
proof (induction s)
  case Nil
  then show ?case by (simp add: option.map_ident)
next
  case (Cons c cs)
  have "(of_char c :: nat) div 16 < 16"
    using of_char_less_256 [of c] by (simp add: less_mult_imp_div_less)
  moreover have "char_of (16 * (of_char c div 16) + of_char c mod 16 :: nat) = c" by simp
  moreover have "(of_char c :: nat) mod 16 < 16" by simp
  ultimately show ?case
    using Cons assms by (cases "shouldEscape mode c")
      (auto simp: escape_char_def option.map_comp comp_def)
qed

lemma unescape_EscapedPath [simp]: "unescape (EscapedPath path) = Some path"
  using unescape_escape [of encodePath path "[]"] by (simp add: EscapedPath_def)

lemma escape_id: "escape mode s = s" if "\<And>c. c \<in> set s \<Longrightarrow> \<not> shouldEscape mode c"
proof -
  have "escape_char mode c = [c]" if "\<not> shouldEscape mode c" for c
  proof -
    have "c = CHR '' '' \<Longrightarrow> shouldEscape mode c"
      by (cases mode) (simp_all add: shouldEscape_def in_range_def)
    then show ?thesis using that by (auto simp: escape_char_def)
  qed
  then show ?thesis using that by (induction s) auto
qed

lemma length_escape_char: "mode \<noteq> encodeQueryComponent \<Longrightarrow>
    length (escape_char mode c) = (if shouldEscape mode c then 3 else 1)"
  by (simp add: escape_char_def)

lemma length_escape_ge: "mode \<noteq> encodeQueryComponent \<Longrightarrow> length s \<le> length (escape mode s)"
  by (induction s) (auto simp: length_escape_char)

text \<open>A string is its own escaped form exactly when no byte of it needs escaping.\<close>

lemma escape_fixed:
  assumes "mode \<noteq> encodeQueryComponent"
  shows "escape mode s = s \<longleftrightarrow> (\<forall>c \<in> set s. \<not> shouldEscape mode c)"
proof
  assume e: "escape mode s = s"
  show "\<forall>c \<in> set s. \<not> shouldEscape mode c"
  proof (rule ccontr)
    assume "\<not> (\<forall>c \<in> set s. \<not> shouldEscape mode c)"
    then obtain c u v where s: "s = u @ c # v" "shouldEscape mode c" by (auto dest: split_list)
    have "length (escape mode s) = length (escape mode u) + 3 + length (escape mode v)"
      using s assms by (simp add: escape_append length_escape_char)
    then show False using e s length_escape_ge [OF assms, of u] length_escape_ge [OF assms, of v] by simp
  qed
next
  assume "\<forall>c \<in> set s. \<not> shouldEscape mode c"
  then show "escape mode s = s" by (intro escape_id) blast
qed

text \<open>A segment never opens another one, nor a query, nor a fragment.\<close>

lemma hex_char_plain: "n < 16 \<Longrightarrow> hex_char n \<notin> {CHR ''/'', CHR ''?'', CHR ''#''}"
  by (drule less_16) (auto simp: hex_char_def upperhex_def)

lemma PathEscape_one_segment: "c \<in> set (PathEscape s) \<Longrightarrow> c \<notin> {CHR ''/'', CHR ''?'', CHR ''#''}"
proof (induction s)
  case Nil
  then show ?case by (simp add: PathEscape_def)
next
  case (Cons x xs)
  have d: "(of_char x :: nat) div 16 < 16" "(of_char x :: nat) mod 16 < 16"
    using of_char_less_256 [of x] by (simp_all add: less_mult_imp_div_less)
  have "\<not> shouldEscape encodePathSegment y \<Longrightarrow> y \<notin> {CHR ''/'', CHR ''?'', CHR ''#''}" for y
    by (auto simp: shouldEscape_def in_range_def)
  then have "y \<in> set (escape_char encodePathSegment x) \<Longrightarrow> y \<notin> {CHR ''/'', CHR ''?'', CHR ''#''}" for y
    using hex_char_plain [OF d(1)] hex_char_plain [OF d(2)]
    by (auto simp: escape_char_def split: if_splits)
  then show ?case using Cons by (auto simp: PathEscape_def)
qed

end
