(* ===== verification/Adapters.thy ===== *)
theory Adapters
  imports HttpClient Urls Paging "HOL-Library.AList"
begin

section \<open>Adapters: paging, registry and the three upstreams (internal/adapters)\<close>

text \<open>
  The opaque page cursor and its bounds, the registry, and the adapters of EspoCRM, Redmine and
  Outline over the HTTP client of theory HttpClient.  Parameters are what JSON texts decode to (record
  Codec, one decoder per response shape) and what the network does during one call (record Net).
  A call returns its answer and the client with the moved circuit breaker; what a call tells the recorder is in
  HttpClient.  url.Values is an association list with one value per key, in any order, since Encode sorts.
\<close>

subsection \<open>Pages (page.go)\<close>

record Page =
  pg_Limit :: int
  pg_Cursor :: string

record PageInfo =
  pi_Total :: int
  pi_NextCursor :: string

definition cursorPrefix :: string where "cursorPrefix = ''o:''"

definition EncodeCursor :: "int \<Rightarrow> string" where
  "EncodeCursor offset = (if offset \<le> 0 then [] else b64_encode (cursorPrefix @ Itoa offset))"

text \<open>None is ErrInvalidCursor.\<close>

definition DecodeCursor :: "string \<Rightarrow> int option" where
  "DecodeCursor cursor0 =
     (let cursor = TrimSpace cursor0
      in if cursor = [] then Some 0
         else case b64_decode cursor of
           None \<Rightarrow> None
         | Some decoded \<Rightarrow>
             (case CutPrefix decoded cursorPrefix of
                None \<Rightarrow> None
              | Some body \<Rightarrow>
                  (case ParseInt body of
                     None \<Rightarrow> None
                   | Some offset \<Rightarrow> if offset < 0 then None else Some offset)))"

definition page_ClampLimit :: "int \<Rightarrow> int \<Rightarrow> int \<Rightarrow> int" where
  "page_ClampLimit limit0 fallback mx =
     (let limit = (if limit0 \<le> 0 then fallback else limit0) in if mx < limit then mx else limit)"

definition Page_Resolve :: "Page \<Rightarrow> int \<Rightarrow> int \<Rightarrow> (int \<times> int) option" where
  "Page_Resolve p defaultLimit maxLimit =
     (case DecodeCursor (pg_Cursor p) of
        None \<Rightarrow> None
      | Some offset \<Rightarrow> Some (offset, page_ClampLimit (pg_Limit p) defaultLimit maxLimit))"

definition NewPageInfo :: "int \<Rightarrow> int \<Rightarrow> int \<Rightarrow> PageInfo" where
  "NewPageInfo n offset returned =
     \<lparr> pi_Total = n,
       pi_NextCursor = (if 0 < returned \<and> wrap64 (offset + returned) < n
                        then EncodeCursor (wrap64 (offset + returned)) else []) \<rparr>"

lemma cursorPrefix_not_Nil: "cursorPrefix \<noteq> []"
  by (simp add: cursorPrefix_def)

lemma DecodeCursor_Encode: "0 \<le> n \<Longrightarrow> n \<le> max_int64 \<Longrightarrow> DecodeCursor (EncodeCursor n) = Some n"
  by (auto simp: DecodeCursor_def EncodeCursor_def ParseInt_Itoa cursorPrefix_not_Nil)

lemma DecodeCursor_trim [simp]: "DecodeCursor (TrimSpace c) = DecodeCursor c"
  by (simp only: DecodeCursor_def TrimSpace_idem)

lemma EncodeCursor_Nil [simp]: "EncodeCursor n = [] \<longleftrightarrow> n \<le> 0"
  by (simp add: EncodeCursor_def cursorPrefix_def)

lemma TrimSpace_EncodeCursor [simp]: "TrimSpace (EncodeCursor n) = EncodeCursor n"
  by (simp add: EncodeCursor_def)

lemma DecodeCursor_Nil [simp]: "DecodeCursor [] = Some 0"
  by (simp add: DecodeCursor_def)

lemma DecodeCursor_bounds: "DecodeCursor c = Some n \<Longrightarrow> 0 \<le> n \<and> n \<le> max_int64"
  by (auto simp: DecodeCursor_def Let_def max_int64_def split: if_splits option.splits dest: ParseInt_bounds)

lemma wrap64_fits: "min_int64 \<le> i \<Longrightarrow> i \<le> max_int64 \<Longrightarrow> wrap64 i = i"
  by (simp add: wrap64_def min_int64_def max_int64_def)

lemma page_ClampLimit_bounds: "0 < fallback \<Longrightarrow> fallback \<le> mx \<Longrightarrow> 1 \<le> page_ClampLimit l fallback mx \<and> page_ClampLimit l fallback mx \<le> mx"
  by (auto simp: page_ClampLimit_def Let_def)

subsection \<open>Adapters and their registry (adapters.go, mock.go)\<close>

definition StatusReady :: string where "StatusReady = ''ready''"
definition StatusDegraded :: string where "StatusDegraded = ''degraded''"
definition StatusDisabled :: string where "StatusDisabled = ''disabled''"

lemmas adapter_status = StatusReady_def StatusDegraded_def StatusDisabled_def

record Info =
  in_ID :: string
  in_Name :: string
  in_Version :: string
  in_Status :: string
  in_Capabilities :: "string list"

record Health =
  he_Status :: string
  he_Message :: string

type_synonym headers = "(string \<times> string list) list"

text \<open>The implementations of the interface Adapter.\<close>

datatype Adapter =
  Mock Info Health | EspoCRM Client headers | Redmine Client headers | Outline Client headers

primrec adapter_Info :: "Adapter \<Rightarrow> Info" where
  "adapter_Info (Mock info health) = info"
| "adapter_Info (EspoCRM c h) = \<lparr> in_ID = ''espocrm'', in_Name = ''EspoCRM'', in_Version = ''1'',
     in_Status = StatusReady, in_Capabilities = [''clients.read'', ''contacts.read''] \<rparr>"
| "adapter_Info (Redmine c h) = \<lparr> in_ID = ''redmine'', in_Name = ''Redmine'', in_Version = ''1'',
     in_Status = StatusReady, in_Capabilities = [''projects.read'', ''issues.read''] \<rparr>"
| "adapter_Info (Outline c h) = \<lparr> in_ID = ''outline'', in_Name = ''Outline'', in_Version = ''1'',
     in_Status = StatusReady, in_Capabilities = [''documents.read'', ''documents.search''] \<rparr>"

text \<open>Breakered: None for the adapter that does not implement it.\<close>

definition breaker_string :: "BreakerState \<Rightarrow> string" where
  "breaker_string s = (case s of BreakerClosed \<Rightarrow> ''closed'' | BreakerOpen \<Rightarrow> ''open''
     | BreakerHalfOpen \<Rightarrow> ''half_open'')"

primrec adapter_BreakerState :: "int \<Rightarrow> Adapter \<Rightarrow> string option" where
  "adapter_BreakerState now (Mock info health) = None"
| "adapter_BreakerState now (EspoCRM c h) = Some (breaker_string (State now (c_breaker c)))"
| "adapter_BreakerState now (Redmine c h) = Some (breaker_string (State now (c_breaker c)))"
| "adapter_BreakerState now (Outline c h) = Some (breaker_string (State now (c_breaker c)))"

type_synonym registry = "(string \<times> Adapter) list"

datatype RegisterError = AdapterIDRequired | AlreadyRegistered string

definition Register :: "Adapter \<Rightarrow> registry \<Rightarrow> RegisterError + registry" where
  "Register adapter r =
     (let i = in_ID (adapter_Info adapter)
      in if i = [] then Err AdapterIDRequired
         else if map_of r i \<noteq> None then Err (AlreadyRegistered i)
         else Ok (AList.update i adapter r))"

definition registry_Get :: "string \<Rightarrow> registry \<Rightarrow> Adapter option" where
  "registry_Get i r = map_of r i"

definition registry_List :: "registry \<Rightarrow> Info list" where
  "registry_List r = sort_key in_ID (map (\<lambda>(i, a). adapter_Info a) r)"

definition BreakerStates :: "int \<Rightarrow> registry \<Rightarrow> (string \<times> string) list" where
  "BreakerStates now r =
     concat (map (\<lambda>(i, a). case adapter_BreakerState now a of None \<Rightarrow> [] | Some s \<Rightarrow> [(i, s)]) r)"

subsection \<open>Records of the upstreams\<close>

record Account =
  ac_ID :: string
  ac_Name :: string
  ac_Website :: string
  ac_Email :: string
  ac_Phone :: string

record Contact =
  cn_ID :: string
  cn_Name :: string
  cn_AccountID :: string
  cn_Email :: string
  cn_Phone :: string

record Project =
  pj_ID :: int
  pj_Name :: string
  pj_Identifier :: string
  pj_Description :: string
  pj_Status :: int

record Issue =
  is_ID :: int
  is_Subject :: string
  is_ProjectID :: int
  is_ProjectName :: string
  is_StatusID :: int
  is_StatusName :: string

record Document =
  dm_ID :: string
  dm_Title :: string
  dm_Text :: string
  dm_URL :: string
  dm_CollectionID :: string
  dm_UpdatedAt :: string

text \<open>The ranking of a hit is a floating-point number the platform never reads.\<close>

record SearchHit =
  sh_Context :: string
  sh_Document :: Document

text \<open>The payloads of the Outline methods: objects of numbers and strings.\<close>

datatype RpcArg = RpcInt int | RpcString string

type_synonym payload = "(string \<times> RpcArg) list"

record Codec =
  cd_marshal :: "payload \<Rightarrow> string option"
  cd_object :: "string \<Rightarrow> unit option"
  cd_accounts :: "string \<Rightarrow> (int \<times> Account list) option"
  cd_contacts :: "string \<Rightarrow> (int \<times> Contact list) option"
  cd_account :: "string \<Rightarrow> Account option"
  cd_contact :: "string \<Rightarrow> Contact option"
  cd_projects :: "string \<Rightarrow> (int \<times> Project list) option"
  cd_issues :: "string \<Rightarrow> (int \<times> Issue list) option"
  cd_project :: "string \<Rightarrow> Project option"
  cd_issue :: "string \<Rightarrow> Issue option"
  cd_documents :: "string \<Rightarrow> (int \<times> Document list) option"
  cd_hits :: "string \<Rightarrow> (int \<times> SearchHit list) option"
  cd_document :: "string \<Rightarrow> Document option"

text \<open>One call: the network, the clock when it is admitted and when it ends, the other callers.\<close>

record Net =
  nw_validRequest :: "HttpRequest \<Rightarrow> bool"
  nw_send :: "int \<Rightarrow> HttpRequest \<Rightarrow> TransportErr + Response"
  nw_sleepCanceled :: "int \<Rightarrow> int \<Rightarrow> bool"
  nw_jitter :: "int \<Rightarrow> int \<Rightarrow> int"
  nw_untilDate :: "string \<Rightarrow> int option"
  nw_start :: int
  nw_finish :: int
  nw_others :: "Breaker \<Rightarrow> Breaker"

definition world_of :: "Codec \<Rightarrow> Net \<Rightarrow> (string \<Rightarrow> 'o option) \<Rightarrow> (payload, 'o) World" where
  "world_of cd net decode =
     \<lparr> w_marshal = cd_marshal cd, w_unmarshal = decode, w_validRequest = nw_validRequest net,
       w_send = nw_send net, w_sleepCanceled = nw_sleepCanceled net, w_jitter = nw_jitter net,
       w_untilDate = nw_untilDate net \<rparr>"

datatype AdapterError = ErrInvalidCursor | ErrNotFound | ErrUpstream Error | ErrQueryRequired

text \<open>errors.Is(err, ErrNotFound), which asks a transport error for its kind.\<close>

definition is_not_found :: "AdapterError \<Rightarrow> bool" where
  "is_not_found e \<longleftrightarrow>
     (case e of ErrNotFound \<Rightarrow> True | ErrUpstream x \<Rightarrow> er_Kind x = KindNotFound | _ \<Rightarrow> False)"

text \<open>Client.Do decoding into a variable that holds zero before the call.\<close>

definition do_into ::
  "Codec \<Rightarrow> Net \<Rightarrow> (string \<Rightarrow> 'o option) \<Rightarrow> 'o \<Rightarrow> Client \<Rightarrow> payload Request \<Rightarrow> (AdapterError + 'o) \<times> Client" where
  "do_into cd net decode zero c rq =
     (case Do (world_of cd net decode) c rq True (nw_start net) (nw_finish net) (nw_others net) of
        (Inl e, c', _) \<Rightarrow> (Err (ErrUpstream e), c')
      | (Inr None, c', _) \<Rightarrow> (Ok zero, c')
      | (Inr (Some v), c', _) \<Rightarrow> (Ok v, c'))"

definition read_request :: "headers \<Rightarrow> string \<Rightarrow> (string \<times> string) list option \<Rightarrow> payload Request" where
  "read_request header path query =
     \<lparr> rq_Method = ''GET'', rq_Path = path, rq_Query = map_option values_Encode query, rq_Body = None,
       rq_Header = header, rq_Idempotent = True \<rparr>"

text \<open>The shape all list calls share: resolve the page, ask, describe the window that came back.\<close>

definition list_page ::
  "Codec \<Rightarrow> Net \<Rightarrow> (string \<Rightarrow> (int \<times> 'a list) option) \<Rightarrow> int \<Rightarrow> int \<Rightarrow> (int \<Rightarrow> int \<Rightarrow> payload Request) \<Rightarrow> Page \<Rightarrow> Client
   \<Rightarrow> (AdapterError + 'a list \<times> PageInfo) \<times> Client" where
  "list_page cd net decode defaultSize maxSize request page c =
     (case Page_Resolve page defaultSize maxSize of
        None \<Rightarrow> (Err ErrInvalidCursor, c)
      | Some (offset, limit) \<Rightarrow>
          (case do_into cd net decode (0, []) c (request offset limit) of
             (Inl e, c') \<Rightarrow> (Err e, c')
           | (Inr (n, items), c') \<Rightarrow> (Ok (items, NewPageInfo n offset (int (length items))), c')))"

definition zero_account :: Account where
  "zero_account = \<lparr> ac_ID = [], ac_Name = [], ac_Website = [], ac_Email = [], ac_Phone = [] \<rparr>"

definition zero_contact :: Contact where
  "zero_contact = \<lparr> cn_ID = [], cn_Name = [], cn_AccountID = [], cn_Email = [], cn_Phone = [] \<rparr>"

definition zero_project :: Project where
  "zero_project = \<lparr> pj_ID = 0, pj_Name = [], pj_Identifier = [], pj_Description = [], pj_Status = 0 \<rparr>"

definition zero_issue :: Issue where
  "zero_issue = \<lparr> is_ID = 0, is_Subject = [], is_ProjectID = 0, is_ProjectName = [], is_StatusID = 0,
     is_StatusName = [] \<rparr>"

definition zero_document :: Document where
  "zero_document = \<lparr> dm_ID = [], dm_Title = [], dm_Text = [], dm_URL = [], dm_CollectionID = [],
     dm_UpdatedAt = [] \<rparr>"

subsection \<open>EspoCRM (espocrm/espocrm.go)\<close>

definition espocrm_New :: "(string \<Rightarrow> URL option) \<Rightarrow> Config \<Rightarrow> NewError + Adapter" where
  "espocrm_New parse config =
     (case httpx_New parse (OptionsFor ''espocrm'' config) of
        Inl e \<Rightarrow> Err e
      | Inr client \<Rightarrow>
          (let key = TrimSpace (cfg_APIKey config)
           in Ok (EspoCRM client (if key \<noteq> [] then [(''X-Api-Key'', [key])] else []))))"

definition espocrm_query :: "int \<Rightarrow> int \<Rightarrow> (string \<times> string) list" where
  "espocrm_query offset limit =
     [(''maxSize'', Itoa limit), (''offset'', Itoa offset), (''orderBy'', ''name''), (''order'', ''asc'')]"

definition espocrm_list ::
  "Codec \<Rightarrow> Net \<Rightarrow> (string \<Rightarrow> (int \<times> 'a list) option) \<Rightarrow> string \<Rightarrow> Page \<Rightarrow> Client \<Rightarrow> headers
   \<Rightarrow> (AdapterError + 'a list \<times> PageInfo) \<times> Adapter" where
  "espocrm_list cd net decode path page c header =
     apsnd (\<lambda>c'. EspoCRM c' header)
       (list_page cd net decode 50 200
          (\<lambda>offset limit. read_request header path (Some (espocrm_query offset limit))) page c)"

definition ListAccounts where
  "ListAccounts cd net page c header = espocrm_list cd net (cd_accounts cd) ''/api/v1/Account'' page c header"

definition ListContacts where
  "ListContacts cd net page c header = espocrm_list cd net (cd_contacts cd) ''/api/v1/Contact'' page c header"

definition espocrm_getByID ::
  "Codec \<Rightarrow> Net \<Rightarrow> (string \<Rightarrow> 'o option) \<Rightarrow> 'o \<Rightarrow> string \<Rightarrow> string \<Rightarrow> Client \<Rightarrow> headers \<Rightarrow> (AdapterError + 'o) \<times> Adapter" where
  "espocrm_getByID cd net decode zero prefix id0 c header =
     (let i = TrimSpace id0
      in if i = [] then (Err ErrNotFound, EspoCRM c header)
         else apsnd (\<lambda>c'. EspoCRM c' header)
                (do_into cd net decode zero c (read_request header (prefix @ PathEscape i) None)))"

definition GetAccount where
  "GetAccount cd net i c header = espocrm_getByID cd net (cd_account cd) zero_account ''/api/v1/Account/'' i c header"

definition GetContact where
  "GetContact cd net i c header = espocrm_getByID cd net (cd_contact cd) zero_contact ''/api/v1/Contact/'' i c header"

subsection \<open>Redmine (redmine/redmine.go)\<close>

definition redmine_New :: "(string \<Rightarrow> URL option) \<Rightarrow> Config \<Rightarrow> NewError + Adapter" where
  "redmine_New parse config =
     (case httpx_New parse (OptionsFor ''redmine'' config) of
        Inl e \<Rightarrow> Err e
      | Inr client \<Rightarrow>
          (let key = TrimSpace (cfg_APIKey config)
           in Ok (Redmine client (if key \<noteq> [] then [(''X-Redmine-API-Key'', [key])] else []))))"

definition ListProjects ::
  "Codec \<Rightarrow> Net \<Rightarrow> Page \<Rightarrow> Client \<Rightarrow> headers \<Rightarrow> (AdapterError + Project list \<times> PageInfo) \<times> Adapter" where
  "ListProjects cd net page c header =
     apsnd (\<lambda>c'. Redmine c' header)
       (list_page cd net (cd_projects cd) 50 100
          (\<lambda>offset limit. read_request header ''/projects.json''
             (Some [(''limit'', Itoa limit), (''offset'', Itoa offset)])) page c)"

definition issues_query :: "string \<Rightarrow> int \<Rightarrow> int \<Rightarrow> (string \<times> string) list" where
  "issues_query projectID0 offset limit =
     (let projectID = TrimSpace projectID0
      in [(''limit'', Itoa limit), (''offset'', Itoa offset), (''status_id'', ''*'')]
         @ (if projectID \<noteq> [] then [(''project_id'', projectID)] else []))"

definition ListIssues ::
  "Codec \<Rightarrow> Net \<Rightarrow> string \<Rightarrow> Page \<Rightarrow> Client \<Rightarrow> headers \<Rightarrow> (AdapterError + Issue list \<times> PageInfo) \<times> Adapter" where
  "ListIssues cd net projectID page c header =
     apsnd (\<lambda>c'. Redmine c' header)
       (list_page cd net (cd_issues cd) 50 100
          (\<lambda>offset limit. read_request header ''/issues.json'' (Some (issues_query projectID offset limit))) page c)"

definition redmine_getByID ::
  "Codec \<Rightarrow> Net \<Rightarrow> (string \<Rightarrow> 'o option) \<Rightarrow> 'o \<Rightarrow> string \<Rightarrow> string \<Rightarrow> Client \<Rightarrow> headers \<Rightarrow> (AdapterError + 'o) \<times> Adapter" where
  "redmine_getByID cd net decode zero prefix id0 c header =
     (let i = TrimSpace id0
      in if i = [] then (Err ErrNotFound, Redmine c header)
         else apsnd (\<lambda>c'. Redmine c' header)
                (do_into cd net decode zero c (read_request header (prefix @ PathEscape i @ ''.json'') None)))"

definition GetProject where
  "GetProject cd net i c header = redmine_getByID cd net (cd_project cd) zero_project ''/projects/'' i c header"

definition GetIssue where
  "GetIssue cd net i c header = redmine_getByID cd net (cd_issue cd) zero_issue ''/issues/'' i c header"

subsection \<open>Outline (outline/outline.go)\<close>

datatype OutlineError = OutlineKeyRequired | OutlineClient NewError

definition outline_New :: "(string \<Rightarrow> URL option) \<Rightarrow> Config \<Rightarrow> OutlineError + Adapter" where
  "outline_New parse config =
     (let key = TrimSpace (cfg_APIKey config)
      in if key = [] then Err OutlineKeyRequired
         else case httpx_New parse (OptionsFor ''outline'' config) of
           Inl e \<Rightarrow> Err (OutlineClient e)
         | Inr client \<Rightarrow> Ok (Outline client [(''Authorization'', [''Bearer '' @ key])]))"

definition rpc_request :: "headers \<Rightarrow> string \<Rightarrow> payload \<Rightarrow> payload Request" where
  "rpc_request header m args =
     \<lparr> rq_Method = ''POST'', rq_Path = ''/api/'' @ m, rq_Query = None, rq_Body = Some (Single args),
       rq_Header = header, rq_Idempotent = True \<rparr>"

definition window_args :: "int \<Rightarrow> int \<Rightarrow> payload" where
  "window_args offset limit = [(''limit'', RpcInt limit), (''offset'', RpcInt offset)]"

definition ListDocuments ::
  "Codec \<Rightarrow> Net \<Rightarrow> Page \<Rightarrow> Client \<Rightarrow> headers \<Rightarrow> (AdapterError + Document list \<times> PageInfo) \<times> Adapter" where
  "ListDocuments cd net page c header =
     apsnd (\<lambda>c'. Outline c' header)
       (list_page cd net (cd_documents cd) 50 100
          (\<lambda>offset limit. rpc_request header ''documents.list'' (window_args offset limit)) page c)"

definition SearchDocuments ::
  "Codec \<Rightarrow> Net \<Rightarrow> string \<Rightarrow> Page \<Rightarrow> Client \<Rightarrow> headers \<Rightarrow> (AdapterError + SearchHit list \<times> PageInfo) \<times> Adapter" where
  "SearchDocuments cd net query0 page c header =
     (let query = TrimSpace query0
      in if query = [] then (Err ErrQueryRequired, Outline c header)
         else apsnd (\<lambda>c'. Outline c' header)
                (list_page cd net (cd_hits cd) 50 100
                   (\<lambda>offset limit. rpc_request header ''documents.search''
                      ((''query'', RpcString query) # window_args offset limit)) page c))"

definition GetDocument ::
  "Codec \<Rightarrow> Net \<Rightarrow> string \<Rightarrow> Client \<Rightarrow> headers \<Rightarrow> (AdapterError + Document) \<times> Adapter" where
  "GetDocument cd net id0 c header =
     (let i = TrimSpace id0
      in if i = [] then (Err ErrNotFound, Outline c header)
         else apsnd (\<lambda>c'. Outline c' header)
                (do_into cd net (cd_document cd) zero_document c
                   (rpc_request header ''documents.info'' [(''id'', RpcString i)])))"

subsection \<open>Health of the adapters\<close>

definition probed :: "(AdapterError + 'o) \<times> Client \<Rightarrow> Health \<times> Client" where
  "probed r =
     (case r of
        (Inl (ErrUpstream e), c) \<Rightarrow> (\<lparr> he_Status = StatusDegraded, he_Message = Error_message e \<rparr>, c)
      | (Inl _, c) \<Rightarrow> (\<lparr> he_Status = StatusDegraded, he_Message = [] \<rparr>, c)
      | (Inr _, c) \<Rightarrow> (\<lparr> he_Status = StatusReady, he_Message = [] \<rparr>, c))"

primrec adapter_Health :: "Codec \<Rightarrow> Net \<Rightarrow> Adapter \<Rightarrow> Health \<times> Adapter" where
  "adapter_Health cd net (Mock info health) = (health, Mock info health)"
| "adapter_Health cd net (EspoCRM c h) = apsnd (\<lambda>c'. EspoCRM c' h)
     (probed (do_into cd net (cd_object cd) () c (read_request h ''/api/v1/App/user'' None)))"
| "adapter_Health cd net (Redmine c h) = apsnd (\<lambda>c'. Redmine c' h)
     (probed (do_into cd net (cd_object cd) () c (read_request h ''/users/current.json'' None)))"
| "adapter_Health cd net (Outline c h) = apsnd (\<lambda>c'. Outline c' h)
     (probed (do_into cd net (cd_documents cd) (0, []) c
        (rpc_request h ''documents.list'' [(''limit'', RpcInt 1)])))"

text \<open>
  Registry.Health: the probes run concurrently, each on its own adapter, so each has its own network and
  none sees another's breaker.
\<close>

definition registry_Health :: "Codec \<Rightarrow> (string \<Rightarrow> Net) \<Rightarrow> registry \<Rightarrow> (string \<times> Health) list \<times> registry" where
  "registry_Health cd nets r =
     (map (\<lambda>(i, a). (i, fst (adapter_Health cd (nets i) a))) r,
      map (\<lambda>(i, a). (i, snd (adapter_Health cd (nets i) a))) r)"

subsection \<open>Startup (cmd/server/service.go)\<close>

definition disabledAdapter :: "string \<Rightarrow> string \<Rightarrow> string list \<Rightarrow> Adapter" where
  "disabledAdapter i name capabilities =
     Mock \<lparr> in_ID = i, in_Name = name, in_Version = ''0'', in_Status = StatusDisabled,
            in_Capabilities = capabilities \<rparr>
       \<lparr> he_Status = StatusDisabled, he_Message = ''not configured'' \<rparr>"

text \<open>The settings of the environment; parseDuration is time.ParseDuration.\<close>

definition durationEnv :: "(string \<Rightarrow> int option) \<Rightarrow> (string \<Rightarrow> string) \<Rightarrow> string \<Rightarrow> int \<Rightarrow> int" where
  "durationEnv parseDuration env name fallback =
     (case parseDuration (TrimSpace (env name)) of
        None \<Rightarrow> fallback
      | Some v \<Rightarrow> if v < 0 then fallback else v)"

definition adapterResilience :: "(string \<Rightarrow> int option) \<Rightarrow> (string \<Rightarrow> string) \<Rightarrow> Config" where
  "adapterResilience parseDuration env =
     \<lparr> cfg_BaseURL = [], cfg_APIKey = [],
       cfg_Timeout = durationEnv parseDuration env ''ADAPTER_TIMEOUT'' (10 * second),
       cfg_MaxBodyBytes = 0,
       cfg_RetryAttempts = intEnv env ''ADAPTER_RETRY_ATTEMPTS'' 0,
       cfg_CircuitFailureThreshold = intEnv env ''ADAPTER_CIRCUIT_FAILURE_THRESHOLD'' 0,
       cfg_CircuitOpenFor = durationEnv parseDuration env ''ADAPTER_CIRCUIT_OPEN_FOR'' 0,
       cfg_Recorder = True \<rparr>"

text \<open>An adapter that could be built is registered, otherwise its placeholder is.\<close>

definition register_or :: "string \<Rightarrow> string \<Rightarrow> string list \<Rightarrow> ('e + Adapter) option \<Rightarrow> registry \<Rightarrow> registry" where
  "register_or i name capabilities built r =
     (let r1 = (case built of
                  Some (Inr client) \<Rightarrow> (case Register client r of Inr r' \<Rightarrow> r' | Inl _ \<Rightarrow> r)
                | _ \<Rightarrow> r)
      in if registry_Get i r1 \<noteq> None then r1
         else case Register (disabledAdapter i name capabilities) r1 of Inr r' \<Rightarrow> r' | Inl _ \<Rightarrow> r1)"

text \<open>init: env is os.Getenv.\<close>

definition init_registry ::
  "(string \<Rightarrow> URL option) \<Rightarrow> (string \<Rightarrow> int option) \<Rightarrow> (string \<Rightarrow> string) \<Rightarrow> registry" where
  "init_registry parse parseDuration env =
     (let resilience = adapterResilience parseDuration env;
          config = (\<lambda>url key. resilience \<lparr> cfg_BaseURL := TrimSpace (env url), cfg_APIKey := env key \<rparr>);
          built = (\<lambda>mk url key. if cfg_BaseURL (config url key) = [] then None else Some (mk (config url key)));
          r1 = register_or ''espocrm'' ''EspoCRM'' [''clients.read'', ''contacts.read'']
                 (built (espocrm_New parse) ''ESPOCRM_URL'' ''ESPOCRM_API_KEY'') [];
          r2 = register_or ''redmine'' ''Redmine'' [''projects.read'', ''issues.read'']
                 (built (redmine_New parse) ''REDMINE_URL'' ''REDMINE_API_KEY'') r1
      in register_or ''outline'' ''Outline'' [''documents.read'', ''documents.search'']
           (if cfg_BaseURL (config ''OUTLINE_URL'' ''OUTLINE_API_KEY'') = [] then None
            else Some (outline_New parse (config ''OUTLINE_URL'' ''OUTLINE_API_KEY''))) r2)"

subsection \<open>The registry describes the whole surface\<close>

definition registry_ok :: "registry \<Rightarrow> bool" where
  "registry_ok r \<longleftrightarrow> distinct (map fst r) \<and> (\<forall>(i, a) \<in> set r. in_ID (adapter_Info a) = i \<and> i \<noteq> [])"

lemma Register_ok:
  "Register a r = Ok r' \<longleftrightarrow>
     in_ID (adapter_Info a) \<noteq> [] \<and> map_of r (in_ID (adapter_Info a)) = None \<and>
     r' = r @ [(in_ID (adapter_Info a), a)]"
proof -
  have "map_of r i = None \<Longrightarrow> AList.update i a r = r @ [(i, a)]" for i
    by (induction r) (auto split: if_splits)
  then show ?thesis by (auto simp: Register_def Let_def)
qed

lemma Register_keeps: "registry_ok r \<Longrightarrow> Register a r = Ok r' \<Longrightarrow> registry_ok r'"
  by (auto simp: Register_ok registry_ok_def map_of_eq_None_iff)

lemma register_or_shape:
  assumes "i \<noteq> []" "i \<notin> fst ` set r" "\<And>a. built = Some (Inr a) \<Longrightarrow> in_ID (adapter_Info a) = i"
  shows "\<exists>a. register_or i name capabilities built r = r @ [(i, a)] \<and> in_ID (adapter_Info a) = i"
proof (cases "\<exists>a. built = Some (Inr a)")
  case True
  then obtain a where a: "built = Some (Inr a)" by blast
  with assms have "Register a r = Ok (r @ [(i, a)])"
    by (simp add: Register_ok map_of_eq_None_iff)
  then show ?thesis using a assms by (simp add: register_or_def registry_Get_def Let_def)
next
  case False
  let ?d = "disabledAdapter i name capabilities"
  have "in_ID (adapter_Info ?d) = i" by (simp add: disabledAdapter_def)
  moreover from this have "Register ?d r = Ok (r @ [(i, ?d)])"
    using assms by (simp add: Register_ok map_of_eq_None_iff)
  moreover have "map_of r i = None" using assms by (simp add: map_of_eq_None_iff)
  ultimately show ?thesis using False
    by (auto simp: register_or_def registry_Get_def Let_def split: option.splits sum.splits)
qed

lemma News_Info:
  "espocrm_New parse config = Ok a \<Longrightarrow> in_ID (adapter_Info a) = ''espocrm''"
  "redmine_New parse config = Ok a \<Longrightarrow> in_ID (adapter_Info a) = ''redmine''"
  "outline_New parse config = Ok a \<Longrightarrow> in_ID (adapter_Info a) = ''outline''"
  by (auto simp: espocrm_New_def redmine_New_def outline_New_def Let_def split: sum.splits if_splits)

lemma init_registry_shape:
  "\<exists>a b c. init_registry parse parseDuration env = [(''espocrm'', a), (''redmine'', b), (''outline'', c)] \<and>
     in_ID (adapter_Info a) = ''espocrm'' \<and> in_ID (adapter_Info b) = ''redmine'' \<and>
     in_ID (adapter_Info c) = ''outline''"
proof -
  define config where "config url key = (adapterResilience parseDuration env)
    \<lparr> cfg_BaseURL := TrimSpace (env url), cfg_APIKey := env key \<rparr>" for url key
  define be where "be = (if cfg_BaseURL (config ''ESPOCRM_URL'' ''ESPOCRM_API_KEY'') = [] then None
     else Some (espocrm_New parse (config ''ESPOCRM_URL'' ''ESPOCRM_API_KEY'')))"
  define br where "br = (if cfg_BaseURL (config ''REDMINE_URL'' ''REDMINE_API_KEY'') = [] then None
     else Some (redmine_New parse (config ''REDMINE_URL'' ''REDMINE_API_KEY'')))"
  define bo where "bo = (if cfg_BaseURL (config ''OUTLINE_URL'' ''OUTLINE_API_KEY'') = [] then None
     else Some (outline_New parse (config ''OUTLINE_URL'' ''OUTLINE_API_KEY'')))"
  have ids: "be = Some (Inr x) \<Longrightarrow> in_ID (adapter_Info x) = ''espocrm''"
    "br = Some (Inr x) \<Longrightarrow> in_ID (adapter_Info x) = ''redmine''"
    "bo = Some (Inr x) \<Longrightarrow> in_ID (adapter_Info x) = ''outline''" for x
    by (auto simp: be_def br_def bo_def News_Info split: if_splits)
  let ?r1 = "register_or ''espocrm'' ''EspoCRM'' [''clients.read'', ''contacts.read''] be []"
  let ?r2 = "register_or ''redmine'' ''Redmine'' [''projects.read'', ''issues.read''] br ?r1"
  obtain a where a: "?r1 = [(''espocrm'', a)]" "in_ID (adapter_Info a) = ''espocrm''"
    using register_or_shape [of "''espocrm''" "[]" be "''EspoCRM''"] ids(1) by auto
  obtain b where b: "?r2 = [(''espocrm'', a), (''redmine'', b)]" "in_ID (adapter_Info b) = ''redmine''"
    using register_or_shape [of "''redmine''" ?r1 br "''Redmine''"] ids(2) a by auto
  obtain c where "register_or ''outline'' ''Outline'' [''documents.read'', ''documents.search''] bo ?r2 =
      [(''espocrm'', a), (''redmine'', b), (''outline'', c)]" "in_ID (adapter_Info c) = ''outline''"
    using register_or_shape [of "''outline''" ?r2 bo "''Outline''"] ids(3) b by auto
  moreover have "init_registry parse parseDuration env =
      register_or ''outline'' ''Outline'' [''documents.read'', ''documents.search''] bo ?r2"
    by (simp add: init_registry_def Let_def be_def br_def bo_def config_def)
  ultimately show ?thesis using a b by auto
qed

text \<open>
  However the environment is set, and whichever integrations it leaves out or misconfigures, the
  registry describes all three upstreams, each once and under its own identifier.
\<close>

theorem surface_always_complete:
  "map in_ID (registry_List (init_registry parse parseDuration env)) = [''espocrm'', ''outline'', ''redmine''] \<and>
   registry_ok (init_registry parse parseDuration env)"
proof -
  obtain a b c where "init_registry parse parseDuration env = [(''espocrm'', a), (''redmine'', b), (''outline'', c)]"
     "in_ID (adapter_Info a) = ''espocrm''" "in_ID (adapter_Info b) = ''redmine''"
     "in_ID (adapter_Info c) = ''outline''"
    using init_registry_shape by metis
  then show ?thesis
    by (simp add: registry_List_def registry_ok_def)
qed

subsection \<open>What a detail read asks for\<close>

text \<open>The path an upstream sees on the wire for a request, and the path it decodes it to.\<close>

definition wire_path :: "Client \<Rightarrow> payload Request \<Rightarrow> string" where
  "wire_path c rq = EscapedPath (url_Path (hr_URL (build_request c rq None)))"

definition crm_detail :: "headers \<Rightarrow> string \<Rightarrow> payload Request" where
  "crm_detail header i = read_request header (''/api/v1/Account/'' @ PathEscape (TrimSpace i)) None"

text \<open>
  GetAccount percent-encodes the identifier and the HTTP client encodes the path again, so the
  record the upstream is asked for is the one named exactly when no byte of its identifier needs encoding: every
  other identifier arrives mangled.
\<close>

theorem detail_read_names_its_record_iff:
  "GetAccount cd net i c header =
     (if TrimSpace i = [] then (Err ErrNotFound, EspoCRM c header)
      else apsnd (\<lambda>c'. EspoCRM c' header) (do_into cd net (cd_account cd) zero_account c (crm_detail header i))) \<and>
   (unescape (wire_path c (crm_detail header i)) =
      Some (TrimRightSlash (url_Path (c_baseURL c)) @ ''/api/v1/Account/'' @ TrimSpace i) \<longleftrightarrow>
    filter (shouldEscape encodePathSegment) (TrimSpace i) = [])"
proof -
  have "escape encodePathSegment (TrimSpace i) = TrimSpace i \<longleftrightarrow>
      (\<forall>c \<in> set (TrimSpace i). \<not> shouldEscape encodePathSegment c)"
    by (rule escape_fixed) simp
  then show ?thesis
    by (simp add: GetAccount_def espocrm_getByID_def crm_detail_def Let_def wire_path_def build_request_def
        read_request_def PathEscape_def filter_empty_conv)
qed

text \<open>Whatever the identifier, the request stays in the collection: no byte of it opens a new segment.\<close>

lemma detail_read_one_segment:
  "x \<in> set (PathEscape (TrimSpace i)) \<Longrightarrow> x \<noteq> CHR ''/''"
  using PathEscape_one_segment by auto

text \<open>
  C40.  A position survives the trip to the caller and back: the cursor issued for an offset decodes to that
  offset, two offsets never share a cursor, and a cursor that was not issued for a
  position is either refused or stands for one in range.
\<close>

theorem page_cursor_roundtrip:
  assumes "0 \<le> n" "n \<le> max_int64" "0 \<le> m" "m \<le> max_int64"
  shows "DecodeCursor (EncodeCursor n) = Some n \<and> (EncodeCursor n = EncodeCursor m \<longleftrightarrow> n = m) \<and>
    (case DecodeCursor c of None \<Rightarrow> True | Some k \<Rightarrow> 0 \<le> k \<and> k \<le> max_int64)"
proof -
  have n: "DecodeCursor (EncodeCursor n) = Some n" by (rule DecodeCursor_Encode) fact+
  have m: "DecodeCursor (EncodeCursor m) = Some m" by (rule DecodeCursor_Encode) fact+
  have "EncodeCursor n = EncodeCursor m \<longleftrightarrow> n = m" using n m by (metis option.inject)
  moreover have "case DecodeCursor c of None \<Rightarrow> True | Some k \<Rightarrow> 0 \<le> k \<and> k \<le> max_int64"
  proof (cases "DecodeCursor c")
    case (Some k)
    show ?thesis using DecodeCursor_bounds [OF Some] by (simp only: Some option.case)
  qed simp
  ultimately show ?thesis using n by blast
qed

theorem page_cursor_roundtrip_witness: "DecodeCursor (EncodeCursor 50) = Some 50"
  by (rule page_cursor_roundtrip [of 50 50 "[]", THEN conjunct1]) (simp_all add: max_int64_def)

subsection \<open>An upstream that answers\<close>

text \<open>
  The first attempt reaches the upstream and comes back with 200 and a body, within the bound, that decodes to v.
\<close>

definition serves :: "Codec \<Rightarrow> Net \<Rightarrow> (string \<Rightarrow> 'o option) \<Rightarrow> Client \<Rightarrow> payload Request \<Rightarrow> 'o \<Rightarrow> bool" where
  "serves cd net decode c rq v \<longleftrightarrow>
     (\<exists>enc rs. (case rq_Body rq of None \<Rightarrow> enc = None
                | Some body \<Rightarrow> enc \<noteq> None \<and> encodeBody (cd_marshal cd) body = enc) \<and>
        nw_validRequest net (build_request c rq enc) \<and>
        nw_send net 1 (build_request c rq enc) = Ok rs \<and> rs_Status rs = 200 \<and> rs_ReadError rs = None \<and>
        int (length (rs_Bytes rs)) \<le> c_maxBodyBytes c \<and> decode (rs_Bytes rs) = Some v)"

definition ready :: "Client \<Rightarrow> bool" where
  "ready c \<longleftrightarrow> 1 \<le> MaxAttempts (c_retry c) \<and> 0 \<le> c_maxBodyBytes c \<and> c_maxBodyBytes c < max_int64"

lemma attempt_served:
  assumes "serves cd net decode c rq v" "ready c"
  shows "attempt_once (world_of cd net decode) c rq True 1 = Ok (Some v)"
proof -
  obtain enc rs where e: "case rq_Body rq of None \<Rightarrow> enc = None
                | Some body \<Rightarrow> enc \<noteq> None \<and> encodeBody (cd_marshal cd) body = enc"
    and s: "nw_validRequest net (build_request c rq enc)" "nw_send net 1 (build_request c rq enc) = Ok rs"
      "rs_Status rs = 200" "rs_ReadError rs = None"
      "int (length (rs_Bytes rs)) \<le> c_maxBodyBytes c" "decode (rs_Bytes rs) = Some v"
    using assms(1) unfolding serves_def by blast
  have "wrap64 (c_maxBodyBytes c + 1) = c_maxBodyBytes c + 1"
    using assms(2) by (intro wrap64_fits) (auto simp: ready_def min_int64_def)
  then have "read_limited (c_maxBodyBytes c) rs = Ok (rs_Bytes rs)"
    using s by (auto simp: read_limited_def Let_def)
  then have "receive (world_of cd net decode) c True rs = Ok (Some v)"
    using s by (simp add: receive_def world_of_def)
  then show ?thesis
    using e s by (cases "rq_Body rq") (auto simp: attempt_once_def Let_def world_of_def)
qed

lemma do_into_served:
  assumes "serves cd net decode c rq v" "ready c" "fst (Allow (nw_start net) (c_breaker c))"
  shows "fst (do_into cd net decode zero c rq) = Ok v"
proof -
  let ?w = "world_of cd net decode"
  obtain t b1 where al: "Allow (nw_start net) (c_breaker c) = (True, t, b1)"
    using assms(3) by (metis prod.collapse)
  have "do_loop ?w c rq True n 1 None = (Ok (Some v), VSucceed, Attempted 1 # record_attempt c None False)"
    if "1 \<le> n" for n
    using that attempt_served [OF assms(1,2)] by (subst do_loop.simps) simp
  moreover have "1 \<le> MaxAttempts (c_retry c)" using assms(2) by (simp add: ready_def)
  ultimately show ?thesis by (simp add: do_into_def Do_def al)
qed

subsection \<open>Walking an upstream collection\<close>

text \<open>
  The contract of an upstream list: every page is a window of the collection that starts at the offset asked
  for, is not empty before the end, and comes with the size of the whole; how many of the
  records asked for it holds is the upstream's choice.
\<close>

locale windowed =
  fixes page :: "nat \<Rightarrow> Page \<Rightarrow> ('a list \<times> PageInfo) option"
    and rows :: "'a list" and dflt :: int and mx :: int and l :: int and ok :: bool
  assumes size: "ok \<Longrightarrow> int (length rows) \<le> max_int64"
    and window: "\<lbrakk>ok; pg_Limit p = l; Page_Resolve p dflt mx = Some (off, lim); nat off < length rows \<or> off = 0\<rbrakk> \<Longrightarrow>
      \<exists>n. page k p = Some (take n (drop (nat off) rows),
             NewPageInfo (int (length rows)) off (int (length (take n (drop (nat off) rows))))) \<and>
          (nat off < length rows \<longrightarrow> 0 < n)"
begin

definition ask :: "nat \<Rightarrow> string \<Rightarrow> ('a list \<times> string) option" where
  "ask k cursor =
     map_option (\<lambda>(items, info). (items, pi_NextCursor info)) (page k \<lparr> pg_Limit = l, pg_Cursor = cursor \<rparr>)"

lemma walk_from:
  assumes ok "i < length rows \<or> i = 0" "length rows - i < fuel" "DecodeCursor cursor = Some (int i)"
  shows "follow ask fuel k cursor = Some (drop i rows)"
  using assms(2-4)
proof (induction fuel arbitrary: i k cursor)
  case 0
  then show ?case by simp
next
  case (Suc fuel)
  let ?p = "\<lparr> pg_Limit = l, pg_Cursor = cursor \<rparr>"
  have res: "Page_Resolve ?p dflt mx = Some (int i, page_ClampLimit l dflt mx)"
    using Suc.prems by (simp add: Page_Resolve_def)
  from window [OF \<open>ok\<close> _ res, of k] Suc.prems(1) obtain n where
    n: "page k ?p = Some (take n (drop i rows),
          NewPageInfo (int (length rows)) (int i) (int (length (take n (drop i rows)))))"
    and pos: "i < length rows \<longrightarrow> 0 < n" by auto
  let ?items = "take n (drop i rows)"
  let ?j = "i + length ?items"
  have j: "?j \<le> length rows" using Suc.prems(1) by auto
  have w: "wrap64 (int i + int (length ?items)) = int ?j"
    using j size [OF \<open>ok\<close>] by (subst wrap64_fits) (auto simp: min_int64_def)
  have rest: "drop i rows = ?items @ drop ?j rows"
    by (metis add.commute append_take_drop_id drop_drop length_take min_def nat_le_linear drop_all take_all length_drop)
  show ?case
  proof (cases "?items \<noteq> [] \<and> ?j < length rows")
    case True
    then have c: "pi_NextCursor (NewPageInfo (int (length rows)) (int i) (int (length ?items))) = EncodeCursor (int ?j)"
      unfolding NewPageInfo_def w by simp
    have "0 < ?j" using True by (cases ?items) simp_all
    then have ne: "EncodeCursor (int ?j) \<noteq> []" by (simp only: EncodeCursor_Nil)
    have "int ?j \<le> max_int64" using j size [OF \<open>ok\<close>] by linarith
    then have d: "DecodeCursor (EncodeCursor (int ?j)) = Some (int ?j)" by (intro DecodeCursor_Encode) simp_all
    have "0 < length ?items" using True by blast
    then have "length rows - ?j < fuel" using Suc.prems(2) True by linarith
    from Suc.IH [OF _ this d, of "Suc k"] True show ?thesis
      using rest ne c n by (simp add: ask_def)
  next
    case False
    then have "drop ?j rows = []" using pos by (cases "i < length rows") auto
    moreover have "pi_NextCursor (NewPageInfo (int (length rows)) (int i) (int (length ?items))) = []"
      using False unfolding NewPageInfo_def w by auto
    ultimately show ?thesis using rest n by (simp add: ask_def)
  qed
qed

lemma walk_all: "ok \<Longrightarrow> length rows < fuel \<Longrightarrow> follow ask fuel 0 [] = Some rows"
  using walk_from [of 0 fuel "[]" 0] by simp

end

text \<open>
  What an upstream promises one client over a walk with pages of one size: at every call the circuit
  admits it, and every window inside the collection is served.
\<close>

definition serves_windows ::
  "Codec \<Rightarrow> (nat \<Rightarrow> Net) \<Rightarrow> (string \<Rightarrow> (int \<times> 'a list) option) \<Rightarrow> (int \<Rightarrow> int \<Rightarrow> payload Request)
   \<Rightarrow> (nat \<Rightarrow> Client) \<Rightarrow> 'a list \<Rightarrow> int \<Rightarrow> bool" where
  "serves_windows cd nets decode request cs rows lim \<longleftrightarrow>
     int (length rows) \<le> max_int64 \<and>
     (\<forall>k. ready (cs k) \<and> fst (Allow (nw_start (nets k)) (c_breaker (cs k))) \<and>
       (\<forall>off \<ge> 0. nat off < length rows \<or> off = 0 \<longrightarrow> (\<exists>n. (nat off < length rows \<longrightarrow> 0 < n) \<and>
          serves cd (nets k) decode (cs k) (request off lim) (int (length rows), take n (drop (nat off) rows)))))"

definition listed :: "(AdapterError + 'a) \<times> 'c \<Rightarrow> 'a option" where
  "listed r = (case fst r of Inr x \<Rightarrow> Some x | Inl _ \<Rightarrow> None)"

lemma list_page_served:
  assumes "serves_windows cd nets decode request cs rows (page_ClampLimit l d m)"
    and "pg_Limit p = l" "Page_Resolve p d m = Some (off, lim)" "nat off < length rows \<or> off = 0"
  shows "\<exists>n. fst (list_page cd (nets k) decode d m request p (cs k)) =
      Ok (take n (drop (nat off) rows),
          NewPageInfo (int (length rows)) off (int (length (take n (drop (nat off) rows))))) \<and>
      (nat off < length rows \<longrightarrow> 0 < n)"
proof -
  have lim: "lim = page_ClampLimit l d m" using assms(2,3) by (auto simp: Page_Resolve_def split: option.splits)
  have "0 \<le> off" using assms(3) DecodeCursor_bounds by (auto simp: Page_Resolve_def split: option.splits)
  then obtain n where n: "nat off < length rows \<longrightarrow> 0 < n"
    "serves cd (nets k) decode (cs k) (request off lim) (int (length rows), take n (drop (nat off) rows))"
    using assms(1,4) unfolding serves_windows_def lim by blast
  have "fst (do_into cd (nets k) decode (0, []) (cs k) (request off lim)) =
      Ok (int (length rows), take n (drop (nat off) rows))"
    using do_into_served [OF n(2)] assms(1) by (auto simp: serves_windows_def)
  then show ?thesis using assms(3) n(1)
    by (cases "do_into cd (nets k) decode (0, []) (cs k) (request off lim)")
      (auto simp: list_page_def)
qed

interpretation upstream_pages: windowed
  "\<lambda>k p. listed (list_page cd (nets k) decode dflt mx request p (cs k))" rows dflt mx l
  "serves_windows cd nets decode request cs rows (page_ClampLimit l dflt mx)"
proof (unfold_locales, goal_cases)
  case 1
  then show ?case by (simp add: serves_windows_def)
next
  case (2 p off lim k)
  then show ?case using list_page_served [OF 2, of k] by (auto simp: listed_def)
qed

end
