(* ===== verification/Business.thy ===== *)
theory Business
  imports Adapters Platform
begin

section \<open>Clients, contacts, projects, tasks and documents (cmd/server/business.go)\<close>

text \<open>
  The normalized API over the three upstreams: the list handlers, which map a whole page of records to
  Global IDs, and the detail handlers behind the scope check.  The state of a list handler is the registry,
  whose circuit breakers move, and the database; a detail handler writes nothing but the
  breaker.  rx gives each first sighting of a source record its request context.  The field source of an error body is not
  kept in an answer.
\<close>

subsection \<open>Views\<close>

record clientView =
  cv_ID :: string
  cv_Source :: string
  cv_SourceID :: string
  cv_Name :: string
  cv_Website :: string
  cv_Email :: string
  cv_Phone :: string

record contactView =
  tv_ID :: string
  tv_Source :: string
  tv_SourceID :: string
  tv_Name :: string
  tv_ClientID :: string
  tv_Email :: string
  tv_Phone :: string

record projectView =
  pv_ID :: string
  pv_Source :: string
  pv_SourceID :: string
  pv_Name :: string
  pv_Identifier :: string
  pv_Description :: string

record issueView =
  iv_ID :: string
  iv_Source :: string
  iv_SourceID :: string
  iv_Subject :: string
  iv_ProjectID :: string
  iv_Status :: string

record documentView =
  dv_ID :: string
  dv_Source :: string
  dv_SourceID :: string
  dv_Title :: string
  dv_URL :: string
  dv_CollectionID :: string
  dv_UpdatedAt :: string

subsection \<open>What the handlers share\<close>

definition requestPage :: "string \<Rightarrow> string \<Rightarrow> 'b Reply + Page" where
  "requestPage limit0 cursor0 =
     (let limit = (case ParseInt (TrimSpace limit0) of None \<Rightarrow> 0 | Some n \<Rightarrow> n);
          cursor = TrimSpace cursor0
      in case DecodeCursor cursor of
           None \<Rightarrow> Inl (reply_error 400 ''invalid pagination cursor'' ''invalid_cursor'')
         | Some _ \<Rightarrow> Inr \<lparr> pg_Limit = limit, pg_Cursor = cursor \<rparr>)"

definition upstreamFailure :: "'b Reply" where
  "upstreamFailure = reply_error 502 ''upstream service unavailable'' ''upstream_unavailable''"

definition upstreamRead :: "AdapterError \<Rightarrow> 'b Reply" where
  "upstreamRead e = (if is_not_found e then notFound else upstreamFailure)"

text \<open>The interfaces the handlers assert: the readers of EspoCRM, of Redmine and of Outline.\<close>

fun crmReader :: "Adapter \<Rightarrow> (Client \<times> headers) option" where
  "crmReader (EspoCRM c h) = Some (c, h)"
| "crmReader _ = None"

fun projectReader :: "Adapter \<Rightarrow> (Client \<times> headers) option" where
  "projectReader (Redmine c h) = Some (c, h)"
| "projectReader _ = None"

fun documentReader :: "Adapter \<Rightarrow> (Client \<times> headers) option" where
  "documentReader (Outline c h) = Some (c, h)"
| "documentReader _ = None"

definition adapterFor ::
  "(Adapter \<Rightarrow> (Client \<times> headers) option) \<Rightarrow> string \<Rightarrow> string \<Rightarrow> registry \<Rightarrow> 'b Reply + Client \<times> headers" where
  "adapterFor capability i name r =
     (case registry_Get i r of
        None \<Rightarrow> Inl (reply_error 503 (name @ '' adapter not configured'') ''adapter_not_configured'')
      | Some adapter \<Rightarrow>
          if in_Status (adapter_Info adapter) = StatusDisabled
          then Inl (reply_error 503 (name @ '' adapter not configured'') ''adapter_not_configured'')
          else case capability adapter of
            None \<Rightarrow> Inl (reply_error 503 (name @ '' adapter does not support this capability'') ''capability_unsupported'')
          | Some reader \<Rightarrow> Inr reader)"

definition mapGlobalIDs ::
  "down \<Rightarrow> (string \<Rightarrow> RequestContext) \<Rightarrow> string \<Rightarrow> string \<Rightarrow> GlobalIDRequest list \<Rightarrow> DB
   \<Rightarrow> ('b Reply + (string \<rightharpoonup> string)) \<times> DB" where
  "mapGlobalIDs down rx entityType source requests db =
     (case MapGlobalIDs down rx entityType source requests db of
        (Inl _, db') \<Rightarrow> (Inl (reply_error 503 ''Global ID mapping failed'' []), db')
      | (Inr mapped, db') \<Rightarrow> (Inr mapped, db'))"

text \<open>Reading a Go map of strings: the zero value for an absent key.\<close>

definition at_key :: "(string \<rightharpoonup> string) \<Rightarrow> string \<Rightarrow> string" where
  "at_key m k = (case m k of None \<Rightarrow> [] | Some v \<Rightarrow> v)"

type_synonym desk = "registry \<times> DB"

text \<open>The opening of every list handler: the reader, the page, the call.\<close>

definition fetch_page ::
  "(Adapter \<Rightarrow> (Client \<times> headers) option) \<Rightarrow> string \<Rightarrow> string \<Rightarrow> string \<Rightarrow> string
   \<Rightarrow> (Page \<Rightarrow> Client \<Rightarrow> headers \<Rightarrow> (AdapterError + 'a list \<times> PageInfo) \<times> Adapter)
   \<Rightarrow> registry \<Rightarrow> ('b Reply + 'a list \<times> PageInfo) \<times> registry" where
  "fetch_page capability i name limit cursor list r =
     (case adapterFor capability i name r of
        Inl rp \<Rightarrow> (Inl rp, r)
      | Inr (c, h) \<Rightarrow>
          (case requestPage limit cursor of
             Inl rp \<Rightarrow> (Inl rp, r)
           | Inr page \<Rightarrow>
               (case list page c h of
                  (Inl _, a) \<Rightarrow> (Inl upstreamFailure, AList.update i a r)
                | (Inr x, a) \<Rightarrow> (Inr x, AList.update i a r))))"

subsection \<open>List handlers\<close>

definition client_request :: "Account \<Rightarrow> GlobalIDRequest" where
  "client_request a = \<lparr> gr_SourceID = ac_ID a, gr_TenantID = [], gr_Metadata = [(''name'', ac_Name a)] \<rparr>"

definition client_view :: "string \<Rightarrow> string \<Rightarrow> string \<Rightarrow> Account \<Rightarrow> clientView" where
  "client_view g source sourceID a =
     \<lparr> cv_ID = g, cv_Source = source, cv_SourceID = sourceID, cv_Name = ac_Name a, cv_Website = ac_Website a,
       cv_Email = ac_Email a, cv_Phone = ac_Phone a \<rparr>"

definition listClients ::
  "down \<Rightarrow> (string \<Rightarrow> RequestContext) \<Rightarrow> Codec \<Rightarrow> Net \<Rightarrow> string \<Rightarrow> string \<Rightarrow> desk
   \<Rightarrow> clientView collection Reply \<times> desk" where
  "listClients down rx cd net limit cursor st =
     (case st of (r, db) \<Rightarrow>
      case fetch_page crmReader ''espocrm'' ''EspoCRM'' limit cursor (ListAccounts cd net) r of
        (Inl rp, r') \<Rightarrow> (rp, (r', db))
      | (Inr (accounts, info), r') \<Rightarrow>
          (case mapGlobalIDs down rx ''client'' ''espocrm'' (map client_request accounts) db of
             (Inl rp, db') \<Rightarrow> (rp, (r', db'))
           | (Inr ids, db') \<Rightarrow>
               (writeCollection (map (\<lambda>a. client_view (at_key ids (ac_ID a)) ''espocrm'' (ac_ID a) a) accounts)
                  (pi_Total info) (pi_NextCursor info), (r', db'))))"

definition contact_request :: "Contact \<Rightarrow> GlobalIDRequest" where
  "contact_request c = \<lparr> gr_SourceID = cn_ID c, gr_TenantID = [], gr_Metadata = [(''name'', cn_Name c)] \<rparr>"

definition owner_request :: "Contact \<Rightarrow> GlobalIDRequest" where
  "owner_request c = \<lparr> gr_SourceID = cn_AccountID c, gr_TenantID = [], gr_Metadata = [] \<rparr>"

definition contact_view :: "string \<Rightarrow> string \<Rightarrow> string \<Rightarrow> string \<Rightarrow> Contact \<Rightarrow> contactView" where
  "contact_view g source sourceID client c =
     \<lparr> tv_ID = g, tv_Source = source, tv_SourceID = sourceID, tv_Name = cn_Name c, tv_ClientID = client,
       tv_Email = cn_Email c, tv_Phone = cn_Phone c \<rparr>"

definition listContacts ::
  "down \<Rightarrow> (string \<Rightarrow> RequestContext) \<Rightarrow> Codec \<Rightarrow> Net \<Rightarrow> string \<Rightarrow> string \<Rightarrow> desk
   \<Rightarrow> contactView collection Reply \<times> desk" where
  "listContacts down rx cd net limit cursor st =
     (case st of (r, db) \<Rightarrow>
      case fetch_page crmReader ''espocrm'' ''EspoCRM'' limit cursor (ListContacts cd net) r of
        (Inl rp, r') \<Rightarrow> (rp, (r', db))
      | (Inr (contacts, info), r') \<Rightarrow>
          (case mapGlobalIDs down rx ''contact'' ''espocrm'' (map contact_request contacts) db of
             (Inl rp, db1) \<Rightarrow> (rp, (r', db1))
           | (Inr ids, db1) \<Rightarrow>
               (case mapGlobalIDs down rx ''client'' ''espocrm''
                       (map owner_request (filter (\<lambda>c. cn_AccountID c \<noteq> []) contacts)) db1 of
                  (Inl rp, db2) \<Rightarrow> (rp, (r', db2))
                | (Inr owners, db2) \<Rightarrow>
                    (writeCollection
                       (map (\<lambda>c. contact_view (at_key ids (cn_ID c)) ''espocrm'' (cn_ID c)
                                    (at_key owners (cn_AccountID c)) c) contacts)
                       (pi_Total info) (pi_NextCursor info), (r', db2)))))"

definition project_request :: "Project \<Rightarrow> GlobalIDRequest" where
  "project_request p = \<lparr> gr_SourceID = Itoa (pj_ID p), gr_TenantID = [],
     gr_Metadata = [(''identifier'', pj_Identifier p), (''name'', pj_Name p)] \<rparr>"

definition project_view :: "string \<Rightarrow> string \<Rightarrow> string \<Rightarrow> Project \<Rightarrow> projectView" where
  "project_view g source sourceID p =
     \<lparr> pv_ID = g, pv_Source = source, pv_SourceID = sourceID, pv_Name = pj_Name p,
       pv_Identifier = pj_Identifier p, pv_Description = pj_Description p \<rparr>"

definition listProjects ::
  "down \<Rightarrow> (string \<Rightarrow> RequestContext) \<Rightarrow> Codec \<Rightarrow> Net \<Rightarrow> string \<Rightarrow> string \<Rightarrow> desk
   \<Rightarrow> projectView collection Reply \<times> desk" where
  "listProjects down rx cd net limit cursor st =
     (case st of (r, db) \<Rightarrow>
      case fetch_page projectReader ''redmine'' ''Redmine'' limit cursor (ListProjects cd net) r of
        (Inl rp, r') \<Rightarrow> (rp, (r', db))
      | (Inr (projects, info), r') \<Rightarrow>
          (case mapGlobalIDs down rx ''project'' ''redmine'' (map project_request projects) db of
             (Inl rp, db') \<Rightarrow> (rp, (r', db'))
           | (Inr ids, db') \<Rightarrow>
               (writeCollection
                  (map (\<lambda>p. project_view (at_key ids (Itoa (pj_ID p))) ''redmine'' (Itoa (pj_ID p)) p) projects)
                  (pi_Total info) (pi_NextCursor info), (r', db'))))"

definition task_request :: "Issue \<Rightarrow> GlobalIDRequest" where
  "task_request i = \<lparr> gr_SourceID = Itoa (is_ID i), gr_TenantID = [], gr_Metadata = [(''subject'', is_Subject i)] \<rparr>"

definition issue_project_request :: "Issue \<Rightarrow> GlobalIDRequest" where
  "issue_project_request i = \<lparr> gr_SourceID = Itoa (is_ProjectID i), gr_TenantID = [],
     gr_Metadata = [(''name'', is_ProjectName i)] \<rparr>"

definition issue_view :: "string \<Rightarrow> string \<Rightarrow> string \<Rightarrow> string \<Rightarrow> Issue \<Rightarrow> issueView" where
  "issue_view g source sourceID projectID i =
     \<lparr> iv_ID = g, iv_Source = source, iv_SourceID = sourceID, iv_Subject = is_Subject i,
       iv_ProjectID = projectID, iv_Status = is_StatusName i \<rparr>"

definition listIssues ::
  "down \<Rightarrow> (string \<Rightarrow> RequestContext) \<Rightarrow> Codec \<Rightarrow> Net \<Rightarrow> string \<Rightarrow> string \<Rightarrow> string \<Rightarrow> desk
   \<Rightarrow> issueView collection Reply \<times> desk" where
  "listIssues down rx cd net limit cursor project st =
     (case st of (r, db) \<Rightarrow>
      case fetch_page projectReader ''redmine'' ''Redmine'' limit cursor (ListIssues cd net (TrimSpace project)) r of
        (Inl rp, r') \<Rightarrow> (rp, (r', db))
      | (Inr (issues, info), r') \<Rightarrow>
          (case mapGlobalIDs down rx ''task'' ''redmine'' (map task_request issues) db of
             (Inl rp, db1) \<Rightarrow> (rp, (r', db1))
           | (Inr ids, db1) \<Rightarrow>
               (case mapGlobalIDs down rx ''project'' ''redmine''
                       (map issue_project_request (filter (\<lambda>i. 0 < is_ProjectID i) issues)) db1 of
                  (Inl rp, db2) \<Rightarrow> (rp, (r', db2))
                | (Inr projects, db2) \<Rightarrow>
                    (writeCollection
                       (map (\<lambda>i. issue_view (at_key ids (Itoa (is_ID i))) ''redmine'' (Itoa (is_ID i))
                          (if 0 < is_ProjectID i then at_key projects (Itoa (is_ProjectID i)) else []) i) issues)
                       (pi_Total info) (pi_NextCursor info), (r', db2)))))"

definition document_request :: "Document \<Rightarrow> GlobalIDRequest" where
  "document_request d = \<lparr> gr_SourceID = dm_ID d, gr_TenantID = [],
     gr_Metadata = [(''title'', dm_Title d), (''collection_id'', dm_CollectionID d)] \<rparr>"

definition document_view :: "string \<Rightarrow> string \<Rightarrow> string \<Rightarrow> Document \<Rightarrow> documentView" where
  "document_view g source sourceID d =
     \<lparr> dv_ID = g, dv_Source = source, dv_SourceID = sourceID, dv_Title = dm_Title d, dv_URL = dm_URL d,
       dv_CollectionID = dm_CollectionID d, dv_UpdatedAt = dm_UpdatedAt d \<rparr>"

definition listDocuments ::
  "down \<Rightarrow> (string \<Rightarrow> RequestContext) \<Rightarrow> Codec \<Rightarrow> Net \<Rightarrow> string \<Rightarrow> string \<Rightarrow> desk
   \<Rightarrow> documentView collection Reply \<times> desk" where
  "listDocuments down rx cd net limit cursor st =
     (case st of (r, db) \<Rightarrow>
      case fetch_page documentReader ''outline'' ''Outline'' limit cursor (ListDocuments cd net) r of
        (Inl rp, r') \<Rightarrow> (rp, (r', db))
      | (Inr (documents, info), r') \<Rightarrow>
          (case mapGlobalIDs down rx ''document'' ''outline'' (map document_request documents) db of
             (Inl rp, db') \<Rightarrow> (rp, (r', db'))
           | (Inr ids, db') \<Rightarrow>
               (writeCollection
                  (map (\<lambda>d. document_view (at_key ids (dm_ID d)) ''outline'' (dm_ID d) d) documents)
                  (pi_Total info) (pi_NextCursor info), (r', db'))))"

subsection \<open>Detail handlers\<close>

definition resolveScopedEntity ::
  "down \<Rightarrow> Principal \<Rightarrow> string \<Rightarrow> string \<Rightarrow> string \<Rightarrow> string \<Rightarrow> DB \<Rightarrow> 'b Reply + GlobalEntity" where
  "resolveScopedEntity down p entityType permission scopeType pathID db =
     (case may_look down db p permission of
        Some rp \<Rightarrow> Inl rp
      | None \<Rightarrow>
          (case ResolveGlobalEntity down (TrimSpace pathID) db of
             Inl _ \<Rightarrow> Inl notFound
           | Inr entity \<Rightarrow>
               if ge_EntityType entity \<noteq> entityType then Inl notFound
               else case may_reach down db p permission (scopeType, ge_GlobalID entity) of
                 Some rp \<Rightarrow> Inl rp
               | None \<Rightarrow> Inr entity))"

text \<open>The middle of every detail handler: the reader and the upstream's record.\<close>

definition fetch_record ::
  "(Adapter \<Rightarrow> (Client \<times> headers) option) \<Rightarrow> string \<Rightarrow> string
   \<Rightarrow> (Client \<Rightarrow> headers \<Rightarrow> (AdapterError + 'a) \<times> Adapter) \<Rightarrow> registry \<Rightarrow> ('b Reply + 'a) \<times> registry" where
  "fetch_record capability i name get r =
     (case adapterFor capability i name r of
        Inl rp \<Rightarrow> (Inl rp, r)
      | Inr (c, h) \<Rightarrow>
          (case get c h of
             (Inl e, a) \<Rightarrow> (Inl (upstreamRead e), AList.update i a r)
           | (Inr x, a) \<Rightarrow> (Inr x, AList.update i a r)))"

definition getClient ::
  "down \<Rightarrow> Principal \<Rightarrow> Codec \<Rightarrow> Net \<Rightarrow> string \<Rightarrow> desk \<Rightarrow> clientView Reply \<times> desk" where
  "getClient down p cd net pathID st =
     (case st of (r, db) \<Rightarrow>
      case resolveScopedEntity down p ''client'' ''crm.client.read'' ScopeClient pathID db of
        Inl rp \<Rightarrow> (rp, st)
      | Inr entity \<Rightarrow>
          (case fetch_record crmReader ''espocrm'' ''EspoCRM'' (GetAccount cd net (ge_SourceID entity)) r of
             (Inl rp, r') \<Rightarrow> (rp, (r', db))
           | (Inr account, r') \<Rightarrow>
               (reply 200 (client_view (ge_GlobalID entity) (ge_Source entity) (ge_SourceID entity) account),
                (r', db))))"

definition getContact ::
  "down \<Rightarrow> Principal \<Rightarrow> Codec \<Rightarrow> Net \<Rightarrow> string \<Rightarrow> desk \<Rightarrow> contactView Reply \<times> desk" where
  "getContact down p cd net pathID st =
     (case st of (r, db) \<Rightarrow>
      case resolveScopedEntity down p ''contact'' ''crm.client.read'' ScopeResource pathID db of
        Inl rp \<Rightarrow> (rp, st)
      | Inr entity \<Rightarrow>
          (case fetch_record crmReader ''espocrm'' ''EspoCRM'' (GetContact cd net (ge_SourceID entity)) r of
             (Inl rp, r') \<Rightarrow> (rp, (r', db))
           | (Inr contact, r') \<Rightarrow>
               (let clientID =
                      (if cn_AccountID contact \<noteq> []
                       then (case LookupGlobalEntity down ''client'' ''espocrm'' (cn_AccountID contact) db of
                               Inr mapped \<Rightarrow> ge_GlobalID mapped | Inl _ \<Rightarrow> [])
                       else [])
                in (reply 200 (contact_view (ge_GlobalID entity) (ge_Source entity) (ge_SourceID entity)
                      clientID contact), (r', db)))))"

definition getProject ::
  "down \<Rightarrow> Principal \<Rightarrow> Codec \<Rightarrow> Net \<Rightarrow> string \<Rightarrow> desk \<Rightarrow> projectView Reply \<times> desk" where
  "getProject down p cd net pathID st =
     (case st of (r, db) \<Rightarrow>
      case resolveScopedEntity down p ''project'' ''projects.task.read'' ScopeProject pathID db of
        Inl rp \<Rightarrow> (rp, st)
      | Inr entity \<Rightarrow>
          (case fetch_record projectReader ''redmine'' ''Redmine'' (GetProject cd net (ge_SourceID entity)) r of
             (Inl rp, r') \<Rightarrow> (rp, (r', db))
           | (Inr project, r') \<Rightarrow>
               (reply 200 (project_view (ge_GlobalID entity) (ge_Source entity) (ge_SourceID entity) project),
                (r', db))))"

definition getIssue ::
  "down \<Rightarrow> Principal \<Rightarrow> Codec \<Rightarrow> Net \<Rightarrow> string \<Rightarrow> desk \<Rightarrow> issueView Reply \<times> desk" where
  "getIssue down p cd net pathID st =
     (case st of (r, db) \<Rightarrow>
      case resolveScopedEntity down p ''task'' ''projects.task.read'' ScopeResource pathID db of
        Inl rp \<Rightarrow> (rp, st)
      | Inr entity \<Rightarrow>
          (case fetch_record projectReader ''redmine'' ''Redmine'' (GetIssue cd net (ge_SourceID entity)) r of
             (Inl rp, r') \<Rightarrow> (rp, (r', db))
           | (Inr issue, r') \<Rightarrow>
               (let projectID =
                      (if 0 < is_ProjectID issue
                       then (case LookupGlobalEntity down ''project'' ''redmine'' (Itoa (is_ProjectID issue)) db of
                               Inr mapped \<Rightarrow> ge_GlobalID mapped | Inl _ \<Rightarrow> [])
                       else [])
                in (reply 200 (issue_view (ge_GlobalID entity) (ge_Source entity) (ge_SourceID entity)
                      projectID issue), (r', db)))))"

definition getDocument ::
  "down \<Rightarrow> Principal \<Rightarrow> Codec \<Rightarrow> Net \<Rightarrow> string \<Rightarrow> desk \<Rightarrow> documentView Reply \<times> desk" where
  "getDocument down p cd net pathID st =
     (case st of (r, db) \<Rightarrow>
      case resolveScopedEntity down p ''document'' ''wiki.document.read'' ScopeResource pathID db of
        Inl rp \<Rightarrow> (rp, st)
      | Inr entity \<Rightarrow>
          (case fetch_record documentReader ''outline'' ''Outline'' (GetDocument cd net (ge_SourceID entity)) r of
             (Inl rp, r') \<Rightarrow> (rp, (r', db))
           | (Inr document, r') \<Rightarrow>
               (reply 200 (document_view (ge_GlobalID entity) (ge_Source entity) (ge_SourceID entity) document),
                (r', db))))"

subsection \<open>A listed page is mapped\<close>

lemma mapGlobalIDs_ok:
  "mapGlobalIDs down rx t s requests db = (Inr m, db') \<longleftrightarrow> MapGlobalIDs down rx t s requests db = (Ok m, db')"
  by (auto simp: mapGlobalIDs_def split: prod.splits sum.splits)

text \<open>What a key reads as in the answer of a batch: the identifier stored for it, empty for the empty key.\<close>

lemma at_key_stored:
  assumes "MapGlobalIDs down rx t s requests db = (Ok m, db')" "gid_inv db"
    and "sid \<in> gr_SourceID ` set requests \<or> sid = []"
  shows "sid = [] \<and> at_key m sid = [] \<or>
    sid \<noteq> [] \<and> (\<exists>e. by_source t s sid db' = Some e \<and> ge_GlobalID e = at_key m sid)"
proof (cases "sid = []")
  case True
  then show ?thesis using MapGlobalIDs_dom [OF assms(1)] by (simp add: at_key_def)
next
  case False
  then have "\<exists>e. by_source t s sid db' = Some e \<and> m sid = Some (ge_GlobalID e)"
    using MapGlobalIDs_complete [OF assms(1,2)] assms(3) by blast
  then show ?thesis using False by (auto simp: at_key_def)
qed

definition stored_as :: "string \<Rightarrow> string \<Rightarrow> string \<Rightarrow> DB \<Rightarrow> string \<Rightarrow> bool" where
  "stored_as t s sid db g \<longleftrightarrow>
     (if sid = [] then g = [] else \<exists>e. by_source t s sid db = Some e \<and> ge_GlobalID e = g)"

lemma at_key_stored_as:
  assumes "MapGlobalIDs down rx t s requests db = (Ok m, db')" "gid_inv db"
    and "sid \<in> gr_SourceID ` set requests \<or> sid = []"
  shows "stored_as t s sid db' (at_key m sid)"
  using at_key_stored [OF assms] by (auto simp: stored_as_def)

lemma stored_as_kept:
  assumes "stored_as t s sid db g" "MapGlobalIDs down rx t' s' requests db = (r, db')" "gid_inv db"
  shows "stored_as t s sid db' g"
  using assms(1) MapGlobalIDs_keeps [OF assms(2,3)] by (auto simp: stored_as_def split: if_splits)

lemma stored_as_unique: "stored_as t s sid db g \<Longrightarrow> stored_as t s sid db h \<Longrightarrow> g = h"
  by (auto simp: stored_as_def split: if_splits)

lemma writeCollection_simps [simp]:
  "rp_Status (writeCollection xs n c) = 200"
  "rp_Body (writeCollection xs n c) = Some \<lparr> co_Data = xs, co_Total = n, co_Limit = int (length xs), co_NextCursor = c \<rparr>"
  by (simp_all add: writeCollection_def)

lemma fetch_page_Inl: "fetch_page cap i name limit cursor list r = (Inl rp, r') \<Longrightarrow> rp_Body rp = None"
  by (auto simp: fetch_page_def adapterFor_def requestPage_def upstreamFailure_def Let_def
      split: sum.splits prod.splits option.splits if_splits)

lemma mapGlobalIDs_Inl: "mapGlobalIDs down rx t s requests db = (Inl rp, db') \<Longrightarrow> rp_Body rp = None"
  by (auto simp: mapGlobalIDs_def split: prod.splits sum.splits)

text \<open>
  A page of contacts is answered with their platform identity and only with it: when the listing
  answers, there is one item per upstream contact, in the upstream's order; the identifier of each
  is the one the platform holds for that contact afterwards, and its client the one held for
  the account that owns it, or none when it has no owner.  Identifiers stay unique, and what
  was mapped before keeps its identifier.
\<close>

theorem contacts_listed_with_identity:
  assumes "listContacts down rx cd net limit cursor (r, db) = (rp, (r', db'))" "gid_inv db"
    and "rp_Body rp = Some page"
  shows "rp_Status rp = 200 \<and> gid_inv db' \<and> co_Limit page = int (length (co_Data page)) \<and>
    (\<exists>contacts info r1. fetch_page crmReader ''espocrm'' ''EspoCRM'' limit cursor (ListContacts cd net) r =
        ((Inr (contacts, info) :: contactView collection Reply + Contact list \<times> PageInfo), r1) \<and>
      map tv_SourceID (co_Data page) = map cn_ID contacts \<and>
      list_all2 (\<lambda>c v. stored_as ''contact'' ''espocrm'' (cn_ID c) db' (tv_ID v) \<and>
         stored_as ''client'' ''espocrm'' (cn_AccountID c) db' (tv_ClientID v)) contacts (co_Data page)) \<and>
    (\<forall>t s sid. \<exists>x. by_source t s sid db = None \<or> by_source t s sid db = Some x \<and> by_source t s sid db' = Some x)"
proof -
  obtain contacts info ids db1 owners where
    f: "fetch_page crmReader ''espocrm'' ''EspoCRM'' limit cursor (ListContacts cd net) r =
        ((Inr (contacts, info) :: contactView collection Reply + Contact list \<times> PageInfo), r')"
    and m1: "MapGlobalIDs down rx ''contact'' ''espocrm'' (map contact_request contacts) db = (Ok ids, db1)"
    and m2: "MapGlobalIDs down rx ''client'' ''espocrm''
       (map owner_request (filter (\<lambda>c. cn_AccountID c \<noteq> []) contacts)) db1 = (Ok owners, db')"
    and rp: "rp = writeCollection
       (map (\<lambda>c. contact_view (at_key ids (cn_ID c)) ''espocrm'' (cn_ID c) (at_key owners (cn_AccountID c)) c) contacts)
       (pi_Total info) (pi_NextCursor info)"
    using assms(1,3)
    by (auto simp: listContacts_def mapGlobalIDs_ok dest: fetch_page_Inl mapGlobalIDs_Inl
        split: prod.splits sum.splits)
  have k1: "gid_inv db1" using MapGlobalIDs_keeps [OF m1 assms(2)] by blast
  have one: "stored_as ''contact'' ''espocrm'' (cn_ID c) db' (at_key ids (cn_ID c)) \<and>
      stored_as ''client'' ''espocrm'' (cn_AccountID c) db' (at_key owners (cn_AccountID c))"
    if "c \<in> set contacts" for c
  proof -
    have "cn_ID c \<in> gr_SourceID ` set (map contact_request contacts)"
      using that by (force simp: contact_request_def)
    then have "stored_as ''contact'' ''espocrm'' (cn_ID c) db1 (at_key ids (cn_ID c))"
      using at_key_stored_as [OF m1 assms(2)] by blast
    moreover have "cn_AccountID c \<in> gr_SourceID ` set (map owner_request (filter (\<lambda>c. cn_AccountID c \<noteq> []) contacts))
        \<or> cn_AccountID c = []"
      using that by (force simp: owner_request_def)
    then have "stored_as ''client'' ''espocrm'' (cn_AccountID c) db' (at_key owners (cn_AccountID c))"
      by (rule at_key_stored_as [OF m2 k1])
    ultimately show ?thesis using stored_as_kept [OF _ m2 k1] by blast
  qed
  have "gid_inv db'" using MapGlobalIDs_keeps [OF m2 k1] by blast
  moreover have "\<exists>x. by_source t s sid db = None \<or> by_source t s sid db = Some x \<and> by_source t s sid db' = Some x"
    for t s sid
    using MapGlobalIDs_keeps [OF m1 assms(2)] MapGlobalIDs_keeps [OF m2 k1]
    by (cases "by_source t s sid db") auto
  ultimately show ?thesis
    using f one assms(3) by (auto simp: rp contact_view_def list_all2_map2 intro!: list_all2_same [THEN iffD2])
qed

subsection \<open>A collection walked through the platform\<close>

lemma list_page_trim:
  "list_page cd net decode d m request \<lparr> pg_Limit = l, pg_Cursor = TrimSpace cursor \<rparr> c =
   list_page cd net decode d m request \<lparr> pg_Limit = l, pg_Cursor = cursor \<rparr> c"
  by (cases "DecodeCursor cursor") (simp_all add: list_page_def Page_Resolve_def)

definition query_limit_of :: "string \<Rightarrow> int" where
  "query_limit_of limit = (case ParseInt (TrimSpace limit) of None \<Rightarrow> 0 | Some n \<Rightarrow> n)"

lemma fetch_page_listed:
  assumes "registry_Get i r = Some a" "capability a = Some (c, h)" "in_Status (adapter_Info a) \<noteq> StatusDisabled"
    and "\<And>page. list page c h = apsnd wrap (list_page cd net decode d m request page c)"
    and "listed (list_page cd net decode d m request \<lparr> pg_Limit = query_limit_of limit, pg_Cursor = cursor \<rparr> c) =
      Some (items, info)"
  shows "\<exists>r'. fetch_page capability i name limit cursor list r =
    ((Inr (items, info) :: 'b Reply + 'a list \<times> PageInfo), r')"
proof -
  let ?p = "\<lparr> pg_Limit = query_limit_of limit, pg_Cursor = TrimSpace cursor \<rparr>"
  have l: "fst (list_page cd net decode d m request ?p c) = Inr (items, info)"
    using assms(5) unfolding list_page_trim by (auto simp: listed_def split: sum.splits)
  then have "DecodeCursor cursor \<noteq> None"
    by (cases "DecodeCursor cursor") (simp_all add: list_page_def Page_Resolve_def)
  then have "(requestPage limit cursor :: 'b Reply + Page) = Inr ?p"
    by (auto simp: requestPage_def query_limit_of_def Let_def)
  moreover have "(adapterFor capability i name r :: 'b Reply + Client \<times> headers) = Inr (c, h)"
    using assms(1-3) by (simp add: adapterFor_def)
  ultimately show ?thesis using l assms(4)
    by (cases "list_page cd net decode d m request ?p c") (simp add: fetch_page_def)
qed

text \<open>What EspoCRM promises the platform over a walk through its accounts.\<close>

definition crm_serves :: "Codec \<Rightarrow> (nat \<Rightarrow> Net) \<Rightarrow> (nat \<Rightarrow> Client) \<Rightarrow> headers \<Rightarrow> Account list \<Rightarrow> string \<Rightarrow> bool" where
  "crm_serves cd nets cs h rows limit \<longleftrightarrow>
     serves_windows cd nets (cd_accounts cd)
       (\<lambda>off lim. read_request h ''/api/v1/Account'' (Some (espocrm_query off lim))) cs rows
       (page_ClampLimit (query_limit_of limit) 50 200)"

text \<open>
  C18.  A caller who follows the cursors of the client listing sees the CRM's collection, every account
  once and in order, whatever page size it asks for and whatever the upstream makes of it, with
  other requests moving the platform's database and circuit between its pages: as long as
  the upstream serves the windows it is asked for and the store can allocate, the walk ends
  after at most one call per account and one more.
\<close>

theorem clients_walked_once:
  assumes "crm_serves cd nets cs h rows limit" "length rows < fuel"
    and "\<And>k. registry_Get ''espocrm'' (regs k) = Some (EspoCRM (cs k) h)"
    and "\<And>k. can_mint ''client'' rx (dbs k)"
  shows "\<exists>items. follow (\<lambda>k cursor. page_view (fst (listClients (\<lambda>_. False) rx cd (nets k) limit cursor (regs k, dbs k))))
      fuel 0 [] = Some items \<and>
    map cv_SourceID items = map ac_ID rows \<and> map cv_Name items = map ac_Name rows"
proof -
  let ?rq = "\<lambda>off lim. read_request h ''/api/v1/Account'' (Some (espocrm_query off lim))"
  let ?l = "query_limit_of limit"
  let ?ask = "upstream_pages.ask cd nets (cd_accounts cd) 50 200 ?rq cs ?l"
  let ?ask' = "\<lambda>k cursor. page_view (fst (listClients (\<lambda>_. False) rx cd (nets k) limit cursor (regs k, dbs k)))"
  have "follow ?ask fuel 0 [] = Some rows"
    by (rule upstream_pages.walk_all) (use assms(1,2) in \<open>simp_all add: crm_serves_def\<close>)
  moreover have "\<exists>ys. ?ask' k cursor = Some (ys, nxt) \<and>
      map (\<lambda>v. (cv_SourceID v, cv_Name v)) ys = map (\<lambda>a. (ac_ID a, ac_Name a)) xs"
    if a: "?ask k cursor = Some (xs, nxt)" for k cursor xs nxt
  proof -
    obtain info where l: "listed (list_page cd (nets k) (cd_accounts cd) 50 200 ?rq
        \<lparr> pg_Limit = ?l, pg_Cursor = cursor \<rparr> (cs k)) = Some (xs, info)" and n: "nxt = pi_NextCursor info"
      using a by (auto simp: upstream_pages.ask_def)
    have f: "\<exists>r'. fetch_page crmReader ''espocrm'' ''EspoCRM'' limit cursor (ListAccounts cd (nets k)) (regs k) =
        ((Inr (xs, info) :: clientView collection Reply + Account list \<times> PageInfo), r')"
      by (rule fetch_page_listed [OF assms(3) _ _ _ l])
        (simp_all add: adapter_status ListAccounts_def espocrm_list_def)
    obtain m db' where "MapGlobalIDs (\<lambda>_. False) rx ''client'' ''espocrm'' (map client_request xs) (dbs k) = (Ok m, db')"
      using MapGlobalIDs_total [OF assms(4)] by blast
    then have "mapGlobalIDs (\<lambda>_. False) rx ''client'' ''espocrm'' (map client_request xs) (dbs k) =
        ((Inr m :: clientView collection Reply + (string \<rightharpoonup> string)), db')"
      by (simp add: mapGlobalIDs_ok)
    then show ?thesis using f n by (auto simp: listClients_def client_view_def)
  qed
  ultimately obtain items where "follow ?ask' fuel 0 [] = Some items"
    "map (\<lambda>v. (cv_SourceID v, cv_Name v)) items = map (\<lambda>a. (ac_ID a, ac_Name a)) rows"
    using follow_simulates [of ?ask ?ask' "\<lambda>v. (cv_SourceID v, cv_Name v)" "\<lambda>a. (ac_ID a, ac_Name a)" fuel 0 "[]" rows]
    by blast
  then have "map fst (map (\<lambda>v. (cv_SourceID v, cv_Name v)) items) = map fst (map (\<lambda>a. (ac_ID a, ac_Name a)) rows)"
    "map snd (map (\<lambda>v. (cv_SourceID v, cv_Name v)) items) = map snd (map (\<lambda>a. (ac_ID a, ac_Name a)) rows)"
    by simp_all
  then show ?thesis using \<open>follow ?ask' fuel 0 [] = Some items\<close> by (auto simp: comp_def)
qed

subsection \<open>Runs on concrete inputs\<close>

definition sample_account :: "string \<Rightarrow> Account" where
  "sample_account i = zero_account \<lparr> ac_ID := i, ac_Name := ''name '' @ i \<rparr>"

text \<open>A CRM of two accounts that serves them one by one.\<close>

definition sample_codec :: Codec where
  "sample_codec = \<lparr> cd_marshal = (\<lambda>_. None), cd_object = (\<lambda>_. None),
     cd_accounts = (\<lambda>s. Some (2, [if s = ''0'' then sample_account ''a1'' else sample_account ''a2''])),
     cd_contacts = (\<lambda>_. Some (1, [zero_contact \<lparr> cn_ID := ''c1'', cn_AccountID := ''a1'' \<rparr>])),
     cd_account = (\<lambda>_. Some (sample_account ''a1'')), cd_contact = (\<lambda>_. None), cd_projects = (\<lambda>_. None),
     cd_issues = (\<lambda>_. None), cd_project = (\<lambda>_. None), cd_issue = (\<lambda>_. None), cd_documents = (\<lambda>_. None),
     cd_hits = (\<lambda>_. None), cd_document = (\<lambda>_. None) \<rparr>"

definition sample_net :: Net where
  "sample_net = \<lparr> nw_validRequest = (\<lambda>_. True),
     nw_send = (\<lambda>_ hr. Ok \<lparr> rs_Status = 200, rs_RetryAfter = [],
        rs_Bytes = (if hr_RawQuery hr = values_Encode (espocrm_query 0 1) then ''0'' else ''1''),
        rs_ReadError = None \<rparr>),
     nw_sleepCanceled = (\<lambda>_ _. False), nw_jitter = (\<lambda>_ d. d), nw_untilDate = (\<lambda>_. None),
     nw_start = 0, nw_finish = 0, nw_others = id \<rparr>"

definition sample_registry :: registry where
  "sample_registry = [(''espocrm'', EspoCRM the_client [])]"

lemma sample_queries_differ: "values_Encode (espocrm_query 1 1) \<noteq> values_Encode (espocrm_query 0 1)"
  by code_simp

lemma the_client_ready: "ready the_client" "fst (Allow 0 (c_breaker the_client))"
  by code_simp+

lemma sample_limit: "query_limit_of ''1'' = 1"
  by code_simp

lemma sample_crm_serves:
  "crm_serves sample_codec (\<lambda>_. sample_net) (\<lambda>_. the_client) [] [sample_account ''a1'', sample_account ''a2''] ''1''"
proof -
  let ?rows = "[sample_account ''a1'', sample_account ''a2'']"
  let ?rq = "\<lambda>off lim. read_request [] ''/api/v1/Account'' (Some (espocrm_query off lim))"
  have s: "serves sample_codec sample_net (cd_accounts sample_codec) the_client (?rq off 1)
      (2, [if values_Encode (espocrm_query off 1) = values_Encode (espocrm_query 0 1)
           then sample_account ''a1'' else sample_account ''a2''])" for off
    by (simp add: serves_def read_request_def sample_net_def sample_codec_def build_request_def the_client_eval)
  have "\<exists>n. (nat off < length ?rows \<longrightarrow> 0 < n) \<and>
      serves sample_codec sample_net (cd_accounts sample_codec) the_client (?rq off 1)
        (int (length ?rows), take n (drop (nat off) ?rows))"
    if "0 \<le> off" "nat off < length ?rows \<or> off = 0" for off
  proof -
    have "off = 0 \<or> off = 1" using that by auto
    then show ?thesis using s [of off] sample_queries_differ by (intro exI [of _ 1]) auto
  qed
  then show ?thesis
    by (simp add: crm_serves_def serves_windows_def the_client_ready sample_limit page_ClampLimit_def
        max_int64_def sample_net_def)
qed

lemma sample_can_mint: "can_mint ''client'' sample_rxs sample_db"
  using sample_gid_inv by (simp add: can_mint_def sample_rxs_def sample_db_def)

theorem clients_walked_once_witness:
  "\<exists>items. follow (\<lambda>k cursor. page_view (fst (listClients (\<lambda>_. False) sample_rxs sample_codec sample_net ''1'' cursor
      (sample_registry, sample_db)))) 3 0 [] = Some items \<and> map cv_SourceID items = [''a1'', ''a2'']"
  using clients_walked_once [OF sample_crm_serves, of 3 "\<lambda>_. sample_registry" sample_rxs "\<lambda>_. sample_db"]
    sample_can_mint
  by (auto simp: sample_registry_def registry_Get_def sample_account_def)

definition crm_db :: DB where
  "crm_db = sample_db \<lparr> db_counters :=
     [\<lparr> ct_EntityType = ''contact'', ct_Prefix = ''CT'', ct_NextValue = 1 \<rparr>,
      \<lparr> ct_EntityType = ''client'', ct_Prefix = ''CL'', ct_NextValue = 1 \<rparr>] \<rparr>"

lemma crm_gid_inv: "gid_inv crm_db"
  by (simp add: gid_inv_def counters_ok_def crm_db_def sample_db_def)

theorem contacts_listed_with_identity_witness:
  "\<exists>rp page r' db'. listContacts (\<lambda>_. False) sample_rxs sample_codec sample_net [] [] (sample_registry, crm_db) =
      (rp, (r', db')) \<and> rp_Body rp = Some page \<and> length (co_Data page) = 1 \<and> gid_inv db'"
proof -
  obtain rp r' db' where l: "listContacts (\<lambda>_. False) sample_rxs sample_codec sample_net [] []
      (sample_registry, crm_db) = (rp, (r', db'))" by (metis prod.collapse)
  have "map_option (length \<circ> co_Data) (rp_Body (fst (listContacts (\<lambda>_. False) sample_rxs sample_codec sample_net [] []
      (sample_registry, crm_db)))) = Some 1" by code_simp
  then obtain page where p: "rp_Body rp = Some page" "length (co_Data page) = 1" using l by auto
  from contacts_listed_with_identity [OF l crm_gid_inv p(1)] l p show ?thesis by blast
qed

end
