(* ===== verification/Operations.thy ===== *)
theory Operations
  imports Notifications
begin

section \<open>Operations (internal/operations, platformdb/operations.go, cmd/server/operations\_business.go)\<close>

text \<open>
  Servers mirrored from an operations toolkit and what is reported about them: the closed vocabulary of
  events, the store, and the human and machine handlers.  Listings order Global IDs by bytes
  (the C collation).
\<close>

subsection \<open>The vocabulary\<close>

record OpsEvent =
  oe_Severity :: string
  oe_Status :: string

definition ops_event :: "string \<Rightarrow> string \<Rightarrow> OpsEvent" where
  "ops_event severity status = \<lparr> oe_Severity = severity, oe_Status = status \<rparr>"

definition ops_events :: "(string \<times> OpsEvent) list" where
  "ops_events =
     [(''backup.succeeded'', ops_event ''info'' []),
      (''backup.failed'', ops_event ''critical'' []),
      (''selftest.succeeded'', ops_event ''info'' []),
      (''selftest.failed'', ops_event ''error'' []),
      (''maintenance.started'', ops_event ''info'' ''maintenance''),
      (''maintenance.completed'', ops_event ''info'' ''ok''),
      (''server.ok'', ops_event ''info'' ''ok''),
      (''server.warning'', ops_event ''warning'' ''warning''),
      (''server.error'', ops_event ''error'' ''error''),
      (''server.offline'', ops_event ''critical'' ''offline'')]"

text \<open>None is ErrUnknownEvent.\<close>

definition Lookup :: "string \<Rightarrow> OpsEvent option" where
  "Lookup name = map_of ops_events (TrimSpace name)"

definition NormalizeEnvironment :: "string \<Rightarrow> string option" where
  "NormalizeEnvironment v0 =
     (let v = ToLower (TrimSpace v0)
      in if v = [] \<or> v = ''unknown'' then Some ''unknown''
         else if v = ''dev'' \<or> v = ''development'' then Some ''dev''
         else if v = ''stage'' \<or> v = ''staging'' then Some ''stage''
         else if v = ''prod'' \<or> v = ''production'' then Some ''prod''
         else None)"

text \<open>operations.EscalateTo is the text of notifications.EscalateTo over the same order.\<close>

definition ops_severityOrder :: "(string \<times> nat) list" where
  "ops_severityOrder = [(''debug'', 0), (''info'', 1), (''warning'', 2), (''error'', 3), (''critical'', 4)]"

definition ops_EscalateTo :: "string \<Rightarrow> string \<Rightarrow> string" where
  "ops_EscalateTo fl reported0 =
     (let reported = ToLower (TrimSpace reported0)
      in case map_of ops_severityOrder fl of
           None \<Rightarrow> reported
         | Some base \<Rightarrow>
             (case map_of ops_severityOrder reported of
                None \<Rightarrow> fl
              | Some rank \<Rightarrow> if base < rank then reported else fl))"

definition server_statuses :: "string list" where
  "server_statuses = [''ok'', ''warning'', ''error'', ''maintenance'', ''offline'', ''unknown'']"

definition environments :: "string list" where
  "environments = [''dev'', ''stage'', ''prod'', ''unknown'']"

subsection \<open>The store\<close>

definition find_server :: "string \<Rightarrow> Platform \<Rightarrow> Server option" where
  "find_server i pf = find (\<lambda>s. sr_ID s = i) (pf_servers pf)"

definition update_servers :: "string \<Rightarrow> (Server \<Rightarrow> Server) \<Rightarrow> Platform \<Rightarrow> Platform" where
  "update_servers i f pf = pf \<lparr> pf_servers := map (\<lambda>s. if sr_ID s = i then f s else s) (pf_servers pf) \<rparr>"

definition UpsertServer :: "down \<Rightarrow> int \<Rightarrow> Server \<Rightarrow> Platform \<Rightarrow> (DBError + Server) \<times> Platform" where
  "UpsertServer down now server pf =
     (if down ''server_upsert'' then (Err (StoreFailure ''server_upsert''), pf)
      else if sr_Environment server \<notin> set environments then (Err CheckViolation, pf)
      else case find_server (sr_ID server) pf of
        Some s \<Rightarrow>
          (let f = (\<lambda>s. s \<lparr> sr_Name := sr_Name server, sr_Environment := sr_Environment server,
                           sr_ClientID := sr_ClientID server, sr_ProjectID := sr_ProjectID server \<rparr>)
           in (Ok (f s), update_servers (sr_ID server) f pf))
      | None \<Rightarrow>
          (let s = server \<lparr> sr_Status := ''unknown'', sr_LastEventAt := None, sr_CreatedAt := now \<rparr>
           in if \<exists>x \<in> set (pf_servers pf). sr_Source x = sr_Source s \<and> sr_SourceID x = sr_SourceID s
              then (Err UniqueViolation, pf)
              else (Ok s, pf \<lparr> pf_servers := pf_servers pf @ [s] \<rparr>)))"

definition GetServer :: "down \<Rightarrow> string \<Rightarrow> Platform \<Rightarrow> DBError + Server" where
  "GetServer down globalID pf =
     bind_result (statement down ''server_get'' (find_server (TrimSpace globalID) pf))
       (\<lambda>r. case r of None \<Rightarrow> Err ErrServerNotFound | Some s \<Rightarrow> Ok s)"

record ServerQuery =
  qs_Status :: string
  qs_Environment :: string
  qs_AfterID :: string
  qs_Limit :: int

definition server_matches :: "ServerQuery \<Rightarrow> Server \<Rightarrow> bool" where
  "server_matches q s \<longleftrightarrow> (qs_Status q = [] \<or> sr_Status s = qs_Status q) \<and>
     (qs_Environment q = [] \<or> sr_Environment s = qs_Environment q)"

definition ListServers :: "down \<Rightarrow> ServerQuery \<Rightarrow> Platform \<Rightarrow> DBError + Server list \<times> int" where
  "ListServers down q pf =
     (if down ''server_count'' then Err (StoreFailure ''server_count'')
      else statement down ''server_list''
        (take (nat (qs_Limit q)) (sort_key sr_ID
           (filter (\<lambda>s. server_matches q s \<and> (qs_AfterID q = [] \<or> qs_AfterID q < sr_ID s)) (pf_servers pf))),
         int (length (filter (server_matches q) (pf_servers pf)))))"

definition InsertOperationsEvent ::
  "down \<Rightarrow> Report \<Rightarrow> string \<Rightarrow> Platform \<Rightarrow> (DBError + Report) \<times> Platform" where
  "InsertOperationsEvent down report status =
     transaction down (\<lambda>pf.
       let r = report \<lparr> rt_ID := pf_report_seq pf + 1 \<rparr>;
           pf1 = pf \<lparr> pf_reports := pf_reports pf @ [r], pf_report_seq := pf_report_seq pf + 1 \<rparr>;
           pf2 = (if status = []
                  then update_servers (rt_ServerID report) (\<lambda>s. s \<lparr> sr_LastEventAt := Some (rt_OccurredAt report) \<rparr>) pf1
                  else update_servers (rt_ServerID report)
                         (\<lambda>s. s \<lparr> sr_Status := status, sr_LastEventAt := Some (rt_OccurredAt report) \<rparr>) pf1)
       in if down ''report_insert'' then Err (StoreFailure ''report_insert'')
          else if rt_Severity report \<notin> set event_severities then Err CheckViolation
          else if find_server (rt_ServerID report) pf = None then Err ForeignKeyViolation
          else if down ''server_update'' then Err (StoreFailure ''server_update'')
          else if status \<noteq> [] \<and> status \<notin> set server_statuses then Err CheckViolation
          else Ok (r, pf2))"

record OperationsEventQuery =
  qe_ServerID :: string
  qe_Event :: string
  qe_AfterID :: int
  qe_Limit :: int

definition report_matches :: "OperationsEventQuery \<Rightarrow> Report \<Rightarrow> bool" where
  "report_matches q r \<longleftrightarrow> (qe_ServerID q = [] \<or> rt_ServerID r = qe_ServerID q) \<and>
     (qe_Event q = [] \<or> rt_Event r = qe_Event q)"

definition ListOperationsEvents ::
  "down \<Rightarrow> OperationsEventQuery \<Rightarrow> Platform \<Rightarrow> DBError + Report list \<times> int" where
  "ListOperationsEvents down q pf =
     (if down ''report_count'' then Err (StoreFailure ''report_count'')
      else statement down ''report_list''
        (take (nat (qe_Limit q)) (rev (sort_key rt_ID
           (filter (\<lambda>r. report_matches q r \<and> (qe_AfterID q = 0 \<or> rt_ID r < qe_AfterID q)) (pf_reports pf)))),
         int (length (filter (report_matches q) (pf_reports pf)))))"

subsection \<open>The human handlers\<close>

definition ops_unavailable :: "'b Reply" where
  "ops_unavailable = reply_error 503 ''operations store unavailable'' []"

definition serverScope :: "Server \<Rightarrow> string \<times> string" where
  "serverScope s = (if sr_ClientID s \<noteq> [] then (ScopeClient, sr_ClientID s) else (ScopeResource, sr_ID s))"

definition listServers ::
  "down \<Rightarrow> string \<Rightarrow> string \<Rightarrow> string \<Rightarrow> string \<Rightarrow> Platform \<Rightarrow> Server collection Reply" where
  "listServers down status environment cursor limit pf =
     (let q = \<lparr> qs_Status = TrimSpace status, qs_Environment = TrimSpace environment,
                qs_AfterID = TrimSpace cursor, qs_Limit = ClampLimit (query_limit limit) \<rparr>
      in case ListServers down q pf of
           Inl _ \<Rightarrow> ops_unavailable
         | Inr (servers, n) \<Rightarrow> writeCollection servers n
             (if int (length servers) = qs_Limit q \<and> servers \<noteq> [] then sr_ID (last servers) else []))"

definition getServer :: "down \<Rightarrow> meResponse \<Rightarrow> string \<Rightarrow> Platform \<Rightarrow> Server Reply" where
  "getServer down access pathID pf =
     (let p = principal_of access; perm = ''operations.server.read''
      in case may_look down (pf_db pf) p perm of
           Some refusal \<Rightarrow> refusal
         | None \<Rightarrow>
             (case GetServer down pathID pf of
                Inl e \<Rightarrow> if e = ErrServerNotFound then notFound else ops_unavailable
              | Inr s \<Rightarrow>
                  (case may_reach down (pf_db pf) p perm (serverScope s) of
                     Some refusal \<Rightarrow> refusal
                   | None \<Rightarrow> reply 200 s)))"

definition listOperationsEvents ::
  "down \<Rightarrow> string \<Rightarrow> string \<Rightarrow> string \<Rightarrow> string \<Rightarrow> Platform \<Rightarrow> Report collection Reply" where
  "listOperationsEvents down serverID event0 cursor0 limit pf =
     (let cursor = TrimSpace cursor0; event = TrimSpace event0;
          after = (if cursor = [] then Some 0
                   else case ParseInt cursor of None \<Rightarrow> None | Some i \<Rightarrow> if i \<le> 0 then None else Some i)
      in case after of
           None \<Rightarrow> reply_error 400 ''invalid pagination cursor'' ''invalid_cursor''
         | Some a \<Rightarrow>
             if event \<noteq> [] \<and> Lookup event = None
             then reply_error 400 ''unknown operations event'' ''invalid_event''
             else
               (case ListOperationsEvents down \<lparr> qe_ServerID = TrimSpace serverID, qe_Event = event,
                        qe_AfterID = a, qe_Limit = ClampLimit (query_limit limit) \<rparr> pf of
                  Inl _ \<Rightarrow> ops_unavailable
                | Inr (reports, n) \<Rightarrow> writeCollection reports n
                    (if int (length reports) = ClampLimit (query_limit limit) \<and> reports \<noteq> []
                     then Itoa (rt_ID (last reports)) else [])))"

subsection \<open>The machine handlers\<close>

record serverRequest =
  sq_Source :: string
  sq_SourceID :: string
  sq_Name :: string
  sq_Environment :: string
  sq_ClientID :: string
  sq_ProjectID :: string

definition serviceRegisterServer ::
  "down \<Rightarrow> RequestContext \<Rightarrow> (DB \<Rightarrow> DB) \<Rightarrow> serverRequest option \<Rightarrow> Platform \<Rightarrow> Server Reply \<times> Platform" where
  "serviceRegisterServer down rx others body pf =
     (case body of
        None \<Rightarrow> (reply_error 400 ''invalid JSON body'' [], pf)
      | Some q \<Rightarrow>
          (let source = TrimSpace (sq_Source q); sourceID = TrimSpace (sq_SourceID q); name = TrimSpace (sq_Name q)
           in if source = [] \<or> sourceID = [] \<or> name = []
              then (reply_error 400 ''source, source_id and name are required'' [], pf)
              else case NormalizeEnvironment (sq_Environment q) of
                None \<Rightarrow> (reply_error 400 ''unknown environment: use dev, stage, prod or unknown'' ''invalid_environment'', pf)
              | Some env \<Rightarrow>
                  (case resolveRelation down (pf_db pf) (sq_ClientID q) ''client'' ''client_id'' of
                     Inl refusal \<Rightarrow> (refusal, pf)
                   | Inr clientID \<Rightarrow>
                       (case resolveRelation down (pf_db pf) (sq_ProjectID q) ''project'' ''project_id'' of
                          Inl refusal \<Rightarrow> (refusal, pf)
                        | Inr projectID \<Rightarrow>
                            (case CreateGlobalEntity down rx others ''server'' source sourceID clientID
                                    [(''managed_by'', ''operations'')] (pf_db pf) of
                               (Inl _, db') \<Rightarrow> (ops_unavailable, pf \<lparr> pf_db := db' \<rparr>)
                             | (Inr entity, db') \<Rightarrow>
                                 (case UpsertServer down (rx_Now rx)
                                     \<lparr> sr_ID = ge_GlobalID entity, sr_Name = name, sr_Environment = env, sr_Status = [],
                                       sr_ClientID = clientID, sr_ProjectID = projectID, sr_Source = source,
                                       sr_SourceID = sourceID, sr_LastEventAt = None, sr_CreatedAt = 0 \<rparr>
                                     (pf \<lparr> pf_db := db' \<rparr>) of
                                    (Inl _, pf') \<Rightarrow> (ops_unavailable, pf')
                                  | (Inr s, pf') \<Rightarrow> (reply 200 s, pf')))))))"

record operationsEventRequest =
  oq_ServerID :: string
  oq_Event :: string
  oq_Severity :: string
  oq_Summary :: string
  oq_OccurredAt :: "int option"
  oq_Source :: string

text \<open>The platform event a stored report becomes, and the event a notification is built from.\<close>

definition report_envelope :: "Report \<Rightarrow> Server \<Rightarrow> Envelope" where
  "report_envelope r s =
     \<lparr> en_EventID = [], en_Event = rt_Event r, en_Source = rt_Source r, en_ActorID = [],
       en_EntityID = rt_ServerID r, en_TenantID = sr_ClientID s, en_Severity = rt_Severity r,
       en_OccurredAt = Some (rt_OccurredAt r), en_RequestID = rt_CorrelationID r,
       en_Data = [(''message'', rt_Summary r)] \<rparr>"

definition report_source_event :: "Report \<Rightarrow> Server \<Rightarrow> SourceEvent" where
  "report_source_event r s =
     \<lparr> se_Event = rt_Event r, se_Source = rt_Source r, se_Severity = rt_Severity r,
       se_EntityID = rt_ServerID r, se_TenantID = sr_ClientID s, se_CorrelationID = rt_CorrelationID r,
       se_OccurredAt = rt_OccurredAt r, se_Body = rt_Summary r \<rparr>"

definition serviceReportOperationsEvent ::
  "down \<Rightarrow> HttpContext \<Rightarrow> operationsEventRequest option \<Rightarrow> Platform \<Rightarrow> Report Reply \<times> Platform" where
  "serviceReportOperationsEvent down hx body pf =
     (case body of
        None \<Rightarrow> (reply_error 400 ''invalid JSON body'' [], pf)
      | Some q \<Rightarrow>
          (let serverID = TrimSpace (oq_ServerID q); event = TrimSpace (oq_Event q); source = TrimSpace (oq_Source q)
           in if serverID = [] \<or> source = []
              then (reply_error 400 ''server_id and source are required'' [], pf)
              else case Lookup event of
                None \<Rightarrow> (reply_error 400 ''unknown operations event'' ''invalid_event'', pf)
              | Some classification \<Rightarrow>
                  (case GetServer down serverID pf of
                     Inl e \<Rightarrow>
                       (if e = ErrServerNotFound
                        then reply_error 400 ''server_id does not name a registered server'' ''invalid_relation''
                        else ops_unavailable, pf)
                   | Inr s \<Rightarrow>
                       (case InsertOperationsEvent down
                           \<lparr> rt_ID = 0, rt_ServerID = sr_ID s, rt_Event = event,
                             rt_Severity = ops_EscalateTo (oe_Severity classification) (oq_Severity q),
                             rt_Summary = TrimSpace (oq_Summary q), rt_Source = source,
                             rt_CorrelationID = hx_RequestID hx,
                             rt_OccurredAt = (case oq_OccurredAt q of None \<Rightarrow> hx_Now hx | Some t \<Rightarrow> t) \<rparr>
                           (oe_Status classification) pf of
                          (Inl _, pf') \<Rightarrow> (ops_unavailable, pf')
                        | (Inr r, pf') \<Rightarrow>
                            (reply 202 r,
                             notifyFromEvent down (report_source_event r s)
                               (publish down (Subject (rt_Event r)) (report_envelope r s) pf'))))))"

subsection \<open>Lemmas\<close>

lemma publish_report_seq [simp]: "pf_report_seq (publish down s e pf) = pf_report_seq pf"
  by (simp add: publish_def)

lemma ops_EscalateTo_same: "ops_EscalateTo = EscalateTo"
  by (intro ext) (simp add: ops_EscalateTo_def EscalateTo_def ops_severityOrder_def severityOrder_def)

lemma InsertOperationsEvent_ok:
  "InsertOperationsEvent down report status pf = (Ok r, pf') \<Longrightarrow>
     r = report \<lparr> rt_ID := pf_report_seq pf + 1 \<rparr> \<and> find_server (rt_ServerID report) pf \<noteq> None \<and>
     pf_reports pf' = pf_reports pf @ [r] \<and> pf_report_seq pf' = pf_report_seq pf + 1 \<and> pf_db pf' = pf_db pf \<and>
     pf_servers pf' = map (\<lambda>s. if sr_ID s = rt_ServerID report
       then (if status = [] then s else s \<lparr> sr_Status := status \<rparr>) \<lparr> sr_LastEventAt := Some (rt_OccurredAt report) \<rparr>
       else s) (pf_servers pf)"
  by (auto simp: InsertOperationsEvent_def transaction_ok update_servers_def Let_def split: if_splits)

lemma InsertOperationsEvent_error:
  "InsertOperationsEvent down report status pf = (Err e, pf') \<Longrightarrow> pf' = pf"
  unfolding InsertOperationsEvent_def by (rule transaction_error)

text \<open>What a report's name says about whether the server is up, and what a history says.\<close>

definition implied_status :: "Report \<Rightarrow> string" where
  "implied_status r = (case Lookup (rt_Event r) of None \<Rightarrow> [] | Some c \<Rightarrow> oe_Status c)"

definition status_after :: "string \<Rightarrow> Report list \<Rightarrow> string" where
  "status_after i rs = fold (\<lambda>r st. if rt_ServerID r = i \<and> implied_status r \<noteq> [] then implied_status r else st) rs ''unknown''"

definition heard_after :: "string \<Rightarrow> Report list \<Rightarrow> int option" where
  "heard_after i rs = fold (\<lambda>r t. if rt_ServerID r = i then Some (rt_OccurredAt r) else t) rs None"

lemma history_append [simp]:
  "status_after i (rs @ [r]) =
     (if rt_ServerID r = i \<and> implied_status r \<noteq> [] then implied_status r else status_after i rs)"
  "heard_after i (rs @ [r]) = (if rt_ServerID r = i then Some (rt_OccurredAt r) else heard_after i rs)"
  by (simp_all add: status_after_def heard_after_def)

lemma history_absent:
  "i \<notin> rt_ServerID ` set rs \<Longrightarrow> status_after i rs = ''unknown'' \<and> heard_after i rs = None"
  by (induction rs rule: rev_induct) (auto simp: status_after_def heard_after_def)

definition at_least :: "string \<Rightarrow> string \<Rightarrow> bool" where
  "at_least fl s \<longleftrightarrow>
     (\<exists>a b. map_of severityOrder fl = Some a \<and> map_of severityOrder s = Some b \<and> a \<le> b)"

definition report_ok :: "Platform \<Rightarrow> Report \<Rightarrow> bool" where
  "report_ok pf r \<longleftrightarrow> 0 < rt_ID r \<and> rt_ID r \<le> pf_report_seq pf \<and>
     rt_ServerID r \<in> sr_ID ` set (pf_servers pf) \<and>
     (\<exists>c. Lookup (rt_Event r) = Some c \<and> at_least (oe_Severity c) (rt_Severity r))"

definition server_ok :: "Report list \<Rightarrow> Server \<Rightarrow> bool" where
  "server_ok rs s \<longleftrightarrow> sr_Status s = status_after (sr_ID s) rs \<and> sr_LastEventAt s = heard_after (sr_ID s) rs"

definition ops_inv :: "Platform \<Rightarrow> bool" where
  "ops_inv pf \<longleftrightarrow>
     distinct (map sr_ID (pf_servers pf)) \<and> distinct (map rt_ID (pf_reports pf)) \<and> 0 \<le> pf_report_seq pf \<and>
     (\<forall>r \<in> set (pf_reports pf). report_ok pf r) \<and>
     (\<forall>s \<in> set (pf_servers pf). server_ok (pf_reports pf) s)"

lemma find_server_None: "find_server i pf = None \<longleftrightarrow> i \<notin> sr_ID ` set (pf_servers pf)"
  by (auto simp: find_server_def find_None_iff)

text \<open>The invariant reads three fields of a server only.\<close>

lemma ops_inv_cong:
  assumes "ops_inv pf" "pf_reports pf' = pf_reports pf" "pf_report_seq pf' = pf_report_seq pf"
    and t: "map (\<lambda>s. (sr_ID s, sr_Status s, sr_LastEventAt s)) (pf_servers pf') =
         map (\<lambda>s. (sr_ID s, sr_Status s, sr_LastEventAt s)) (pf_servers pf)"
  shows "ops_inv pf'"
proof -
  let ?t = "\<lambda>s. (sr_ID s, sr_Status s, sr_LastEventAt s)"
  have ids: "map sr_ID (pf_servers pf') = map sr_ID (pf_servers pf)"
    using arg_cong [OF t, of "map fst"] by (simp add: comp_def)
  have ids': "sr_ID ` set (pf_servers pf') = sr_ID ` set (pf_servers pf)" by (metis ids set_map)
  have ok: "server_ok rs s \<longleftrightarrow> (case ?t s of (i, st, l) \<Rightarrow> st = status_after i rs \<and> l = heard_after i rs)" for rs s
    by (simp add: server_ok_def)
  have "list_all (server_ok (pf_reports pf)) (pf_servers pf')"
    using assms(1) arg_cong [OF t, of "list_all (\<lambda>(i, st, l). st = status_after i (pf_reports pf) \<and> l = heard_after i (pf_reports pf))"]
    unfolding ok ops_inv_def by (simp add: list.pred_map comp_def list_all_iff)
  moreover have "report_ok pf' = report_ok pf"
    by (intro ext) (simp only: report_ok_def ids' assms(3))
  ultimately show ?thesis using assms(1) unfolding ops_inv_def ids assms(2,3) list_all_iff by simp
qed

lemma ops_inv_new:
  assumes "ops_inv pf" "sr_ID s \<notin> sr_ID ` set (pf_servers pf)" "sr_Status s = ''unknown''" "sr_LastEventAt s = None"
  shows "ops_inv (pf \<lparr> pf_servers := pf_servers pf @ [s] \<rparr>)"
proof -
  have "\<forall>r \<in> set (pf_reports pf). rt_ServerID r \<in> sr_ID ` set (pf_servers pf)"
    using assms(1) unfolding ops_inv_def report_ok_def by blast
  then have "sr_ID s \<notin> rt_ServerID ` set (pf_reports pf)" using assms(2) by (metis imageE)
  then have "server_ok (pf_reports pf) s" using history_absent assms(3,4) by (simp add: server_ok_def)
  moreover have "report_ok (pf \<lparr> pf_servers := pf_servers pf @ [s] \<rparr>) r" if "report_ok pf r" for r
    using that by (simp add: report_ok_def)
  ultimately show ?thesis using assms(1,2) unfolding ops_inv_def by simp
qed

lemma ops_inv_update:
  assumes "ops_inv pf" "\<And>s. sr_ID (f s) = sr_ID s \<and> sr_Status (f s) = sr_Status s \<and> sr_LastEventAt (f s) = sr_LastEventAt s"
  shows "ops_inv (update_servers i f pf)"
  by (rule ops_inv_cong [OF assms(1)]) (simp_all add: update_servers_def assms(2) if_distrib)

lemma UpsertServer_inv:
  assumes "UpsertServer down now server pf = (res, pf')" "ops_inv pf"
  shows "ops_inv pf'"
proof (cases "find_server (sr_ID server) pf")
  case None
  then have "pf' = pf \<or> pf' = pf \<lparr> pf_servers := pf_servers pf @
      [server \<lparr> sr_Status := ''unknown'', sr_LastEventAt := None, sr_CreatedAt := now \<rparr>] \<rparr>"
    using assms(1) by (simp add: UpsertServer_def Let_def split: if_splits)
  then show ?thesis
    using assms(2) None ops_inv_new [OF assms(2), of "server \<lparr> sr_Status := ''unknown'', sr_LastEventAt := None, sr_CreatedAt := now \<rparr>"]
    by (auto simp: find_server_None)
next
  case (Some s)
  then have "pf' = pf \<or> pf' = update_servers (sr_ID server) (\<lambda>s. s \<lparr> sr_Name := sr_Name server,
      sr_Environment := sr_Environment server, sr_ClientID := sr_ClientID server, sr_ProjectID := sr_ProjectID server \<rparr>) pf"
    using assms(1) by (simp add: UpsertServer_def Let_def split: if_splits)
  then show ?thesis
  proof
    assume p: "pf' = update_servers (sr_ID server) (\<lambda>s. s \<lparr> sr_Name := sr_Name server,
      sr_Environment := sr_Environment server, sr_ClientID := sr_ClientID server, sr_ProjectID := sr_ProjectID server \<rparr>) pf"
    show ?thesis unfolding p by (rule ops_inv_update [OF assms(2)]) simp
  qed (use assms in simp)
qed

lemma Insert_inv:
  assumes "InsertOperationsEvent down report status pf = (Ok r, pf')" "ops_inv pf"
    and "Lookup (rt_Event report) = Some c" "status = oe_Status c"
    and "at_least (oe_Severity c) (rt_Severity report)"
  shows "ops_inv pf'"
proof -
  note o = InsertOperationsEvent_ok [OF assms(1)]
  have imp: "implied_status r = status" using o assms(3,4) by (simp add: implied_status_def)
  have ids: "map sr_ID (pf_servers pf') = map sr_ID (pf_servers pf)"
    using o by (simp add: comp_def if_distrib cong: if_cong)
  then have ids': "sr_ID ` set (pf_servers pf') = sr_ID ` set (pf_servers pf)" by (metis set_map)
  have known: "rt_ServerID r \<in> sr_ID ` set (pf_servers pf)"
    using o by (simp add: find_server_None)
  have rid: "rt_ID r = pf_report_seq pf + 1" using o by simp
  have servers: "server_ok (pf_reports pf') s" if s: "s \<in> set (pf_servers pf')" for s
  proof -
    obtain s0 where s0: "s0 \<in> set (pf_servers pf)" "s = (if sr_ID s0 = rt_ServerID report
        then (if status = [] then s0 else s0 \<lparr> sr_Status := status \<rparr>) \<lparr> sr_LastEventAt := Some (rt_OccurredAt report) \<rparr>
        else s0)" using s o by auto
    have "server_ok (pf_reports pf) s0" using s0(1) assms(2) by (simp add: ops_inv_def)
    then show ?thesis using s0(2) o imp by (simp add: server_ok_def split: if_splits)
  qed
  have seq: "pf_report_seq pf' = pf_report_seq pf + 1" using o by simp
  have old: "report_ok pf' x" if "report_ok pf x" for x
    using that seq unfolding report_ok_def ids' by simp
  have new: "report_ok pf' r"
    using o assms(2,3,5) known unfolding report_ok_def ids' ops_inv_def by simp
  have "rt_ID r \<notin> rt_ID ` set (pf_reports pf)"
    using assms(2) unfolding ops_inv_def report_ok_def rid by force
  then have "distinct (map rt_ID (pf_reports pf'))" using o assms(2) by (simp add: ops_inv_def)
  moreover have "0 \<le> pf_report_seq pf'" using seq assms(2) by (simp add: ops_inv_def)
  moreover have "\<forall>x \<in> set (pf_reports pf'). report_ok pf' x"
    using o old new assms(2) by (simp add: ops_inv_def)
  moreover have "distinct (map sr_ID (pf_servers pf'))" using assms(2) by (simp only: ids ops_inv_def)
  ultimately show ?thesis using servers unfolding ops_inv_def by blast
qed

lemma ops_inv_frame:
  "pf_servers pf' = pf_servers pf \<Longrightarrow> pf_reports pf' = pf_reports pf \<Longrightarrow> pf_report_seq pf' = pf_report_seq pf \<Longrightarrow>
   ops_inv pf' = ops_inv pf"
  by (simp add: ops_inv_def report_ok_def)

lemma ops_events_ranked: "Lookup e = Some c \<Longrightarrow> map_of severityOrder (oe_Severity c) \<noteq> None"
proof -
  have all: "\<forall>c \<in> snd ` set ops_events. map_of severityOrder (oe_Severity c) \<noteq> None" by code_simp
  assume "Lookup e = Some c"
  then have "c \<in> snd ` set ops_events" by (force simp: Lookup_def dest: map_of_SomeD)
  with all show ?thesis by blast
qed

lemma at_least_escalated: "Lookup e = Some c \<Longrightarrow> at_least (oe_Severity c) (ops_EscalateTo (oe_Severity c) s)"
  using ops_events_ranked [of e c] EscalateTo_floor [of "oe_Severity c" _ s]
  by (auto simp: at_least_def ops_EscalateTo_same)

lemma Lookup_trim [simp]: "Lookup (TrimSpace e) = Lookup e"
  by (simp add: Lookup_def)

text \<open>The calls of the machine API that write to the operations store.\<close>

inductive ops_calls :: "Platform \<Rightarrow> Platform \<Rightarrow> bool" where
  none: "ops_calls pf pf"
| registered: "\<lbrakk>ops_calls pf pf1; serviceRegisterServer down rx others body pf1 = (r, pf2)\<rbrakk> \<Longrightarrow> ops_calls pf pf2"
| reported: "\<lbrakk>ops_calls pf pf1; serviceReportOperationsEvent down hx body pf1 = (r', pf2)\<rbrakk> \<Longrightarrow> ops_calls pf pf2"

lemma register_inv:
  assumes "serviceRegisterServer down rx others body pf = (r, pf')" "ops_inv pf"
  shows "ops_inv pf'"
proof -
  have "\<exists>db'. pf' = pf \<lparr> pf_db := db' \<rparr> \<or>
      (\<exists>server res. UpsertServer down (rx_Now rx) server (pf \<lparr> pf_db := db' \<rparr>) = (res, pf'))"
  proof (cases "pf' = pf")
    case True
    then show ?thesis by (metis (full_types) Platform.surjective Platform.update_convs(1))
  next
    case False
    then show ?thesis using assms(1)
      unfolding serviceRegisterServer_def Let_def
      by (auto split: option.splits if_splits sum.splits prod.splits)
  qed
  then obtain db' where c: "pf' = pf \<lparr> pf_db := db' \<rparr> \<or>
      (\<exists>server res. UpsertServer down (rx_Now rx) server (pf \<lparr> pf_db := db' \<rparr>) = (res, pf'))" by blast
  have "ops_inv (pf \<lparr> pf_db := db' \<rparr>)" using assms(2) ops_inv_frame [of "pf \<lparr> pf_db := db' \<rparr>" pf] by simp
  with c UpsertServer_inv show ?thesis by blast
qed

lemma report_cases:
  assumes "serviceReportOperationsEvent down hx body pf = (r, pf')"
  obtains "pf' = pf" "rp_Status r \<noteq> 202"
    | q c s rep pf1 where "body = Some q" "Lookup (oq_Event q) = Some c" "find_server (TrimSpace (oq_ServerID q)) pf = Some s"
      "rt_Event rep = TrimSpace (oq_Event q)" "rt_ServerID rep = sr_ID s"
      "rt_OccurredAt rep = (case oq_OccurredAt q of None \<Rightarrow> hx_Now hx | Some t \<Rightarrow> t)"
      "rt_Severity rep = ops_EscalateTo (oe_Severity c) (oq_Severity q)"
      "InsertOperationsEvent down rep (oe_Status c) pf = (Ok (rep \<lparr> rt_ID := pf_report_seq pf + 1 \<rparr>), pf1)"
      "r = reply 202 (rep \<lparr> rt_ID := pf_report_seq pf + 1 \<rparr>)"
      "pf_servers pf' = pf_servers pf1" "pf_reports pf' = pf_reports pf1" "pf_report_seq pf' = pf_report_seq pf1"
proof (cases "pf' = pf \<and> rp_Status r \<noteq> 202")
  case True
  then show ?thesis using that(1) by blast
next
  case False
  obtain q where q: "body = Some q" using False assms by (cases body) (auto simp: serviceReportOperationsEvent_def)
  obtain c where c: "Lookup (oq_Event q) = Some c"
    using False assms by (cases "Lookup (oq_Event q)") (auto simp: serviceReportOperationsEvent_def q Let_def split: if_splits)
  obtain s where s: "GetServer down (TrimSpace (oq_ServerID q)) pf = Ok s"
    using False assms
    by (cases "GetServer down (TrimSpace (oq_ServerID q)) pf")
      (auto simp: serviceReportOperationsEvent_def q c Let_def ops_unavailable_def split: if_splits)
  define rep where "rep = \<lparr> rt_ID = 0, rt_ServerID = sr_ID s, rt_Event = TrimSpace (oq_Event q),
     rt_Severity = ops_EscalateTo (oe_Severity c) (oq_Severity q),
     rt_Summary = TrimSpace (oq_Summary q), rt_Source = TrimSpace (oq_Source q),
     rt_CorrelationID = hx_RequestID hx,
     rt_OccurredAt = (case oq_OccurredAt q of None \<Rightarrow> hx_Now hx | Some t \<Rightarrow> t) \<rparr>"
  obtain res pf1 where i: "InsertOperationsEvent down rep (oe_Status c) pf = (res, pf1)"
    by (cases "InsertOperationsEvent down rep (oe_Status c) pf")
  have whole: "(r, pf') = (if TrimSpace (oq_ServerID q) = [] \<or> TrimSpace (oq_Source q) = []
      then (reply_error 400 ''server_id and source are required'' [], pf)
      else case res of Inl e \<Rightarrow> (ops_unavailable, pf1)
        | Inr x \<Rightarrow> (reply 202 x, notifyFromEvent down (report_source_event x s)
            (publish down (Subject (rt_Event x)) (report_envelope x s) pf1)))"
    unfolding assms [symmetric] serviceReportOperationsEvent_def q option.case Let_def Lookup_trim c s sum.case
      rep_def [symmetric] i prod.case by (rule refl)
  obtain x where x: "res = Ok x"
    using whole False InsertOperationsEvent_error i by (cases res) (auto simp: ops_unavailable_def split: if_splits)
  have xr: "x = rep \<lparr> rt_ID := pf_report_seq pf + 1 \<rparr>" using InsertOperationsEvent_ok i x by blast
  have fin: "r = reply 202 x \<and> pf' = notifyFromEvent down (report_source_event x s)
            (publish down (Subject (rt_Event x)) (report_envelope x s) pf1)"
    using whole x False by (simp split: if_splits)
  have f: "find_server (TrimSpace (oq_ServerID q)) pf = Some s"
    using s by (auto simp: GetServer_def bind_result_def statement_def split: if_splits option.splits)
  show ?thesis
    by (rule that(2) [of q c s rep pf1]) (use q c f i x xr fin in \<open>simp_all add: rep_def\<close>)
qed

lemma report_inv:
  assumes "serviceReportOperationsEvent down hx body pf = (r, pf')" "ops_inv pf"
  shows "ops_inv pf'"
  using assms(1)
proof (cases rule: report_cases)
  case (2 q c s rep pf1)
  have "Lookup (rt_Event rep) = Some c" using 2 by simp
  then have "ops_inv pf1"
    by (rule Insert_inv [OF 2(8) assms(2)]) (use 2 at_least_escalated [OF 2(2)] in simp_all)
  then show ?thesis using ops_inv_frame 2(10-12) by blast
qed (use assms in simp)

subsection \<open>What the operations store promises\<close>

text \<open>
  C33.  A dashboard never disagrees with its own history: after any sequence of registrations and
  reports, with any of their statements failing, the status of every server is the one implied by the last
  stored report about it that says anything about the server being up (unknown if there is none),
  so no registration and no failed backup or self-test changes it; its last-heard time is that of the
  last stored report; and every stored report names a stored server, an event of the vocabulary,
  and a severity at least the platform's own.
\<close>

theorem status_explained:
  assumes "ops_calls pf pf'" "ops_inv pf"
  shows "(\<forall>s \<in> set (pf_servers pf'). sr_Status s = status_after (sr_ID s) (pf_reports pf') \<and>
      sr_LastEventAt s = heard_after (sr_ID s) (pf_reports pf')) \<and>
    (\<forall>r \<in> set (pf_reports pf'). rt_ServerID r \<in> sr_ID ` set (pf_servers pf') \<and>
      (\<exists>c. Lookup (rt_Event r) = Some c \<and> at_least (oe_Severity c) (rt_Severity r)))"
proof -
  have "ops_inv pf'" using assms
    by (induction rule: ops_calls.induct) (blast intro: register_inv report_inv)+
  then show ?thesis by (simp add: ops_inv_def server_ok_def report_ok_def)
qed

text \<open>
  A divergence: the last-heard time is documented as when the server was last reported on at all, but
  it is overwritten with whatever time the report claims: a late report, whose event happened before
  the last one heard of, moves it backwards, and, being the last stored, also decides the status.
\<close>

theorem late_report_rewinds:
  assumes "serviceReportOperationsEvent down hx (Some q) pf = (r, pf')" "rp_Status r = 202"
    and "ops_inv pf" "find_server (TrimSpace (oq_ServerID q)) pf = Some s" "sr_LastEventAt s = Some heard"
    and "oq_OccurredAt q = Some t" "t < heard"
  shows "\<exists>s'. find_server (TrimSpace (oq_ServerID q)) pf' = Some s' \<and> sr_LastEventAt s' = Some t \<and>
    (\<forall>c. Lookup (oq_Event q) = Some c \<and> oe_Status c \<noteq> [] \<longrightarrow> sr_Status s' = oe_Status c)"
  using assms(1)
proof (cases rule: report_cases)
  case (2 q' c s0 rep pf1)
  let ?i = "TrimSpace (oq_ServerID q)"
  have id: "sr_ID s = ?i" using assms(4) by (simp add: find_server_def find_Some_iff) blast
  have e: "q' = q" "s0 = s" using 2 assms(4) by simp_all
  note o = InsertOperationsEvent_ok [OF 2(8)]
  have inv: "ops_inv pf'" by (rule report_inv [OF assms(1,3)])
  have "find_server ?i pf' \<noteq> None"
  proof -
    have "sr_ID s \<in> sr_ID ` set (pf_servers pf')"
    proof -
      have "s \<in> set (pf_servers pf)" using assms(4) by (auto simp: find_server_def find_Some_iff)
      moreover have "map sr_ID (pf_servers pf') = map sr_ID (pf_servers pf)"
        using o 2(10) by simp
      ultimately show ?thesis by (metis image_eqI set_map)
    qed
    then show ?thesis by (simp add: find_server_None id)
  qed
  then obtain s' where s': "find_server ?i pf' = Some s'" by blast
  then have m: "s' \<in> set (pf_servers pf')" "sr_ID s' = ?i" by (auto simp: find_server_def find_Some_iff)
  have h: "server_ok (pf_reports pf') s'" using inv m(1) by (simp add: ops_inv_def)
  have rs: "pf_reports pf' = pf_reports pf @ [rep \<lparr> rt_ID := pf_report_seq pf + 1 \<rparr>]" using o 2(11) by simp
  have "sr_LastEventAt s' = Some t"
    using h m(2) id 2(5,6) assms(6) by (simp add: server_ok_def rs e)
  moreover have "oe_Status c \<noteq> [] \<longrightarrow> sr_Status s' = oe_Status c"
    using h m(2) id 2(2,4,5) by (simp add: server_ok_def rs e implied_status_def)
  ultimately show ?thesis using s' 2(2) e by auto
qed (use assms in simp)

subsection \<open>Walking the servers and the reports\<close>

definition matching_servers :: "string \<Rightarrow> string \<Rightarrow> Platform \<Rightarrow> Server list" where
  "matching_servers status environment pf = sort_key sr_ID
     (filter (\<lambda>s. (TrimSpace status = [] \<or> sr_Status s = TrimSpace status) \<and>
        (TrimSpace environment = [] \<or> sr_Environment s = TrimSpace environment)) (pf_servers pf))"

definition server_listing_ok :: "down \<Rightarrow> Platform \<Rightarrow> bool" where
  "server_listing_ok down pf \<longleftrightarrow> \<not> down ''server_count'' \<and> \<not> down ''server_list'' \<and>
     distinct (map sr_ID (pf_servers pf)) \<and>
     (\<forall>s \<in> set (pf_servers pf). sr_ID s \<noteq> [] \<and> TrimSpace (sr_ID s) = sr_ID s)"

lemma listServers_page:
  assumes "server_listing_ok down pf"
  shows "page_view (listServers down status environment cursor limit pf) =
    (let n = nat (ClampLimit (query_limit limit));
         rows = take n (filter (\<lambda>s. TrimSpace cursor = [] \<or> TrimSpace cursor < sr_ID s)
                  (matching_servers status environment pf))
     in Some (rows, next_of sr_ID n rows))"
proof -
  let ?n = "ClampLimit (query_limit limit)"
  let ?rows = "take (nat ?n) (filter (\<lambda>s. TrimSpace cursor = [] \<or> TrimSpace cursor < sr_ID s)
                  (matching_servers status environment pf))"
  have "page_view (listServers down status environment cursor limit pf) =
      Some (?rows, if int (length ?rows) = ?n \<and> ?rows \<noteq> [] then sr_ID (last ?rows) else [])"
    using assms
    by (simp add: listServers_def ListServers_def server_listing_ok_def server_matches_def matching_servers_def
        Let_def filter_sort conj_commute)
  moreover have "(if int (length ?rows) = ?n \<and> ?rows \<noteq> [] then sr_ID (last ?rows) else []) =
      next_of sr_ID (nat ?n) (map (\<lambda>s. s) ?rows)"
    by (rule page_next) (use ClampLimit_bounds [of "query_limit limit"] in simp)
  ultimately show ?thesis by (simp add: Let_def)
qed

interpretation server_pages: paged
  "\<lambda>k c. page_view (listServers down status environment c limit pf)" "\<lambda>s. s"
  "matching_servers status environment pf" sr_ID "nat (ClampLimit (query_limit limit))"
  "server_listing_ok down pf"
  for down status environment limit pf
proof unfold_locales
  assume ok: "server_listing_ok down pf"
  show "0 < nat (ClampLimit (query_limit limit))" using ClampLimit_bounds [of "query_limit limit"] by simp
  show "\<exists>items. page_view (listServers down status environment [] limit pf) =
      Some (items, next_of sr_ID (nat (ClampLimit (query_limit limit)))
        (take (nat (ClampLimit (query_limit limit))) (matching_servers status environment pf))) \<and>
      map (\<lambda>s. s) items = take (nat (ClampLimit (query_limit limit))) (matching_servers status environment pf)"
    by (simp add: listServers_page [OF ok] Let_def)
next
  fix i k
  let ?rows = "matching_servers status environment pf"
  assume ok: "server_listing_ok down pf" and i: "i < length ?rows"
  have "?rows ! i \<in> set ?rows" by (rule nth_mem [OF i])
  then have id: "sr_ID (?rows ! i) \<noteq> []" "TrimSpace (sr_ID (?rows ! i)) = sr_ID (?rows ! i)"
    using ok by (auto simp: matching_servers_def server_listing_ok_def)
  have "sorted_wrt (\<lambda>x y. sr_ID x < sr_ID y) ?rows"
    unfolding matching_servers_def
    by (rule sort_key_strict) (use ok in \<open>simp add: server_listing_ok_def distinct_map_filter\<close>)
  from filter_after_sorted [OF this i]
  have f: "filter (\<lambda>s. sr_ID (?rows ! i) < sr_ID s) ?rows = drop (Suc i) ?rows" by simp
  show "sr_ID (?rows ! i) \<noteq> [] \<and>
      (\<exists>items. page_view (listServers down status environment (sr_ID (?rows ! i)) limit pf) =
        Some (items, next_of sr_ID (nat (ClampLimit (query_limit limit)))
          (take (nat (ClampLimit (query_limit limit))) (drop (Suc i) ?rows))) \<and>
        map (\<lambda>s. s) items = take (nat (ClampLimit (query_limit limit))) (drop (Suc i) ?rows))"
    using id by (simp add: listServers_page [OF ok] Let_def f)
qed

text \<open>
  The server listing is complete: following its cursors collects exactly the servers that match the
  filters, each once, in the order of their Global IDs, whatever limit was asked for.
\<close>

theorem servers_walked_once:
  assumes "server_listing_ok down pf" "length (matching_servers status environment pf) < fuel"
  shows "follow (\<lambda>k c. page_view (listServers down status environment c limit pf)) fuel 0 [] =
    Some (matching_servers status environment pf)"
  using server_pages.follow_all [OF assms] by simp

subsection \<open>Witnesses\<close>

definition sample_server_request :: serverRequest where
  "sample_server_request = \<lparr> sq_Source = ''bravo'', sq_SourceID = ''host-1'', sq_Name = ''db'',
     sq_Environment = ''production'', sq_ClientID = [], sq_ProjectID = [] \<rparr>"

definition sample_report :: "string \<Rightarrow> int \<Rightarrow> operationsEventRequest" where
  "sample_report event t = \<lparr> oq_ServerID = ''SRV-000001'', oq_Event = event, oq_Severity = [], oq_Summary = [],
     oq_OccurredAt = Some t, oq_Source = ''bravo'' \<rparr>"

definition ops_sample :: Platform where
  "ops_sample = platform_of (sample_db \<lparr> db_counters :=
     [\<lparr> ct_EntityType = ''server'', ct_Prefix = ''SRV'', ct_NextValue = 1 \<rparr>] \<rparr>)"

definition registered_sample :: Platform where
  "registered_sample = snd (serviceRegisterServer all_up sample_rx id (Some sample_server_request) ops_sample)"

definition offline_sample :: Platform where
  "offline_sample =
     snd (serviceReportOperationsEvent all_up sample_hx (Some (sample_report ''server.offline'' 100)) registered_sample)"

lemma ops_sample_inv: "ops_inv ops_sample"
  by (simp add: ops_inv_def ops_sample_def platform_of_def)

lemma offline_sample_calls: "ops_calls ops_sample offline_sample"
proof -
  have "ops_calls ops_sample registered_sample"
    by (rule ops_calls.registered [OF ops_calls.none, of all_up sample_rx id "Some sample_server_request"])
      (simp add: registered_sample_def prod_eq_iff)
  then show ?thesis
    by (rule ops_calls.reported [of _ _ all_up sample_hx "Some (sample_report ''server.offline'' 100)"])
      (simp add: offline_sample_def prod_eq_iff)
qed

theorem status_explained_witness:
  "\<exists>s. pf_servers offline_sample = [s] \<and> sr_Status s = ''offline''"
proof -
  have l: "map sr_ID (pf_servers offline_sample) = [''SRV-000001'']" by code_simp
  then obtain s where s: "pf_servers offline_sample = [s]" "sr_ID s = ''SRV-000001''" by (auto simp: map_eq_Cons_conv)
  have h: "status_after ''SRV-000001'' (pf_reports offline_sample) = ''offline''" by code_simp
  from status_explained [OF offline_sample_calls ops_sample_inv] s h show ?thesis by simp
qed

theorem late_report_rewinds_witness:
  "\<exists>s'. find_server ''SRV-000001'' (snd (serviceReportOperationsEvent all_up sample_hx
      (Some (sample_report ''server.ok'' 50)) offline_sample)) = Some s' \<and>
    sr_LastEventAt s' = Some 50 \<and> sr_Status s' = ''ok''"
proof -
  let ?q = "sample_report ''server.ok'' 50"
  have t: "TrimSpace (oq_ServerID ?q) = ''SRV-000001''" by code_simp
  obtain r pf' where r: "serviceReportOperationsEvent all_up sample_hx (Some ?q) offline_sample = (r, pf')"
    by (cases "serviceReportOperationsEvent all_up sample_hx (Some ?q) offline_sample")
  have "rp_Status (fst (serviceReportOperationsEvent all_up sample_hx (Some ?q) offline_sample)) = 202" by code_simp
  then have c: "rp_Status r = 202" by (simp add: r)
  have "map_option sr_LastEventAt (find_server (TrimSpace (oq_ServerID ?q)) offline_sample) = Some (Some 100)" by code_simp
  then obtain s where s: "find_server (TrimSpace (oq_ServerID ?q)) offline_sample = Some s" "sr_LastEventAt s = Some 100"
    by auto
  have inv: "ops_inv offline_sample" using offline_sample_calls ops_sample_inv
    by (induction rule: ops_calls.induct) (blast intro: register_inv report_inv)+
  have o: "oq_OccurredAt ?q = Some 50" by (simp add: sample_report_def)
  have lk: "map_option oe_Status (Lookup (oq_Event ?q)) = Some ''ok''" by code_simp
  from late_report_rewinds [OF r c inv s o] lk show ?thesis unfolding t r by auto
qed

lemma ops_sample_listing: "server_listing_ok all_up offline_sample"
  by code_simp

theorem servers_walked_once_witness:
  "follow (\<lambda>k c. page_view (listServers all_up ''offline'' [] c ''1'' offline_sample)) 2 0 [] =
     Some (matching_servers ''offline'' [] offline_sample) \<and>
   length (matching_servers ''offline'' [] offline_sample) = 1"
proof -
  have l: "length (matching_servers ''offline'' [] offline_sample) = 1" by code_simp
  then have "length (matching_servers ''offline'' [] offline_sample) < 2" by simp
  from servers_walked_once [OF ops_sample_listing this] l show ?thesis by simp
qed

end
