(* ===== verification/Support.thy ===== *)
theory Support
  imports Notifications
begin

section \<open>Support records (internal/support, platformdb/support.go, cmd/server/support.go)\<close>

text \<open>
  Incidents and requests: the status graph, the SLA state derived from the stored moments, the store and
  the handlers.  The update handler reads the record, lets other requests commit (the argument others),
  then updates it, as the code does: the read is not part of the update's transaction.  The at-risk
  threshold of 0.8 is exact here (in the code it is computed in float64).
\<close>

subsection \<open>The vocabulary\<close>

definition sp_transitions :: "(string \<times> string list) list" where
  "sp_transitions =
     [(''new'', [''acknowledged'', ''in_progress'', ''resolved'', ''closed'']),
      (''acknowledged'', [''in_progress'', ''resolved'', ''closed'']),
      (''in_progress'', [''resolved'', ''closed'']),
      (''resolved'', [''in_progress'', ''closed'']),
      (''closed'', [])]"

datatype SupportError = ErrUnknownStatus | ErrInvalidTransition

definition NormalizeKind :: "string \<Rightarrow> string option" where
  "NormalizeKind v0 =
     (let v = ToLower (TrimSpace v0)
      in if v = [] \<or> v = ''incident'' then Some ''incident''
         else if v = ''request'' then Some ''request'' else None)"

definition NormalizeSeverity :: "string \<Rightarrow> string option" where
  "NormalizeSeverity v0 =
     (let v = ToLower (TrimSpace v0)
      in if v = ''low'' \<or> v = ''medium'' \<or> v = ''high'' \<or> v = ''critical'' then Some v else None)"

definition NormalizeStatus :: "string \<Rightarrow> string option" where
  "NormalizeStatus v0 =
     (let v = ToLower (TrimSpace v0)
      in if map_of sp_transitions v = None then None else Some v)"

text \<open>None is the nil error.\<close>

definition CanTransition :: "string \<Rightarrow> string \<Rightarrow> SupportError option" where
  "CanTransition fr to =
     (if fr = to then None
      else case map_of sp_transitions fr of
        None \<Rightarrow> Some ErrUnknownStatus
      | Some allowed \<Rightarrow> if to \<in> set allowed then None else Some ErrInvalidTransition)"

definition IsOpen :: "string \<Rightarrow> bool" where
  "IsOpen status \<longleftrightarrow> status \<noteq> ''resolved'' \<and> status \<noteq> ''closed''"

definition relationTypes :: "string list" where
  "relationTypes = [''client'', ''server'', ''project'', ''task'', ''bug'', ''document'']"

definition IsRelationType :: "string \<Rightarrow> bool" where
  "IsRelationType t \<longleftrightarrow> ToLower (TrimSpace t) \<in> set relationTypes"

subsection \<open>The SLA\<close>

record Policy =
  po_Respond :: int
  po_Resolve :: int

definition no_policy :: Policy where
  "no_policy = \<lparr> po_Respond = 0, po_Resolve = 0 \<rparr>"

definition at_risk :: "int \<Rightarrow> int \<Rightarrow> int option \<Rightarrow> bool" where
  "at_risk createdAt now due =
     (case due of
        None \<Rightarrow> False
      | Some d \<Rightarrow> 0 < d - createdAt \<and> 4 * (d - createdAt) \<le> 5 * (now - createdAt))"

definition sla_Evaluate :: "Policy \<Rightarrow> int \<Rightarrow> int option \<Rightarrow> int option \<Rightarrow> int \<Rightarrow> SLA" where
  "sla_Evaluate policy createdAt acknowledgedAt resolvedAt now =
     (if po_Respond policy \<le> 0 \<and> po_Resolve policy \<le> 0
      then \<lparr> sla_State = ''unset'', sla_RespondBy = None, sla_ResolveBy = None \<rparr>
      else
        (let respondBy = (if 0 < po_Respond policy then Some (createdAt + po_Respond policy) else None);
             resolveBy = (if 0 < po_Resolve policy then Some (createdAt + po_Resolve policy) else None);
             sla = (\<lambda>state. \<lparr> sla_State = state, sla_RespondBy = respondBy, sla_ResolveBy = resolveBy \<rparr>)
         in case resolvedAt of
              Some r \<Rightarrow>
                sla (if case resolveBy of None \<Rightarrow> False | Some d \<Rightarrow> d < r then ''breached'' else ''met'')
            | None \<Rightarrow>
                if case respondBy of
                     None \<Rightarrow> False
                   | Some d \<Rightarrow> (case acknowledgedAt of None \<Rightarrow> d < now | Some a \<Rightarrow> d < a)
                then sla ''breached''
                else if case resolveBy of None \<Rightarrow> False | Some d \<Rightarrow> d < now
                then sla ''breached''
                else if acknowledgedAt = None \<and> at_risk createdAt now respondBy \<or> at_risk createdAt now resolveBy
                then sla ''at_risk''
                else sla ''on_track''))"

subsection \<open>The store\<close>

definition support_kinds :: "string list" where "support_kinds = [''incident'', ''request'']"
definition support_severities :: "string list" where
  "support_severities = [''low'', ''medium'', ''high'', ''critical'']"
definition support_statuses :: "string list" where
  "support_statuses = [''new'', ''acknowledged'', ''in_progress'', ''resolved'', ''closed'']"

definition find_record :: "string \<Rightarrow> Platform \<Rightarrow> SupportRecord option" where
  "find_record i pf = find (\<lambda>r. sp_ID r = i) (pf_support pf)"

definition blank_SLA :: SLA where
  "blank_SLA = \<lparr> sla_State = [], sla_RespondBy = None, sla_ResolveBy = None \<rparr>"

text \<open>INSERT INTO support_relations ... ON CONFLICT DO NOTHING, row by row.\<close>

fun insert_relations :: "down \<Rightarrow> string \<Rightarrow> Relation list \<Rightarrow> Platform \<Rightarrow> DBError + Platform" where
  "insert_relations down i [] pf = Ok pf"
| "insert_relations down i (rel # rels) pf =
     (if down ''relation_insert'' then Err (StoreFailure ''relation_insert'')
      else if rn_EntityType rel \<notin> set relationTypes then Err CheckViolation
      else insert_relations down i rels
        (if (i, rel) \<in> set (pf_support_relations pf) then pf
         else pf \<lparr> pf_support_relations := pf_support_relations pf @ [(i, rel)] \<rparr>))"

definition row_admissible :: "SupportRecord \<Rightarrow> bool" where
  "row_admissible r \<longleftrightarrow> sp_Kind r \<in> set support_kinds \<and> sp_Severity r \<in> set support_severities \<and>
     sp_Status r \<in> set support_statuses"

definition CreateSupportRecord ::
  "down \<Rightarrow> int \<Rightarrow> SupportRecord \<Rightarrow> Platform \<Rightarrow> (DBError + SupportRecord) \<times> Platform" where
  "CreateSupportRecord down now rec =
     transaction down (\<lambda>pf.
       let row = rec \<lparr> sp_Relations := [], sp_CreatedAt := now, sp_UpdatedAt := now,
                       sp_AcknowledgedAt := None, sp_ResolvedAt := None, sp_SLA := blank_SLA \<rparr>
       in if down ''support_insert'' then Err (StoreFailure ''support_insert'')
          else if \<not> row_admissible row then Err CheckViolation
          else if find_record (sp_ID row) pf \<noteq> None then Err UniqueViolation
          else bind_result (insert_relations down (sp_ID row) (sp_Relations rec)
                 (pf \<lparr> pf_support := pf_support pf @ [row] \<rparr>))
               (\<lambda>pf'. Ok (row \<lparr> sp_Relations := sp_Relations rec \<rparr>, pf')))"

record SupportUpdate =
  su_Title :: "string option"
  su_Summary :: "string option"
  su_Severity :: "string option"
  su_Status :: "string option"
  su_Acknowledge :: bool
  su_Resolve :: bool
  su_Relations :: "Relation list option"

definition coalesce :: "'a option \<Rightarrow> 'a \<Rightarrow> 'a" where
  "coalesce x d = (case x of None \<Rightarrow> d | Some v \<Rightarrow> v)"

definition updated_row :: "int \<Rightarrow> SupportUpdate \<Rightarrow> SupportRecord \<Rightarrow> SupportRecord" where
  "updated_row now u r = r
     \<lparr> sp_Title := coalesce (su_Title u) (sp_Title r),
       sp_Summary := coalesce (su_Summary u) (sp_Summary r),
       sp_Severity := coalesce (su_Severity u) (sp_Severity r),
       sp_Status := coalesce (su_Status u) (sp_Status r),
       sp_AcknowledgedAt := (if su_Acknowledge u \<and> sp_AcknowledgedAt r = None then Some now else sp_AcknowledgedAt r),
       sp_ResolvedAt := (if su_Resolve u \<and> sp_ResolvedAt r = None then Some now else sp_ResolvedAt r),
       sp_UpdatedAt := now \<rparr>"

definition relation_key :: "Relation \<Rightarrow> string \<times> string" where
  "relation_key rel = (rn_EntityType rel, rn_GlobalID rel)"

definition supportRelations :: "down \<Rightarrow> string \<Rightarrow> Platform \<Rightarrow> DBError + Relation list" where
  "supportRelations down i pf =
     statement down ''relation_select''
       (sort_key relation_key (map snd (filter (\<lambda>x. fst x = i) (pf_support_relations pf))))"

text \<open>The transaction of the update, and the read of the relations after its commit.\<close>

definition update_in_tx ::
  "down \<Rightarrow> int \<Rightarrow> string \<Rightarrow> SupportUpdate \<Rightarrow> Platform \<Rightarrow> (DBError + SupportRecord) \<times> Platform" where
  "update_in_tx down now i u =
     transaction down (\<lambda>pf.
       if down ''support_update'' then Err (StoreFailure ''support_update'')
       else case find_record i pf of
         None \<Rightarrow> Err ErrSupportRecordNotFound
       | Some r \<Rightarrow>
           (let r' = updated_row now u r;
                pf1 = pf \<lparr> pf_support := map (\<lambda>x. if sp_ID x = i then updated_row now u x else x) (pf_support pf) \<rparr>
            in if \<not> row_admissible r' then Err CheckViolation
               else case su_Relations u of
                 None \<Rightarrow> Ok (r', pf1)
               | Some rels \<Rightarrow>
                   if down ''relation_delete'' then Err (StoreFailure ''relation_delete'')
                   else bind_result (insert_relations down i rels
                          (pf1 \<lparr> pf_support_relations := filter (\<lambda>x. fst x \<noteq> i) (pf_support_relations pf1) \<rparr>))
                        (\<lambda>pf2. Ok (r', pf2))))"

definition UpdateSupportRecord ::
  "down \<Rightarrow> int \<Rightarrow> string \<Rightarrow> SupportUpdate \<Rightarrow> Platform \<Rightarrow> (DBError + SupportRecord) \<times> Platform" where
  "UpdateSupportRecord down now i u pf =
     (case update_in_tx down now i u pf of
        (Inl e, pf') \<Rightarrow> (Err e, pf')
      | (Inr r, pf') \<Rightarrow>
          (case supportRelations down i pf' of
             Inl e \<Rightarrow> (Err e, pf')
           | Inr rels \<Rightarrow> (Ok (r \<lparr> sp_Relations := rels \<rparr>), pf')))"

definition GetSupportRecord :: "down \<Rightarrow> string \<Rightarrow> Platform \<Rightarrow> DBError + SupportRecord" where
  "GetSupportRecord down i pf =
     bind_result (statement down ''support_get'' (find_record (TrimSpace i) pf))
       (\<lambda>r. case r of
          None \<Rightarrow> Err ErrSupportRecordNotFound
        | Some r \<Rightarrow> bind_result (supportRelations down (sp_ID r) pf) (\<lambda>rels. Ok (r \<lparr> sp_Relations := rels \<rparr>)))"

record SupportQuery =
  ql_Kind :: string
  ql_Status :: string
  ql_Severity :: string
  ql_ClientID :: string
  ql_OpenOnly :: bool
  ql_AfterID :: string
  ql_Limit :: int

definition record_matches :: "SupportQuery \<Rightarrow> SupportRecord \<Rightarrow> bool" where
  "record_matches q r \<longleftrightarrow>
     (ql_Kind q = [] \<or> sp_Kind r = ql_Kind q) \<and> (ql_Status q = [] \<or> sp_Status r = ql_Status q) \<and>
     (ql_Severity q = [] \<or> sp_Severity r = ql_Severity q) \<and>
     (ql_ClientID q = [] \<or> sp_ClientID r = ql_ClientID q) \<and> (\<not> ql_OpenOnly q \<or> IsOpen (sp_Status r))"

definition ListSupportRecords :: "down \<Rightarrow> SupportQuery \<Rightarrow> Platform \<Rightarrow> DBError + SupportRecord list \<times> int" where
  "ListSupportRecords down q pf =
     (if down ''support_count'' then Err (StoreFailure ''support_count'')
      else statement down ''support_list''
        (take (nat (ql_Limit q)) (sort_key sp_ID
           (filter (\<lambda>r. record_matches q r \<and> (ql_AfterID q = [] \<or> ql_AfterID q < sp_ID r)) (pf_support pf))),
         int (length (filter (record_matches q) (pf_support pf)))))"

definition minute :: int where "minute = 60000000000"

definition SLAPolicies :: "down \<Rightarrow> Platform \<Rightarrow> DBError + (string \<times> Policy) list" where
  "SLAPolicies down pf =
     statement down ''sla_policies''
       (map (\<lambda>(s, respond, resolve).
          (s, \<lparr> po_Respond = wrap64 (respond * minute), po_Resolve = wrap64 (resolve * minute) \<rparr>)) (pf_sla_policies pf))"

subsection \<open>Handlers: reading\<close>

definition support_unavailable :: "'b Reply" where
  "support_unavailable = reply_error 503 ''support store unavailable'' []"

definition supportScope :: "SupportRecord \<Rightarrow> string \<times> string" where
  "supportScope r = (if sp_ClientID r \<noteq> [] then (ScopeClient, sp_ClientID r) else (ScopeResource, sp_ID r))"

definition policy_for :: "(string \<times> Policy) list \<Rightarrow> string \<Rightarrow> Policy" where
  "policy_for policies severity = (case map_of policies severity of None \<Rightarrow> no_policy | Some p \<Rightarrow> p)"

definition with_SLA :: "(string \<times> Policy) list \<Rightarrow> int \<Rightarrow> SupportRecord \<Rightarrow> SupportRecord" where
  "with_SLA policies now r =
     r \<lparr> sp_SLA := sla_Evaluate (policy_for policies (sp_Severity r)) (sp_CreatedAt r)
                     (sp_AcknowledgedAt r) (sp_ResolvedAt r) now \<rparr>"

record SupportListing =
  lq_Limit :: string
  lq_ClientID :: string
  lq_Open :: string
  lq_Cursor :: string
  lq_Kind :: string
  lq_Status :: string
  lq_Severity :: string

text \<open>An optional filter: absent when blank, refused when its normalizer refuses it.\<close>

definition filter_param :: "(string \<Rightarrow> string option) \<Rightarrow> string \<Rightarrow> 'b Reply \<Rightarrow> 'b Reply + string" where
  "filter_param norm v0 refusal =
     (let v = TrimSpace v0
      in if v = [] then Inr [] else case norm v of None \<Rightarrow> Inl refusal | Some x \<Rightarrow> Inr x)"

definition listSupportRecords ::
  "down \<Rightarrow> int \<Rightarrow> SupportListing \<Rightarrow> Platform \<Rightarrow> SupportRecord collection Reply" where
  "listSupportRecords down now q pf =
     (let limit = ClampLimit (query_limit (lq_Limit q))
      in case filter_param NormalizeKind (lq_Kind q) (reply_error 400 ''unknown kind'' ''invalid_kind'') of
        Inl r \<Rightarrow> r
      | Inr kind \<Rightarrow>
          (case filter_param NormalizeStatus (lq_Status q) (reply_error 400 ''unknown status'' ''invalid_status'') of
             Inl r \<Rightarrow> r
           | Inr status \<Rightarrow>
               (case filter_param NormalizeSeverity (lq_Severity q)
                       (reply_error 400 ''unknown severity'' ''invalid_severity'') of
                  Inl r \<Rightarrow> r
                | Inr severity \<Rightarrow>
                    (case ListSupportRecords down
                        \<lparr> ql_Kind = kind, ql_Status = status, ql_Severity = severity,
                          ql_ClientID = TrimSpace (lq_ClientID q), ql_OpenOnly = query_true (lq_Open q),
                          ql_AfterID = TrimSpace (lq_Cursor q), ql_Limit = limit \<rparr> pf of
                       Inl _ \<Rightarrow> support_unavailable
                     | Inr (records, n) \<Rightarrow>
                         (case SLAPolicies down pf of
                            Inl _ \<Rightarrow> support_unavailable
                          | Inr policies \<Rightarrow>
                              writeCollection (map (with_SLA policies now) records) n
                                (if int (length records) = limit \<and> records \<noteq> [] then sp_ID (last records) else []))))))"

definition resolveSupportRecord ::
  "down \<Rightarrow> meResponse \<Rightarrow> string \<Rightarrow> string \<Rightarrow> Platform \<Rightarrow> 'b Reply + SupportRecord" where
  "resolveSupportRecord down access permission pathID pf =
     (let p = principal_of access
      in case may_look down (pf_db pf) p permission of
           Some refusal \<Rightarrow> Inl refusal
         | None \<Rightarrow>
             (case GetSupportRecord down pathID pf of
                Inl e \<Rightarrow> Inl (if e = ErrSupportRecordNotFound then notFound else support_unavailable)
              | Inr r \<Rightarrow>
                  (case may_reach down (pf_db pf) p permission (supportScope r) of
                     Some refusal \<Rightarrow> Inl refusal
                   | None \<Rightarrow> Inr r)))"

definition getSupportRecord ::
  "down \<Rightarrow> int \<Rightarrow> meResponse \<Rightarrow> string \<Rightarrow> Platform \<Rightarrow> SupportRecord Reply" where
  "getSupportRecord down now access pathID pf =
     (case resolveSupportRecord down access ''support.incident.read'' pathID pf of
        Inl refusal \<Rightarrow> refusal
      | Inr r \<Rightarrow>
          (case SLAPolicies down pf of
             Inl _ \<Rightarrow> support_unavailable
           | Inr policies \<Rightarrow> reply 200 (with_SLA policies now r)))"

subsection \<open>Handlers: writing\<close>

record supportRequest =
  sb_Kind :: string
  sb_Title :: string
  sb_Summary :: string
  sb_Severity :: string
  sb_ClientID :: string
  sb_Relations :: "Relation list"

record supportUpdateRequest =
  sw_Title :: "string option"
  sw_Summary :: "string option"
  sw_Severity :: "string option"
  sw_Status :: "string option"
  sw_Relations :: "Relation list option"

text \<open>
  The loop of verifyRelations; seen are the pairs met so far.  The list of types in the first message
  is in the order of a Go map iteration and is left out.
\<close>

fun verify_from :: "down \<Rightarrow> DB \<Rightarrow> Relation list \<Rightarrow> Relation list \<Rightarrow> 'b Reply + Relation list" where
  "verify_from down db seen [] = Inr []"
| "verify_from down db seen (rel # rels) =
     (let entityType = ToLower (TrimSpace (rn_EntityType rel)); globalID = TrimSpace (rn_GlobalID rel);
          v = \<lparr> rn_EntityType = entityType, rn_GlobalID = globalID \<rparr>
      in if \<not> IsRelationType entityType
         then Inl (reply_error 400 ''relations may only name '' ''invalid_relation'')
         else case ResolveGlobalEntity down globalID db of
           Inl _ \<Rightarrow> Inl (reply_error 400 (''a relation does not name a known '' @ entityType) ''invalid_relation'')
         | Inr e \<Rightarrow>
             if ge_EntityType e \<noteq> entityType
             then Inl (reply_error 400 (''a relation does not name a known '' @ entityType) ''invalid_relation'')
             else if v \<in> set seen then verify_from down db seen rels
             else (case verify_from down db (v # seen) rels of Inl r \<Rightarrow> Inl r | Inr vs \<Rightarrow> Inr (v # vs)))"

definition verifyRelations :: "down \<Rightarrow> DB \<Rightarrow> Relation list \<Rightarrow> 'b Reply + Relation list" where
  "verifyRelations down db rels = verify_from down db [] rels"

definition eventSeverityFor :: "string \<Rightarrow> string" where
  "eventSeverityFor severity =
     (if severity = ''critical'' then ''critical'' else if severity = ''high'' then ''error''
      else if severity = ''medium'' then ''warning'' else ''info'')"

definition support_envelope :: "HttpContext \<Rightarrow> SupportRecord \<Rightarrow> string \<Rightarrow> Envelope" where
  "support_envelope hx r event =
     \<lparr> en_EventID = [], en_Event = event, en_Source = ''bsystem-support'', en_ActorID = [],
       en_EntityID = sp_ID r, en_TenantID = sp_ClientID r, en_Severity = eventSeverityFor (sp_Severity r),
       en_OccurredAt = Some (sp_UpdatedAt r), en_RequestID = hx_RequestID hx,
       en_Data = [(''message'', sp_Title r), (''status'', sp_Status r), (''kind'', sp_Kind r)] \<rparr>"

definition publishSupportEvent ::
  "down \<Rightarrow> HttpContext \<Rightarrow> SupportRecord \<Rightarrow> string \<Rightarrow> Platform \<Rightarrow> Platform" where
  "publishSupportEvent down hx r event pf =
     notifyFromEvent down
       \<lparr> se_Event = event, se_Source = ''bsystem-support'', se_Severity = eventSeverityFor (sp_Severity r),
         se_EntityID = sp_ID r, se_TenantID = sp_ClientID r, se_CorrelationID = hx_RequestID hx,
         se_OccurredAt = sp_UpdatedAt r, se_Body = sp_Title r \<rparr>
       (publish down (Subject event) (support_envelope hx r event) pf)"

text \<open>strconv.FormatInt in base 36.\<close>

definition digit36 :: "nat \<Rightarrow> char" where
  "digit36 d = (if d < 10 then char_of (48 + d) else char_of (87 + d))"

fun format36 :: "nat \<Rightarrow> string" where
  "format36 n = (if n < 36 then [digit36 n] else format36 (n div 36) @ [digit36 (n mod 36)])"

declare format36.simps [simp del]

definition newSupportSourceID :: "int \<Rightarrow> string" where
  "newSupportSourceID now = ''support-'' @ (if now < 0 then CHR ''-'' # format36 (nat (- now)) else format36 (nat now))"

text \<open>A failed policy lookup after a write is ignored: the state is then unset.\<close>

definition policies_or_none :: "down \<Rightarrow> Platform \<Rightarrow> (string \<times> Policy) list" where
  "policies_or_none down pf = (case SLAPolicies down pf of Inl _ \<Rightarrow> [] | Inr ps \<Rightarrow> ps)"

definition createSupportRecord ::
  "down \<Rightarrow> HttpContext \<Rightarrow> RequestContext \<Rightarrow> (DB \<Rightarrow> DB) \<Rightarrow> meResponse \<Rightarrow> supportRequest option \<Rightarrow> Platform
   \<Rightarrow> SupportRecord Reply \<times> Platform" where
  "createSupportRecord down hx rx others access body pf =
     (case body of
        None \<Rightarrow> (reply_error 400 ''invalid JSON body'' [], pf)
      | Some q \<Rightarrow>
          (let title = TrimSpace (sb_Title q)
           in if title = [] then (reply_error 400 ''title is required'' [], pf)
              else case NormalizeKind (sb_Kind q) of
                None \<Rightarrow> (reply_error 400 ''unknown kind'' ''invalid_kind'', pf)
              | Some kind \<Rightarrow>
                  (case NormalizeSeverity (sb_Severity q) of
                     None \<Rightarrow> (reply_error 400 ''severity must be one of low, medium, high, critical''
                               ''invalid_severity'', pf)
                   | Some severity \<Rightarrow>
                       (case resolveRelation down (pf_db pf) (sb_ClientID q) ''client'' ''client_id'' of
                          Inl refusal \<Rightarrow> (refusal, pf)
                        | Inr clientID \<Rightarrow>
                            (case verifyRelations down (pf_db pf) (sb_Relations q) of
                               Inl refusal \<Rightarrow> (refusal, pf)
                             | Inr relations \<Rightarrow>
                                 (case CreateGlobalEntity down rx others ''incident'' ''bsystem''
                                         (newSupportSourceID (hx_Now hx)) clientID [(''managed_by'', ''support'')] (pf_db pf) of
                                    (Inl _, db') \<Rightarrow> (support_unavailable, pf \<lparr> pf_db := db' \<rparr>)
                                  | (Inr entity, db') \<Rightarrow>
                                      (case CreateSupportRecord down (hx_Now hx)
                                          \<lparr> sp_ID = ge_GlobalID entity, sp_Kind = kind, sp_Title = title,
                                            sp_Summary = TrimSpace (sb_Summary q), sp_Severity = severity,
                                            sp_Status = ''new'', sp_ClientID = clientID, sp_Relations = relations,
                                            sp_ReportedBy = me_ID access, sp_CreatedAt = 0, sp_UpdatedAt = 0,
                                            sp_AcknowledgedAt = None, sp_ResolvedAt = None, sp_SLA = blank_SLA \<rparr>
                                          (pf \<lparr> pf_db := db' \<rparr>) of
                                         (Inl _, pf') \<Rightarrow> (support_unavailable, pf')
                                       | (Inr r, pf') \<Rightarrow>
                                           (reply 201 (with_SLA (policies_or_none down pf') (hx_Now hx) r),
                                            publishSupportEvent down hx r ''incident.created''
                                              (audit_pf down hx access ''incident.created'' ''incident'' (sp_ID r)
                                                 [(''kind'', sp_Kind r), (''severity'', sp_Severity r)] pf')))))))))"

text \<open>
  The update the handler derives from the body and the record it read; Inl is the refusal written.
  The title, the summary, the severity, the status with its transition, then the relations.
\<close>

definition update_status :: "SupportRecord \<Rightarrow> string option \<Rightarrow> 'b Reply + string option" where
  "update_status existing v =
     (case v of
        None \<Rightarrow> Inr None
      | Some s0 \<Rightarrow>
          (case NormalizeStatus s0 of
             None \<Rightarrow> Inl (reply_error 400 ''unknown status'' ''invalid_status'')
           | Some s \<Rightarrow>
               if CanTransition (sp_Status existing) s \<noteq> None
               then Inl (reply_error 409 (sp_Status existing @ '' cannot become '' @ s) ''invalid_transition'')
               else Inr (Some s)))"

definition derive_update ::
  "down \<Rightarrow> DB \<Rightarrow> SupportRecord \<Rightarrow> supportUpdateRequest \<Rightarrow> 'b Reply + SupportUpdate" where
  "derive_update down db existing q =
     (if (case sw_Title q of None \<Rightarrow> False | Some t \<Rightarrow> TrimSpace t = [])
      then Inl (reply_error 400 ''title cannot be cleared'' [])
      else if (case sw_Severity q of None \<Rightarrow> False | Some v \<Rightarrow> NormalizeSeverity v = None)
      then Inl (reply_error 400 ''unknown severity'' ''invalid_severity'')
      else bind_result (update_status existing (sw_Status q)) (\<lambda>status.
        bind_result
          (case sw_Relations q of None \<Rightarrow> Inr None
           | Some rels \<Rightarrow> bind_result (verifyRelations down db rels) (\<lambda>vs. Inr (Some vs))) (\<lambda>relations.
        Inr \<lparr> su_Title = map_option TrimSpace (sw_Title q), su_Summary = map_option TrimSpace (sw_Summary q),
              su_Severity = Option.bind (sw_Severity q) NormalizeSeverity, su_Status = status,
              su_Acknowledge = (case status of None \<Rightarrow> False | Some s \<Rightarrow> s \<noteq> ''new''),
              su_Resolve = (case status of None \<Rightarrow> False | Some s \<Rightarrow> s = ''resolved'' \<or> s = ''closed''),
              su_Relations = relations \<rparr>)))"

definition updateSupportRecord ::
  "down \<Rightarrow> HttpContext \<Rightarrow> (Platform \<Rightarrow> Platform) \<Rightarrow> meResponse \<Rightarrow> string \<Rightarrow> supportUpdateRequest option \<Rightarrow> Platform
   \<Rightarrow> SupportRecord Reply \<times> Platform" where
  "updateSupportRecord down hx others access pathID body pf =
     (case resolveSupportRecord down access ''support.incident.write'' pathID pf of
        Inl refusal \<Rightarrow> (refusal, pf)
      | Inr existing \<Rightarrow>
          (case body of
             None \<Rightarrow> (reply_error 400 ''invalid JSON body'' [], pf)
           | Some q \<Rightarrow>
               (case derive_update down (pf_db pf) existing q of
                  Inl refusal \<Rightarrow> (refusal, pf)
                | Inr u \<Rightarrow>
                    (case UpdateSupportRecord down (hx_Now hx) (sp_ID existing) u (others pf) of
                       (Inl e, pf') \<Rightarrow>
                         (if e = ErrSupportRecordNotFound then notFound else support_unavailable, pf')
                     | (Inr r, pf') \<Rightarrow>
                         (let newStatus = coalesce (su_Status u) (sp_Status existing);
                              event = (if newStatus = ''resolved'' \<and> sp_Status existing \<noteq> ''resolved''
                                       then ''incident.resolved'' else ''incident.updated'')
                          in (reply 200 (with_SLA (policies_or_none down pf') (hx_Now hx) r),
                              publishSupportEvent down hx r event
                                (audit_pf down hx access ''incident.updated'' ''incident'' (sp_ID r)
                                   [(''status'', sp_Status r), (''severity'', sp_Severity r)] pf')))))))"

subsection \<open>Lemmas\<close>

lemma insert_relations_support:
  "insert_relations down i rels pf = Ok pf' \<Longrightarrow> pf_support pf' = pf_support pf \<and> pf_db pf' = pf_db pf"
  by (induction rels arbitrary: pf) (auto split: if_splits)

lemma insert_relations_set:
  "insert_relations down i rels pf = Ok pf' \<Longrightarrow>
     set (pf_support_relations pf') = set (pf_support_relations pf) \<union> Pair i ` set rels"
  by (induction rels arbitrary: pf) (auto split: if_splits)

lemma find_record_None: "find_record i pf = None \<longleftrightarrow> i \<notin> sp_ID ` set (pf_support pf)"
  by (auto simp: find_record_def find_None_iff)

lemma find_record_Some: "find_record i pf = Some r \<Longrightarrow> r \<in> set (pf_support pf) \<and> sp_ID r = i"
  by (auto simp: find_record_def find_Some_iff)

lemma find_record_unique:
  assumes "distinct (map sp_ID (pf_support pf))" "r \<in> set (pf_support pf)"
  shows "find_record (sp_ID r) pf = Some r"
proof (cases "find_record (sp_ID r) pf")
  case None
  then show ?thesis using assms(2) by (auto simp: find_record_None)
next
  case (Some r')
  then have "r' \<in> set (pf_support pf)" "sp_ID r' = sp_ID r" using find_record_Some by blast+
  then have "r' = r" using assms by (simp add: distinct_map inj_on_def)
  then show ?thesis using Some by simp
qed

lemma CreateSupportRecord_ok:
  assumes "CreateSupportRecord down now rec pf = (Ok r, pf')"
  shows "\<exists>row. r = row \<lparr> sp_Relations := sp_Relations rec \<rparr> \<and>
    row = rec \<lparr> sp_Relations := [], sp_CreatedAt := now, sp_UpdatedAt := now,
                sp_AcknowledgedAt := None, sp_ResolvedAt := None, sp_SLA := blank_SLA \<rparr> \<and>
    row_admissible row \<and> sp_ID row \<notin> sp_ID ` set (pf_support pf) \<and>
    pf_support pf' = pf_support pf @ [row] \<and> pf_db pf' = pf_db pf \<and>
    set (pf_support_relations pf') = set (pf_support_relations pf) \<union> Pair (sp_ID row) ` set (sp_Relations rec)"
proof -
  let ?row = "rec \<lparr> sp_Relations := [], sp_CreatedAt := now, sp_UpdatedAt := now,
                sp_AcknowledgedAt := None, sp_ResolvedAt := None, sp_SLA := blank_SLA \<rparr>"
  obtain pf1 where i: "insert_relations down (sp_ID ?row) (sp_Relations rec) (pf \<lparr> pf_support := pf_support pf @ [?row] \<rparr>) = Ok pf1"
    and e: "pf' = pf1" "r = ?row \<lparr> sp_Relations := sp_Relations rec \<rparr>" "row_admissible ?row"
      "find_record (sp_ID ?row) pf = None"
    using assms unfolding CreateSupportRecord_def transaction_ok Let_def
    by (auto split: if_splits elim!: bind_result_OkE)
  show ?thesis using insert_relations_support [OF i] insert_relations_set [OF i] e
    by (intro exI [of _ ?row]) (simp add: find_record_None)
qed

lemma CreateSupportRecord_error: "CreateSupportRecord down now rec pf = (Err e, pf') \<Longrightarrow> pf' = pf"
  unfolding CreateSupportRecord_def by (rule transaction_error)

lemma update_in_tx_ok:
  assumes "update_in_tx down now i u pf = (Ok r, pf')"
  shows "\<exists>x. find_record i pf = Some x \<and> r = updated_row now u x \<and> row_admissible r \<and> pf_db pf' = pf_db pf \<and>
    pf_support pf' = map (\<lambda>x. if sp_ID x = i then updated_row now u x else x) (pf_support pf)"
proof -
  from assms have b: "(case find_record i pf of
         None \<Rightarrow> Err ErrSupportRecordNotFound
       | Some r \<Rightarrow>
           (let r' = updated_row now u r;
                pf1 = pf \<lparr> pf_support := map (\<lambda>x. if sp_ID x = i then updated_row now u x else x) (pf_support pf) \<rparr>
            in if \<not> row_admissible r' then Err CheckViolation
               else case su_Relations u of
                 None \<Rightarrow> Ok (r', pf1)
               | Some rels \<Rightarrow>
                   if down ''relation_delete'' then Err (StoreFailure ''relation_delete'')
                   else bind_result (insert_relations down i rels
                          (pf1 \<lparr> pf_support_relations := filter (\<lambda>x. fst x \<noteq> i) (pf_support_relations pf1) \<rparr>))
                        (\<lambda>pf2. Ok (r', pf2)))) = Ok (r, pf')"
    unfolding update_in_tx_def transaction_ok by (simp split: if_splits)
  then obtain x where x: "find_record i pf = Some x" by (cases "find_record i pf") auto
  show ?thesis using b
    by (auto simp: x Let_def split: if_splits option.splits elim!: bind_result_OkE dest: insert_relations_support)
qed

lemma update_in_tx_error: "update_in_tx down now i u pf = (Err e, pf') \<Longrightarrow> pf' = pf"
  unfolding update_in_tx_def by (rule transaction_error)

text \<open>What an update request leaves of the table, whatever it answers.\<close>

lemma UpdateSupportRecord_cases:
  assumes "UpdateSupportRecord down now i u pf = (res, pf')"
  shows "pf' = pf \<and> (\<exists>e. res = Err e) \<or>
    (\<exists>x r. find_record i pf = Some x \<and> r = updated_row now u x \<and> row_admissible r \<and> pf_db pf' = pf_db pf \<and>
      pf_support pf' = map (\<lambda>x. if sp_ID x = i then updated_row now u x else x) (pf_support pf) \<and>
      ((\<exists>e. res = Err e) \<or> (\<exists>rels. res = Ok (r \<lparr> sp_Relations := rels \<rparr>))))"
proof (cases "update_in_tx down now i u pf")
  case (Pair a pf1)
  then show ?thesis
  proof (cases a)
    case (Inl e)
    then have "update_in_tx down now i u pf = (Err e, pf1)" using Pair by simp
    then have "pf' = pf \<and> res = Err e" using assms update_in_tx_error [of down now i u pf e pf1]
      by (simp add: UpdateSupportRecord_def)
    then show ?thesis by blast
  next
    case (Inr r)
    have t: "update_in_tx down now i u pf = (Ok r, pf1)" using Pair Inr by simp
    have "pf' = pf1" "(\<exists>e. res = Err e) \<or> (\<exists>rels. res = Ok (r \<lparr> sp_Relations := rels \<rparr>))"
      using assms by (auto simp: UpdateSupportRecord_def t split: sum.splits)
    then show ?thesis using update_in_tx_ok [OF t] by blast
  qed
qed

lemma derive_update_ok:
  assumes "derive_update down db existing q = Inr u"
  shows "(\<forall>s. su_Status u = Some s \<longrightarrow> CanTransition (sp_Status existing) s = None \<and> Option.bind (sw_Status q) NormalizeStatus = Some s) \<and>
    (su_Status u = None \<longleftrightarrow> sw_Status q = None) \<and>
    su_Acknowledge u = (case su_Status u of None \<Rightarrow> False | Some s \<Rightarrow> s \<noteq> ''new'') \<and>
    su_Resolve u = (case su_Status u of None \<Rightarrow> False | Some s \<Rightarrow> s = ''resolved'' \<or> s = ''closed'')"
proof -
  from assms obtain st rels where st: "update_status existing (sw_Status q) = (Inr st :: 'a Reply + string option)"
    and u: "u = \<lparr> su_Title = map_option TrimSpace (sw_Title q), su_Summary = map_option TrimSpace (sw_Summary q),
              su_Severity = Option.bind (sw_Severity q) NormalizeSeverity, su_Status = st,
              su_Acknowledge = (case st of None \<Rightarrow> False | Some s \<Rightarrow> s \<noteq> ''new''),
              su_Resolve = (case st of None \<Rightarrow> False | Some s \<Rightarrow> s = ''resolved'' \<or> s = ''closed''),
              su_Relations = rels \<rparr>"
    unfolding derive_update_def by (auto split: if_splits elim!: bind_result_OkE)
  have "(\<forall>s. st = Some s \<longrightarrow> CanTransition (sp_Status existing) s = None \<and> Option.bind (sw_Status q) NormalizeStatus = Some s) \<and>
    (st = None \<longleftrightarrow> sw_Status q = None)"
  proof (cases "sw_Status q")
    case (Some v)
    obtain s where s: "NormalizeStatus v = Some s"
      using st Some by (cases "NormalizeStatus v") (simp_all add: update_status_def)
    then have "st = Some s" "CanTransition (sp_Status existing) s = None"
      using st Some by (simp_all add: update_status_def split: if_splits)
    then show ?thesis using s Some by simp
  qed (use st in \<open>simp add: update_status_def\<close>)
  then show ?thesis by (simp add: u)
qed

lemma resolveSupportRecord_ok:
  assumes "resolveSupportRecord down access perm i pf = Inr r"
  shows "\<exists>x rels. find_record (TrimSpace i) pf = Some x \<and> r = x \<lparr> sp_Relations := rels \<rparr>"
  using assms
  by (auto simp: resolveSupportRecord_def GetSupportRecord_def bind_result_def statement_def supportRelations_def
      Let_def split: option.splits sum.splits if_splits)

subsection \<open>The life of a record\<close>

definition can_become :: "string \<Rightarrow> string \<Rightarrow> bool" where
  "can_become s t \<longleftrightarrow> CanTransition s t = None"

lemma closed_terminal: "can_become\<^sup>*\<^sup>* ''closed'' t \<Longrightarrow> t = ''closed''"
  by (induction rule: rtranclp_induct) (auto simp: can_become_def CanTransition_def sp_transitions_def split: if_splits)

text \<open>What one request may change of a stored record, and what a stored record satisfies.\<close>

definition evolves :: "SupportRecord \<Rightarrow> SupportRecord \<Rightarrow> bool" where
  "evolves r r' \<longleftrightarrow> sp_ID r' = sp_ID r \<and> sp_Kind r' = sp_Kind r \<and> sp_ClientID r' = sp_ClientID r \<and>
     sp_ReportedBy r' = sp_ReportedBy r \<and> sp_CreatedAt r' = sp_CreatedAt r \<and>
     can_become\<^sup>*\<^sup>* (sp_Status r) (sp_Status r') \<and>
     (sp_AcknowledgedAt r \<noteq> None \<longrightarrow> sp_AcknowledgedAt r' = sp_AcknowledgedAt r) \<and>
     (sp_ResolvedAt r \<noteq> None \<longrightarrow> sp_ResolvedAt r' = sp_ResolvedAt r)"

definition record_ok :: "SupportRecord \<Rightarrow> bool" where
  "record_ok r \<longleftrightarrow> row_admissible r \<and> (sp_Status r \<noteq> ''new'' \<longrightarrow> sp_AcknowledgedAt r \<noteq> None) \<and>
     (\<not> IsOpen (sp_Status r) \<longrightarrow> sp_ResolvedAt r \<noteq> None)"

definition support_ok :: "Platform \<Rightarrow> bool" where
  "support_ok pf \<longleftrightarrow> distinct (map sp_ID (pf_support pf)) \<and> (\<forall>r \<in> set (pf_support pf). record_ok r)"

lemma evolves_refl [simp]: "evolves r r"
  by (simp add: evolves_def)

lemma evolves_trans: "evolves r s \<Longrightarrow> evolves s t \<Longrightarrow> evolves r t"
  by (auto simp: evolves_def)

lemma updated_row_evolves:
  assumes "su_Status u = None \<or> (\<exists>s. su_Status u = Some s \<and> can_become (sp_Status r) s)"
  shows "evolves r (updated_row now u r)"
  using assms by (auto simp: evolves_def updated_row_def coalesce_def)

lemma updated_row_ok:
  assumes "record_ok r" "row_admissible (updated_row now u r)"
    and "su_Acknowledge u = (case su_Status u of None \<Rightarrow> False | Some s \<Rightarrow> s \<noteq> ''new'')"
    and "su_Resolve u = (case su_Status u of None \<Rightarrow> False | Some s \<Rightarrow> s = ''resolved'' \<or> s = ''closed'')"
  shows "record_ok (updated_row now u r)"
  using assms
  by (cases "su_Status u") (auto simp: record_ok_def updated_row_def coalesce_def IsOpen_def)

definition grows_to :: "Platform \<Rightarrow> Platform \<Rightarrow> bool" where
  "grows_to pf pf' \<longleftrightarrow> (\<forall>r \<in> set (pf_support pf). \<exists>r' \<in> set (pf_support pf'). evolves r r')"

lemma grows_to_refl: "pf_support pf' = pf_support pf \<Longrightarrow> grows_to pf pf'"
  unfolding grows_to_def using evolves_refl by metis

lemma grows_to_trans: "grows_to pf pf1 \<Longrightarrow> grows_to pf1 pf2 \<Longrightarrow> grows_to pf pf2"
  unfolding grows_to_def using evolves_trans by meson

lemma publishSupportEvent_frame [simp]:
  "pf_support (publishSupportEvent down hx r e pf) = pf_support pf"
  "pf_support_relations (publishSupportEvent down hx r e pf) = pf_support_relations pf"
  "pf_db (publishSupportEvent down hx r e pf) = pf_db pf"
  by (simp_all add: publishSupportEvent_def)

lemma verify_refusal: "verify_from down db seen rels = Inl r \<Longrightarrow> rp_Status r = 400"
  by (induction rels arbitrary: seen) (auto simp: Let_def split: if_splits sum.splits)

text \<open>The update handler on the table: nothing, or the row of the record it read.\<close>

lemma updateSupportRecord_cases:
  assumes "updateSupportRecord down hx others access i body pf = (rp, pf')"
  shows "pf_support pf' = pf_support pf \<and> rp_Status rp \<noteq> 200 \<or>
    (pf_support pf' = pf_support (others pf) \<and> rp_Status rp \<noteq> 200) \<or>
    (\<exists>q old rels u x. body = Some q \<and> find_record (TrimSpace i) pf = Some old \<and>
       derive_update down (pf_db pf) (old \<lparr> sp_Relations := rels \<rparr>) q = (Inr u :: SupportRecord Reply + SupportUpdate) \<and>
       find_record (TrimSpace i) (others pf) = Some x \<and> row_admissible (updated_row (hx_Now hx) u x) \<and>
       pf_support pf' = map (\<lambda>x. if sp_ID x = TrimSpace i then updated_row (hx_Now hx) u x else x) (pf_support (others pf)))"
proof (cases "resolveSupportRecord down access ''support.incident.write'' i pf :: SupportRecord Reply + SupportRecord")
  case (Inl refusal)
  have "rp_Status refusal \<noteq> 200"
    using Inl by (auto simp: resolveSupportRecord_def may_look_def authorizeResource_def may_reach_def Let_def
        notFound_def support_unavailable_def authz_unavailable_def writeDenied_def
        split: option.splits sum.splits if_splits)
  then show ?thesis using assms Inl by (simp add: updateSupportRecord_def)
next
  case (Inr existing)
  obtain old rels where old: "find_record (TrimSpace i) pf = Some old" "existing = old \<lparr> sp_Relations := rels \<rparr>"
    using resolveSupportRecord_ok [OF Inr] by blast
  have id: "sp_ID existing = TrimSpace i" using find_record_Some [OF old(1)] old(2) by simp
  show ?thesis
  proof (cases body)
    case None
    then show ?thesis using assms Inr by (auto simp: updateSupportRecord_def)
  next
    case (Some q)
    show ?thesis
    proof (cases "derive_update down (pf_db pf) existing q :: SupportRecord Reply + SupportUpdate")
      case (Inl refusal)
      have "rp_Status refusal \<noteq> 200"
        using Inl by (auto simp: derive_update_def update_status_def bind_result_def verifyRelations_def
            split: option.splits if_splits sum.splits dest: verify_refusal)
      then show ?thesis using assms Inr Some Inl by (auto simp: updateSupportRecord_def)
    next
      case der: (Inr u)
      obtain res pf1 where up: "UpdateSupportRecord down (hx_Now hx) (TrimSpace i) u (others pf) = (res, pf1)"
        by (cases "UpdateSupportRecord down (hx_Now hx) (TrimSpace i) u (others pf)")
      have fin: "pf_support pf' = pf_support pf1 \<and> (rp_Status rp = 200 \<longrightarrow> (\<exists>r. res = Ok r))"
        using assms by (cases res)
          (auto simp: updateSupportRecord_def Inr Some der id up notFound_def support_unavailable_def Let_def split: if_splits)
      from UpdateSupportRecord_cases [OF up] show ?thesis
        using fin Some old der by (elim disjE) auto
    qed
  qed
qed

lemma createSupportRecord_cases:
  assumes "createSupportRecord down hx rx others access body pf = (rp, pf')"
  shows "pf_support pf' = pf_support pf \<and> rp_Status rp \<noteq> 201 \<or>
    (\<exists>q kind severity clientID relations entity db' rec r pf1.
       body = Some q \<and> TrimSpace (sb_Title q) \<noteq> [] \<and> NormalizeKind (sb_Kind q) = Some kind \<and>
       NormalizeSeverity (sb_Severity q) = Some severity \<and>
       resolveRelation down (pf_db pf) (sb_ClientID q) ''client'' ''client_id'' = (Inr clientID :: SupportRecord Reply + string) \<and>
       verifyRelations down (pf_db pf) (sb_Relations q) = (Inr relations :: SupportRecord Reply + Relation list) \<and>
       CreateGlobalEntity down rx others ''incident'' ''bsystem'' (newSupportSourceID (hx_Now hx)) clientID
         [(''managed_by'', ''support'')] (pf_db pf) = (Ok entity, db') \<and>
       rec = \<lparr> sp_ID = ge_GlobalID entity, sp_Kind = kind, sp_Title = TrimSpace (sb_Title q),
               sp_Summary = TrimSpace (sb_Summary q), sp_Severity = severity, sp_Status = ''new'',
               sp_ClientID = clientID, sp_Relations = relations, sp_ReportedBy = me_ID access,
               sp_CreatedAt = 0, sp_UpdatedAt = 0, sp_AcknowledgedAt = None, sp_ResolvedAt = None, sp_SLA = blank_SLA \<rparr> \<and>
       CreateSupportRecord down (hx_Now hx) rec (pf \<lparr> pf_db := db' \<rparr>) = (Ok r, pf1) \<and>
       rp = reply 201 (with_SLA (policies_or_none down pf1) (hx_Now hx) r) \<and>
       pf' = publishSupportEvent down hx r ''incident.created''
         (audit_pf down hx access ''incident.created'' ''incident'' (sp_ID r)
            [(''kind'', sp_Kind r), (''severity'', sp_Severity r)] pf1))"
proof (cases body)
  case None
  then show ?thesis using assms by (auto simp: createSupportRecord_def)
next
  case (Some q)
  show ?thesis
  proof (cases "TrimSpace (sb_Title q) = [] \<or> NormalizeKind (sb_Kind q) = None \<or> NormalizeSeverity (sb_Severity q) = None")
    case True
    then show ?thesis using assms Some by (auto simp: createSupportRecord_def Let_def split: option.splits if_splits)
  next
    case False
    then obtain kind severity where t: "TrimSpace (sb_Title q) \<noteq> []" "NormalizeKind (sb_Kind q) = Some kind"
      "NormalizeSeverity (sb_Severity q) = Some severity" by auto
    note start = assms [unfolded createSupportRecord_def Some option.case Let_def t if_False]
    show ?thesis
    proof (cases "resolveRelation down (pf_db pf) (sb_ClientID q) ''client'' ''client_id'' :: SupportRecord Reply + string")
      case (Inl refusal)
      then have "rp_Status refusal = 400"
        by (auto simp: resolveRelation_def Let_def split: if_splits sum.splits)
      then show ?thesis using start Inl t(1) by auto
    next
      case rel: (Inr clientID)
      show ?thesis
      proof (cases "verifyRelations down (pf_db pf) (sb_Relations q) :: SupportRecord Reply + Relation list")
        case (Inl refusal)
        then have "rp_Status refusal = 400" unfolding verifyRelations_def by (rule verify_refusal)
        then show ?thesis using start Inl rel t(1) by auto
      next
        case ver: (Inr relations)
        obtain ent db' where c: "CreateGlobalEntity down rx others ''incident'' ''bsystem'' (newSupportSourceID (hx_Now hx))
            clientID [(''managed_by'', ''support'')] (pf_db pf) = (ent, db')" by (metis surj_pair)
        show ?thesis
        proof (cases ent)
          case (Inl e)
          then show ?thesis using start rel ver c t(1) by (auto simp: support_unavailable_def)
        next
          case (Inr entity)
          define rec where "rec = \<lparr> sp_ID = ge_GlobalID entity, sp_Kind = kind, sp_Title = TrimSpace (sb_Title q),
               sp_Summary = TrimSpace (sb_Summary q), sp_Severity = severity, sp_Status = ''new'',
               sp_ClientID = clientID, sp_Relations = relations, sp_ReportedBy = me_ID access,
               sp_CreatedAt = 0, sp_UpdatedAt = 0, sp_AcknowledgedAt = None, sp_ResolvedAt = None, sp_SLA = blank_SLA \<rparr>"
          obtain res pf1 where st: "CreateSupportRecord down (hx_Now hx) rec (pf \<lparr> pf_db := db' \<rparr>) = (res, pf1)"
            by (metis surj_pair)
          have whole: "(rp, pf') = (case res of Inl _ \<Rightarrow> (support_unavailable, pf1)
            | Inr r \<Rightarrow> (reply 201 (with_SLA (policies_or_none down pf1) (hx_Now hx) r),
                publishSupportEvent down hx r ''incident.created''
                  (audit_pf down hx access ''incident.created'' ''incident'' (sp_ID r)
                    [(''kind'', sp_Kind r), (''severity'', sp_Severity r)] pf1)))"
            using start t(1) unfolding rel ver c Inr sum.case prod.case rec_def [symmetric] st by simp
          show ?thesis
          proof (cases res)
            case (Inl e)
            then have "pf1 = pf \<lparr> pf_db := db' \<rparr>" using CreateSupportRecord_error st by blast
            then show ?thesis using whole Inl by (simp add: support_unavailable_def)
          next
            case r: (Inr r)
            show ?thesis
              apply (rule disjI2)
              apply (intro exI conjI)
                        apply (rule Some)
                       apply (rule t(1))
                      apply (rule t(2))
                     apply (rule t(3))
                    apply (rule rel)
                   apply (rule ver)
                  apply (rule c [unfolded Inr])
                 apply (rule rec_def)
                apply (rule st [unfolded r])
              using whole unfolding r sum.case by blast+
          qed
        qed
      qed
    qed
  qed
qed

text \<open>Requests that write support records, one after another, with any faults.\<close>

inductive support_calls :: "Platform \<Rightarrow> Platform \<Rightarrow> bool" where
  none: "support_calls pf pf"
| created: "\<lbrakk>support_calls pf pf1; createSupportRecord down hx rx others access body pf1 = (r, pf2)\<rbrakk> \<Longrightarrow> support_calls pf pf2"
| updated: "\<lbrakk>support_calls pf pf1; updateSupportRecord down hx id access i ubody pf1 = (r, pf2)\<rbrakk> \<Longrightarrow> support_calls pf pf2"

lemma created_step:
  assumes "createSupportRecord down hx rx others access body pf = (rp, pf')" "support_ok pf"
  shows "support_ok pf' \<and> grows_to pf pf'"
proof -
  consider "pf_support pf' = pf_support pf"
    | row where "pf_support pf' = pf_support pf @ [row]" "row_admissible row" "sp_ID row \<notin> sp_ID ` set (pf_support pf)"
      "sp_Status row = ''new''"
  proof (cases "pf_support pf' = pf_support pf")
    case True
    then show ?thesis by (rule that(1))
  next
    case False
    then obtain rec db' r pf1 where c: "CreateSupportRecord down (hx_Now hx) rec (pf \<lparr> pf_db := db' \<rparr>) = (Ok r, pf1)"
      "pf_support pf' = pf_support pf1" "sp_Status rec = ''new''"
      using createSupportRecord_cases [OF assms(1)] by auto
    from CreateSupportRecord_ok [OF c(1)] c(2,3) that(2) show ?thesis by auto
  qed
  then show ?thesis
  proof cases
    case 1
    then show ?thesis using assms(2) grows_to_refl [of pf' pf] by (simp add: support_ok_def)
  next
    case (2 row)
    have "record_ok row" using 2 by (simp add: record_ok_def IsOpen_def)
    then have "support_ok pf'" using 2 assms(2) by (simp add: support_ok_def)
    moreover have "grows_to pf pf'" unfolding grows_to_def 2(1) using evolves_refl by fastforce
    ultimately show ?thesis by blast
  qed
qed

text \<open>An update of the row that was read, by a request that met no other.\<close>

lemma updated_step:
  assumes "updateSupportRecord down hx id access i body pf = (rp, pf')" "support_ok pf"
  shows "support_ok pf' \<and> grows_to pf pf'"
proof -
  have "pf_support pf' = pf_support pf \<or> (\<exists>q old rels u.
      find_record (TrimSpace i) pf = Some old \<and>
      derive_update down (pf_db pf) (old \<lparr> sp_Relations := rels \<rparr>) q = (Inr u :: SupportRecord Reply + SupportUpdate) \<and>
      row_admissible (updated_row (hx_Now hx) u old) \<and>
      pf_support pf' = map (\<lambda>x. if sp_ID x = TrimSpace i then updated_row (hx_Now hx) u x else x) (pf_support pf))"
    using updateSupportRecord_cases [OF assms(1)] unfolding id_apply
  proof (elim disjE exE conjE)
    fix q old rels u x
    assume c: "find_record (TrimSpace i) pf = Some old" "find_record (TrimSpace i) pf = Some x"
      "derive_update down (pf_db pf) (old \<lparr> sp_Relations := rels \<rparr>) q = (Inr u :: SupportRecord Reply + SupportUpdate)"
      "row_admissible (updated_row (hx_Now hx) u x)"
      "pf_support pf' = map (\<lambda>x. if sp_ID x = TrimSpace i then updated_row (hx_Now hx) u x else x) (pf_support pf)"
    then have "x = old" by simp
    then show ?thesis using c by blast
  qed blast+
  then show ?thesis
  proof (elim disjE exE conjE)
    assume "pf_support pf' = pf_support pf"
    then show ?thesis using assms(2) grows_to_refl [of pf' pf] by (simp add: support_ok_def)
  next
    fix q old rels u
    assume o: "find_record (TrimSpace i) pf = Some old"
      and d: "derive_update down (pf_db pf) (old \<lparr> sp_Relations := rels \<rparr>) q = (Inr u :: SupportRecord Reply + SupportUpdate)"
      and adm: "row_admissible (updated_row (hx_Now hx) u old)"
      and m: "pf_support pf' = map (\<lambda>x. if sp_ID x = TrimSpace i then updated_row (hx_Now hx) u x else x) (pf_support pf)"
    have only: "x = old" if "x \<in> set (pf_support pf)" "sp_ID x = TrimSpace i" for x
      using that find_record_unique [of pf x] o assms(2) by (simp add: support_ok_def)
    have ev: "evolves old (updated_row (hx_Now hx) u old)"
      by (rule updated_row_evolves) (use derive_update_ok [OF d] in \<open>auto simp: can_become_def\<close>)
    have ok: "record_ok (updated_row (hx_Now hx) u old)"
      by (rule updated_row_ok) (use derive_update_ok [OF d] assms(2) find_record_Some [OF o] adm in \<open>auto simp: support_ok_def\<close>)
    have ids: "map sp_ID (pf_support pf') = map sp_ID (pf_support pf)" by (simp add: m updated_row_def)
    have "\<forall>x \<in> set (pf_support pf). evolves x (if sp_ID x = TrimSpace i then updated_row (hx_Now hx) u x else x)"
      using only ev by auto
    then have "grows_to pf pf'" unfolding grows_to_def m set_map by blast
    moreover have "support_ok pf'" using assms(2) only ok by (auto simp: support_ok_def ids) (auto simp: m)
    ultimately show ?thesis by blast
  qed
qed

subsection \<open>What the support desk promises\<close>

text \<open>
  C34.  The life of a support record: however many create and update requests run one after another, by
  whatever callers and with any statement failing, no record disappears or changes its kind, customer,
  reporter or creation time; its status moves only along the graph, so a closed record stays closed; the
  moments it was acknowledged and resolved at are recorded once and never moved; and every record past
  new was acknowledged, every resolved or closed one was resolved.
\<close>

theorem lifecycle_respected:
  assumes "support_calls pf pf'" "support_ok pf"
  shows "support_ok pf' \<and> (\<forall>r \<in> set (pf_support pf). \<exists>r' \<in> set (pf_support pf'). evolves r r' \<and>
    (sp_Status r = ''closed'' \<longrightarrow> sp_Status r' = ''closed''))"
proof -
  have "support_ok pf' \<and> grows_to pf pf'" using assms
  proof (induction rule: support_calls.induct)
    case (none pf)
    then show ?case using grows_to_refl by blast
  next
    case (created pf pf1 down hx rx others access body r pf2)
    then show ?case using created_step grows_to_trans by blast
  next
    case (updated pf pf1 down hx access i ubody r pf2)
    then show ?case using updated_step grows_to_trans by blast
  qed
  then show ?thesis using closed_terminal by (fastforce simp: grows_to_def evolves_def)
qed

text \<open>
  A defect: the status graph is checked on a record read before the update's transaction, and the
  update itself is unconditional.  When another request closes the record in between, an update that
  the graph allowed from the status read still goes through, answers 200, and brings the closed record back.
\<close>

theorem closed_record_reopened:
  assumes "updateSupportRecord down hx others access i (Some q) pf = (rp, pf')" "rp_Status rp = 200"
    and "sw_Status q = Some s0" "NormalizeStatus s0 = Some s"
    and "find_record (TrimSpace i) (others pf) = Some x" "sp_Status x = ''closed''"
  shows "\<exists>y. find_record (TrimSpace i) pf' = Some y \<and> sp_Status y = s"
proof -
  obtain old rels u where u: "derive_update down (pf_db pf) (old \<lparr> sp_Relations := rels \<rparr>) q = (Inr u :: SupportRecord Reply + SupportUpdate)"
    and m: "pf_support pf' = map (\<lambda>x. if sp_ID x = TrimSpace i then updated_row (hx_Now hx) u x else x) (pf_support (others pf))"
    using updateSupportRecord_cases [OF assms(1)] assms(2) by auto
  have "su_Status u = Some s" using derive_update_ok [OF u] assms(3,4) by auto
  then have upd: "sp_Status (updated_row (hx_Now hx) u y) = s" for y by (simp add: updated_row_def coalesce_def)
  have "TrimSpace i \<in> sp_ID ` set (pf_support (others pf))" using find_record_Some [OF assms(5)] by force
  moreover have "map sp_ID (pf_support pf') = map sp_ID (pf_support (others pf))" by (simp add: m updated_row_def)
  ultimately have "TrimSpace i \<in> sp_ID ` set (pf_support pf')" by (metis set_map)
  then obtain y where y: "find_record (TrimSpace i) pf' = Some y"
    by (cases "find_record (TrimSpace i) pf'") (simp_all add: find_record_None)
  then have "y \<in> set (pf_support pf')" "sp_ID y = TrimSpace i" using find_record_Some by blast+
  then have "sp_Status y = s" using upd by (auto simp: m split: if_splits)
  then show ?thesis using y by blast
qed

subsection \<open>The SLA over time\<close>

definition sla_rank :: "string \<Rightarrow> nat" where
  "sla_rank state = (if state = ''breached'' then 2 else if state = ''at_risk'' then 1 else 0)"

lemma at_risk_mono: "at_risk c now due \<Longrightarrow> now \<le> now' \<Longrightarrow> at_risk c now' due"
  by (auto simp: at_risk_def split: option.splits)

text \<open>
  The SLA state and the clock.  A resolved record's state no longer depends on the time of reading or
  on when it was acknowledged; it is unset without a policy, breached exactly when the record was
  resolved after its target, met otherwise.  An unresolved record's state only worsens as time passes, and the two due dates never move.
\<close>

theorem sla_and_clock:
  assumes "now \<le> now'"
  shows "sla_Evaluate p c a (Some r) now = sla_Evaluate p c a' (Some r) now' \<and>
    sla_State (sla_Evaluate p c a (Some r) now) =
      (if po_Respond p \<le> 0 \<and> po_Resolve p \<le> 0 then ''unset''
       else if 0 < po_Resolve p \<and> c + po_Resolve p < r then ''breached'' else ''met'') \<and>
    sla_rank (sla_State (sla_Evaluate p c a None now)) \<le> sla_rank (sla_State (sla_Evaluate p c a None now')) \<and>
    sla_RespondBy (sla_Evaluate p c a None now') = sla_RespondBy (sla_Evaluate p c a None now) \<and>
    sla_ResolveBy (sla_Evaluate p c a None now') = sla_ResolveBy (sla_Evaluate p c a None now)"
proof -
  have 1: "sla_Evaluate p c a (Some r) now = sla_Evaluate p c a' (Some r) now'"
    and 2: "sla_State (sla_Evaluate p c a (Some r) now) =
      (if po_Respond p \<le> 0 \<and> po_Resolve p \<le> 0 then ''unset''
       else if 0 < po_Resolve p \<and> c + po_Resolve p < r then ''breached'' else ''met'')"
    by (simp_all add: sla_Evaluate_def Let_def)
  have 3: "sla_rank (sla_State (sla_Evaluate p c a None now)) \<le> sla_rank (sla_State (sla_Evaluate p c a None now'))"
    using assms at_risk_mono [OF _ assms]
    by (cases a) (auto simp: sla_Evaluate_def sla_rank_def Let_def)
  have 4: "sla_RespondBy (sla_Evaluate p c a None now') = sla_RespondBy (sla_Evaluate p c a None now)"
    "sla_ResolveBy (sla_Evaluate p c a None now') = sla_ResolveBy (sla_Evaluate p c a None now)"
    by (simp_all add: sla_Evaluate_def Let_def)
  show ?thesis using 1 2 3 4 by blast
qed

text \<open>
  A divergence: the state of a resolved record is meant to stop moving, but resolving forgets a broken
  response promise.  A record reported as breached because nobody acknowledged it in time is reported as
  met from the moment it is resolved within the resolution target, at every later reading, and also after
  it is reopened and worked on for as long as one likes.
\<close>

theorem resolving_forgives:
  assumes "sla_State (sp_SLA (with_SLA ps now r)) = ''breached''" "sp_ResolvedAt r = None"
    and "su_Resolve u" "su_Severity u = None" "su_Severity u2 = None"
    and "\<not> (0 < po_Resolve (policy_for ps (sp_Severity r)) \<and> sp_CreatedAt r + po_Resolve (policy_for ps (sp_Severity r)) < now)"
  shows "sla_State (sp_SLA (with_SLA ps later (updated_row now u r))) = ''met'' \<and>
    sla_State (sp_SLA (with_SLA ps latest (updated_row later u2 (updated_row now u r)))) = ''met''"
proof -
  have "\<not> (po_Respond (policy_for ps (sp_Severity r)) \<le> 0 \<and> po_Resolve (policy_for ps (sp_Severity r)) \<le> 0)"
    using assms(1) by (auto simp: with_SLA_def sla_Evaluate_def)
  then show ?thesis using assms(2-6)
    by (auto simp: with_SLA_def sla_Evaluate_def updated_row_def coalesce_def Let_def)
qed

subsection \<open>Raising a record\<close>

lemma insert_relations_bus: "insert_relations down i rels pf = Ok pf' \<Longrightarrow> pf_bus pf' = pf_bus pf"
  by (induction rels arbitrary: pf) (auto split: if_splits)

lemma CreateSupportRecord_bus: "CreateSupportRecord down now rec pf = (Ok r, pf') \<Longrightarrow> pf_bus pf' = pf_bus pf"
  unfolding CreateSupportRecord_def transaction_ok Let_def
  by (auto split: if_splits elim!: bind_result_OkE dest: insert_relations_bus)

definition names_entity :: "DB \<Rightarrow> string \<Rightarrow> string \<Rightarrow> bool" where
  "names_entity db t i \<longleftrightarrow> (\<exists>e \<in> set (db_entities db). ge_GlobalID e = i \<and> ge_EntityType e = t)"

lemma verify_from_ok:
  "verify_from down db seen rels = (Inr vs :: 'b Reply + Relation list) \<Longrightarrow> \<forall>v \<in> set vs. v \<notin> set seen \<and>
     rn_EntityType v \<in> set relationTypes \<and> names_entity db (rn_EntityType v) (rn_GlobalID v)"
proof (induction rels arbitrary: seen vs)
  case (Cons rel rels)
  let ?t = "ToLower (TrimSpace (rn_EntityType rel))" and ?i = "TrimSpace (rn_GlobalID rel)"
  let ?v = "\<lparr> rn_EntityType = ?t, rn_GlobalID = ?i \<rparr>"
  from Cons.prems obtain e where e: "ResolveGlobalEntity down ?i db = Ok e" "ge_EntityType e = ?t" "IsRelationType ?t"
    by (auto simp: Let_def split: if_splits sum.splits)
  have n: "names_entity db ?t ?i"
    using e by (auto simp: ResolveGlobalEntity_def bind_result_def statement_def names_entity_def find_Some_iff
        split: if_splits option.splits)
  have ty: "?t \<in> set relationTypes"
  proof -
    have "ToLower (TrimSpace ?t) = ?t" by (simp add: TrimSpace_ToLower)
    then show ?thesis using e(3) by (simp add: IsRelationType_def)
  qed
  show ?case
  proof (cases "?v \<in> set seen")
    case True
    then show ?thesis using Cons.prems Cons.IH [of seen vs] e by (simp add: Let_def)
  next
    case False
    then obtain ws where "verify_from down db (?v # seen) rels = (Inr ws :: 'b Reply + Relation list)" "vs = ?v # ws"
      using Cons.prems e by (auto simp: Let_def split: sum.splits)
    then show ?thesis using Cons.IH [of "?v # seen" ws] False n ty by auto
  qed
qed simp

lemma created_201:
  assumes "createSupportRecord down hx rx others access (Some q) pf = (rp, pf')" "rp_Status rp = 201"
  shows "\<exists>kind severity clientID relations i db' r pf1.
    TrimSpace (sb_Title q) \<noteq> [] \<and>
    resolveRelation down (pf_db pf) (sb_ClientID q) ''client'' ''client_id'' = (Inr clientID :: SupportRecord Reply + string) \<and>
    verifyRelations down (pf_db pf) (sb_Relations q) = (Inr relations :: SupportRecord Reply + Relation list) \<and>
    CreateSupportRecord down (hx_Now hx)
      \<lparr> sp_ID = i, sp_Kind = kind, sp_Title = TrimSpace (sb_Title q),
        sp_Summary = TrimSpace (sb_Summary q), sp_Severity = severity, sp_Status = ''new'',
        sp_ClientID = clientID, sp_Relations = relations, sp_ReportedBy = me_ID access,
        sp_CreatedAt = 0, sp_UpdatedAt = 0, sp_AcknowledgedAt = None, sp_ResolvedAt = None, sp_SLA = blank_SLA \<rparr>
      (pf \<lparr> pf_db := db' \<rparr>) = (Ok r, pf1) \<and>
    pf' = publishSupportEvent down hx r ''incident.created''
      (audit_pf down hx access ''incident.created'' ''incident'' (sp_ID r)
        [(''kind'', sp_Kind r), (''severity'', sp_Severity r)] pf1)"
  using createSupportRecord_cases [OF assms(1)]
  apply (elim disjE exE conjE)
   apply (simp add: assms(2))
  apply (drule option.inject [THEN iffD1])
  apply hypsubst
  apply (intro exI conjI)
      apply assumption+
  apply (rule refl)
  done

text \<open>The row a record raised by a caller is stored as.\<close>

lemma created_row:
  assumes "CreateSupportRecord down now
      \<lparr> sp_ID = i, sp_Kind = kind, sp_Title = t, sp_Summary = s, sp_Severity = severity, sp_Status = ''new'',
        sp_ClientID = clientID, sp_Relations = relations, sp_ReportedBy = who,
        sp_CreatedAt = 0, sp_UpdatedAt = 0, sp_AcknowledgedAt = None, sp_ResolvedAt = None, sp_SLA = blank_SLA \<rparr>
      (pf \<lparr> pf_db := db' \<rparr>) = (Ok r, pf1)"
  shows "\<exists>row. r = row \<lparr> sp_Relations := relations \<rparr> \<and> sp_Status row = ''new'' \<and> sp_ReportedBy row = who \<and>
    sp_Title row = t \<and> sp_ClientID row = clientID \<and> sp_ID row \<notin> sp_ID ` set (pf_support pf) \<and>
    pf_support pf1 = pf_support pf @ [row] \<and> pf_bus pf1 = pf_bus pf \<and>
    set (pf_support_relations pf1) = set (pf_support_relations pf) \<union> Pair (sp_ID row) ` set relations"
  using CreateSupportRecord_ok [OF assms] CreateSupportRecord_bus [OF assms]
  apply (elim exE conjE)
  subgoal for row by (rule exI [of _ row]) simp
  done

definition announces :: "down \<Rightarrow> SupportRecord \<Rightarrow> Platform \<Rightarrow> Platform \<Rightarrow> bool" where
  "announces down row pf pf' \<longleftrightarrow>
    (if down ''bus'' then pf_bus pf' = pf_bus pf
     else \<exists>e. pf_bus pf' = pf_bus pf @ [(Subject ''incident.created'', e)] \<and> en_EntityID e = sp_ID row \<and>
       en_Data e = [(''message'', sp_Title row), (''status'', ''new''), (''kind'', sp_Kind row)])"

lemma published_announces:
  assumes "r = row \<lparr> sp_Relations := relations \<rparr>" "sp_Status row = ''new''" "pf_bus pf1 = pf_bus pf"
  shows "announces down row pf (publishSupportEvent down hx r ''incident.created'' (audit_pf down hx a x y z m pf1))"
  using assms by (simp add: announces_def publishSupportEvent_def publish_def support_envelope_def)

text \<open>
  A raised record is what the answer says: a 201 means one new row, in status new, reported by the
  caller, under an identifier no other record has; its customer, when named, is a known client, every
  relation stored for it names a known entity of a supported type; and, with the bus up, exactly one event announces it, which carries the title,
  the status and the kind and nothing of the summary.
\<close>

theorem raised_record_is_sound:
  assumes "createSupportRecord down hx rx others access (Some q) pf = (rp, pf')" "rp_Status rp = 201"
  shows "\<exists>row. pf_support pf' = pf_support pf @ [row] \<and> sp_Status row = ''new'' \<and>
    sp_ReportedBy row = me_ID access \<and> sp_ID row \<notin> sp_ID ` set (pf_support pf) \<and>
    sp_Title row = TrimSpace (sb_Title q) \<and> sp_Title row \<noteq> [] \<and>
    (sp_ClientID row = [] \<or> names_entity (pf_db pf) ''client'' (sp_ClientID row)) \<and>
    (\<forall>x \<in> set (pf_support_relations pf'). x \<in> set (pf_support_relations pf) \<or>
       fst x = sp_ID row \<and> rn_EntityType (snd x) \<in> set relationTypes \<and>
       names_entity (pf_db pf) (rn_EntityType (snd x)) (rn_GlobalID (snd x))) \<and>
    announces down row pf pf'"
proof -
  obtain kind severity clientID relations i db' r pf1 where
    c: "TrimSpace (sb_Title q) \<noteq> []"
      "resolveRelation down (pf_db pf) (sb_ClientID q) ''client'' ''client_id'' = (Inr clientID :: SupportRecord Reply + string)"
      "verifyRelations down (pf_db pf) (sb_Relations q) = (Inr relations :: SupportRecord Reply + Relation list)"
    and st: "CreateSupportRecord down (hx_Now hx)
      \<lparr> sp_ID = i, sp_Kind = kind, sp_Title = TrimSpace (sb_Title q),
        sp_Summary = TrimSpace (sb_Summary q), sp_Severity = severity, sp_Status = ''new'',
        sp_ClientID = clientID, sp_Relations = relations, sp_ReportedBy = me_ID access,
        sp_CreatedAt = 0, sp_UpdatedAt = 0, sp_AcknowledgedAt = None, sp_ResolvedAt = None, sp_SLA = blank_SLA \<rparr>
      (pf \<lparr> pf_db := db' \<rparr>) = (Ok r, pf1)"
    and pf': "pf' = publishSupportEvent down hx r ''incident.created''
         (audit_pf down hx access ''incident.created'' ''incident'' (sp_ID r)
            [(''kind'', sp_Kind r), (''severity'', sp_Severity r)] pf1)"
    using created_201 [OF assms] by (elim exE conjE) (rule that)
  from created_row [OF st] obtain row where
    row: "r = row \<lparr> sp_Relations := relations \<rparr>" "sp_Status row = ''new''" "sp_ReportedBy row = me_ID access"
      "sp_Title row = TrimSpace (sb_Title q)" "sp_ClientID row = clientID" "sp_ID row \<notin> sp_ID ` set (pf_support pf)"
      "pf_support pf1 = pf_support pf @ [row]" "pf_bus pf1 = pf_bus pf"
      "set (pf_support_relations pf1) = set (pf_support_relations pf) \<union> Pair (sp_ID row) ` set relations"
    by (elim exE conjE)
  have cl: "clientID = [] \<or> names_entity (pf_db pf) ''client'' clientID"
    using resolveRelation_ok [OF c(2)] by (auto simp: names_entity_def)
  have rels: "\<forall>v \<in> set relations. rn_EntityType v \<in> set relationTypes \<and> names_entity (pf_db pf) (rn_EntityType v) (rn_GlobalID v)"
    using verify_from_ok [OF c(3) [unfolded verifyRelations_def]] by blast
  have rs: "pf_support_relations pf' = pf_support_relations pf1" "pf_support pf' = pf_support pf1" by (simp_all add: pf')
  have an: "announces down row pf pf'" unfolding pf' by (rule published_announces [OF row(1,2,8)])
  have "\<forall>x \<in> set (pf_support_relations pf'). x \<in> set (pf_support_relations pf) \<or>
       fst x = sp_ID row \<and> rn_EntityType (snd x) \<in> set relationTypes \<and>
       names_entity (pf_db pf) (rn_EntityType (snd x)) (rn_GlobalID (snd x))"
    using rels unfolding rs row(9) by auto
  then show ?thesis using row(2-8) cl an c(1) rs(2) by (intro exI [of _ row]) simp
qed

subsection \<open>The properties at concrete inputs\<close>

definition desk_access :: meResponse where
  "desk_access = sample_access \<lparr> me_Permissions := [''*''] \<rparr>"

definition desk_request :: supportRequest where
  "desk_request = \<lparr> sb_Kind = [], sb_Title = '' Down '', sb_Summary = [], sb_Severity = ''HIGH'',
     sb_ClientID = [], sb_Relations = [] \<rparr>"

definition to_status :: "string \<Rightarrow> supportUpdateRequest" where
  "to_status s = \<lparr> sw_Title = None, sw_Summary = None, sw_Severity = None, sw_Status = Some s, sw_Relations = None \<rparr>"

definition desk_empty :: Platform where
  "desk_empty = (platform_of sample_db) \<lparr> pf_sla_policies := [(''high'', 30, 240)] \<rparr>"

definition desk_created :: "SupportRecord Reply \<times> Platform" where
  "desk_created = createSupportRecord all_up sample_hx sample_rx id desk_access (Some desk_request) desk_empty"

definition desk_update :: "(Platform \<Rightarrow> Platform) \<Rightarrow> string \<Rightarrow> Platform \<Rightarrow> SupportRecord Reply \<times> Platform" where
  "desk_update others s = updateSupportRecord all_up sample_hx others desk_access ''INC-000001'' (Some (to_status s))"

definition desk_closed :: Platform where
  "desk_closed = snd (desk_update id ''closed'' (snd desk_created))"

lemma desk_created_201: "rp_Status (fst desk_created) = 201" by code_simp

theorem raised_record_is_sound_witness:
  "\<exists>row. pf_support (snd desk_created) = pf_support desk_empty @ [row] \<and> sp_Title row = ''Down'' \<and>
     announces all_up row desk_empty (snd desk_created)"
proof -
  have "TrimSpace (sb_Title desk_request) = ''Down''" by code_simp
  then show ?thesis
    using raised_record_is_sound [OF prod.collapse [symmetric, of desk_created, unfolded desk_created_def]]
      desk_created_201 unfolding desk_created_def by metis
qed

theorem lifecycle_respected_witness:
  "support_ok desk_closed \<and> evolves (hd (pf_support (snd desk_created))) (hd (pf_support desk_closed)) \<and>
   map sp_Status (pf_support (snd desk_created)) = [''new''] \<and> map sp_Status (pf_support desk_closed) = [''closed'']"
proof -
  have calls: "support_calls (snd desk_created) desk_closed"
    by (rule support_calls.updated [OF support_calls.none, of all_up sample_hx desk_access "''INC-000001''"
        "Some (to_status ''closed'')" _ "fst (desk_update id ''closed'' (snd desk_created))"])
      (simp add: desk_closed_def desk_update_def)
  have ok: "support_ok (snd desk_created)" by code_simp
  have one: "map sp_Status (pf_support (snd desk_created)) = [''new'']" by code_simp
  have two: "map sp_Status (pf_support desk_closed) = [''closed'']" by code_simp
  obtain r where r: "pf_support (snd desk_created) = [r]" using one by auto
  obtain r' where r': "pf_support desk_closed = [r']" using two by auto
  show ?thesis using lifecycle_respected [OF calls ok] one two by (simp add: r r')
qed

theorem closed_record_reopened_witness:
  "map sp_Status (pf_support (snd (desk_update id ''closed'' (snd desk_created)))) = [''closed''] \<and>
   (\<exists>y. find_record ''INC-000001'' (snd (desk_update (\<lambda>pf. snd (desk_update id ''closed'' pf)) ''in_progress''
      (snd desk_created))) = Some y \<and> sp_Status y = ''in_progress'')"
proof -
  let ?others = "\<lambda>pf. snd (desk_update id ''closed'' pf)"
  have "rp_Status (fst (desk_update ?others ''in_progress'' (snd desk_created))) = 200" by code_simp
  moreover have "NormalizeStatus ''in_progress'' = Some ''in_progress''" by code_simp
  moreover have t: "TrimSpace ''INC-000001'' = ''INC-000001''" by code_simp
  moreover have "(case find_record ''INC-000001'' (?others (snd desk_created)) of None \<Rightarrow> False
      | Some x \<Rightarrow> sp_Status x = ''closed'')" by code_simp
  then obtain x where "find_record ''INC-000001'' (?others (snd desk_created)) = Some x" "sp_Status x = ''closed''"
    by (auto split: option.splits)
  moreover have "map sp_Status (pf_support (?others (snd desk_created))) = [''closed'']" by code_simp
  ultimately show ?thesis
    using closed_record_reopened [OF prod.collapse [symmetric, of "desk_update ?others ''in_progress'' (snd desk_created)",
        unfolded desk_update_def], of "''in_progress''" "''in_progress''" x]
    by (simp add: desk_update_def to_status_def)
qed

theorem sla_and_clock_witness:
  "sla_State (sla_Evaluate \<lparr> po_Respond = 30, po_Resolve = 240 \<rparr> 0 None (Some 300) 400) = ''breached'' \<and>
   sla_rank (sla_State (sla_Evaluate \<lparr> po_Respond = 30, po_Resolve = 240 \<rparr> 0 None None 20)) \<le>
   sla_rank (sla_State (sla_Evaluate \<lparr> po_Respond = 30, po_Resolve = 240 \<rparr> 0 None None 25))"
  using sla_and_clock [of 400 500 "\<lparr> po_Respond = 30, po_Resolve = 240 \<rparr>" 0 None 300 None, THEN conjunct2, THEN conjunct1]
    sla_and_clock [of 20 25 "\<lparr> po_Respond = 30, po_Resolve = 240 \<rparr>" 0 None 300 None, THEN conjunct2, THEN conjunct2, THEN conjunct1]
  by simp

text \<open>Nobody acknowledged the record within its 30 minutes; it is resolved after an hour, then reopened.\<close>

definition desk_policies :: "(string \<times> Policy) list" where
  "desk_policies = [(''high'', \<lparr> po_Respond = 30, po_Resolve = 240 \<rparr>)]"

definition desk_row :: SupportRecord where
  "desk_row = hd (pf_support (snd desk_created))"

definition desk_to :: "string \<Rightarrow> bool \<Rightarrow> SupportUpdate" where
  "desk_to s resolve = \<lparr> su_Title = None, su_Summary = None, su_Severity = None, su_Status = Some s,
     su_Acknowledge = True, su_Resolve = resolve, su_Relations = None \<rparr>"

theorem resolving_forgives_witness:
  "sla_State (sp_SLA (with_SLA desk_policies 60 desk_row)) = ''breached'' \<and>
   sla_State (sp_SLA (with_SLA desk_policies 1000
     (updated_row 80 (desk_to ''in_progress'' False) (updated_row 60 (desk_to ''resolved'' True) desk_row)))) = ''met''"
proof -
  have b: "sla_State (sp_SLA (with_SLA desk_policies 60 desk_row)) = ''breached''" by code_simp
  have n: "sp_ResolvedAt desk_row = None" by code_simp
  have p: "\<not> (0 < po_Resolve (policy_for desk_policies (sp_Severity desk_row)) \<and>
      sp_CreatedAt desk_row + po_Resolve (policy_for desk_policies (sp_Severity desk_row)) < 60)" by code_simp
  show ?thesis using b resolving_forgives [OF b n _ _ _ p, of "desk_to ''resolved'' True" "desk_to ''in_progress'' False" 80 1000]
    by (simp add: desk_to_def)
qed

end
