(* ===== verification/Confinement.thy ===== *)
theory Confinement
  imports Business Operations Support
begin

section \<open>What a confined caller can learn (cmd/server/business.go, operations\_business.go, support.go)\<close>

text \<open>
  The three families of detail endpoints look a resource up and check its scope in the same order.  Their
  contract is one function, confined\_view: the resource if the caller has been granted it, and otherwise the
  same 404 whether or not it exists.  The endpoints refine it, so what is hidden from a
  Customer has no influence on what the platform answers it.
\<close>

definition confined_view :: "('r \<Rightarrow> bool) \<Rightarrow> 'r option \<Rightarrow> 'b Reply + 'r" where
  "confined_view may found =
     (case found of None \<Rightarrow> Inl notFound | Some r \<Rightarrow> if may r then Inr r else Inl notFound)"

definition entity_view ::
  "DB \<Rightarrow> Principal \<Rightarrow> string \<Rightarrow> string \<Rightarrow> string \<Rightarrow> string \<Rightarrow> 'b Reply + GlobalEntity" where
  "entity_view db p entityType perm scopeType i =
     confined_view (\<lambda>e. ge_EntityType e = entityType \<and> granted db p perm (scopeType, ge_GlobalID e))
       (find (\<lambda>e. ge_GlobalID e = TrimSpace i) (db_entities db))"

definition record_view :: "Platform \<Rightarrow> Principal \<Rightarrow> string \<Rightarrow> string \<Rightarrow> 'b Reply + SupportRecord" where
  "record_view pf p perm i =
     confined_view (\<lambda>r. granted (pf_db pf) p perm (supportScope r))
       (map_option (\<lambda>r. r \<lparr> sp_Relations := sort_key relation_key
            (map snd (filter (\<lambda>x. fst x = sp_ID r) (pf_support_relations pf))) \<rparr>)
          (find_record (TrimSpace i) pf))"

definition server_view :: "Platform \<Rightarrow> Principal \<Rightarrow> string \<Rightarrow> 'b Reply + Server" where
  "server_view pf p i =
     confined_view (\<lambda>s. granted (pf_db pf) p ''operations.server.read'' (serverScope s))
       (find_server (TrimSpace i) pf)"

lemma scopes_named [simp]: "fst (supportScope r) \<noteq> []" "fst (serverScope s) \<noteq> []"
  by (simp_all add: supportScope_def serverScope_def scope_names)

lemma asks_server: "asks ''operations.server.read''"
  by (simp add: asks_def TrimSpace_def is_space_def)

lemma principal_of_simps [simp]:
  "pr_Kind (principal_of access) = KindUser" "pr_Roles (principal_of access) = me_Roles access"
  "pr_ID (principal_of access) = me_ID access" "pr_Permissions (principal_of access) = me_Permissions access"
  by (simp_all add: principal_of_def)

lemma entity_refines:
  assumes "''Customer'' \<in> set (pr_Roles p)" "pr_Kind p = KindUser" "asks perm" "scopeType \<noteq> []"
    and "\<not> down ''scope_check''" "\<not> down ''entity_resolve''"
  shows "resolveScopedEntity down p entityType perm scopeType i db = entity_view db p entityType perm scopeType i"
proof (cases "find (\<lambda>e. ge_GlobalID e = TrimSpace i) (db_entities db)")
  case None
  then show ?thesis using assms
    by (simp add: resolveScopedEntity_def ResolveGlobalEntity_def entity_view_def confined_view_def)
next
  case (Some e)
  then show ?thesis using assms
    by (simp add: may_reach_confined resolveScopedEntity_def ResolveGlobalEntity_def entity_view_def confined_view_def)
qed

lemma record_refines:
  assumes "''Customer'' \<in> set (me_Roles access)" "asks perm"
    and "\<not> down ''scope_check''" "\<not> down ''support_get''" "\<not> down ''relation_select''"
  shows "resolveSupportRecord down access perm i pf = record_view pf (principal_of access) perm i"
  using assms
  by (cases "find_record (TrimSpace i) pf")
    (simp_all add: may_reach_confined resolveSupportRecord_def GetSupportRecord_def supportRelations_def
      record_view_def confined_view_def)

lemma server_refines:
  assumes "''Customer'' \<in> set (me_Roles access)" "\<not> down ''scope_check''" "\<not> down ''server_get''"
  shows "getServer down access i pf =
    (case server_view pf (principal_of access) i of Inl rp \<Rightarrow> rp | Inr s \<Rightarrow> reply 200 s)"
  using assms asks_server
  by (cases "find_server (TrimSpace i) pf")
    (simp_all add: may_reach_confined getServer_def GetServer_def server_view_def confined_view_def Let_def)

text \<open>
  C17.  The detail endpoints refine the one contract they share: for a Customer, with the store readable,
  resolving an entity of an upstream, resolving a support record (for reading or for updating) and
  reading a server answer the resource exactly when it exists, is of the endpoint's type and a stored grant (or being an
  administrator) reaches it, and the one 404 in every other case.
\<close>

theorem details_refine_view:
  assumes "''Customer'' \<in> set (me_Roles access)" "asks perm" "scopeType \<noteq> []"
    and "\<And>stmt. stmt \<in> {''scope_check'', ''entity_resolve'', ''support_get'', ''relation_select'', ''server_get''} \<Longrightarrow>
      \<not> down stmt"
  shows "resolveScopedEntity down (principal_of access) entityType perm scopeType i (pf_db pf) =
      entity_view (pf_db pf) (principal_of access) entityType perm scopeType i \<and>
    resolveSupportRecord down access perm i pf = record_view pf (principal_of access) perm i \<and>
    getServer down access i pf =
      (case server_view pf (principal_of access) i of Inl rp \<Rightarrow> rp | Inr s \<Rightarrow> reply 200 s)"
  by (intro conjI entity_refines record_refines server_refines) (use assms in simp_all)

text \<open>
  Reading a client that a Customer has not been granted is indistinguishable from reading one that does not
  exist: the answer is the same 404, the CRM is not asked, and nothing changes, whatever the
  platform and the upstream hold.
\<close>

theorem hidden_client_is_unknown:
  assumes "''Customer'' \<in> set (me_Roles access)" "\<not> down ''scope_check''"
    and "\<not> granted db (principal_of access) ''crm.client.read'' (ScopeClient, TrimSpace i)"
  shows "getClient down (principal_of access) cd net i (r, db) = (notFound, (r, db))"
proof (cases "ResolveGlobalEntity down (TrimSpace i) db")
  case (Inl e)
  then show ?thesis using assms(1) by (simp add: getClient_def resolveScopedEntity_def)
next
  case (Inr e)
  then have g: "ge_GlobalID e = TrimSpace i"
    by (auto simp: ResolveGlobalEntity_def find_Some_iff statement_def elim!: bind_result_OkE
        split: if_splits option.splits)
  have "asks ''crm.client.read''" by (simp add: asks_def TrimSpace_def is_space_def)
  then show ?thesis using Inr g assms
    by (simp add: getClient_def resolveScopedEntity_def may_reach_confined scope_names)
qed

text \<open>
  A grant over one client gives a caller who is not confined nothing at the detail endpoint: without the permission
  in its roles and without a grant over everything it is refused with permission\_required before the
  client is looked up, although the evaluator allows it that very client.
\<close>

theorem resource_grant_not_consulted:
  assumes "''Customer'' \<notin> set (me_Roles access)" "me_ID access \<noteq> []"
    and "me_Permissions access = []" "\<not> down ''scope_check''"
    and "filter (\<lambda>g. scope_row_covers g ''user'' (me_ID access) ''global'' ''*'' ''crm.client.read'') (db_scopes db) = []"
  shows "getClient down (principal_of access) cd net i (r, db) = (reply_error 403
      ''crm.client.read permission required'' ''permission_required'', (r, db))"
proof -
  have sc: "scoped (platform_authz down db) (principal_of access) ''crm.client.read'' (Resource ScopeGlobal ''*'') = Ok False"
    using assms(4,5) by (subst platform_scoped)
      (auto simp: Resource_def scope_names filter_empty_conv principal_of_def)
  have "Evaluate (platform_authz down db) (principal_of access) ''crm.client.read'' (Resource ScopeGlobal ''*'') =
      Ok (deny CodePermissionRequired ''crm.client.read'')"
    using assms(2,3) sc by (simp add: Evaluate_def Let_def hasPermission_def TrimSpace_def is_space_def)
  then have "may_look down db (principal_of access) ''crm.client.read'' =
      Some (writeDenied (deny CodePermissionRequired ''crm.client.read'') :: clientView Reply)"
    using assms(1) by (simp add: may_look_def authorizeResource_def IsConfined_def)
  then have "(resolveScopedEntity down (principal_of access) ''client'' ''crm.client.read'' ScopeClient i db) =
      Inl (writeDenied (deny CodePermissionRequired ''crm.client.read'') :: clientView Reply)"
    by (simp add: resolveScopedEntity_def)
  then show ?thesis by (simp add: getClient_def writeDenied_def deny_def CodePermissionRequired_def)
qed

subsection \<open>Runs on concrete inputs\<close>

definition customer :: meResponse where
  "customer = \<lparr> me_ID = ''USR-000001'', me_Subject = ''s'', me_Email = [], me_Name = [], me_Username = [],
     me_Groups = [], me_Roles = [''Customer''], me_Permissions = [''crm.client.read''], me_Modules = [] \<rparr>"

definition client_entity :: "string \<Rightarrow> string \<Rightarrow> GlobalEntity" where
  "client_entity g sid = \<lparr> ge_GlobalID = g, ge_EntityType = ''client'', ge_Source = ''espocrm'',
     ge_SourceID = sid, ge_TenantID = [], ge_Metadata = [], ge_CreatedAt = 0 \<rparr>"

text \<open>Two clients, of which the customer has been granted one.\<close>

definition two_clients :: DB where
  "two_clients = sample_db \<lparr>
     db_entities := [client_entity ''CL-000001'' ''a1'', client_entity ''CL-000002'' ''a2''],
     db_scopes := [\<lparr> sg_PrincipalType = ''user'', sg_PrincipalID = ''USR-000001'', sg_ScopeType = ''client'',
        sg_ScopeID = ''CL-000001'', sg_PermissionID = ''crm.client.read'' \<rparr>] \<rparr>"

lemma trim_ids [simp]: "TrimSpace ''CL-000001'' = ''CL-000001''" "TrimSpace ''CL-000002'' = ''CL-000002''"
  by (simp_all add: TrimSpace_def is_space_def)

lemma asks_client: "asks ''crm.client.read''"
  by (simp add: asks_def TrimSpace_def is_space_def)

theorem details_refine_view_witness:
  "(resolveScopedEntity (\<lambda>_. False) (principal_of customer) ''client'' ''crm.client.read'' ScopeClient ''CL-000001''
      two_clients :: clientView Reply + GlobalEntity) = Inr (client_entity ''CL-000001'' ''a1'') \<and>
   (resolveScopedEntity (\<lambda>_. False) (principal_of customer) ''client'' ''crm.client.read'' ScopeClient ''CL-000002''
      two_clients :: clientView Reply + GlobalEntity) = Inl notFound"
proof -
  have c: "''Customer'' \<in> set (me_Roles customer)" "ScopeClient \<noteq> []" by (simp_all add: customer_def scope_names)
  have d: "(resolveScopedEntity (\<lambda>_. False) (principal_of customer) ''client'' ''crm.client.read'' ScopeClient i
      two_clients :: clientView Reply + GlobalEntity) =
      entity_view two_clients (principal_of customer) ''client'' ''crm.client.read'' ScopeClient i" for i
    by (rule details_refine_view [OF c(1) asks_client c(2), of "\<lambda>_. False" "''client''" i "platform_of two_clients",
          unfolded platform_of_def Platform.select_convs, THEN conjunct1]) simp
  have v: "(entity_view two_clients (principal_of customer) ''client'' ''crm.client.read'' ScopeClient ''CL-000001''
        :: clientView Reply + GlobalEntity) = Inr (client_entity ''CL-000001'' ''a1'')"
    "(entity_view two_clients (principal_of customer) ''client'' ''crm.client.read'' ScopeClient ''CL-000002''
        :: clientView Reply + GlobalEntity) = Inl notFound"
    by (simp_all add: entity_view_def confined_view_def two_clients_def client_entity_def granted_def
        principal_of_def customer_def scope_row_covers_def scope_names)
  show ?thesis unfolding d using v by simp
qed

theorem hidden_client_is_unknown_witness:
  "getClient (\<lambda>_. False) (principal_of customer) sample_codec sample_net ''CL-000002'' (sample_registry, two_clients) =
     (notFound, (sample_registry, two_clients))"
  by (rule hidden_client_is_unknown)
    (simp_all add: customer_def two_clients_def sample_db_def granted_def principal_of_def scope_row_covers_def
      scope_names)

theorem resource_grant_not_consulted_witness:
  "granted two_clients (principal_of (customer \<lparr> me_Roles := [''Manager''], me_Permissions := [] \<rparr>))
      ''crm.client.read'' (ScopeClient, ''CL-000001'') \<and>
   rp_Status (fst (getClient (\<lambda>_. False) (principal_of (customer \<lparr> me_Roles := [''Manager''], me_Permissions := [] \<rparr>))
      sample_codec sample_net ''CL-000001'' (sample_registry, two_clients))) = 403"
  by (subst resource_grant_not_consulted)
    (simp_all add: customer_def two_clients_def granted_def principal_of_def scope_row_covers_def scope_names)

end
