(* ===== verification/AuthentikAdmin.thy ===== *)
theory AuthentikAdmin
  imports Urls "HOL-Library.AList"
begin

section \<open>The client of authentik's administration API (internal/authentikadmin/client.go)\<close>

text \<open>
  Every call is a request to authentik, which is a parameter: a function from the request and
  authentik's own state to an answer and the next state (record Authentik).  So are url.Parse and what the
  JSON of each response shape decodes to; a number outside the range of int is a decoding error, as in
  encoding/json.  A body is the object json.Marshal is given.  The timeout of the HTTP client is one of the ways a
  request can fail.
\<close>

record Group =
  gp_PK :: string
  gp_Name :: string

record User =
  us_PK :: int
  us_Username :: string
  us_Name :: string
  us_Email :: string
  us_IsActive :: bool
  us_Type :: string
  us_Groups :: "string list"
  us_GroupsObj :: "Group list"

record CreateUserInput =
  ci_Username :: string
  ci_Name :: string
  ci_Email :: string
  ci_GroupPK :: string

datatype AkError = AkNotConfigured | AkBuildURL | AkBuildRequest | AkCall | APIError int | AkDecode | AkPagination

datatype AkJson = AkString string | AkBool bool | AkStrings "string list"

type_synonym ak_object = "(string \<times> AkJson) list"

record AkRequest =
  aq_Method :: string
  aq_URL :: string
  aq_RawQuery :: string
  aq_Header :: "(string \<times> string) list"
  aq_Body :: "ak_object option"

text \<open>
  The world: url.Parse of an endpoint into what precedes its query and the query's values, what
  http.NewRequest accepts, authentik (None is a transport error), and the decoders; a page is its next
  field and its results.
\<close>

record 's Authentik =
  ak_parse :: "string \<Rightarrow> (string \<times> (string \<times> string) list) option"
  ak_valid :: "AkRequest \<Rightarrow> bool"
  ak_send :: "AkRequest \<Rightarrow> 's \<Rightarrow> (int \<times> string) option \<times> 's"
  ak_users :: "string \<Rightarrow> (int \<times> User list) option"
  ak_groups :: "string \<Rightarrow> (int \<times> Group list) option"
  ak_user :: "string \<Rightarrow> User option"

record AkClient =
  kc_baseURL :: string
  kc_token :: string

definition authentik_New :: "string \<Rightarrow> string \<Rightarrow> AkClient" where
  "authentik_New baseURL token =
     \<lparr> kc_baseURL = TrimRightSlash (TrimSpace baseURL), kc_token = TrimSpace token \<rparr>"

definition Configured :: "AkClient option \<Rightarrow> bool" where
  "Configured c \<longleftrightarrow> (case c of None \<Rightarrow> False | Some c \<Rightarrow> kc_baseURL c \<noteq> [] \<and> kc_token c \<noteq> [])"

definition set_all :: "(string \<times> string) list \<Rightarrow> (string \<times> string) list \<Rightarrow> (string \<times> string) list" where
  "set_all query vals = fold (\<lambda>(k, v). AList.update k v) query vals"

text \<open>The request doJSON sends, None when the URL does not parse.\<close>

definition ak_request ::
  "'s Authentik \<Rightarrow> AkClient \<Rightarrow> string \<Rightarrow> string \<Rightarrow> (string \<times> string) list \<Rightarrow> ak_object option \<Rightarrow> AkRequest option" where
  "ak_request ak c m path query body =
     (case ak_parse ak (kc_baseURL c @ path) of
        None \<Rightarrow> None
      | Some (url, vals) \<Rightarrow> Some \<lparr> aq_Method = m, aq_URL = url, aq_RawQuery = values_Encode (set_all query vals),
          aq_Header = [(''Accept'', ''application/json''), (''Authorization'', ''Bearer '' @ kc_token c)]
            @ (if body \<noteq> None then [(''Content-Type'', ''application/json'')] else []),
          aq_Body = body \<rparr>)"

text \<open>doJSON; decode is None for the call that passes no out.\<close>

definition doJSON ::
  "'s Authentik \<Rightarrow> AkClient \<Rightarrow> string \<Rightarrow> string \<Rightarrow> (string \<times> string) list \<Rightarrow> ak_object option \<Rightarrow> int
   \<Rightarrow> (string \<Rightarrow> 'o option) option \<Rightarrow> 's \<Rightarrow> (AkError + 'o option) \<times> 's" where
  "doJSON ak c m path query body wantStatus decode s =
     (if \<not> Configured (Some c) then (Inl AkNotConfigured, s)
      else case ak_request ak c m path query body of
        None \<Rightarrow> (Inl AkBuildURL, s)
      | Some rq \<Rightarrow>
          if \<not> ak_valid ak rq then (Inl AkBuildRequest, s)
          else case ak_send ak rq s of
            (None, s') \<Rightarrow> (Inl AkCall, s')
          | (Some (status, text), s') \<Rightarrow>
              if status \<noteq> wantStatus then (Inl (APIError status), s')
              else case decode of
                None \<Rightarrow> (Inr None, s')
              | Some f \<Rightarrow>
                  (case f (take (4 * 2 ^ 20) text) of
                     None \<Rightarrow> (Inl AkDecode, s')
                   | Some v \<Rightarrow> (Inr (Some v), s')))"

text \<open>A call that decodes: the value is there whenever there is no error.\<close>

definition decoded :: "(AkError + 'o option) \<times> 's \<Rightarrow> (AkError + 'o) \<times> 's" where
  "decoded r = (case r of (Inl e, s) \<Rightarrow> (Inl e, s) | (Inr (Some v), s) \<Rightarrow> (Inr v, s) | (Inr None, s) \<Rightarrow> (Inl AkDecode, s))"

definition ak_get where
  "ak_get ak c path query f s = decoded (doJSON ak c ''GET'' path query None 200 (Some f) s)"

definition max_int :: int where "max_int = 2 ^ 63 - 1"

text \<open>The loop both list calls share, over their path and query; page is the page asked for next.\<close>

function ak_pages ::
  "'s Authentik \<Rightarrow> AkClient \<Rightarrow> string \<Rightarrow> (string \<times> string) list \<Rightarrow> (string \<Rightarrow> (int \<times> 'a list) option) \<Rightarrow> int \<Rightarrow> 'a list \<Rightarrow> 's
   \<Rightarrow> (AkError + 'a list) \<times> 's" where
  "ak_pages ak c path query f page acc s =
     (case ak_get ak c path (query @ [(''page'', Itoa page)]) f s of
        (Inl e, s') \<Rightarrow> (Inl e, s')
      | (Inr (nxt, results), s') \<Rightarrow>
          if nxt < - max_int - 1 \<or> max_int < nxt then (Inl AkDecode, s')
          else if nxt = 0 then (Inr (acc @ results), s')
          else if nxt \<le> page then (Inl AkPagination, s')
          else ak_pages ak c path query f nxt (acc @ results) s')"
  by pat_completeness auto
termination
  by (relation "measure (\<lambda>(ak, c, path, query, f, page, acc, s). nat (max_int - page))") auto

declare ak_pages.simps [simp del]

definition users_path :: string where "users_path = ''/api/v3/core/users/''"

definition user_path :: "int \<Rightarrow> string" where
  "user_path pk = users_path @ Itoa pk @ ''/''"

definition ListUsers :: "'s Authentik \<Rightarrow> AkClient \<Rightarrow> 's \<Rightarrow> (AkError + User list) \<times> 's" where
  "ListUsers ak c s =
     (if \<not> Configured (Some c) then (Inl AkNotConfigured, s)
      else ak_pages ak c users_path
             [(''include_groups'', ''true''), (''include_roles'', ''false''), (''page_size'', ''100'')]
             (ak_users ak) 1 [] s)"

definition GetUser :: "'s Authentik \<Rightarrow> AkClient \<Rightarrow> int \<Rightarrow> 's \<Rightarrow> (AkError + User) \<times> 's" where
  "GetUser ak c pk s =
     (if \<not> Configured (Some c) then (Inl AkNotConfigured, s)
      else ak_get ak c (user_path pk) [(''include_groups'', ''true''), (''include_roles'', ''false'')] (ak_user ak) s)"

definition ListGroups :: "'s Authentik \<Rightarrow> AkClient \<Rightarrow> 's \<Rightarrow> (AkError + Group list) \<times> 's" where
  "ListGroups ak c s =
     (if \<not> Configured (Some c) then (Inl AkNotConfigured, s)
      else ak_pages ak c ''/api/v3/core/groups/'' [(''include_users'', ''false''), (''page_size'', ''100'')]
             (ak_groups ak) 1 [] s)"

definition create_object :: "CreateUserInput \<Rightarrow> ak_object" where
  "create_object input =
     [(''username'', AkString (ci_Username input)), (''name'', AkString (ci_Name input)),
      (''email'', AkString (ci_Email input)), (''is_active'', AkBool False), (''type'', AkString ''internal''),
      (''path'', AkString ''users''), (''groups'', AkStrings [ci_GroupPK input])]"

definition CreateUser :: "'s Authentik \<Rightarrow> AkClient \<Rightarrow> CreateUserInput \<Rightarrow> 's \<Rightarrow> (AkError + User) \<times> 's" where
  "CreateUser ak c input s =
     (if \<not> Configured (Some c) then (Inl AkNotConfigured, s)
      else decoded (doJSON ak c ''POST'' users_path [] (Some (create_object input)) 201 (Some (ak_user ak)) s))"

definition update_object :: "string list option \<Rightarrow> bool option \<Rightarrow> string option \<Rightarrow> ak_object" where
  "update_object groups active email =
     (case groups of None \<Rightarrow> [] | Some g \<Rightarrow> [(''groups'', AkStrings g)])
     @ (case active of None \<Rightarrow> [] | Some a \<Rightarrow> [(''is_active'', AkBool a)])
     @ (case email of None \<Rightarrow> [] | Some e \<Rightarrow> [(''email'', AkString e)])"

definition UpdateUser ::
  "'s Authentik \<Rightarrow> AkClient \<Rightarrow> int \<Rightarrow> string list option \<Rightarrow> bool option \<Rightarrow> string option \<Rightarrow> 's
   \<Rightarrow> (AkError + User) \<times> 's" where
  "UpdateUser ak c pk groups active email s =
     (if \<not> Configured (Some c) then (Inl AkNotConfigured, s)
      else let body = update_object groups active email
           in if body = [] then GetUser ak c pk s
              else decoded (doJSON ak c ''PATCH'' (user_path pk) [] (Some body) 200 (Some (ak_user ak)) s))"

definition SetPassword :: "'s Authentik \<Rightarrow> AkClient \<Rightarrow> int \<Rightarrow> string \<Rightarrow> 's \<Rightarrow> (AkError + unit) \<times> 's" where
  "SetPassword ak c pk password s =
     (if \<not> Configured (Some c) then (Inl AkNotConfigured, s)
      else case doJSON ak c ''POST'' (user_path pk @ ''set_password/'') [] (Some [(''password'', AkString password)])
                  204 (None :: (string \<Rightarrow> unit option) option) s of
        (Inl e, s') \<Rightarrow> (Inl e, s')
      | (Inr _, s') \<Rightarrow> (Inr (), s'))"

subsection \<open>What authentik promises\<close>

text \<open>
  The documented behaviour of the API the client relies on, over a view of authentik's state: its users, its groups
  (which this program never changes) and the passwords.  Requests may fail at any point, after they took effect
  too; nobody else writes while one runs.
\<close>

definition member_groups :: "Group list \<Rightarrow> string list \<Rightarrow> Group list" where
  "member_groups groups pks = filter (\<lambda>g. gp_PK g \<in> set pks) groups"

text \<open>Keys are unique, and the groups a user carries are the ones its keys name.\<close>

definition coherent :: "User list \<Rightarrow> Group list \<Rightarrow> bool" where
  "coherent users groups \<longleftrightarrow> distinct (map us_PK users) \<and> distinct (map gp_PK groups) \<and>
     (\<forall>g \<in> set groups. gp_PK g \<noteq> []) \<and>
     (\<forall>u \<in> set users. set (us_GroupsObj u) = set (member_groups groups (us_Groups u)))"

definition patch_user :: "Group list \<Rightarrow> int \<Rightarrow> string list option \<Rightarrow> bool option \<Rightarrow> string option \<Rightarrow> User \<Rightarrow> User" where
  "patch_user groups pk g a e u =
     (if us_PK u \<noteq> pk then u
      else u \<lparr> us_Groups := (case g of None \<Rightarrow> us_Groups u | Some pks \<Rightarrow> pks),
               us_GroupsObj := (case g of None \<Rightarrow> us_GroupsObj u | Some pks \<Rightarrow> member_groups groups pks),
               us_IsActive := (case a of None \<Rightarrow> us_IsActive u | Some b \<Rightarrow> b),
               us_Email := (case e of None \<Rightarrow> us_Email u | Some m \<Rightarrow> m) \<rparr>)"

definition new_user :: "Group list \<Rightarrow> CreateUserInput \<Rightarrow> int \<Rightarrow> User" where
  "new_user groups input pk =
     \<lparr> us_PK = pk, us_Username = ci_Username input, us_Name = ci_Name input, us_Email = ci_Email input,
       us_IsActive = False, us_Type = ''internal'', us_Groups = [ci_GroupPK input],
       us_GroupsObj = member_groups groups [ci_GroupPK input] \<rparr>"

record 's View =
  vw_inv :: "'s \<Rightarrow> bool"
  vw_users :: "'s \<Rightarrow> User list"
  vw_groups :: "Group list"
  vw_password :: "'s \<Rightarrow> int \<Rightarrow> string"

definition unchanged :: "'s View \<Rightarrow> 's \<Rightarrow> 's \<Rightarrow> bool" where
  "unchanged v s s' \<longleftrightarrow> vw_inv v s' \<and> vw_users v s' = vw_users v s \<and> vw_password v s' = vw_password v s"

text \<open>Page n of a collection holds its n-th hundred, and names the next page while there is one.\<close>

definition pages_of ::
  "'s Authentik \<Rightarrow> AkClient \<Rightarrow> 's View \<Rightarrow> string \<Rightarrow> (string \<times> string) list \<Rightarrow> (string \<Rightarrow> (int \<times> 'a list) option) \<Rightarrow> ('s \<Rightarrow> 'a list)
   \<Rightarrow> bool" where
  "pages_of ak c v path query f rows \<longleftrightarrow>
     (\<forall>s page rq text nxt rs.
        vw_inv v s \<and> 1 \<le> page \<and> ak_request ak c ''GET'' path (query @ [(''page'', Itoa page)]) None = Some rq \<and>
        fst (ak_send ak rq s) = Some (200, text) \<and> f (take (4 * 2 ^ 20) text) = Some (nxt, rs) \<longrightarrow>
        rs = take 100 (drop (100 * (nat page - 1)) (rows s)) \<and>
        nxt = (if 100 * nat page < length (rows s) then page + 1 else 0))"

definition reads_ok :: "'s Authentik \<Rightarrow> 's View \<Rightarrow> bool" where
  "reads_ok ak v \<longleftrightarrow>
     (\<forall>s. vw_inv v s \<longrightarrow> coherent (vw_users v s) (vw_groups v)) \<and>
     (\<forall>s rq. vw_inv v s \<longrightarrow> vw_inv v (snd (ak_send ak rq s))) \<and>
     (\<forall>s rq. vw_inv v s \<longrightarrow> aq_Method rq = ''GET'' \<longrightarrow> unchanged v s (snd (ak_send ak rq s)))"

definition detail_ok :: "'s Authentik \<Rightarrow> AkClient \<Rightarrow> 's View \<Rightarrow> bool" where
  "detail_ok ak c v \<longleftrightarrow>
     (\<forall>s pk query rq text u. vw_inv v s \<longrightarrow> ak_request ak c ''GET'' (user_path pk) query None = Some rq \<longrightarrow>
        fst (ak_send ak rq s) = Some (200, text) \<longrightarrow> ak_user ak (take (4 * 2 ^ 20) text) = Some u \<longrightarrow>
        u \<in> set (vw_users v s) \<and> us_PK u = pk)"

text \<open>A user is changed or not; an answer of 200 says it was.\<close>

definition patch_ok :: "'s Authentik \<Rightarrow> AkClient \<Rightarrow> 's View \<Rightarrow> bool" where
  "patch_ok ak c v \<longleftrightarrow>
     (\<forall>s pk g a e rq. vw_inv v s \<longrightarrow>
        ak_request ak c ''PATCH'' (user_path pk) [] (Some (update_object g a e)) = Some rq \<longrightarrow>
        vw_password v (snd (ak_send ak rq s)) = vw_password v s \<and>
        (vw_users v (snd (ak_send ak rq s)) = vw_users v s \<and> (\<forall>text. fst (ak_send ak rq s) \<noteq> Some (200, text)) \<or>
         vw_users v (snd (ak_send ak rq s)) = map (patch_user (vw_groups v) pk g a e) (vw_users v s)))"

text \<open>A user is created or not; an answer of 201 says it was, and carries its key.\<close>

definition post_ok :: "'s Authentik \<Rightarrow> AkClient \<Rightarrow> 's View \<Rightarrow> bool" where
  "post_ok ak c v \<longleftrightarrow>
     (\<forall>s input rq. vw_inv v s \<longrightarrow>
        ak_request ak c ''POST'' users_path [] (Some (create_object input)) = Some rq \<longrightarrow>
        vw_password v (snd (ak_send ak rq s)) = vw_password v s \<and>
        (vw_users v (snd (ak_send ak rq s)) = vw_users v s \<and> (\<forall>text. fst (ak_send ak rq s) \<noteq> Some (201, text)) \<or>
         (\<exists>pk. pk \<notin> us_PK ` set (vw_users v s) \<and>
            vw_users v (snd (ak_send ak rq s)) = vw_users v s @ [new_user (vw_groups v) input pk] \<and>
            (\<forall>text u. fst (ak_send ak rq s) = Some (201, text) \<longrightarrow> ak_user ak (take (4 * 2 ^ 20) text) = Some u \<longrightarrow>
               us_PK u = pk))))"

definition password_ok :: "'s Authentik \<Rightarrow> AkClient \<Rightarrow> 's View \<Rightarrow> bool" where
  "password_ok ak c v \<longleftrightarrow>
     (\<forall>s pk password rq. vw_inv v s \<longrightarrow>
        ak_request ak c ''POST'' (user_path pk @ ''set_password/'') [] (Some [(''password'', AkString password)]) = Some rq \<longrightarrow>
        vw_users v (snd (ak_send ak rq s)) = vw_users v s \<and>
        (\<forall>other. other \<noteq> pk \<longrightarrow> vw_password v (snd (ak_send ak rq s)) other = vw_password v s other))"

definition authentik_ok :: "'s Authentik \<Rightarrow> AkClient \<Rightarrow> 's View \<Rightarrow> bool" where
  "authentik_ok ak c v \<longleftrightarrow> reads_ok ak v \<and> detail_ok ak c v \<and> patch_ok ak c v \<and> post_ok ak c v \<and> password_ok ak c v \<and>
     pages_of ak c v users_path
       [(''include_groups'', ''true''), (''include_roles'', ''false''), (''page_size'', ''100'')] (ak_users ak) (vw_users v) \<and>
     pages_of ak c v ''/api/v3/core/groups/'' [(''include_users'', ''false''), (''page_size'', ''100'')] (ak_groups ak)
       (\<lambda>_. vw_groups v)"

lemma unchanged_trans: "unchanged v s t \<Longrightarrow> unchanged v t u \<Longrightarrow> unchanged v s u"
  by (simp add: unchanged_def)

lemma unchanged_refl: "vw_inv v s \<Longrightarrow> unchanged v s s"
  by (simp add: unchanged_def)

text \<open>One call: either nothing was sent, or the request was and the answer is its decoding.\<close>

lemma doJSON_cases:
  assumes "doJSON ak c m path query body want decode s = (r, s')"
  obtains (unsent) e where "r = Inl e" "s' = s"
  | (sent) rq where "ak_request ak c m path query body = Some rq" "s' = snd (ak_send ak rq s)"
      "(\<exists>e. r = Inl e) \<or> (\<exists>text. fst (ak_send ak rq s) = Some (want, text) \<and>
         (case decode of None \<Rightarrow> r = Inr None
          | Some f \<Rightarrow> \<exists>x. f (take (4 * 2 ^ 20) text) = Some x \<and> r = Inr (Some x)))"
proof (cases "ak_request ak c m path query body")
  case None
  then show thesis using assms unsent by (auto simp: doJSON_def split: if_splits)
next
  case (Some rq)
  show thesis
  proof (cases "Configured (Some c) \<and> ak_valid ak rq")
    case False
    then show thesis using assms unsent Some by (auto simp: doJSON_def split: if_splits)
  next
    case True
    obtain a t where "ak_send ak rq s = (a, t)" by (cases "ak_send ak rq s")
    then show thesis using assms True Some
      by (intro sent [OF Some])
        (auto simp: doJSON_def split: option.splits prod.splits if_splits)
  qed
qed

lemma ak_request_Method: "ak_request ak c m path query body = Some rq \<Longrightarrow> aq_Method rq = m"
  by (auto simp: ak_request_def split: option.splits)

lemma ak_get_reads:
  assumes "reads_ok ak v" "vw_inv v s" "ak_get ak c path query f s = (r, s')"
  shows "unchanged v s s'"
proof -
  obtain r0 where "doJSON ak c ''GET'' path query None 200 (Some f) s = (r0, s')"
    using assms(3) by (auto simp: ak_get_def decoded_def split: prod.splits sum.splits option.splits)
  then show ?thesis
  proof (cases rule: doJSON_cases)
    case unsent
    then show ?thesis using assms(2) by (simp add: unchanged_refl)
  next
    case (sent rq)
    then show ?thesis using assms(1,2) ak_request_Method [OF sent(1)]
      by (simp add: reads_ok_def)
  qed
qed

lemma ak_get_ok:
  assumes "ak_get ak c path query f s = (Inr x, s')"
  shows "\<exists>rq text. ak_request ak c ''GET'' path query None = Some rq \<and>
    fst (ak_send ak rq s) = Some (200, text) \<and> f (take (4 * 2 ^ 20) text) = Some x"
proof -
  have "doJSON ak c ''GET'' path query None 200 (Some f) s = (Inr (Some x), s')"
    using assms by (auto simp: ak_get_def decoded_def split: prod.splits sum.splits option.splits)
  then show ?thesis by (cases rule: doJSON_cases) auto
qed

text \<open>The loop collects the whole collection, whatever the number of pages.\<close>

lemma page_answer:
  assumes "pages_of ak c v path query f rows" "vw_inv v s" "1 \<le> page"
    and "ak_get ak c path (query @ [(''page'', Itoa page)]) f s = (Inr (nxt, results), t)"
  shows "results = take 100 (drop (100 * (nat page - 1)) (rows s))"
    "nxt = (if 100 * nat page < length (rows s) then page + 1 else 0)"
proof -
  obtain rq "text" where q: "ak_request ak c ''GET'' path (query @ [(''page'', Itoa page)]) None = Some rq"
    "fst (ak_send ak rq s) = Some (200, text)" "f (take (4 * 2 ^ 20) text) = Some (nxt, results)"
    using ak_get_ok [OF assms(4)] by blast
  have "vw_inv v s \<and> 1 \<le> page \<and> ak_request ak c ''GET'' path (query @ [(''page'', Itoa page)]) None = Some rq \<and>
      fst (ak_send ak rq s) = Some (200, text) \<and> f (take (4 * 2 ^ 20) text) = Some (nxt, results)"
    using q assms(2,3) by blast
  from assms(1) [unfolded pages_of_def, rule_format, OF this]
  show "results = take 100 (drop (100 * (nat page - 1)) (rows s))"
    "nxt = (if 100 * nat page < length (rows s) then page + 1 else 0)" by blast+
qed

lemma ak_pages_ok:
  "reads_ok ak v \<Longrightarrow> pages_of ak c v path query f rows \<Longrightarrow> (\<And>s s'. unchanged v s s' \<Longrightarrow> rows s' = rows s) \<Longrightarrow>
    vw_inv v s \<Longrightarrow> 1 \<le> page \<Longrightarrow> acc = take (100 * (nat page - 1)) (rows s) \<Longrightarrow>
    ak_pages ak c path query f page acc s = (r, s') \<Longrightarrow> unchanged v s s' \<and> (\<forall>xs. r = Inr xs \<longrightarrow> xs = rows s)"
proof (induction ak c path query f page acc s arbitrary: r s' rule: ak_pages.induct)
  case (1 ak c path query f page acc s)
  note prems = "1.prems"
  obtain x t where g: "ak_get ak c path (query @ [(''page'', Itoa page)]) f s = (x, t)"
    by (cases "ak_get ak c path (query @ [(''page'', Itoa page)]) f s")
  have un: "unchanged v s t" by (rule ak_get_reads [OF prems(1,4) g])
  show ?case
  proof (cases x)
    case (Inl e)
    then show ?thesis using prems(7) g un by (subst (asm) ak_pages.simps) auto
  next
    case (Inr nr)
    obtain nxt results where x: "x = Inr (nxt, results)" using Inr by (cases nr) simp
    note a = page_answer [OF prems(2,4,5) g [unfolded x]]
    have p: "100 * nat page = 100 * (nat page - 1) + 100" using prems(5) by simp
    have acc: "acc @ results = take (100 * nat page) (rows s)"
      unfolding prems(6) a(1) p by (rule take_add [symmetric])
    show ?thesis
    proof (cases "(nxt < - max_int - 1 \<or> max_int < nxt) \<or> nxt = 0 \<or> nxt \<le> page")
      case True
      have "nxt = 0 \<Longrightarrow> acc @ results = rows s" using acc a(2) prems(5) by (simp split: if_splits)
      then show ?thesis using True prems(7) g un x
        by (subst (asm) ak_pages.simps) (auto split: if_splits)
    next
      case False
      then have n: "nxt = page + 1" using a(2) by (simp split: if_splits)
      have rest: "ak_pages ak c path query f nxt (acc @ results) t = (r, s')"
        using False prems(7) g x by (subst (asm) ak_pages.simps) (auto split: if_splits)
      have "rows t = rows s" by (rule prems(3) [OF un])
      moreover have "nat nxt - 1 = nat page" using n prems(5) by simp
      ultimately have "acc @ results = take (100 * (nat nxt - 1)) (rows t)" using acc by simp
      moreover have "vw_inv v t" using un by (simp add: unchanged_def)
      moreover have "1 \<le> nxt" using n prems(5) by simp
      ultimately have "unchanged v t s' \<and> (\<forall>xs. r = Inr xs \<longrightarrow> xs = rows t)"
        using False g x rest prems(1-3) by (intro "1.IH" [OF g [symmetric]]) auto
      then show ?thesis using un \<open>rows t = rows s\<close> unchanged_trans by metis
    qed
  qed
qed

subsection \<open>The directory its callers see\<close>

text \<open>
  The contract the account handlers rely on, over the operations they call: reading tells the truth and changes
  nothing; an update patches the one user, creation adds one inactive user, a password is set for the one user,
  and each of them may also fail, with or without its effect.
\<close>

locale user_directory =
  fixes list_users :: "'s \<Rightarrow> (AkError + User list) \<times> 's"
    and get_user :: "int \<Rightarrow> 's \<Rightarrow> (AkError + User) \<times> 's"
    and list_groups :: "'s \<Rightarrow> (AkError + Group list) \<times> 's"
    and create_user :: "CreateUserInput \<Rightarrow> 's \<Rightarrow> (AkError + User) \<times> 's"
    and update_user :: "int \<Rightarrow> string list option \<Rightarrow> bool option \<Rightarrow> string option \<Rightarrow> 's \<Rightarrow> (AkError + User) \<times> 's"
    and set_password :: "int \<Rightarrow> string \<Rightarrow> 's \<Rightarrow> (AkError + unit) \<times> 's"
    and v :: "'s View" and ok :: bool
  assumes is_coherent: "\<lbrakk>ok; vw_inv v s\<rbrakk> \<Longrightarrow> coherent (vw_users v s) (vw_groups v)"
    and users_listed: "\<lbrakk>ok; vw_inv v s; list_users s = (rl, s')\<rbrakk> \<Longrightarrow>
      unchanged v s s' \<and> (\<forall>xs. rl = Inr xs \<longrightarrow> xs = vw_users v s)"
    and user_got: "\<lbrakk>ok; vw_inv v s; get_user pk s = (ru, s')\<rbrakk> \<Longrightarrow>
      unchanged v s s' \<and> (\<forall>u. ru = Inr u \<longrightarrow> u \<in> set (vw_users v s) \<and> us_PK u = pk)"
    and groups_listed: "\<lbrakk>ok; vw_inv v s; list_groups s = (rg, s')\<rbrakk> \<Longrightarrow>
      unchanged v s s' \<and> (\<forall>xs. rg = Inr xs \<longrightarrow> xs = vw_groups v)"
    and user_created: "\<lbrakk>ok; vw_inv v s; create_user input s = (rc, s')\<rbrakk> \<Longrightarrow>
      vw_inv v s' \<and> vw_password v s' = vw_password v s \<and>
      (vw_users v s' = vw_users v s \<and> isl rc \<or>
       (\<exists>pk. pk \<notin> us_PK ` set (vw_users v s) \<and> vw_users v s' = vw_users v s @ [new_user (vw_groups v) input pk] \<and>
          (\<forall>u. rc = Inr u \<longrightarrow> us_PK u = pk)))"
    and user_updated: "\<lbrakk>ok; vw_inv v s; update_user pk g a e s = (rw, s')\<rbrakk> \<Longrightarrow>
      vw_inv v s' \<and> vw_password v s' = vw_password v s \<and>
      (vw_users v s' = vw_users v s \<and> isl rw \<or> vw_users v s' = map (patch_user (vw_groups v) pk g a e) (vw_users v s))"
    and password_set: "\<lbrakk>ok; vw_inv v s; set_password pk password s = (rp, s')\<rbrakk> \<Longrightarrow>
      vw_inv v s' \<and> vw_users v s' = vw_users v s \<and>
      (\<forall>other. other \<noteq> pk \<longrightarrow> vw_password v s' other = vw_password v s other)"

lemma patch_user_nothing: "map (patch_user groups pk None None None) us = us"
  by (simp add: map_idI patch_user_def)

lemma decoded_eq:
  "decoded x = (r, s') \<Longrightarrow> \<exists>r0. x = (r0, s') \<and> (\<forall>v. r = Inr v \<longrightarrow> r0 = Inr (Some v))"
  by (auto simp: decoded_def split: prod.splits sum.splits option.splits)

lemma reads_okD:
  assumes "reads_ok ak v" "vw_inv v s"
  shows "vw_inv v (snd (ak_send ak rq s))" "coherent (vw_users v s) (vw_groups v)"
  using assms by (auto simp: reads_ok_def)

interpretation authentik: user_directory "ListUsers ak c" "GetUser ak c" "ListGroups ak c" "CreateUser ak c"
  "UpdateUser ak c" "SetPassword ak c" v "authentik_ok ak c v"
proof (unfold_locales, goal_cases)
  case (1 s)
  then show ?case by (auto simp: authentik_ok_def reads_ok_def)
next
  case (2 s r s')
  then have ok: "reads_ok ak v" and p: "pages_of ak c v users_path
      [(''include_groups'', ''true''), (''include_roles'', ''false''), (''page_size'', ''100'')] (ak_users ak) (vw_users v)"
    by (simp_all add: authentik_ok_def)
  have rows: "unchanged v s s' \<Longrightarrow> vw_users v s' = vw_users v s" for s s' by (simp add: unchanged_def)
  show ?case
  proof (cases "Configured (Some c)")
    case True
    then have "ak_pages ak c users_path [(''include_groups'', ''true''), (''include_roles'', ''false''),
        (''page_size'', ''100'')] (ak_users ak) 1 [] s = (r, s')" using 2(3) by (simp add: ListUsers_def)
    from ak_pages_ok [OF ok p rows 2(2) _ _ this] show ?thesis by simp
  next
    case False
    then have "r = Inl AkNotConfigured" "s' = s" using 2(3) by (auto simp: ListUsers_def)
    then show ?thesis using unchanged_refl [OF 2(2)] by simp
  qed
next
  case (3 s pk r s')
  then have ok: "reads_ok ak v" and d: "detail_ok ak c v" by (simp_all add: authentik_ok_def)
  show ?case
  proof (cases "Configured (Some c)")
    case True
    then have g: "ak_get ak c (user_path pk) [(''include_groups'', ''true''), (''include_roles'', ''false'')] (ak_user ak) s
        = (r, s')" using 3(3) by (simp add: GetUser_def)
    have "u \<in> set (vw_users v s) \<and> us_PK u = pk" if "r = Inr u" for u
      using ak_get_ok [OF g [unfolded that]] d 3(2) unfolding detail_ok_def by blast
    then show ?thesis using ak_get_reads [OF ok 3(2) g] by simp
  next
    case False
    then have "r = Inl AkNotConfigured" "s' = s" using 3(3) by (auto simp: GetUser_def)
    then show ?thesis using unchanged_refl [OF 3(2)] by simp
  qed
next
  case (4 s r s')
  then have ok: "reads_ok ak v" and p: "pages_of ak c v ''/api/v3/core/groups/''
      [(''include_users'', ''false''), (''page_size'', ''100'')] (ak_groups ak) (\<lambda>_. vw_groups v)"
    by (simp_all add: authentik_ok_def)
  show ?case
  proof (cases "Configured (Some c)")
    case True
    then have "ak_pages ak c ''/api/v3/core/groups/'' [(''include_users'', ''false''), (''page_size'', ''100'')]
        (ak_groups ak) 1 [] s = (r, s')" using 4(3) by (simp add: ListGroups_def)
    from ak_pages_ok [OF ok p refl 4(2) _ _ this] show ?thesis by simp
  next
    case False
    then have "r = Inl AkNotConfigured" "s' = s" using 4(3) by (auto simp: ListGroups_def)
    then show ?thesis using unchanged_refl [OF 4(2)] by simp
  qed
next
  case (5 s input r s')
  then have R: "reads_ok ak v" and P: "post_ok ak c v" by (simp_all add: authentik_ok_def)
  show ?case
  proof (cases "Configured (Some c)")
    case True
    then have "decoded (doJSON ak c ''POST'' users_path [] (Some (create_object input)) 201 (Some (ak_user ak)) s) = (r, s')"
      using 5(3) by (simp add: CreateUser_def)
    from decoded_eq [OF this] obtain r0 where
      d: "doJSON ak c ''POST'' users_path [] (Some (create_object input)) 201 (Some (ak_user ak)) s = (r0, s')"
      and r: "\<forall>u. r = Inr u \<longrightarrow> r0 = Inr (Some u)" by blast
    show ?thesis
    proof (cases rule: doJSON_cases [OF d])
      case (1 e)
      then show ?thesis using r 5(2) by (cases r) auto
    next
      case (2 rq)
      have "(\<forall>text. fst (ak_send ak rq s) \<noteq> Some (201, text)) \<Longrightarrow> isl r" using 2(3) r by (cases r) auto
      moreover have "\<exists>text. fst (ak_send ak rq s) = Some (201, text) \<and> ak_user ak (take (4 * 2 ^ 20) text) = Some u"
        if "r = Inr u" for u using 2(3) r that by auto
      ultimately show ?thesis
        using P [unfolded post_ok_def, rule_format, OF 5(2) 2(1)] reads_okD(1) [OF R 5(2)] 2(2) by metis
    qed
  next
    case False
    then show ?thesis using 5(2,3) by (auto simp: CreateUser_def)
  qed
next
  case (6 s pk g a e r s')
  then have R: "reads_ok ak v" and P: "patch_ok ak c v" and D: "detail_ok ak c v" by (simp_all add: authentik_ok_def)
  show ?case
  proof (cases "Configured (Some c) \<and> update_object g a e \<noteq> []")
    case True
    then have "decoded (doJSON ak c ''PATCH'' (user_path pk) [] (Some (update_object g a e)) 200 (Some (ak_user ak)) s) = (r, s')"
      using 6(3) by (simp add: UpdateUser_def Let_def)
    from decoded_eq [OF this] obtain r0 where
      d: "doJSON ak c ''PATCH'' (user_path pk) [] (Some (update_object g a e)) 200 (Some (ak_user ak)) s = (r0, s')"
      and r: "\<forall>u. r = Inr u \<longrightarrow> r0 = Inr (Some u)" by blast
    show ?thesis
    proof (cases rule: doJSON_cases [OF d])
      case (1 e)
      then show ?thesis using r 6(2) by (cases r) auto
    next
      case (2 rq)
      have "(\<forall>text. fst (ak_send ak rq s) \<noteq> Some (200, text)) \<Longrightarrow> isl r" using 2(3) r by (cases r) auto
      then show ?thesis
        using P [unfolded patch_ok_def, rule_format, OF 6(2) 2(1)] reads_okD(1) [OF R 6(2)] 2(2) by metis
    qed
  next
    case False
    then have "GetUser ak c pk s = (r, s')"
      using 6(3) by (auto simp: UpdateUser_def GetUser_def)
    then have un: "unchanged v s s'"
      using ak_get_reads [OF R 6(2)] unchanged_refl [OF 6(2)] by (auto simp: GetUser_def split: if_splits)
    show ?thesis
    proof (cases "Configured (Some c)")
      case True
      then have "g = None" "a = None" "e = None" using False by (auto simp: update_object_def split: option.splits)
      then show ?thesis using un by (simp add: unchanged_def patch_user_nothing)
    next
      case False
      then have "isl r" using \<open>GetUser ak c pk s = (r, s')\<close> by (auto simp: GetUser_def)
      then show ?thesis using un by (simp add: unchanged_def)
    qed
  qed
next
  case (7 s pk password r s')
  then have R: "reads_ok ak v" and P: "password_ok ak c v" by (simp_all add: authentik_ok_def)
  show ?case
  proof (cases "Configured (Some c)")
    case True
    then obtain r0 where d: "doJSON ak c ''POST'' (user_path pk @ ''set_password/'') [] (Some [(''password'', AkString password)])
        204 (None :: (string \<Rightarrow> unit option) option) s = (r0, s')"
      using 7(3) by (auto simp: SetPassword_def split: prod.splits sum.splits)
    show ?thesis
    proof (cases rule: doJSON_cases [OF d])
      case (1 e)
      then show ?thesis using 7(2) by simp
    next
      case (2 rq)
      then show ?thesis using P [unfolded password_ok_def, rule_format, OF 7(2) 2(1)] reads_okD(1) [OF R 7(2)] by simp
    qed
  next
    case False
    then show ?thesis using 7(2,3) by (auto simp: SetPassword_def)
  qed
qed

end
