(* ===== verification/Accounts.thy ===== *)
theory Accounts
  imports AuthentikAdmin GlobalIds "HOL-Library.Multiset"
begin

section \<open>Human account administration (cmd/server/admin\_accounts.go, platformdb/lock.go)\<close>

text \<open>
  The handlers that list, create, change and re-password human accounts in authentik, under one advisory
  lock across replicas.  The state is authentik's own and the database.  The lock is the atomicity of the function
  run under it; what remains of it are its two ways to fail.  parseAddress is net/mail's parser.  Usernames are
  compared without the case of ASCII letters; strings.EqualFold also folds above.  In audit metadata, a
  list is its elements joined by commas and a boolean its word.  The password handlers write nothing after the
  call that hands the password over.
\<close>

subsection \<open>Roles and groups\<close>

definition humanRoleGroups :: "(string \<times> string) list" where
  "humanRoleGroups =
     [(''admin'', ''BSYSTEM-Admins''), (''manager'', ''BSYSTEM-Managers''), (''developer'', ''BSYSTEM-Developers''),
      (''qa'', ''BSYSTEM-QA''), (''support'', ''BSYSTEM-Support''), (''devops'', ''BSYSTEM-DevOps''),
      (''customer'', ''BSYSTEM-Customers'')]"

definition humanGroupRoles :: "(string \<times> string) list" where
  "humanGroupRoles = map (\<lambda>(role, g). (g, role)) humanRoleGroups"

definition rolesFromGroups :: "string list \<Rightarrow> string list" where
  "rolesFromGroups groups = sort (List.map_filter (map_of humanGroupRoles) groups)"

definition groupNames :: "Group list \<Rightarrow> string list" where
  "groupNames groups = sort (map gp_Name groups)"

definition groupPKByName :: "Group list \<Rightarrow> string \<Rightarrow> string option" where
  "groupPKByName groups name = map_option gp_PK (find (\<lambda>g. gp_Name g = name) groups)"

definition hasGroup :: "Group list \<Rightarrow> string \<Rightarrow> bool" where
  "hasGroup groups name \<longleftrightarrow> (\<exists>g \<in> set groups. gp_Name g = name)"

definition service_type :: "User \<Rightarrow> bool" where
  "service_type u \<longleftrightarrow> us_Type u = ''service_account'' \<or> us_Type u = ''internal_service_account''"

definition is_service_user :: "User \<Rightarrow> bool" where
  "is_service_user u \<longleftrightarrow> hasGroup (us_GroupsObj u) ''BSYSTEM-Services'' \<or> service_type u"

definition active_admin :: "User \<Rightarrow> bool" where
  "active_admin u \<longleftrightarrow> us_IsActive u \<and> \<not> is_service_user u \<and> hasGroup (us_GroupsObj u) ''BSYSTEM-Admins''"

definition activeAdminCount :: "User list \<Rightarrow> nat" where
  "activeAdminCount users = length (filter active_admin users)"

definition uniqueStrings :: "string list \<Rightarrow> string list" where
  "uniqueStrings vals = unique vals"

definition user_roles :: "User \<Rightarrow> string list" where
  "user_roles u = rolesFromGroups (groupNames (us_GroupsObj u))"

definition callerIsAdministrator :: "meResponse \<Rightarrow> bool" where
  "callerIsAdministrator access \<longleftrightarrow>
     ''Administrator'' \<in> set (me_Roles access) \<or> ''*'' \<in> set (me_Permissions access) \<or>
     ''identity.user.admin'' \<in> set (me_Permissions access)"

definition humanUsername :: "string \<Rightarrow> bool" where
  "humanUsername s \<longleftrightarrow> s \<noteq> [] \<and>
     (\<forall>c \<in> set s. in_range (CHR ''A'') (CHR ''Z'') c \<or> in_range (CHR ''a'') (CHR ''z'') c \<or>
        in_range (CHR ''0'') (CHR ''9'') c \<or> c \<in> set ''._@-'')"

definition EqualFold :: "string \<Rightarrow> string \<Rightarrow> bool" where
  "EqualFold s t \<longleftrightarrow> ToLower s = ToLower t"

definition normalizeAccountEmail :: "(string \<Rightarrow> string option) \<Rightarrow> string \<Rightarrow> string option" where
  "normalizeAccountEmail parseAddress raw =
     (let email = TrimSpace raw
      in if email = [] \<or> 320 < length email then None
         else if parseAddress email = Some email then Some email else None)"

subsection \<open>Account views\<close>

record adminAccount =
  aa_AuthentikID :: "int option"
  aa_GlobalID :: "string option"
  aa_Username :: string
  aa_Name :: string
  aa_Email :: string
  aa_Active :: "bool option"
  aa_Roles :: "string list"
  aa_Groups :: "string list"
  aa_FirstSeenAt :: "int option"
  aa_LastSeenAt :: "int option"
  aa_Manageable :: bool
  aa_PasswordManageable :: bool

definition accountFromIdentity :: "IdentityRow \<Rightarrow> adminAccount" where
  "accountFromIdentity i =
     \<lparr> aa_AuthentikID = None, aa_GlobalID = Some (id_GlobalUserID i), aa_Username = id_Username i,
       aa_Name = id_DisplayName i, aa_Email = id_Email i, aa_Active = None,
       aa_Roles = rolesFromGroups (id_Groups i), aa_Groups = id_Groups i,
       aa_FirstSeenAt = Some (id_FirstSeenAt i), aa_LastSeenAt = Some (id_LastSeenAt i),
       aa_Manageable = False, aa_PasswordManageable = False \<rparr>"

definition accountsFromIdentities :: "IdentityRow list \<Rightarrow> adminAccount list" where
  "accountsFromIdentities identities = map accountFromIdentity identities"

definition accountFromAuthentik :: "User \<Rightarrow> IdentityRow option \<Rightarrow> adminAccount" where
  "accountFromAuthentik u identity =
     (let names = groupNames (us_GroupsObj u); roles = rolesFromGroups names;
          service = (''BSYSTEM-Services'' \<in> set names \<or> service_type u)
      in \<lparr> aa_AuthentikID = Some (us_PK u), aa_GlobalID = map_option id_GlobalUserID identity,
           aa_Username = us_Username u, aa_Name = us_Name u, aa_Email = us_Email u,
           aa_Active = Some (us_IsActive u), aa_Roles = roles, aa_Groups = names,
           aa_FirstSeenAt = map_option id_FirstSeenAt identity,
           aa_LastSeenAt = map_option id_LastSeenAt identity,
           aa_Manageable = (\<not> service \<and> roles \<noteq> []),
           aa_PasswordManageable = (\<not> service \<and> roles \<noteq> [] \<and> us_Type u = ''internal'') \<rparr>)"

definition listed_user :: "User \<Rightarrow> bool" where
  "listed_user u \<longleftrightarrow> \<not> (''BSYSTEM-Services'' \<in> set (groupNames (us_GroupsObj u)) \<or> service_type u) \<and> user_roles u \<noteq> []"

definition mergeAdminAccounts :: "User list \<Rightarrow> IdentityRow list \<Rightarrow> adminAccount list" where
  "mergeAdminAccounts users identities =
     (let managed = filter listed_user users;
          seen = map us_Username managed;
          result = map (\<lambda>u. accountFromAuthentik u
                         (find (\<lambda>i. id_Username i = us_Username u) (rev identities))) managed
                   @ map accountFromIdentity (filter (\<lambda>i. id_Username i \<notin> set seen) identities)
      in sort_key (\<lambda>a. (aa_Username a, case aa_GlobalID a of None \<Rightarrow> [] | Some g \<Rightarrow> g)) result)"

record adminAccountsResponse =
  ar_ManagementAvailable :: bool
  ar_Accounts :: "adminAccount list"

subsection \<open>Errors and the lock\<close>

datatype UserAdminError =
  ErrUsernameConflict | ErrHumanGroupMissing | ErrLastAdmin | ErrServiceIdentity | ErrNotHumanAccount
  | ErrPasswordUnsupported | ErrAdminTarget | ErrAuthentik AkError | ErrAdvisoryLock string

text \<open>
  The lock is a session's: while PostgreSQL holds it for the session of this section, the sections of the other replicas wait.  When
  that session is lost on the way (down ''session\_lost'', after which the deferred unlock does nothing either), the callback is not told and goes on, and before
  each of its requests the others may have done anything: others, by the request.
\<close>

definition meanwhile :: "(AkRequest \<Rightarrow> 's \<Rightarrow> 's) \<Rightarrow> 's Authentik \<Rightarrow> 's Authentik" where
  "meanwhile others ak = ak \<lparr> ak_send := \<lambda>rq s. ak_send ak rq (others rq s) \<rparr>"

definition WithAdvisoryLock ::
  "down \<Rightarrow> (AkRequest \<Rightarrow> 's \<Rightarrow> 's) \<Rightarrow> 's Authentik \<Rightarrow> ('s Authentik \<Rightarrow> 's \<Rightarrow> (UserAdminError + 'a) \<times> 's)
   \<Rightarrow> 's \<Rightarrow> (UserAdminError + 'a) \<times> 's" where
  "WithAdvisoryLock down others ak fn s =
     (if down ''acquire'' then (Inl (ErrAdvisoryLock ''acquire''), s)
      else if down ''advisory_lock'' then (Inl (ErrAdvisoryLock ''advisory_lock''), s)
      else fn (if down ''session_lost'' then meanwhile others ak else ak) s)"

text \<open>The return of an error of the client, and going on without one.\<close>

definition and_then ::
  "(AkError + 'a) \<times> 's \<Rightarrow> ('a \<Rightarrow> 's \<Rightarrow> (UserAdminError + 'b) \<times> 's) \<Rightarrow> (UserAdminError + 'b) \<times> 's" where
  "and_then r k = (case r of (Inl e, s) \<Rightarrow> (Inl (ErrAuthentik e), s) | (Inr x, s) \<Rightarrow> k x s)"

definition writeUserAdminDependencyError :: "'b Reply" where
  "writeUserAdminDependencyError =
     reply_error 503 ''user administration dependency unavailable'' ''user_admin_unavailable''"

definition writeUserAdminMutationError :: "UserAdminError \<Rightarrow> 'b Reply" where
  "writeUserAdminMutationError e =
     (case e of
        ErrUsernameConflict \<Rightarrow> reply_error 409 ''username already exists'' ''username_conflict''
      | ErrLastAdmin \<Rightarrow> reply_error 409 ''final active administrator cannot be removed'' ''last_admin_guard''
      | ErrServiceIdentity \<Rightarrow> reply_error 409 ''service identity cannot be managed as a human'' ''service_identity''
      | ErrNotHumanAccount \<Rightarrow> reply_error 409 ''account has no BSYSTEM human role'' ''role_conflict''
      | ErrPasswordUnsupported \<Rightarrow>
          reply_error 409 ''password reset is only supported for internal users'' ''password_unsupported''
      | ErrAdminTarget \<Rightarrow>
          reply_error 403 ''administrator access required for administrator-class user management''
            ''permission_required''
      | ErrHumanGroupMissing \<Rightarrow>
          reply_error 503 ''user administration configuration is incomplete'' ''user_admin_unavailable''
      | ErrAuthentik (APIError status) \<Rightarrow>
          if status = 400 then reply_error 400 ''authentik rejected the user input'' ''user_admin_rejected''
          else if status = 404 then reply_error 404 ''user not found'' ''not_found''
          else writeUserAdminDependencyError
      | _ \<Rightarrow> writeUserAdminDependencyError)"

definition requireUserAdmin :: "AkClient option \<Rightarrow> 'b Reply option" where
  "requireUserAdmin c =
     (if Configured c then None
      else Some (reply_error 503 ''user administration is not configured'' ''user_admin_not_configured''))"

definition parseAuthentikID :: "string \<Rightarrow> 'b Reply + int" where
  "parseAuthentikID pathID =
     (case ParseInt (TrimSpace pathID) of
        Some pk \<Rightarrow> if pk \<le> 0 then Inl (reply_error 400 ''invalid authentik user id'' ''invalid_user_input'') else Inr pk
      | None \<Rightarrow> Inl (reply_error 400 ''invalid authentik user id'' ''invalid_user_input''))"

definition invalid_body :: "'b Reply" where
  "invalid_body = reply_error 400 ''invalid JSON body'' ''invalid_user_input''"

definition identityByUsername :: "down \<Rightarrow> string \<Rightarrow> DB \<Rightarrow> IdentityRow option" where
  "identityByUsername down username db =
     (case ListIdentities down db of
        Inl _ \<Rightarrow> None
      | Inr identities \<Rightarrow> find (\<lambda>i. id_Username i = username) identities)"

subsection \<open>Listing\<close>

definition adminAccounts ::
  "down \<Rightarrow> 's Authentik \<Rightarrow> AkClient option \<Rightarrow> 's \<times> DB \<Rightarrow> adminAccountsResponse Reply \<times> 's \<times> DB" where
  "adminAccounts down ak client st =
     (case st of (s, db) \<Rightarrow>
      case ListIdentities down db of
        Inl _ \<Rightarrow> (reply_error 503 ''identity directory unavailable'' ''identity_store_unavailable'', st)
      | Inr identities \<Rightarrow>
          (case client of
             Some c \<Rightarrow>
               if \<not> Configured client
               then (reply 200 \<lparr> ar_ManagementAvailable = False, ar_Accounts = accountsFromIdentities identities \<rparr>, st)
               else (case ListUsers ak c s of
                  (Inl _, s') \<Rightarrow> (writeUserAdminDependencyError, (s', db))
                | (Inr users, s') \<Rightarrow>
                    (reply 200 \<lparr> ar_ManagementAvailable = True, ar_Accounts = mergeAdminAccounts users identities \<rparr>,
                     (s', db)))
           | None \<Rightarrow>
               (reply 200 \<lparr> ar_ManagementAvailable = False, ar_Accounts = accountsFromIdentities identities \<rparr>, st)))"

subsection \<open>Creating\<close>

record adminCreateAccountRequest =
  cr_Username :: string
  cr_Name :: string
  cr_Email :: string
  cr_Role :: string
  cr_Password :: string

text \<open>Created inactive, given its password, then activated.\<close>

definition create_write ::
  "'s Authentik \<Rightarrow> AkClient \<Rightarrow> CreateUserInput \<Rightarrow> string \<Rightarrow> 's \<Rightarrow> (UserAdminError + User) \<times> 's" where
  "create_write ak c input password s =
     and_then (CreateUser ak c input s) (\<lambda>created s.
     and_then (SetPassword ak c (us_PK created) password s) (\<lambda>_ s.
     and_then (UpdateUser ak c (us_PK created) None (Some True) None s) (\<lambda>updated s. (Inr updated, s))))"

definition create_locked ::
  "'s Authentik \<Rightarrow> AkClient \<Rightarrow> string \<Rightarrow> string \<Rightarrow> string \<Rightarrow> string \<Rightarrow> string \<Rightarrow> 's \<Rightarrow> (UserAdminError + User) \<times> 's" where
  "create_locked ak c username name email groupName password s =
     and_then (ListUsers ak c s) (\<lambda>users s.
       if \<exists>u \<in> set users. EqualFold (us_Username u) username then (Inl ErrUsernameConflict, s)
       else and_then (ListGroups ak c s) (\<lambda>groups s.
         case groupPKByName groups groupName of
           None \<Rightarrow> (Inl ErrHumanGroupMissing, s)
         | Some groupPK \<Rightarrow>
             create_write ak c \<lparr> ci_Username = username, ci_Name = name, ci_Email = email, ci_GroupPK = groupPK \<rparr>
               password s))"

definition adminCreateAccount ::
  "down \<Rightarrow> (AkRequest \<Rightarrow> 's \<Rightarrow> 's) \<Rightarrow> 's Authentik \<Rightarrow> AkClient option \<Rightarrow> HttpContext \<Rightarrow> meResponse \<Rightarrow> adminCreateAccountRequest option
   \<Rightarrow> 's \<times> DB \<Rightarrow> adminAccount Reply \<times> 's \<times> DB" where
  "adminCreateAccount down others ak client hx access body st =
     (case requireUserAdmin client of
        Some rp \<Rightarrow> (rp, st)
      | None \<Rightarrow>
          (let c = the client in case body of
             None \<Rightarrow> (invalid_body, st)
           | Some input \<Rightarrow>
               (let username = TrimSpace (cr_Username input); name = TrimSpace (cr_Name input);
                    email = TrimSpace (cr_Email input); role = ToLower (TrimSpace (cr_Role input))
                in case map_of humanRoleGroups role of
                     None \<Rightarrow> (reply_error 400 ''unknown human role'' ''invalid_role'', st)
                   | Some groupName \<Rightarrow>
                       if role = ''admin'' \<and> \<not> callerIsAdministrator access
                       then (reply_error 403 ''administrator access required for administrator-class user management''
                               ''permission_required'', st)
                       else if username = [] \<or> \<not> humanUsername username \<or> name = [] \<or> cr_Password input = []
                       then (reply_error 400
                               ''username, name and password are required and username contains invalid characters''
                               ''invalid_user_input'', st)
                       else case st of (s, db) \<Rightarrow>
                         (case WithAdvisoryLock down others ak
                                (\<lambda>ak. create_locked ak c username name email groupName (cr_Password input)) s of
                            (Inl e, s') \<Rightarrow> (writeUserAdminMutationError e, (s', db))
                          | (Inr created, s') \<Rightarrow>
                              (reply 201 (accountFromAuthentik created None),
                               (s', audit down hx access ''identity.user.created'' ''user'' username
                                      [(''role'', role)] db))))))"

subsection \<open>Changing\<close>

record adminUpdateAccountRequest =
  up_Role :: "string option"
  up_Active :: "bool option"
  up_Email :: "string option"

definition bool_word :: "bool \<Rightarrow> string" where
  "bool_word b = (if b then ''true'' else ''false'')"

definition human_pks :: "Group list \<Rightarrow> string list" where
  "human_pks groups = map gp_PK (filter (\<lambda>g. map_of humanGroupRoles (gp_Name g) \<noteq> None) groups)"

text \<open>The groups an update writes, None when the role is left alone.\<close>

definition next_groups :: "Group list \<Rightarrow> User \<Rightarrow> string option \<Rightarrow> UserAdminError + string list option" where
  "next_groups groups before role =
     (case role of
        None \<Rightarrow> Inr None
      | Some requestedRole \<Rightarrow>
          (case groupPKByName groups (case map_of humanRoleGroups requestedRole of None \<Rightarrow> [] | Some g \<Rightarrow> g) of
             None \<Rightarrow> Inl ErrHumanGroupMissing
           | Some targetPK \<Rightarrow>
               Inr (Some (uniqueStrings (filter (\<lambda>pk. pk \<notin> set (human_pks groups)) (us_Groups before) @ [targetPK])))))"

text \<open>The rest of the locked section, with the user and the groups at hand.\<close>

definition update_write ::
  "'s Authentik \<Rightarrow> AkClient \<Rightarrow> int \<Rightarrow> string option \<Rightarrow> bool option \<Rightarrow> string option \<Rightarrow> User \<Rightarrow> Group list \<Rightarrow> 's
   \<Rightarrow> (UserAdminError + User \<times> User) \<times> 's" where
  "update_write ak c pk role active email before groups s =
     (let currentRoles = user_roles before
      in case next_groups groups before role of
           Inl e \<Rightarrow> (Inl e, s)
         | Inr nextGroups \<Rightarrow>
             (let resultActive = (case active of None \<Rightarrow> us_IsActive before | Some a \<Rightarrow> a);
                  resultAdmin = (case role of None \<Rightarrow> ''admin'' \<in> set currentRoles | Some r \<Rightarrow> r = ''admin'');
                  write = (\<lambda>s. and_then (UpdateUser ak c pk nextGroups active email s)
                             (\<lambda>updated s. (Inr (before, updated), s)))
              in if us_IsActive before \<and> ''admin'' \<in> set currentRoles \<and> (\<not> resultActive \<or> \<not> resultAdmin)
                 then and_then (ListUsers ak c s) (\<lambda>users s.
                   if activeAdminCount users \<le> 1 then (Inl ErrLastAdmin, s) else write s)
                 else write s))"

definition update_locked ::
  "'s Authentik \<Rightarrow> AkClient \<Rightarrow> meResponse \<Rightarrow> int \<Rightarrow> string option \<Rightarrow> bool option \<Rightarrow> string option \<Rightarrow> 's
   \<Rightarrow> (UserAdminError + User \<times> User) \<times> 's" where
  "update_locked ak c access pk role active email s =
     and_then (GetUser ak c pk s) (\<lambda>before s.
       let currentRoles = user_roles before
       in if is_service_user before then (Inl ErrServiceIdentity, s)
          else if currentRoles = [] then (Inl ErrNotHumanAccount, s)
          else if (''admin'' \<in> set currentRoles \<or> role = Some ''admin'') \<and> \<not> callerIsAdministrator access
          then (Inl ErrAdminTarget, s)
          else and_then (ListGroups ak c s) (update_write ak c pk role active email before))"

definition adminUpdateAccount ::
  "down \<Rightarrow> (AkRequest \<Rightarrow> 's \<Rightarrow> 's) \<Rightarrow> 's Authentik \<Rightarrow> AkClient option \<Rightarrow> (string \<Rightarrow> string option) \<Rightarrow> HttpContext \<Rightarrow> meResponse \<Rightarrow> string
   \<Rightarrow> adminUpdateAccountRequest option \<Rightarrow> 's \<times> DB \<Rightarrow> adminAccount Reply \<times> 's \<times> DB" where
  "adminUpdateAccount down others ak client parseAddress hx access pathID body st =
     (case requireUserAdmin client of
        Some rp \<Rightarrow> (rp, st)
      | None \<Rightarrow>
          (let c = the client in case parseAuthentikID pathID of
             Inl rp \<Rightarrow> (rp, st)
           | Inr pk \<Rightarrow>
               (case body of
                  None \<Rightarrow> (invalid_body, st)
                | Some input \<Rightarrow>
                    if up_Role input = None \<and> up_Active input = None \<and> up_Email input = None
                    then (reply_error 400 ''role, active or email is required'' ''invalid_user_input'', st)
                    else
                      (let email = (case up_Email input of None \<Rightarrow> None
                                    | Some raw \<Rightarrow> normalizeAccountEmail parseAddress raw);
                           role = map_option (\<lambda>r. ToLower (TrimSpace r)) (up_Role input)
                       in if up_Email input \<noteq> None \<and> email = None
                          then (reply_error 400 ''email is invalid'' ''invalid_user_input'', st)
                          else if role \<noteq> None \<and> map_of humanRoleGroups (the role) = None
                          then (reply_error 400 ''unknown human role'' ''invalid_role'', st)
                          else case st of (s, db) \<Rightarrow>
                            (case WithAdvisoryLock down others ak (\<lambda>ak. update_locked ak c access pk role (up_Active input) email) s of
                               (Inl e, s') \<Rightarrow> (writeUserAdminMutationError e, (s', db))
                             | (Inr (before, updated), s') \<Rightarrow>
                                 (let db' = audit down hx access ''identity.user.updated'' ''user'' (us_Username updated)
                                        [(''roles_before'', Join (user_roles before) '',''),
                                         (''roles_after'', Join (user_roles updated) '',''),
                                         (''active_before'', bool_word (us_IsActive before)),
                                         (''active_after'', bool_word (us_IsActive updated)),
                                         (''email_changed'', bool_word (us_Email before \<noteq> us_Email updated))] db
                                  in (reply 200 (accountFromAuthentik updated
                                        (identityByUsername down (us_Username updated) db')), (s', db'))))))))"

subsection \<open>Passwords\<close>

definition password_locked ::
  "'s Authentik \<Rightarrow> AkClient \<Rightarrow> meResponse \<Rightarrow> int \<Rightarrow> string \<Rightarrow> 's \<Rightarrow> (UserAdminError + string) \<times> 's" where
  "password_locked ak c access pk password s =
     and_then (GetUser ak c pk s) (\<lambda>u s.
       let targetRoles = user_roles u
       in if is_service_user u then (Inl ErrServiceIdentity, s)
          else if targetRoles = [] then (Inl ErrNotHumanAccount, s)
          else if ''admin'' \<in> set targetRoles \<and> \<not> callerIsAdministrator access then (Inl ErrAdminTarget, s)
          else if us_Type u \<noteq> ''internal'' then (Inl ErrPasswordUnsupported, s)
          else and_then (SetPassword ak c pk password s) (\<lambda>_ s. (Inr (us_Username u), s)))"

definition adminSetAccountPassword ::
  "down \<Rightarrow> (AkRequest \<Rightarrow> 's \<Rightarrow> 's) \<Rightarrow> 's Authentik \<Rightarrow> AkClient option \<Rightarrow> HttpContext \<Rightarrow> meResponse \<Rightarrow> string \<Rightarrow> string option
   \<Rightarrow> 's \<times> DB \<Rightarrow> unit Reply \<times> 's \<times> DB" where
  "adminSetAccountPassword down others ak client hx access pathID body st =
     (case requireUserAdmin client of
        Some rp \<Rightarrow> (rp, st)
      | None \<Rightarrow>
          (let c = the client in case parseAuthentikID pathID of
             Inl rp \<Rightarrow> (rp, st)
           | Inr pk \<Rightarrow>
               if body = None \<or> body = Some []
               then (reply_error 400 ''password is required'' ''invalid_user_input'', st)
               else case st of (s, db) \<Rightarrow>
                 (case WithAdvisoryLock down others ak (\<lambda>ak. password_locked ak c access pk (the body)) s of
                    (Inl e, s') \<Rightarrow> (writeUserAdminMutationError e, (s', db))
                  | (Inr username, s') \<Rightarrow>
                      (reply 204 (),
                       (s', audit down hx access ''identity.password.reset'' ''user'' username [] db)))))"

subsection \<open>Who is an administrator, before and after an update\<close>

definition in_admins :: "User \<Rightarrow> bool" where
  "in_admins u \<longleftrightarrow> hasGroup (us_GroupsObj u) ''BSYSTEM-Admins''"

lemma human_role_iff [simp]: "map_of humanGroupRoles n = Some ''admin'' \<longleftrightarrow> n = ''BSYSTEM-Admins''"
  by (simp add: humanGroupRoles_def humanRoleGroups_def)

lemma role_of_group_iff: "map_of humanRoleGroups r = Some n \<longleftrightarrow> map_of humanGroupRoles n = Some r"
  by (auto simp: humanGroupRoles_def humanRoleGroups_def)

lemma set_user_roles: "set (user_roles u) = {r. \<exists>g \<in> set (us_GroupsObj u). map_of humanGroupRoles (gp_Name g) = Some r}"
  by (auto simp: user_roles_def rolesFromGroups_def groupNames_def List.map_filter_def image_iff)
    (metis option.sel)

lemma admin_role_iff: "''admin'' \<in> set (user_roles u) \<longleftrightarrow> in_admins u"
  by (auto simp: set_user_roles in_admins_def hasGroup_def)

lemma set_unique_from: "set (unique_from seen vs) = set vs - set seen - {[]}"
  by (induction vs arbitrary: seen) auto

lemma set_uniqueStrings: "set (uniqueStrings vs) = set vs - {[]}"
  by (simp add: uniqueStrings_def unique_def set_unique_from)

lemma groupPKByName_SomeD:
  "groupPKByName groups n = Some pk \<Longrightarrow> \<exists>g \<in> set groups. gp_Name g = n \<and> gp_PK g = pk"
  by (auto simp: groupPKByName_def find_Some_iff intro: nth_mem)

lemma coherentD:
  assumes "coherent users groups"
  shows "distinct (map us_PK users)" "g \<in> set groups \<Longrightarrow> gp_PK g \<noteq> []"
    "g \<in> set groups \<Longrightarrow> h \<in> set groups \<Longrightarrow> gp_PK g = gp_PK h \<Longrightarrow> g = h"
    "u \<in> set users \<Longrightarrow> set (us_GroupsObj u) = {g \<in> set groups. gp_PK g \<in> set (us_Groups u)}"
proof -
  show "distinct (map us_PK users)" "g \<in> set groups \<Longrightarrow> gp_PK g \<noteq> []"
    "u \<in> set users \<Longrightarrow> set (us_GroupsObj u) = {g \<in> set groups. gp_PK g \<in> set (us_Groups u)}"
    using assms by (auto simp: coherent_def member_groups_def)
  show "g \<in> set groups \<Longrightarrow> h \<in> set groups \<Longrightarrow> gp_PK g = gp_PK h \<Longrightarrow> g = h"
    using assms by (auto simp: coherent_def distinct_map inj_on_def)
qed

text \<open>A new role is the user's only human group; its other groups stay.\<close>

lemma next_groups_members:
  assumes "coherent users groups" "before \<in> set users" "next_groups groups before (Some role) = Inr (Some pks)"
    and "map_of humanRoleGroups role = Some name"
  obtains target where "target \<in> set groups" "gp_Name target = name"
    "set (member_groups groups pks) =
       insert target {g \<in> set (us_GroupsObj before). map_of humanGroupRoles (gp_Name g) = None}"
proof -
  note co = coherentD [OF assms(1)]
  obtain target where t: "target \<in> set groups" "gp_Name target = name"
    and pks: "pks = uniqueStrings (filter (\<lambda>pk. pk \<notin> set (human_pks groups)) (us_Groups before) @ [gp_PK target])"
    using assms(3,4) by (auto simp: next_groups_def split: option.splits dest!: groupPKByName_SomeD)
  have human: "gp_PK g \<in> set (human_pks groups) \<longleftrightarrow> map_of humanGroupRoles (gp_Name g) \<noteq> None" if "g \<in> set groups" for g
    using co(3) that by (auto simp: human_pks_def)
  have "g \<in> set (member_groups groups pks) \<longleftrightarrow>
      g = target \<or> g \<in> set (us_GroupsObj before) \<and> map_of humanGroupRoles (gp_Name g) = None" for g
    using t(1) co(2) [of g] co(3) [of g target] co(4) [OF assms(2)] human [of g]
    by (auto simp: pks set_uniqueStrings member_groups_def)
  then show thesis using that t by blast
qed

lemma next_groups_None: "next_groups groups before role = Inr None \<longleftrightarrow> role = None"
  by (auto simp: next_groups_def split: option.splits)

lemma patch_user_groups:
  "us_PK u = pk \<Longrightarrow> us_GroupsObj (patch_user groups pk g a e u) =
     (case g of None \<Rightarrow> us_GroupsObj u | Some pks \<Rightarrow> member_groups groups pks)"
  "us_PK u = pk \<Longrightarrow> us_IsActive (patch_user groups pk g a e u) = (case a of None \<Rightarrow> us_IsActive u | Some b \<Rightarrow> b)"
  "us_Type (patch_user groups pk g a e u) = us_Type u"
  "us_PK (patch_user groups pk g a e u) = us_PK u"
  by (simp_all add: patch_user_def)

text \<open>An update changes the one user it names.\<close>

lemma patched_split:
  assumes "distinct (map us_PK users)" "u \<in> set users"
  obtains ys zs where "users = ys @ u # zs"
    "map (patch_user groups (us_PK u) g a e) users = ys @ patch_user groups (us_PK u) g a e u # zs"
proof -
  obtain ys zs where s: "users = ys @ u # zs" using split_list [OF assms(2)] by blast
  have "us_PK w \<noteq> us_PK u" if "w \<in> set ys \<union> set zs" for w
    using that assms(1) by (auto simp: s image_iff)
  then have "patch_user groups (us_PK u) g a e w = w" if "w \<in> set ys \<union> set zs" for w
    using that by (simp add: patch_user_def)
  then have "map (patch_user groups (us_PK u) g a e) ys = ys" "map (patch_user groups (us_PK u) g a e) zs = zs"
    by (auto intro: map_idI)
  then show thesis using that s by simp
qed

lemma patched_filter:
  assumes "distinct (map us_PK users)" "u \<in> set users"
    and "P u \<Longrightarrow> P (patch_user groups (us_PK u) g a e u)"
  shows "length (filter P users) \<le> length (filter P (map (patch_user groups (us_PK u) g a e) users))"
  by (rule patched_split [OF assms(1,2), of groups g a e]) (use assms(3) in auto)

lemma patched_filter_but_one:
  assumes "distinct (map us_PK users)" "u \<in> set users"
  shows "length (filter P users) \<le> Suc (length (filter P (map (patch_user groups (us_PK u) g a e) users)))"
  by (rule patched_split [OF assms, of groups g a e]) auto

lemma patched_filter_same:
  assumes "distinct (map us_PK users)" "u \<in> set users" "\<not> P u" "\<not> P (patch_user groups (us_PK u) g a e u)"
  shows "filter P (map (patch_user groups (us_PK u) g a e) users) = filter P users"
  by (rule patched_split [OF assms(1,2), of groups g a e]) (use assms(3,4) in auto)

subsection \<open>The locked sections\<close>

text \<open>
  What the locked sections keep, for a caller who is no administrator (admins\_kept), and for everybody (the number of
  active administrators, which no section takes to zero).
\<close>

definition admins_kept :: "'s View \<Rightarrow> 's \<Rightarrow> 's \<Rightarrow> bool" where
  "admins_kept v s s' \<longleftrightarrow> vw_inv v s' \<and> filter in_admins (vw_users v s') = filter in_admins (vw_users v s) \<and>
     (\<forall>u \<in> set (vw_users v s). in_admins u \<longrightarrow> vw_password v s' (us_PK u) = vw_password v s (us_PK u))"

definition manned :: "'s View \<Rightarrow> 's \<Rightarrow> bool" where
  "manned v s \<longleftrightarrow> vw_inv v s \<and> 1 \<le> activeAdminCount (vw_users v s)"

lemma in_filterD: "filter P xs = filter P ys \<Longrightarrow> x \<in> set ys \<Longrightarrow> P x \<Longrightarrow> x \<in> set xs"
  by (metis (mono_tags) mem_Collect_eq set_filter)

lemma admins_kept_trans:
  assumes "admins_kept v s t" "admins_kept v t u"
  shows "admins_kept v s u"
proof -
  have "x \<in> set (vw_users v t)" if "x \<in> set (vw_users v s)" "in_admins x" for x
    using assms(1) that in_filterD [of in_admins "vw_users v t" "vw_users v s"] by (simp add: admins_kept_def)
  then show ?thesis using assms by (simp add: admins_kept_def)
qed

lemma unchanged_keeps:
  "unchanged v s t \<Longrightarrow> admins_kept v s t" "unchanged v s t \<Longrightarrow> manned v s \<Longrightarrow> manned v t"
  by (simp_all add: unchanged_def admins_kept_def manned_def)

lemma and_then_cases:
  assumes "and_then x k = (r, s')"
  obtains (err) e where "x = (Inl e, s')" "r = Inl (ErrAuthentik e)"
  | (ok) y t where "x = (Inr y, t)" "k y t = (r, s')"
  using assms by (auto simp: and_then_def split: prod.splits sum.splits)

text \<open>What the update finds before it writes, and when it does not write at all.\<close>

definition demotes :: "string option \<Rightarrow> bool option \<Rightarrow> User \<Rightarrow> bool" where
  "demotes role active u \<longleftrightarrow> us_IsActive u \<and> in_admins u \<and>
     (active = Some False \<or> role \<noteq> None \<and> role \<noteq> Some ''admin'')"

definition sends_update where
  "sends_update ak c v pk role active email before s r s' \<longleftrightarrow>
     (\<exists>t ng rw. unchanged v s t \<and> next_groups (vw_groups v) before role = Inr ng \<and>
        (demotes role active before \<longrightarrow> 1 < activeAdminCount (vw_users v s)) \<and>
        UpdateUser ak c pk ng active email t = (rw, s') \<and>
        r = (case rw of Inl e \<Rightarrow> Inl (ErrAuthentik e) | Inr u \<Rightarrow> Inr (before, u)))"

lemma update_write_cases:
  assumes ok: "authentik_ok ak c v" and inv: "vw_inv v s"
    and run: "update_write ak c pk role active email before (vw_groups v) s = (r, s')"
  shows "unchanged v s s' \<and> isl r \<or> sends_update ak c v pk role active email before s r s'"
proof (cases "next_groups (vw_groups v) before role")
  case (Inl e)
  then show ?thesis using run unchanged_refl [OF inv] by (auto simp: update_write_def Let_def)
next
  case (Inr ng)
  define wr where "wr = (\<lambda>s. and_then (UpdateUser ak c pk ng active email s) (\<lambda>updated s. (Inr (before, updated), s)))"
  have sends: "sends_update ak c v pk role active email before s r s'"
    if "unchanged v s t" "wr t = (r, s')" "demotes role active before \<longrightarrow> 1 < activeAdminCount (vw_users v s)" for t
    using that Inr unfolding sends_update_def wr_def and_then_def by (auto split: prod.splits sum.splits)
  show ?thesis
  proof (cases "demotes role active before")
    case False
    have "wr s = (r, s')"
      using False run Inr
      by (auto simp: update_write_def Let_def demotes_def admin_role_iff wr_def split: option.splits if_splits)
    then show ?thesis using sends [OF unchanged_refl [OF inv]] False by blast
  next
    case True
    have "and_then (ListUsers ak c s)
        (\<lambda>users s. if activeAdminCount users \<le> 1 then (Inl ErrLastAdmin, s) else wr s) = (r, s')"
      using True run Inr unfolding wr_def
      by (auto simp: update_write_def Let_def demotes_def admin_role_iff split: option.splits if_splits)
    then show ?thesis
    proof (cases rule: and_then_cases)
      case (err e)
      then show ?thesis using authentik.users_listed [OF ok inv err(1)] by simp
    next
      case (ok users t)
      then show ?thesis using authentik.users_listed [OF assms(1) inv ok(1)] sends
        by (auto split: if_splits)
    qed
  qed
qed

lemma update_locked_cases:
  assumes ok: "authentik_ok ak c v" and inv: "vw_inv v s"
    and run: "update_locked ak c access pk role active email s = (r, s')"
  obtains (refused) "unchanged v s s'" "isl r"
  | (sent) before where "before \<in> set (vw_users v s)" "us_PK before = pk" "\<not> is_service_user before"
      "in_admins before \<or> role = Some ''admin'' \<Longrightarrow> callerIsAdministrator access"
      "sends_update ak c v pk role active email before s r s'"
  using run unfolding update_locked_def
proof (cases rule: and_then_cases)
  case (err e)
  then show thesis using refused authentik.user_got [OF ok inv err(1)] by simp
next
  case 1: (ok before t)
  have b: "unchanged v s t" "before \<in> set (vw_users v s)" "us_PK before = pk"
    using authentik.user_got [OF ok inv 1(1)] by simp_all
  have it: "vw_inv v t" "vw_users v t = vw_users v s" using b(1) by (simp_all add: unchanged_def)
  show thesis
  proof (cases "is_service_user before \<or> user_roles before = [] \<or>
      (in_admins before \<or> role = Some ''admin'') \<and> \<not> callerIsAdministrator access")
    case True
    then show thesis using 1(2) b(1) refused by (auto simp: Let_def admin_role_iff split: if_splits)
  next
    case False
    then have "and_then (ListGroups ak c t) (update_write ak c pk role active email before) = (r, s')"
      using 1(2) by (auto simp: Let_def admin_role_iff)
    then show thesis
    proof (cases rule: and_then_cases)
      case (err e)
      then show thesis
        using refused unchanged_trans [OF b(1)] authentik.groups_listed [OF ok it(1) err(1)] by simp
    next
      case 2: (ok groups w)
      have g: "unchanged v t w" "groups = vw_groups v" using authentik.groups_listed [OF ok it(1) 2(1)] by simp_all
      then have "vw_inv v w" by (simp add: unchanged_def)
      from update_write_cases [OF ok this 2(2) [unfolded g(2)]] show thesis
      proof
        assume "unchanged v w s' \<and> isl r"
        then show thesis using refused unchanged_trans [OF unchanged_trans [OF b(1) g(1)]] by blast
      next
        assume "sends_update ak c v pk role active email before w r s'"
        then have "sends_update ak c v pk role active email before s r s'"
          using unchanged_trans [OF unchanged_trans [OF b(1) g(1)]] b(1) g(1)
          unfolding sends_update_def unchanged_def by metis
        then show thesis using sent b(2,3) False by blast
      qed
    qed
  qed
qed

text \<open>The user as the update leaves it.\<close>

lemma map_filter_one:
  assumes "distinct xs" "t \<in> set xs" "f t = Some r" "\<And>x. x \<in> set xs \<Longrightarrow> f x \<noteq> None \<Longrightarrow> x = t"
  shows "List.map_filter f xs = [r]"
proof -
  have "filter (\<lambda>x. f x \<noteq> None) xs = filter (\<lambda>x. x = t) xs" using assms(3,4) by (intro filter_cong) auto
  also have "\<dots> = [t]" using assms(1,2) by (induction xs) (auto simp: filter_empty_conv)
  finally show ?thesis using assms(3) by (simp add: List.map_filter_def comp_def)
qed

lemma rolesFromGroups_sort: "rolesFromGroups (sort ns) = rolesFromGroups ns"
  unfolding rolesFromGroups_def by (rule properties_for_sort) (simp_all add: List.map_filter_def)

lemma user_roles_one:
  assumes "distinct (us_GroupsObj u)" "t \<in> set (us_GroupsObj u)" "map_of humanGroupRoles (gp_Name t) = Some r"
    and "\<And>g. g \<in> set (us_GroupsObj u) \<Longrightarrow> map_of humanGroupRoles (gp_Name g) \<noteq> None \<Longrightarrow> g = t"
  shows "user_roles u = [r]"
proof -
  have "List.map_filter (map_of humanGroupRoles) (map gp_Name (us_GroupsObj u)) =
      List.map_filter (\<lambda>g. map_of humanGroupRoles (gp_Name g)) (us_GroupsObj u)"
    by (simp add: List.map_filter_def filter_map comp_def)
  also have "\<dots> = [r]" 
    by (rule map_filter_one [of "us_GroupsObj u" t "\<lambda>g. map_of humanGroupRoles (gp_Name g)", OF assms])
  finally show ?thesis
    unfolding user_roles_def groupNames_def rolesFromGroups_sort by (simp add: rolesFromGroups_def)
qed

definition human_role :: "string option \<Rightarrow> bool" where
  "human_role role \<longleftrightarrow> role = None \<or> map_of humanRoleGroups (the role) \<noteq> None"

lemma patched_user:
  fixes a :: "bool option" and e :: "string option"
  assumes co: "coherent users groups" and b: "before \<in> set users"
    and ng: "next_groups groups before role = Inr ng" and hr: "human_role role"
  defines "after \<equiv> patch_user groups (us_PK before) ng a e before"
  shows "in_admins after \<longleftrightarrow> (case role of None \<Rightarrow> in_admins before | Some r \<Rightarrow> r = ''admin'')"
    "is_service_user after \<longleftrightarrow> is_service_user before"
    "role = Some r \<Longrightarrow> user_roles after = [r]"
    "map_of humanGroupRoles (gp_Name g) = None \<Longrightarrow> g \<in> set (us_GroupsObj after) \<longleftrightarrow> g \<in> set (us_GroupsObj before)"
proof -
  have "(in_admins after \<longleftrightarrow> (case role of None \<Rightarrow> in_admins before | Some r \<Rightarrow> r = ''admin'')) \<and>
    (is_service_user after \<longleftrightarrow> is_service_user before) \<and> (role = Some r \<longrightarrow> user_roles after = [r]) \<and>
    (map_of humanGroupRoles (gp_Name g) = None \<longrightarrow> (g \<in> set (us_GroupsObj after) \<longleftrightarrow> g \<in> set (us_GroupsObj before)))"
  proof (cases role)
    case None
    then have "us_GroupsObj after = us_GroupsObj before" using ng by (simp add: next_groups_def after_def patch_user_groups)
    then show ?thesis using None
      by (simp add: in_admins_def is_service_user_def service_type_def after_def patch_user_groups)
  next
    case (Some x)
    obtain name where name: "map_of humanRoleGroups x = Some name" using hr Some by (auto simp: human_role_def)
    obtain pks where pks: "ng = Some pks" using ng Some next_groups_None by (cases ng) auto
    obtain t where t: "t \<in> set groups" "gp_Name t = name"
      and m: "set (member_groups groups pks) =
        insert t {g \<in> set (us_GroupsObj before). map_of humanGroupRoles (gp_Name g) = None}"
      using next_groups_members [OF co b ng [unfolded Some pks] name] by blast
    have obj: "us_GroupsObj after = member_groups groups pks" by (simp add: after_def patch_user_groups pks)
    have services: "map_of humanGroupRoles ''BSYSTEM-Services'' = None"
      by (simp add: humanGroupRoles_def humanRoleGroups_def)
    have tr: "map_of humanGroupRoles (gp_Name t) = Some x" using name t(2) by (simp add: role_of_group_iff)
    have "distinct (member_groups groups pks)"
      using co by (simp add: coherent_def member_groups_def distinct_map)
    then have "user_roles after = [x]" using m obj tr by (intro user_roles_one [of _ t]) auto
    moreover have "in_admins after \<longleftrightarrow> x = ''admin''"
      using admin_role_iff [of after] calculation by auto
    moreover have "hasGroup (us_GroupsObj after) ''BSYSTEM-Services'' \<longleftrightarrow> hasGroup (us_GroupsObj before) ''BSYSTEM-Services''"
      using m obj tr services by (auto simp: hasGroup_def)
    moreover have "us_Type after = us_Type before" by (simp add: after_def patch_user_groups)
    ultimately show ?thesis using Some m obj tr
      by (auto simp: is_service_user_def service_type_def)
  qed
  then show "in_admins after \<longleftrightarrow> (case role of None \<Rightarrow> in_admins before | Some r \<Rightarrow> r = ''admin'')"
    "is_service_user after \<longleftrightarrow> is_service_user before"
    "role = Some r \<Longrightarrow> user_roles after = [r]"
    "map_of humanGroupRoles (gp_Name g) = None \<Longrightarrow> g \<in> set (us_GroupsObj after) \<longleftrightarrow> g \<in> set (us_GroupsObj before)"
    by blast+
qed

text \<open>What is written.\<close>

lemma sends_update_cases:
  assumes ok: "authentik_ok ak c v" and inv: "vw_inv v s" and b: "before \<in> set (vw_users v s)" "us_PK before = pk"
    and sent: "sends_update ak c v pk role active email before s r s'"
  obtains (not_done) "unchanged v s s'" "isl r"
  | (effect) ng where "next_groups (vw_groups v) before role = Inr ng"
      "demotes role active before \<Longrightarrow> 1 < activeAdminCount (vw_users v s)"
      "vw_inv v s'" "vw_password v s' = vw_password v s"
      "vw_users v s' = map (patch_user (vw_groups v) pk ng active email) (vw_users v s)"
proof -
  obtain t ng rw where t: "unchanged v s t" "next_groups (vw_groups v) before role = Inr ng"
    "demotes role active before \<Longrightarrow> 1 < activeAdminCount (vw_users v s)"
    "UpdateUser ak c pk ng active email t = (rw, s')"
    "r = (case rw of Inl e \<Rightarrow> Inl (ErrAuthentik e) | Inr u \<Rightarrow> Inr (before, u))"
    using sent unfolding sends_update_def by blast
  have "vw_inv v t" using t(1) by (simp add: unchanged_def)
  from authentik.user_updated [OF ok this t(4)] show thesis
    using t that by (auto simp: unchanged_def split: sum.splits)
qed

lemma active_adminI: "active_admin u \<longleftrightarrow> us_IsActive u \<and> \<not> is_service_user u \<and> in_admins u"
  by (simp add: active_admin_def in_admins_def)

lemma update_locked_manned:
  assumes ok: "authentik_ok ak c v" and m: "manned v s" and hr: "human_role role"
    and run: "update_locked ak c access pk role active email s = (r, s')"
  shows "manned v s'"
proof -
  have inv: "vw_inv v s" using m by (simp add: manned_def)
  note co = authentik.is_coherent [OF ok inv]
  show ?thesis
  proof (cases rule: update_locked_cases [OF ok inv run])
    case 1
    then show ?thesis using unchanged_keeps(2) [OF _ m] by blast
  next
    case (2 before)
    show ?thesis
    proof (cases rule: sends_update_cases [OF ok inv 2(1,2,5)])
      case 1
      then show ?thesis using unchanged_keeps(2) [OF _ m] by blast
    next
      case w: (2 ng)
      have d: "distinct (map us_PK (vw_users v s))" by (rule coherentD(1) [OF co])
      show ?thesis
      proof (cases "demotes role active before")
        case True
        then show ?thesis
          using patched_filter_but_one [OF d 2(1), of active_admin "vw_groups v" ng active email] w 2(2)
          by (auto simp: manned_def activeAdminCount_def)
      next
        case False
        have "active_admin (patch_user (vw_groups v) (us_PK before) ng active email before)" if "active_admin before"
          using that False patched_user(1,2) [OF co 2(1) w(1) hr, where a = active and e = email] patch_user_groups(2) [OF refl]
          by (auto simp: active_adminI demotes_def split: option.splits)
        then show ?thesis
          using patched_filter [OF d 2(1), of active_admin "vw_groups v" ng active email] w m 2(2)
          by (simp add: manned_def activeAdminCount_def)
      qed
    qed
  qed
qed

lemma update_locked_keeps:
  assumes ok: "authentik_ok ak c v" and inv: "vw_inv v s" and hr: "human_role role"
    and run: "update_locked ak c access pk role active email s = (r, s')" and caller: "\<not> callerIsAdministrator access"
  shows "admins_kept v s s'"
proof -
  note co = authentik.is_coherent [OF ok inv]
  show ?thesis
  proof (cases rule: update_locked_cases [OF ok inv run])
    case 1
    then show ?thesis by (simp add: unchanged_keeps)
  next
    case (2 before)
    show ?thesis
    proof (cases rule: sends_update_cases [OF ok inv 2(1,2,5)])
      case 1
      then show ?thesis by (simp add: unchanged_keeps)
    next
      case w: (2 ng)
      have n: "\<not> in_admins before" "role \<noteq> Some ''admin''" using 2(4) caller by blast+
      then have "\<not> in_admins (patch_user (vw_groups v) (us_PK before) ng active email before)"
        using patched_user(1) [OF co 2(1) w(1) hr, where a = active and e = email] by (auto split: option.splits)
      then show ?thesis
        using patched_filter_same [where P = in_admins, OF coherentD(1) [OF co] 2(1) n(1)] w 2(2) by (simp add: admins_kept_def)
    qed
  qed
qed

text \<open>A role that was set is the user's one human role.\<close>

lemma update_locked_role:
  assumes ok: "authentik_ok ak c v" and inv: "vw_inv v s" and hr: "human_role (Some role)"
    and run: "update_locked ak c access pk (Some role) active email s = (Inr (before, updated), s')"
  shows "\<exists>u \<in> set (vw_users v s'). us_PK u = pk \<and> user_roles u = [role] \<and> before \<in> set (vw_users v s) \<and> us_PK before = pk \<and>
    \<not> is_service_user before \<and> (in_admins before \<or> in_admins u \<longrightarrow> callerIsAdministrator access) \<and>
    (\<forall>g. map_of humanGroupRoles (gp_Name g) = None \<longrightarrow> (g \<in> set (us_GroupsObj u) \<longleftrightarrow> g \<in> set (us_GroupsObj before)))"
proof -
  note co = authentik.is_coherent [OF ok inv]
  show ?thesis
  proof (cases rule: update_locked_cases [OF ok inv run])
    case 1
    then show ?thesis by simp
  next
    case (2 b)
    obtain rw :: "AkError + User" where
      "Inr (before, updated) = (case rw of Inl e \<Rightarrow> Inl (ErrAuthentik e) | Inr u \<Rightarrow> Inr (b, u))"
      using 2(5) unfolding sends_update_def by blast
    then have bb: "b = before" by (cases rw) simp_all
    show ?thesis
    proof (cases rule: sends_update_cases [OF ok inv 2(1,2,5)])
      case 1
      then show ?thesis by simp
    next
      case w: (2 ng)
      let ?u = "patch_user (vw_groups v) (us_PK before) ng active email before"
      have "?u \<in> set (vw_users v s')" using w(5) 2(1,2) bb by auto
      moreover have "us_PK ?u = pk" using 2(2) bb by (simp add: patch_user_groups)
      moreover have "user_roles ?u = [role]"
        by (rule patched_user(3) [OF co _ w(1) [unfolded bb] hr refl]) (use 2(1) bb in simp)
      moreover have "\<forall>g. map_of humanGroupRoles (gp_Name g) = None \<longrightarrow>
          (g \<in> set (us_GroupsObj ?u) \<longleftrightarrow> g \<in> set (us_GroupsObj before))"
        using patched_user(4) [OF co 2(1) w(1) hr, where a = active and e = email] bb by blast
      moreover have "in_admins ?u \<longleftrightarrow> role = ''admin''" using \<open>user_roles ?u = [role]\<close> admin_role_iff [of ?u] by auto
      ultimately show ?thesis using 2 bb by blast
    qed
  qed
qed

lemma password_locked_keeps:
  assumes ok: "authentik_ok ak c v" and inv: "vw_inv v s"
    and run: "password_locked ak c access pk password s = (r, s')"
  shows "vw_inv v s' \<and> vw_users v s' = vw_users v s" "\<not> callerIsAdministrator access \<Longrightarrow> admins_kept v s s'"
proof -
  note co = authentik.is_coherent [OF ok inv]
  have "vw_inv v s' \<and> vw_users v s' = vw_users v s \<and> (\<not> callerIsAdministrator access \<longrightarrow> admins_kept v s s')"
    using run unfolding password_locked_def
  proof (cases rule: and_then_cases)
    case (err e)
    then have "unchanged v s s'" using authentik.user_got [OF ok inv err(1)] by simp
    then show ?thesis by (simp add: unchanged_keeps) (simp add: unchanged_def)
  next
    case 1: (ok u t)
    have b: "unchanged v s t" "u \<in> set (vw_users v s)" "us_PK u = pk"
      using authentik.user_got [OF ok inv 1(1)] by simp_all
    have inv_t: "vw_inv v t" using b(1) by (simp add: unchanged_def)
    show ?thesis
    proof (cases "is_service_user u \<or> user_roles u = [] \<or> in_admins u \<and> \<not> callerIsAdministrator access \<or>
        us_Type u \<noteq> ''internal''")
      case True
      then have "s' = t" using 1(2) by (auto simp: Let_def admin_role_iff split: if_splits)
      then show ?thesis using b(1) by (simp add: unchanged_keeps) (simp add: unchanged_def)
    next
      case False
      then have "and_then (SetPassword ak c pk password t) (\<lambda>_ s. (Inr (us_Username u), s)) = (r, s')"
        using 1(2) by (auto simp: Let_def admin_role_iff)
      then obtain rp where "SetPassword ak c pk password t = (rp, s')"
        by (cases rule: and_then_cases) auto
      then have w: "vw_inv v s'" "vw_users v s' = vw_users v t"
        "\<And>other. other \<noteq> pk \<Longrightarrow> vw_password v s' other = vw_password v t other"
        using authentik.password_set [OF ok inv_t] by blast+
      have "us_PK x \<noteq> pk" if "x \<in> set (vw_users v s)" "in_admins x" "\<not> callerIsAdministrator access" for x
        using that b(2,3) False coherentD(1) [OF co] by (auto simp: distinct_map inj_on_def)
      then show ?thesis using w b(1) by (auto simp: admins_kept_def unchanged_def)
    qed
  qed
  then show "vw_inv v s' \<and> vw_users v s' = vw_users v s" "\<not> callerIsAdministrator access \<Longrightarrow> admins_kept v s s'"
    by blast+
qed

lemma create_write_cases:
  assumes ok: "authentik_ok ak c v" and inv: "vw_inv v s" and run: "create_write ak c input password s = (r, s')"
  obtains (nothing) "unchanged v s s'"
  | (added) pk where "pk \<notin> us_PK ` set (vw_users v s)" "vw_inv v s'"
      "\<And>other. other \<noteq> pk \<Longrightarrow> vw_password v s' other = vw_password v s other"
      "vw_users v s' = vw_users v s @ [new_user (vw_groups v) input pk] \<or>
       vw_users v s' = map (patch_user (vw_groups v) pk None (Some True) None) (vw_users v s @ [new_user (vw_groups v) input pk])"
  using run unfolding create_write_def
proof (cases rule: and_then_cases)
  case (err e)
  from authentik.user_created [OF ok inv err(1)] show thesis
  proof (elim conjE disjE exE)
    assume "vw_users v s' = vw_users v s" "vw_inv v s'" "vw_password v s' = vw_password v s"
    then have "unchanged v s s'" by (simp add: unchanged_def)
    then show thesis by (rule nothing)
  next
    fix pk
    assume "pk \<notin> us_PK ` set (vw_users v s)" "vw_inv v s'" "vw_password v s' = vw_password v s"
      "vw_users v s' = vw_users v s @ [new_user (vw_groups v) input pk]"
    then show thesis using added [of pk] by simp
  qed
next
  case 1: (ok created t)
  obtain pk where pk: "pk \<notin> us_PK ` set (vw_users v s)" "us_PK created = pk"
    and t: "vw_inv v t" "vw_password v t = vw_password v s" "vw_users v t = vw_users v s @ [new_user (vw_groups v) input pk]"
    using authentik.user_created [OF ok inv 1(1)] by auto
  from 1(2) show thesis unfolding pk(2)
  proof (cases rule: and_then_cases)
    case (err e)
    then show thesis using authentik.password_set [OF ok t(1) err(1)] added [OF pk(1)] t by simp
  next
    case 2: (ok x w)
    note w = authentik.password_set [OF ok t(1) 2(1)]
    obtain ru where "UpdateUser ak c pk None (Some True) None w = (ru, s')"
      using 2(2) by (cases rule: and_then_cases) auto
    then show thesis using authentik.user_updated [OF ok] w t added [OF pk(1)] by metis
  qed
qed

lemma create_write_keeps:
  assumes ok: "authentik_ok ak c v" and inv: "vw_inv v s" and run: "create_write ak c input password s = (r, s')"
  shows "manned v s \<Longrightarrow> manned v s'"
    "(\<And>g. g \<in> set (vw_groups v) \<Longrightarrow> gp_PK g = ci_GroupPK input \<Longrightarrow> gp_Name g \<noteq> ''BSYSTEM-Admins'') \<Longrightarrow> admins_kept v s s'"
proof -
  note co = authentik.is_coherent [OF ok inv]
  have "(manned v s \<longrightarrow> manned v s') \<and>
    ((\<forall>g \<in> set (vw_groups v). gp_PK g = ci_GroupPK input \<longrightarrow> gp_Name g \<noteq> ''BSYSTEM-Admins'') \<longrightarrow> admins_kept v s s')"
  proof (cases rule: create_write_cases [OF ok inv run])
    case 1
    from unchanged_keeps [OF this] show ?thesis by simp
  next
    case (2 pk)
    let ?new = "new_user (vw_groups v) input pk"
    let ?us = "vw_users v s @ [?new]"
    let ?p = "patch_user (vw_groups v) pk None (Some True) None"
    have new: "us_PK ?new = pk" by (simp add: new_user_def)
    have d: "distinct (map us_PK ?us)" using coherentD(1) [OF co] 2(1) new by simp
    have mono: "length (filter active_admin ?us) \<le> length (filter active_admin (map ?p ?us))"
      using patched_filter [OF d, of ?new active_admin "vw_groups v" None "Some True" None] new
      by (simp add: active_adminI is_service_user_def in_admins_def service_type_def patch_user_groups)
    have "1 \<le> length (filter active_admin (vw_users v s)) \<Longrightarrow> 1 \<le> length (filter active_admin (map ?p ?us))"
      using mono by (simp del: map_append)
    then have A: "manned v s \<longrightarrow> manned v s'"
      using 2(2,4) by (auto simp: manned_def activeAdminCount_def simp del: map_append)
    have "filter in_admins (vw_users v s') = filter in_admins (vw_users v s)"
      if "\<forall>g \<in> set (vw_groups v). gp_PK g = ci_GroupPK input \<longrightarrow> gp_Name g \<noteq> ''BSYSTEM-Admins''"
    proof -
      have n: "\<not> in_admins ?new" using that by (auto simp: in_admins_def hasGroup_def new_user_def member_groups_def)
      then have "\<not> in_admins (?p ?new)" by (simp add: in_admins_def patch_user_groups new)
      then have "filter in_admins (map ?p ?us) = filter in_admins ?us"
        using patched_filter_same [where P = in_admins, OF d _ n, of "vw_groups v" None "Some True" None] new by simp
      moreover have "filter in_admins ?us = filter in_admins (vw_users v s)" using n by simp
      ultimately show ?thesis using 2(4) by metis
    qed
    moreover have "us_PK u \<noteq> pk" if "u \<in> set (vw_users v s)" for u using 2(1) that by auto
    ultimately show ?thesis using A 2(2,3) by (simp add: admins_kept_def)
  qed
  then show "manned v s \<Longrightarrow> manned v s'"
    "(\<And>g. g \<in> set (vw_groups v) \<Longrightarrow> gp_PK g = ci_GroupPK input \<Longrightarrow> gp_Name g \<noteq> ''BSYSTEM-Admins'') \<Longrightarrow> admins_kept v s s'"
    by blast+
qed

lemma create_locked_keeps:
  assumes ok: "authentik_ok ak c v" and inv: "vw_inv v s"
    and run: "create_locked ak c username name email groupName password s = (r, s')"
  shows "manned v s \<Longrightarrow> manned v s'" "groupName \<noteq> ''BSYSTEM-Admins'' \<Longrightarrow> admins_kept v s s'"
proof -
  note co = authentik.is_coherent [OF ok inv]
  have read: "(manned v s \<longrightarrow> manned v t) \<and> admins_kept v s t" if "unchanged v s t" for t
    using unchanged_keeps [OF that] by blast
  have "(manned v s \<longrightarrow> manned v s') \<and> (groupName \<noteq> ''BSYSTEM-Admins'' \<longrightarrow> admins_kept v s s')"
    using run unfolding create_locked_def
  proof (cases rule: and_then_cases)
    case (err e)
    then show ?thesis using authentik.users_listed [OF ok inv err(1)] read by blast
  next
    case 1: (ok users t)
    have t: "unchanged v s t" "vw_inv v t" using authentik.users_listed [OF ok inv 1(1)] by (simp_all add: unchanged_def)
    show ?thesis
    proof (cases "\<exists>u \<in> set users. EqualFold (us_Username u) username")
      case True
      then show ?thesis using 1(2) read [OF t(1)] by simp
    next
      case False
      from 1(2) [unfolded if_not_P [OF False]] show ?thesis
      proof (cases rule: and_then_cases)
        case (err e)
        then show ?thesis using authentik.groups_listed [OF ok t(2) err(1)] read unchanged_trans [OF t(1)] by blast
      next
        case 2: (ok groups w)
        have w: "unchanged v s w" "vw_inv v w" "groups = vw_groups v"
          using authentik.groups_listed [OF ok t(2) 2(1)] t(1) by (simp_all add: unchanged_def)
        show ?thesis
        proof (cases "groupPKByName groups groupName")
          case None
          then show ?thesis using 2(2) read [OF w(1)] by simp
        next
          case (Some pk)
          note cr = create_write_keeps [OF ok w(2), of "\<lparr> ci_Username = username, ci_Name = name, ci_Email = email,
            ci_GroupPK = pk \<rparr>" password r s']
          have run2: "create_write ak c \<lparr> ci_Username = username, ci_Name = name, ci_Email = email, ci_GroupPK = pk \<rparr>
              password w = (r, s')" using 2(2) Some by simp
          have "gp_Name g = groupName" if "g \<in> set (vw_groups v)" "gp_PK g = pk" for g
            using groupPKByName_SomeD [OF Some [unfolded w(3)]] coherentD(3) [OF co that(1)] that(2) by blast
          then show ?thesis
            using cr [OF run2] read [OF w(1)] admins_kept_trans [of v s w s'] by auto
        qed
      qed
    qed
  qed
  then show "manned v s \<Longrightarrow> manned v s'" "groupName \<noteq> ''BSYSTEM-Admins'' \<Longrightarrow> admins_kept v s s'" by blast+
qed

subsection \<open>The handlers, in any order\<close>

text \<open>
  A history of requests by callers of some kind, each with its own failures of the database and of taking the lock (and
  authentik failing where it likes).  A session that has the lock keeps it to the end of its section.
\<close>

inductive accounts_step ::
  "'s Authentik \<Rightarrow> AkClient \<Rightarrow> (string \<Rightarrow> string option) \<Rightarrow> meResponse \<Rightarrow> 's \<times> DB \<Rightarrow> 's \<times> DB \<Rightarrow> bool"
  for ak c parseAddress access where
  listed: "accounts_step ak c parseAddress access st (snd (adminAccounts down ak (Some c) st))"
| created: "\<not> down ''session_lost'' \<Longrightarrow> accounts_step ak c parseAddress access st (snd (adminCreateAccount down others ak (Some c) hx access body st))"
| updated: "\<not> down ''session_lost'' \<Longrightarrow> accounts_step ak c parseAddress access st
    (snd (adminUpdateAccount down others ak (Some c) parseAddress hx access pathID change st))"
| password_set: "\<not> down ''session_lost'' \<Longrightarrow> accounts_step ak c parseAddress access st
    (snd (adminSetAccountPassword down others ak (Some c) hx access pathID password st))"

inductive accounts_run ::
  "'s Authentik \<Rightarrow> AkClient \<Rightarrow> (string \<Rightarrow> string option) \<Rightarrow> (meResponse \<Rightarrow> bool) \<Rightarrow> 's \<times> DB \<Rightarrow> 's \<times> DB \<Rightarrow> bool"
  for ak c parseAddress callers where
  start: "accounts_run ak c parseAddress callers st st"
| step: "\<lbrakk>accounts_run ak c parseAddress callers st t; callers access; accounts_step ak c parseAddress access t u\<rbrakk>
    \<Longrightarrow> accounts_run ak c parseAddress callers st u"

lemma WithAdvisoryLock_cases:
  "WithAdvisoryLock down others ak f s = (r, s') \<Longrightarrow> \<not> down ''session_lost'' \<Longrightarrow> (s' = s \<and> isl r) \<or> f ak s = (r, s')"
  by (auto simp: WithAdvisoryLock_def split: if_splits)

lemma adminAccounts_state:
  assumes "authentik_ok ak c v" "vw_inv v (fst st)"
  shows "unchanged v (fst st) (fst (snd (adminAccounts down ak (Some c) st)))"
proof -
  obtain s db where st: "st = (s, db)" by (cases st)
  obtain r s' where l: "ListUsers ak c s = (r, s')" by (cases "ListUsers ak c s")
  then have "unchanged v s s'" "unchanged v s s"
    using authentik.users_listed [OF assms(1)] assms(2) st by (simp_all add: unchanged_refl)
  then show ?thesis by (auto simp: adminAccounts_def st l split: sum.splits)
qed

lemma adminCreateAccount_state:
  assumes held: "\<not> down ''session_lost''"
  shows "fst (snd (adminCreateAccount down others ak (Some c) hx access body st)) = fst st \<or>
   (\<exists>username name email groupName password r.
      (groupName = ''BSYSTEM-Admins'' \<longrightarrow> callerIsAdministrator access) \<and>
      create_locked ak c username name email groupName password (fst st)
        = (r, fst (snd (adminCreateAccount down others ak (Some c) hx access body st))))"
proof (cases "requireUserAdmin (Some c) :: adminAccount Reply option")
  case (Some rp)
  then show ?thesis by (simp add: adminCreateAccount_def)
next
  case None
  obtain s db where st: "st = (s, db)" by (cases st)
  show ?thesis
  proof (cases body)
    case None
    then show ?thesis using \<open>requireUserAdmin (Some c) = None\<close> by (simp add: adminCreateAccount_def)
  next
    case (Some input)
    define role where "role = ToLower (TrimSpace (cr_Role input))"
    show ?thesis
    proof (cases "map_of humanRoleGroups role")
      case None
      then show ?thesis using \<open>requireUserAdmin (Some c) = None\<close> Some
        by (simp add: adminCreateAccount_def Let_def flip: role_def)
    next
      case g: (Some groupName)
      have adm: "groupName = ''BSYSTEM-Admins'' \<longleftrightarrow> role = ''admin''"
        using g role_of_group_iff [of role groupName] human_role_iff by (metis option.inject)
      obtain r s' where run: "WithAdvisoryLock down others ak (\<lambda>ak. create_locked ak c (TrimSpace (cr_Username input))
          (TrimSpace (cr_Name input)) (TrimSpace (cr_Email input)) groupName (cr_Password input)) s = (r, s')" by fastforce
      have "fst (snd (adminCreateAccount down others ak (Some c) hx access body st)) \<in> {s, s'} \<and>
        (fst (snd (adminCreateAccount down others ak (Some c) hx access body st)) \<noteq> s \<longrightarrow>
           (role = ''admin'' \<longrightarrow> callerIsAdministrator access))"
        using \<open>requireUserAdmin (Some c) = None\<close> Some g run
        by (simp add: adminCreateAccount_def Let_def st flip: role_def) (auto split: sum.splits)
      then show ?thesis using WithAdvisoryLock_cases [OF run held] adm st by (metis fst_conv insertE singletonD)
    qed
  qed
qed

lemma adminUpdateAccount_state:
  assumes held: "\<not> down ''session_lost''"
  shows "fst (snd (adminUpdateAccount down others ak (Some c) parseAddress hx access pathID change st)) = fst st \<or>
   (\<exists>pk role active email r. human_role role \<and>
      update_locked ak c access pk role active email (fst st)
        = (r, fst (snd (adminUpdateAccount down others ak (Some c) parseAddress hx access pathID change st))))"
proof (cases "requireUserAdmin (Some c) :: adminAccount Reply option")
  case (Some rp)
  then show ?thesis by (simp add: adminUpdateAccount_def)
next
  case rq: None
  obtain s db where st: "st = (s, db)" by (cases st)
  show ?thesis
  proof (cases "parseAuthentikID pathID :: adminAccount Reply + int")
    case (Inl rp)
    then show ?thesis using rq by (simp add: adminUpdateAccount_def)
  next
    case pk: (Inr pk)
    show ?thesis
    proof (cases change)
      case None
      then show ?thesis using rq pk by (simp add: adminUpdateAccount_def)
    next
      case (Some input)
      define email where "email = (case up_Email input of None \<Rightarrow> None | Some raw \<Rightarrow> normalizeAccountEmail parseAddress raw)"
      define role where "role = map_option (\<lambda>r. ToLower (TrimSpace r)) (up_Role input)"
      obtain r s' where run: "WithAdvisoryLock down others ak (\<lambda>ak. update_locked ak c access pk role (up_Active input) email) s = (r, s')"
        by fastforce
      have "fst (snd (adminUpdateAccount down others ak (Some c) parseAddress hx access pathID change st)) \<in> {s, s'} \<and>
        (fst (snd (adminUpdateAccount down others ak (Some c) parseAddress hx access pathID change st)) \<noteq> s \<longrightarrow> human_role role)"
        using rq pk Some run
        by (simp add: adminUpdateAccount_def Let_def st human_role_def flip: email_def role_def)
          (auto simp: Let_def split: sum.splits)
      then show ?thesis using WithAdvisoryLock_cases [OF run held] st by (metis fst_conv insertE singletonD)
    qed
  qed
qed

lemma adminSetAccountPassword_state:
  assumes held: "\<not> down ''session_lost''"
  shows "fst (snd (adminSetAccountPassword down others ak (Some c) hx access pathID password st)) = fst st \<or>
   (\<exists>pk pw r. password_locked ak c access pk pw (fst st)
      = (r, fst (snd (adminSetAccountPassword down others ak (Some c) hx access pathID password st))))"
proof -
  obtain s db where st: "st = (s, db)" by (cases st)
  have "fst (snd (adminSetAccountPassword down others ak (Some c) hx access pathID password st)) = s \<or>
    (\<exists>pk r. WithAdvisoryLock down others ak (\<lambda>ak. password_locked ak c access pk (the password)) s
       = (r, fst (snd (adminSetAccountPassword down others ak (Some c) hx access pathID password st))))"
    unfolding adminSetAccountPassword_def Let_def st by (auto split: option.splits sum.splits prod.splits)
  then show ?thesis using WithAdvisoryLock_cases [of down others ak, OF _ held] st by (metis fst_conv)
qed

lemma accounts_step_manned:
  assumes ok: "authentik_ok ak c v" and m: "manned v (fst st)" and step: "accounts_step ak c parseAddress access st st'"
  shows "manned v (fst st')"
proof -
  have inv: "vw_inv v (fst st)" using m by (simp add: manned_def)
  from step show ?thesis
  proof cases
    case (listed down)
    then show ?thesis using unchanged_keeps(2) [OF adminAccounts_state [OF ok inv] m] by simp
  next
    case (created down others hx body)
    then show ?thesis
      using adminCreateAccount_state [of down others ak c hx access body st, OF created(2)] create_locked_keeps(1) [OF ok inv _ m] m by metis
  next
    case (updated down others hx pathID change)
    then show ?thesis
      using adminUpdateAccount_state [of down others ak c parseAddress hx access pathID change st, OF updated(2)] update_locked_manned [OF ok m] m
      by metis
  next
    case (password_set down others hx pathID password)
    then show ?thesis
      using adminSetAccountPassword_state [of down others ak c hx access pathID password st, OF password_set(2)] password_locked_keeps(1) [OF ok inv] m
      by (metis manned_def)
  qed
qed

lemma accounts_step_keeps:
  assumes ok: "authentik_ok ak c v" and inv: "vw_inv v (fst st)" and caller: "\<not> callerIsAdministrator access"
    and step: "accounts_step ak c parseAddress access st st'"
  shows "admins_kept v (fst st) (fst st')"
proof -
  have same: "admins_kept v (fst st) (fst st)" using inv by (simp add: admins_kept_def)
  from step show ?thesis
  proof cases
    case (listed down)
    then show ?thesis using unchanged_keeps(1) [OF adminAccounts_state [OF ok inv]] by simp
  next
    case (created down others hx body)
    then show ?thesis
      using adminCreateAccount_state [of down others ak c hx access body st, OF created(2)] create_locked_keeps(2) [OF ok inv] same caller by metis
  next
    case (updated down others hx pathID change)
    then show ?thesis
      using adminUpdateAccount_state [of down others ak c parseAddress hx access pathID change st, OF updated(2)]
        update_locked_keeps [OF ok inv _ _ caller] same by metis
  next
    case (password_set down others hx pathID password)
    then show ?thesis
      using adminSetAccountPassword_state [of down others ak c hx access pathID password st, OF password_set(2)]
        password_locked_keeps(2) [OF ok inv _ caller] same by metis
  qed
qed

subsection \<open>A small authentik\<close>

text \<open>
  Two administrators, each of whom has become a tester or not: the state.  It answers what is asked about
  them and takes those two changes; every other request fails on the way.
\<close>

definition demo_groups :: "Group list" where
  "demo_groups = [\<lparr> gp_PK = ''a'', gp_Name = ''BSYSTEM-Admins'' \<rparr>, \<lparr> gp_PK = ''q'', gp_Name = ''BSYSTEM-QA'' \<rparr>]"

definition demo_user :: "int \<Rightarrow> string \<Rightarrow> User" where
  "demo_user pk g = \<lparr> us_PK = pk, us_Username = ''u'' @ Itoa pk, us_Name = ''User'', us_Email = [], us_IsActive = True,
     us_Type = ''internal'', us_Groups = [g], us_GroupsObj = filter (\<lambda>x. gp_PK x = g) demo_groups \<rparr>"

definition demo_group :: "bool \<Rightarrow> string" where
  "demo_group b = (if b then ''q'' else ''a'')"

definition demo_users :: "bool \<times> bool \<Rightarrow> User list" where
  "demo_users s = [demo_user 1 (demo_group (fst s)), demo_user 2 (demo_group (snd s))]"

definition demo_view :: "(bool \<times> bool) View" where
  "demo_view = \<lparr> vw_inv = (\<lambda>_. True), vw_users = demo_users, vw_groups = demo_groups, vw_password = (\<lambda>_ _. []) \<rparr>"

definition demo_client :: AkClient where
  "demo_client = authentik_New ''https://ak/'' ''t''"

definition demo_first :: "(string \<times> string) list \<Rightarrow> string" where
  "demo_first query = values_Encode (set_all (query @ [(''page'', ''1'')]) [])"

definition demo_answer :: "AkRequest \<Rightarrow> bool \<times> bool \<Rightarrow> string option" where
  "demo_answer rq s =
     (if aq_Method rq \<noteq> ''GET'' then None
      else if aq_URL rq = ''https://ak'' @ users_path \<and>
        aq_RawQuery rq = demo_first [(''include_groups'', ''true''), (''include_roles'', ''false''), (''page_size'', ''100'')]
      then Some (''u'' @ demo_group (fst s) @ demo_group (snd s))
      else if aq_URL rq = ''https://ak'' @ ''/api/v3/core/groups/'' \<and>
        aq_RawQuery rq = demo_first [(''include_users'', ''false''), (''page_size'', ''100'')] then Some ''groups''
      else if aq_URL rq = ''https://ak'' @ user_path 1 then Some (''1'' @ demo_group (fst s))
      else if aq_URL rq = ''https://ak'' @ user_path 2 then Some (''2'' @ demo_group (snd s))
      else None)"

definition demo_authentik :: "(bool \<times> bool) Authentik" where
  "demo_authentik =
     \<lparr> ak_parse = (\<lambda>url. Some (url, [])), ak_valid = (\<lambda>_. True),
       ak_send = (\<lambda>rq s.
         if aq_Method rq = ''PATCH'' \<and> aq_URL rq = ''https://ak'' @ user_path 2 \<and>
            aq_Body rq = Some (update_object (Some [''q'']) None None) then (Some (200, ''2q''), (fst s, True))
         else if aq_Method rq = ''PATCH'' \<and> aq_URL rq = ''https://ak'' @ user_path 1 \<and>
            aq_Body rq = Some (update_object (Some [''q'']) None None) then (Some (200, ''1q''), (True, snd s))
         else (map_option (Pair 200) (demo_answer rq s), s)),
       ak_users = (\<lambda>text. if text \<in> {''uaa'', ''uaq'', ''uqa'', ''uqq''}
                          then Some (0, [demo_user 1 [text ! 1], demo_user 2 [text ! 2]]) else None),
       ak_groups = (\<lambda>text. if text = ''groups'' then Some (0, demo_groups) else None),
       ak_user = (\<lambda>text. if text \<in> {''1a'', ''1q''} then Some (demo_user 1 (tl text))
                         else if text \<in> {''2a'', ''2q''} then Some (demo_user 2 (tl text)) else None) \<rparr>"

lemma QueryEscape_Itoa: "0 \<le> a \<Longrightarrow> QueryEscape (Itoa a) = Itoa a"
  unfolding QueryEscape_def
  by (rule escape_id) (auto simp: Itoa_def shouldEscape_def in_range_def of_char_digit_char dest!: digit_chars_itoa)

lemma demo_base: "kc_baseURL demo_client = ''https://ak''" "Configured (Some demo_client)" "kc_token demo_client = ''t''"
  by code_simp+

lemma demo_request: "ak_request demo_authentik demo_client m path query body =
   Some \<lparr> aq_Method = m, aq_URL = ''https://ak'' @ path, aq_RawQuery = values_Encode (set_all query []),
     aq_Header = [(''Accept'', ''application/json''), (''Authorization'', ''Bearer t'')]
       @ (if body \<noteq> None then [(''Content-Type'', ''application/json'')] else []), aq_Body = body \<rparr>"
  by (simp add: ak_request_def demo_base demo_authentik_def)

lemma demo_send_GET: "aq_Method rq = ''GET'' \<Longrightarrow> ak_send demo_authentik rq s = (map_option (Pair 200) (demo_answer rq s), s)"
  by (simp add: demo_authentik_def)

lemma demo_pages:
  assumes "0 \<le> page"
  shows "values_Encode (set_all ([(''include_groups'', ''true''), (''include_roles'', ''false''), (''page_size'', ''100'')]
      @ [(''page'', Itoa page)]) []) =
    demo_first [(''include_groups'', ''true''), (''include_roles'', ''false''), (''page_size'', ''100'')] \<longleftrightarrow> page = 1"
    "values_Encode (set_all ([(''include_users'', ''false''), (''page_size'', ''100'')] @ [(''page'', Itoa page)]) []) =
    demo_first [(''include_users'', ''false''), (''page_size'', ''100'')] \<longleftrightarrow> page = 1"
proof -
  have one: "''1'' = Itoa 1" by code_simp
  have sub: "QueryEscape (''1'') = ''1''" by code_simp
  have *: "Itoa page @ r = CHR ''1'' # r \<longleftrightarrow> page = 1" for r
    using Itoa_inject [of page 1] one by (metis append_Cons append_Nil append_same_eq)
  show "values_Encode (set_all ([(''include_groups'', ''true''), (''include_roles'', ''false''), (''page_size'', ''100'')]
      @ [(''page'', Itoa page)]) []) =
    demo_first [(''include_groups'', ''true''), (''include_roles'', ''false''), (''page_size'', ''100'')] \<longleftrightarrow> page = 1"
    by (simp add: demo_first_def values_Encode_def set_all_def sub QueryEscape_Itoa [OF assms] *)
  show "values_Encode (set_all ([(''include_users'', ''false''), (''page_size'', ''100'')] @ [(''page'', Itoa page)]) []) =
    demo_first [(''include_users'', ''false''), (''page_size'', ''100'')] \<longleftrightarrow> page = 1"
    by (simp add: demo_first_def values_Encode_def set_all_def sub QueryEscape_Itoa [OF assms] *)
qed

lemma Itoa_no_d: "CHR ''d'' \<notin> set (Itoa b)"
proof
  assume "CHR ''d'' \<in> set (Itoa b)"
  then obtain n where "CHR ''d'' \<in> set (itoa n)" by (auto simp: Itoa_def split: if_splits)
  then obtain d where d: "d < 10" "CHR ''d'' = digit_char d" using digit_chars_itoa by blast
  have "(of_char (CHR ''d'') :: nat) = 48 + d" unfolding d(2) by (rule of_char_digit_char [OF d(1)])
  then show False using d(1) by simp
qed

lemma user_path_inject: "user_path a = user_path b \<longleftrightarrow> a = b" "user_path a \<noteq> users_path"
  "user_path a @ ''set_password/'' \<noteq> user_path b" "user_path a \<noteq> ''/api/v3/core/groups/''"
proof -
  show "user_path a = user_path b \<longleftrightarrow> a = b" by (simp add: user_path_def Itoa_inject)
  show "user_path a \<noteq> users_path" by (simp add: user_path_def)
  show "user_path a \<noteq> ''/api/v3/core/groups/''" by (simp add: user_path_def users_path_def)
  have "CHR ''d'' \<in> set (Itoa a @ ''/set_password'')" by simp
  then have "Itoa a @ ''/set_password'' \<noteq> Itoa b" using Itoa_no_d [of b] by metis
  moreover have "butlast (Itoa a @ ''/set_password/'') = Itoa a @ ''/set_password''" "butlast (Itoa b @ ''/'') = Itoa b"
    by (simp_all add: butlast_append)
  ultimately have "Itoa a @ ''/set_password/'' \<noteq> Itoa b @ ''/''" by metis
  then show "user_path a @ ''set_password/'' \<noteq> user_path b" by (auto simp: user_path_def)
qed

lemma demo_coherent: "coherent (demo_users s) demo_groups"
  by (simp add: coherent_def demo_users_def demo_user_def demo_group_def demo_groups_def member_groups_def)

definition get_at :: "string \<Rightarrow> string \<Rightarrow> AkRequest" where
  "get_at path query = \<lparr> aq_Method = ''GET'', aq_URL = ''https://ak'' @ path, aq_RawQuery = query,
     aq_Header = [(''Accept'', ''application/json''), (''Authorization'', ''Bearer t'')], aq_Body = None \<rparr>"

lemma demo_get: "ak_request demo_authentik demo_client ''GET'' path query None = Some (get_at path (values_Encode (set_all query [])))"
  by (simp add: demo_request get_at_def)

lemma demo_answers:
  "demo_answer (get_at users_path q) s =
     (if q = demo_first [(''include_groups'', ''true''), (''include_roles'', ''false''), (''page_size'', ''100'')]
      then Some (''u'' @ demo_group (fst s) @ demo_group (snd s)) else None)"
  "demo_answer (get_at ''/api/v3/core/groups/'' q) s =
     (if q = demo_first [(''include_users'', ''false''), (''page_size'', ''100'')] then Some ''groups'' else None)"
  "demo_answer (get_at (user_path pk) q) s =
     (if pk = 1 then Some (''1'' @ demo_group (fst s)) else if pk = 2 then Some (''2'' @ demo_group (snd s)) else None)"
proof -
  have n: "users_path \<noteq> ''/api/v3/core/groups/''" by (simp add: users_path_def)
  note d = user_path_inject(1) user_path_inject(2) user_path_inject(2) [symmetric] user_path_inject(4)
    user_path_inject(4) [symmetric] n n [symmetric]
  show "demo_answer (get_at users_path q) s =
     (if q = demo_first [(''include_groups'', ''true''), (''include_roles'', ''false''), (''page_size'', ''100'')]
      then Some (''u'' @ demo_group (fst s) @ demo_group (snd s)) else None)"
    unfolding demo_answer_def get_at_def by (simp only: d AkRequest.simps same_append_eq simp_thms if_True if_False)
  show "demo_answer (get_at ''/api/v3/core/groups/'' q) s =
     (if q = demo_first [(''include_users'', ''false''), (''page_size'', ''100'')] then Some ''groups'' else None)"
    unfolding demo_answer_def get_at_def append.simps
    using d by simp
  show "demo_answer (get_at (user_path pk) q) s =
     (if pk = 1 then Some (''1'' @ demo_group (fst s)) else if pk = 2 then Some (''2'' @ demo_group (snd s)) else None)"
    using d by (simp add: demo_answer_def get_at_def)
qed

lemma demo_decoders:
  "ak_users demo_authentik = (\<lambda>text. if text \<in> {''uaa'', ''uaq'', ''uqa'', ''uqq''}
     then Some (0, [demo_user 1 [text ! 1], demo_user 2 [text ! 2]]) else None)"
  "ak_groups demo_authentik = (\<lambda>text. if text = ''groups'' then Some (0, demo_groups) else None)"
  "ak_user demo_authentik = (\<lambda>text. if text \<in> {''1a'', ''1q''} then Some (demo_user 1 (tl text))
                         else if text \<in> {''2a'', ''2q''} then Some (demo_user 2 (tl text)) else None)"
  by (simp_all add: demo_authentik_def)

lemma demo_pages_of:
  "pages_of demo_authentik demo_client demo_view users_path
     [(''include_groups'', ''true''), (''include_roles'', ''false''), (''page_size'', ''100'')]
     (ak_users demo_authentik) (vw_users demo_view)"
  "pages_of demo_authentik demo_client demo_view ''/api/v3/core/groups/'' [(''include_users'', ''false''), (''page_size'', ''100'')]
     (ak_groups demo_authentik) (\<lambda>_. vw_groups demo_view)"
proof -
  have get: "aq_Method (get_at path q) = ''GET''" for path q by (simp add: get_at_def)
  have short: "length (demo_users s) = 2" "length demo_groups = 2" for s
    by (simp_all add: demo_users_def demo_groups_def)
  show "pages_of demo_authentik demo_client demo_view users_path
     [(''include_groups'', ''true''), (''include_roles'', ''false''), (''page_size'', ''100'')]
     (ak_users demo_authentik) (vw_users demo_view)"
    unfolding pages_of_def demo_get
    using demo_pages(1) by (auto simp: demo_send_GET [OF get] demo_answers demo_view_def short demo_decoders demo_users_def demo_group_def split: if_splits)
  show "pages_of demo_authentik demo_client demo_view ''/api/v3/core/groups/''
     [(''include_users'', ''false''), (''page_size'', ''100'')] (ak_groups demo_authentik) (\<lambda>_. vw_groups demo_view)"
    unfolding pages_of_def demo_get
    using demo_pages(2) by (auto simp: demo_send_GET [OF get] demo_answers demo_view_def short demo_decoders demo_users_def demo_group_def split: if_splits)
qed

lemma demo_detail: "detail_ok demo_authentik demo_client demo_view"
proof -
  have get: "aq_Method (get_at path q) = ''GET''" for path q by (simp add: get_at_def)
  have user: "ak_user demo_authentik = (\<lambda>text. if text \<in> {''1a'', ''1q''} then Some (demo_user 1 (tl text))
                         else if text \<in> {''2a'', ''2q''} then Some (demo_user 2 (tl text)) else None)" by (simp add: demo_authentik_def)
  show ?thesis
    unfolding detail_ok_def demo_get user
    by (auto simp: demo_send_GET [OF get] demo_answers demo_view_def demo_users_def demo_group_def split: if_splits)
      (simp_all add: demo_user_def)
qed

lemma demo_patched:
  "map (patch_user demo_groups 2 (Some [''q'']) None None) (demo_users s) = demo_users (fst s, True)"
  "map (patch_user demo_groups 1 (Some [''q'']) None None) (demo_users s) = demo_users (True, snd s)"
  by (simp_all add: demo_users_def patch_user_def demo_user_def demo_group_def demo_groups_def member_groups_def)

lemma update_object_inject: "update_object g a e = update_object g' a' e' \<longleftrightarrow> g = g' \<and> a = a' \<and> e = e'"
  by (cases g; cases g'; cases a; cases a'; cases e; cases e') (auto simp: update_object_def)

lemma demo_ok: "authentik_ok demo_authentik demo_client demo_view"
  unfolding authentik_ok_def
proof (intro conjI)
  show "reads_ok demo_authentik demo_view"
    by (simp add: reads_ok_def unchanged_def demo_view_def demo_coherent demo_send_GET)
  show "detail_ok demo_authentik demo_client demo_view" by (rule demo_detail)
  show "patch_ok demo_authentik demo_client demo_view"
    unfolding patch_ok_def demo_request
    by (auto simp: demo_authentik_def demo_view_def demo_answer_def demo_patched user_path_inject update_object_inject)
  show "post_ok demo_authentik demo_client demo_view"
    unfolding post_ok_def demo_request by (auto simp: demo_authentik_def demo_view_def demo_answer_def)
  show "password_ok demo_authentik demo_client demo_view"
    unfolding password_ok_def demo_request by (auto simp: demo_authentik_def demo_view_def demo_answer_def)
qed (rule demo_pages_of)+

definition root_access :: meResponse where
  "root_access = \<lparr> me_ID = ''USR-1'', me_Subject = ''s'', me_Email = [], me_Name = [], me_Username = ''root'',
     me_Groups = [], me_Roles = [''Administrator''], me_Permissions = [''*''], me_Modules = [] \<rparr>"

definition desk_manager :: meResponse where
  "desk_manager = root_access \<lparr> me_Roles := [''Manager''], me_Permissions := [''identity.user.manage''] \<rparr>"

definition demo_update :: "meResponse \<Rightarrow> string \<Rightarrow> adminUpdateAccountRequest \<Rightarrow> (bool \<times> bool) \<times> DB \<Rightarrow> adminAccount Reply \<times> (bool \<times> bool) \<times> DB" where
  "demo_update access pathID change st =
     adminUpdateAccount (\<lambda>_. False) (\<lambda>_. id) demo_authentik (Some demo_client) (\<lambda>_. None)
       \<lparr> hx_RequestID = ''r'', hx_SourceIP = ''ip'', hx_Now = 1 \<rparr> access pathID (Some change) st"

definition to_tester :: adminUpdateAccountRequest where
  "to_tester = \<lparr> up_Role = Some '' QA'', up_Active = None, up_Email = None \<rparr>"

definition switch_off :: adminUpdateAccountRequest where
  "switch_off = \<lparr> up_Role = None, up_Active = Some False, up_Email = None \<rparr>"

lemma demo_updated:
  "accounts_step demo_authentik demo_client (\<lambda>_. None) access st (snd (demo_update access pathID change st))"
  unfolding demo_update_def by (rule accounts_step.updated) simp

lemma demo_doJSON: "doJSON demo_authentik demo_client m path query body want decode s =
    (case ak_send demo_authentik (the (ak_request demo_authentik demo_client m path query body)) s of
       (None, s') \<Rightarrow> (Inl AkCall, s')
     | (Some (status, text), s') \<Rightarrow>
         if status \<noteq> want then (Inl (APIError status), s')
         else case decode of None \<Rightarrow> (Inr None, s')
         | Some f \<Rightarrow> (case f (take (4 * 2 ^ 20) text) of None \<Rightarrow> (Inl AkDecode, s') | Some x \<Rightarrow> (Inr (Some x), s')))"
proof -
  have "ak_valid demo_authentik rq" for rq by (simp add: demo_authentik_def)
  then show ?thesis by (simp add: doJSON_def demo_base demo_request)
qed

lemma demo_calls:
  "GetUser demo_authentik demo_client 1 s = (Inr (demo_user 1 (demo_group (fst s))), s)"
  "GetUser demo_authentik demo_client 2 s = (Inr (demo_user 2 (demo_group (snd s))), s)"
  "ListUsers demo_authentik demo_client s = (Inr (demo_users s), s)"
  "ListGroups demo_authentik demo_client s = (Inr demo_groups, s)"
  "UpdateUser demo_authentik demo_client 2 (Some [''q'']) None None s = (Inr (demo_user 2 ''q''), (fst s, True))"
  "UpdateUser demo_authentik demo_client 1 (Some [''q'']) None None s = (Inr (demo_user 1 ''q''), (True, snd s))"
proof -
  have get: "ak_send demo_authentik (get_at path q) s = (map_option (Pair 200) (demo_answer (get_at path q) s), s)" for path q s
    by (simp add: demo_send_GET get_at_def)
  note ev = ak_get_def demo_doJSON demo_get get demo_answers decoded_def demo_decoders demo_base(2)
  show "GetUser demo_authentik demo_client 1 s = (Inr (demo_user 1 (demo_group (fst s))), s)"
    "GetUser demo_authentik demo_client 2 s = (Inr (demo_user 2 (demo_group (snd s))), s)"
    by (simp_all add: GetUser_def ev demo_group_def)
  have "Itoa 1 = ''1''" by code_simp
  then show "ListUsers demo_authentik demo_client s = (Inr (demo_users s), s)"
    "ListGroups demo_authentik demo_client s = (Inr demo_groups, s)"
    by (simp_all add: ListUsers_def ListGroups_def ak_pages.simps [of demo_authentik] ev demo_first_def max_int_def
        demo_users_def demo_group_def)
  show "UpdateUser demo_authentik demo_client 2 (Some [''q'']) None None s = (Inr (demo_user 2 ''q''), (fst s, True))"
  "UpdateUser demo_authentik demo_client 1 (Some [''q'']) None None s = (Inr (demo_user 1 ''q''), (True, snd s))"
    by (simp_all add: UpdateUser_def demo_base(2) update_object_def demo_doJSON demo_request decoded_def)
      (simp_all add: demo_authentik_def update_object_def user_path_inject)
qed

lemma demo_roles: "user_roles (demo_user pk ''a'') = [''admin'']" "\<not> is_service_user (demo_user pk ''a'')"
  "us_IsActive (demo_user pk g)" "activeAdminCount (demo_users (False, False)) = 2" "activeAdminCount (demo_users (False, True)) = 1"
  "activeAdminCount (demo_users (True, True)) = 0"
proof -
  have g: "us_GroupsObj (demo_user pk ''a'') = [\<lparr> gp_PK = ''a'', gp_Name = ''BSYSTEM-Admins'' \<rparr>]"
    "us_Type (demo_user pk ''a'') = ''internal''" for pk by (simp_all add: demo_user_def demo_groups_def)
  show "user_roles (demo_user pk ''a'') = [''admin'']"
    by (simp add: user_roles_def g groupNames_def rolesFromGroups_def humanGroupRoles_def humanRoleGroups_def map_filter_simps)
  show "\<not> is_service_user (demo_user pk ''a'')"
    by (simp add: is_service_user_def g hasGroup_def service_type_def)
  show "us_IsActive (demo_user pk g)" by (simp add: demo_user_def)
  show "activeAdminCount (demo_users (False, False)) = 2" "activeAdminCount (demo_users (False, True)) = 1"
  "activeAdminCount (demo_users (True, True)) = 0" by code_simp+
qed

lemma demo_locked:
  "update_locked demo_authentik demo_client root_access 2 (Some ''qa'') None None (False, False)
     = (Inr (demo_user 2 ''a'', demo_user 2 ''q''), (False, True))"
  "update_locked demo_authentik demo_client root_access 1 None (Some False) None (False, True) = (Inl ErrLastAdmin, (False, True))"
  "update_locked demo_authentik demo_client desk_manager 2 (Some ''qa'') None None (False, False) = (Inl ErrAdminTarget, (False, False))"
proof -
  have n: "next_groups demo_groups (demo_user 2 ''a'') (Some ''qa'') = Inr (Some [''q''])"
    "next_groups demo_groups (demo_user 1 ''a'') None = Inr None" by code_simp+
  have c: "callerIsAdministrator root_access" "\<not> callerIsAdministrator desk_manager" by code_simp+
  note ev = update_locked_def and_then_def demo_calls demo_roles update_write_def demo_group_def n c Let_def
  show "update_locked demo_authentik demo_client root_access 2 (Some ''qa'') None None (False, False)
     = (Inr (demo_user 2 ''a'', demo_user 2 ''q''), (False, True))" by (simp add: ev)
  show "update_locked demo_authentik demo_client root_access 1 None (Some False) None (False, True) = (Inl ErrLastAdmin, (False, True))"
    by (simp add: ev)
  show "update_locked demo_authentik demo_client desk_manager 2 (Some ''qa'') None None (False, False) = (Inl ErrAdminTarget, (False, False))"
    by (simp add: ev)
qed

lemma demo_runs:
  "rp_Status (fst (demo_update root_access ''2'' to_tester ((False, False), sample_db))) = 200"
  "fst (snd (demo_update root_access ''2'' to_tester ((False, False), sample_db))) = (False, True)"
  "demo_update root_access ''1'' switch_off ((False, True), sample_db) =
     (reply_error 409 ''final active administrator cannot be removed'' ''last_admin_guard'', (False, True), sample_db)"
  "rp_Status (fst (demo_update desk_manager ''2'' to_tester ((False, False), sample_db))) = 403"
  "fst (snd (demo_update desk_manager ''2'' to_tester ((False, False), sample_db))) = (False, False)"
proof -
  have p: "parseAuthentikID ''2'' = (Inr 2 :: adminAccount Reply + int)"
    "parseAuthentikID ''1'' = (Inr 1 :: adminAccount Reply + int)" by code_simp+
  have q: "ToLower (TrimSpace '' QA'') = ''qa''" "map_of humanRoleGroups ''qa'' = Some ''BSYSTEM-QA''" by code_simp+
  note ev = demo_update_def adminUpdateAccount_def requireUserAdmin_def demo_base(2) p q to_tester_def switch_off_def
    WithAdvisoryLock_def demo_locked writeUserAdminMutationError_def Let_def
  show "rp_Status (fst (demo_update root_access ''2'' to_tester ((False, False), sample_db))) = 200"
    "fst (snd (demo_update root_access ''2'' to_tester ((False, False), sample_db))) = (False, True)"
    "demo_update root_access ''1'' switch_off ((False, True), sample_db) =
     (reply_error 409 ''final active administrator cannot be removed'' ''last_admin_guard'', (False, True), sample_db)"
    "rp_Status (fst (demo_update desk_manager ''2'' to_tester ((False, False), sample_db))) = 403"
    "fst (snd (demo_update desk_manager ''2'' to_tester ((False, False), sample_db))) = (False, False)"
    by (simp_all add: ev reply_def reply_error_def)
qed

text \<open>
  What a lost session lets happen: between the count of one section and its write, another replica's section, which has taken the lock
  in the meantime, removes the other administrator.
\<close>

lemma meanwhile_get:
  assumes "\<And>rq s. aq_Method rq = ''GET'' \<Longrightarrow> others rq s = s"
  shows "ak_get (meanwhile others ak) c path query f s = ak_get ak c path query f s"
  using assms by (simp add: ak_get_def doJSON_def ak_request_def meanwhile_def split: option.split)

lemma meanwhile_pages:
  assumes "\<And>rq s. aq_Method rq = ''GET'' \<Longrightarrow> others rq s = s"
  shows "ak_pages (meanwhile others ak) c path query f page acc s = ak_pages ak c path query f page acc s"
proof (induction "nat (max_int - page)" arbitrary: page acc s rule: less_induct)
  case less
  obtain r t where g: "ak_get ak c path (query @ [(''page'', Itoa page)]) f s = (r, t)" by fastforce
  show ?case
  proof (cases r)
    case (Inl e)
    then show ?thesis by (subst (1 2) ak_pages.simps) (simp add: meanwhile_get [of others, OF assms] g)
  next
    case (Inr x)
    obtain nxt results where x: "x = (nxt, results)" by fastforce
    show ?thesis
    proof (cases "nxt < - max_int - 1 \<or> max_int < nxt \<or> nxt = 0 \<or> nxt \<le> page")
      case True
      then show ?thesis by (subst (1 2) ak_pages.simps) (auto simp: meanwhile_get [of others, OF assms] g Inr x)
    next
      case False
      then have "nat (max_int - nxt) < nat (max_int - page)" by simp
      from less [OF this, of "acc @ results" t] False show ?thesis
        by (subst (1 2) ak_pages.simps) (simp add: meanwhile_get [of others, OF assms] g Inr x)
    qed
  qed
qed

definition elsewhere :: "AkRequest \<Rightarrow> bool \<times> bool \<Rightarrow> bool \<times> bool" where
  "elsewhere rq s =
     (if aq_Method rq = ''PATCH'' then fst (snd (demo_update root_access ''1'' to_tester (s, sample_db))) else s)"

lemma elsewhere_reads: "aq_Method rq = ''GET'' \<Longrightarrow> elsewhere rq s = s"
  by (simp add: elsewhere_def)

lemma demo_other_locked:
  "update_locked demo_authentik demo_client root_access 1 (Some ''qa'') None None (False, False)
     = (Inr (demo_user 1 ''a'', demo_user 1 ''q''), (True, False))"
proof -
  have n: "next_groups demo_groups (demo_user 1 ''a'') (Some ''qa'') = Inr (Some [''q''])" by code_simp
  have c: "callerIsAdministrator root_access" by code_simp
  show ?thesis by (simp add: update_locked_def and_then_def demo_calls demo_roles update_write_def demo_group_def n c Let_def)
qed

lemma elsewhere_demotes: "aq_Method rq = ''PATCH'' \<Longrightarrow> elsewhere rq (False, False) = (True, False)"
proof -
  have p: "parseAuthentikID ''1'' = (Inr 1 :: adminAccount Reply + int)" by code_simp
  have q: "ToLower (TrimSpace '' QA'') = ''qa''" "map_of humanRoleGroups ''qa'' = Some ''BSYSTEM-QA''" by code_simp+
  assume "aq_Method rq = ''PATCH''"
  then show ?thesis
    by (simp add: elsewhere_def demo_update_def adminUpdateAccount_def requireUserAdmin_def demo_base(2) p q to_tester_def
        WithAdvisoryLock_def demo_other_locked Let_def)
qed

lemma lost_locked:
  "update_locked (meanwhile elsewhere demo_authentik) demo_client root_access 2 (Some ''qa'') None None (False, False)
     = (Inr (demo_user 2 ''a'', demo_user 2 ''q''), (True, True))"
proof -
  let ?ak = "meanwhile elsewhere demo_authentik"
  have n: "next_groups demo_groups (demo_user 2 ''a'') (Some ''qa'') = Inr (Some [''q''])" by code_simp
  have c: "callerIsAdministrator root_access" by code_simp
  have dec: "ak_user ?ak = ak_user demo_authentik" "ak_users ?ak = ak_users demo_authentik" "ak_groups ?ak = ak_groups demo_authentik"
    by (simp_all add: meanwhile_def)
  have reads: "GetUser ?ak demo_client pk s = GetUser demo_authentik demo_client pk s"
    "ListUsers ?ak demo_client s = ListUsers demo_authentik demo_client s"
    "ListGroups ?ak demo_client s = ListGroups demo_authentik demo_client s" for pk s
    unfolding GetUser_def ListUsers_def ListGroups_def dec
    by (simp_all add: meanwhile_get [OF elsewhere_reads] meanwhile_pages [OF elsewhere_reads])
  have "UpdateUser ?ak demo_client 2 (Some [''q'']) None None (False, False) =
      UpdateUser demo_authentik demo_client 2 (Some [''q'']) None None (True, False)"
    unfolding UpdateUser_def dec reads
    by (simp add: doJSON_def ak_request_def Let_def update_object_def)
      (simp add: meanwhile_def elsewhere_demotes demo_authentik_def demo_base)
  then show ?thesis
    by (simp add: update_locked_def and_then_def reads demo_calls demo_roles update_write_def demo_group_def n c Let_def)
qed

theorem lost_lock_unmans:
  "\<exists>down others rp st'. down ''session_lost'' \<and>
     (\<forall>rq s. others rq s = s \<or> (\<exists>st'. accounts_step demo_authentik demo_client (\<lambda>_. None) root_access (s, sample_db) st' \<and> fst st' = others rq s)) \<and>
     adminUpdateAccount down others demo_authentik (Some demo_client) (\<lambda>_. None)
       \<lparr> hx_RequestID = ''r'', hx_SourceIP = ''ip'', hx_Now = 1 \<rparr> root_access ''2'' (Some to_tester) ((False, False), sample_db) = (rp, st') \<and>
     rp_Status rp = 200 \<and> activeAdminCount (vw_users demo_view (False, False)) = 2 \<and> activeAdminCount (vw_users demo_view (fst st')) = 0"
proof -
  let ?run = "adminUpdateAccount (\<lambda>x. x = ''session_lost'') elsewhere demo_authentik (Some demo_client) (\<lambda>_. None)
       \<lparr> hx_RequestID = ''r'', hx_SourceIP = ''ip'', hx_Now = 1 \<rparr> root_access ''2'' (Some to_tester) ((False, False), sample_db)"
  have p: "parseAuthentikID ''2'' = (Inr 2 :: adminAccount Reply + int)" by code_simp
  have q: "ToLower (TrimSpace '' QA'') = ''qa''" "map_of humanRoleGroups ''qa'' = Some ''BSYSTEM-QA''" by code_simp+
  have fin: "rp_Status (fst ?run) = 200" "fst (snd ?run) = (True, True)"
    by (simp_all add: adminUpdateAccount_def requireUserAdmin_def demo_base(2) p q to_tester_def WithAdvisoryLock_def lost_locked Let_def)
  have genuine: "elsewhere rq s = s \<or>
      (\<exists>st'. accounts_step demo_authentik demo_client (\<lambda>_. None) root_access (s, sample_db) st' \<and> fst st' = elsewhere rq s)" for rq s
  proof (cases "aq_Method rq = ''PATCH''")
    case True
    then show ?thesis
      using demo_updated [of root_access "(s, sample_db)" "''1''" to_tester] unfolding elsewhere_def by (metis (no_types))
  qed (simp add: elsewhere_def)
  show ?thesis
    by (rule exI [of _ "\<lambda>x. x = ''session_lost''"], rule exI [of _ elsewhere], rule exI [of _ "fst ?run"], rule exI [of _ "snd ?run"])
      (use fin genuine demo_roles in \<open>simp add: demo_view_def\<close>)
qed

text \<open>
  C4.  Whatever requests arrive, in whatever order, from whomever, and however authentik, the database and the taking of the lock fail,
  the realm never loses its last active administrator through these handlers, provided that no session is lost while it holds the lock and
  that a write takes effect, if at all, before its call ends: an update takes the role or the
  account of one only while another is left.  The lock is what this rests on: a section without it may be interleaved with any other
  (a session lost on the way suffices, lost\_lock\_unmans).
\<close>

theorem last_admin_kept:
  assumes "authentik_ok ak c v" "accounts_run ak c parseAddress callers st st'"
    and "vw_inv v (fst st)" "1 \<le> activeAdminCount (vw_users v (fst st))"
  shows "vw_inv v (fst st') \<and> 1 \<le> activeAdminCount (vw_users v (fst st'))"
proof -
  from assms(2) have "manned v (fst st) \<longrightarrow> manned v (fst st')"
    by (induction rule: accounts_run.induct) (use accounts_step_manned [OF assms(1)] in blast)+
  then show ?thesis using assms(3,4) by (simp add: manned_def)
qed

text \<open>
  C5.  Callers who may manage accounts without being administrators cannot touch the administrator class, by any
  sequence of requests, their locked sections one after the other: the accounts in BSYSTEM-Admins, with every field, stay as they are, none is added or
  removed, and their passwords stay.
\<close>

theorem admin_class_untouched:
  assumes "authentik_ok ak c v" "accounts_run ak c parseAddress callers st st'"
    and "vw_inv v (fst st)" "\<And>access. callers access \<Longrightarrow> \<not> callerIsAdministrator access"
  shows "filter in_admins (vw_users v (fst st')) = filter in_admins (vw_users v (fst st)) \<and>
    (\<forall>u \<in> set (vw_users v (fst st)). in_admins u \<longrightarrow>
       vw_password v (fst st') (us_PK u) = vw_password v (fst st) (us_PK u))"
proof -
  from assms(2) have "vw_inv v (fst st) \<longrightarrow> admins_kept v (fst st) (fst st')"
  proof (induction rule: accounts_run.induct)
    case start
    then show ?case by (simp add: admins_kept_def)
  next
    case (step st t access u)
    show ?case
    proof
      assume "vw_inv v (fst st)"
      then have k: "admins_kept v (fst st) (fst t)" using step(4) by blast
      then have "vw_inv v (fst t)" by (simp add: admins_kept_def)
      from admins_kept_trans [OF k accounts_step_keeps [OF assms(1) this assms(4) [OF step(2)] step(3)]]
      show "admins_kept v (fst st) (fst u)" .
    qed
  qed
  then show ?thesis using assms(3) by (simp add: admins_kept_def)
qed

definition root_demotes where
  "root_demotes st = demo_update root_access ''2'' to_tester st"

lemma root_demotes_run:
  "accounts_run demo_authentik demo_client (\<lambda>_. None) (\<lambda>_. True) st (snd (root_demotes st))"
  unfolding root_demotes_def
  by (rule accounts_run.step [where callers = "\<lambda>_. True", OF accounts_run.start _ demo_updated]) simp

theorem last_admin_kept_witness:
  "(let st' = snd (root_demotes ((False, False), sample_db))
    in fst st' = (False, True) \<and> 1 \<le> activeAdminCount (vw_users demo_view (fst st'))) \<and>
   demo_update root_access ''1'' switch_off ((False, True), sample_db) =
     (reply_error 409 ''final active administrator cannot be removed'' ''last_admin_guard'', (False, True), sample_db)"
proof -
  have "vw_inv demo_view (fst (snd (root_demotes ((False, False), sample_db)))) \<and>
      1 \<le> activeAdminCount (vw_users demo_view (fst (snd (root_demotes ((False, False), sample_db)))))"
    by (rule last_admin_kept [OF demo_ok root_demotes_run])
      (simp_all add: demo_view_def demo_roles)
  then show ?thesis using demo_runs(2,3) by (simp add: Let_def root_demotes_def)
qed

definition manager_tries where
  "manager_tries st = demo_update desk_manager ''2'' to_tester st"

theorem admin_class_untouched_witness:
  "rp_Status (fst (manager_tries ((False, False), sample_db))) = 403 \<and>
   length (filter in_admins (vw_users demo_view (fst (snd (manager_tries ((False, False), sample_db)))))) = 2"
proof -
  have run: "accounts_run demo_authentik demo_client (\<lambda>_. None) (\<lambda>a. a = desk_manager) ((False, False), sample_db)
      (snd (manager_tries ((False, False), sample_db)))"
    unfolding manager_tries_def
    by (rule accounts_run.step [where callers = "\<lambda>a. a = desk_manager", OF accounts_run.start _ demo_updated]) simp
  have c: "\<not> callerIsAdministrator access" if "access = desk_manager" for access
    using that by (simp add: callerIsAdministrator_def desk_manager_def root_access_def)
  have "filter in_admins (vw_users demo_view (fst (snd (manager_tries ((False, False), sample_db))))) =
      filter in_admins (vw_users demo_view (fst ((False, False), sample_db)))"
    using admin_class_untouched [OF demo_ok run _ c] by (simp add: demo_view_def)
  moreover have "length (filter in_admins (demo_users (False, False))) = 2" by code_simp
  ultimately show ?thesis using demo_runs(4) by (simp add: manager_tries_def demo_view_def)
qed

lemma mutation_error_status: "rp_Status (writeUserAdminMutationError e :: 'b Reply) \<noteq> 200"
  by (cases e) (auto simp: writeUserAdminMutationError_def writeUserAdminDependencyError_def reply_error_def
      split: AkError.splits)

lemma adminUpdateAccount_ok:
  assumes held: "\<not> down ''session_lost''" and "adminUpdateAccount down others ak (Some c) parseAddress hx access pathID (Some input) (s, db) = (rp, s', db')"
    and "rp_Status rp = 200" "up_Role input = Some raw"
  shows "\<exists>pk email before updated. ParseInt (TrimSpace pathID) = Some pk \<and> human_role (Some (ToLower (TrimSpace raw))) \<and>
    update_locked ak c access pk (Some (ToLower (TrimSpace raw))) (up_Active input) email s = (Inr (before, updated), s')"
proof -
  have rq: "requireUserAdmin (Some c) = (None :: adminAccount Reply option)"
    using assms(2,3) by (auto simp: adminUpdateAccount_def requireUserAdmin_def reply_error_def split: if_splits)
  obtain pk where pk: "parseAuthentikID pathID = (Inr pk :: adminAccount Reply + int)"
    using assms(2,3) rq
    by (cases "parseAuthentikID pathID :: adminAccount Reply + int")
      (auto simp: adminUpdateAccount_def parseAuthentikID_def reply_error_def split: option.splits if_splits)
  define email where "email = (case up_Email input of None \<Rightarrow> None | Some raw \<Rightarrow> normalizeAccountEmail parseAddress raw)"
  let ?role = "ToLower (TrimSpace raw)"
  obtain r t where run: "WithAdvisoryLock down others ak (\<lambda>ak. update_locked ak c access pk (Some ?role) (up_Active input) email) s = (r, t)"
    by fastforce
  have e: "\<not> (up_Email input \<noteq> None \<and> email = None)"
    using assms rq pk 
    by (cases "up_Email input") (auto simp: adminUpdateAccount_def email_def reply_error_def Let_def split: if_splits)
  have h: "map_of humanRoleGroups ?role \<noteq> None"
    using assms rq pk e by (auto simp: adminUpdateAccount_def reply_error_def Let_def simp flip: email_def split: if_splits)
  have "(case r of Inl e \<Rightarrow> (writeUserAdminMutationError e, (t, db))
      | Inr (before, updated) \<Rightarrow>
          (let db' = audit down hx access ''identity.user.updated'' ''user'' (us_Username updated)
                 [(''roles_before'', Join (user_roles before) '',''),
                  (''roles_after'', Join (user_roles updated) '',''),
                  (''active_before'', bool_word (us_IsActive before)),
                  (''active_after'', bool_word (us_IsActive updated)),
                  (''email_changed'', bool_word (us_Email before \<noteq> us_Email updated))] db
           in (reply 200 (accountFromAuthentik updated (identityByUsername down (us_Username updated) db')), (t, db'))))
    = (rp, s', db')"
    using assms(2,4) rq pk e h run by (auto simp: adminUpdateAccount_def simp flip: email_def)
  then obtain before updated where "r = Inr (before, updated)" "t = s'"
    using assms(3) mutation_error_status by (auto simp: Let_def split: sum.splits)
  then have "update_locked ak c access pk (Some ?role) (up_Active input) email s = (Inr (before, updated), s')"
    using WithAdvisoryLock_cases [OF run held] by auto
  moreover have "ParseInt (TrimSpace pathID) = Some pk"
    using pk by (auto simp: parseAuthentikID_def split: option.splits if_splits)
  ultimately show ?thesis using h by (auto simp: human_role_def)
qed

text \<open>
  A role that was assigned is the one human role the account then has, whatever human groups it was in before,
  and its other groups are as they were.  The account was a human one, and the caller an administrator when the
  old or the new role is the administrator's.
\<close>

theorem role_assignment_replaces:
  assumes "authentik_ok ak c v" "vw_inv v s" "up_Role input = Some raw"
    and "adminUpdateAccount down others ak (Some c) parseAddress hx access pathID (Some input) (s, db) = (rp, s', db')"
    and "rp_Status rp = 200" "\<not> down ''session_lost''"
  shows "\<exists>before \<in> set (vw_users v s). \<exists>u \<in> set (vw_users v s'). Some (us_PK u) = ParseInt (TrimSpace pathID) \<and>
    us_PK before = us_PK u \<and> \<not> is_service_user before \<and> user_roles u = [ToLower (TrimSpace raw)] \<and>
    (\<forall>g. map_of humanGroupRoles (gp_Name g) = None \<longrightarrow> (g \<in> set (us_GroupsObj u) \<longleftrightarrow> g \<in> set (us_GroupsObj before))) \<and>
    (in_admins before \<or> in_admins u \<longrightarrow> callerIsAdministrator access)"
proof -
  obtain pk email before updated where
    "ParseInt (TrimSpace pathID) = Some pk" "human_role (Some (ToLower (TrimSpace raw)))"
    "update_locked ak c access pk (Some (ToLower (TrimSpace raw))) (up_Active input) email s = (Inr (before, updated), s')"
    using adminUpdateAccount_ok [OF assms(6,4,5,3)] by blast
  with update_locked_role [OF assms(1,2)] show ?thesis by metis
qed

theorem role_assignment_replaces_witness:
  "\<exists>u \<in> set (demo_users (False, True)). us_PK u = 2 \<and> user_roles u = [''qa'']"
proof -
  obtain rp s' db' where r: "demo_update root_access ''2'' to_tester ((False, False), sample_db) = (rp, s', db')"
    by (cases "demo_update root_access ''2'' to_tester ((False, False), sample_db)")
  have s: "rp_Status rp = 200" "s' = (False, True)" using demo_runs(1,2) r by simp_all
  have v: "vw_inv demo_view (False, False)" "up_Role to_tester = Some '' QA''" by (simp_all add: demo_view_def to_tester_def)
  have q: "ToLower (TrimSpace '' QA'') = ''qa''" "ParseInt (TrimSpace ''2'') = Some 2" by code_simp+
  from role_assignment_replaces [OF demo_ok v r [unfolded demo_update_def] s(1)]
  show ?thesis using s(2) q by (auto simp: demo_view_def)
qed

end
