(* ===== verification/Search.thy ===== *)
theory Search
  imports Platform Paging "HOL-Library.AList" "HOL-Library.Product_Lexorder"
begin

section \<open>Search (internal/search, cmd/server/search.go)\<close>

text \<open>
  Documents and their normalisation, the term definition, cursors, the in-memory provider and the handlers.  An
  engine is a record of its three operations over its own state; the in-memory one is its map of
  documents by identifier, as an association list.  A rune above 127 is its bytes, each of which is above 127, so terms are
  split on bytes.  Scores are sums of small natural numbers, which float64 holds exactly.  The counters
  of indexed documents and the log lines are left out.
\<close>

subsection \<open>Documents and queries (search.go)\<close>

definition search_Types :: "string list" where
  "search_Types = [''client'', ''contact'', ''project'', ''issue'', ''document'']"

record SearchDocument =
  sd_ID :: string
  sd_Type :: string
  sd_Title :: string
  sd_Summary :: string
  sd_Source :: string
  sd_TenantID :: string
  sd_Permissions :: "string list"
  sd_ScopeType :: string
  sd_ScopeID :: string
  sd_UpdatedAt :: "int option"

record Hit =
  ht_Document :: SearchDocument
  ht_Score :: nat

record SearchQuery =
  sq_Text :: string
  sq_Types :: "string list"
  sq_Permissions :: "string list"
  sq_AllPermissions :: bool
  sq_Offset :: int
  sq_Limit :: int

record SearchPage =
  sg_Hits :: "Hit list"
  sg_Total :: int
  sg_Examined :: int

datatype SearchError = ErrInvalidDocument string | ErrSearchUnavailable

definition search_ClampLimit :: "int \<Rightarrow> int" where
  "search_ClampLimit limit = (if limit \<le> 0 then 20 else if 50 < limit then 50 else limit)"

definition validType :: "string \<Rightarrow> bool" where
  "validType v \<longleftrightarrow> v \<in> set search_Types"

fun kept_permissions :: "string list \<Rightarrow> string list \<Rightarrow> string list" where
  "kept_permissions seen [] = []"
| "kept_permissions seen (p # ps) =
     (let permission = TrimSpace p
      in if permission = [] \<or> permission \<in> set seen then kept_permissions seen ps
         else permission # kept_permissions (permission # seen) ps)"

definition document_Normalize :: "int \<Rightarrow> SearchDocument \<Rightarrow> SearchError + SearchDocument" where
  "document_Normalize now d0 =
     (let d = d0 \<lparr> sd_ID := TrimSpace (sd_ID d0), sd_Type := ToLower (TrimSpace (sd_Type d0)),
                    sd_Title := TrimSpace (sd_Title d0), sd_Summary := TrimSpace (sd_Summary d0),
                    sd_Source := TrimSpace (sd_Source d0), sd_TenantID := TrimSpace (sd_TenantID d0),
                    sd_ScopeType := ToLower (TrimSpace (sd_ScopeType d0)), sd_ScopeID := TrimSpace (sd_ScopeID d0) \<rparr>;
          permissions = kept_permissions [] (sd_Permissions d)
      in if sd_ID d = [] then Err (ErrInvalidDocument ''id is required'')
         else if \<not> validType (sd_Type d)
         then Err (ErrInvalidDocument (''type must be one of '' @ Join search_Types '', ''))
         else if sd_Title d = [] then Err (ErrInvalidDocument ''title is required'')
         else if sd_Source d = [] then Err (ErrInvalidDocument ''source is required'')
         else if permissions = [] then Err (ErrInvalidDocument ''at least one permission is required'')
         else if sd_ScopeType d = [] \<or> sd_ScopeID d = []
         then Err (ErrInvalidDocument ''scope_type and scope_id are required'')
         else Ok (d \<lparr> sd_Permissions := permissions,
                       sd_UpdatedAt := Some (case sd_UpdatedAt d of None \<Rightarrow> now | Some t \<Rightarrow> t) \<rparr>))"

text \<open>NormalizeTypes; the error is the value refused.\<close>

fun NormalizeTypes :: "string list \<Rightarrow> string + string list" where
  "NormalizeTypes [] = Inr []"
| "NormalizeTypes (v # vs) =
     (let value = ToLower (TrimSpace v)
      in if value = [] then NormalizeTypes vs
         else if \<not> validType value then Inl value
         else map_sum id (Cons value) (NormalizeTypes vs))"

definition search_cursorPrefix :: string where "search_cursorPrefix = ''s:''"

definition search_EncodeCursor :: "int \<Rightarrow> string" where
  "search_EncodeCursor offset = (if offset \<le> 0 then [] else b64_encode (search_cursorPrefix @ Itoa offset))"

definition search_DecodeCursor :: "string \<Rightarrow> int option" where
  "search_DecodeCursor cursor0 =
     (let cursor = TrimSpace cursor0
      in if cursor = [] then Some 0
         else case b64_decode cursor of
           None \<Rightarrow> None
         | Some decoded \<Rightarrow>
             (case CutPrefix decoded search_cursorPrefix of
                None \<Rightarrow> None
              | Some body \<Rightarrow>
                  (case ParseInt body of None \<Rightarrow> None | Some offset \<Rightarrow> if offset \<le> 0 then None else Some offset)))"

text \<open>strings.FieldsFunc.\<close>

function FieldsFunc :: "(char \<Rightarrow> bool) \<Rightarrow> string \<Rightarrow> string list" where
  "FieldsFunc sep s =
     (let t = dropWhile sep s
      in if t = [] then [] else takeWhile (\<lambda>c. \<not> sep c) t # FieldsFunc sep (dropWhile (\<lambda>c. \<not> sep c) t))"
  by pat_completeness auto
termination
proof (relation "measure (\<lambda>(sep, s). length s)", goal_cases)
  case (2 sep s t)
  have ne: "t \<noteq> []" and t: "t = dropWhile sep s" using 2 by simp_all
  obtain c cs where c: "t = c # cs" using ne by (cases t) blast+
  have "\<not> sep c" using hd_dropWhile [of sep s] ne t c by (metis list.sel(1))
  then have "length (dropWhile (\<lambda>c. \<not> sep c) t) < length t"
    using c by (simp add: length_dropWhile_le le_imp_less_Suc)
  also have "length t \<le> length s" unfolding t by (rule length_dropWhile_le)
  finally show ?case by simp
qed simp

declare FieldsFunc.simps [simp del]

definition isAlphanumeric :: "char \<Rightarrow> bool" where
  "isAlphanumeric c \<longleftrightarrow> (let n = of_char c :: nat in
     97 \<le> n \<and> n \<le> 122 \<or> 65 \<le> n \<and> n \<le> 90 \<or> 48 \<le> n \<and> n \<le> 57 \<or> 127 < n)"

definition Tokenize :: "string \<Rightarrow> string list" where
  "Tokenize t = filter (\<lambda>f. f \<noteq> []) (FieldsFunc (\<lambda>c. \<not> (c = CHR ''-'' \<or> c = CHR ''_'' \<or> isAlphanumeric c)) (ToLower t))"

subsection \<open>The in-memory provider (memory.go)\<close>

type_synonym Memory = "(string \<times> SearchDocument) list"

definition anyPermission :: "string list \<Rightarrow> string list \<Rightarrow> bool" where
  "anyPermission required held \<longleftrightarrow> (\<exists>p \<in> set required. p \<in> set held)"

fun fieldScore :: "nat \<Rightarrow> string list \<Rightarrow> string \<Rightarrow> nat" where
  "fieldScore best [] term = best"
| "fieldScore best (t # ts) term =
     (if t = term then 2 else fieldScore (if HasPrefix t term then 1 else best) ts term)"

fun score_terms :: "string list \<Rightarrow> string list \<Rightarrow> nat \<Rightarrow> string list \<Rightarrow> nat" where
  "score_terms title summary score [] = score"
| "score_terms title summary score (t # ts) =
     (let termScore = fieldScore 0 title t * 2 + fieldScore 0 summary t
      in if termScore = 0 then 0 else score_terms title summary (score + termScore) ts)"

definition scoreOf :: "SearchDocument \<Rightarrow> string list \<Rightarrow> nat" where
  "scoreOf d terms = score_terms (Tokenize (sd_Title d)) (Tokenize (sd_Summary d)) 0 terms"

text \<open>The order of sort.Slice: score and recency descending, then the identifier.  A stored document is never without a time.\<close>

definition rank_key :: "Hit \<Rightarrow> int \<times> int \<times> string" where
  "rank_key h = (- int (ht_Score h), - (case sd_UpdatedAt (ht_Document h) of None \<Rightarrow> 0 | Some t \<Rightarrow> t), sd_ID (ht_Document h))"

definition search_candidate :: "SearchQuery \<Rightarrow> SearchDocument \<Rightarrow> bool" where
  "search_candidate q d \<longleftrightarrow>
     (sq_Types q = [] \<or> sd_Type d \<in> set (sq_Types q)) \<and>
     (sq_AllPermissions q \<or> anyPermission (sd_Permissions d) (sq_Permissions q)) \<and>
     0 < scoreOf d (Tokenize (sq_Text q))"

definition memory_ranking :: "Memory \<Rightarrow> SearchQuery \<Rightarrow> Hit list" where
  "memory_ranking documents q =
     sort_key rank_key
       (map (\<lambda>d. \<lparr> ht_Document = d, ht_Score = scoreOf d (Tokenize (sq_Text q)) \<rparr>)
         (filter (search_candidate q) (map snd documents)))"

definition memory_Search :: "down \<Rightarrow> Memory \<Rightarrow> SearchQuery \<Rightarrow> SearchError + SearchPage" where
  "memory_Search down documents q =
     (if down ''context'' then Err ErrSearchUnavailable
      else if Tokenize (sq_Text q) = [] then Ok \<lparr> sg_Hits = [], sg_Total = 0, sg_Examined = 0 \<rparr>
      else let candidates = memory_ranking documents q; n = int (length candidates);
               offset = (if n < sq_Offset q then n else sq_Offset q);
               rest = drop (nat offset) candidates;
               window = (if 0 < sq_Limit q \<and> sq_Limit q < int (length rest) then take (nat (sq_Limit q)) rest else rest)
           in Ok \<lparr> sg_Hits = window, sg_Total = n, sg_Examined = int (length window) \<rparr>)"

definition memory_Index :: "down \<Rightarrow> int \<Rightarrow> SearchDocument list \<Rightarrow> Memory \<Rightarrow> (SearchError + unit) \<times> Memory" where
  "memory_Index down now ds documents =
     (if down ''context'' then (Err ErrSearchUnavailable, documents)
      else case map_result (document_Normalize now) ds of
        Inl e \<Rightarrow> (Err e, documents)
      | Inr normalized \<Rightarrow> (Ok (), fold (\<lambda>d m. AList.update (sd_ID d) d m) normalized documents))"

definition memory_Delete :: "down \<Rightarrow> string list \<Rightarrow> Memory \<Rightarrow> (SearchError + unit) \<times> Memory" where
  "memory_Delete down ids documents =
     (if down ''context'' then (Err ErrSearchUnavailable, documents)
      else (Ok (), fold (\<lambda>id m. AList.delete (TrimSpace id) m) ids documents))"

subsection \<open>The handlers (cmd/server/search.go)\<close>

record 'i SearchProvider =
  sv_Search :: "'i \<Rightarrow> SearchQuery \<Rightarrow> SearchError + SearchPage"
  sv_Index :: "SearchDocument list \<Rightarrow> 'i \<Rightarrow> (SearchError + unit) \<times> 'i"
  sv_Delete :: "string list \<Rightarrow> 'i \<Rightarrow> (SearchError + unit) \<times> 'i"

definition memory_provider :: "down \<Rightarrow> int \<Rightarrow> Memory SearchProvider" where
  "memory_provider down now =
     \<lparr> sv_Search = memory_Search down, sv_Index = memory_Index down now, sv_Delete = memory_Delete down \<rparr>"

record searchCollection =
  sl_Data :: "Hit list"
  sl_Limit :: int
  sl_NextCursor :: string

text \<open>The query string.\<close>

record SearchParams =
  sm_Q :: string
  sm_Types :: "string list"
  sm_Cursor :: string
  sm_Limit :: string

text \<open>The number of runes of valid UTF-8: the bytes that are not continuation bytes.\<close>

definition rune_count :: "string \<Rightarrow> nat" where
  "rune_count s = length (filter (\<lambda>c. \<not> (128 \<le> (of_char c :: nat) \<and> (of_char c :: nat) < 192)) s)"

fun mayRead :: "Evaluator \<Rightarrow> Principal \<Rightarrow> string \<Rightarrow> string \<Rightarrow> string list \<Rightarrow> AuthzError + bool" where
  "mayRead e p scopeType scopeID [] = Ok False"
| "mayRead e p scopeType scopeID (perm # perms) =
     (case Evaluate e p perm (Resource scopeType scopeID) of
        Inl err \<Rightarrow> Err err
      | Inr d \<Rightarrow> if dc_Allowed d then Ok True else mayRead e p scopeType scopeID perms)"

definition mayRead_hit :: "down \<Rightarrow> DB \<Rightarrow> meResponse \<Rightarrow> Hit \<Rightarrow> AuthzError + bool" where
  "mayRead_hit down db access h =
     mayRead (platform_authz down db) (principal_of access) (sd_ScopeType (ht_Document h)) (sd_ScopeID (ht_Document h))
       (sd_Permissions (ht_Document h))"

fun permittedHits :: "(Hit \<Rightarrow> AuthzError + bool) \<Rightarrow> nat \<Rightarrow> Hit list \<Rightarrow> nat \<Rightarrow> Hit list \<Rightarrow> AuthzError + Hit list \<times> nat" where
  "permittedHits may limit permitted consumed [] = Ok (permitted, consumed)"
| "permittedHits may limit permitted consumed (h # hs) =
     (case may h of
        Inl e \<Rightarrow> Err e
      | Inr allowed \<Rightarrow>
          let permitted' = (if allowed then permitted @ [h] else permitted)
          in if length permitted' = limit then Ok (permitted', consumed + 1)
             else permittedHits may limit permitted' (consumed + 1) hs)"

definition search ::
  "down \<Rightarrow> 'i SearchProvider \<Rightarrow> DB \<Rightarrow> 'i \<Rightarrow> meResponse \<Rightarrow> SearchParams \<Rightarrow> searchCollection Reply" where
  "search down pv db idx access params =
     (let t = TrimSpace (sm_Q params) in
      if rune_count t < 2
      then reply_error 400 ''q must be at least 2 characters'' ''invalid_query''
      else case NormalizeTypes (sm_Types params) of
        Inl v \<Rightarrow> reply_error 400 (''unknown entity type: '' @ v) ''invalid_type''
      | Inr types \<Rightarrow>
          (case search_DecodeCursor (sm_Cursor params) of
             None \<Rightarrow> reply_error 400 ''invalid pagination cursor'' ''invalid_cursor''
           | Some offset \<Rightarrow>
               (let limit = search_ClampLimit (case ParseInt (TrimSpace (sm_Limit params)) of None \<Rightarrow> 0 | Some n \<Rightarrow> n);
                    candidates = (if 100 < limit * 4 then 100 else limit * 4)
                in case sv_Search pv idx \<lparr> sq_Text = t, sq_Types = types, sq_Permissions = me_Permissions access,
                          sq_AllPermissions = PermissionAll \<in> set (me_Permissions access),
                          sq_Offset = offset, sq_Limit = candidates \<rparr> of
                     Inl _ \<Rightarrow> reply_error 503 ''search provider unavailable'' ''search_unavailable''
                   | Inr page \<Rightarrow>
                       (case permittedHits (mayRead_hit down db access) (nat limit) [] 0 (sg_Hits page) of
                          Inl _ \<Rightarrow> authz_unavailable
                        | Inr (hits, consumed) \<Rightarrow>
                            reply 200 \<lparr> sl_Data = hits, sl_Limit = int (length hits),
                              sl_NextCursor = (if wrap64 (offset + int consumed) < sg_Total page
                                               then search_EncodeCursor (wrap64 (offset + int consumed)) else []) \<rparr>))))"

definition serviceIndexSearchDocuments :: "'i SearchProvider \<Rightarrow> SearchDocument list option \<Rightarrow> 'i \<Rightarrow> nat Reply \<times> 'i" where
  "serviceIndexSearchDocuments pv body idx =
     (case body of
        None \<Rightarrow> (reply_error 400 ''invalid JSON body'' [], idx)
      | Some ds \<Rightarrow>
          if ds = [] then (reply_error 400 ''at least one document is required'' [], idx)
          else (case sv_Index pv ds idx of
            (Inl (ErrInvalidDocument m), idx') \<Rightarrow> (reply_error 400 (''invalid search document'' @ [CHR 0x0A] @ m) ''invalid_document'', idx')
          | (Inl _, idx') \<Rightarrow> (reply_error 503 ''search provider unavailable'' ''search_unavailable'', idx')
          | (Inr _, idx') \<Rightarrow> (reply 202 (length ds), idx')))"

definition serviceDeleteSearchDocument :: "'i SearchProvider \<Rightarrow> string \<Rightarrow> 'i \<Rightarrow> unit Reply \<times> 'i" where
  "serviceDeleteSearchDocument pv pathID idx =
     (let i = TrimSpace pathID
      in if i = [] then (reply_error 400 ''a Global ID is required'' [], idx)
         else case sv_Delete pv [i] idx of
           (Inl _, idx') \<Rightarrow> (reply_error 503 ''search provider unavailable'' ''search_unavailable'', idx')
         | (Inr _, idx') \<Rightarrow> (reply 204 (), idx'))"

subsection \<open>Cursors and filters\<close>

lemma search_cursorPrefix_not_Nil: "search_cursorPrefix \<noteq> []"
  by (simp add: search_cursorPrefix_def)

lemma search_DecodeCursor_Encode:
  "0 < n \<Longrightarrow> n \<le> max_int64 \<Longrightarrow> search_DecodeCursor (search_EncodeCursor n) = Some n"
  by (auto simp: search_DecodeCursor_def search_EncodeCursor_def ParseInt_Itoa search_cursorPrefix_not_Nil)

lemma search_EncodeCursor_Nil [simp]: "search_EncodeCursor n = [] \<longleftrightarrow> n \<le> 0"
  by (simp add: search_EncodeCursor_def search_cursorPrefix_def)

lemma search_DecodeCursor_Nil [simp]: "search_DecodeCursor [] = Some 0"
  by (simp add: search_DecodeCursor_def)

lemma search_DecodeCursor_bounds: "search_DecodeCursor c = Some n \<Longrightarrow> 0 \<le> n \<and> n \<le> max_int64"
  by (auto simp: search_DecodeCursor_def Let_def max_int64_def split: if_splits option.splits dest: ParseInt_bounds)

lemma search_ClampLimit_bounds: "1 \<le> search_ClampLimit l \<and> search_ClampLimit l \<le> 50"
  by (simp add: search_ClampLimit_def)

text \<open>The authorization filter examines a prefix of the window, a proper one when there is a window, and keeps what may be read.\<close>

lemma permittedHits_ok:
  "permittedHits may n acc c hs = Ok (acc', c') \<Longrightarrow> length acc < n \<Longrightarrow>
     \<exists>m \<le> length hs. c' = c + m \<and> acc' = acc @ filter (\<lambda>h. may h = Ok True) (take m hs) \<and> (hs \<noteq> [] \<longrightarrow> 0 < m)"
proof (induction may n acc c hs rule: permittedHits.induct)
  case (1 may limit permitted consumed)
  then show ?case by simp
next
  case (2 may limit permitted consumed h hs)
  obtain b where b: "may h = Ok b" using 2(2) by (cases "may h") auto
  let ?acc = "if b then permitted @ [h] else permitted"
  show ?case
  proof (cases "length ?acc = limit")
    case True
    then have "acc' = ?acc" "c' = consumed + 1" using 2(2) b by (auto simp: Let_def)
    then show ?thesis using b by (intro exI [of _ 1]) auto
  next
    case False
    then have run: "permittedHits may limit ?acc (consumed + 1) hs = Ok (acc', c')" using 2(2) b by (simp add: Let_def)
    have "length ?acc < limit" using 2(3) False by (auto split: if_splits)
    from 2(1) [OF b refl False run this] obtain m where
      m: "m \<le> length hs" "c' = consumed + 1 + m" "acc' = ?acc @ filter (\<lambda>h. may h = Ok True) (take m hs)" by blast
    show ?thesis by (rule exI [of _ "Suc m"]) (use m b in auto)
  qed
qed

lemma permittedHits_total:
  "(\<And>h. h \<in> set hs \<Longrightarrow> \<exists>b. may h = Ok b) \<Longrightarrow> \<exists>r. permittedHits may n acc c hs = Ok r"
proof (induction may n acc c hs rule: permittedHits.induct)
  case (2 may limit permitted consumed h hs)
  obtain b where b: "may h = Ok b" using 2(2) by auto
  show ?case
  proof (cases "length (if b then permitted @ [h] else permitted) = limit")
    case True
    then show ?thesis using b by (simp add: Let_def)
  next
    case False
    from 2(1) [OF b refl False] 2(2) show ?thesis using b False by (auto simp: Let_def)
  qed
qed simp

subsection \<open>Engines that rank\<close>

text \<open>
  What an engine promises: there is a ranking of the matches of a query, whatever window is asked for, and it
  serves the window of that ranking and its size.
\<close>

definition at_window :: "SearchQuery \<Rightarrow> int \<Rightarrow> int \<Rightarrow> SearchQuery" where
  "at_window q off lim = q \<lparr> sq_Offset := off, sq_Limit := lim \<rparr>"

text \<open>The query a caller's parameters make, without its window, and the caller of follow.\<close>

definition query_of :: "meResponse \<Rightarrow> SearchParams \<Rightarrow> string list \<Rightarrow> SearchQuery" where
  "query_of access params types =
     \<lparr> sq_Text = TrimSpace (sm_Q params), sq_Types = types, sq_Permissions = me_Permissions access,
       sq_AllPermissions = PermissionAll \<in> set (me_Permissions access), sq_Offset = 0, sq_Limit = 0 \<rparr>"

definition search_ask ::
  "down \<Rightarrow> 'i SearchProvider \<Rightarrow> DB \<Rightarrow> 'i \<Rightarrow> meResponse \<Rightarrow> SearchParams \<Rightarrow> nat \<Rightarrow> string \<Rightarrow> (Hit list \<times> string) option" where
  "search_ask down pv db idx access params k cursor =
     map_option (\<lambda>c. (sl_Data c, sl_NextCursor c)) (rp_Body (search down pv db idx access (params \<lparr> sm_Cursor := cursor \<rparr>)))"

locale ranking_engine =
  fixes srch :: "'i \<Rightarrow> SearchQuery \<Rightarrow> SearchError + SearchPage"
    and ranking :: "'i \<Rightarrow> SearchQuery \<Rightarrow> Hit list" and ok :: "'i \<Rightarrow> bool"
  assumes serves: "\<lbrakk>ok idx; 0 \<le> off; 0 < lim\<rbrakk> \<Longrightarrow> srch idx (at_window q off lim) =
      Ok \<lparr> sg_Hits = take (nat lim) (drop (nat off) (ranking idx (at_window q 0 0))),
           sg_Total = int (length (ranking idx (at_window q 0 0))),
           sg_Examined = int (length (take (nat lim) (drop (nat off) (ranking idx (at_window q 0 0))))) \<rparr>"
    and sized: "ok idx \<Longrightarrow> int (length (ranking idx q)) \<le> max_int64"
begin

lemma search_page:
  assumes "ok idx" "sv_Search pv = srch" "2 \<le> rune_count (TrimSpace (sm_Q params))"
    and "NormalizeTypes (sm_Types params) = Inr types" "search_DecodeCursor (sm_Cursor params) = Some (int i)"
    and "R = ranking idx (query_of access params types)" "i < length R \<or> i = 0"
    and "\<And>h. h \<in> set R \<Longrightarrow> \<exists>b. mayRead_hit down db access h = Ok b"
  shows "\<exists>m. i + m \<le> length R \<and> (i < length R \<longrightarrow> 0 < m) \<and>
    rp_Body (search down pv db idx access params) = Some
      \<lparr> sl_Data = filter (\<lambda>h. mayRead_hit down db access h = Ok True) (take m (drop i R)),
        sl_Limit = int (length (filter (\<lambda>h. mayRead_hit down db access h = Ok True) (take m (drop i R)))),
        sl_NextCursor = (if i + m < length R then search_EncodeCursor (int (i + m)) else []) \<rparr>"
proof -
  let ?may = "mayRead_hit down db access"
  define limit where "limit = search_ClampLimit (case ParseInt (TrimSpace (sm_Limit params)) of None \<Rightarrow> 0 | Some n \<Rightarrow> n)"
  define lim where "lim = (if 100 < limit * 4 then 100 else limit * 4)"
  have limit: "1 \<le> limit" using search_ClampLimit_bounds by (simp add: limit_def)
  then have lim: "0 < lim" by (simp add: lim_def)
  define W where "W = take (nat lim) (drop i R)"
  have q: "at_window (query_of access params types) 0 0 = query_of access params types"
    by (simp add: at_window_def query_of_def)
  have served: "srch idx (at_window (query_of access params types) (int i) lim) =
      Ok \<lparr> sg_Hits = W, sg_Total = int (length R), sg_Examined = int (length W) \<rparr>"
    using serves [OF assms(1) _ lim, of "int i" "query_of access params types"] by (simp add: q assms(6) W_def)
  have "\<exists>b. ?may h = Ok b" if "h \<in> set W" for h
    using assms(8) that by (auto simp: W_def dest!: in_set_takeD in_set_dropD)
  then obtain hits m where run: "permittedHits ?may (nat limit) [] 0 W = Ok (hits, m)"
    using permittedHits_total [of W ?may] by (metis surj_pair)
  from permittedHits_ok [OF run] limit have m: "m \<le> length W" "hits = filter (\<lambda>h. ?may h = Ok True) (take m W)"
    "W \<noteq> [] \<longrightarrow> 0 < m" by auto
  have W: "take m W = take m (drop i R)" using m(1) by (simp add: W_def min_absorb1)
  have im: "i + m \<le> length R" using m(1) assms(7) by (auto simp: W_def)
  have "i < length R \<longrightarrow> 0 < m" using m(3) lim by (auto simp: W_def)
  moreover note im
  moreover have w: "wrap64 (int i + int m) = int (i + m)"
    using im sized [OF assms(1), of "query_of access params types"] assms(6)
    by (simp add: wrap64_def max_int64_def)
  moreover have "rp_Body (search down pv db idx access params) = Some \<lparr> sl_Data = hits, sl_Limit = int (length hits),
      sl_NextCursor = (if wrap64 (int i + int m) < int (length R) then search_EncodeCursor (wrap64 (int i + int m)) else []) \<rparr>"
    using assms(2-5) served run
    unfolding search_def Let_def limit_def [symmetric] lim_def [symmetric]
    by (simp add: at_window_def query_of_def)
  ultimately show ?thesis unfolding w m(2) W of_nat_less_iff by blast
qed

text \<open>A caller that follows the cursors collects what it may read of the whole ranking, in order.\<close>

lemma walk_ranking:
  assumes "ok idx" "sv_Search pv = srch" "2 \<le> rune_count (TrimSpace (sm_Q params))"
    and "NormalizeTypes (sm_Types params) = Inr types" "R = ranking idx (query_of access params types)"
    and "\<And>h. h \<in> set R \<Longrightarrow> \<exists>b. mayRead_hit down db access h = Ok b"
    and "search_DecodeCursor cursor = Some (int i)" "i < length R \<or> i = 0" "length R - i < fuel"
  shows "follow (search_ask down pv db idx access params) fuel k cursor =
    Some (filter (\<lambda>h. mayRead_hit down db access h = Ok True) (drop i R))"
  using assms(7-9)
proof (induction fuel arbitrary: i k cursor)
  case 0
  then show ?case by simp
next
  case (Suc fuel)
  let ?P = "\<lambda>h. mayRead_hit down db access h = Ok True"
  have pages: "R = ranking idx (query_of access (params \<lparr> sm_Cursor := cursor \<rparr>) types)"
    using assms(5) by (simp add: query_of_def)
  from search_page [OF assms(1,2) _ _ _ pages Suc.prems(2) assms(6)] assms(3,4) Suc.prems(1) obtain m where
    m: "i + m \<le> length R" "i < length R \<longrightarrow> 0 < m"
      "search_ask down pv db idx access params k cursor = Some (filter ?P (take m (drop i R)),
         if i + m < length R then search_EncodeCursor (int (i + m)) else [])"
    by (auto simp: search_ask_def)
  have rest: "drop i R = take m (drop i R) @ drop (i + m) R" by (metis add.commute append_take_drop_id drop_drop)
  show ?case
  proof (cases "i + m < length R")
    case True
    then have pos: "0 < i + m" using m(2) by linarith
    have le: "int (i + m) \<le> max_int64" using True sized [OF assms(1), of "query_of access params types"] assms(5) by simp
    have d: "search_DecodeCursor (search_EncodeCursor (int (i + m))) = Some (int (i + m))"
      using search_DecodeCursor_Encode [OF _ le] pos by simp
    have "length R - (i + m) < fuel" using Suc.prems(3) True m(2) by linarith
    from Suc.IH [OF d _ this, of "Suc k"] True
    have "follow (search_ask down pv db idx access params) fuel (Suc k) (search_EncodeCursor (int (i + m))) =
      Some (filter ?P (drop (i + m) R))" by simp
    moreover have "search_EncodeCursor (int (i + m)) \<noteq> []" unfolding search_EncodeCursor_Nil using pos by linarith
    ultimately have "follow (search_ask down pv db idx access params) (Suc fuel) k cursor =
        Some (filter ?P (take m (drop i R)) @ filter ?P (drop (i + m) R))"
      using m(3) True by simp
    then show ?thesis by (subst rest) (simp only: filter_append)
  next
    case False
    then have "drop (i + m) R = []" by simp
    then have "drop i R = take m (drop i R)" using rest by (metis append_Nil2)
    then show ?thesis using m(3) False by simp
  qed
qed

end

text \<open>The in-memory provider is such an engine.\<close>

definition memory_ranks :: "Memory \<Rightarrow> SearchQuery \<Rightarrow> Hit list" where
  "memory_ranks documents q = (if Tokenize (sq_Text q) = [] then [] else memory_ranking documents q)"

lemma at_window_simps [simp]: "sq_Text (at_window q a b) = sq_Text q" "sq_Offset (at_window q a b) = a"
  "sq_Limit (at_window q a b) = b"
  by (simp_all add: at_window_def)

lemma memory_ranking_window: "memory_ranking documents (at_window q a b) = memory_ranking documents (at_window q 0 0)"
proof -
  have "search_candidate (at_window q a b) = search_candidate (at_window q 0 0)"
    by (rule ext) (simp add: search_candidate_def at_window_def)
  then show ?thesis by (simp add: memory_ranking_def)
qed

lemma length_memory_ranking: "length (memory_ranking documents q) \<le> length documents"
proof -
  have "length (filter (search_candidate q) (map snd documents)) \<le> length (map snd documents)" by (rule length_filter_le)
  then show ?thesis by (simp add: memory_ranking_def)
qed

interpretation mem: ranking_engine "memory_Search down" memory_ranks
  "\<lambda>documents. \<not> down ''context'' \<and> int (length documents) \<le> max_int64" for down
proof
  fix documents :: Memory and off lim :: int and q
  assume a: "\<not> down ''context'' \<and> int (length documents) \<le> max_int64" "0 \<le> off" "0 < lim"
  let ?R = "memory_ranks documents (at_window q 0 0)"
  show "memory_Search down documents (at_window q off lim) =
      Ok \<lparr> sg_Hits = take (nat lim) (drop (nat off) ?R), sg_Total = int (length ?R),
           sg_Examined = int (length (take (nat lim) (drop (nat off) ?R))) \<rparr>"
  proof (cases "Tokenize (sq_Text q) = []")
    case True
    then show ?thesis using a by (simp add: memory_Search_def memory_ranks_def)
  next
    case False
    let ?M = "memory_ranking documents (at_window q 0 0)"
    have d: "drop (nat (if int (length ?M) < off then int (length ?M) else off)) ?M = drop (nat off) ?M" by simp
    have t: "(if 0 < lim \<and> lim < int (length xs) then take (nat lim) xs else xs) = take (nat lim) xs" for xs :: "Hit list"
      using a(3) by (auto simp: take_all)
    show ?thesis using False a
      by (simp add: memory_Search_def memory_ranks_def Let_def memory_ranking_window [of documents q off lim] d t)
  qed
next
  fix documents :: Memory and q
  assume "\<not> down ''context'' \<and> int (length documents) \<le> max_int64"
  then show "int (length (memory_ranks documents q)) \<le> max_int64"
    using length_memory_ranking [of documents q] by (auto simp: memory_ranks_def max_int64_def)
qed

subsection \<open>What is in the index\<close>

text \<open>The index as the two service endpoints leave it.\<close>

inductive memory_reachable :: "Memory \<Rightarrow> bool" where
  empty: "memory_reachable []"
| indexed: "memory_reachable idx \<Longrightarrow>
    memory_reachable (snd (serviceIndexSearchDocuments (memory_provider down now) body idx))"
| deleted: "memory_reachable idx \<Longrightarrow>
    memory_reachable (snd (serviceDeleteSearchDocument (memory_provider down now) pathID idx))"

definition document_ok :: "SearchDocument \<Rightarrow> bool" where
  "document_ok d \<longleftrightarrow> sd_ScopeType d \<noteq> [] \<and> sd_Type d \<in> set search_Types \<and> sd_Permissions d \<noteq> [] \<and>
     (\<forall>p \<in> set (sd_Permissions d). p \<noteq> [] \<and> TrimSpace p = p)"

definition memory_ok :: "Memory \<Rightarrow> bool" where
  "memory_ok idx \<longleftrightarrow> distinct (map fst idx) \<and> (\<forall>(i, d) \<in> set idx. sd_ID d = i \<and> document_ok d)"

lemma kept_permissions_ok: "p \<in> set (kept_permissions seen ps) \<Longrightarrow> p \<noteq> [] \<and> TrimSpace p = p"
  by (induction seen ps rule: kept_permissions.induct) (auto simp: Let_def split: if_splits)

lemma document_Normalize_ok: "document_Normalize now d0 = Ok d \<Longrightarrow> document_ok d"
  using kept_permissions_ok [of _ "[]" "sd_Permissions d0"] kept_permissions_ok [of "[]" "[]" "sd_Permissions d0"]
  by (auto simp: document_Normalize_def document_ok_def validType_def Let_def split: if_splits)

lemma map_result_set: "map_result f xs = Ok ys \<Longrightarrow> y \<in> set ys \<Longrightarrow> \<exists>x \<in> set xs. f x = Ok y"
  by (induction xs arbitrary: ys) (auto split: sum.splits)

lemma update_entry: "x \<in> set (AList.update k v al) \<Longrightarrow> x = (k, v) \<or> x \<in> set al"
  by (induction al) (auto split: if_splits)

lemma memory_ok_update:
  assumes "memory_ok idx" "document_ok d"
  shows "memory_ok (AList.update (sd_ID d) d idx)"
  using assms distinct_update [of idx "sd_ID d" d] by (auto simp: memory_ok_def dest!: update_entry)

lemma memory_ok_updates:
  "memory_ok idx \<Longrightarrow> (\<And>d. d \<in> set ds \<Longrightarrow> document_ok d) \<Longrightarrow>
     memory_ok (fold (\<lambda>d m. AList.update (sd_ID d) d m) ds idx)"
  by (induction ds arbitrary: idx) (simp_all add: memory_ok_update)

lemma memory_ok_delete: "memory_ok idx \<Longrightarrow> memory_ok (AList.delete i idx)"
  by (auto simp: memory_ok_def AList.delete_eq distinct_map inj_on_def)

lemma memory_ok_deletes: "memory_ok idx \<Longrightarrow> memory_ok (fold (\<lambda>i m. AList.delete (f i) m) ids idx)"
  by (induction ids arbitrary: idx) (simp_all add: memory_ok_delete)

lemma memory_reachable_ok: "memory_reachable idx \<Longrightarrow> memory_ok idx"
proof (induction rule: memory_reachable.induct)
  case empty
  then show ?case by (simp add: memory_ok_def)
next
  case (indexed idx down now body)
  have "memory_ok (snd (memory_Index down now ds idx))" for ds
  proof (cases "map_result (document_Normalize now) ds")
    case (Inr normalized)
    have "document_ok d" if "d \<in> set normalized" for d
      using map_result_set [OF Inr that] document_Normalize_ok by blast
    then show ?thesis using Inr memory_ok_updates [OF indexed.IH, of normalized] indexed.IH by (simp add: memory_Index_def)
  qed (use indexed.IH in \<open>simp add: memory_Index_def\<close>)
  then show ?case using indexed.IH
    by (auto simp: serviceIndexSearchDocuments_def memory_provider_def split: option.splits prod.splits sum.splits
        SearchError.splits) (metis snd_conv)+
next
  case (deleted idx down now pathID)
  have "memory_ok (snd (memory_Delete down ids idx))" for ids
    using deleted.IH memory_ok_deletes [OF deleted.IH, of TrimSpace ids] by (simp add: memory_Delete_def)
  then show ?case using deleted.IH
    by (auto simp: serviceDeleteSearchDocument_def memory_provider_def Let_def split: prod.splits sum.splits)
      (metis snd_conv)+
qed

subsection \<open>What a search shows\<close>

text \<open>
  The reference.  A document answers a query when it is of a type asked for and each term begins a word of its title
  or summary; the caller may read it by the rule of the detail endpoints (the caller holds one of its permissions without being confined to scopes, or
  has a grant for it).  The roles carry a document when they hold one of its permissions, whatever the scope: that is no part of the
  visibility rule, and what the engine narrows by.
\<close>

definition term_matches :: "SearchDocument \<Rightarrow> string \<Rightarrow> bool" where
  "term_matches d t \<longleftrightarrow> (\<exists>w \<in> set (Tokenize (sd_Title d)) \<union> set (Tokenize (sd_Summary d)). HasPrefix w t)"

definition readable :: "DB \<Rightarrow> meResponse \<Rightarrow> SearchDocument \<Rightarrow> bool" where
  "readable db access d \<longleftrightarrow> PermissionAll \<in> set (me_Permissions access) \<or>
     (\<exists>perm \<in> set (sd_Permissions d).
        perm \<in> set (me_Permissions access) \<and> ''Customer'' \<notin> set (me_Roles access) \<or>
        (\<exists>g \<in> set (db_scopes db). scope_row_covers g KindUser (me_ID access) (sd_ScopeType d) (sd_ScopeID d) perm))"

definition found_for :: "DB \<Rightarrow> meResponse \<Rightarrow> string \<Rightarrow> string list \<Rightarrow> SearchDocument \<Rightarrow> bool" where
  "found_for db access t types d \<longleftrightarrow>
     (types = [] \<or> sd_Type d \<in> set types) \<and> Tokenize t \<noteq> [] \<and> (\<forall>w \<in> set (Tokenize t). term_matches d w) \<and> readable db access d"

definition carried :: "meResponse \<Rightarrow> SearchDocument \<Rightarrow> bool" where
  "carried access d \<longleftrightarrow>
     PermissionAll \<in> set (me_Permissions access) \<or> set (sd_Permissions d) \<inter> set (me_Permissions access) \<noteq> {}"

lemma fieldScore_pos: "0 < fieldScore best ws t \<longleftrightarrow> 0 < best \<or> (\<exists>w \<in> set ws. HasPrefix w t)"
  by (induction best ws t rule: fieldScore.induct) (auto simp: HasPrefix_def)

lemma score_terms_pos:
  "0 < score_terms ti su score ts \<longleftrightarrow>
     (\<forall>t \<in> set ts. 0 < fieldScore 0 ti t \<or> 0 < fieldScore 0 su t) \<and> (ts = [] \<longrightarrow> 0 < score)"
  by (induction ti su score ts rule: score_terms.induct) (auto simp: Let_def)

lemma scoreOf_pos: "0 < scoreOf d ts \<longleftrightarrow> ts \<noteq> [] \<and> (\<forall>t \<in> set ts. term_matches d t)"
  by (auto simp: scoreOf_def score_terms_pos fieldScore_pos term_matches_def)

lemma mayRead_decides:
  assumes "\<And>perm. perm \<in> set perms \<Longrightarrow> \<exists>d. Evaluate e p perm (Resource ty i) = Ok d"
  shows "mayRead e p ty i perms = Ok (\<exists>perm \<in> set perms. \<exists>d. Evaluate e p perm (Resource ty i) = Ok d \<and> dc_Allowed d)"
  using assms
proof (induction perms)
  case (Cons a perms)
  obtain d where "Evaluate e p a (Resource ty i) = Ok d" using Cons(2) [of a] by auto
  then show ?case using Cons by auto
qed simp

lemma Evaluate_decides:
  assumes "\<not> down ''scope_check''" "pr_Kind p = KindUser" "sc_Type scope \<noteq> []"
  shows "\<exists>d. Evaluate (platform_authz down db) p perm scope = Ok d"
  using platform_scoped [of p scope down db "TrimSpace perm"] assms
  by (auto simp: Evaluate_def Let_def split: sum.splits)

lemma mayRead_readable:
  assumes "\<not> down ''scope_check''" "me_ID access \<noteq> []" "document_ok d"
  shows "mayRead_hit down db access \<lparr> ht_Document = d, ht_Score = n \<rparr> = Ok (readable db access d)"
proof -
  let ?p = "principal_of access"
  have p: "pr_Kind ?p = KindUser" "pr_ID ?p \<noteq> []" "pr_Permissions ?p = me_Permissions access"
    "pr_Roles ?p = me_Roles access" "pr_ID ?p = me_ID access"
    using assms(2) by (simp_all add: principal_of_def)
  have ty: "sc_Type (Resource (sd_ScopeType d) (sd_ScopeID d)) \<noteq> []"
    using assms(3) by (simp add: document_ok_def Resource_def)
  have ev: "(\<exists>x. Evaluate (platform_authz down db) ?p perm (Resource (sd_ScopeType d) (sd_ScopeID d)) = Ok x \<and> dc_Allowed x)
      \<longleftrightarrow> PermissionAll \<in> set (me_Permissions access) \<or>
        perm \<in> set (me_Permissions access) \<and> ''Customer'' \<notin> set (me_Roles access) \<or>
        (\<exists>g \<in> set (db_scopes db). scope_row_covers g KindUser (me_ID access) (sd_ScopeType d) (sd_ScopeID d) perm)"
    if "perm \<in> set (sd_Permissions d)" for perm
    using assms(1,3) that p ty Evaluate_characterized [of "platform_authz down db" ?p perm]
      platform_scoped [of ?p "Resource (sd_ScopeType d) (sd_ScopeID d)" down db perm]
    by (auto simp: document_ok_def PermissionAll_def Resource_def)
  obtain q where "q \<in> set (sd_Permissions d)" using assms(3) by (cases "sd_Permissions d") (auto simp: document_ok_def)
  then have r: "(\<exists>perm \<in> set (sd_Permissions d).
      \<exists>x. Evaluate (platform_authz down db) ?p perm (Resource (sd_ScopeType d) (sd_ScopeID d)) = Ok x \<and> dc_Allowed x)
      \<longleftrightarrow> readable db access d"
    unfolding readable_def using ev by blast
  show ?thesis
    unfolding mayRead_hit_def Hit.simps r [symmetric]
    by (rule mayRead_decides) (rule Evaluate_decides [where p = ?p and down = down, OF assms(1) p(1) ty])
qed

lemma ranked_documents:
  "h \<in> set (memory_ranks idx q) \<longleftrightarrow> (\<exists>d \<in> snd ` set idx. h = \<lparr> ht_Document = d, ht_Score = scoreOf d (Tokenize (sq_Text q)) \<rparr> \<and>
     search_candidate q d)"
proof (cases "Tokenize (sq_Text q) = []")
  case True
  then show ?thesis by (simp add: memory_ranks_def search_candidate_def scoreOf_pos)
next
  case False
  then show ?thesis by (auto simp: memory_ranks_def memory_ranking_def)
qed

lemma ranked_set:
  "set (memory_ranks idx q) = (\<lambda>d. \<lparr> ht_Document = d, ht_Score = scoreOf d (Tokenize (sq_Text q)) \<rparr>) `
     {d \<in> snd ` set idx. search_candidate q d}"
  by (rule set_eqI) (simp only: ranked_documents image_iff mem_Collect_eq, blast)

lemma ranked_strictly:
  assumes "memory_ok idx"
  shows "sorted_wrt (\<lambda>g h. rank_key g < rank_key h) (memory_ranks idx q)"
proof -
  let ?ds = "filter (search_candidate q) (map snd idx)"
  have "distinct (map sd_ID (map snd idx))"
  proof -
    have "map sd_ID (map snd idx) = map fst idx" using assms by (auto simp: memory_ok_def)
    then show ?thesis using assms unfolding memory_ok_def by metis
  qed
  then have "distinct (map sd_ID ?ds)" by (rule distinct_map_filter)
  then have "distinct (map rank_key (map (\<lambda>d. \<lparr> ht_Document = d, ht_Score = scoreOf d (Tokenize (sq_Text q)) \<rparr>) ?ds))"
    by (auto simp: distinct_map inj_on_def rank_key_def)
  from sort_key_strict [OF this] show ?thesis by (auto simp: memory_ranks_def memory_ranking_def)
qed

text \<open>The ranking of the readable part of an index is the readable part of the ranking.\<close>

lemma ranked_filter:
  "memory_ranks (filter (\<lambda>(i, d). P d) idx) q = filter (\<lambda>h. P (ht_Document h)) (memory_ranks idx q)"
proof -
  have "map snd (filter (\<lambda>(i, d). P d) idx) = filter P (map snd idx)"
    by (simp add: filter_map comp_def case_prod_unfold)
  moreover have "filter (\<lambda>h. P (ht_Document h)) (map (\<lambda>d. \<lparr> ht_Document = d, ht_Score = f d \<rparr>) ds) =
      map (\<lambda>d. \<lparr> ht_Document = d, ht_Score = f d \<rparr>) (filter P ds)" for f ds
    by (simp add: filter_map comp_def)
  moreover have "filter (search_candidate q) (filter P ds) = filter P (filter (search_candidate q) ds)" for ds
    by (simp add: conj_commute)
  ultimately show ?thesis
    by (simp only: memory_ranks_def memory_ranking_def filter_sort filter.simps split: if_split) simp
qed

definition search_walk ::
  "down \<Rightarrow> int \<Rightarrow> DB \<Rightarrow> Memory \<Rightarrow> meResponse \<Rightarrow> SearchParams \<Rightarrow> nat \<Rightarrow> Hit list option" where
  "search_walk down now db idx access params fuel =
     follow (search_ask down (memory_provider down now) db idx access params) fuel 0 []"

lemma search_walk_collects:
  assumes "memory_ok idx" "\<not> down ''context''" "\<not> down ''scope_check''" "me_ID access \<noteq> []"
    and "int (length idx) \<le> max_int64" "length idx < fuel"
    and "2 \<le> rune_count (TrimSpace (sm_Q params))" "NormalizeTypes (sm_Types params) = Inr types"
  shows "search_walk down now db idx access params fuel =
    Some (filter (\<lambda>h. readable db access (ht_Document h)) (memory_ranks idx (query_of access params types)))"
proof -
  let ?R = "memory_ranks idx (query_of access params types)"
  have may: "mayRead_hit down db access h = Ok (readable db access (ht_Document h))" if "h \<in> set ?R" for h
  proof -
    obtain i d where d: "(i, d) \<in> set idx" and h: "h = \<lparr> ht_Document = d, ht_Score = scoreOf d (Tokenize (sq_Text (query_of access params types))) \<rparr>"
      using \<open>h \<in> set ?R\<close> by (auto simp: ranked_documents)
    then have "document_ok d" using assms(1) by (auto simp: memory_ok_def)
    from mayRead_readable [where down = down, OF assms(3,4) this] show ?thesis by (simp add: h)
  qed
  have "length ?R \<le> length idx" using length_memory_ranking [of idx] by (simp add: memory_ranks_def)
  then have fuel: "length ?R - 0 < fuel" using assms(6) by simp
  have ok: "\<not> down ''context'' \<and> int (length idx) \<le> max_int64" using assms(2,5) by simp
  have pv: "sv_Search (memory_provider down now) = memory_Search down" by (simp add: memory_provider_def)
  have "search_walk down now db idx access params fuel = Some (filter (\<lambda>h. mayRead_hit down db access h = Ok True) (drop 0 ?R))"
    unfolding search_walk_def
    by (rule mem.walk_ranking [where down = down, OF ok pv assms(7,8) refl _ _ _ fuel]) (use may in auto)
  also have "\<dots> = Some (filter (\<lambda>h. readable db access (ht_Document h)) ?R)"
    using may by (simp cong: filter_cong)
  finally show ?thesis .
qed

text \<open>
  C19.  What a caller collects that follows the cursors of a search, once each and best first: the documents of the index that answer
  the query, that it may read and that its roles carry, and no other; pages, windows and the authorization filter lose and repeat none.  So it collects
  everything it may read that answers the query exactly when its roles carry all of that: the narrowing by the engine loses a document
  which the caller may read by a scope grant for a permission its roles do not hold.
\<close>

theorem search_walk_exact:
  assumes "memory_reachable idx" "\<not> down ''context''" "\<not> down ''scope_check''" "me_ID access \<noteq> []"
    and "int (length idx) \<le> max_int64" "length idx < fuel"
    and "2 \<le> rune_count (TrimSpace (sm_Q params))" "NormalizeTypes (sm_Types params) = Inr types"
  shows "\<exists>hits. search_walk down now db idx access params fuel = Some hits \<and>
    sorted_wrt (\<lambda>g h. rank_key g < rank_key h) hits \<and>
    ht_Document ` set hits = {d \<in> snd ` set idx. found_for db access (TrimSpace (sm_Q params)) types d \<and> carried access d} \<and>
    (ht_Document ` set hits = {d \<in> snd ` set idx. found_for db access (TrimSpace (sm_Q params)) types d} \<longleftrightarrow>
     (\<forall>d \<in> snd ` set idx. found_for db access (TrimSpace (sm_Q params)) types d \<longrightarrow> carried access d))"
proof -
  have ok: "memory_ok idx" by (rule memory_reachable_ok) fact
  let ?q = "query_of access params types"
  have f: "found_for db access (TrimSpace (sm_Q params)) types d \<and> carried access d \<longleftrightarrow> search_candidate ?q d \<and> readable db access d" for d
    by (auto simp: found_for_def carried_def search_candidate_def query_of_def scoreOf_pos anyPermission_def)
  let ?hits = "filter (\<lambda>h. readable db access (ht_Document h)) (memory_ranks idx ?q)"
  let ?found = "found_for db access (TrimSpace (sm_Q params)) types"
  have docs: "ht_Document ` set ?hits = {d \<in> snd ` set idx. ?found d \<and> carried access d}"
    unfolding f set_filter ranked_set by (force simp: image_image)
  have all: "({d \<in> snd ` set idx. ?found d \<and> carried access d} = {d \<in> snd ` set idx. ?found d}) \<longleftrightarrow>
      (\<forall>d \<in> snd ` set idx. ?found d \<longrightarrow> carried access d)" by blast
  have "sorted_wrt (\<lambda>g h. rank_key g < rank_key h) ?hits" by (rule sorted_wrt_filter [OF ranked_strictly [OF ok]])
  moreover have "search_walk down now db idx access params fuel = Some ?hits"
    by (rule search_walk_collects [where down = down, OF ok assms(2-8)])
  ultimately show ?thesis using docs all by (intro exI [of _ ?hits] conjI) (simp_all only: docs all)
qed

text \<open>
  C35.  What a caller finds does not depend on what it may not read: with those documents out of the index the
  same search, followed page by page, collects the same hits with the same scores in the same order, although
  the cursors of its pages count documents of the larger index.
\<close>

theorem hidden_documents_inert:
  assumes "memory_reachable idx" "\<not> down ''context''" "\<not> down ''scope_check''" "me_ID access \<noteq> []"
    and "int (length idx) \<le> max_int64" "length idx < fuel"
    and "2 \<le> rune_count (TrimSpace (sm_Q params))" "NormalizeTypes (sm_Types params) = Inr types"
  shows "search_walk down now db (filter (\<lambda>(i, d). readable db access d) idx) access params fuel =
    search_walk down now db idx access params fuel"
proof -
  have ok: "memory_ok idx" by (rule memory_reachable_ok) fact
  let ?idx = "filter (\<lambda>(i, d). readable db access d) idx"
  have ok': "memory_ok ?idx" using ok by (auto simp: memory_ok_def intro: distinct_map_filter)
  have "length ?idx \<le> length idx" by (rule length_filter_le)
  then have len: "int (length ?idx) \<le> max_int64" "length ?idx < fuel" using assms(5,6) by linarith+
  show ?thesis
    unfolding search_walk_collects [where down = down, OF ok assms(2-8)]
      search_walk_collects [where down = down, OF ok' assms(2-4) len assms(7,8)] ranked_filter
    by (simp add: filter_filter)
qed

lemma permittedHits_none:
  "(\<And>h. h \<in> set hs \<Longrightarrow> may h = Ok False) \<Longrightarrow> length acc \<noteq> n \<Longrightarrow> permittedHits may n acc c hs = Ok (acc, c + length hs)"
  by (induction hs arbitrary: c) (simp_all add: Let_def)

definition search_window :: "SearchParams \<Rightarrow> int" where
  "search_window params =
     (let limit = search_ClampLimit (case ParseInt (TrimSpace (sm_Limit params)) of None \<Rightarrow> 0 | Some n \<Rightarrow> n)
      in if 100 < limit * 4 then 100 else limit * 4)"

text \<open>
  The cursor says what the missing total is kept from saying: a caller that may read none of the matches gets an
  empty page, with a cursor exactly when more documents match than the page examined, and the cursor is
  their number.  The window is four times the limit the caller chose, so it can measure.
\<close>

theorem cursor_counts_hidden:
  assumes "memory_reachable idx" "\<not> down ''context''" "\<not> down ''scope_check''" "me_ID access \<noteq> []"
    and "int (length idx) \<le> max_int64" "2 \<le> rune_count (TrimSpace (sm_Q params))"
    and "NormalizeTypes (sm_Types params) = Inr types" "sm_Cursor params = []"
    and "\<And>h. h \<in> set (memory_ranks idx (query_of access params types)) \<Longrightarrow> \<not> readable db access (ht_Document h)"
  shows "rp_Body (search down (memory_provider down now) db idx access params) = Some
     \<lparr> sl_Data = [], sl_Limit = 0,
       sl_NextCursor = (if search_window params < int (length (memory_ranks idx (query_of access params types)))
                        then search_EncodeCursor (search_window params) else []) \<rparr>"
proof -
  define R where "R = memory_ranks idx (query_of access params types)"
  define limit where "limit = search_ClampLimit (case ParseInt (TrimSpace (sm_Limit params)) of None \<Rightarrow> 0 | Some n \<Rightarrow> n)"
  define lim where "lim = (if 100 < limit * 4 then 100 else limit * 4)"
  have l: "1 \<le> limit" "limit \<le> 50" using search_ClampLimit_bounds by (simp_all add: limit_def)
  have lim: "0 < lim" "search_window params = lim" using l by (simp_all add: lim_def search_window_def limit_def Let_def)
  define W where "W = take (nat lim) R"
  have ok: "memory_ok idx" by (rule memory_reachable_ok) fact
  have "mayRead_hit down db access h = Ok False" if h: "h \<in> set W" for h
  proof -
    have hR: "h \<in> set R" using h unfolding W_def by (rule in_set_takeD)
    then obtain i d where d: "(i, d) \<in> set idx"
      "h = \<lparr> ht_Document = d, ht_Score = scoreOf d (Tokenize (sq_Text (query_of access params types))) \<rparr>"
      by (auto simp: R_def ranked_documents)
    then have "document_ok d" using ok by (auto simp: memory_ok_def)
    from mayRead_readable [where down = down, OF assms(3,4) this] assms(9) [OF hR [unfolded R_def]] show ?thesis by (simp add: d(2))
  qed
  then have run: "permittedHits (mayRead_hit down db access) (nat limit) [] 0 W = Ok ([], length W)"
    using permittedHits_none [of W "mayRead_hit down db access" "[]" "nat limit" 0] l by simp
  have q: "at_window (query_of access params types) 0 0 = query_of access params types"
    by (simp add: at_window_def query_of_def)
  have good: "\<not> down ''context'' \<and> int (length idx) \<le> max_int64" using assms(2,5) by simp
  have served: "memory_Search down idx (at_window (query_of access params types) 0 lim) =
      Ok \<lparr> sg_Hits = W, sg_Total = int (length R), sg_Examined = int (length W) \<rparr>"
    using mem.serves [where down = down, OF good _ lim(1), of 0 "query_of access params types"] by (simp add: q W_def R_def)
  have "lim \<le> 100" by (simp add: lim_def)
  then have w: "wrap64 (0 + int (length W)) = int (length W)" using lim by (simp add: wrap64_def W_def)
  have "rp_Body (search down (memory_provider down now) db idx access params) = Some \<lparr> sl_Data = [], sl_Limit = 0,
      sl_NextCursor = (if int (length W) < int (length R) then search_EncodeCursor (int (length W)) else []) \<rparr>"
    using assms(6-8) served run w
    unfolding search_def Let_def limit_def [symmetric] lim_def [symmetric]
    by (simp add: at_window_def query_of_def memory_provider_def)
  moreover have "int (length W) < int (length R) \<longleftrightarrow> lim < int (length R)" using lim(1) by (auto simp: W_def)
  moreover have "lim < int (length R) \<Longrightarrow> int (length W) = lim" using lim(1) by (auto simp: W_def)
  ultimately show ?thesis unfolding lim(2) R_def [symmetric] by auto
qed

subsection \<open>Two customers' documents\<close>

definition acme :: "string \<Rightarrow> string \<Rightarrow> SearchDocument" where
  "acme i title = \<lparr> sd_ID = i, sd_Type = ''client'', sd_Title = title, sd_Summary = [], sd_Source = ''espocrm'',
     sd_TenantID = i, sd_Permissions = [''crm.client.read''], sd_ScopeType = ''client'', sd_ScopeID = i,
     sd_UpdatedAt = Some 1 \<rparr>"

definition acme_docs :: "SearchDocument list" where
  "acme_docs = [acme ''CL-000001'' ''Acme'', acme ''CL-000002'' ''Acme North'', acme ''CL-000003'' ''Acme South'',
     acme ''CL-000004'' ''Acme East'', acme ''CL-000005'' ''Acme West'', acme ''CL-000006'' ''Other'']"

definition acme_index :: Memory where
  "acme_index = map (\<lambda>d. (sd_ID d, d)) acme_docs"

lemma acme_indexed:
  "snd (serviceIndexSearchDocuments (memory_provider (\<lambda>_. False) 2) (Some acme_docs) []) = acme_index"
  by code_simp

lemma acme_reachable: "memory_reachable acme_index"
  using memory_reachable.indexed [OF memory_reachable.empty] unfolding acme_indexed [symmetric] by blast

definition one_client :: DB where
  "one_client = sample_db \<lparr> db_scopes := [\<lparr> sg_PrincipalType = ''user'', sg_PrincipalID = ''USR-000009'',
     sg_ScopeType = ''client'', sg_ScopeID = ''CL-000001'', sg_PermissionID = ''crm.client.read'' \<rparr>] \<rparr>"

definition acme_customer :: "string \<Rightarrow> meResponse" where
  "acme_customer i = \<lparr> me_ID = i, me_Subject = ''s'', me_Email = [], me_Name = [], me_Username = ''c'',
     me_Groups = [], me_Roles = [''Customer''], me_Permissions = [''crm.client.read''], me_Modules = [] \<rparr>"

definition acme_query :: SearchParams where
  "acme_query = \<lparr> sm_Q = '' acme '', sm_Types = [''Client''], sm_Cursor = [], sm_Limit = ''1'' \<rparr>"

lemma acme_hypotheses:
  "2 \<le> rune_count (TrimSpace (sm_Q acme_query))" "NormalizeTypes (sm_Types acme_query) = Inr [''client'']"
  "sm_Cursor acme_query = []" "int (length acme_index) \<le> max_int64" "length acme_index < 7" "me_ID (acme_customer (CHR ''U'' # i)) \<noteq> []"
proof -
  show "int (length acme_index) \<le> max_int64" "length acme_index < 7"
    by (simp_all add: acme_index_def acme_docs_def max_int64_def)
  show "me_ID (acme_customer (CHR ''U'' # i)) \<noteq> []" by (simp add: acme_customer_def)
qed code_simp+

definition bare_customer :: meResponse where
  "bare_customer = (acme_customer ''USR-000009'') \<lparr> me_Permissions := [] \<rparr>"

theorem search_walk_exact_witness:
  "(\<exists>hits. search_walk all_up 2 one_client acme_index (acme_customer ''USR-000009'') acme_query 7 = Some hits \<and>
      ht_Document ` set hits = {acme ''CL-000001'' ''Acme''}) \<and>
   (\<exists>hits. search_walk all_up 2 one_client acme_index bare_customer acme_query 7 = Some hits \<and> ht_Document ` set hits = {} \<and>
      readable one_client bare_customer (acme ''CL-000001'' ''Acme''))"
proof -
  have up: "\<not> all_up ''context''" "\<not> all_up ''scope_check''" by (simp_all add: all_up_def)
  have docs: "snd ` set acme_index = set acme_docs" by (simp add: acme_index_def image_image)
  have walk: "\<exists>hits. search_walk all_up 2 one_client acme_index access acme_query 7 = Some hits \<and>
      ht_Document ` set hits = set (filter (\<lambda>d. found_for one_client access (TrimSpace (sm_Q acme_query)) [''client''] d \<and> carried access d) acme_docs)"
    if "me_ID access \<noteq> []" for access
    using search_walk_exact [where down = all_up and now = 2 and db = one_client and idx = acme_index and params = acme_query and fuel = 7
      and access = access, OF acme_reachable up that acme_hypotheses(4,5,1,2)] unfolding docs set_filter by blast
  have f: "filter (\<lambda>d. found_for one_client (acme_customer ''USR-000009'') (TrimSpace (sm_Q acme_query)) [''client''] d \<and>
      carried (acme_customer ''USR-000009'') d) acme_docs = [acme ''CL-000001'' ''Acme'']" by code_simp
  have g: "filter (\<lambda>d. found_for one_client bare_customer (TrimSpace (sm_Q acme_query)) [''client''] d \<and> carried bare_customer d) acme_docs = []"
    "readable one_client bare_customer (acme ''CL-000001'' ''Acme'')" by code_simp+
  show ?thesis
    using walk [of "acme_customer ''USR-000009''"] walk [of bare_customer] acme_hypotheses(6) g(2) unfolding f g(1)
    by (simp add: bare_customer_def acme_customer_def)
qed

theorem hidden_documents_inert_witness:
  "search_walk all_up 2 one_client [(''CL-000001'', acme ''CL-000001'' ''Acme'')] (acme_customer ''USR-000009'') acme_query 7 =
   search_walk all_up 2 one_client acme_index (acme_customer ''USR-000009'') acme_query 7"
proof -
  have up: "\<not> all_up ''context''" "\<not> all_up ''scope_check''" by (simp_all add: all_up_def)
  have eq: "filter (\<lambda>(i, d). readable one_client (acme_customer ''USR-000009'') d) acme_index = [(''CL-000001'', acme ''CL-000001'' ''Acme'')]"
    by code_simp
  from hidden_documents_inert [where down = all_up and now = 2 and idx = acme_index and params = acme_query and fuel = 7 and db = one_client
      and access = "acme_customer ''USR-000009''", OF acme_reachable up acme_hypotheses(6) acme_hypotheses(4,5,1,2)]
  show ?thesis unfolding eq by blast
qed

theorem cursor_counts_hidden_witness:
  "rp_Body (search all_up (memory_provider all_up 2) one_client acme_index (acme_customer ''USR-000010'') acme_query) =
     Some \<lparr> sl_Data = [], sl_Limit = 0, sl_NextCursor = search_EncodeCursor 4 \<rparr>"
proof -
  let ?R = "memory_ranks acme_index (query_of (acme_customer ''USR-000010'') acme_query [''client''])"
  have up: "\<not> all_up ''context''" "\<not> all_up ''scope_check''" by (simp_all add: all_up_def)
  have "list_all (\<lambda>h. \<not> readable one_client (acme_customer ''USR-000010'') (ht_Document h)) ?R" "length ?R = 5"
    "search_window acme_query = 4" by code_simp+
  with cursor_counts_hidden [where down = all_up and idx = acme_index and params = acme_query and db = one_client
      and access = "acme_customer ''USR-000010''" and now = 2,
      OF acme_reachable up acme_hypotheses(6) acme_hypotheses(4,1,2,3)]
  show ?thesis by (simp add: list_all_iff)
qed

end
