(* ===== verification/Redaction.thy ===== *)
theory Redaction
  imports Prelude
begin

section \<open>What may leave for a model (internal/ai/ai.go)\<close>

text \<open>
  Classification of fragments, redaction and the prompt.  Redaction searches keys in the line's lower case and cuts
  the line itself there, so the lower case is that of Go, rune by rune over UTF-8: the table of unicode.ToLower above 127
  is the parameter lr.  A cut beyond the line is the run-time panic of the slice, an error of its own.
  In the other passes a rune outside ASCII is its bytes, all above 127, which the tests on letters refuse as the
  code refuses the rune.  The map Summarize renders lists its classes in the order of their first fragment.
\<close>

subsection \<open>Classification\<close>

definition classOrder :: "(string \<times> nat) list" where
  "classOrder = [(''PUBLIC'', 0), (''INTERNAL'', 1), (''CONFIDENTIAL'', 2), (''SECRET'', 3), (''CREDENTIAL'', 4)]"

definition class_rank :: "string \<Rightarrow> nat" where
  "class_rank c = (case map_of classOrder c of None \<Rightarrow> 0 | Some n \<Rightarrow> n)"

definition MaxQuestionBytes :: nat where "MaxQuestionBytes = 4000"
definition MaxPromptBytes :: nat where "MaxPromptBytes = 24000"
definition MaxSources :: nat where "MaxSources = 20"

record Fragment =
  fg_EntityType :: string
  fg_GlobalID :: string
  fg_Title :: string
  fg_Detail :: string
  fg_Classification :: string

definition Classify :: "Fragment list \<Rightarrow> string" where
  "Classify fragments =
     foldl (\<lambda>highest f. if class_rank highest < class_rank (fg_Classification f) then fg_Classification f else highest)
       ''PUBLIC'' fragments"

definition Summarize :: "Fragment list \<Rightarrow> string \<times> (string \<times> nat) list" where
  "Summarize fragments =
     (let cs = map fg_Classification fragments in (Classify fragments, map (\<lambda>c. (c, count_list cs c)) (remdups cs)))"

subsection \<open>Lower case, rune by rune\<close>

text \<open>One rune and its width, as a range loop over a string reads it: a byte that starts no rune is U+FFFD, one byte wide.\<close>

definition continues :: "char \<Rightarrow> int \<Rightarrow> int \<Rightarrow> bool" where
  "continues c low high \<longleftrightarrow> low \<le> (of_char c :: int) \<and> (of_char c :: int) \<le> high"

definition RuneError :: int where "RuneError = 0xFFFD"

definition decode_rune :: "char \<Rightarrow> string \<Rightarrow> int \<times> nat" where
  "decode_rune c s =
     (let a = of_char c :: int; v = (\<lambda>k. (of_char (s ! k) :: int) - 0x80);
          second = (\<lambda>low high. 1 \<le> length s \<and> continues (s ! 0) low high);
          third = 2 \<le> length s \<and> continues (s ! 1) 0x80 0xBF;
          fourth = 3 \<le> length s \<and> continues (s ! 2) 0x80 0xBF
      in if a < 0x80 then (a, 1)
         else if 0xC2 \<le> a \<and> a \<le> 0xDF \<and> second 0x80 0xBF then ((a - 0xC0) * 64 + v 0, 2)
         else if 0xE0 \<le> a \<and> a \<le> 0xEF \<and> second (if a = 0xE0 then 0xA0 else 0x80) (if a = 0xED then 0x9F else 0xBF) \<and> third
         then ((a - 0xE0) * 4096 + v 0 * 64 + v 1, 3)
         else if 0xF0 \<le> a \<and> a \<le> 0xF4 \<and> second (if a = 0xF0 then 0x90 else 0x80) (if a = 0xF4 then 0x8F else 0xBF) \<and> third \<and> fourth
         then ((a - 0xF0) * 262144 + v 0 * 4096 + v 1 * 64 + v 2, 4)
         else (RuneError, 1))"

fun runes :: "string \<Rightarrow> int list" where
  "runes [] = []"
| "runes (c # s) = (case decode_rune c s of (r, w) \<Rightarrow> r # runes (drop (w - 1) s))"

definition encode_rune :: "int \<Rightarrow> string" where
  "encode_rune n =
     (let r = (if 0x10FFFF < n \<or> 0xD800 \<le> n \<and> n \<le> 0xDFFF then RuneError else n);
          more = (\<lambda>k. char_of (0x80 + r div k mod 64) :: char)
      in if r < 0x80 then [char_of r]
         else if r < 0x800 then [char_of (0xC0 + r div 64), more 1]
         else if r < 0x10000 then [char_of (0xE0 + r div 4096), more 64, more 1]
         else [char_of (0xF0 + r div 262144), more 4096, more 64, more 1])"

definition lower_rune :: "(int \<Rightarrow> int) \<Rightarrow> int \<Rightarrow> int" where
  "lower_rune lr r = (if r < 0x80 then (if 65 \<le> r \<and> r \<le> 90 then r + 32 else r) else lr r)"

definition ToLowerRunes :: "(int \<Rightarrow> int) \<Rightarrow> string \<Rightarrow> string" where
  "ToLowerRunes lr s = concat (map (\<lambda>r. encode_rune (lower_rune lr r)) (runes s))"

definition is_ascii :: "string \<Rightarrow> bool" where
  "is_ascii s \<longleftrightarrow> (\<forall>c \<in> set s. (of_char c :: int) < 0x80)"

lemma encode_lower_ascii:
  assumes "(of_char c :: int) < 0x80"
  shows "encode_rune (lower_rune lr (of_char c)) = [lower_char c]"
proof -
  define k :: nat where "k = of_char c"
  have c: "(of_char c :: int) = int k" "(of_char c :: nat) = k" "c = char_of k" by (simp_all add: k_def of_nat_of_char)
  have "char_of (int k + 32) = (char_of (k + 32) :: char)" using char_of_nat [of "k + 32"] by simp
  then show ?thesis using assms c by (auto simp: encode_rune_def lower_rune_def lower_char_def Let_def)
qed

lemma ToLowerRunes_ascii: "is_ascii s \<Longrightarrow> ToLowerRunes lr s = ToLower s"
  by (induction s) (simp_all add: ToLowerRunes_def ToLower_def is_ascii_def decode_rune_def encode_lower_ascii)

subsection \<open>Redaction\<close>

text \<open>The errors of the package, and the panic of a slice out of range, which is no value of error and ends the call.\<close>

datatype AiError = ErrCredentialContext | ErrPromptTooLarge | SlicePanic

definition redactionMarker :: string where "redactionMarker = ''[REDACTED]''"

definition credentialKeys :: "string list" where
  "credentialKeys =
     [''authorization'', ''proxy-authorization'', ''x-api-key'', ''x-auth-token'',
      ''api_key'', ''apikey'', ''api-key'', ''secret'', ''client_secret'', ''password'',
      ''passwd'', ''pwd'', ''token'', ''access_token'', ''refresh_token'', ''id_token'',
      ''bearer'', ''private_key'', ''priv_key'', ''session'', ''cookie'', ''credential'']"

definition blank :: "char \<Rightarrow> bool" where
  "blank c \<longleftrightarrow> c = CHR '' '' \<or> c = CHR 0x09"

text \<open>What redactKeyedValue makes of one key, the line and its lower-case form at hand; None goes on to the next.\<close>

definition redact_key :: "string \<Rightarrow> string \<Rightarrow> string \<Rightarrow> AiError + string option" where
  "redact_key lower line key =
     (case Index lower key of
        None \<Rightarrow> Ok None
      | Some i \<Rightarrow>
          (let n = i + length key; rest = drop n line; trimmed = dropWhile blank rest
           in if length line < n then Err SlicePanic
              else if HasPrefix trimmed '':'' \<or> HasPrefix trimmed ''=''
              then Ok (Some (take n line @ take 1 trimmed @ '' '' @ redactionMarker))
              else if (key = ''bearer'' \<or> key = ''authorization'') \<and> rest \<noteq> [] \<and> blank (hd rest) \<and> trimmed \<noteq> []
              then Ok (Some (take n line @ '' '' @ redactionMarker))
              else Ok None))"

fun redact_keys :: "string \<Rightarrow> string \<Rightarrow> string list \<Rightarrow> AiError + string option" where
  "redact_keys lower line [] = Ok None"
| "redact_keys lower line (key # keys) =
     bind_result (redact_key lower line key) (\<lambda>out. case out of None \<Rightarrow> redact_keys lower line keys | Some r \<Rightarrow> Ok (Some r))"

definition redactKeyedValue :: "(int \<Rightarrow> int) \<Rightarrow> string \<Rightarrow> AiError + string option" where
  "redactKeyedValue lr line = redact_keys (ToLowerRunes lr line) line credentialKeys"

definition secretPrefixes :: "string list" where
  "secretPrefixes = [''sk-'', ''sk_'', ''pk_'', ''rk_'', ''ghp_'', ''gho_'', ''ghu_'', ''ghs_'', ''ghr_'',
     ''github_pat_'', ''xoxb-'', ''xoxp-'', ''xapp-'', ''glpat-'', ''AKIA'', ''ASIA'', ''eyJ'']"

definition minSecretLength :: nat where "minSecretLength = 16"

definition is_digit :: "char \<Rightarrow> bool" where
  "is_digit c \<longleftrightarrow> 48 \<le> (of_char c :: nat) \<and> (of_char c :: nat) \<le> 57"

definition is_letter :: "char \<Rightarrow> bool" where
  "is_letter c \<longleftrightarrow> 97 \<le> (of_char c :: nat) \<and> (of_char c :: nat) \<le> 122 \<or> 65 \<le> (of_char c :: nat) \<and> (of_char c :: nat) \<le> 90"

definition looksSecret :: "string \<Rightarrow> bool" where
  "looksSecret word \<longleftrightarrow>
     (\<exists>p \<in> set secretPrefixes. HasPrefix word p \<and> length p + 6 < length word) \<or>
     minSecretLength \<le> length word \<and>
     (\<forall>c \<in> set word. is_digit c \<or> is_letter c \<or> c \<in> set ''-_.+/='') \<and>
     (\<exists>c \<in> set word. is_letter c) \<and> (\<exists>c \<in> set word. is_digit c)"

text \<open>The cutset of strings.Trim, and the replacement of the first occurrence.\<close>

definition in_cutset :: "char \<Rightarrow> bool" where
  "in_cutset c \<longleftrightarrow> c \<in> set '',;:!?()[]{}.'' \<or> c = CHR 0x22 \<or> c = CHR 0x27"

definition Trim :: "string \<Rightarrow> string" where
  "Trim s = rev (dropWhile in_cutset (rev (dropWhile in_cutset s)))"

definition replace_first :: "string \<Rightarrow> string \<Rightarrow> string \<Rightarrow> string" where
  "replace_first s old new =
     (case Index s old of None \<Rightarrow> s | Some i \<Rightarrow> take i s @ new @ drop (i + length old) s)"

definition redact_field :: "string \<Rightarrow> string" where
  "redact_field field =
     (let trimmed = Trim field
      in if trimmed = [] \<or> \<not> looksSecret trimmed then field else replace_first field trimmed redactionMarker)"

definition redactSecretLookingWords :: "string \<Rightarrow> string" where
  "redactSecretLookingWords line = Join (map redact_field (Split line (CHR '' ''))) '' ''"

definition redactLine :: "(int \<Rightarrow> int) \<Rightarrow> string \<Rightarrow> AiError + string" where
  "redactLine lr line =
     bind_result (redactKeyedValue lr line)
       (\<lambda>out. Ok (case out of Some r \<Rightarrow> r | None \<Rightarrow> redactSecretLookingWords line))"

definition pem_begin :: string where "pem_begin = ''-----BEGIN''"
definition pem_end :: string where "pem_end = ''-----END''"

subsection \<open>Substrings\<close>

lemma HasPrefix_iff: "HasPrefix s p \<longleftrightarrow> (\<exists>t. s = p @ t)"
  by (auto simp: HasPrefix_def) (metis append_take_drop_id)

lemma HasPrefix_length: "HasPrefix s p \<Longrightarrow> length p \<le> length s"
  by (auto simp: HasPrefix_iff)

lemma HasPrefix_nth: "HasPrefix s p \<Longrightarrow> i < length p \<Longrightarrow> s ! i = p ! i"
  by (auto simp: HasPrefix_iff nth_append)

lemma all_le_Suc: "(\<forall>j \<le> Suc n. Q j) \<longleftrightarrow> Q 0 \<and> (\<forall>j \<le> n. Q (Suc j))"
  by (metis Suc_le_mono le0 not0_implies_Suc)

lemma Index_Some:
  "Index s sub = Some i \<Longrightarrow> i + length sub \<le> length s \<and> HasPrefix (drop i s) sub \<and> (\<forall>j < i. \<not> HasPrefix (drop j s) sub)"
proof (induction s arbitrary: i)
  case Nil
  then show ?case by (subst (asm) Index.simps) (auto simp: HasPrefix_def split: if_splits)
next
  case (Cons c s)
  show ?case
  proof (cases "HasPrefix (c # s) sub")
    case True
    then show ?thesis using Cons.prems HasPrefix_length [OF True] by (subst (asm) Index.simps) auto
  next
    case False
    then obtain k where k: "Index s sub = Some k" "i = Suc k" using Cons.prems by (subst (asm) Index.simps) auto
    from Cons.IH [OF k(1)] show ?thesis using k(2) False by (auto simp: less_Suc_eq_0_disj)
  qed
qed

lemma Index_None: "Index s sub = None \<longleftrightarrow> (\<forall>j \<le> length s. \<not> HasPrefix (drop j s) sub)"
proof (induction s)
  case Nil
  then show ?case by (subst Index.simps) simp
next
  case (Cons c s)
  have "Index (c # s) sub = None \<longleftrightarrow> \<not> HasPrefix (c # s) sub \<and> Index s sub = None" by (subst Index.simps) simp
  then show ?case using Cons.IH by (simp add: all_le_Suc)
qed

lemma Index_split:
  assumes "Index s sub = Some i"
  shows "s = take i s @ sub @ drop (i + length sub) s"
proof -
  obtain t where "drop i s = sub @ t" using Index_Some [OF assms] by (auto simp: HasPrefix_iff)
  then show ?thesis by (metis add.commute append_eq_conv_conj append_take_drop_id drop_drop)
qed

text \<open>redactPEM: each turn replaces a block by the marker, which is shorter than the block's two fences.\<close>

function redactPEM :: "string \<Rightarrow> string" where
  "redactPEM t =
     (case Index t pem_begin of
        None \<Rightarrow> t
      | Some start \<Rightarrow>
          (case Index (drop start t) pem_end of
             None \<Rightarrow> take start t @ redactionMarker
           | Some finish \<Rightarrow>
               (let tail = drop (start + finish) t
                in case Index tail [CHR 0x0A] of
                     None \<Rightarrow> take start t @ redactionMarker
                   | Some lineEnd \<Rightarrow> redactPEM (take start t @ redactionMarker @ drop lineEnd tail))))"
  by pat_completeness auto

lemma pem_block_shrinks:
  assumes "Index t pem_begin = Some start" "Index (drop start t) pem_end = Some finish"
    and "Index (drop (start + finish) t) [CHR 0x0A] = Some lineEnd"
  shows "length (take start t @ redactionMarker @ drop lineEnd (drop (start + finish) t)) < length t"
proof -
  let ?d = "drop start t"
  have s: "start + 10 \<le> length t" "HasPrefix ?d pem_begin"
    using Index_Some [OF assms(1)] by (simp_all add: pem_begin_def)
  have f: "finish + 8 \<le> length ?d" "HasPrefix (drop finish ?d) pem_end"
    using Index_Some [OF assms(2)] by (simp_all add: pem_end_def)
  have "lineEnd + 1 \<le> length (drop finish ?d)" "HasPrefix (drop lineEnd (drop finish ?d)) [CHR 0x0A]"
    using Index_Some [OF assms(3)] by (simp_all add: add.commute)
  moreover have "8 \<le> lineEnd"
  proof (rule ccontr)
    assume "\<not> 8 \<le> lineEnd"
    then have "lineEnd < length pem_end" by (simp add: pem_end_def)
    then have "pem_end ! lineEnd = CHR 0x0A"
      using HasPrefix_nth [OF f(2)] HasPrefix_nth [OF calculation(2), of 0] calculation(1) by (simp add: add.commute)
    moreover have "pem_end ! lineEnd \<in> set pem_end" using \<open>lineEnd < length pem_end\<close> by (rule nth_mem)
    ultimately show False by (simp add: pem_end_def)
  qed
  moreover have "3 \<le> finish"
  proof (rule ccontr)
    assume "\<not> 3 \<le> finish"
    then have "finish \<in> {0, 1, 2}" by auto
    moreover have "pem_end ! k = pem_begin ! (finish + k)" if "k < 8" "finish + k < 10" for k
    proof -
      have "k < length pem_end" "finish + k < length pem_begin" using that by (simp_all add: pem_end_def pem_begin_def)
      then show ?thesis using HasPrefix_nth [OF f(2), of k] HasPrefix_nth [OF s(2), of "finish + k"] f(1) that(1)
        by (simp add: ac_simps)
    qed
    from this [of 5] this [of 4] this [of 3] \<open>finish \<in> {0, 1, 2}\<close> show False
      by (auto simp: pem_end_def pem_begin_def)
  qed
  ultimately show ?thesis using s(1) by (simp add: redactionMarker_def)
qed

termination redactPEM
  by (relation "measure length") (use pem_block_shrinks in auto)

declare redactPEM.simps [simp del]

text \<open>Redact, on the lines of what is left.\<close>

definition Redact :: "(int \<Rightarrow> int) \<Rightarrow> string \<Rightarrow> AiError + string" where
  "Redact lr t =
     (if t = [] then Ok t
      else bind_result (map_result (redactLine lr) (Split (redactPEM t) (CHR 0x0A))) (\<lambda>lines. Ok (Join lines [CHR 0x0A])))"

record AiQuestion =
  aiq_Question :: string
  aiq_Fragments :: "Fragment list"
  aiq_Model :: string

definition fragment_line :: "(int \<Rightarrow> int) \<Rightarrow> Fragment \<Rightarrow> AiError + string" where
  "fragment_line lr f =
     bind_result (Redact lr (fg_Title f)) (\<lambda>title.
     bind_result (Redact lr (fg_Detail f)) (\<lambda>detail.
       Ok (''- '' @ fg_EntityType f @ '' '' @ fg_GlobalID f @ '': '' @ title
           @ (if detail \<noteq> [] then [CHR '' '', CHR 0xE2, CHR 0x80, CHR 0x94, CHR '' ''] @ detail else [])
           @ [CHR 0x0A])))"

definition prompt_preamble :: string where
  "prompt_preamble =
     ''You are answering a question about the BSYSTEM platform.'' @ [CHR 0x0A]
     @ ''Use only the context below. If it does not answer the question, say so.'' @ [CHR 0x0A, CHR 0x0A]"

definition BuildPrompt :: "(int \<Rightarrow> int) \<Rightarrow> AiQuestion \<Rightarrow> AiError + string" where
  "BuildPrompt lr request =
     (if \<exists>f \<in> set (aiq_Fragments request). fg_Classification f = ''CREDENTIAL'' then Err ErrCredentialContext
      else bind_result (map_result (fragment_line lr) (aiq_Fragments request)) (\<lambda>context_lines.
           bind_result (Redact lr (aiq_Question request)) (\<lambda>question.
             let prompt =
               prompt_preamble
               @ (if aiq_Fragments request = [] then []
                  else ''Context:'' @ [CHR 0x0A] @ concat context_lines @ [CHR 0x0A])
               @ ''Question: '' @ question @ [CHR 0x0A]
             in if MaxPromptBytes < length prompt then Err ErrPromptTooLarge else Ok prompt)))"

subsection \<open>What redaction guarantees\<close>

text \<open>Where a substring starts first, when it cannot overlap itself; and past bytes that keep it from straddling.\<close>

definition borderless :: "string \<Rightarrow> bool" where
  "borderless sub \<longleftrightarrow> (\<forall>k \<in> set [1..<length sub]. drop k sub \<noteq> take (length sub - k) sub)"

lemma Index_first:
  assumes "\<forall>a b. pre \<noteq> a @ sub @ b" "borderless sub" "sub \<noteq> []"
  shows "Index (pre @ sub @ post) sub = Some (length pre)"
proof -
  let ?s = "pre @ sub @ post"
  have none: "\<not> HasPrefix (drop j ?s) sub" if j: "j < length pre" for j
  proof
    assume "HasPrefix (drop j ?s) sub"
    then have at: "take (length sub) (drop j ?s) = sub" by (simp add: HasPrefix_def)
    show False
    proof (cases "j + length sub \<le> length pre")
      case True
      then have "take (length sub) (drop j pre) = sub" using at by simp
      then have "pre = take j pre @ sub @ drop (length sub) (drop j pre)" by (metis append_take_drop_id)
      then show False using assms(1) by blast
    next
      case False
      define k where "k = length pre - j"
      have k: "0 < k" "k < length sub" using j False by (auto simp: k_def)
      have "sub = drop j pre @ take (length sub - k) sub" using at j False by (simp add: k_def take_append)
      then have "drop k sub = take (length sub - k) sub"
        using j by (metis append_eq_conv_conj k_def length_drop)
      then show False using assms(2) k by (auto simp: borderless_def)
    qed
  qed
  have here: "HasPrefix (drop (length pre) ?s) sub" by simp
  then obtain i where i: "Index ?s sub = Some i"
    using Index_None [of ?s sub] by (metis append_same_eq length_append le_add1 not_None_eq)
  have "i = length pre"
    using Index_Some [OF i] none here by (metis linorder_neqE_nat)
  then show ?thesis using i by simp
qed

lemma Index_absent: "\<forall>a b. s \<noteq> a @ sub @ b \<Longrightarrow> Index s sub = None"
  using Index_split by (metis not_None_eq)

lemma Index_past:
  assumes "\<forall>a b. x \<noteq> a @ sub @ b" "x = [] \<or> last x \<notin> set sub" "sub \<noteq> []"
  shows "Index (x @ y) sub = map_option (\<lambda>i. length x + i) (Index y sub)"
proof -
  have none: "\<not> HasPrefix (drop j (x @ y)) sub" if j: "j < length x" for j
  proof
    assume "HasPrefix (drop j (x @ y)) sub"
    then have at: "take (length sub) (drop j (x @ y)) = sub" by (simp add: HasPrefix_def)
    show False
    proof (cases "j + length sub \<le> length x")
      case True
      then have "take (length sub) (drop j x) = sub" using at by simp
      then have "x = take j x @ sub @ drop (length sub) (drop j x)" by (metis append_take_drop_id)
      then show False using assms(1) by blast
    next
      case False
      then have "sub = drop j x @ take (length sub - (length x - j)) y" using at j by (simp add: take_append)
      then have "last x \<in> set sub" using j
        by (metis Un_iff drop_eq_Nil last_drop last_in_set linorder_not_less set_append)
      then show False using assms(2) j by auto
    qed
  qed
  show ?thesis
  proof (cases "Index y sub")
    case None
    have "\<not> HasPrefix (drop j (x @ y)) sub" if "j \<le> length (x @ y)" for j
    proof (cases "j < length x")
      case False
      then have "drop j (x @ y) = drop (j - length x) y" "j - length x \<le> length y" using that by auto
      then show ?thesis using None unfolding Index_None by metis
    qed (use none in blast)
    then have "Index (x @ y) sub = None" unfolding Index_None by blast
    then show ?thesis using None by simp
  next
    case (Some k)
    have k: "HasPrefix (drop (length x + k) (x @ y)) sub" "length x + k \<le> length (x @ y)" using Index_Some [OF Some] by auto
    then obtain i where i: "Index (x @ y) sub = Some i" unfolding Index_None [symmetric] by (metis Index_None not_None_eq)
    have f: "HasPrefix (drop i (x @ y)) sub" "\<And>j. j < i \<Longrightarrow> \<not> HasPrefix (drop j (x @ y)) sub" using Index_Some [OF i] by blast+
    have "length x \<le> i" using none f(1) by (metis linorder_not_less)
    then have "drop i (x @ y) = drop (i - length x) y" by simp
    then have "\<not> i - length x < k" using Index_Some [OF Some] f(1) by auto
    moreover have "\<not> length x + k < i" using f(2) k(1) by blast
    ultimately have "i = length x + k" using \<open>length x \<le> i\<close> by simp
    then show ?thesis using i Some by simp
  qed
qed

lemma redactPEM_past:
  assumes "\<forall>a b. x \<noteq> a @ pem_begin @ b" "x = [] \<or> last x \<notin> set pem_begin"
  shows "redactPEM (x @ y) = x @ redactPEM y"
proof (induction y rule: redactPEM.induct)
  case (1 y)
  have past: "Index (x @ y) pem_begin = map_option (\<lambda>i. length x + i) (Index y pem_begin)"
    by (rule Index_past [OF assms]) (simp add: pem_begin_def)
  show ?case
  proof (cases "Index y pem_begin")
    case None
    then show ?thesis using past by (subst (1 2) redactPEM.simps) simp
  next
    case start: (Some start)
    show ?thesis
    proof (cases "Index (drop start y) pem_end")
      case None
      then show ?thesis using past start by (subst (1 2) redactPEM.simps) simp
    next
      case finish: (Some finish)
      show ?thesis
      proof (cases "Index (drop (start + finish) y) [CHR 0x0A]")
        case None
        then show ?thesis using past start finish by (subst (1 2) redactPEM.simps) (simp add: Let_def add.assoc)
      next
        case (Some lineEnd)
        have "redactPEM (x @ y) = redactPEM (x @ (take start y @ redactionMarker @ drop lineEnd (drop (start + finish) y)))"
          using past start finish Some by (subst redactPEM.simps) (simp add: Let_def add.assoc)
        also have "\<dots> = x @ redactPEM (take start y @ redactionMarker @ drop lineEnd (drop (start + finish) y))"
          by (rule 1 [OF start finish refl Some])
        also have "redactPEM (take start y @ redactionMarker @ drop lineEnd (drop (start + finish) y)) = redactPEM y"
          using start finish Some by (subst (2) redactPEM.simps) (simp add: Let_def)
        finally show ?thesis .
      qed
    qed
  qed
qed

lemma fences_borderless: "borderless pem_begin" "borderless pem_end" "borderless [CHR 0x0A]"
  by code_simp+

lemma no_sub_append:
  assumes "\<forall>a b. x \<noteq> a @ sub @ b" "\<forall>a b. c # y \<noteq> a @ sub @ b" "c \<notin> set sub"
  shows "\<forall>a b. x @ c # y \<noteq> a @ sub @ b"
proof (intro allI notI)
  fix a b
  assume eq: "x @ c # y = a @ sub @ b"
  consider (left) u where "x = a @ sub @ u" | (right) u where "a = x @ u" | (over) u v where "x = a @ u" "sub = u @ c # v"
    using eq by (auto simp: append_eq_append_conv2 Cons_eq_append_conv)
  then show False
  proof cases
    case left then show ?thesis using assms(1) by blast
  next
    case right then show ?thesis using assms(2) eq by auto
  next
    case over then show ?thesis using assms(3) by simp
  qed
qed

lemma no_sub_Cons: "\<forall>a b. y \<noteq> a @ sub @ b \<Longrightarrow> sub \<noteq> [] \<Longrightarrow> c \<noteq> hd sub \<Longrightarrow> \<forall>a b. c # y \<noteq> a @ sub @ b"
  by (auto simp: Cons_eq_append_conv)

lemma header_has_no_footer:
  assumes "\<forall>a b. body \<noteq> a @ ''-----END'' @ b"
  shows "\<forall>a b. pem_begin @ body \<noteq> a @ pem_end @ b"
proof -
  have cons: "\<forall>a b. c # y \<noteq> a @ pem_end @ b" if "\<forall>a b. y \<noteq> a @ pem_end @ b" "c \<noteq> CHR ''-''" for c y
    by (rule no_sub_Cons [OF that(1)]) (use that(2) in \<open>simp_all add: pem_end_def\<close>)
  have "\<forall>a b. body \<noteq> a @ pem_end @ b" using assms by (simp add: pem_end_def)
  then have "\<forall>a b. ''BEGIN'' @ body \<noteq> a @ pem_end @ b" unfolding append_Cons append_Nil by (intro cons) simp_all
  moreover have "\<forall>a b. ''-----'' \<noteq> a @ pem_end @ b"
  proof (intro allI notI)
    fix a b assume "''-----'' = a @ pem_end @ b"
    then have "length ''-----'' = length a + (length pem_end + length b)" by (metis length_append)
    then show False by (simp add: pem_end_def)
  qed
  ultimately show ?thesis
    using no_sub_append [of "''-----''" pem_end "CHR ''B''" "''EGIN'' @ body"] by (simp add: pem_begin_def pem_end_def)
qed

lemma marker_no_header: "\<forall>a b. CHR ''['' # ''REDACTED]'' @ [CHR 0x0A] \<noteq> a @ pem_begin @ b"
proof -
  have "Index (CHR ''['' # ''REDACTED]'' @ [CHR 0x0A]) pem_begin = None" by code_simp
  then show ?thesis unfolding Index_None by (metis HasPrefix_append append_eq_conv_conj le_add1 length_append)
qed

text \<open>
  C20.  What the removal of private keys does, exactly, whatever the text: with no header in front of it, an unfinished block takes the rest
  of the text with it, a block whose footer is on the last line too, and a block that a line follows is replaced, from its header to the end of
  its footer's line, the body included, by one marker, the search going on behind it; a text without a header is unchanged.
\<close>

theorem pem_blocks_cut:
  assumes "\<forall>a b. pre \<noteq> a @ ''-----BEGIN'' @ b" "\<forall>a b. body \<noteq> a @ ''-----END'' @ b" "CHR 0x0A \<notin> set foot"
  shows "redactPEM pre = pre \<and>
    redactPEM (pre @ ''-----BEGIN'' @ body) = pre @ ''[REDACTED]'' \<and>
    redactPEM (pre @ ''-----BEGIN'' @ body @ ''-----END'' @ foot) = pre @ ''[REDACTED]'' \<and>
    redactPEM (pre @ ''-----BEGIN'' @ body @ ''-----END'' @ foot @ CHR 0x0A # post) = pre @ ''[REDACTED]'' @ CHR 0x0A # redactPEM post"
proof -
  have pre: "\<forall>a b. pre \<noteq> a @ pem_begin @ b" using assms(1) by (simp add: pem_begin_def)
  have start: "Index (pre @ pem_begin @ rest) pem_begin = Some (length pre)" for rest
    by (rule Index_first [OF pre fences_borderless(1)]) (simp add: pem_begin_def)
  have block: "\<forall>a b. pem_begin @ body \<noteq> a @ pem_end @ b" by (rule header_has_no_footer [OF assms(2)])
  have finish: "Index (pem_begin @ body @ pem_end @ rest) pem_end = Some (length (pem_begin @ body))" for rest
    using Index_first [OF block fences_borderless(2), of rest] by (simp add: pem_end_def)
  have unfinished: "\<forall>a b. pem_end @ foot \<noteq> a @ [CHR 0x0A] @ b" using assms(3) by (auto simp: pem_end_def Cons_eq_append_conv)
  have line: "Index (pem_end @ foot @ CHR 0x0A # post) [CHR 0x0A] = Some (length (pem_end @ foot))"
    using Index_first [OF unfinished fences_borderless(3), of post] by simp
  have past: "redactPEM ((pre @ redactionMarker @ [CHR 0x0A]) @ post) = (pre @ redactionMarker @ [CHR 0x0A]) @ redactPEM post"
  proof (rule redactPEM_past)
    show "\<forall>a b. pre @ redactionMarker @ [CHR 0x0A] \<noteq> a @ pem_begin @ b"
      using no_sub_append [OF pre, of "CHR ''[''" "''REDACTED]'' @ [CHR 0x0A]"] marker_no_header
      by (simp add: redactionMarker_def pem_begin_def)
  qed (simp add: pem_begin_def)
  have "redactPEM pre = pre" using Index_absent [OF pre] by (subst redactPEM.simps) simp
  moreover have "redactPEM (pre @ pem_begin @ body) = pre @ redactionMarker"
    using start [of body] Index_absent [OF block] by (subst redactPEM.simps) simp
  moreover have "redactPEM (pre @ pem_begin @ body @ pem_end @ foot) = pre @ redactionMarker"
    using start [of "body @ pem_end @ foot"] finish [of foot] Index_absent [OF unfinished]
    by (subst redactPEM.simps) (simp add: Let_def)
  moreover have "redactPEM (pre @ pem_begin @ body @ pem_end @ foot @ CHR 0x0A # post) = redactPEM (pre @ redactionMarker @ CHR 0x0A # post)"
    using start [of "body @ pem_end @ foot @ CHR 0x0A # post"] finish [of "foot @ CHR 0x0A # post"] line
    by (subst redactPEM.simps) (simp add: Let_def)
  ultimately show ?thesis using past by (simp add: pem_begin_def pem_end_def redactionMarker_def)
qed

theorem pem_blocks_cut_witness:
  "redactPEM (''a -----BEGIN KEY'' @ [CHR 0x0A] @ ''MIIE'' @ [CHR 0x0A] @ ''-----END KEY-----'' @ [CHR 0x0A] @ ''b -----BEGIN x'') =
   ''a [REDACTED]'' @ [CHR 0x0A] @ ''b [REDACTED]''"
proof -
  have h: "\<forall>a b. s \<noteq> a @ sub @ b" if "Index s sub = None" for s sub
    using that unfolding Index_None by (metis HasPrefix_append append_eq_conv_conj le_add1 length_append)
  have pre: "\<forall>a b. ''a '' \<noteq> a @ ''-----BEGIN'' @ b" "\<forall>a b. ''b '' \<noteq> a @ ''-----BEGIN'' @ b"
    "\<forall>a b. '' KEY'' @ [CHR 0x0A] @ ''MIIE'' @ [CHR 0x0A] \<noteq> a @ ''-----END'' @ b" "\<forall>a b. '' x'' \<noteq> a @ ''-----END'' @ b"
    by (rule h, code_simp)+
  have foot: "CHR 0x0A \<notin> set '' KEY-----''" "CHR 0x0A \<notin> set []" by code_simp+
  show ?thesis
    using pem_blocks_cut [OF pre(1,3) foot(1), of "''b -----BEGIN x''"] pem_blocks_cut [OF pre(2,4) foot(2)] by simp
qed

lemma Trim_parts:
  obtains a b where "s = a @ Trim s @ b" "\<forall>c \<in> set a. in_cutset c" "\<forall>c \<in> set b. in_cutset c"
    "Trim s \<noteq> [] \<Longrightarrow> \<not> in_cutset (hd (Trim s))"
proof -
  define d where "d = dropWhile in_cutset s"
  define b where "b = rev (takeWhile in_cutset (rev d))"
  have d: "d = Trim s @ b"
    unfolding Trim_def b_def d_def [symmetric] rev_append [symmetric] takeWhile_dropWhile_id rev_rev_ident ..
  have s: "s = takeWhile in_cutset s @ Trim s @ b" unfolding d [symmetric] d_def by simp
  have "\<not> in_cutset (hd (Trim s))" if "Trim s \<noteq> []"
  proof -
    have "d \<noteq> []" "hd d = hd (Trim s)" using d that by auto
    then show ?thesis using hd_dropWhile [of in_cutset s] by (simp add: d_def)
  qed
  then show thesis using that [OF s] by (auto simp: b_def dest: set_takeWhileD)
qed

lemma Trim_framed:
  assumes "\<forall>c \<in> set a. in_cutset c" "\<forall>c \<in> set b. in_cutset c"
  shows "Trim (a @ redactionMarker @ b) = ''REDACTED''"
proof -
  have cut: "in_cutset (CHR ''['')" "in_cutset (CHR '']'')" "\<not> in_cutset (CHR ''R'')" "\<not> in_cutset (CHR ''D'')" by code_simp+
  have "dropWhile in_cutset (a @ redactionMarker @ b) = ''REDACTED]'' @ b"
    using assms(1) cut by (simp add: dropWhile_append redactionMarker_def)
  moreover have "dropWhile in_cutset (rev (''REDACTED]'' @ b)) = rev ''REDACTED''"
    using assms(2) cut by (simp add: dropWhile_append)
  ultimately show ?thesis unfolding Trim_def by simp
qed

lemma replace_core:
  assumes "s = a @ w @ b" "w \<noteq> []" "\<forall>c \<in> set a. in_cutset c" "\<not> in_cutset (hd w)"
  shows "replace_first s w new = a @ new @ b"
proof -
  have here: "HasPrefix (drop (length a) s) w" "length a \<le> length s" using assms(1) by simp_all
  then have "Index s w \<noteq> None" unfolding Index_None by blast
  then obtain i where i: "Index s w = Some i" by blast
  have first: "HasPrefix (drop i s) w" "\<And>j. j < i \<Longrightarrow> \<not> HasPrefix (drop j s) w" using Index_Some [OF i] by blast+
  have "\<not> i < length a"
  proof
    assume "i < length a"
    then have "hd (drop i s) = a ! i" "drop i s \<noteq> []" using assms(1) by (simp_all add: hd_drop_conv_nth nth_append)
    moreover have "hd (drop i s) = hd w" using first(1) assms(2) by (auto simp: HasPrefix_iff)
    ultimately show False using assms(3,4) \<open>i < length a\<close> nth_mem by metis
  qed
  moreover have "\<not> length a < i" using first(2) here(1) by blast
  ultimately have "i = length a" by simp
  then show ?thesis using assms(1) i by (simp add: replace_first_def)
qed

lemma redacted_not_secret: "\<not> looksSecret ''REDACTED''" "\<not> looksSecret []"
  by code_simp+

lemma redact_field_clean: "\<not> looksSecret (Trim (redact_field f))"
proof (cases "Trim f = [] \<or> \<not> looksSecret (Trim f)")
  case True
  then show ?thesis using redacted_not_secret(2) by (auto simp: redact_field_def Let_def)
next
  case False
  obtain a b where f: "f = a @ Trim f @ b" "\<forall>c \<in> set a. in_cutset c" "\<forall>c \<in> set b. in_cutset c"
    "Trim f \<noteq> [] \<longrightarrow> \<not> in_cutset (hd (Trim f))" using Trim_parts [of f] by metis
  have "redact_field f = a @ redactionMarker @ b"
    using False replace_core [OF f(1) _ f(2)] f(4) by (simp add: redact_field_def Let_def)
  then show ?thesis using Trim_framed [OF f(2,3)] redacted_not_secret(1) by simp
qed

lemma set_redact_field: "set (redact_field f) \<subseteq> set f \<union> set redactionMarker"
  by (auto simp: redact_field_def replace_first_def Let_def split: option.splits dest: in_set_takeD in_set_dropD)

lemma Split_no_sep: "f \<in> set (Split s c) \<Longrightarrow> c \<notin> set f"
  by (induction s c arbitrary: f rule: Split.induct) (auto split: if_splits list.splits)

lemma Split_append_sep: "c \<notin> set x \<Longrightarrow> Split (x @ c # ys) c = x # Split ys c"
  by (induction x) auto

lemma Split_single: "c \<notin> set x \<Longrightarrow> Split x c = [x]"
  by (induction x) auto

lemma Split_Join: "xs \<noteq> [] \<Longrightarrow> (\<And>x. x \<in> set xs \<Longrightarrow> c \<notin> set x) \<Longrightarrow> Split (Join xs [c]) c = xs"
proof (induction xs "[c]" rule: Join.induct)
  case (2 x)
  then show ?case by (simp add: Split_single)
next
  case (3 x y ys)
  then show ?case by (simp add: Split_append_sep)
qed simp

lemma Trim_exact:
  assumes "\<forall>c \<in> set a. in_cutset c" "\<forall>c \<in> set b. in_cutset c" "core \<noteq> []" "\<not> in_cutset (hd core)" "\<not> in_cutset (last core)"
  shows "Trim (a @ core @ b) = core"
proof -
  have "dropWhile in_cutset (a @ core @ b) = core @ b"
    using assms(1,3,4) by (cases core) (simp_all add: dropWhile_append)
  moreover have "dropWhile in_cutset (rev (core @ b)) = rev core"
    using assms(2,3,5) by (cases core rule: rev_cases) (simp_all add: dropWhile_append)
  ultimately show ?thesis by (simp add: Trim_def)
qed

lemma Trim_last: "Trim s \<noteq> [] \<Longrightarrow> \<not> in_cutset (last (Trim s))"
  using hd_dropWhile [of in_cutset "rev (dropWhile in_cutset s)"] unfolding Trim_def last_rev rev_is_Nil_conv .

text \<open>The shapes of a credential, spelled out over the characters and the issuers' prefixes.\<close>

definition letters :: string where "letters = ''abcdefghijklmnopqrstuvwxyzABCDEFGHIJKLMNOPQRSTUVWXYZ''"
definition digits :: string where "digits = ''0123456789''"

definition credential_shaped :: "string \<Rightarrow> bool" where
  "credential_shaped w \<longleftrightarrow>
     (\<exists>issuer tail. w = issuer @ tail \<and> 7 \<le> length tail \<and>
        issuer \<in> {''sk-'', ''sk_'', ''pk_'', ''rk_'', ''ghp_'', ''gho_'', ''ghu_'', ''ghs_'', ''ghr_'', ''github_pat_'',
                  ''xoxb-'', ''xoxp-'', ''xapp-'', ''glpat-'', ''AKIA'', ''ASIA'', ''eyJ''}) \<or>
     16 \<le> length w \<and> set w \<subseteq> set (letters @ digits @ ''-_.+/='') \<and>
     set w \<inter> set letters \<noteq> {} \<and> set w \<inter> set digits \<noteq> {}"

lemma is_digit_iff: "is_digit c \<longleftrightarrow> c \<in> set digits"
proof
  have "\<forall>n \<in> set [48..<58]. char_of (n :: nat) \<in> set digits" by code_simp
  moreover assume "is_digit c"
  then have "of_char c \<in> set [48..<58 :: nat]" by (simp add: is_digit_def del: upt_rec_numeral)
  ultimately show "c \<in> set digits" by (metis char_of_char)
next
  have "\<forall>c \<in> set digits. is_digit c" by code_simp
  then show "c \<in> set digits \<Longrightarrow> is_digit c" by blast
qed

lemma is_letter_iff: "is_letter c \<longleftrightarrow> c \<in> set letters"
proof
  have "\<forall>n \<in> set ([97..<123] @ [65..<91]). char_of (n :: nat) \<in> set letters" by code_simp
  moreover assume "is_letter c"
  then have "of_char c \<in> set ([97..<123] @ [65..<91 :: nat])" by (auto simp: is_letter_def simp del: upt_rec_numeral)
  ultimately show "c \<in> set letters" by (metis char_of_char)
next
  have "\<forall>c \<in> set letters. is_letter c" by code_simp
  then show "c \<in> set letters \<Longrightarrow> is_letter c" by blast
qed

lemma prefix_longer: "(HasPrefix w p \<and> length p + 6 < length w) \<longleftrightarrow> (\<exists>tail. w = p @ tail \<and> 7 \<le> length tail)"
  by (auto simp: HasPrefix_iff)

lemma looksSecret_iff: "looksSecret w \<longleftrightarrow> credential_shaped w"
proof -
  have "(\<exists>p \<in> set secretPrefixes. HasPrefix w p \<and> length p + 6 < length w) \<longleftrightarrow>
      (\<exists>p tail. w = p @ tail \<and> 7 \<le> length tail \<and> p \<in> set secretPrefixes)"
    unfolding prefix_longer by blast
  moreover have "set secretPrefixes = {''sk-'', ''sk_'', ''pk_'', ''rk_'', ''ghp_'', ''gho_'', ''ghu_'', ''ghs_'', ''ghr_'',
      ''github_pat_'', ''xoxb-'', ''xoxp-'', ''xapp-'', ''glpat-'', ''AKIA'', ''ASIA'', ''eyJ''}"
    unfolding secretPrefixes_def by (simp only: list.set)
  moreover have "(\<forall>c \<in> set w. is_digit c \<or> is_letter c \<or> c \<in> set ''-_.+/='') \<longleftrightarrow> set w \<subseteq> set (letters @ digits @ ''-_.+/='')"
    unfolding is_digit_iff is_letter_iff set_append by blast
  moreover have "(\<exists>c \<in> set w. is_letter c) \<longleftrightarrow> set w \<inter> set letters \<noteq> {}" "(\<exists>c \<in> set w. is_digit c) \<longleftrightarrow> set w \<inter> set digits \<noteq> {}"
    unfolding is_digit_iff is_letter_iff by blast+
  ultimately show ?thesis unfolding looksSecret_def credential_shaped_def minSecretLength_def by simp
qed

text \<open>A word is punctuation around a core that begins and ends with something else, in one way only.\<close>

definition punctuation :: string where "punctuation = '',;:!?()[]{}.'' @ [CHR 0x22, CHR 0x27]"

definition framed :: "string \<Rightarrow> string \<Rightarrow> string \<Rightarrow> string \<Rightarrow> bool" where
  "framed w a core b \<longleftrightarrow>
     w = a @ core @ b \<and> set a \<subseteq> set punctuation \<and> set b \<subseteq> set punctuation \<and>
     core \<noteq> [] \<and> hd core \<notin> set punctuation \<and> last core \<notin> set punctuation"

lemma in_cutset_iff: "in_cutset c \<longleftrightarrow> c \<in> set punctuation"
  by (simp add: in_cutset_def punctuation_def disj_ac)

lemma framed_Trim: "framed w a core b \<Longrightarrow> Trim w = core"
  by (auto simp: framed_def in_cutset_iff intro!: Trim_exact)

lemma redact_field_framed:
  assumes "framed w a core b"
  shows "redact_field w = (if credential_shaped core then a @ ''[REDACTED]'' @ b else w)"
proof -
  have "replace_first w core redactionMarker = a @ redactionMarker @ b"
    using assms by (intro replace_core) (auto simp: framed_def in_cutset_iff)
  then show ?thesis using assms framed_Trim [OF assms]
    by (simp add: redact_field_def Let_def looksSecret_iff framed_def redactionMarker_def)
qed

lemma redact_field_unframed:
  assumes "\<nexists>a core b. framed w a core b"
  shows "redact_field w = w"
proof -
  obtain a b where f: "w = a @ Trim w @ b" "\<forall>c \<in> set a. in_cutset c" "\<forall>c \<in> set b. in_cutset c"
    "Trim w \<noteq> [] \<longrightarrow> \<not> in_cutset (hd (Trim w))" using Trim_parts [of w] by metis
  have "Trim w = []"
  proof (rule ccontr)
    assume "Trim w \<noteq> []"
    then have "framed w a (Trim w) b" using f Trim_last [of w] by (auto simp: framed_def in_cutset_iff)
    then show False using assms by blast
  qed
  then show ?thesis by (simp add: redact_field_def)
qed

text \<open>
  C21.  On a line without a recognised key and value, redaction works word by word, the words being what stands between single spaces, and
  changes exactly the words that are punctuation around a core of one of two shapes: one of the seventeen issuer prefixes followed by seven
  bytes or more, or sixteen bytes or more of ASCII letters, digits and the signs - \_ . + / = with at least one letter and one digit.  Such a core is replaced
  by the marker within its punctuation, every other word stays as it is, and no word of the result is framed around such a core.
\<close>

theorem no_secret_words:
  assumes "redactKeyedValue lr line = Ok None"
  shows "\<exists>outs. redactLine lr line = Ok (Join outs '' '') \<and> Split (Join outs '' '') (CHR '' '') = outs \<and>
    list_all2 (\<lambda>w out. (\<forall>a core b. framed w a core b \<and> credential_shaped core \<longrightarrow> out = a @ ''[REDACTED]'' @ b) \<and>
                       ((\<nexists>a core b. framed w a core b \<and> credential_shaped core) \<longrightarrow> out = w))
      (Split line (CHR '' '')) outs \<and>
    (\<forall>out \<in> set outs. \<forall>a core b. framed out a core b \<longrightarrow> \<not> credential_shaped core)"
proof -
  let ?fs = "map redact_field (Split line (CHR '' ''))"
  have "CHR '' '' \<notin> set (redact_field f)" if "f \<in> set (Split line (CHR '' ''))" for f
    using Split_no_sep [OF that] set_redact_field [of f] by (auto simp: redactionMarker_def)
  then have "Split (Join ?fs '' '') (CHR '' '') = ?fs" by (intro Split_Join) auto
  moreover have "redactLine lr line = Ok (Join ?fs '' '')"
    using assms by (simp add: redactLine_def redactSecretLookingWords_def)
  moreover have "redact_field w = w" if "\<nexists>a core b. framed w a core b \<and> credential_shaped core" for w
    using that redact_field_unframed redact_field_framed by metis
  moreover have "\<not> credential_shaped core" if "framed (redact_field w) a core b" for w a core b
    using redact_field_clean [of w] framed_Trim [OF that] by (simp add: looksSecret_iff)
  ultimately show ?thesis
    using redact_field_framed by (intro exI [of _ ?fs]) (auto simp: list.rel_map intro!: list.rel_refl)
qed

text \<open>
  A key and what is made of it, over ASCII: where the key first occurs in any case, what follows decides.
\<close>

definition keyed :: "string \<Rightarrow> string \<Rightarrow> string \<Rightarrow> bool" where
  "keyed line key out \<longleftrightarrow>
     (\<exists>pre word rest. line = pre @ word @ rest \<and> ToLower word = key \<and> (\<forall>a b. ToLower line = a @ key @ b \<longrightarrow> length pre \<le> length a) \<and>
        (let value_at = dropWhile (\<lambda>c. c = CHR '' '' \<or> c = CHR 0x09) rest in
         (\<exists>sep v. value_at = sep # v \<and> (sep = CHR '':'' \<or> sep = CHR ''='') \<and> out = pre @ word @ [sep] @ '' [REDACTED]'') \<or>
         (key = ''bearer'' \<or> key = ''authorization'') \<and> value_at \<noteq> [] \<and> value_at \<noteq> rest \<and>
         hd value_at \<noteq> CHR '':'' \<and> hd value_at \<noteq> CHR ''='' \<and> out = pre @ word @ '' [REDACTED]''))"

lemma Index_least: "Index s sub = Some i \<Longrightarrow> s = a @ sub @ b \<Longrightarrow> i \<le> length a"
  using Index_Some [of s sub i] by (metis HasPrefix_append append_eq_conv_conj linorder_not_le)

lemma keyed_at:
  assumes i: "Index (ToLower line) key = Some i"
  shows "keyed line key out \<longleftrightarrow>
    (let n = i + length key; rest = drop n line; value_at = dropWhile blank rest in
     (\<exists>sep v. value_at = sep # v \<and> (sep = CHR '':'' \<or> sep = CHR ''='') \<and> out = take n line @ [sep] @ '' [REDACTED]'') \<or>
     (key = ''bearer'' \<or> key = ''authorization'') \<and> value_at \<noteq> [] \<and> value_at \<noteq> rest \<and>
     hd value_at \<noteq> CHR '':'' \<and> hd value_at \<noteq> CHR ''='' \<and> out = take n line @ '' [REDACTED]'')"
proof -
  have fits: "i + length key \<le> length line" using Index_Some [OF i] by simp
  have here: "ToLower (take (length key) (drop i line)) = key"
    using Index_Some [OF i] by (simp add: ToLower_def HasPrefix_def take_map drop_map)
  have only: "length pre = i" if "line = pre @ word @ rest" "ToLower word = key" "\<forall>a b. ToLower line = a @ key @ b \<longrightarrow> length pre \<le> length a"
    for pre word rest
  proof (rule antisym)
    show "length pre \<le> i" using that(3) Index_split [OF i] fits by (metis length_ToLower length_take min.absorb2 add_leD1)
    have "ToLower line = ToLower pre @ key @ ToLower rest" using that(1,2) by (simp add: ToLower_def)
    from Index_least [OF i this] show "i \<le> length pre" by simp
  qed
  have parts: "pre = take i line \<and> word = take (length key) (drop i line) \<and> rest = drop (i + length key) line"
    if "line = pre @ word @ rest" "ToLower word = key" "\<forall>a b. ToLower line = a @ key @ b \<longrightarrow> length pre \<le> length a"
    for pre word rest
    using only [OF that] that(1,2) by (auto simp: add.commute)
  have split: "line = take i line @ take (length key) (drop i line) @ drop (i + length key) line"
    "take i line @ take (length key) (drop i line) = take (i + length key) line"
    by (simp_all add: take_add add.commute) (metis add.commute append_take_drop_id drop_drop)
  have first: "\<forall>a b. ToLower line = a @ key @ b \<longrightarrow> length (take i line) \<le> length a"
    using Index_least [OF i] fits by simp
  have b: "blank = (\<lambda>c. c = CHR '' '' \<or> c = CHR 0x09)" by (simp add: blank_def fun_eq_iff)
  show ?thesis
    unfolding keyed_def b Let_def
    by (rule iffI, elim exE conjE, frule (2) parts, use split(2) in \<open>(simp flip: append_assoc)\<close>)
      (rule exI [of _ "take i line"], rule exI [of _ "take (length key) (drop i line)"], rule exI [of _ "drop (i + length key) line"],
       use split first here in \<open>simp flip: append_assoc\<close>)
qed

lemma redact_key_ascii:
  "redact_key (ToLower line) line key = Ok None \<and> (\<forall>out. \<not> keyed line key out) \<or>
    (\<exists>out. redact_key (ToLower line) line key = Ok (Some out) \<and> keyed line key out)"
proof (cases "Index (ToLower line) key")
  case None
  have "\<not> keyed line key out" for out
  proof
    assume "keyed line key out"
    then obtain pre word rest where "line = pre @ word @ rest" "ToLower word = key" by (auto simp: keyed_def)
    then have "ToLower line = ToLower pre @ key @ ToLower rest" by (simp add: ToLower_def)
    then show False using None unfolding Index_None by (metis HasPrefix_append append_eq_conv_conj le_add1 length_append)
  qed
  then show ?thesis using None by (simp add: redact_key_def)
next
  case (Some i)
  have fits: "i + length key \<le> length line" using Index_Some [OF Some] by simp
  define rest where "rest = drop (i + length key) line"
  have key: "redact_key (ToLower line) line key =
     (let trimmed = dropWhile blank rest
      in if HasPrefix trimmed '':'' \<or> HasPrefix trimmed ''=''
         then Ok (Some (take (i + length key) line @ take 1 trimmed @ '' '' @ redactionMarker))
         else if (key = ''bearer'' \<or> key = ''authorization'') \<and> rest \<noteq> [] \<and> blank (hd rest) \<and> trimmed \<noteq> []
         then Ok (Some (take (i + length key) line @ '' '' @ redactionMarker)) else Ok None)"
    using Some fits by (simp add: redact_key_def rest_def Let_def)
  have moved: "rest \<noteq> [] \<and> blank (hd rest) \<longleftrightarrow> dropWhile blank rest \<noteq> rest"
    by (cases rest) (auto dest: arg_cong [of _ _ length] simp: length_dropWhile_le impossible_Cons)
  show ?thesis
    unfolding keyed_at [OF Some] key Let_def rest_def [symmetric]
    using moved by (cases "dropWhile blank rest") (auto simp: HasPrefix_def redactionMarker_def simp del: dropWhile_eq_Nil_conv)
qed

lemma redact_keys_ascii:
  "redact_keys (ToLower line) line keys = Ok None \<and> (\<forall>key \<in> set keys. \<forall>out. \<not> keyed line key out) \<or>
    (\<exists>earlier key later out. keys = earlier @ key # later \<and> (\<forall>k \<in> set earlier. \<forall>out. \<not> keyed line k out) \<and> keyed line key out \<and>
       redact_keys (ToLower line) line keys = Ok (Some out))"
proof (induction keys)
  case (Cons k ks)
  from redact_key_ascii [of line k] show ?case
  proof (elim disjE conjE exE)
    assume none: "redact_key (ToLower line) line k = Ok None" "\<forall>out. \<not> keyed line k out"
    from Cons.IH show ?thesis
    proof (elim disjE conjE exE)
      fix earlier key later out
      assume "ks = earlier @ key # later" "\<forall>k \<in> set earlier. \<forall>out. \<not> keyed line k out" "keyed line key out"
        "redact_keys (ToLower line) line ks = Ok (Some out)"
      then show ?thesis using none
        by (intro disjI2 exI [of _ "k # earlier"] exI [of _ key] exI [of _ later] exI [of _ out]) simp
    qed (use none in simp)
  next
    fix out
    assume "redact_key (ToLower line) line k = Ok (Some out)" "keyed line k out"
    then show ?thesis by (intro disjI2 exI [of _ "[]"] exI [of _ k] exI [of _ ks] exI [of _ out]) simp
  qed
qed simp

lemma keyed_unique:
  assumes "keyed line key out" "keyed line key out'"
  shows "out = out'"
proof (cases "Index (ToLower line) key")
  case None
  then show ?thesis using redact_key_ascii [of line key] assms(1) by (simp add: redact_key_def)
next
  case (Some i)
  then show ?thesis using assms unfolding keyed_at [OF Some] Let_def by auto
qed

lemma first_split:
  assumes "es @ k # ls = es' @ k' # ls'" "\<forall>x \<in> set es. \<not> Q x" "\<forall>x \<in> set es'. \<not> Q x" "Q k" "Q k'"
  shows "k = k'"
proof -
  have "find Q (es @ k # ls) = Some k" if "\<forall>x \<in> set es. \<not> Q x" "Q k" for es k ls using that by (induction es) auto
  then show ?thesis using assms by (metis option.inject)
qed

lemma redact_keys_first:
  assumes k: "keys = earlier @ key # later" "\<forall>k \<in> set earlier. \<forall>out. \<not> keyed line k out" "keyed line key out"
  shows "redact_keys (ToLower line) line keys = Ok (Some out)"
proof -
  have "\<not> (\<forall>key \<in> set keys. \<forall>out. \<not> keyed line key out)" using k(1,3) by auto
  then obtain earlier' key' later' out' where k': "keys = earlier' @ key' # later'"
    "\<forall>k \<in> set earlier'. \<forall>out. \<not> keyed line k out" "keyed line key' out'" "redact_keys (ToLower line) line keys = Ok (Some out')"
    using redact_keys_ascii [of line keys] by blast
  have eq: "earlier @ key # later = earlier' @ key' # later'" using k(1) k'(1) by (rule trans [OF sym])
  have "key = key'"
    by (rule first_split [OF eq, of "\<lambda>k. \<exists>out. keyed line k out"]) (use k(2,3) k'(2,3) in blast)+
  then show ?thesis using keyed_unique [OF k(3)] k'(3,4) by blast
qed

text \<open>
  C22.  What keyed redaction makes of a line of ASCII, exactly: the first key of the list (in the list's order, not the line's) that is followed,
  where it first occurs in any case, by blanks and a colon or an equals sign, keeps all of the line up to its separator and nothing after
  it; bearer and authorization also cut when blanks and anything else follow; a value that stands before that key, under a key later in the list,
  is still there.  A line without such a key goes to the pass over its words.  Outside ASCII the cut can be misplaced, and can panic.
\<close>

theorem keyed_redaction_exact:
  assumes "is_ascii line"
  shows "(\<forall>earlier key later out.
      credentialKeys = earlier @ key # later \<and> (\<forall>k \<in> set earlier. \<forall>out. \<not> keyed line k out) \<and> keyed line key out \<longrightarrow>
      redactLine lr line = Ok out) \<and>
    ((\<forall>key \<in> set credentialKeys. \<forall>out. \<not> keyed line key out) \<longrightarrow> redactLine lr line = Ok (redactSecretLookingWords line))"
proof -
  have first: "redactLine lr line = Ok out"
    if k: "credentialKeys = earlier @ key # later" "\<forall>k \<in> set earlier. \<forall>out. \<not> keyed line k out" "keyed line key out" for earlier key later out
    using redact_keys_first [OF k] by (simp add: redactLine_def redactKeyedValue_def ToLowerRunes_ascii [OF assms])
  have "redactLine lr line = Ok (redactSecretLookingWords line)" if "\<forall>key \<in> set credentialKeys. \<forall>out. \<not> keyed line key out"
  proof -
    have "redact_keys (ToLower line) line credentialKeys = Ok None" 
      using redact_keys_ascii [of line credentialKeys]
    proof (elim disjE conjE exE)
      fix earlier key later out
      assume "credentialKeys = earlier @ key # later" "keyed line key out"
      then have "key \<in> set credentialKeys" by (metis in_set_conv_decomp)
      then show ?thesis using that \<open>keyed line key out\<close> by blast
    qed
    then show ?thesis by (simp add: redactLine_def redactKeyedValue_def ToLowerRunes_ascii [OF assms])
  qed
  then show ?thesis using first by blast
qed

theorem keyed_redaction_exact_witness:
  "\<forall>lr. redactLine lr ''password: hunter2 Secret: x'' = Ok ''password: hunter2 Secret: [REDACTED]'' \<and>
     redactLine lr ''a TOKENIZER for you'' = Ok ''a TOKENIZER for you''"
proof
  fix lr :: "int \<Rightarrow> int"
  let ?l = "''password: hunter2 Secret: x''"
  let ?m = "''a TOKENIZER for you''"
  have ascii: "is_ascii ?l" "is_ascii ?m" by code_simp+
  have none: "\<forall>out. \<not> keyed l k out" if "redact_key (ToLower l) l k = Ok None" for k l
    using redact_key_ascii [of l k] that by auto
  have "\<forall>k \<in> set (take 7 credentialKeys). redact_key (ToLower ?l) ?l k = Ok None" by code_simp
  then have earlier: "\<forall>k \<in> set (take 7 credentialKeys). \<forall>out. \<not> keyed ?l k out" using none by blast
  have "redact_key (ToLower ?l) ?l ''secret'' = Ok (Some ''password: hunter2 Secret: [REDACTED]'')" by code_simp
  then have here: "keyed ?l ''secret'' ''password: hunter2 Secret: [REDACTED]''" using redact_key_ascii [of ?l "''secret''"] by auto
  have "credentialKeys = take 7 credentialKeys @ ''secret'' # drop 8 credentialKeys" by code_simp
  then have "redactLine lr ?l = Ok ''password: hunter2 Secret: [REDACTED]''"
    using keyed_redaction_exact [OF ascii(1), of lr] earlier here by blast
  moreover have "\<forall>k \<in> set credentialKeys. redact_key (ToLower ?m) ?m k = Ok None" by code_simp
  then have "\<forall>k \<in> set credentialKeys. \<forall>out. \<not> keyed ?m k out" using none by blast
  moreover have "redactSecretLookingWords ?m = ?m" by code_simp
  ultimately show "redactLine lr ?l = Ok ''password: hunter2 Secret: [REDACTED]'' \<and> redactLine lr ?m = Ok ?m"
    using keyed_redaction_exact [OF ascii(2), of lr] by simp
qed

theorem no_secret_words_witness:
  "\<forall>lr. redactLine lr ''use (sk-live-abcdef12)'' = Ok ''use ([REDACTED])''"
proof
  fix lr :: "int \<Rightarrow> int"
  let ?l = "''use (sk-live-abcdef12)''"
  have ascii: "is_ascii ?l" by code_simp
  have "redact_keys (ToLower ?l) ?l credentialKeys = Ok None" by code_simp
  then have "redactKeyedValue lr ?l = Ok None" by (simp add: redactKeyedValue_def ToLowerRunes_ascii [OF ascii])
  from no_secret_words [OF this] obtain outs where o: "redactLine lr ?l = Ok (Join outs '' '')"
    "list_all2 (\<lambda>w out. (\<forall>a core b. framed w a core b \<and> credential_shaped core \<longrightarrow> out = a @ ''[REDACTED]'' @ b) \<and>
                       ((\<nexists>a core b. framed w a core b \<and> credential_shaped core) \<longrightarrow> out = w)) (Split ?l (CHR '' '')) outs"
    by blast
  have words: "Split ?l (CHR '' '') = [''use'', ''(sk-live-abcdef12)'']" by code_simp
  obtain u v where uv: "outs = [u, v]" using o(2) unfolding words by (auto simp: list_all2_Cons1)
  have "framed ''(sk-live-abcdef12)'' ''('' ''sk-live-abcdef12'' '')''" by (simp add: framed_def punctuation_def)
  moreover have "credential_shaped ''sk-live-abcdef12''" "\<not> credential_shaped ''use''"
    unfolding looksSecret_iff [symmetric] by code_simp+
  moreover have "core = ''use''" if "framed ''use'' a core b" for a core b
  proof -
    have "Trim ''use'' = ''use''" by code_simp
    then show ?thesis using framed_Trim [OF that] by simp
  qed
  ultimately have "u = ''use''" "v = ''([REDACTED])''" using o(2) unfolding words uv by force+
  then show "redactLine lr ?l = Ok ''use ([REDACTED])''" using o(1) uv by simp
qed

text \<open>
  The slice beyond the line: U+023A is two bytes long and three in lower case, so six of them move the index of a key that
  follows past the end of the line, and cutting there panics.
\<close>

definition stroke_lower :: "int \<Rightarrow> int" where
  "stroke_lower r = (if r = 0x23A then 0x2C65 else r)"

definition stroke_question :: string where
  "stroke_question = concat (replicate 6 [CHR 0xC8, CHR 0xBA]) @ ''token''"

lemma growing_letters_panic: "Redact stroke_lower stroke_question = Err SlicePanic"
  by code_simp

lemma bind_result_Err: "bind_result r f = Err e \<Longrightarrow> r = Err e \<or> (\<exists>x. r = Ok x \<and> f x = Err e)"
  by (cases r) auto

lemma no_growth_no_panic:
  assumes "\<forall>line \<in> set (Split (redactPEM t) (CHR 0x0A)). length (ToLowerRunes lr line) \<le> length line"
  shows "\<exists>out. Redact lr t = Ok out"
proof -
  have key: "redact_key lower line k \<noteq> Err e" if "length lower \<le> length line" for lower line k e
    using that by (auto simp: redact_key_def Let_def split: option.split dest!: Index_Some)
  have keys: "redact_keys lower line ks \<noteq> Err e" if "length lower \<le> length line" for lower line ks e
  proof (induction ks)
    case (Cons k ks)
    show ?case
    proof
      assume "redact_keys lower line (k # ks) = Err e"
      then show False using bind_result_Err [of "redact_key lower line k"] key [OF that] Cons.IH by (fastforce split: option.splits)
    qed
  qed simp
  have line: "redactLine lr line \<noteq> Err e" if "length (ToLowerRunes lr line) \<le> length line" for line e
    using keys [OF that] by (auto simp: redactLine_def redactKeyedValue_def dest: bind_result_Err)
  have "map_result (redactLine lr) xs \<noteq> Err e" if "\<forall>x \<in> set xs. length (ToLowerRunes lr x) \<le> length x" for xs e
    using that line by (induction xs) (auto split: sum.splits)
  from this [OF assms] have "Redact lr t \<noteq> Err e" for e by (auto simp: Redact_def dest: bind_result_Err)
  then show ?thesis by (metis obj_sumE)
qed

end
