(* ===== verification/AiProviders.thy ===== *)
theory AiProviders
  imports Redaction Adapters
begin

section \<open>Model providers (internal/ai/providers.go, aiProviderFromEnv of cmd/server/ai.go)\<close>

text \<open>
  The fake provider, the local model server and the cloud service, over the HTTP client of theory HttpClient.  The
  interface Provider of the source is the record ProviderOps, generic in the provider's state; its
  instance for the three providers is ai\_ops, and the contract the gateway uses is the locale language\_model.
  JSON and the network are the parameters of record AiNet, one World for each of the two response shapes; the
  deadline of the call is in what the network answers.
\<close>

subsection \<open>The interface\<close>

text \<open>The errors Complete may return: ErrProviderUnavailable, with the kind of the transport failure where there is one; the context's own error; the error a test sets on the fake.\<close>

datatype AiFailure = ProviderUnavailable "Kind option" | ContextDone | FakeErr

record 'p ProviderOps =
  po_Name :: "'p \<Rightarrow> string"
  po_Model :: "'p \<Rightarrow> string"
  po_Complete :: "string \<Rightarrow> 'p \<Rightarrow> (AiFailure + string) \<times> 'p"

subsection \<open>The fake\<close>

record FakeProvider =
  fk_model :: string
  fk_Last :: string
  fk_Err :: "AiFailure option"

definition NewFake :: FakeProvider where
  "NewFake = \<lparr> fk_model = ''fake-1'', fk_Last = [], fk_Err = None \<rparr>"

text \<open>strings.Count of a line break, a dash and a blank.\<close>

definition dash_line :: string where "dash_line = [CHR 0x0A, CHR ''-'', CHR '' '']"

function count_dashes :: "string \<Rightarrow> nat" where
  "count_dashes s =
     (case Index s dash_line of None \<Rightarrow> 0 | Some i \<Rightarrow> 1 + count_dashes (drop (i + length dash_line) s))"
  by pat_completeness auto
termination
  by (relation "measure length") (auto simp: dash_line_def dest: Index_Some)

declare count_dashes.simps [simp del]

definition Fake_Complete :: "bool \<Rightarrow> string \<Rightarrow> FakeProvider \<Rightarrow> (AiFailure + string) \<times> FakeProvider" where
  "Fake_Complete done_ctx prompt f =
     (if done_ctx then (Err ContextDone, f)
      else (let f' = f \<lparr> fk_Last := prompt \<rparr>
            in case fk_Err f of
                 Some e \<Rightarrow> (Err e, f')
               | None \<Rightarrow> (Ok (''fake answer from '' @ Itoa (int (count_dashes prompt)) @ '' context fragment(s)''), f')))"

subsection \<open>The two clients\<close>

datatype AiJson =
  OllamaRequest string string bool
  | OpenAIRequest string "(string \<times> string) list"

record OllamaProvider =
  ol_client :: Client
  ol_model :: string

record OpenAIProvider =
  oa_client :: Client
  oa_model :: string
  oa_apiKey :: string

text \<open>The local server answers an object with one text, the cloud service a list of choices, each the content of a message.\<close>

record AiNet =
  an_done :: bool
  an_ollama :: "(AiJson, string) World"
  an_openai :: "(AiJson, string list) World"
  an_start :: int
  an_finish :: int
  an_others :: "Breaker \<Rightarrow> Breaker"

datatype NewProviderError =
  OllamaURLRequired | OpenAIURLRequired | OpenAIKeyRequired | OpenAIModelRequired | ClientRefused NewError

definition NewOllama :: "(string \<Rightarrow> URL option) \<Rightarrow> Config \<Rightarrow> string \<Rightarrow> NewProviderError + OllamaProvider" where
  "NewOllama parse config model0 =
     (if TrimSpace (cfg_BaseURL config) = [] then Err OllamaURLRequired
      else (let model = (if TrimSpace model0 = [] then ''llama3'' else TrimSpace model0)
            in case httpx_New parse (OptionsFor ''ollama'' config) of
                 Inl e \<Rightarrow> Err (ClientRefused e)
               | Inr client \<Rightarrow> Ok \<lparr> ol_client = client, ol_model = model \<rparr>))"

definition NewOpenAI :: "(string \<Rightarrow> URL option) \<Rightarrow> Config \<Rightarrow> string \<Rightarrow> NewProviderError + OpenAIProvider" where
  "NewOpenAI parse config model0 =
     (if TrimSpace (cfg_BaseURL config) = [] then Err OpenAIURLRequired
      else if TrimSpace (cfg_APIKey config) = [] then Err OpenAIKeyRequired
      else (let model = TrimSpace model0
            in if model = [] then Err OpenAIModelRequired
               else case httpx_New parse (OptionsFor ''openai'' config) of
                 Inl e \<Rightarrow> Err (ClientRefused e)
               | Inr client \<Rightarrow> Ok \<lparr> oa_client = client, oa_model = model, oa_apiKey = cfg_APIKey config \<rparr>))"

text \<open>Do answers no error but its own, so the other two cases of providerError do not arise from it.\<close>

definition providerError :: "Error \<Rightarrow> AiFailure" where
  "providerError e = ProviderUnavailable (Some (er_Kind e))"

definition ollama_request :: "OllamaProvider \<Rightarrow> string \<Rightarrow> AiJson Request" where
  "ollama_request u prompt =
     \<lparr> rq_Method = ''POST'', rq_Path = ''/api/generate'', rq_Query = None,
       rq_Body = Some (Single (OllamaRequest (ol_model u) prompt False)), rq_Header = [], rq_Idempotent = False \<rparr>"

definition Ollama_Complete :: "AiNet \<Rightarrow> string \<Rightarrow> OllamaProvider \<Rightarrow> (AiFailure + string) \<times> OllamaProvider \<times> Act list" where
  "Ollama_Complete net prompt u =
     (case Do (an_ollama net) (ol_client u) (ollama_request u prompt) True (an_start net) (an_finish net) (an_others net) of
        (r, c', log) \<Rightarrow>
          ((case r of Inl e \<Rightarrow> Err (providerError e)
            | Inr response \<Rightarrow> Ok (TrimSpace (case response of None \<Rightarrow> [] | Some t \<Rightarrow> t))),
           u \<lparr> ol_client := c' \<rparr>, log))"

definition openai_request :: "OpenAIProvider \<Rightarrow> string \<Rightarrow> AiJson Request" where
  "openai_request u prompt =
     \<lparr> rq_Method = ''POST'', rq_Path = ''/v1/chat/completions'', rq_Query = None,
       rq_Body = Some (Single (OpenAIRequest (oa_model u) [(''oser'', prompt)])),
       rq_Header = [(''Authorization'', [''Bearer '' @ oa_apiKey u])], rq_Idempotent = False \<rparr>"

definition OpenAI_Complete :: "AiNet \<Rightarrow> string \<Rightarrow> OpenAIProvider \<Rightarrow> (AiFailure + string) \<times> OpenAIProvider \<times> Act list" where
  "OpenAI_Complete net prompt u =
     (case Do (an_openai net) (oa_client u) (openai_request u prompt) True (an_start net) (an_finish net) (an_others net) of
        (r, c', log) \<Rightarrow>
          ((case r of Inl e \<Rightarrow> Err (providerError e)
            | Inr response \<Rightarrow> (case (case response of None \<Rightarrow> [] | Some cs \<Rightarrow> cs) of
                [] \<Rightarrow> Err (ProviderUnavailable None)
              | content # _ \<Rightarrow> Ok (TrimSpace content))),
           u \<lparr> oa_client := c' \<rparr>, log))"

subsection \<open>The three as one provider\<close>

datatype Provider = Fake FakeProvider | Ollama OllamaProvider | OpenAI OpenAIProvider

fun Provider_Name :: "Provider \<Rightarrow> string" where
  "Provider_Name (Fake _) = ''fake''"
| "Provider_Name (Ollama _) = ''ollama''"
| "Provider_Name (OpenAI _) = ''openai''"

fun Provider_Model :: "Provider \<Rightarrow> string" where
  "Provider_Model (Fake f) = fk_model f"
| "Provider_Model (Ollama u) = ol_model u"
| "Provider_Model (OpenAI u) = oa_model u"

text \<open>The answer, the provider afterwards, and what was put on the network.\<close>

fun completion :: "AiNet \<Rightarrow> string \<Rightarrow> Provider \<Rightarrow> (AiFailure + string) \<times> Provider \<times> Act list" where
  "completion net prompt (Fake f) = (case Fake_Complete (an_done net) prompt f of (r, f') \<Rightarrow> (r, Fake f', []))"
| "completion net prompt (Ollama u) = (case Ollama_Complete net prompt u of (r, o', log) \<Rightarrow> (r, Ollama o', log))"
| "completion net prompt (OpenAI u) = (case OpenAI_Complete net prompt u of (r, o', log) \<Rightarrow> (r, OpenAI o', log))"

definition Provider_Complete :: "AiNet \<Rightarrow> string \<Rightarrow> Provider \<Rightarrow> (AiFailure + string) \<times> Provider" where
  "Provider_Complete net prompt p = (case completion net prompt p of (r, p', _) \<Rightarrow> (r, p'))"

definition ai_ops :: "AiNet \<Rightarrow> Provider ProviderOps" where
  "ai_ops net = \<lparr> po_Name = Provider_Name, po_Model = Provider_Model, po_Complete = Provider_Complete net \<rparr>"

text \<open>aiProviderFromEnv: env is os.Getenv; a provider that cannot be built is the fake.\<close>

definition aiProviderFromEnv ::
  "(string \<Rightarrow> URL option) \<Rightarrow> (string \<Rightarrow> int option) \<Rightarrow> (string \<Rightarrow> string) \<Rightarrow> Provider" where
  "aiProviderFromEnv parse parseDuration env =
     (let choice = ToLower (TrimSpace (env ''AI_PROVIDER'')); config = adapterResilience parseDuration env
      in if choice = ''ollama'' then
           (case NewOllama parse (config \<lparr> cfg_BaseURL := TrimSpace (env ''OLLAMA_URL'') \<rparr>) (env ''OLLAMA_MODEL'') of
              Inl _ \<Rightarrow> Fake NewFake
            | Inr provider \<Rightarrow> Ollama provider)
         else if choice = ''openai'' then
           (case NewOpenAI parse (config \<lparr> cfg_BaseURL := TrimSpace (env ''OPENAI_URL''),
                                           cfg_APIKey := env ''OPENAI_API_KEY'' \<rparr>) (env ''OPENAI_MODEL'') of
              Inl _ \<Rightarrow> Fake NewFake
            | Inr provider \<Rightarrow> OpenAI provider)
         else Fake NewFake)"

definition aiTimeout :: "(string \<Rightarrow> int option) \<Rightarrow> (string \<Rightarrow> string) \<Rightarrow> int" where
  "aiTimeout parseDuration env = durationEnv parseDuration env ''AI_TIMEOUT'' (30 * second)"

subsection \<open>The contract the gateway relies on\<close>

text \<open>
  A completion changes neither the name nor the model, so the audit row written after it, and the answer, name the
  provider that was asked.
\<close>

locale language_model =
  fixes name :: "'p \<Rightarrow> string" and model :: "'p \<Rightarrow> string"
    and complete :: "string \<Rightarrow> 'p \<Rightarrow> (AiFailure + string) \<times> 'p"
  assumes name_kept: "complete prompt p = (r, p') \<Longrightarrow> name p' = name p"
    and model_kept: "complete prompt p = (r, p') \<Longrightarrow> model p' = model p"
begin

fun completes :: "string list \<Rightarrow> 'p \<Rightarrow> 'p" where
  "completes [] p = p"
| "completes (q # qs) p = completes qs (snd (complete q p))"

lemma identity_kept: "name (completes qs p) = name p \<and> model (completes qs p) = model p"
  by (induction qs arbitrary: p) (auto simp: name_kept [OF surjective_pairing] model_kept [OF surjective_pairing])

end

interpretation providers: language_model Provider_Name Provider_Model "Provider_Complete net" for net
proof (unfold_locales, goal_cases)
  case (1 prompt p r p')
  then show ?case
    by (cases p) (auto simp: Provider_Complete_def Fake_Complete_def Ollama_Complete_def OpenAI_Complete_def Let_def
        split: prod.splits option.splits if_splits)
next
  case (2 prompt p r p')
  then show ?case
    by (cases p) (auto simp: Provider_Complete_def Fake_Complete_def Ollama_Complete_def OpenAI_Complete_def Let_def
        split: prod.splits option.splits if_splits)
qed

subsection \<open>What a completion puts on the network\<close>

lemma single_attempt:
  "do_loop w c rq wantOut 1 1 None = (r, v, log) \<Longrightarrow> sent log = [1] \<and> waits log = []"
  by (subst (asm) do_loop.simps) (auto simp: Let_def split: sum.splits if_splits)

lemma Do_once:
  assumes "\<not> rq_Idempotent rq" "Do w c rq wantOut start finish others = (r, c', log)"
  shows "waits log = [] \<and> (sent log = [] \<or> sent log = [1])"
  using assms single_attempt [of w c rq wantOut]
  by (auto simp: Do_def Let_def split: prod.splits if_splits)

text \<open>
  A question is put to a model at most once, whatever the network does: no provider retries a completion or waits
  between attempts, and the fake puts nothing on the network at all.
\<close>

theorem completion_sent_once:
  assumes "completion net prompt p = (r, p', log)"
  shows "waits log = [] \<and> (sent log = [] \<or> (\<forall>f. p \<noteq> Fake f) \<and> sent log = [1])"
proof (cases p)
  case (Fake f)
  then show ?thesis using assms by (auto split: prod.splits)
next
  case (Ollama u)
  then obtain c' r' where d: "Do (an_ollama net) (ol_client u) (ollama_request u prompt) True (an_start net) (an_finish net)
      (an_others net) = (r', c', log)"
    using assms by (auto simp: Ollama_Complete_def split: prod.splits)
  then show ?thesis using Do_once [OF _ d] Ollama by (simp add: ollama_request_def)
next
  case (OpenAI u)
  then obtain c' r' where d: "Do (an_openai net) (oa_client u) (openai_request u prompt) True (an_start net) (an_finish net)
      (an_others net) = (r', c', log)"
    using assms by (auto simp: OpenAI_Complete_def split: prod.splits)
  then show ?thesis using Do_once [OF _ d] OpenAI by (simp add: openai_request_def)
qed

lemma httpx_New_base:
  assumes "httpx_New parse (OptionsFor name config) = Ok c"
  shows "parse (TrimRightSlash (TrimSpace (cfg_BaseURL config))) = Some (c_baseURL c) \<and> url_Host (c_baseURL c) \<noteq> []"
proof -
  have base: "op_BaseURL (OptionsFor name config) = cfg_BaseURL config" by (simp add: OptionsFor_def Let_def)
  have "parse (TrimRightSlash (TrimSpace (op_BaseURL op))) = Some (c_baseURL c)" if "httpx_New parse op = Ok c" for op
  proof (cases "parse (TrimRightSlash (TrimSpace (op_BaseURL op)))")
    case None
    then show ?thesis using that by (simp add: httpx_New_def Let_def split: if_split_asm)
  next
    case (Some u)
    then show ?thesis using that unfolding httpx_New_def Let_def by (cases "TrimSpace (op_Adapter op) = []";
        cases "TrimSpace (op_BaseURL op) = []"; cases "url_Scheme u = [] \<or> url_Host u = []") auto
  qed
  from this [OF assms] show ?thesis using httpx_New_ok(5) [OF assms] base by simp
qed

lemma NewOllama_ok:
  assumes "NewOllama parse config m = Ok u"
  shows "TrimSpace (cfg_BaseURL config) \<noteq> [] \<and> parse (TrimRightSlash (TrimSpace (cfg_BaseURL config))) = Some (c_baseURL (ol_client u)) \<and>
    url_Host (c_baseURL (ol_client u)) \<noteq> [] \<and> ol_model u \<noteq> []"
  using assms httpx_New_base [of parse "''ollama''" config]
  by (auto simp: NewOllama_def Let_def split: if_splits sum.splits)

lemma NewOpenAI_ok:
  assumes "NewOpenAI parse config m = Ok u"
  shows "TrimSpace (cfg_BaseURL config) \<noteq> [] \<and> parse (TrimRightSlash (TrimSpace (cfg_BaseURL config))) = Some (c_baseURL (oa_client u)) \<and>
    url_Host (c_baseURL (oa_client u)) \<noteq> [] \<and> oa_model u = TrimSpace m \<and> oa_model u \<noteq> [] \<and>
    oa_apiKey u = cfg_APIKey config \<and> TrimSpace (oa_apiKey u) \<noteq> []"
  using assms httpx_New_base [of parse "''openai''" config]
  by (auto simp: NewOpenAI_def Let_def split: if_splits sum.splits)

text \<open>
  Prompts go where the environment says or nowhere: the gateway talks to a server only if AI\_PROVIDER names it, its
  URL is set and parses to one with a host, and, for the cloud service, the key and the model are set too, the key being the one of the
  environment; in every other case the provider is the fake.
\<close>

theorem provider_only_as_configured:
  "case aiProviderFromEnv parse parseDuration env of
     Fake f \<Rightarrow> f = NewFake
   | Ollama u \<Rightarrow> ToLower (TrimSpace (env ''AI_PROVIDER'')) = ''ollama'' \<and> TrimSpace (env ''OLLAMA_URL'') \<noteq> [] \<and>
       parse (TrimRightSlash (TrimSpace (env ''OLLAMA_URL''))) = Some (c_baseURL (ol_client u)) \<and>
       url_Host (c_baseURL (ol_client u)) \<noteq> [] \<and> ol_model u \<noteq> []
   | OpenAI u \<Rightarrow> ToLower (TrimSpace (env ''AI_PROVIDER'')) = ''openai'' \<and> TrimSpace (env ''OPENAI_URL'') \<noteq> [] \<and>
       parse (TrimRightSlash (TrimSpace (env ''OPENAI_URL''))) = Some (c_baseURL (oa_client u)) \<and>
       url_Host (c_baseURL (oa_client u)) \<noteq> [] \<and> oa_model u = TrimSpace (env ''OPENAI_MODEL'') \<and> oa_model u \<noteq> [] \<and>
       oa_apiKey u = env ''OPENAI_API_KEY'' \<and> TrimSpace (oa_apiKey u) \<noteq> []"
proof -
  consider "ToLower (TrimSpace (env ''AI_PROVIDER'')) = ''ollama''" | "ToLower (TrimSpace (env ''AI_PROVIDER'')) = ''openai''"
    | "ToLower (TrimSpace (env ''AI_PROVIDER'')) \<noteq> ''ollama''" "ToLower (TrimSpace (env ''AI_PROVIDER'')) \<noteq> ''openai''"
    by blast
  then show ?thesis
  proof cases
    case 1
    show ?thesis unfolding aiProviderFromEnv_def Let_def 1 by (simp split: sum.splits) (auto dest: NewOllama_ok)
  next
    case 2
    show ?thesis unfolding aiProviderFromEnv_def Let_def 2 by (simp split: sum.splits) (auto dest: NewOpenAI_ok)
  next
    case 3
    then show ?thesis by (simp add: aiProviderFromEnv_def Let_def)
  qed
qed

text \<open>A provider of each kind on a network that answers at once.\<close>

definition quiet_env :: "string \<Rightarrow> string" where
  "quiet_env name = (if name = ''AI_PROVIDER'' then '' OpenAI '' else if name = ''OPENAI_URL'' then ''https://ai.example''
     else if name = ''OPENAI_MODEL'' then ''m'' else [])"

lemma key_missing_is_fake: "aiProviderFromEnv parse pd quiet_env = Fake NewFake"
proof -
  have "ToLower (TrimSpace (quiet_env ''AI_PROVIDER'')) = ''openai''" "TrimSpace (quiet_env ''OPENAI_API_KEY'') = []" by code_simp+
  then show ?thesis by (simp add: aiProviderFromEnv_def NewOpenAI_def Let_def)
qed

definition idle_net :: AiNet where
  "idle_net = \<lparr> an_done = False,
     an_ollama = \<lparr> w_marshal = \<lambda>_. Some [], w_unmarshal = Some, w_validRequest = \<lambda>_. True,
       w_send = \<lambda>_ _. Ok \<lparr> rs_Status = 503, rs_RetryAfter = [], rs_Bytes = [], rs_ReadError = None \<rparr>,
       w_sleepCanceled = \<lambda>_ _. False, w_jitter = \<lambda>_ d. d, w_untilDate = \<lambda>_. None \<rparr>,
     an_openai = \<lparr> w_marshal = \<lambda>_. Some [], w_unmarshal = \<lambda>t. Some [t], w_validRequest = \<lambda>_. True,
       w_send = \<lambda>_ _. Ok \<lparr> rs_Status = 200, rs_RetryAfter = [], rs_Bytes = ''fine'', rs_ReadError = None \<rparr>,
       w_sleepCanceled = \<lambda>_ _. False, w_jitter = \<lambda>_ d. d, w_untilDate = \<lambda>_. None \<rparr>,
     an_start = 0, an_finish = 1, an_others = \<lambda>b. b \<rparr>"

definition local_model :: Provider where
  "local_model = Ollama \<lparr> ol_client = \<lparr> c_adapter = ''ollama'',
     c_baseURL = \<lparr> url_Scheme = ''http'', url_Host = ''h'', url_Path = [] \<rparr>, c_timeout = second, c_maxBodyBytes = 1000,
     c_retry = DefaultRetryPolicy, c_breaker = NewBreaker DefaultBreakerSettings, c_recorder = False \<rparr>, ol_model = ''llama3'' \<rparr>"

theorem completion_sent_once_witness:
  "waits (snd (snd (completion idle_net ''q'' local_model))) = [] \<and> sent (snd (snd (completion idle_net ''q'' local_model))) = [1]"
proof -
  obtain r p' log where c: "completion idle_net ''q'' local_model = (r, p', log)" by (metis prod_cases3)
  have "sent (snd (snd (completion idle_net ''q'' local_model))) \<noteq> []" by code_simp
  then show ?thesis using completion_sent_once [OF c] unfolding c by simp
qed

end
