(* ===== verification/AiGateway.thy ===== *)
theory AiGateway
  imports AiProviders Confinement
begin

section \<open>The AI gateway (cmd/server/ai.go, internal/platformdb/ai.go)\<close>

text \<open>
  Context assembly, the question handler and the audit of questions, over the platform's tables, any provider
  (a record ProviderOps on a state of its own) and any table lr of lower-case runes.  A request decodes to an option, None for a body that is not JSON or too long.
  The state beside the platform is the provider and the rows of ai\_requests.  The order in which Go lists the keys of the source table,
  which only an error message shows, is the table's.
\<close>

subsection \<open>Requests, rules and rows\<close>

record aiSource =
  ais_EntityType :: string
  ais_GlobalID :: string

record aiRequestBody =
  aib_Question :: string
  aib_Sources :: "aiSource list"

record aiResponseBody =
  ar_Answer :: string
  ar_Provider :: string
  ar_Model :: string
  ar_Classification :: string
  ar_UsedSources :: "string list"
  ar_RequestID :: string

record aiSourceRule =
  asr_Permission :: string
  asr_ScopeType :: string
  asr_Classification :: string

definition rule_of :: "string \<Rightarrow> string \<Rightarrow> string \<Rightarrow> aiSourceRule" where
  "rule_of perm scopeType class_name =
     \<lparr> asr_Permission = perm, asr_ScopeType = scopeType, asr_Classification = class_name \<rparr>"

definition aiSourceRules :: "(string \<times> aiSourceRule) list" where
  "aiSourceRules =
     [(''client'', rule_of ''crm.client.read'' ScopeClient ''CONFIDENTIAL''),
      (''contact'', rule_of ''crm.client.read'' ScopeResource ''CONFIDENTIAL''),
      (''project'', rule_of ''projects.task.read'' ScopeProject ''INTERNAL''),
      (''task'', rule_of ''projects.task.read'' ScopeResource ''INTERNAL''),
      (''document'', rule_of ''wiki.document.read'' ScopeResource ''INTERNAL''),
      (''server'', rule_of ''operations.server.read'' ScopeResource ''INTERNAL''),
      (''incident'', rule_of ''support.incident.read'' ScopeClient ''INTERNAL'')]"

definition aiSourceTypes :: "string list" where
  "aiSourceTypes = map fst aiSourceRules"

record AIRequest =
  air_ID :: int
  air_OccurredAt :: int
  air_ActorID :: string
  air_Provider :: string
  air_Model :: string
  air_RequestedSources :: "string list"
  air_EntityIDs :: "string list"
  air_Classification :: "string \<times> (string \<times> nat) list"
  air_RequestID :: string
  air_Result :: string
  air_PromptBytes :: nat
  air_AnswerBytes :: nat
  air_DurationMS :: int

record 'p AiState =
  ai_platform :: Platform
  ai_provider :: 'p
  ai_requests :: "AIRequest list"
  ai_seq :: int

subsection \<open>The store\<close>

definition InsertAIRequest :: "down \<Rightarrow> int \<Rightarrow> AIRequest \<Rightarrow> 'p AiState \<Rightarrow> DBError option \<times> 'p AiState" where
  "InsertAIRequest down now request st =
     (if down ''ai_insert'' then (Some (StoreFailure ''ai_insert''), st)
      else (None, st \<lparr> ai_requests := ai_requests st @ [request \<lparr> air_ID := ai_seq st + 1, air_OccurredAt := now \<rparr>],
                       ai_seq := ai_seq st + 1 \<rparr>))"

definition ListAIRequests :: "down \<Rightarrow> int \<Rightarrow> 'p AiState \<Rightarrow> DBError + AIRequest list" where
  "ListAIRequests down limit st =
     statement down ''ai_list'' (take (nat limit) (rev (sort_key air_ID (ai_requests st))))"

subsection \<open>Context assembly\<close>

text \<open>An error of the assembly: a refusal with the answer it should produce, or a store that could not be asked.\<close>

datatype aiError = AiDenial int string string | AiStore

definition notFoundSource :: "string \<Rightarrow> aiError" where
  "notFoundSource globalID = AiDenial 403 (''not authorized to use '' @ globalID @ '' as context'') ''source_forbidden''"

definition aiFragment ::
  "down \<Rightarrow> Platform \<Rightarrow> string \<Rightarrow> string \<Rightarrow> aiSourceRule \<Rightarrow> aiError + Fragment \<times> string" where
  "aiFragment down pf entityType globalID rule =
     (let fragment = \<lparr> fg_EntityType = entityType, fg_GlobalID = globalID, fg_Title = [], fg_Detail = [],
                       fg_Classification = asr_Classification rule \<rparr>
      in if entityType = ''server'' then
           (case GetServer down globalID pf of
              Inl e \<Rightarrow> if e = ErrServerNotFound then Err (notFoundSource globalID) else Err AiStore
            | Inr server \<Rightarrow>
                Ok (fragment \<lparr> fg_Title := sr_Name server,
                               fg_Detail := ''environment '' @ sr_Environment server @ '', status '' @ sr_Status server \<rparr>,
                    if sr_ClientID server \<noteq> [] then sr_ClientID server else sr_ID server))
         else if entityType = ''incident'' then
           (case GetSupportRecord down globalID pf of
              Inl e \<Rightarrow> if e = ErrSupportRecordNotFound then Err (notFoundSource globalID) else Err AiStore
            | Inr r \<Rightarrow>
                (let f = fragment \<lparr> fg_Title := sp_Title r,
                           fg_Detail := sp_Kind r @ '', severity '' @ sp_Severity r @ '', status '' @ sp_Status r \<rparr>
                 in if sp_ClientID r \<noteq> [] then Ok (f \<lparr> fg_Classification := ''CONFIDENTIAL'' \<rparr>, sp_ClientID r)
                    else Ok (f, sp_ID r)))
         else
           (case ResolveGlobalEntity down globalID (pf_db pf) of
              Inl _ \<Rightarrow> Err (notFoundSource globalID)
            | Inr entity \<Rightarrow>
                if ge_EntityType entity \<noteq> entityType then Err (notFoundSource globalID)
                else Ok (fragment \<lparr> fg_Title := ge_GlobalID entity, fg_Detail := ''recorded in '' @ ge_Source entity \<rparr>,
                         if asr_ScopeType rule = ScopeClient \<and> ge_TenantID entity \<noteq> [] then ge_TenantID entity
                         else ge_GlobalID entity)))"

text \<open>One turn of the loop.\<close>

definition assemble_source :: "down \<Rightarrow> Platform \<Rightarrow> Principal \<Rightarrow> aiSource \<Rightarrow> aiError + Fragment" where
  "assemble_source down pf p source =
     (let entityType = ToLower (TrimSpace (ais_EntityType source)); globalID = TrimSpace (ais_GlobalID source)
      in case map_of aiSourceRules entityType of
           None \<Rightarrow> Err (AiDenial 400 (''sources may only name '' @ Join aiSourceTypes '', '') ''invalid_source'')
         | Some rule \<Rightarrow>
             bind_result (aiFragment down pf entityType globalID rule) (\<lambda>(fragment, scopeID).
               case Evaluate (platform_authz down (pf_db pf)) p (asr_Permission rule) (Resource (asr_ScopeType rule) scopeID) of
                 Inl _ \<Rightarrow> Err AiStore
               | Inr decision \<Rightarrow>
                   if dc_Allowed decision then Ok fragment
                   else Err (AiDenial 403 (''not authorized to use '' @ globalID @ '' as context'') ''source_forbidden'')))"

definition assembleContext :: "down \<Rightarrow> Platform \<Rightarrow> Principal \<Rightarrow> aiSource list \<Rightarrow> aiError + Fragment list" where
  "assembleContext down pf p sources = map_result (assemble_source down pf p) sources"

definition usedSources :: "Fragment list \<Rightarrow> string list" where
  "usedSources fragments = map fg_GlobalID fragments"

subsection \<open>The handlers\<close>

text \<open>auditAI: the row of one call, best effort; finish is the instant it is written.\<close>

definition auditAI ::
  "down \<Rightarrow> 'p ProviderOps \<Rightarrow> HttpContext \<Rightarrow> int \<Rightarrow> meResponse \<Rightarrow> string list \<Rightarrow> Fragment list \<Rightarrow> string list \<Rightarrow> string
   \<Rightarrow> nat \<Rightarrow> nat \<Rightarrow> 'p AiState \<Rightarrow> 'p AiState" where
  "auditAI down ops hx finish access requested fragments ids result promptBytes answerBytes st =
     snd (InsertAIRequest down finish
       \<lparr> air_ID = 0, air_OccurredAt = 0, air_ActorID = me_ID access,
         air_Provider = po_Name ops (ai_provider st), air_Model = po_Model ops (ai_provider st),
         air_RequestedSources = requested, air_EntityIDs = ids, air_Classification = Summarize fragments,
         air_RequestID = hx_RequestID hx, air_Result = result, air_PromptBytes = promptBytes,
         air_AnswerBytes = answerBytes, air_DurationMS = (finish - hx_Now hx) div 1000000 \<rparr> st)"

definition requested_sources :: "aiSource list \<Rightarrow> string list" where
  "requested_sources sources = map (\<lambda>s. TrimSpace (ais_EntityType s) @ '':'' @ TrimSpace (ais_GlobalID s)) sources"

text \<open>The checks before anything is looked up.\<close>

definition ask_refused :: "aiRequestBody option \<Rightarrow> aiResponseBody Reply + aiRequestBody" where
  "ask_refused body =
     (case body of
        None \<Rightarrow> Inl (reply_error 400 ''invalid JSON body'' [])
      | Some b \<Rightarrow>
          (let question = TrimSpace (aib_Question b)
           in if question = [] then Inl (reply_error 400 ''question is required'' [])
              else if MaxQuestionBytes < length question
              then Inl (reply_error 400 (''question exceeds '' @ Itoa (int MaxQuestionBytes) @ '' bytes'') ''prompt_too_large'')
              else if MaxSources < length (aib_Sources b)
              then Inl (reply_error 400 (''at most '' @ Itoa (int MaxSources) @ '' sources may be named'') ''too_many_sources'')
              else Inr (b \<lparr> aib_Question := question \<rparr>)))"

text \<open>
  A slice out of range in the redaction unwinds the handler: nothing recovers it before net/http, which closes the connection, so the caller gets
  no reply (status 0 here), and nothing after BuildPrompt has run.
\<close>

definition aborted :: "'b Reply" where
  "aborted = reply_error 0 [] []"

definition aiAsk ::
  "(int \<Rightarrow> int) \<Rightarrow> down \<Rightarrow> 'p ProviderOps \<Rightarrow> HttpContext \<Rightarrow> int \<Rightarrow> meResponse \<Rightarrow> aiRequestBody option \<Rightarrow> 'p AiState
   \<Rightarrow> aiResponseBody Reply \<times> 'p AiState" where
  "aiAsk lr down ops hx finish access body st =
     (case ask_refused body of
        Inl r \<Rightarrow> (r, st)
      | Inr b \<Rightarrow>
          (let requested = requested_sources (aib_Sources b);
               record = auditAI down ops hx finish access requested
           in case assembleContext down (ai_platform st) (principal_of access) (aib_Sources b) of
                Inl (AiDenial status message code) \<Rightarrow>
                  (reply_error status message code, record [] [] ''refused_unauthorized'' 0 0 st)
              | Inl AiStore \<Rightarrow> (reply_error 503 ''context assembly unavailable'' [], record [] [] ''failed'' 0 0 st)
              | Inr fragments \<Rightarrow>
                  (case BuildPrompt lr \<lparr> aiq_Question = aib_Question b, aiq_Fragments = fragments, aiq_Model = [] \<rparr> of
                     Inl SlicePanic \<Rightarrow> (aborted, st)
                   | Inl ErrCredentialContext \<Rightarrow>
                       (reply_error 403 ''the requested context is credential-classified and cannot be sent to a model''
                          ''credential_context'', record fragments [] ''refused_credential'' 0 0 st)
                   | Inl ErrPromptTooLarge \<Rightarrow>
                       (reply_error 400 ''the assembled prompt is too large'' ''prompt_too_large'',
                        record fragments [] ''refused_too_large'' 0 0 st)
                   | Inr prompt \<Rightarrow>
                       (case po_Complete ops prompt (ai_provider st) of
                          (Inl _, provider) \<Rightarrow>
                            (reply_error 503 ''ai provider unavailable'' ''ai_unavailable'',
                             record fragments (usedSources fragments) ''failed'' (length prompt) 0 (st \<lparr> ai_provider := provider \<rparr>))
                        | (Inr answer, provider) \<Rightarrow>
                            (reply 200 \<lparr> ar_Answer = answer, ar_Provider = po_Name ops provider, ar_Model = po_Model ops provider,
                                        ar_Classification = Classify fragments, ar_UsedSources = usedSources fragments,
                                        ar_RequestID = hx_RequestID hx \<rparr>,
                             record fragments (usedSources fragments) ''answered'' (length prompt) (length answer)
                               (st \<lparr> ai_provider := provider \<rparr>))))))"

definition aiAudit :: "down \<Rightarrow> string \<Rightarrow> 'p AiState \<Rightarrow> AIRequest list Reply" where
  "aiAudit down limit st =
     (let n = (case ParseInt (TrimSpace limit) of None \<Rightarrow> 100 | Some n \<Rightarrow> if n \<le> 0 \<or> 500 < n then 100 else n)
      in case ListAIRequests down n st of
           Inl _ \<Rightarrow> reply_error 503 ''audit store unavailable'' []
         | Inr requests \<Rightarrow> reply 200 requests)"

subsection \<open>Lemmas on the parts\<close>

lemma map_result_Ok: "map_result f xs = Ok ys \<Longrightarrow> list_all2 (\<lambda>x y. f x = Ok y) xs ys"
  by (induction xs arbitrary: ys) (auto split: sum.splits)

lemma map_result_cong: "(\<And>x. x \<in> set xs \<Longrightarrow> f x = g x) \<Longrightarrow> map_result f xs = map_result g xs"
  by (induction xs) (auto split: sum.splits)

lemma auditAI_frame [simp]:
  "ai_platform (auditAI down ops hx fin a rq fs u res pb ab st) = ai_platform st"
  "ai_provider (auditAI down ops hx fin a rq fs u res pb ab st) = ai_provider st"
  by (simp_all add: auditAI_def InsertAIRequest_def)

lemma ask_refused_ok:
  "ask_refused body = Inr b \<Longrightarrow> \<exists>raw. body = Some raw \<and> b = raw \<lparr> aib_Question := TrimSpace (aib_Question raw) \<rparr> \<and>
     0 < length (aib_Question b) \<and> length (aib_Question b) \<le> MaxQuestionBytes \<and> length (aib_Sources b) \<le> MaxSources"
  by (auto simp: ask_refused_def Let_def split: option.splits if_splits)

lemma BuildPrompt_ok:
  "BuildPrompt lr q = Ok prompt \<Longrightarrow> length prompt \<le> MaxPromptBytes \<and> (\<forall>f \<in> set (aiq_Fragments q). fg_Classification f \<noteq> ''CREDENTIAL'')"
  by (auto simp: BuildPrompt_def Let_def elim!: bind_result_OkE split: if_splits)

text \<open>The lines redaction scans, and that only one of them that grows in lower case can make it panic.\<close>

definition scanned :: "string list \<Rightarrow> string set" where
  "scanned texts = (\<Union>t \<in> set texts. set (Split (redactPEM t) (CHR 0x0A)))"

lemma map_result_Err: "map_result f xs = Err e \<Longrightarrow> \<exists>x \<in> set xs. f x = Err e"
  by (induction xs) (auto split: sum.splits)

lemma BuildPrompt_panic:
  assumes "BuildPrompt lr q = Err SlicePanic"
  shows "\<exists>line \<in> scanned (aiq_Question q # concat (map (\<lambda>f. [fg_Title f, fg_Detail f]) (aiq_Fragments q))). length line < length (ToLowerRunes lr line)"
proof -
  have grows: "\<exists>line \<in> set (Split (redactPEM t) (CHR 0x0A)). length line < length (ToLowerRunes lr line)" if "Redact lr t = Err e" for t e
    using no_growth_no_panic [of t lr] that by (metis Inl_Inr_False linorder_not_less)
  have "Redact lr (aiq_Question q) = Err SlicePanic \<or>
      (\<exists>f \<in> set (aiq_Fragments q). Redact lr (fg_Title f) = Err SlicePanic \<or> Redact lr (fg_Detail f) = Err SlicePanic)"
    using assms unfolding BuildPrompt_def
    by (auto simp: Let_def fragment_line_def split: if_splits dest!: bind_result_Err map_result_Err)
  then show ?thesis using grows by (fastforce simp: scanned_def)
qed

text \<open>What the caller may read of a named source: a fragment the evaluator allowed under the rule of its type.\<close>

definition usable :: "down \<Rightarrow> Platform \<Rightarrow> Principal \<Rightarrow> aiSource \<Rightarrow> Fragment \<Rightarrow> bool" where
  "usable down pf p source f \<longleftrightarrow>
     fg_GlobalID f = TrimSpace (ais_GlobalID source) \<and> fg_EntityType f = ToLower (TrimSpace (ais_EntityType source)) \<and>
     (\<exists>rule scopeID d. map_of aiSourceRules (fg_EntityType f) = Some rule \<and>
        aiFragment down pf (fg_EntityType f) (fg_GlobalID f) rule = Ok (f, scopeID) \<and>
        Evaluate (platform_authz down (pf_db pf)) p (asr_Permission rule) (Resource (asr_ScopeType rule) scopeID) = Ok d \<and>
        dc_Allowed d)"

lemma aiFragment_ids:
  "aiFragment down pf t g rule = Ok (f, scopeID) \<Longrightarrow> fg_GlobalID f = g \<and> fg_EntityType f = t"
  by (auto simp: aiFragment_def Let_def split: if_splits sum.splits)

lemma assemble_source_ok:
  assumes "assemble_source down pf p source = Ok f"
  shows "usable down pf p source f"
proof -
  obtain rule scopeID d where "map_of aiSourceRules (ToLower (TrimSpace (ais_EntityType source))) = Some rule"
    "aiFragment down pf (ToLower (TrimSpace (ais_EntityType source))) (TrimSpace (ais_GlobalID source)) rule = Ok (f, scopeID)"
    "Evaluate (platform_authz down (pf_db pf)) p (asr_Permission rule) (Resource (asr_ScopeType rule) scopeID) = Ok d" "dc_Allowed d"
    using assms by (auto simp: assemble_source_def Let_def elim!: bind_result_OkE split: option.splits sum.splits if_splits)
  then show ?thesis using aiFragment_ids by (auto simp: usable_def)
qed

lemma assembleContext_ok:
  "assembleContext down pf p sources = Ok fragments \<Longrightarrow> list_all2 (usable down pf p) sources fragments"
  unfolding assembleContext_def
  by (drule map_result_Ok, erule list_all2_mono) (rule assemble_source_ok)

text \<open>Everything a question can come to.\<close>

lemma aiAsk_cases:
  assumes "aiAsk lr down ops hx finish access body st = (r, st')"
  obtains (invalid) "ask_refused body = Inl r" "st' = st" "rp_Status r = 400"
  | (denied) b status message code where "ask_refused body = Inr b"
      "assembleContext down (ai_platform st) (principal_of access) (aib_Sources b) = Inl (AiDenial status message code)"
      "r = reply_error status message code"
      "st' = auditAI down ops hx finish access (requested_sources (aib_Sources b)) [] [] ''refused_unauthorized'' 0 0 st"
  | (store) b where "ask_refused body = Inr b"
      "assembleContext down (ai_platform st) (principal_of access) (aib_Sources b) = Inl AiStore" "rp_Status r = 503"
      "st' = auditAI down ops hx finish access (requested_sources (aib_Sources b)) [] [] ''failed'' 0 0 st"
  | (panicked) b fragments where "ask_refused body = Inr b"
      "assembleContext down (ai_platform st) (principal_of access) (aib_Sources b) = Ok fragments"
      "BuildPrompt lr \<lparr> aiq_Question = aib_Question b, aiq_Fragments = fragments, aiq_Model = [] \<rparr> = Err SlicePanic"
      "r = aborted" "st' = st"
  | (refused) b fragments result where "ask_refused body = Inr b"
      "assembleContext down (ai_platform st) (principal_of access) (aib_Sources b) = Ok fragments"
      "rp_Status r \<in> {400, 403}" "result \<in> {''refused_credential'', ''refused_too_large''}"
      "st' = auditAI down ops hx finish access (requested_sources (aib_Sources b)) fragments [] result 0 0 st"
  | (asked) b fragments prompt answer provider where "ask_refused body = Inr b"
      "assembleContext down (ai_platform st) (principal_of access) (aib_Sources b) = Ok fragments"
      "BuildPrompt lr \<lparr> aiq_Question = aib_Question b, aiq_Fragments = fragments, aiq_Model = [] \<rparr> = Ok prompt"
      "po_Complete ops prompt (ai_provider st) = (answer, provider)" "rp_Status r = (if isl answer then 503 else 200)"
      "st' = auditAI down ops hx finish access (requested_sources (aib_Sources b)) fragments (usedSources fragments)
         (if isl answer then ''failed'' else ''answered'') (length prompt) (if isl answer then 0 else length (projr answer))
         (st \<lparr> ai_provider := provider \<rparr>)"
proof (cases "ask_refused body")
  case (Inl r0)
  then have "rp_Status r0 = 400" by (auto simp: ask_refused_def Let_def split: option.splits if_splits)
  then show ?thesis using assms Inl by (intro invalid) (simp_all add: aiAsk_def)
next
  case b: (Inr b)
  show ?thesis
  proof (cases "assembleContext down (ai_platform st) (principal_of access) (aib_Sources b)")
    case (Inl e)
    then show ?thesis using assms b by (cases e) (auto simp: aiAsk_def Let_def intro: denied store)
  next
    case fs: (Inr fragments)
    show ?thesis
    proof (cases "BuildPrompt lr \<lparr> aiq_Question = aib_Question b, aiq_Fragments = fragments, aiq_Model = [] \<rparr>")
      case (Inl e)
      show ?thesis
      proof (cases "e = SlicePanic")
        case True
        show ?thesis
          by (rule panicked [OF b fs]; use assms b fs Inl True in \<open>auto simp: aiAsk_def Let_def\<close>)
      next
        case False
        define result where "result = (if e = ErrCredentialContext then ''refused_credential'' else ''refused_too_large'')"
        show ?thesis
          by (rule refused [OF b fs, of result]; use assms b fs Inl False in
              \<open>cases e; auto simp: aiAsk_def Let_def result_def\<close>)
      qed
    next
      case prompt: (Inr prompt)
      obtain answer provider where c: "po_Complete ops prompt (ai_provider st) = (answer, provider)" by fastforce
      show ?thesis
        by (rule asked [OF b fs prompt c]; use assms b fs prompt c in
            \<open>cases answer; auto simp: aiAsk_def Let_def\<close>)
    qed
  qed
qed

text \<open>A refusal of the assembly is a bad request or a prohibition.\<close>

lemma assemble_source_denial: "assemble_source down pf p x = Err (AiDenial n m c) \<Longrightarrow> n \<in> {400, 403}"
  by (auto simp: assemble_source_def aiFragment_def notFoundSource_def bind_result_def Let_def
      split: option.splits sum.splits if_splits)

lemma assembleContext_denial: "assembleContext down pf p xs = Err (AiDenial n m c) \<Longrightarrow> n \<in> {400, 403}"
  unfolding assembleContext_def by (drule map_result_Err) (auto dest: assemble_source_denial)

lemma usable_ids: "list_all2 (usable down pf p) xs fs \<Longrightarrow> usedSources fs = map (\<lambda>x. TrimSpace (ais_GlobalID x)) xs"
  by (induction rule: list_all2_induct) (auto simp: usedSources_def usable_def)

subsection \<open>What reaches a model\<close>

text \<open>
  C6.  AI is an authorized consumer and not a way around authorization.  Whatever the request and whatever the provider does, a question
  changes nothing of the platform, and the provider is handed either nothing or one prompt: the one built from the caller's question and
  one fragment for each source the caller named, in that order, at most twenty of them, every one loaded by its own identifier and type and
  allowed to this caller by the evaluator under the rule of its type, none of them classified as a credential, and at most 24,000 bytes in all.
\<close>

theorem model_sees_only_authorized:
  assumes "aiAsk lr down ops hx finish access body st = (r, st')"
  shows "ai_platform st' = ai_platform st \<and>
    (ai_provider st' = ai_provider st \<or>
     (\<exists>raw fragments prompt. body = Some raw \<and> length (aib_Sources raw) \<le> MaxSources \<and>
        list_all2 (usable down (ai_platform st) (principal_of access)) (aib_Sources raw) fragments \<and>
        (\<forall>f \<in> set fragments. fg_Classification f \<noteq> ''CREDENTIAL'') \<and>
        BuildPrompt lr \<lparr> aiq_Question = TrimSpace (aib_Question raw), aiq_Fragments = fragments, aiq_Model = [] \<rparr> = Ok prompt \<and>
        length prompt \<le> MaxPromptBytes \<and> ai_provider st' = snd (po_Complete ops prompt (ai_provider st))))"
  using assms
proof (cases rule: aiAsk_cases)
  case (asked b fragments prompt answer provider)
  obtain raw where raw: "body = Some raw" "b = raw \<lparr> aib_Question := TrimSpace (aib_Question raw) \<rparr>"
    "length (aib_Sources b) \<le> MaxSources" using ask_refused_ok [OF asked(1)] by blast
  have "list_all2 (usable down (ai_platform st) (principal_of access)) (aib_Sources raw) fragments"
    using assembleContext_ok [OF asked(2)] raw(2) by simp
  moreover have "length prompt \<le> MaxPromptBytes" "\<forall>f \<in> set fragments. fg_Classification f \<noteq> ''CREDENTIAL''"
    using BuildPrompt_ok [OF asked(3)] by simp_all
  ultimately show ?thesis using raw asked(3,4,6) by (intro conjI disjI2 exI [of _ raw] exI [of _ fragments] exI [of _ prompt]) simp_all
qed simp_all

text \<open>
  C8.  Every question that was well formed leaves exactly one row, when the row can be written: it names the caller, the request, the sources as
  asked for and the provider that was asked, it says answered exactly when the caller got an answer, it lists
  as used either nothing or all the sources named, and its prompt is within the bound.  The one exception is a panic of the
  redaction, which leaves no row, no reply and no call of the provider: it takes a line of the question, a title or a detail that is longer in lower case than as
  written, so never one of ASCII.
\<close>

theorem questions_leave_one_row:
  assumes "aiAsk lr down (ai_ops net) hx finish access body st = (r, st')" "ask_refused body = Inr b" "\<not> down ''ai_insert''"
  shows "if r = aborted
    then st' = st \<and> (\<exists>fragments. assembleContext down (ai_platform st) (principal_of access) (aib_Sources b) = Ok fragments \<and>
      (\<exists>line \<in> scanned (aib_Question b # concat (map (\<lambda>f. [fg_Title f, fg_Detail f]) fragments)).
        length line < length (ToLowerRunes lr line) \<and> \<not> is_ascii line))
    else \<exists>row. ai_requests st' = ai_requests st @ [row] \<and> ai_seq st' = ai_seq st + 1 \<and> air_ID row = ai_seq st + 1 \<and>
    air_ActorID row = me_ID access \<and> air_RequestID row = hx_RequestID hx \<and>
    air_RequestedSources row = requested_sources (aib_Sources b) \<and>
    air_Provider row = Provider_Name (ai_provider st) \<and> air_Model row = Provider_Model (ai_provider st) \<and>
    (air_Result row = ''answered'' \<longleftrightarrow> rp_Status r = 200) \<and> air_PromptBytes row \<le> MaxPromptBytes \<and>
    (air_EntityIDs row = [] \<or> air_EntityIDs row = map (\<lambda>x. TrimSpace (ais_GlobalID x)) (aib_Sources b))"
  using assms(1)
proof (cases rule: aiAsk_cases)
  case invalid
  then show ?thesis using assms(2) by simp
next
  case (denied b' status message code)
  then show ?thesis using assms(2,3) assembleContext_denial [OF denied(2)]
    by (auto simp: auditAI_def InsertAIRequest_def ai_ops_def aborted_def reply_error_def)
next
  case (store b')
  then have "r \<noteq> aborted" by (auto simp: aborted_def)
  with store show ?thesis using assms(2,3) by (simp add: auditAI_def InsertAIRequest_def ai_ops_def)
next
  case (panicked b' fragments)
  have "\<not> is_ascii line" if "length line < length (ToLowerRunes lr line)" for line
    using that ToLowerRunes_ascii [of line lr] by auto
  then show ?thesis using panicked assms(2) BuildPrompt_panic [OF panicked(3)] by auto
next
  case (refused b' fragments result)
  then have "r \<noteq> aborted" by (auto simp: aborted_def)
  with refused show ?thesis using assms(2,3) by (auto simp: auditAI_def InsertAIRequest_def ai_ops_def)
next
  case (asked b' fragments prompt answer provider)
  have "Provider_Complete net prompt (ai_provider st) = (answer, provider)" using asked(4) by (simp add: ai_ops_def)
  then have "Provider_Name provider = Provider_Name (ai_provider st)" "Provider_Model provider = Provider_Model (ai_provider st)"
    by (rule providers.name_kept, rule providers.model_kept)
  moreover have "r \<noteq> aborted" using asked(5) by (auto simp: aborted_def split: if_splits)
  ultimately show ?thesis using asked assms(2,3) BuildPrompt_ok [OF asked(3)] usable_ids [OF assembleContext_ok [OF asked(2)]]
    by (simp add: auditAI_def InsertAIRequest_def ai_ops_def)
qed

text \<open>A question depends on the platform through the sources it names only.\<close>

lemma aiAsk_platform:
  assumes "\<And>b. ask_refused body = Inr b \<Longrightarrow>
      assembleContext down pf' (principal_of access) (aib_Sources b) = assembleContext down pf (principal_of access) (aib_Sources b)"
  shows "aiAsk lr down ops hx finish access body (st \<lparr> ai_platform := pf' \<rparr>) =
    apsnd (\<lambda>s. s \<lparr> ai_platform := pf' \<rparr>) (aiAsk lr down ops hx finish access body (st \<lparr> ai_platform := pf \<rparr>))"
  using assms
  by (auto simp: aiAsk_def auditAI_def InsertAIRequest_def Let_def split: sum.splits aiError.splits AiError.splits prod.splits)

lemma find_hidden:
  "find P (xs @ ys) = None \<Longrightarrow> find P (xs @ s # ys) = (if P s then Some s else None)"
  "\<not> P s \<Longrightarrow> find P (xs @ s # ys) = find P (xs @ ys)"
  by (induction xs) (auto split: if_splits)

lemma hidden_server_source:
  assumes "pf_servers pf = xs @ ys" "find_server (sr_ID s) pf = None"
    and "Evaluate (platform_authz down (pf_db pf)) p ''operations.server.read''
      (Resource ScopeResource (if sr_ClientID s \<noteq> [] then sr_ClientID s else sr_ID s)) = Ok d" "\<not> dc_Allowed d"
  shows "assemble_source down (pf \<lparr> pf_servers := xs @ s # ys \<rparr>) p x = assemble_source down pf p x"
proof (cases "ToLower (TrimSpace (ais_EntityType x)) = ''server''")
  case True
  have rule: "map_of aiSourceRules ''server'' = Some (rule_of ''operations.server.read'' ScopeResource ''INTERNAL'')" by code_simp
  show ?thesis
  proof (cases "sr_ID s = TrimSpace (ais_GlobalID x)")
    case here: True
    have "find_server (TrimSpace (ais_GlobalID x)) (pf \<lparr> pf_servers := xs @ s # ys \<rparr>) = Some s"
      "find_server (TrimSpace (ais_GlobalID x)) pf = None"
      using assms(1,2) here find_hidden(1) [of "\<lambda>y. sr_ID y = sr_ID s" xs ys s] by (simp_all add: find_server_def)
    then show ?thesis using True rule assms(3,4)
      by (cases "down ''server_get''") (simp_all add: assemble_source_def aiFragment_def GetServer_def notFoundSource_def rule_of_def Let_def)
  next
    case False
    then have "find_server (TrimSpace (ais_GlobalID x)) (pf \<lparr> pf_servers := xs @ s # ys \<rparr>) = find_server (TrimSpace (ais_GlobalID x)) pf"
      using assms(1) by (simp add: find_server_def find_hidden(2))
    then have "aiFragment down (pf \<lparr> pf_servers := xs @ s # ys \<rparr>) ''server'' (TrimSpace (ais_GlobalID x)) rl =
        aiFragment down pf ''server'' (TrimSpace (ais_GlobalID x)) rl" for rl
      by (simp add: aiFragment_def GetServer_def)
    then show ?thesis using True rule by (simp add: assemble_source_def Let_def)
  qed
next
  case False
  then show ?thesis
    by (simp add: assemble_source_def aiFragment_def GetSupportRecord_def supportRelations_def find_record_def Let_def
        split: option.split)
qed

text \<open>
  C7.  The gateway cannot be used to probe for servers.  Adding a server the evaluator does not allow the caller to the platform changes
  no answer to any question: the reply, the provider and the audit row are the same as without it, for a source
  that names it too, since a source that does not exist and one that may not be used are refused in the same words.
\<close>

theorem hidden_server_inert:
  assumes "pf_servers pf = xs @ ys" "find_server (sr_ID s) pf = None"
    and "Evaluate (platform_authz down (pf_db pf)) (principal_of access) ''operations.server.read''
      (Resource ScopeResource (if sr_ClientID s \<noteq> [] then sr_ClientID s else sr_ID s)) = Ok d" "\<not> dc_Allowed d"
  shows "aiAsk lr down ops hx finish access body (st \<lparr> ai_platform := pf \<lparr> pf_servers := xs @ s # ys \<rparr> \<rparr>) =
    apsnd (\<lambda>u. u \<lparr> ai_platform := pf \<lparr> pf_servers := xs @ s # ys \<rparr> \<rparr>)
      (aiAsk lr down ops hx finish access body (st \<lparr> ai_platform := pf \<rparr>))"
  by (rule aiAsk_platform) (simp add: assembleContext_def hidden_server_source [OF assms] cong: map_result_cong)

text \<open>
  C39.  The gateway does not apply the scope of the read endpoint to a server that belongs to a customer: it looks for a grant on a
  resource with the client's identifier.  So a Customer who has been granted the client, and to whom the endpoint
  answers the server, is refused the same server as a source.
\<close>

theorem owned_server_refused:
  assumes "''Customer'' \<in> set (me_Roles access)" "\<not> down ''scope_check''" "\<not> down ''server_get''"
    and "find_server (TrimSpace i) (ai_platform st) = Some s" "sr_ClientID s \<noteq> []"
    and "granted (pf_db (ai_platform st)) (principal_of access) ''operations.server.read'' (ScopeClient, sr_ClientID s)"
    and "\<not> granted (pf_db (ai_platform st)) (principal_of access) ''operations.server.read'' (ScopeResource, sr_ClientID s)"
    and "ask_refused (Some \<lparr> aib_Question = q, aib_Sources = [\<lparr> ais_EntityType = ''server'', ais_GlobalID = i \<rparr>] \<rparr>) = Inr b"
  shows "getServer down access i (ai_platform st) = reply 200 s \<and>
    rp_Status (fst (aiAsk lr down ops hx finish access
      (Some \<lparr> aib_Question = q, aib_Sources = [\<lparr> ais_EntityType = ''server'', ais_GlobalID = i \<rparr>] \<rparr>) st)) = 403"
proof
  show "getServer down access i (ai_platform st) = reply 200 s"
    using server_refines [OF assms(1-3), of i "ai_platform st"] assms(4-6)
    by (simp add: server_view_def confined_view_def serverScope_def)
next
  obtain d where d: "Evaluate (platform_authz down (pf_db (ai_platform st))) (principal_of access) ''operations.server.read''
      (Resource ScopeResource (sr_ClientID s)) = Ok d" "\<not> dc_Allowed d"
    using confined_evaluation [of "principal_of access" "''operations.server.read''" down ScopeResource "pf_db (ai_platform st)" "sr_ClientID s"]
      assms(1,2,7) asks_server by (auto simp: scope_names)
  have rule: "map_of aiSourceRules ''server'' = Some (rule_of ''operations.server.read'' ScopeResource ''INTERNAL'')"
    "ToLower (TrimSpace ''server'') = ''server''" by code_simp+
  have "assemble_source down (ai_platform st) (principal_of access) \<lparr> ais_EntityType = ''server'', ais_GlobalID = i \<rparr> =
      Err (notFoundSource (TrimSpace i))"
    using assms(3-5) d rule
    by (simp add: assemble_source_def aiFragment_def GetServer_def notFoundSource_def rule_of_def Let_def)
  moreover have "aib_Sources b = [\<lparr> ais_EntityType = ''server'', ais_GlobalID = i \<rparr>]"
    using ask_refused_ok [OF assms(8)] by auto
  ultimately show "rp_Status (fst (aiAsk lr down ops hx finish access
      (Some \<lparr> aib_Question = q, aib_Sources = [\<lparr> ais_EntityType = ''server'', ais_GlobalID = i \<rparr>] \<rparr>) st)) = 403"
    unfolding aiAsk_def assms(8) by (simp add: assembleContext_def notFoundSource_def Let_def)
qed

subsection \<open>Runs on concrete inputs\<close>

text \<open>One server, owned by a client; a Customer who has been granted that client; an administrator.\<close>

definition ask_server :: "string \<Rightarrow> aiRequestBody" where
  "ask_server q = \<lparr> aib_Question = q, aib_Sources = [\<lparr> ais_EntityType = ''server'', ais_GlobalID = ''SRV-000001'' \<rparr>] \<rparr>"

definition owned_server :: Server where
  "owned_server = \<lparr> sr_ID = ''SRV-000001'', sr_Name = ''web'', sr_Environment = ''prod'', sr_Status = ''ok'',
     sr_ClientID = ''CL-000001'', sr_ProjectID = [], sr_Source = ''s'', sr_SourceID = ''1'', sr_LastEventAt = None, sr_CreatedAt = 0 \<rparr>"

definition gateway_platform :: "Server list \<Rightarrow> Platform" where
  "gateway_platform servers = (platform_of (two_clients \<lparr> db_scopes := [\<lparr> sg_PrincipalType = ''user'', sg_PrincipalID = ''USR-000001'',
     sg_ScopeType = ''client'', sg_ScopeID = ''CL-000001'', sg_PermissionID = ''operations.server.read'' \<rparr>] \<rparr>)) \<lparr> pf_servers := servers \<rparr>"

definition gateway_state :: "Server list \<Rightarrow> Provider AiState" where
  "gateway_state servers = \<lparr> ai_platform = gateway_platform servers, ai_provider = Fake NewFake, ai_requests = [], ai_seq = 0 \<rparr>"

definition gateway_hx :: HttpContext where
  "gateway_hx = \<lparr> hx_RequestID = ''r1'', hx_SourceIP = [], hx_Now = 0 \<rparr>"

definition gateway_admin :: meResponse where
  "gateway_admin = customer \<lparr> me_Roles := [''Admin''], me_Permissions := [''*''] \<rparr>"

definition admin_run :: "aiResponseBody Reply \<times> Provider AiState" where
  "admin_run = aiAsk id (\<lambda>_. False) (ai_ops idle_net) gateway_hx 5000000 gateway_admin (Some (ask_server '' what is up?''))
     (gateway_state [owned_server])"

lemma admin_run_facts:
  "rp_Status (fst admin_run) = 200" "ai_provider (snd admin_run) \<noteq> ai_provider (gateway_state [owned_server])"
  by code_simp+

theorem model_sees_only_authorized_witness:
  "\<exists>(raw :: aiRequestBody) fragments prompt. list_all2 (usable (\<lambda>_. False) (gateway_platform [owned_server]) (principal_of gateway_admin))
      (aib_Sources raw) fragments \<and> length prompt \<le> MaxPromptBytes \<and>
     ai_provider (snd admin_run) = snd (Provider_Complete idle_net prompt (Fake NewFake))"
proof -
  have run: "aiAsk id (\<lambda>_. False) (ai_ops idle_net) gateway_hx 5000000 gateway_admin (Some (ask_server '' what is up?''))
     (gateway_state [owned_server]) = (fst admin_run, snd admin_run)" by (simp add: admin_run_def)
  have st: "ai_platform (gateway_state [owned_server]) = gateway_platform [owned_server]"
    "ai_provider (gateway_state [owned_server]) = Fake NewFake" "po_Complete (ai_ops idle_net) = Provider_Complete idle_net"
    by (simp_all add: gateway_state_def ai_ops_def)
  from model_sees_only_authorized [OF run] admin_run_facts(2) show ?thesis unfolding st
    by (elim conjE disjE exE) (erule (1) notE, intro exI conjI, assumption+)
qed

definition panic_run :: "aiResponseBody Reply \<times> Provider AiState" where
  "panic_run = aiAsk stroke_lower (\<lambda>_. False) (ai_ops idle_net) gateway_hx 5000000 gateway_admin
     (Some \<lparr> aib_Question = stroke_question, aib_Sources = [] \<rparr>) (gateway_state [])"

theorem questions_leave_one_row_witness:
  "(\<exists>row. ai_requests (snd admin_run) = [row] \<and> air_Result row = ''answered'' \<and> air_Provider row = ''fake'') \<and>
   fst panic_run = aborted \<and> ai_requests (snd panic_run) = []"
proof -
  have run: "aiAsk id (\<lambda>_. False) (ai_ops idle_net) gateway_hx 5000000 gateway_admin (Some (ask_server '' what is up?''))
     (gateway_state [owned_server]) = (fst admin_run, snd admin_run)" by (simp add: admin_run_def)
  have ok: "ask_refused (Some (ask_server '' what is up?'')) = Inr (ask_server ''what is up?'')" by code_simp
  have st: "ai_requests (gateway_state ss) = []" "ai_provider (gateway_state ss) = Fake NewFake" for ss
    by (simp_all add: gateway_state_def)
  have "fst admin_run \<noteq> aborted" using admin_run_facts(1) by (auto simp: aborted_def)
  then have one: "\<exists>row. ai_requests (snd admin_run) = [row] \<and> air_Result row = ''answered'' \<and> air_Provider row = ''fake''"
    using questions_leave_one_row [OF run ok] admin_run_facts(1) unfolding st by auto
  have run': "aiAsk stroke_lower (\<lambda>_. False) (ai_ops idle_net) gateway_hx 5000000 gateway_admin
      (Some \<lparr> aib_Question = stroke_question, aib_Sources = [] \<rparr>) (gateway_state []) = (fst panic_run, snd panic_run)"
    by (simp add: panic_run_def)
  have ok': "ask_refused (Some \<lparr> aib_Question = stroke_question, aib_Sources = [] \<rparr>) = Inr \<lparr> aib_Question = stroke_question, aib_Sources = [] \<rparr>"
    by code_simp
  have "fst panic_run = aborted"
    unfolding panic_run_def aiAsk_def ok' by (simp add: assembleContext_def BuildPrompt_def growing_letters_panic)
  then show ?thesis using one questions_leave_one_row [OF run' ok'] by (simp add: st)
qed

lemma gateway_grants:
  "granted (pf_db (gateway_platform ss)) (principal_of customer) ''operations.server.read'' (ScopeClient, ''CL-000001'')"
  "\<not> granted (pf_db (gateway_platform ss)) (principal_of customer) ''operations.server.read'' (ScopeResource, ''CL-000001'')"
  by (simp_all add: gateway_platform_def platform_of_def granted_def customer_def scope_row_covers_def scope_names PermissionAll_def)

lemma customer_is_confined: "''Customer'' \<in> set (me_Roles customer)"
  by (simp add: customer_def)

theorem owned_server_refused_witness:
  "getServer (\<lambda>_. False) customer ''SRV-000001'' (gateway_platform [owned_server]) = reply 200 owned_server \<and>
   rp_Status (fst (aiAsk id (\<lambda>_. False) (ai_ops idle_net) gateway_hx 1 customer (Some (ask_server ''q'')) (gateway_state [owned_server]))) = 403"
proof -
  have f: "find_server (TrimSpace ''SRV-000001'') (ai_platform (gateway_state [owned_server])) = Some owned_server"
    "sr_ClientID owned_server \<noteq> []" "sr_ClientID owned_server = ''CL-000001''"
    "ai_platform (gateway_state [owned_server]) = gateway_platform [owned_server]" by code_simp+
  have ok: "ask_refused (Some \<lparr> aib_Question = ''q'', aib_Sources = [\<lparr> ais_EntityType = ''server'', ais_GlobalID = ''SRV-000001'' \<rparr>] \<rparr>) =
    Inr (ask_server ''q'')" by code_simp
  show ?thesis
    using owned_server_refused [OF customer_is_confined _ _ f(1,2) _ _ ok, of "\<lambda>_. False" id "ai_ops idle_net" gateway_hx 1]
      gateway_grants f(3,4) by (simp add: ask_server_def)
qed

theorem hidden_server_inert_witness:
  "fst (aiAsk id (\<lambda>_. False) (ai_ops idle_net) gateway_hx 1 customer (Some (ask_server ''q'')) (gateway_state [owned_server])) =
   fst (aiAsk id (\<lambda>_. False) (ai_ops idle_net) gateway_hx 1 customer (Some (ask_server ''q'')) (gateway_state []))"
proof -
  obtain d where d: "Evaluate (platform_authz (\<lambda>_. False) (pf_db (gateway_platform []))) (principal_of customer) ''operations.server.read''
      (Resource ScopeResource (if sr_ClientID owned_server \<noteq> [] then sr_ClientID owned_server else sr_ID owned_server)) = Ok d" "\<not> dc_Allowed d"
    using confined_evaluation [of "principal_of customer" "''operations.server.read''" "\<lambda>_. False" ScopeResource "pf_db (gateway_platform [])" "''CL-000001''"]
      customer_is_confined gateway_grants(2) asks_server by (auto simp: owned_server_def scope_names)
  have s: "pf_servers (gateway_platform []) = [] @ []" "find_server (sr_ID owned_server) (gateway_platform []) = None" by code_simp+
  have st: "(gateway_state []) \<lparr> ai_platform := gateway_platform [] \<lparr> pf_servers := [] @ owned_server # [] \<rparr> \<rparr> = gateway_state [owned_server]"
    "(gateway_state []) \<lparr> ai_platform := gateway_platform [] \<rparr> = gateway_state []"
    by (simp_all add: gateway_state_def gateway_platform_def)
  from hidden_server_inert [OF s d, of id "ai_ops idle_net" gateway_hx 1 "Some (ask_server ''q'')" "gateway_state []"]
  show ?thesis unfolding st by simp
qed

end
