(* ===== verification/ModuleCatalogue.thy ===== *)
theory ModuleCatalogue
  imports Accounts
begin

section \<open>The module catalogue (internal/platformdb/modules\_admin.go, cmd/server/admin\_modules.go, main.go)\<close>

text \<open>
  The launcher's modules and their administration: creating and patching a module with the roles that see it and the
  audit record in one transaction, and the launcher's own listing.  The rows of the table modules stand beside the database of
  theory Database, which holds the roles and role\_modules.  env is os.Getenv; parse is url.Parse, of whose result the scheme, the host and the
  rendering without user information are used.  The view an endpoint answers is an AdminModule whose roles are the wire's.
\<close>

subsection \<open>Rows and patches\<close>

record Module =
  mo_ID :: string
  mo_Name :: string
  mo_Description :: string
  mo_Status :: string
  mo_LaunchURL :: string
  mo_Icon :: string

record ModuleRow =
  mr_Module :: Module
  mr_SortOrder :: int
  mr_Enabled :: bool
  mr_UpdatedBy :: string
  mr_UpdatedAt :: int

record AdminModule =
  am_Module :: Module
  am_AllowedRoles :: "string list"
  am_UpdatedBy :: string
  am_UpdatedAt :: int

record AdminModuleInput =
  mi_ID :: string
  mi_Name :: string
  mi_Description :: string
  mi_LaunchURL :: string
  mi_AllowedRoles :: "string list"

record AdminModulePatch =
  mp_Name :: "string option"
  mp_Description :: "string option"
  mp_LaunchURL :: "string option"
  mp_Status :: "string option"
  mp_AllowedRoles :: "string list option"

record ModuleStore =
  ms_db :: DB
  ms_modules :: "ModuleRow list"

definition ModuleStatuses :: "string list" where
  "ModuleStatuses = [''active'', ''maintenance'', ''disabled'']"

definition row_id :: "ModuleRow \<Rightarrow> string" where
  "row_id r = mo_ID (mr_Module r)"

definition module_roles :: "string \<Rightarrow> DB \<Rightarrow> string list" where
  "module_roles m db = sort (map fst (filter (\<lambda>x. snd x = m) (db_role_modules db)))"

subsection \<open>The store\<close>

definition catalogue_order :: "ModuleRow list \<Rightarrow> ModuleRow list" where
  "catalogue_order rows = sort_key (\<lambda>r. (mr_SortOrder r, row_id r)) rows"

definition ListModules :: "down \<Rightarrow> ModuleStore \<Rightarrow> DBError + Module list" where
  "ListModules down st =
     statement down ''module_list'' (map mr_Module (catalogue_order (filter mr_Enabled (ms_modules st))))"

definition ListAdminModules :: "down \<Rightarrow> ModuleStore \<Rightarrow> DBError + AdminModule list" where
  "ListAdminModules down st =
     bind_result (statement down ''module_admin_list'' (catalogue_order (ms_modules st))) (\<lambda>rows.
       if rows = [] then Ok []
       else statement down ''module_roles_list''
              (map (\<lambda>r. \<lparr> am_Module = mr_Module r, am_AllowedRoles = module_roles (row_id r) (ms_db st),
                          am_UpdatedBy = mr_UpdatedBy r, am_UpdatedAt = mr_UpdatedAt r \<rparr>) rows))"

text \<open>INSERT INTO role\_modules, role by role: its primary key and the foreign key on roles.\<close>

fun insert_roles :: "down \<Rightarrow> string \<Rightarrow> string list \<Rightarrow> DB \<Rightarrow> DBError + DB" where
  "insert_roles down m [] db = Ok db"
| "insert_roles down m (roleID # roles) db =
     (if down ''role_module_insert'' then Err (StoreFailure ''role_module_insert'')
      else if (roleID, m) \<in> set (db_role_modules db) then Err UniqueViolation
      else if roleID \<notin> ro_ID ` set (db_roles db) then Err ErrUnknownRole
      else insert_roles down m roles (db \<lparr> db_role_modules := db_role_modules db @ [(roleID, m)] \<rparr>))"

definition setModuleRoles :: "down \<Rightarrow> string \<Rightarrow> string list \<Rightarrow> DB \<Rightarrow> DBError + DB" where
  "setModuleRoles down m roleIDs db =
     (if down ''role_module_delete'' then Err (StoreFailure ''role_module_delete'')
      else insert_roles down m roleIDs (db \<lparr> db_role_modules := filter (\<lambda>x. snd x \<noteq> m) (db_role_modules db) \<rparr>))"

text \<open>The audit record, the last statement of both transactions.\<close>

definition audited_store :: "down \<Rightarrow> int \<Rightarrow> AuditEvent \<Rightarrow> 'a \<Rightarrow> ModuleStore \<Rightarrow> DBError + 'a \<times> ModuleStore" where
  "audited_store down now record answer st =
     bind_result (audit_in_tx down now record (ms_db st)) (\<lambda>(_, db). Ok (answer, st \<lparr> ms_db := db \<rparr>))"

definition CreateAdminModule ::
  "down \<Rightarrow> int \<Rightarrow> AdminModuleInput \<Rightarrow> string \<Rightarrow> AuditEvent \<Rightarrow> ModuleStore \<Rightarrow> (DBError + AdminModule) \<times> ModuleStore" where
  "CreateAdminModule down now input actor record =
     transaction down (\<lambda>st.
       let m = \<lparr> mo_ID = mi_ID input, mo_Name = mi_Name input, mo_Description = mi_Description input,
                 mo_Status = ''disabled'', mo_LaunchURL = mi_LaunchURL input, mo_Icon = [] \<rparr>;
           row = \<lparr> mr_Module = m, mr_SortOrder = 100, mr_Enabled = False, mr_UpdatedBy = actor, mr_UpdatedAt = now \<rparr>
       in if down ''module_insert'' then Err (StoreFailure ''module_insert'')
          else if mi_ID input \<in> row_id ` set (ms_modules st) then Err ErrModuleConflict
          else bind_result (setModuleRoles down (mi_ID input) (mi_AllowedRoles input) (ms_db st)) (\<lambda>db.
            audited_store down now record
              \<lparr> am_Module = m, am_AllowedRoles = mi_AllowedRoles input, am_UpdatedBy = actor, am_UpdatedAt = now \<rparr>
              \<lparr> ms_db = db, ms_modules = ms_modules st @ [row] \<rparr>))"

definition or_else :: "'a option \<Rightarrow> 'a \<Rightarrow> 'a" where
  "or_else x y = (case x of None \<Rightarrow> y | Some v \<Rightarrow> v)"

lemma or_else_simps [simp]: "or_else None y = y" "or_else (Some x) y = x"
  by (simp_all add: or_else_def)

definition UpdateAdminModule ::
  "down \<Rightarrow> int \<Rightarrow> string \<Rightarrow> AdminModulePatch \<Rightarrow> string \<Rightarrow> AuditEvent \<Rightarrow> ModuleStore
   \<Rightarrow> (DBError + AdminModule) \<times> ModuleStore" where
  "UpdateAdminModule down now i patch actor record =
     transaction down (\<lambda>st.
       if down ''module_select'' then Err (StoreFailure ''module_select'')
       else case find (\<lambda>r. row_id r = i) (ms_modules st) of
         None \<Rightarrow> Err ErrModuleNotFound
       | Some row \<Rightarrow>
           if down ''role_module_select'' then Err (StoreFailure ''role_module_select'')
           else
             (let current = mr_Module row;
                  name = or_else (mp_Name patch) (mo_Name current);
                  description = or_else (mp_Description patch) (mo_Description current);
                  launchURL = or_else (mp_LaunchURL patch) (mo_LaunchURL current);
                  status = or_else (mp_Status patch) (mo_Status current);
                  roles = or_else (mp_AllowedRoles patch) (module_roles i (ms_db st));
                  m = \<lparr> mo_ID = i, mo_Name = name, mo_Description = description, mo_Status = status,
                        mo_LaunchURL = launchURL, mo_Icon = mo_Icon current \<rparr>
              in if status = ''active'' \<and> roles = [] then Err ErrModuleNeedsRoles
                 else if down ''module_update'' then Err (StoreFailure ''module_update'')
                 else bind_result
                   (if mp_AllowedRoles patch = None then Ok (ms_db st) else setModuleRoles down i roles (ms_db st)) (\<lambda>db.
                     audited_store down now record
                       \<lparr> am_Module = m, am_AllowedRoles = roles, am_UpdatedBy = actor, am_UpdatedAt = now \<rparr>
                       \<lparr> ms_db = db,
                         ms_modules = map (\<lambda>r. if row_id r = i
                           then r \<lparr> mr_Module := m \<lparr> mo_Icon := mo_Icon (mr_Module r) \<rparr>, mr_Enabled := (status \<noteq> ''disabled''),
                                    mr_UpdatedBy := actor, mr_UpdatedAt := now \<rparr> else r) (ms_modules st) \<rparr>)))"

subsection \<open>The wire's vocabulary\<close>

definition moduleHumanRoleToID :: "string \<Rightarrow> string option" where
  "moduleHumanRoleToID role =
     (if role = ''admin'' then Some ''administrator''
      else if role \<in> fst ` set humanRoleGroups then Some role else None)"

definition moduleRoleIDToHumanRole :: "string \<Rightarrow> string option" where
  "moduleRoleIDToHumanRole i =
     map_of (map (\<lambda>(role, _). (the (moduleHumanRoleToID role), role)) humanRoleGroups) i"

definition rolesToWire :: "string list \<Rightarrow> string list" where
  "rolesToWire roleIDs = List.map_filter moduleRoleIDToHumanRole roleIDs"

fun rolesFromWire :: "string list \<Rightarrow> string list option" where
  "rolesFromWire [] = Some []"
| "rolesFromWire (role # roles) =
     (case moduleHumanRoleToID (ToLower (TrimSpace role)) of
        None \<Rightarrow> None
      | Some i \<Rightarrow> map_option (Cons i) (rolesFromWire roles))"

definition moduleForWire :: "AdminModule \<Rightarrow> AdminModule" where
  "moduleForWire m = m \<lparr> am_AllowedRoles := rolesToWire (am_AllowedRoles m) \<rparr>"

subsection \<open>Launch URLs\<close>

record LaunchURL =
  lu_Scheme :: string
  lu_Host :: string
  lu_String :: string

definition moduleAllowedOrigins :: "(string \<Rightarrow> string) \<Rightarrow> string list" where
  "moduleAllowedOrigins env =
     (let raw = TrimSpace (env ''MODULE_ALLOWED_ORIGINS'')
      in if raw = [] then []
         else filter (\<lambda>origin. origin \<noteq> []) (map (\<lambda>part. TrimRightSlash (TrimSpace part)) (Split raw (CHR '',''))))"

datatype LaunchError = errLaunchURLProtocol | errLaunchURLOrigin

definition launch_message :: "LaunchError \<Rightarrow> string" where
  "launch_message e = (case e of
     errLaunchURLProtocol \<Rightarrow> ''launch_url must be an https URL''
   | errLaunchURLOrigin \<Rightarrow> ''launch_url origin is not on the canonical allowlist'')"

definition origin_of :: "LaunchURL \<Rightarrow> string" where
  "origin_of u = lu_Scheme u @ ''://'' @ lu_Host u"

definition validateLaunchURL ::
  "(string \<Rightarrow> LaunchURL option) \<Rightarrow> string \<Rightarrow> string list \<Rightarrow> LaunchError + string" where
  "validateLaunchURL parse raw allowedOrigins =
     (let trimmed = TrimSpace raw
      in if trimmed = [] then Ok []
         else case parse trimmed of
           None \<Rightarrow> Err errLaunchURLProtocol
         | Some u \<Rightarrow>
             if lu_Scheme u \<noteq> ''https'' \<or> lu_Host u = [] then Err errLaunchURLProtocol
             else if origin_of u \<notin> set allowedOrigins then Err errLaunchURLOrigin
             else Ok (lu_String u))"

subsection \<open>The handlers\<close>

record ModuleEnv =
  me_env :: "string \<Rightarrow> string"
  me_parse :: "string \<Rightarrow> LaunchURL option"

definition module_unavailable :: "'b Reply" where
  "module_unavailable = reply_error 503 ''module registry unavailable'' ''module_store_unavailable''"

definition adminModules :: "down \<Rightarrow> ModuleStore \<Rightarrow> AdminModule list Reply" where
  "adminModules down st =
     (case ListAdminModules down st of
        Inl _ \<Rightarrow> module_unavailable
      | Inr modules \<Rightarrow> reply 200 (map moduleForWire modules))"

definition adminModuleAllowedOrigins :: "ModuleEnv \<Rightarrow> string list Reply" where
  "adminModuleAllowedOrigins ev = reply 200 (moduleAllowedOrigins (me_env ev))"

definition moduleActor :: "meResponse \<Rightarrow> string" where
  "moduleActor access = (if me_ID access \<noteq> [] then me_ID access else me_Subject access)"

definition moduleMutationError :: "DBError \<Rightarrow> AdminModule Reply" where
  "moduleMutationError e =
     (if e = ErrModuleNotFound then reply_error 404 ''module not found'' ''not_found''
      else if e = ErrModuleConflict then reply_error 409 ''a module with this id already exists'' ''module_conflict''
      else if e = ErrUnknownRole then reply_error 400 ''unknown human role'' ''invalid_role''
      else if e = ErrModuleNeedsRoles
      then reply_error 422 (''a module cannot be activated with no roles assigned '' @ [CHR 0xE2, CHR 0x80, CHR 0x94]
        @ '' assign allowed_roles first'') ''module_needs_roles''
      else if e = ErrAuditNotDurable
      then reply_error 503 ''the change was refused because its audit record could not be written'' ''audit_unavailable''
      else module_unavailable)"

record adminCreateModuleRequest =
  cm_ID :: string
  cm_Name :: string
  cm_Description :: string
  cm_Status :: string
  cm_LaunchURL :: string
  cm_AllowedRoles :: "string list"

definition moduleID :: "string \<Rightarrow> bool" where
  "moduleID s \<longleftrightarrow> 1 \<le> length s \<and> length s \<le> 64 \<and>
     (\<forall>c \<in> set s. in_range (CHR ''a'') (CHR ''z'') c \<or> in_range (CHR ''0'') (CHR ''9'') c \<or> c = CHR ''-'')"

definition adminCreateModule ::
  "down \<Rightarrow> ModuleEnv \<Rightarrow> HttpContext \<Rightarrow> meResponse \<Rightarrow> adminCreateModuleRequest option \<Rightarrow> ModuleStore
   \<Rightarrow> AdminModule Reply \<times> ModuleStore" where
  "adminCreateModule down ev hx access body st =
     (case body of
        None \<Rightarrow> (reply_error 400 ''invalid JSON body'' ''invalid_module_input'', st)
      | Some input \<Rightarrow>
          (let i = TrimSpace (cm_ID input); name = TrimSpace (cm_Name input)
           in if \<not> moduleID i \<or> name = []
              then (reply_error 400 ''id must be 1-64 lowercase letters, digits or hyphens, and name is required''
                      ''invalid_module_input'', st)
              else case rolesFromWire (cm_AllowedRoles input) of
                None \<Rightarrow> (reply_error 400 ''unknown human role'' ''invalid_role'', st)
              | Some roleIDs \<Rightarrow>
                  (case validateLaunchURL (me_parse ev) (cm_LaunchURL input) (moduleAllowedOrigins (me_env ev)) of
                     Inl e \<Rightarrow> (reply_error 400 (launch_message e) ''invalid_launch_url'', st)
                   | Inr launchURL \<Rightarrow>
                       (case CreateAdminModule down (hx_Now hx)
                          \<lparr> mi_ID = i, mi_Name = name, mi_Description = TrimSpace (cm_Description input),
                            mi_LaunchURL = launchURL, mi_AllowedRoles = roleIDs \<rparr> (moduleActor access)
                          (auditRecord hx access ''module.created'' ''module'' i
                             [(''allowed_roles'', Join (cm_AllowedRoles input) '','')]) st of
                          (Inl e, st') \<Rightarrow> (moduleMutationError e, st')
                        | (Inr created, st') \<Rightarrow> (reply 201 (moduleForWire created), st')))))"

record adminUpdateModuleRequest =
  um_Name :: "string option"
  um_Description :: "string option"
  um_LaunchURL :: "string option"
  um_Status :: "string option"
  um_AllowedRoles :: "string list option"

text \<open>A field that may be absent, checked where it is present.\<close>

definition checked :: "('a \<Rightarrow> 'r + 'b) \<Rightarrow> 'a option \<Rightarrow> 'r + 'b option" where
  "checked f x = (case x of None \<Rightarrow> Inr None | Some v \<Rightarrow> map_sum id Some (f v))"

definition patch_of :: "ModuleEnv \<Rightarrow> adminUpdateModuleRequest \<Rightarrow> AdminModule Reply + AdminModulePatch" where
  "patch_of ev input =
     bind_result (checked (\<lambda>v. if TrimSpace v = [] then Inl (reply_error 400 ''name cannot be empty'' ''invalid_module_input'')
                              else Inr (TrimSpace v)) (um_Name input)) (\<lambda>name.
     bind_result (checked (\<lambda>v. case validateLaunchURL (me_parse ev) v (moduleAllowedOrigins (me_env ev)) of
                              Inl e \<Rightarrow> Inl (reply_error 400 (launch_message e) ''invalid_launch_url'')
                            | Inr launchURL \<Rightarrow> Inr launchURL) (um_LaunchURL input)) (\<lambda>launchURL.
     bind_result (checked (\<lambda>v. let status = ToLower (TrimSpace v) in
                              if status \<notin> set ModuleStatuses
                              then Inl (reply_error 400 ''status must be active, maintenance or disabled'' ''invalid_module_input'')
                              else Inr status) (um_Status input)) (\<lambda>status.
     bind_result (checked (\<lambda>v. case rolesFromWire v of
                              None \<Rightarrow> Inl (reply_error 400 ''unknown human role'' ''invalid_role'')
                            | Some roleIDs \<Rightarrow> Inr roleIDs) (um_AllowedRoles input)) (\<lambda>roles.
     Inr \<lparr> mp_Name = name, mp_Description = map_option TrimSpace (um_Description input), mp_LaunchURL = launchURL,
           mp_Status = status, mp_AllowedRoles = roles \<rparr>))))"

definition patch_metadata :: "adminUpdateModuleRequest \<Rightarrow> AdminModulePatch \<Rightarrow> (string \<times> string) list" where
  "patch_metadata input patch =
     (let field = (\<lambda>name v. case v of None \<Rightarrow> [] | Some x \<Rightarrow> [(name, x)])
      in field ''name'' (mp_Name patch) @ field ''description'' (mp_Description patch)
         @ field ''launch_url'' (mp_LaunchURL patch) @ field ''status'' (mp_Status patch)
         @ field ''allowed_roles'' (map_option (\<lambda>rs. Join rs '','') (um_AllowedRoles input)))"

definition adminUpdateModule ::
  "down \<Rightarrow> ModuleEnv \<Rightarrow> HttpContext \<Rightarrow> meResponse \<Rightarrow> string \<Rightarrow> adminUpdateModuleRequest option \<Rightarrow> ModuleStore
   \<Rightarrow> AdminModule Reply \<times> ModuleStore" where
  "adminUpdateModule down ev hx access pathID body st =
     (let i = TrimSpace pathID
      in if i = [] then (reply_error 400 ''module id is required'' ''invalid_module_input'', st)
         else case body of
           None \<Rightarrow> (reply_error 400 ''invalid JSON body'' ''invalid_module_input'', st)
         | Some input \<Rightarrow>
             if um_Name input = None \<and> um_Description input = None \<and> um_LaunchURL input = None \<and>
                um_Status input = None \<and> um_AllowedRoles input = None
             then (reply_error 400 ''at least one field is required'' ''invalid_module_input'', st)
             else case patch_of ev input of
               Inl r \<Rightarrow> (r, st)
             | Inr patch \<Rightarrow>
                 (case UpdateAdminModule down (hx_Now hx) i patch (moduleActor access)
                    (auditRecord hx access ''module.updated'' ''module'' i (patch_metadata input patch)) st of
                    (Inl e, st') \<Rightarrow> (moduleMutationError e, st')
                  | (Inr updated, st') \<Rightarrow> (reply 200 (moduleForWire updated), st')))"

subsection \<open>The launcher\<close>

definition applyModuleLaunchOverride :: "(string \<Rightarrow> string) \<Rightarrow> Module \<Rightarrow> Module" where
  "applyModuleLaunchOverride env item =
     (let named = (if mo_ID item = ''redmine'' then Some ''MODULE_REDMINE_LAUNCH_URL''
                   else if mo_ID item = ''outline'' then Some ''MODULE_OUTLINE_LAUNCH_URL''
                   else if mo_ID item = ''nextcloud'' then Some ''MODULE_NEXTCLOUD_LAUNCH_URL'' else None)
      in case named of
           None \<Rightarrow> item
         | Some envName \<Rightarrow>
             if TrimSpace (env envName) \<noteq> [] then item \<lparr> mo_LaunchURL := TrimSpace (env envName) \<rparr> else item)"

definition launcher_modules :: "down \<Rightarrow> ModuleEnv \<Rightarrow> meResponse \<Rightarrow> ModuleStore \<Rightarrow> Module list Reply" where
  "launcher_modules down ev access st =
     (case ListModules down st of
        Inl _ \<Rightarrow> reply_error 503 ''module registry unavailable'' []
      | Inr all \<Rightarrow> reply 200 (map (applyModuleLaunchOverride (me_env ev)) (filter (\<lambda>m. mo_ID m \<in> set (me_Modules access)) all)))"

subsection \<open>Lemmas on the store\<close>

lemma insert_roles_ok:
  "insert_roles down m rs db = Ok db' \<Longrightarrow> db' = db \<lparr> db_role_modules := db_role_modules db @ map (\<lambda>r. (r, m)) rs \<rparr>"
proof (induction rs arbitrary: db)
  case (Cons r rs)
  then have "insert_roles down m rs (db \<lparr> db_role_modules := db_role_modules db @ [(r, m)] \<rparr>) = Ok db'"
    by (auto split: if_splits)
  from Cons.IH [OF this] show ?case by simp
qed simp

lemma setModuleRoles_ok:
  "setModuleRoles down m rs db = Ok db' \<Longrightarrow>
     db' = db \<lparr> db_role_modules := filter (\<lambda>x. snd x \<noteq> m) (db_role_modules db) @ map (\<lambda>r. (r, m)) rs \<rparr>"
  by (auto simp: setModuleRoles_def dest: insert_roles_ok split: if_splits)

lemma module_roles_empty: "module_roles m db = [] \<longleftrightarrow> (\<forall>r. (r, m) \<notin> set (db_role_modules db))"
  by (auto simp: module_roles_def filter_empty_conv simp flip: set_empty)

definition role_rows :: "string \<Rightarrow> string list option \<Rightarrow> DB \<Rightarrow> (string \<times> string) list" where
  "role_rows m roles db =
     (case roles of None \<Rightarrow> db_role_modules db
      | Some rs \<Rightarrow> filter (\<lambda>x. snd x \<noteq> m) (db_role_modules db) @ map (\<lambda>r. (r, m)) rs)"

lemma role_rows_None [simp]: "(db :: DB) \<lparr> db_role_modules := role_rows m None db \<rparr> = db"
  by (simp add: role_rows_def)

lemma audited_store_ok:
  "audited_store down now record answer st = Ok (a, st') \<longleftrightarrow>
     \<not> down ''audit_insert'' \<and> a = answer \<and> st' = st \<lparr> ms_db := auditInsert now record (ms_db st) \<rparr>"
  by (auto simp: audited_store_def audit_in_tx_def)

lemma CreateAdminModule_ok:
  assumes "CreateAdminModule down now input actor record st = (Ok a, st')"
  shows "mi_ID input \<notin> row_id ` set (ms_modules st) \<and>
    mo_ID (am_Module a) = mi_ID input \<and> mo_Status (am_Module a) = ''disabled'' \<and> mo_LaunchURL (am_Module a) = mi_LaunchURL input \<and>
    ms_modules st' = ms_modules st @ [\<lparr> mr_Module = am_Module a, mr_SortOrder = 100, mr_Enabled = False, mr_UpdatedBy = actor,
      mr_UpdatedAt = now \<rparr>] \<and>
    ms_db st' = auditInsert now record ((ms_db st) \<lparr> db_role_modules := role_rows (mi_ID input) (Some (mi_AllowedRoles input)) (ms_db st) \<rparr>)"
  using assms
  by (auto simp: CreateAdminModule_def transaction_ok Let_def audited_store_ok role_rows_def elim!: bind_result_OkE
      dest!: setModuleRoles_ok split: if_splits)

lemma CreateAdminModule_error: "CreateAdminModule down now input actor record st = (Err e, st') \<Longrightarrow> st' = st"
  unfolding CreateAdminModule_def by (rule transaction_error)

lemma UpdateAdminModule_ok:
  assumes "UpdateAdminModule down now i patch actor record st = (Ok a, st')"
  shows "(\<exists>row. find (\<lambda>r. row_id r = i) (ms_modules st) = Some row \<and> mo_Status (am_Module a) = or_else (mp_Status patch) (mo_Status (mr_Module row)) \<and>
      mo_LaunchURL (am_Module a) = or_else (mp_LaunchURL patch) (mo_LaunchURL (mr_Module row))) \<and> mo_ID (am_Module a) = i \<and>
    \<not> (mo_Status (am_Module a) = ''active'' \<and> or_else (mp_AllowedRoles patch) (module_roles i (ms_db st)) = []) \<and>
    ms_modules st' = map (\<lambda>r. if row_id r = i
      then r \<lparr> mr_Module := (am_Module a) \<lparr> mo_Icon := mo_Icon (mr_Module r) \<rparr>, mr_Enabled := (mo_Status (am_Module a) \<noteq> ''disabled''),
               mr_UpdatedBy := actor, mr_UpdatedAt := now \<rparr> else r) (ms_modules st) \<and>
    ms_db st' = auditInsert now record ((ms_db st) \<lparr> db_role_modules := role_rows i (mp_AllowedRoles patch) (ms_db st) \<rparr>)"
proof -
  obtain row where f: "find (\<lambda>r. row_id r = i) (ms_modules st) = Some row"
    using assms by (auto simp: UpdateAdminModule_def transaction_ok split: if_splits option.splits)
  have roles: "setModuleRoles down i rs (ms_db st) = Ok db \<Longrightarrow> db = (ms_db st) \<lparr> db_role_modules := role_rows i (Some rs) (ms_db st) \<rparr>" for rs db
    by (auto simp: role_rows_def dest: setModuleRoles_ok)
  show ?thesis
  proof (cases "mp_AllowedRoles patch")
    case None
    show ?thesis using assms f None
      by (auto simp: UpdateAdminModule_def transaction_ok Let_def audited_store_ok elim!: bind_result_OkE split: if_split_asm)
  next
    case (Some rs)
    show ?thesis using assms f Some
      by (auto simp: UpdateAdminModule_def transaction_ok Let_def audited_store_ok elim!: bind_result_OkE dest!: roles split: if_split_asm)
  qed
qed

lemma UpdateAdminModule_error: "UpdateAdminModule down now i patch actor record st = (Err e, st') \<Longrightarrow> st' = st"
  unfolding UpdateAdminModule_def by (rule transaction_error)

lemma moduleMutationError_status: "rp_Status (moduleMutationError e) \<in> {400, 404, 409, 422, 503}"
  by (simp add: moduleMutationError_def module_unavailable_def)

text \<open>The two handlers change something only with their success.\<close>

lemma adminCreateModule_cases:
  assumes "adminCreateModule down ev hx access body st = (r, st')"
  obtains (refused) "st' = st" "rp_Status r \<notin> {200, 201}"
  | (created) input roleIDs launchURL a where "body = Some input" "rolesFromWire (cm_AllowedRoles input) = Some roleIDs"
      "validateLaunchURL (me_parse ev) (cm_LaunchURL input) (moduleAllowedOrigins (me_env ev)) = Inr launchURL"
      "r = reply 201 (moduleForWire a)"
      "CreateAdminModule down (hx_Now hx)
         \<lparr> mi_ID = TrimSpace (cm_ID input), mi_Name = TrimSpace (cm_Name input), mi_Description = TrimSpace (cm_Description input),
           mi_LaunchURL = launchURL, mi_AllowedRoles = roleIDs \<rparr> (moduleActor access)
         (auditRecord hx access ''module.created'' ''module'' (TrimSpace (cm_ID input))
            [(''allowed_roles'', Join (cm_AllowedRoles input) '','')]) st = (Ok a, st')"
proof -
  consider (stay) "st' = st" "rp_Status r \<notin> {200, 201}"
    | (go) input roleIDs launchURL where "body = Some input" "rolesFromWire (cm_AllowedRoles input) = Some roleIDs"
      "validateLaunchURL (me_parse ev) (cm_LaunchURL input) (moduleAllowedOrigins (me_env ev)) = Inr launchURL"
      "moduleID (TrimSpace (cm_ID input))" "TrimSpace (cm_Name input) \<noteq> []"
    using assms by (auto simp: adminCreateModule_def Let_def split: option.splits if_splits sum.splits)
  then show thesis
  proof cases
    case stay
    then show ?thesis by (rule refused)
  next
    case (go input roleIDs launchURL)
    let ?run = "CreateAdminModule down (hx_Now hx)
         \<lparr> mi_ID = TrimSpace (cm_ID input), mi_Name = TrimSpace (cm_Name input), mi_Description = TrimSpace (cm_Description input),
           mi_LaunchURL = launchURL, mi_AllowedRoles = roleIDs \<rparr> (moduleActor access)
         (auditRecord hx access ''module.created'' ''module'' (TrimSpace (cm_ID input))
            [(''allowed_roles'', Join (cm_AllowedRoles input) '','')]) st"
    obtain x st1 where run: "?run = (x, st1)" by fastforce
    show ?thesis
    proof (cases x)
      case (Inl e)
      then show ?thesis using assms go run CreateAdminModule_error moduleMutationError_status [of e]
        by (intro refused) (auto simp: adminCreateModule_def)
    next
      case (Inr a)
      then show ?thesis using assms go run by (intro created [OF go(1-3)]) (auto simp: adminCreateModule_def)
    qed
  qed
qed

lemma patch_of_refused: "patch_of ev input = Inl r \<Longrightarrow> rp_Status r = 400"
  by (auto simp: patch_of_def checked_def bind_result_def Let_def split: option.splits sum.splits if_splits)

lemma adminUpdateModule_cases:
  assumes "adminUpdateModule down ev hx access pathID body st = (r, st')"
  obtains (refused) "st' = st" "rp_Status r \<notin> {200, 201}"
  | (updated) input patch a where "body = Some input" "patch_of ev input = Inr patch" "r = reply 200 (moduleForWire a)"
      "UpdateAdminModule down (hx_Now hx) (TrimSpace pathID) patch (moduleActor access)
         (auditRecord hx access ''module.updated'' ''module'' (TrimSpace pathID) (patch_metadata input patch)) st = (Ok a, st')"
proof -
  consider (stay) "st' = st" "rp_Status r \<notin> {200, 201}"
    | (go) input patch where "body = Some input" "patch_of ev input = Inr patch" "TrimSpace pathID \<noteq> []"
      "\<not> (um_Name input = None \<and> um_Description input = None \<and> um_LaunchURL input = None \<and>
         um_Status input = None \<and> um_AllowedRoles input = None)"
    using assms patch_of_refused [of ev "the body" r]
    by (auto simp: adminUpdateModule_def Let_def split: option.splits if_splits sum.splits)
  then show thesis
  proof cases
    case stay
    then show ?thesis by (rule refused)
  next
    case (go input patch)
    let ?run = "UpdateAdminModule down (hx_Now hx) (TrimSpace pathID) patch (moduleActor access)
         (auditRecord hx access ''module.updated'' ''module'' (TrimSpace pathID) (patch_metadata input patch)) st"
    obtain x st1 where run: "?run = (x, st1)" by fastforce
    have h: "adminUpdateModule down ev hx access pathID body st =
        (case ?run of (Inl e, st') \<Rightarrow> (moduleMutationError e, st') | (Inr updated, st') \<Rightarrow> (reply 200 (moduleForWire updated), st'))"
      using go by (auto simp: adminUpdateModule_def Let_def)
    show ?thesis
    proof (cases x)
      case (Inl e)
      then show ?thesis using assms run UpdateAdminModule_error moduleMutationError_status [of e]
        by (intro refused) (auto simp: h)
    next
      case (Inr a)
      then show ?thesis using assms run by (intro updated [OF go(1,2)]) (auto simp: h)
    qed
  qed
qed

subsection \<open>What holds of the catalogue\<close>

text \<open>Identifiers are unique, the status is of the vocabulary, and an active module has roles that see it.\<close>

definition row_ok :: "DB \<Rightarrow> ModuleRow \<Rightarrow> bool" where
  "row_ok db row \<longleftrightarrow> mo_Status (mr_Module row) \<in> set ModuleStatuses \<and>
     (mo_Status (mr_Module row) = ''active'' \<longrightarrow> module_roles (row_id row) db \<noteq> [])"

definition catalogue_ok :: "ModuleStore \<Rightarrow> bool" where
  "catalogue_ok st \<longleftrightarrow> distinct (map row_id (ms_modules st)) \<and> (\<forall>row \<in> set (ms_modules st). row_ok (ms_db st) row)"

lemma sort_empty: "sort xs = [] \<longleftrightarrow> xs = []"
  by (metis set_empty set_sort)

lemma found: "find P xs = Some x \<Longrightarrow> x \<in> set xs \<and> P x"
  by (auto simp: find_Some_iff)

lemma module_roles_rows:
  "module_roles m (db \<lparr> db_role_modules := role_rows i roles db \<rparr>) =
     (if m = i then (case roles of None \<Rightarrow> module_roles m db | Some rs \<Rightarrow> sort rs) else module_roles m db)"
  by (auto simp: module_roles_def role_rows_def filter_map o_def split: option.splits
      intro!: arg_cong [of _ _ "\<lambda>xs. sort (map fst xs)"] filter_cong)

lemma module_roles_audit [simp]: "module_roles m (auditInsert now record db) = module_roles m db"
  by (simp add: module_roles_def auditInsert_def)

lemma patch_of_ok:
  assumes "patch_of ev input = Inr patch"
  shows "(\<forall>s. mp_Status patch = Some s \<longrightarrow> s \<in> set ModuleStatuses)"
    and "mp_LaunchURL patch = Some u \<Longrightarrow> \<exists>raw. validateLaunchURL (me_parse ev) raw (moduleAllowedOrigins (me_env ev)) = Ok u"
  using assms by (auto simp: patch_of_def checked_def Let_def elim!: bind_result_OkE split: option.splits sum.splits if_splits)

lemma created_ok:
  assumes "catalogue_ok st" "CreateAdminModule down now input actor record st = (Ok a, st')"
  shows "catalogue_ok st'"
proof -
  note c = CreateAdminModule_ok [OF assms(2)]
  have "row_ok (ms_db st') row" if "row \<in> set (ms_modules st)" for row
  proof -
    have "row_id row \<noteq> mi_ID input" "row_ok (ms_db st) row" using assms(1) that c by (force simp: catalogue_ok_def)+
    moreover have "module_roles (row_id row) (ms_db st') = module_roles (row_id row) (ms_db st)"
      using c calculation(1) by (simp add: module_roles_rows)
    ultimately show ?thesis by (simp add: row_ok_def)
  qed
  moreover have "row_ok (ms_db st') \<lparr> mr_Module = am_Module a, mr_SortOrder = 100, mr_Enabled = False, mr_UpdatedBy = actor,
      mr_UpdatedAt = now \<rparr>"
    using c by (simp add: row_ok_def ModuleStatuses_def)
  ultimately show ?thesis using assms(1) c by (auto simp: catalogue_ok_def row_id_def)
qed

lemma updated_ok:
  assumes "catalogue_ok st" "UpdateAdminModule down now i patch actor record st = (Ok a, st')"
    and "\<forall>s. mp_Status patch = Some s \<longrightarrow> s \<in> set ModuleStatuses"
  shows "catalogue_ok st'"
proof -
  note u = UpdateAdminModule_ok [OF assms(2)]
  define f where "f r = (if row_id r = i
      then r \<lparr> mr_Module := (am_Module a) \<lparr> mo_Icon := mo_Icon (mr_Module r) \<rparr>, mr_Enabled := (mo_Status (am_Module a) \<noteq> ''disabled''),
               mr_UpdatedBy := actor, mr_UpdatedAt := now \<rparr> else r)" for r
  have rows: "ms_modules st' = map f (ms_modules st)" using u by (simp add: f_def)
  have db: "ms_db st' = auditInsert now record ((ms_db st) \<lparr> db_role_modules := role_rows i (mp_AllowedRoles patch) (ms_db st) \<rparr>)"
    and named: "mo_ID (am_Module a) = i"
    and guard: "mo_Status (am_Module a) = ''active'' \<Longrightarrow> or_else (mp_AllowedRoles patch) (module_roles i (ms_db st)) \<noteq> []"
    using u by blast+
  have ids: "row_id (f r) = row_id r" for r using u by (simp add: f_def row_id_def)
  have valid: "mo_Status (am_Module a) \<in> set ModuleStatuses"
    using u assms(1,3) by (cases "mp_Status patch") (auto simp: catalogue_ok_def row_ok_def dest!: found)
  have seen: "mo_Status (am_Module a) = ''active'' \<longrightarrow> module_roles i (ms_db st') \<noteq> []"
    using guard by (cases "mp_AllowedRoles patch") (simp_all add: db module_roles_rows sort_empty)
  have "row_ok (ms_db st') (f r)" if "r \<in> set (ms_modules st)" for r
  proof (cases "row_id r = i")
    case True
    then have "mo_Status (mr_Module (f r)) = mo_Status (am_Module a)" "mr_Enabled (f r) \<longleftrightarrow> mo_Status (am_Module a) \<noteq> ''disabled''"
      by (simp_all add: f_def)
    then show ?thesis using True valid seen by (simp add: row_ok_def ids)
  next
    case False
    then have "f r = r" "module_roles (row_id r) (ms_db st') = module_roles (row_id r) (ms_db st)"
      by (simp_all add: f_def db module_roles_rows)
    then show ?thesis using that assms(1) by (simp add: row_ok_def catalogue_ok_def)
  qed
  then show ?thesis using assms(1) by (simp add: catalogue_ok_def rows ids o_def)
qed

lemma create_keeps_ok:
  assumes "catalogue_ok st"
  shows "catalogue_ok (snd (adminCreateModule down ev hx access created st))"
proof -
  obtain r st1 where c: "adminCreateModule down ev hx access created st = (r, st1)" by fastforce
  from c show ?thesis by (cases rule: adminCreateModule_cases) (use c assms created_ok in auto)
qed

lemma update_keeps_ok:
  assumes "catalogue_ok st"
  shows "catalogue_ok (snd (adminUpdateModule down ev hx access pathID patched st))"
proof -
  obtain r st2 where u: "adminUpdateModule down ev hx access pathID patched st = (r, st2)" by fastforce
  from u show ?thesis by (cases rule: adminUpdateModule_cases) (use u assms updated_ok patch_of_ok(1) in auto)
qed

text \<open>
  No module is active with nobody to see it.  Whatever requests reach the two endpoints that write the catalogue and whatever statements
  fail, identifiers stay unique, every status stays in the vocabulary, and an active module has a role assigned, the rule being checked on what
  the patch results in and not on the fields it mentions; and a module that has been patched is listed by the launcher exactly if its status is not disabled.
\<close>

theorem active_modules_have_roles:
  assumes "catalogue_ok st"
  shows "catalogue_ok (snd (adminCreateModule down ev hx access created st)) \<and>
    catalogue_ok (snd (adminUpdateModule down ev hx access pathID patched st)) \<and>
    (rp_Status (fst (adminUpdateModule down ev hx access pathID patched st)) = 200 \<longrightarrow>
       (\<forall>row \<in> set (ms_modules (snd (adminUpdateModule down ev hx access pathID patched st))).
          row_id row = TrimSpace pathID \<longrightarrow> (mr_Enabled row \<longleftrightarrow> mo_Status (mr_Module row) \<noteq> ''disabled'')))"
proof (intro conjI)
  show "catalogue_ok (snd (adminCreateModule down ev hx access created st))" by (rule create_keeps_ok [OF assms])
  show "catalogue_ok (snd (adminUpdateModule down ev hx access pathID patched st))" by (rule update_keeps_ok [OF assms])
  obtain r st2 where u: "adminUpdateModule down ev hx access pathID patched st = (r, st2)" by fastforce
  from u show "rp_Status (fst (adminUpdateModule down ev hx access pathID patched st)) = 200 \<longrightarrow>
       (\<forall>row \<in> set (ms_modules (snd (adminUpdateModule down ev hx access pathID patched st))).
          row_id row = TrimSpace pathID \<longrightarrow> (mr_Enabled row \<longleftrightarrow> mo_Status (mr_Module row) \<noteq> ''disabled''))"
  proof (cases rule: adminUpdateModule_cases)
    case (updated input patch a)
    then have "ms_modules st2 = map (\<lambda>r. if row_id r = TrimSpace pathID
      then r \<lparr> mr_Module := (am_Module a) \<lparr> mo_Icon := mo_Icon (mr_Module r) \<rparr>, mr_Enabled := (mo_Status (am_Module a) \<noteq> ''disabled''),
               mr_UpdatedBy := moduleActor access, mr_UpdatedAt := hx_Now hx \<rparr> else r) (ms_modules st)"
      using UpdateAdminModule_ok [OF updated(4)] by blast
    then show ?thesis by (auto simp: u)
  qed (use u in auto)
qed

text \<open>
  C10.  Module administration fails closed: it either answers 201 or 200 and leaves exactly one new audit record, naming the action,
  the caller and the module, or answers an error and leaves everything as it was, the role assignments included.
\<close>

theorem module_changes_audited:
  "(case adminCreateModule down ev hx access created st of (r, st') \<Rightarrow>
      if rp_Status r = 201
      then \<exists>a m. db_audit (ms_db st') = db_audit (ms_db st) @ [a] \<and> au_Action a = ''module.created'' \<and>
        au_GlobalUserID a = me_ID access \<and> rp_Body r = Some m \<and> au_ResourceID a = mo_ID (am_Module m)
      else st' = st) \<and>
   (case adminUpdateModule down ev hx access pathID patched st of (r, st') \<Rightarrow>
      if rp_Status r = 200
      then \<exists>a m. db_audit (ms_db st') = db_audit (ms_db st) @ [a] \<and> au_Action a = ''module.updated'' \<and>
        au_GlobalUserID a = me_ID access \<and> rp_Body r = Some m \<and> au_ResourceID a = mo_ID (am_Module m)
      else st' = st)"
proof
  obtain r st1 where c: "adminCreateModule down ev hx access created st = (r, st1)" by fastforce
  from c show "case adminCreateModule down ev hx access created st of (r, st') \<Rightarrow>
      if rp_Status r = 201
      then \<exists>a m. db_audit (ms_db st') = db_audit (ms_db st) @ [a] \<and> au_Action a = ''module.created'' \<and>
        au_GlobalUserID a = me_ID access \<and> rp_Body r = Some m \<and> au_ResourceID a = mo_ID (am_Module m)
      else st' = st"
    by (cases rule: adminCreateModule_cases)
      (use c in \<open>auto simp: auditInsert_def auditRecord_def moduleForWire_def dest!: CreateAdminModule_ok\<close>)
  obtain r st2 where u: "adminUpdateModule down ev hx access pathID patched st = (r, st2)" by fastforce
  from u show "case adminUpdateModule down ev hx access pathID patched st of (r, st') \<Rightarrow>
      if rp_Status r = 200
      then \<exists>a m. db_audit (ms_db st') = db_audit (ms_db st) @ [a] \<and> au_Action a = ''module.updated'' \<and>
        au_GlobalUserID a = me_ID access \<and> rp_Body r = Some m \<and> au_ResourceID a = mo_ID (am_Module m)
      else st' = st"
    by (cases rule: adminUpdateModule_cases)
      (use u in \<open>auto simp: auditInsert_def auditRecord_def moduleForWire_def dest!: UpdateAdminModule_ok\<close>)
qed

lemma validateLaunchURL_ok:
  "validateLaunchURL parse raw origins = Ok t \<Longrightarrow> t = [] \<or> (\<exists>u. parse (TrimSpace raw) = Some u \<and> lu_Scheme u = ''https'' \<and>
     lu_Host u \<noteq> [] \<and> origin_of u \<in> set origins \<and> t = lu_String u)"
  by (auto simp: validateLaunchURL_def Let_def split: if_splits option.splits)

definition launchable :: "ModuleEnv \<Rightarrow> string \<Rightarrow> bool" where
  "launchable ev t \<longleftrightarrow> t = [] \<or> (\<exists>raw u. me_parse ev raw = Some u \<and> lu_Scheme u = ''https'' \<and> lu_Host u \<noteq> [] \<and>
     origin_of u \<in> set (moduleAllowedOrigins (me_env ev)) \<and> t = lu_String u)"

lemma validated_launchable:
  "validateLaunchURL (me_parse ev) raw (moduleAllowedOrigins (me_env ev)) = Ok t \<Longrightarrow> launchable ev t"
  by (auto simp: launchable_def dest!: validateLaunchURL_ok)

text \<open>
  C12.  What the launcher may be pointed at: a launch URL that an administration request puts into the catalogue is empty or the
  rendering of an https URL whose origin is on the allowlist of that moment; everything else in the column was there before.
\<close>

theorem stored_launch_urls_allowed:
  "\<forall>row \<in> set (ms_modules (snd (adminCreateModule down ev hx access created st))) \<union>
      set (ms_modules (snd (adminUpdateModule down ev hx access pathID patched st))).
     launchable ev (mo_LaunchURL (mr_Module row)) \<or> (\<exists>old \<in> set (ms_modules st). mo_LaunchURL (mr_Module row) = mo_LaunchURL (mr_Module old))"
proof -
  obtain r st1 where c: "adminCreateModule down ev hx access created st = (r, st1)" by fastforce
  from c have "\<forall>row \<in> set (ms_modules st1). launchable ev (mo_LaunchURL (mr_Module row)) \<or>
      (\<exists>old \<in> set (ms_modules st). mo_LaunchURL (mr_Module row) = mo_LaunchURL (mr_Module old))"
    by (cases rule: adminCreateModule_cases) (use validated_launchable in \<open>auto dest!: CreateAdminModule_ok\<close>)
  moreover obtain q st2 where u: "adminUpdateModule down ev hx access pathID patched st = (q, st2)" by fastforce
  from u have "\<forall>row \<in> set (ms_modules st2). launchable ev (mo_LaunchURL (mr_Module row)) \<or>
      (\<exists>old \<in> set (ms_modules st). mo_LaunchURL (mr_Module row) = mo_LaunchURL (mr_Module old))"
  proof (cases rule: adminUpdateModule_cases)
    case (updated input patch a)
    note k = UpdateAdminModule_ok [OF updated(4)]
    define f where "f r = (if row_id r = TrimSpace pathID
      then r \<lparr> mr_Module := (am_Module a) \<lparr> mo_Icon := mo_Icon (mr_Module r) \<rparr>, mr_Enabled := (mo_Status (am_Module a) \<noteq> ''disabled''),
               mr_UpdatedBy := moduleActor access, mr_UpdatedAt := hx_Now hx \<rparr> else r)" for r
    have rows: "ms_modules st2 = map f (ms_modules st)" using k by (simp add: f_def)
    have url: "mo_LaunchURL (mr_Module (f r)) = (if row_id r = TrimSpace pathID then mo_LaunchURL (am_Module a) else mo_LaunchURL (mr_Module r))" for r
      by (simp add: f_def)
    obtain row where row: "row \<in> set (ms_modules st)" "mo_LaunchURL (am_Module a) = or_else (mp_LaunchURL patch) (mo_LaunchURL (mr_Module row))"
      using k found by metis
    have "launchable ev (mo_LaunchURL (am_Module a)) \<or> mo_LaunchURL (am_Module a) = mo_LaunchURL (mr_Module row)"
      using row(2) patch_of_ok(2) [OF updated(2)] validated_launchable by (cases "mp_LaunchURL patch") auto
    then show ?thesis using row(1) by (auto simp: rows url)
  qed auto
  ultimately show ?thesis using c u by auto
qed

lemma resolved_modules:
  assumes "ResolveAccess down groups kind db = Ok profile"
  shows "set (ap_Modules profile) = {m. \<exists>g role. g \<in> set groups \<and> (g, ro_ID role) \<in> set (db_group_roles db) \<and>
    role \<in> set (db_roles db) \<and> ro_Enabled role \<and> ro_Kind role = kind \<and> (ro_ID role, m) \<in> set (db_role_modules db)}"
proof (cases "groups = []")
  case True
  then show ?thesis using assms by (auto simp: ResolveAccess_def)
next
  case False
  obtain mods where "ap_Modules profile = sort mods"
    "mods = remdups [m. r \<leftarrow> mapped_roles db groups kind, (rid, m) \<leftarrow> db_role_modules db, rid = ro_ID r]"
    using assms False by (auto simp: ResolveAccess_def statement_def elim!: bind_result_OkE split: if_splits)
  then have "set (ap_Modules profile) = {m. \<exists>r \<in> set (mapped_roles db groups kind). (ro_ID r, m) \<in> set (db_role_modules db)}"
    by (auto split: prod.splits)
  then show ?thesis by (auto simp: mapped_roles_def split: prod.splits)
qed

lemma override_id [simp]: "mo_ID (applyModuleLaunchOverride env item) = mo_ID item"
  by (simp add: applyModuleLaunchOverride_def Let_def)

lemma kept_ids:
  assumes "distinct (map row_id rows)"
  shows "map row_id (filter Q rows) = filter (\<lambda>i. i \<in> set (map row_id (filter Q rows))) (map row_id rows)"
proof -
  have "Q r \<longleftrightarrow> row_id r \<in> row_id ` {x \<in> set rows. Q x}" if "r \<in> set rows" for r
    using that assms by (auto simp: distinct_map dest: inj_onD)
  then show ?thesis by (auto simp: filter_map o_def intro!: arg_cong [of _ _ "map row_id"] filter_cong)
qed

text \<open>
  C13.  What a user sees in the launcher, from the groups of the token to the answer: exactly the modules whose flag is set and that one
  of the enabled human roles of one of the user's groups is assigned to, in the catalogue's order.
\<close>

theorem launcher_exact:
  assumes "catalogue_ok st" "resolveAccess down info uid (ms_db st) = Ok access" "\<not> down ''module_list''"
  shows "\<exists>items. launcher_modules down ev access st = reply 200 items \<and>
    map mo_ID items = filter (\<lambda>i. i \<in> set (map mo_ID items)) (map row_id (catalogue_order (ms_modules st))) \<and>
    set (map mo_ID items) = {i. \<exists>row \<in> set (ms_modules st). row_id row = i \<and> mr_Enabled row \<and>
      (\<exists>g role. g \<in> set (unique (ui_Groups info)) \<and> (g, ro_ID role) \<in> set (db_group_roles (ms_db st)) \<and> role \<in> set (db_roles (ms_db st)) \<and>
         ro_Enabled role \<and> ro_Kind role = ''human'' \<and> (ro_ID role, i) \<in> set (db_role_modules (ms_db st)))}"
proof -
  let ?allowed = "\<lambda>i. i \<in> set (me_Modules access)"
  define Q where "Q = (\<lambda>r. mr_Enabled r \<and> ?allowed (row_id r))"
  define items where "items = map (applyModuleLaunchOverride (me_env ev))
    (filter (\<lambda>m. ?allowed (mo_ID m)) (map mr_Module (catalogue_order (filter mr_Enabled (ms_modules st)))))"
  obtain profile where profile: "ResolveAccess down (unique (ui_Groups info)) ''human'' (ms_db st) = Ok profile"
    "me_Modules access = ap_Modules profile"
    using assms(2) by (auto simp: resolveAccess_def elim!: bind_result_OkE)
  have run: "launcher_modules down ev access st = reply 200 items"
    using assms(3) by (simp add: launcher_modules_def ListModules_def items_def)
  have ids: "map mo_ID items = map row_id (filter Q (catalogue_order (ms_modules st)))"
    by (simp add: items_def catalogue_order_def filter_sort [symmetric] filter_map o_def row_id_def [symmetric] Q_def conj_commute)
  have "distinct (map row_id (catalogue_order (ms_modules st)))"
    using assms(1) by (simp add: catalogue_ok_def catalogue_order_def distinct_map)
  from kept_ids [OF this, of Q] have order: "map mo_ID items = filter (\<lambda>i. i \<in> set (map mo_ID items)) (map row_id (catalogue_order (ms_modules st)))"
    unfolding ids .
  have "set (map mo_ID items) = {row_id r | r. r \<in> set (ms_modules st) \<and> mr_Enabled r \<and> ?allowed (row_id r)}"
    unfolding ids by (auto simp: catalogue_order_def Q_def)
  also have "\<dots> = {i. \<exists>row \<in> set (ms_modules st). row_id row = i \<and> mr_Enabled row \<and> ?allowed i}"
    by auto
  finally have shown: "set (map mo_ID items) = {i. \<exists>row \<in> set (ms_modules st). row_id row = i \<and>
    mr_Enabled row \<and> ?allowed i}" .
  have "?allowed i \<longleftrightarrow> (\<exists>g role. g \<in> set (unique (ui_Groups info)) \<and> (g, ro_ID role) \<in> set (db_group_roles (ms_db st)) \<and>
      role \<in> set (db_roles (ms_db st)) \<and> ro_Enabled role \<and> ro_Kind role = ''human'' \<and> (ro_ID role, i) \<in> set (db_role_modules (ms_db st)))" for i
    unfolding profile(2) resolved_modules [OF profile(1)] by simp
  note visible = this
  show ?thesis
    by (rule exI [of _ items], rule conjI [OF run], rule conjI [OF order]) (unfold shown visible, rule refl)
qed

subsection \<open>Runs on concrete inputs\<close>

definition demo_env :: ModuleEnv where
  "demo_env = \<lparr> me_env = \<lambda>name. if name = ''MODULE_ALLOWED_ORIGINS'' then '' https://hub.example/ '' else [],
     me_parse = \<lambda>raw. if raw = ''https://hub.example/wiki'' then Some \<lparr> lu_Scheme = ''https'', lu_Host = ''hub.example'', lu_String = raw \<rparr> else None \<rparr>"

definition wiki_row :: ModuleRow where
  "wiki_row = \<lparr> mr_Module = \<lparr> mo_ID = ''wiki'', mo_Name = ''Wiki'', mo_Description = [], mo_Status = ''disabled'', mo_LaunchURL = [], mo_Icon = [] \<rparr>,
     mr_SortOrder = 50, mr_Enabled = False, mr_UpdatedBy = [], mr_UpdatedAt = 0 \<rparr>"

definition demo_store :: ModuleStore where
  "demo_store = \<lparr> ms_db = sample_db, ms_modules = [wiki_row] \<rparr>"

definition catalogue_admin :: meResponse where
  "catalogue_admin = \<lparr> me_ID = ''USR-000009'', me_Subject = ''s9'', me_Email = [], me_Name = [], me_Username = [],
     me_Groups = [], me_Roles = [], me_Permissions = [], me_Modules = [] \<rparr>"

definition activate :: "string list option \<Rightarrow> adminUpdateModuleRequest" where
  "activate roles = \<lparr> um_Name = None, um_Description = None, um_LaunchURL = Some ''https://hub.example/wiki'',
     um_Status = Some '' Active'', um_AllowedRoles = roles \<rparr>"

definition catalogue_hx :: HttpContext where
  "catalogue_hx = \<lparr> hx_RequestID = ''r'', hx_SourceIP = [], hx_Now = 7 \<rparr>"

definition activated :: "AdminModule Reply \<times> ModuleStore" where
  "activated = adminUpdateModule (\<lambda>_. False) demo_env catalogue_hx catalogue_admin ''wiki'' (Some (activate (Some [''customer'']))) demo_store"

lemma activated_200: "rp_Status (fst activated) = 200" "rp_Status (fst (adminUpdateModule (\<lambda>_. False) demo_env catalogue_hx
    catalogue_admin ''wiki'' (Some (activate (Some []))) demo_store)) = 422"
  by code_simp+

lemma demo_store_ok: "catalogue_ok demo_store"
  by (simp add: catalogue_ok_def demo_store_def row_ok_def wiki_row_def ModuleStatuses_def)

theorem active_modules_have_roles_witness: "catalogue_ok (snd activated) \<and> map row_id (ms_modules (snd activated)) = [''wiki'']"
proof
  show "catalogue_ok (snd activated)"
    unfolding activated_def by (rule active_modules_have_roles [OF demo_store_ok, THEN conjunct2, THEN conjunct1])
  show "map row_id (ms_modules (snd activated)) = [''wiki'']" by code_simp
qed

theorem stored_launch_urls_allowed_witness:
  "map (\<lambda>r. mo_LaunchURL (mr_Module r)) (ms_modules (snd activated)) = [''https://hub.example/wiki''] \<and>
   (\<exists>u. me_parse demo_env ''https://hub.example/wiki'' = Some u \<and> launchable demo_env (lu_String u))"
proof
  show urls: "map (\<lambda>r. mo_LaunchURL (mr_Module r)) (ms_modules (snd activated)) = [''https://hub.example/wiki'']" by code_simp
  obtain row where row: "ms_modules (snd activated) = [row]" "mo_LaunchURL (mr_Module row) = ''https://hub.example/wiki''"
    using urls by (auto simp: Cons_eq_map_conv map_eq_Cons_conv)
  have old: "old \<in> set (ms_modules demo_store) \<Longrightarrow> mo_LaunchURL (mr_Module old) = []" for old
    by (simp add: demo_store_def wiki_row_def)
  have "launchable demo_env ''https://hub.example/wiki''"
    using stored_launch_urls_allowed [of "\<lambda>_. False" demo_env catalogue_hx catalogue_admin None demo_store "''wiki''"
        "Some (activate (Some [''customer'']))"] row old unfolding activated_def [symmetric] by auto
  then show "\<exists>u. me_parse demo_env ''https://hub.example/wiki'' = Some u \<and> launchable demo_env (lu_String u)"
    by (simp add: demo_env_def)
qed

definition customer_info :: userInfo where
  "customer_info = \<lparr> ui_Sub = ''s1'', ui_Email = [], ui_Name = [], ui_PreferredUsername = [], ui_Groups = [''BSYSTEM-Customers''] \<rparr>"

lemma store_up: "\<exists>access. resolveAccess (\<lambda>_. False) info uid db = Ok access"
  by (simp add: resolveAccess_def ResolveAccess_def statement_def)

theorem launcher_exact_witness:
  "\<exists>access items. resolveAccess (\<lambda>_. False) customer_info ''USR-000001'' (ms_db (snd activated)) = Ok access \<and>
     launcher_modules (\<lambda>_. False) demo_env access (snd activated) = reply 200 items \<and> map mo_ID items = [''wiki'']"
proof -
  obtain access where a: "resolveAccess (\<lambda>_. False) customer_info ''USR-000001'' (ms_db (snd activated)) = Ok access"
    using store_up by blast
  define row where "row = hd (ms_modules (snd activated))"
  define role where "role = hd (db_roles (ms_db (snd activated)))"
  have ok: "catalogue_ok (snd activated)" by code_simp
  have ids: "map row_id (catalogue_order (ms_modules (snd activated))) = [''wiki'']" by code_simp
  have facts: "row \<in> set (ms_modules (snd activated))" "row_id row = ''wiki''" "mr_Enabled row"
    "''BSYSTEM-Customers'' \<in> set (unique (ui_Groups customer_info))"
    "(''BSYSTEM-Customers'', ro_ID role) \<in> set (db_group_roles (ms_db (snd activated)))" "role \<in> set (db_roles (ms_db (snd activated)))"
    "ro_Enabled role" "ro_Kind role = ''human''" "(ro_ID role, ''wiki'') \<in> set (db_role_modules (ms_db (snd activated)))"
    unfolding row_def role_def by code_simp+
  obtain items where run: "launcher_modules (\<lambda>_. False) demo_env access (snd activated) = reply 200 items"
    and order: "map mo_ID items = filter (\<lambda>i. i \<in> set (map mo_ID items)) [''wiki'']"
    and shown: "''wiki'' \<in> set (map mo_ID items)"
    using launcher_exact [OF ok a, of demo_env] facts unfolding ids by blast
  have "filter (\<lambda>i. i \<in> set (map mo_ID items)) [''wiki''] = [''wiki'']" using shown by simp
  then have "map mo_ID items = [''wiki'']" by (rule trans [OF order])
  then show ?thesis by (intro exI [of _ access] exI [of _ items] conjI a run)
qed

end
