(* ===== verification/Migrations.thy ===== *)
theory Migrations
  imports ModuleCatalogue HttpClient
begin

section \<open>Migrations (internal/platformdb/db.go, internal/platformdb/migrations)\<close>

text \<open>
  What a start does to the database: the pool's limits, the lock, the replay of every migration file in the order of the names, and the ledger
  schema\_migrations with the checksum that was first applied and the one this binary carries.  The files are an argument, a list of names and
  bodies; exec is PostgreSQL on one body, which runs in one implicit transaction and answers None for an error, and digest is the hexadecimal SHA-256.
  The second half translates the statements of the files that touch modules and role\_modules, as they run at every start; the descriptions they write are the
  argument descr, and the roles they name are seeded by the same files.  MAX and ORDER BY compare bytes.
\<close>

subsection \<open>The pool\<close>

definition maxPoolConns :: int where "maxPoolConns = 500"

definition intFromEnv :: "(string \<Rightarrow> string) \<Rightarrow> string \<Rightarrow> int \<Rightarrow> int" where
  "intFromEnv env name fallback =
     (let raw = TrimSpace (env name)
      in if raw = [] then fallback
         else case ParseInt raw of
           None \<Rightarrow> fallback
         | Some v \<Rightarrow> if v \<le> 0 \<or> maxPoolConns < v then fallback else v)"

record PoolConfig =
  pc_MaxConns :: int
  pc_MinConns :: int
  pc_MaxConnIdleTime :: int
  pc_MaxConnLifetime :: int
  pc_ConnectTimeout :: int

definition minute :: int where "minute = 60 * second"

definition applyPoolLimits :: "(string \<Rightarrow> string) \<Rightarrow> int \<Rightarrow> PoolConfig \<Rightarrow> PoolConfig" where
  "applyPoolLimits env numCPU config =
     \<lparr> pc_MaxConns = (if pc_MaxConns config \<le> 0 \<or> pc_MaxConns config = max 4 numCPU
                      then intFromEnv env ''DATABASE_MAX_CONNS'' 20 else pc_MaxConns config),
       pc_MinConns = (if pc_MinConns config \<le> 0 then intFromEnv env ''DATABASE_MIN_CONNS'' 2 else pc_MinConns config),
       pc_MaxConnIdleTime = (if pc_MaxConnIdleTime config \<le> 0 then 5 * minute else pc_MaxConnIdleTime config),
       pc_MaxConnLifetime = (if pc_MaxConnLifetime config \<le> 0 then 30 * minute else pc_MaxConnLifetime config),
       pc_ConnectTimeout = (if pc_ConnectTimeout config \<le> 0 then 5 * second else pc_ConnectTimeout config) \<rparr>"

lemma pool_bounded:
  assumes "pc_MaxConns config \<le> 0"
  shows "1 \<le> pc_MaxConns (applyPoolLimits env n config) \<and> pc_MaxConns (applyPoolLimits env n config) \<le> 500"
  using assms by (auto simp: applyPoolLimits_def intFromEnv_def maxPoolConns_def Let_def split: option.splits)

subsection \<open>The replay and its ledger\<close>

record LedgerRow =
  lr_Name :: string
  lr_Checksum :: string
  lr_Source :: "string option"
  lr_FirstAppliedAt :: int
  lr_LastAppliedAt :: int

record 's Schema =
  sc_ledger :: "LedgerRow list"
  sc_data :: 's

datatype MigrateError =
  URLRequired | URLInvalid | PoolFailed | PingFailed | AcquireFailed | LockFailed | HistoryFailed | UpgradeFailed
  | ApplyFailed string | RecordFailed string

text \<open>schemaHistoryUpgradeDDL, and the INSERT ... ON CONFLICT that records one file.\<close>

definition upgrade_ledger :: "LedgerRow list \<Rightarrow> LedgerRow list" where
  "upgrade_ledger = map (\<lambda>r. if lr_Source r = None then r \<lparr> lr_Source := Some (lr_Checksum r) \<rparr> else r)"

definition record_file :: "int \<Rightarrow> string \<Rightarrow> string \<Rightarrow> LedgerRow list \<Rightarrow> LedgerRow list" where
  "record_file now name cks ledger =
     (if name \<in> lr_Name ` set ledger
      then map (\<lambda>r. if lr_Name r = name then r \<lparr> lr_Source := Some cks, lr_LastAppliedAt := now \<rparr> else r) ledger
      else ledger @ [\<lparr> lr_Name = name, lr_Checksum = cks, lr_Source = Some cks, lr_FirstAppliedAt = now, lr_LastAppliedAt = now \<rparr>])"

fun apply_files ::
  "down \<Rightarrow> (string \<Rightarrow> 's \<Rightarrow> 's option) \<Rightarrow> (string \<Rightarrow> string) \<Rightarrow> int \<Rightarrow> (string \<times> string) list \<Rightarrow> 's Schema
   \<Rightarrow> MigrateError option \<times> 's Schema" where
  "apply_files down exec digest now [] st = (None, st)"
| "apply_files down exec digest now ((name, body) # files) st =
     (case exec body (sc_data st) of
        None \<Rightarrow> (Some (ApplyFailed name), st)
      | Some d \<Rightarrow>
          (let st1 = st \<lparr> sc_data := d \<rparr>
           in if down ''ledger_upsert'' then (Some (RecordFailed name), st1)
              else apply_files down exec digest now files
                     (st1 \<lparr> sc_ledger := record_file now name (digest body) (sc_ledger st1) \<rparr>)))"

definition migrate ::
  "down \<Rightarrow> (string \<Rightarrow> 's \<Rightarrow> 's option) \<Rightarrow> (string \<Rightarrow> string) \<Rightarrow> int \<Rightarrow> (string \<times> string) list \<Rightarrow> 's Schema
   \<Rightarrow> MigrateError option \<times> 's Schema" where
  "migrate down exec digest now files st =
     (if down ''schema_history'' then (Some HistoryFailed, st)
      else if down ''schema_upgrade'' then (Some UpgradeFailed, st)
      else apply_files down exec digest now (sort_key fst files) (st \<lparr> sc_ledger := upgrade_ledger (sc_ledger st) \<rparr>))"

text \<open>The session lock makes the migrations of one instance atomic against the others'; it is released whatever they answer.\<close>

definition withMigrationLock :: "down \<Rightarrow> ('s \<Rightarrow> MigrateError option \<times> 's) \<Rightarrow> 's \<Rightarrow> MigrateError option \<times> 's" where
  "withMigrationLock down body st =
     (if down ''acquire'' then (Some AcquireFailed, st)
      else if down ''migration_lock'' then (Some LockFailed, st)
      else body st)"

definition Migrate ::
  "down \<Rightarrow> (string \<Rightarrow> 's \<Rightarrow> 's option) \<Rightarrow> (string \<Rightarrow> string) \<Rightarrow> int \<Rightarrow> (string \<times> string) list \<Rightarrow> 's Schema
   \<Rightarrow> MigrateError option \<times> 's Schema" where
  "Migrate down exec digest now files = withMigrationLock down (migrate down exec digest now files)"

text \<open>Open: the connection string is parsed by pgxpool.\<close>

definition open_database ::
  "down \<Rightarrow> (string \<Rightarrow> PoolConfig option) \<Rightarrow> (string \<Rightarrow> string) \<Rightarrow> int \<Rightarrow> (string \<Rightarrow> 's \<Rightarrow> 's option) \<Rightarrow> (string \<Rightarrow> string)
   \<Rightarrow> int \<Rightarrow> (string \<times> string) list \<Rightarrow> string \<Rightarrow> 's Schema \<Rightarrow> (MigrateError + PoolConfig) \<times> 's Schema" where
  "open_database down parse env numCPU exec digest now files url st =
     (if url = [] then (Err URLRequired, st)
      else case parse url of
        None \<Rightarrow> (Err URLInvalid, st)
      | Some config \<Rightarrow>
          if down ''pool'' then (Err PoolFailed, st)
          else if down ''ping'' then (Err PingFailed, st)
          else (case Migrate down exec digest now files st of
                  (Some e, st') \<Rightarrow> (Err e, st')
                | (None, st') \<Rightarrow> (Ok (applyPoolLimits env numCPU config), st')))"

record SchemaState =
  ss_Level :: string
  ss_Applied :: nat
  ss_Drifted :: "string list"

definition drifted :: "LedgerRow \<Rightarrow> bool" where
  "drifted r \<longleftrightarrow> (case lr_Source r of None \<Rightarrow> False | Some cks \<Rightarrow> cks \<noteq> lr_Checksum r)"

definition SchemaLevel :: "down \<Rightarrow> 's Schema \<Rightarrow> DBError + SchemaState" where
  "SchemaLevel down st =
     bind_result (statement down ''schema_level''
       (if sc_ledger st = [] then [] else last (sort (map lr_Name (sc_ledger st))), length (sc_ledger st))) (\<lambda>(level, n).
     bind_result (statement down ''schema_drift'' (sort (map lr_Name (filter drifted (sc_ledger st))))) (\<lambda>names.
     Ok \<lparr> ss_Level = level, ss_Applied = n, ss_Drifted = names \<rparr>))"

definition EmbeddedSchemaLevel :: "(string \<times> string) list \<Rightarrow> SchemaState" where
  "EmbeddedSchemaLevel files =
     (if files = [] then \<lparr> ss_Level = [], ss_Applied = 0, ss_Drifted = [] \<rparr>
      else \<lparr> ss_Level = last (sort (map fst files)), ss_Applied = length files, ss_Drifted = [] \<rparr>)"

subsection \<open>What the ledger remembers\<close>

text \<open>The checksums that were first applied.\<close>

definition first_applied :: "'s Schema \<Rightarrow> (string \<times> string) list" where
  "first_applied st = map (\<lambda>r. (lr_Name r, lr_Checksum r)) (sc_ledger st)"

definition ledger_ok :: "LedgerRow list \<Rightarrow> bool" where
  "ledger_ok ledger \<longleftrightarrow> distinct (map lr_Name ledger)"

lemma names_upgrade [simp]: "map lr_Name (upgrade_ledger ledger) = map lr_Name ledger"
  "map (\<lambda>r. (lr_Name r, lr_Checksum r)) (upgrade_ledger ledger) = map (\<lambda>r. (lr_Name r, lr_Checksum r)) ledger"
  by (simp_all add: upgrade_ledger_def o_def)

lemma record_file_names:
  "map lr_Name (record_file now name cks ledger) = map lr_Name ledger @ (if name \<in> lr_Name ` set ledger then [] else [name])"
  "map (\<lambda>r. (lr_Name r, lr_Checksum r)) (record_file now name cks ledger) =
     map (\<lambda>r. (lr_Name r, lr_Checksum r)) ledger @ (if name \<in> lr_Name ` set ledger then [] else [(name, cks)])"
  by (simp_all add: record_file_def)

lemma record_file_keeps:
  "ledger_ok ledger \<Longrightarrow> ledger_ok (record_file now name cks ledger)"
  "set (map (\<lambda>r. (lr_Name r, lr_Checksum r)) ledger) \<subseteq> set (map (\<lambda>r. (lr_Name r, lr_Checksum r)) (record_file now name cks ledger))"
  unfolding ledger_ok_def record_file_names by auto

text \<open>After the file has been recorded its row carries the new source checksum, and the other rows are as they were.\<close>

definition source_is :: "LedgerRow list \<Rightarrow> string \<Rightarrow> string \<Rightarrow> bool" where
  "source_is ledger name cks \<longleftrightarrow> (\<exists>r \<in> set ledger. lr_Name r = name) \<and> (\<forall>r \<in> set ledger. lr_Name r = name \<longrightarrow> lr_Source r = Some cks)"

lemma record_file_source: "source_is (record_file now name cks ledger) name cks"
proof -
  have "name \<in> set (map lr_Name (record_file now name cks ledger))" unfolding record_file_names by simp
  moreover have "\<forall>r \<in> set (record_file now name cks ledger). lr_Name r = name \<longrightarrow> lr_Source r = Some cks"
    by (auto simp: record_file_def)
  ultimately show ?thesis by (auto simp: source_is_def)
qed

lemma record_file_others: "source_is ledger n s \<Longrightarrow> n \<noteq> name \<Longrightarrow> source_is (record_file now name cks ledger) n s"
  by (force simp: source_is_def record_file_def)

lemma apply_files_keeps:
  assumes "apply_files down exec digest now files st = (r, st')" "ledger_ok (sc_ledger st)"
  shows "ledger_ok (sc_ledger st') \<and> set (first_applied st) \<subseteq> set (first_applied st')"
  using assms
proof (induction files arbitrary: st)
  case (Cons f files)
  obtain name body where f: "f = (name, body)" by (cases f)
  show ?case
  proof (cases "exec body (sc_data st)")
    case None
    then show ?thesis using Cons.prems f by auto
  next
    case (Some d)
    define st1 where "st1 = st \<lparr> sc_data := d, sc_ledger := record_file now name (digest body) (sc_ledger st) \<rparr>"
    show ?thesis
    proof (cases "down ''ledger_upsert''")
      case True
      then show ?thesis using Cons.prems f Some by (auto simp: first_applied_def)
    next
      case False
      then have run: "apply_files down exec digest now files st1 = (r, st')"
        using Cons.prems(1) f Some by (simp add: st1_def Let_def)
      have "ledger_ok (sc_ledger st1)" "set (first_applied st) \<subseteq> set (first_applied st1)"
        using record_file_keeps(1) [OF Cons.prems(2)] record_file_keeps(2) [of "sc_ledger st"]
        by (simp_all add: st1_def first_applied_def)
      then show ?thesis using Cons.IH [OF run] by blast
    qed
  qed
qed simp

lemma apply_files_others:
  assumes "apply_files down exec digest now files st = (None, st')" "name \<notin> fst ` set files" "source_is (sc_ledger st) name cks"
  shows "source_is (sc_ledger st') name cks"
  using assms
  by (induction files arbitrary: st) (auto simp: Let_def record_file_others split: option.splits if_splits)

lemma apply_files_source:
  assumes "apply_files down exec digest now files st = (None, st')" "distinct (map fst files)" "(name, body) \<in> set files"
  shows "source_is (sc_ledger st') name (digest body)"
  using assms
proof (induction files arbitrary: st)
  case (Cons f files)
  obtain n b where f: "f = (n, b)" by (cases f)
  then obtain st1 where run: "apply_files down exec digest now files st1 = (None, st')"
    and rec: "source_is (sc_ledger st1) n (digest b)"
    using Cons.prems(1) by (auto simp: Let_def record_file_source split: option.splits if_splits)
  show ?case
  proof (cases "(name, body) = f")
    case True
    then show ?thesis using apply_files_others [OF run _ rec] Cons.prems(2) f by (auto simp: image_iff)
  next
    case False
    then show ?thesis using Cons.IH [OF run] Cons.prems(2,3) by auto
  qed
qed simp

lemma Migrate_keeps:
  assumes "Migrate down exec digest now files st = (r, st')" "ledger_ok (sc_ledger st)"
  shows "ledger_ok (sc_ledger st') \<and> set (first_applied st) \<subseteq> set (first_applied st')"
proof -
  have "ledger_ok (sc_ledger st') \<and> set (first_applied (st \<lparr> sc_ledger := upgrade_ledger (sc_ledger st) \<rparr>)) \<subseteq> set (first_applied st')"
    if "apply_files down exec digest now (sort_key fst files) (st \<lparr> sc_ledger := upgrade_ledger (sc_ledger st) \<rparr>) = (r, st')"
    using apply_files_keeps [OF that] assms(2) by (simp add: ledger_ok_def)
  then show ?thesis using assms
    by (auto simp: Migrate_def withMigrationLock_def migrate_def first_applied_def split: if_splits)
qed

lemma Migrate_success:
  "Migrate down exec digest now files st = (None, st') \<Longrightarrow>
     apply_files down exec digest now (sort_key fst files) (st \<lparr> sc_ledger := upgrade_ledger (sc_ledger st) \<rparr>) = (None, st')"
  by (simp add: Migrate_def withMigrationLock_def migrate_def split: if_splits)

text \<open>A start of some binary: what fails, the clock, and the files it carries.\<close>

definition start_up ::
  "(string \<Rightarrow> 's \<Rightarrow> 's option) \<Rightarrow> (string \<Rightarrow> string) \<Rightarrow> down \<times> int \<times> (string \<times> string) list \<Rightarrow> 's Schema \<Rightarrow> 's Schema" where
  "start_up exec digest run st = (case run of (down, now, files) \<Rightarrow> snd (Migrate down exec digest now files st))"

lemma starts_keep:
  "ledger_ok (sc_ledger st) \<Longrightarrow> ledger_ok (sc_ledger (fold (start_up exec digest) runs st)) \<and>
     set (first_applied st) \<subseteq> set (first_applied (fold (start_up exec digest) runs st))"
proof (induction runs arbitrary: st)
  case (Cons run runs)
  obtain down now files where run: "run = (down, now, files)" by (cases run)
  have "ledger_ok (sc_ledger (start_up exec digest run st)) \<and> set (first_applied st) \<subseteq> set (first_applied (start_up exec digest run st))"
    using Migrate_keeps [of down exec digest now files st] Cons.prems by (simp add: run start_up_def prod_eq_iff)
  then show ?case using Cons.IH [of "start_up exec digest run st"] by auto
qed simp

text \<open>
  C14.  An edited migration is reported and stays reported.  Once a database has recorded the checksum a file had when it was first applied, no
  sequence of later starts, failed ones and ones of other binaries included, loses or changes it; and after a start that succeeds, the schema
  level names a file of that binary as drifted exactly if its checksum is not the one recorded first, and counts every file it carries as applied.
\<close>

theorem edited_migrations_reported:
  assumes "ledger_ok (sc_ledger st)" "(name, first) \<in> set (first_applied st)"
    and "Migrate down exec digest now files (fold (start_up exec digest) runs st) = (None, st')"
    and "distinct (map fst files)" "(name, body) \<in> set files" "\<not> other ''schema_level''" "\<not> other ''schema_drift''"
  shows "\<exists>state. SchemaLevel other st' = Ok state \<and> (name \<in> set (ss_Drifted state) \<longleftrightarrow> digest body \<noteq> first) \<and>
    (name, first) \<in> set (first_applied st') \<and> fst ` set files \<subseteq> fst ` set (first_applied st')"
proof -
  note before = starts_keep [OF assms(1), of exec digest runs]
  note after = Migrate_keeps [OF assms(3) conjunct1 [OF before]]
  have ok: "ledger_ok (sc_ledger st')" by (rule conjunct1 [OF after])
  have kept: "(name, first) \<in> set (first_applied st')"
    by (rule subsetD [OF conjunct2 [OF after]], rule subsetD [OF conjunct2 [OF before]], rule assms(2))
  note run = Migrate_success [OF assms(3)]
  have sources: "source_is (sc_ledger st') n (digest b)" if "(n, b) \<in> set files" for n b
    by (rule apply_files_source [OF run]) (use assms(4) that in \<open>simp_all add: distinct_map\<close>)
  obtain r where r: "r \<in> set (sc_ledger st')" "lr_Name r = name" "lr_Checksum r = first"
    using kept by (auto simp: first_applied_def)
  have "lr_Source r = Some (digest body)" using sources [OF assms(5)] r by (auto simp: source_is_def)
  then have d: "drifted r \<longleftrightarrow> digest body \<noteq> first" using r(3) by (simp add: drifted_def)
  have inj: "inj_on lr_Name (set (sc_ledger st'))" using ok by (simp add: ledger_ok_def distinct_map)
  have "name \<in> lr_Name ` set (filter drifted (sc_ledger st')) \<longleftrightarrow> drifted r"
  proof
    assume "name \<in> lr_Name ` set (filter drifted (sc_ledger st'))"
    then obtain q where q: "q \<in> set (sc_ledger st')" "lr_Name q = lr_Name r" "drifted q" using r(2) by auto
    then show "drifted r" using inj_onD [OF inj q(2,1) r(1)] by simp
  next
    assume "drifted r"
    then show "name \<in> lr_Name ` set (filter drifted (sc_ledger st'))" using r(1,2) by auto
  qed
  moreover have "fst ` set files \<subseteq> fst ` set (first_applied st')"
    using sources by (force simp: source_is_def first_applied_def)
  ultimately show ?thesis using assms(6,7) kept d by (simp add: SchemaLevel_def)
qed

text \<open>A file applied once, a start that fails at the lock, and a binary whose file has changed.\<close>

definition fresh_schema :: "unit Schema" where
  "fresh_schema = snd (Migrate (\<lambda>_. False) (\<lambda>_. Some) (\<lambda>b. b) 1 [(''001'', ''a'')] \<lparr> sc_ledger = [], sc_data = () \<rparr>)"

definition between :: "(down \<times> int \<times> (string \<times> string) list) list" where
  "between = [(\<lambda>stmt. stmt = ''migration_lock'', 2, [(''001'', ''b'')])]"

theorem edited_migrations_reported_witness:
  "\<exists>state. SchemaLevel (\<lambda>_. False) (snd (Migrate (\<lambda>_. False) (\<lambda>_. Some) (\<lambda>b. b) 3 [(''002'', ''c''), (''001'', ''b'')]
     (fold (start_up (\<lambda>_. Some) (\<lambda>b. b)) between fresh_schema))) = Ok state \<and> ''001'' \<in> set (ss_Drifted state)"
proof -
  let ?run = "Migrate (\<lambda>_. False) (\<lambda>_. Some) (\<lambda>b. b) 3 [(''002'', ''c''), (''001'', ''b'')] (fold (start_up (\<lambda>_. Some) (\<lambda>b. b)) between fresh_schema)"
  have before: "ledger_ok (sc_ledger fresh_schema)" "(''001'', ''a'') \<in> set (first_applied fresh_schema)" by code_simp+
  have "fst ?run = None" by code_simp
  then have run: "?run = (None, snd ?run)" by (simp add: prod_eq_iff)
  obtain state where "SchemaLevel (\<lambda>_. False) (snd ?run) = Ok state" "''001'' \<in> set (ss_Drifted state) \<longleftrightarrow> ''b'' \<noteq> ''a''"
    using edited_migrations_reported [OF before run, of "''b''" "\<lambda>_. False"] by auto
  then show ?thesis by auto
qed

subsection \<open>What the files do to the catalogue (001, 003 and 013 to 018)\<close>

text \<open>INSERT INTO modules ... ON CONFLICT (id) DO UPDATE: the row that is new, and the change to the one that is there.\<close>

definition upsert_module :: "ModuleRow \<Rightarrow> (ModuleRow \<Rightarrow> ModuleRow) \<Rightarrow> ModuleStore \<Rightarrow> ModuleStore" where
  "upsert_module new change st =
     st \<lparr> ms_modules := (if row_id new \<in> row_id ` set (ms_modules st)
       then map (\<lambda>r. if row_id r = row_id new then change r else r) (ms_modules st)
       else ms_modules st @ [new]) \<rparr>"

definition grant_module :: "string \<times> string \<Rightarrow> ModuleStore \<Rightarrow> ModuleStore" where
  "grant_module pair st =
     (if pair \<in> set (db_role_modules (ms_db st)) then st
      else st \<lparr> ms_db := (ms_db st) \<lparr> db_role_modules := db_role_modules (ms_db st) @ [pair] \<rparr> \<rparr>)"

definition update_modules :: "(ModuleRow \<Rightarrow> bool) \<Rightarrow> (ModuleRow \<Rightarrow> ModuleRow) \<Rightarrow> ModuleStore \<Rightarrow> ModuleStore" where
  "update_modules P change st = st \<lparr> ms_modules := map (\<lambda>r. if P r then change r else r) (ms_modules st) \<rparr>"

definition seeded_row :: "int \<Rightarrow> string \<Rightarrow> string \<Rightarrow> string \<Rightarrow> string \<Rightarrow> int \<Rightarrow> string \<Rightarrow> string \<Rightarrow> ModuleRow" where
  "seeded_row now i name description status order launchURL icon =
     \<lparr> mr_Module = \<lparr> mo_ID = i, mo_Name = name, mo_Description = description, mo_Status = status, mo_LaunchURL = launchURL, mo_Icon = icon \<rparr>,
       mr_SortOrder = order, mr_Enabled = True, mr_UpdatedBy = [], mr_UpdatedAt = now \<rparr>"

definition seed_modules :: "(string \<times> string \<times> int) list" where
  "seed_modules = [(''crm'', ''BSYSTEM CRM'', 10), (''projects'', ''BSYSTEM Projects'', 20), (''qa'', ''BSYSTEM QA'', 30),
     (''development'', ''BSYSTEM Development'', 40), (''wiki'', ''BSYSTEM Wiki'', 50), (''operations'', ''BSYSTEM Operations'', 60),
     (''support'', ''BSYSTEM Support'', 70)]"

definition migration_001 :: "(string \<Rightarrow> string) \<Rightarrow> int \<Rightarrow> ModuleStore \<Rightarrow> ModuleStore" where
  "migration_001 descr now = fold (\<lambda>(i, name, order). upsert_module (seeded_row now i name (descr i) ''planned'' order [] [])
     (\<lambda>r. r \<lparr> mr_Module := (mr_Module r) \<lparr> mo_Name := name, mo_Description := descr i \<rparr>, mr_SortOrder := order, mr_UpdatedAt := now \<rparr>))
     seed_modules"

definition seed_role_modules :: "(string \<times> string) list" where
  "seed_role_modules =
     [(''administrator'', ''crm''), (''administrator'', ''projects''), (''administrator'', ''qa''),
      (''administrator'', ''development''), (''administrator'', ''wiki''), (''administrator'', ''operations''),
      (''administrator'', ''support''), (''manager'', ''crm''), (''manager'', ''projects''), (''manager'', ''qa''),
      (''manager'', ''wiki''), (''manager'', ''operations''), (''manager'', ''support''),
      (''developer'', ''projects''), (''developer'', ''qa''), (''developer'', ''development''),
      (''developer'', ''wiki''), (''developer'', ''operations''), (''qa'', ''projects''), (''qa'', ''qa''),
      (''qa'', ''wiki''), (''support'', ''crm''), (''support'', ''projects''), (''support'', ''wiki''),
      (''support'', ''operations''), (''support'', ''support''), (''devops'', ''development''),
      (''devops'', ''wiki''), (''devops'', ''operations''), (''customer'', ''wiki''), (''customer'', ''support'')]"

definition migration_003 :: "ModuleStore \<Rightarrow> ModuleStore" where
  "migration_003 = fold grant_module seed_role_modules"

definition migration_013 :: "(string \<Rightarrow> string) \<Rightarrow> int \<Rightarrow> ModuleStore \<Rightarrow> ModuleStore" where
  "migration_013 descr now st =
     update_modules (\<lambda>r. row_id r \<in> {''demo-a'', ''demo-b''}) (\<lambda>r. r \<lparr> mr_Enabled := False, mr_UpdatedAt := now \<rparr>)
       (fold (\<lambda>(i, name, order). upsert_module (seeded_row now i name (descr i) ''ready'' order [] [])
          (\<lambda>r. r \<lparr> mr_Module := (mr_Module r) \<lparr> mo_Name := name, mo_Description := descr i, mo_Status := ''ready'' \<rparr>,
                   mr_SortOrder := order, mr_Enabled := True, mr_UpdatedAt := now \<rparr>))
          [(''redmine'', ''Redmine'', 80), (''outline'', ''Outline'', 90)] st)"

definition migration_014 :: "int \<Rightarrow> ModuleStore \<Rightarrow> ModuleStore" where
  "migration_014 now = fold (\<lambda>i. update_modules (\<lambda>r. row_id r = i)
     (\<lambda>r. r \<lparr> mr_Module := (mr_Module r) \<lparr> mo_LaunchURL := ''/modules/'' @ i @ ''/'', mo_Icon := i \<rparr>, mr_UpdatedAt := now \<rparr>))
     [''redmine'', ''outline'']"

definition derive_grants :: "string \<Rightarrow> string \<Rightarrow> ModuleStore \<Rightarrow> ModuleStore" where
  "derive_grants source target st =
     fold (\<lambda>roleID. grant_module (roleID, target)) (map fst (filter (\<lambda>x. snd x = source) (db_role_modules (ms_db st)))) st"

definition migration_015 :: "ModuleStore \<Rightarrow> ModuleStore" where
  "migration_015 st = derive_grants ''wiki'' ''outline'' (derive_grants ''projects'' ''redmine'' st)"

definition migration_016 :: "(string \<Rightarrow> string) \<Rightarrow> int \<Rightarrow> ModuleStore \<Rightarrow> ModuleStore" where
  "migration_016 descr now =
     upsert_module (seeded_row now ''nextcloud'' ''Nextcloud'' (descr ''nextcloud'') ''ready'' 100 ''/modules/nextcloud/'' ''nextcloud'')
       (\<lambda>r. r \<lparr> mr_Module := (mr_Module r) \<lparr> mo_Name := ''Nextcloud'', mo_Description := descr ''nextcloud'', mo_Status := ''ready'',
                  mo_LaunchURL := ''/modules/nextcloud/'', mo_Icon := ''nextcloud'' \<rparr>,
                mr_SortOrder := 100, mr_Enabled := True, mr_UpdatedAt := now \<rparr>)"

definition migration_017 :: "ModuleStore \<Rightarrow> ModuleStore" where
  "migration_017 = grant_module (''administrator'', ''nextcloud'')"

definition set_status :: "int \<Rightarrow> string \<Rightarrow> ModuleRow \<Rightarrow> ModuleRow" where
  "set_status now status r = r \<lparr> mr_Module := (mr_Module r) \<lparr> mo_Status := status \<rparr>, mr_UpdatedAt := now \<rparr>"

definition migration_018 :: "int \<Rightarrow> ModuleStore \<Rightarrow> ModuleStore" where
  "migration_018 now st =
     update_modules (\<lambda>r. mo_Status (mr_Module r) \<notin> set ModuleStatuses) (set_status now ''disabled'')
       (update_modules (\<lambda>r. mo_Status (mr_Module r) = ''ready'') (set_status now ''active'') st)"

text \<open>
  The files in the order of their names, each a transaction of its own, and what a start that gets through all of them does.
\<close>

definition catalogue_files :: "(string \<Rightarrow> string) \<Rightarrow> int \<Rightarrow> (ModuleStore \<Rightarrow> ModuleStore) list" where
  "catalogue_files descr now =
     [migration_001 descr now, migration_003, migration_013 descr now, migration_014 now, migration_015, migration_016 descr now,
      migration_017, migration_018 now]"

definition replay :: "(string \<Rightarrow> string) \<Rightarrow> int \<Rightarrow> ModuleStore \<Rightarrow> ModuleStore" where
  "replay descr now = fold (\<lambda>f. f) (catalogue_files descr now)"

lemma replay_unfold: "replay descr now st =
     migration_018 now (migration_017 (migration_016 descr now (migration_015 (migration_014 now
       (migration_013 descr now (migration_003 (migration_001 descr now st)))))))"
  by (simp add: replay_def catalogue_files_def)

subsection \<open>What a start makes of the catalogue\<close>

definition granted_roles :: "ModuleStore \<Rightarrow> (string \<times> string) set" where
  "granted_roles st = set (db_role_modules (ms_db st))"

lemma grants_simps [simp]:
  "ms_modules (grant_module pair st) = ms_modules st" "granted_roles (grant_module pair st) = insert pair (granted_roles st)"
  "ms_modules (fold grant_module pairs st) = ms_modules st"
  "granted_roles (fold grant_module pairs st) = set pairs \<union> granted_roles st"
proof -
  show a: "ms_modules (grant_module pair st) = ms_modules st" for pair st by (simp add: grant_module_def)
  show b: "granted_roles (grant_module pair st) = insert pair (granted_roles st)" for pair st
    by (auto simp: grant_module_def granted_roles_def)
  show "ms_modules (fold grant_module pairs st) = ms_modules st" by (induction pairs arbitrary: st) (simp_all add: a)
  show "granted_roles (fold grant_module pairs st) = set pairs \<union> granted_roles st" by (induction pairs arbitrary: st) (auto simp: b)
qed

lemma derive_grants_simps [simp]:
  "ms_modules (derive_grants source target st) = ms_modules st"
  "granted_roles (derive_grants source target st) = {(r, target) | r. (r, source) \<in> granted_roles st} \<union> granted_roles st"
proof -
  have "derive_grants source target st = fold grant_module (map (\<lambda>x. (fst x, target)) (filter (\<lambda>x. snd x = source) (db_role_modules (ms_db st)))) st"
    by (simp add: derive_grants_def fold_map o_def)
  then have "ms_modules (derive_grants source target st) = ms_modules st"
    "granted_roles (derive_grants source target st) =
       set (map (\<lambda>x. (fst x, target)) (filter (\<lambda>x. snd x = source) (db_role_modules (ms_db st)))) \<union> granted_roles st" by simp_all
  moreover have "set (map (\<lambda>x. (fst x, target)) (filter (\<lambda>x. snd x = source) (db_role_modules (ms_db st)))) =
      {(r, target) | r. (r, source) \<in> granted_roles st}" by (force simp: granted_roles_def)
  ultimately show "ms_modules (derive_grants source target st) = ms_modules st"
    "granted_roles (derive_grants source target st) = {(r, target) | r. (r, source) \<in> granted_roles st} \<union> granted_roles st"
    by simp_all
qed

lemma rows_simps [simp]:
  "granted_roles (upsert_module new change st) = granted_roles st" "granted_roles (update_modules P change st) = granted_roles st"
  by (simp_all add: granted_roles_def upsert_module_def update_modules_def)

lemma granted_audit [simp]: "granted_roles (st \<lparr> ms_modules := ms \<rparr>) = granted_roles st"
  by (simp add: granted_roles_def)

definition real_modules :: "string list" where
  "real_modules = [''redmine'', ''outline'', ''nextcloud'']"

text \<open>
  What holds between the files, whatever requests come in there: a status the files themselves write may stand beside those of the vocabulary,
  and only the three real applications can be active without a role.
\<close>

definition passing_row :: "(string \<times> string) set \<Rightarrow> ModuleRow \<Rightarrow> bool" where
  "passing_row roles row \<longleftrightarrow>
     mo_Status (mr_Module row) \<in> {''planned'', ''ready''} \<union> set ModuleStatuses \<and>
     (mo_Status (mr_Module row) = ''active'' \<longrightarrow> (\<exists>r. (r, row_id row) \<in> roles) \<or> row_id row \<in> set real_modules) \<and>
     (mo_Status (mr_Module row) = ''ready'' \<longrightarrow> row_id row \<in> set real_modules)"

definition passing :: "ModuleStore \<Rightarrow> bool" where
  "passing st \<longleftrightarrow> distinct (map row_id (ms_modules st)) \<and> (\<forall>row \<in> set (ms_modules st). passing_row (granted_roles st) row)"

lemma passingI:
  "distinct (map row_id (ms_modules st)) \<Longrightarrow> (\<And>row. row \<in> set (ms_modules st) \<Longrightarrow> passing_row (granted_roles st) row) \<Longrightarrow> passing st"
  by (simp add: passing_def)

lemma passing_update:
  assumes "passing st" "\<And>r. P r \<Longrightarrow> row_id (change r) = row_id r"
    and "\<And>r. P r \<Longrightarrow> passing_row (granted_roles st) r \<Longrightarrow> passing_row (granted_roles st) (change r)"
  shows "passing (update_modules P change st)"
proof (rule passingI)
  have "map row_id (ms_modules (update_modules P change st)) = map row_id (ms_modules st)"
    using assms(2) by (auto simp: update_modules_def)
  then show "distinct (map row_id (ms_modules (update_modules P change st)))" using assms(1) by (simp only: passing_def)
  show "passing_row (granted_roles (update_modules P change st)) row" if "row \<in> set (ms_modules (update_modules P change st))" for row
  proof -
    have "row \<in> (\<lambda>r. if P r then change r else r) ` set (ms_modules st)" using that by (simp only: update_modules_def) simp
    then obtain r where "r \<in> set (ms_modules st)" "row = (if P r then change r else r)" by blast
    then show ?thesis using assms(1,3) by (simp add: passing_def)
  qed
qed

lemma passing_upsert:
  assumes "passing st" "passing_row (granted_roles st) new"
    and "\<And>r. row_id r = row_id new \<Longrightarrow> row_id (change r) = row_id r"
    and "\<And>r. row_id r = row_id new \<Longrightarrow> passing_row (granted_roles st) r \<Longrightarrow> passing_row (granted_roles st) (change r)"
  shows "passing (upsert_module new change st)"
proof (cases "row_id new \<in> row_id ` set (ms_modules st)")
  case True
  then have "upsert_module new change st = update_modules (\<lambda>r. row_id r = row_id new) change st"
    by (simp add: upsert_module_def update_modules_def)
  then show ?thesis using passing_update [OF assms(1), of "\<lambda>r. row_id r = row_id new" change] assms(3,4) by simp
next
  case False
  then have rows: "ms_modules (upsert_module new change st) = ms_modules st @ [new]" by (simp add: upsert_module_def)
  show ?thesis by (rule passingI) (use False assms(1,2) in \<open>auto simp: rows passing_def\<close>)
qed

lemma passing_more_roles:
  assumes "passing st" "ms_modules st' = ms_modules st" "granted_roles st \<subseteq> granted_roles st'"
  shows "passing st'"
  using assms by (fastforce simp: passing_def passing_row_def)

lemma row_id_simps [simp]:
  "row_id (seeded_row now i name d s order u ic) = i" "row_id (set_status now s r) = row_id r"
  "mo_Status (mr_Module (seeded_row now i name d s order u ic)) = s" "mr_Enabled (seeded_row now i name d s order u ic)"
  "mo_Status (mr_Module (set_status now s r)) = s" "mr_Enabled (set_status now s r) = mr_Enabled r"
  by (simp_all add: row_id_def seeded_row_def set_status_def)

lemma fold_keeps: "Q st \<Longrightarrow> (\<And>x st. x \<in> set xs \<Longrightarrow> Q st \<Longrightarrow> Q (f x st)) \<Longrightarrow> Q (fold f xs st)"
  by (induction xs arbitrary: st) auto

text \<open>Files that seed rows: the new status may stand between the files, and roles are left alone.\<close>

lemma passing_seed:
  assumes "passing st \<and> granted_roles st = R" "status \<in> {''planned'', ''ready''}" "status = ''ready'' \<Longrightarrow> i \<in> set real_modules"
    and change: "\<And>r. row_id (change r) = row_id r" "\<And>r. mo_Status (mr_Module (change r)) \<in> {status, mo_Status (mr_Module r)}"
  shows "passing (upsert_module (seeded_row now i name d status order u ic) change st) \<and>
    granted_roles (upsert_module (seeded_row now i name d status order u ic) change st) = R"
proof
  show "passing (upsert_module (seeded_row now i name d status order u ic) change st)"
  proof (rule passing_upsert)
    show "passing_row (granted_roles st) (change r)"
      if "row_id r = row_id (seeded_row now i name d status order u ic)" "passing_row (granted_roles st) r" for r
      using that assms(2,3) change(1) change(2) [of r] by (auto simp: passing_row_def)
  qed (use assms(1-3) change(1) in \<open>auto simp: passing_row_def\<close>)
qed (use assms(1) in simp)

lemma passing_001:
  assumes "passing st"
  shows "passing (migration_001 descr now st) \<and> granted_roles (migration_001 descr now st) = granted_roles st"
  unfolding migration_001_def
proof (rule fold_keeps [where Q = "\<lambda>u. passing u \<and> granted_roles u = granted_roles st"], use assms in simp, goal_cases)
  case (1 x u)
  obtain i name order where x: "x = (i, name, order)" by (cases x)
  show ?case unfolding x prod.case by (rule passing_seed [OF 1(2)]) (simp_all add: row_id_def)
qed

lemma passing_013:
  assumes "passing st"
  shows "passing (migration_013 descr now st) \<and> granted_roles (migration_013 descr now st) = granted_roles st"
proof -
  let ?mid = "fold (\<lambda>(i, name, order). upsert_module (seeded_row now i name (descr i) ''ready'' order [] [])
          (\<lambda>r. r \<lparr> mr_Module := (mr_Module r) \<lparr> mo_Name := name, mo_Description := descr i, mo_Status := ''ready'' \<rparr>,
                   mr_SortOrder := order, mr_Enabled := True, mr_UpdatedAt := now \<rparr>))
          [(''redmine'', ''Redmine'', 80), (''outline'', ''Outline'', 90)] st"
  have mid: "passing ?mid \<and> granted_roles ?mid = granted_roles st"
  proof (rule fold_keeps [where Q = "\<lambda>u. passing u \<and> granted_roles u = granted_roles st"], use assms in simp, goal_cases)
    case (1 x u)
    obtain i name order where x: "x = (i, name, order)" by (cases x)
    have "i \<in> set real_modules" using 1(1) by (auto simp: x real_modules_def)
    then show ?case unfolding x prod.case by (intro passing_seed [OF 1(2)]) (simp_all add: row_id_def)
  qed
  have "passing (migration_013 descr now st)"
    unfolding migration_013_def by (rule passing_update [OF conjunct1 [OF mid]]) (simp_all add: passing_row_def row_id_def)
  then show ?thesis using mid by (simp add: migration_013_def)
qed

lemma passing_014:
  assumes "passing st"
  shows "passing (migration_014 now st) \<and> granted_roles (migration_014 now st) = granted_roles st"
  unfolding migration_014_def
proof (rule fold_keeps [where Q = "\<lambda>u. passing u \<and> granted_roles u = granted_roles st"], use assms in simp, goal_cases)
  case (1 x u)
  have "passing (update_modules (\<lambda>r. row_id r = x)
     (\<lambda>r. r \<lparr> mr_Module := (mr_Module r) \<lparr> mo_LaunchURL := ''/modules/'' @ x @ ''/'', mo_Icon := x \<rparr>, mr_UpdatedAt := now \<rparr>) u)"
    by (rule passing_update [OF conjunct1 [OF 1(2)]]) (simp_all add: passing_row_def row_id_def)
  then show ?case using 1(2) by simp
qed

lemma passing_016:
  assumes "passing st"
  shows "passing (migration_016 descr now st) \<and> granted_roles (migration_016 descr now st) = granted_roles st"
  unfolding migration_016_def
  by (rule passing_seed) (use assms in \<open>simp_all add: row_id_def real_modules_def\<close>)

text \<open>The rows of the three real applications, as the files leave them.\<close>

definition has_row :: "string \<Rightarrow> string \<Rightarrow> ModuleStore \<Rightarrow> bool" where
  "has_row i status st \<longleftrightarrow> (\<exists>row \<in> set (ms_modules st). row_id row = i \<and> mo_Status (mr_Module row) = status \<and> mr_Enabled row)"

lemma has_row_upsert:
  assumes "row_id new = i" "mo_Status (mr_Module new) = status" "mr_Enabled new"
    and "\<And>r. row_id r = i \<Longrightarrow> row_id (change r) = i \<and> mo_Status (mr_Module (change r)) = status \<and> mr_Enabled (change r)"
  shows "has_row i status (upsert_module new change st)"
proof (cases "i \<in> row_id ` set (ms_modules st)")
  case True
  then obtain r where r: "r \<in> set (ms_modules st)" "row_id r = i" by blast
  then have "change r \<in> set (ms_modules (upsert_module new change st))" using assms(1) by (auto simp: upsert_module_def)
  then show ?thesis using assms(4) [OF r(2)] unfolding has_row_def by blast
next
  case False
  then show ?thesis using assms(1-3) by (auto simp: has_row_def upsert_module_def)
qed

lemma has_row_upsert_other:
  "has_row i status st \<Longrightarrow> row_id new \<noteq> i \<Longrightarrow> has_row i status (upsert_module new change st)"
  by (fastforce simp: has_row_def upsert_module_def)

lemma has_row_update:
  assumes "has_row i status st"
    and "\<And>r. row_id r = i \<Longrightarrow> mo_Status (mr_Module r) = status \<Longrightarrow> mr_Enabled r \<Longrightarrow>
      row_id (if P r then change r else r) = i \<and> mo_Status (mr_Module (if P r then change r else r)) = status' \<and>
      mr_Enabled (if P r then change r else r)"
  shows "has_row i status' (update_modules P change st)"
proof -
  obtain r where r: "r \<in> set (ms_modules st)" "row_id r = i" "mo_Status (mr_Module r) = status" "mr_Enabled r"
    using assms(1) by (auto simp: has_row_def)
  have "(if P r then change r else r) \<in> set (ms_modules (update_modules P change st))" using r(1) by (auto simp: update_modules_def)
  then show ?thesis using assms(2) [OF r(2-4)] unfolding has_row_def by blast
qed

lemma has_row_cong: "ms_modules st' = ms_modules st \<Longrightarrow> has_row i status st' = has_row i status st"
  by (simp add: has_row_def)

lemma seeded_ready:
  "has_row ''redmine'' ''ready'' (migration_013 descr now st)" "has_row ''outline'' ''ready'' (migration_013 descr now st)"
proof -
  define change where "change i name order = (\<lambda>r :: ModuleRow. r \<lparr> mr_Module := (mr_Module r) \<lparr> mo_Name := name, mo_Description := descr i, mo_Status := ''ready'' \<rparr>,
      mr_SortOrder := order, mr_Enabled := True, mr_UpdatedAt := now \<rparr>)" for i name :: string and order
  define u1 where "u1 = upsert_module (seeded_row now ''redmine'' ''Redmine'' (descr ''redmine'') ''ready'' 80 [] []) (change ''redmine'' ''Redmine'' 80) st"
  define u2 where "u2 = upsert_module (seeded_row now ''outline'' ''Outline'' (descr ''outline'') ''ready'' 90 [] []) (change ''outline'' ''Outline'' 90) u1"
  have m: "migration_013 descr now st = update_modules (\<lambda>r. row_id r \<in> {''demo-a'', ''demo-b''}) (\<lambda>r. r \<lparr> mr_Enabled := False, mr_UpdatedAt := now \<rparr>) u2"
    by (simp add: migration_013_def u1_def u2_def change_def)
  have "has_row ''redmine'' ''ready'' u1" unfolding u1_def by (rule has_row_upsert) (simp_all add: change_def row_id_def seeded_row_def)
  then have "has_row ''redmine'' ''ready'' u2" unfolding u2_def by (rule has_row_upsert_other) simp
  then show "has_row ''redmine'' ''ready'' (migration_013 descr now st)" unfolding m by (rule has_row_update) simp
  have "has_row ''outline'' ''ready'' u2" unfolding u2_def by (rule has_row_upsert) (simp_all add: change_def row_id_def seeded_row_def)
  then show "has_row ''outline'' ''ready'' (migration_013 descr now st)" unfolding m by (rule has_row_update) simp
qed

lemma ready_014: "has_row i ''ready'' st \<Longrightarrow> has_row i ''ready'' (migration_014 now st)"
  unfolding migration_014_def by (rule fold_keeps) (auto intro!: has_row_update simp: row_id_def)

lemma ready_016: "has_row i ''ready'' st \<Longrightarrow> i \<noteq> ''nextcloud'' \<Longrightarrow> has_row i ''ready'' (migration_016 descr now st)"
  unfolding migration_016_def by (rule has_row_upsert_other) simp_all

lemma nextcloud_016: "has_row ''nextcloud'' ''ready'' (migration_016 descr now st)"
  unfolding migration_016_def by (rule has_row_upsert) (simp_all add: row_id_def seeded_row_def)

lemma active_018: "has_row i ''ready'' st \<Longrightarrow> has_row i ''active'' (migration_018 now st)"
  unfolding migration_018_def
  by (rule has_row_update [of i "''active''"], erule has_row_update) (simp_all add: ModuleStatuses_def)

lemma modules_of_grants [simp]:
  "ms_modules (migration_003 st) = ms_modules st" "ms_modules (migration_015 st) = ms_modules st" "ms_modules (migration_017 st) = ms_modules st"
  by (simp_all add: migration_003_def migration_015_def migration_017_def)

lemma roles_003: "set seed_role_modules \<subseteq> granted_roles (migration_003 st)"
  by (simp add: migration_003_def)

lemma roles_017: "granted_roles (migration_017 st) = insert (''administrator'', ''nextcloud'') (granted_roles st)"
  by (simp add: migration_017_def)

lemma roles_015:
  assumes "(r, ''projects'') \<in> granted_roles st" "(q, ''wiki'') \<in> granted_roles st"
  shows "(r, ''redmine'') \<in> granted_roles (migration_015 st)" "(q, ''outline'') \<in> granted_roles (migration_015 st)"
    and "granted_roles st \<subseteq> granted_roles (migration_015 st)"
  using assms by (auto simp: migration_015_def)

lemma administrator_seeds: "(''administrator'', ''projects'') \<in> set seed_role_modules" "(''administrator'', ''wiki'') \<in> set seed_role_modules"
  by (simp_all add: seed_role_modules_def)

text \<open>The state before the last file: rows in passing, and a role for each of the three applications.\<close>

definition before_018 :: "(string \<Rightarrow> string) \<Rightarrow> int \<Rightarrow> ModuleStore \<Rightarrow> ModuleStore" where
  "before_018 descr now st = migration_017 (migration_016 descr now (migration_015 (migration_014 now
       (migration_013 descr now (migration_003 (migration_001 descr now st))))))"

lemma before_018_passing:
  assumes "passing st"
  shows "passing (before_018 descr now st) \<and> granted_roles st \<subseteq> granted_roles (before_018 descr now st) \<and>
    (\<forall>i \<in> set real_modules. (''administrator'', i) \<in> granted_roles (before_018 descr now st))"
proof -
  define s1 where "s1 = migration_001 descr now st"
  define s2 where "s2 = migration_003 s1"
  define s3 where "s3 = migration_013 descr now s2"
  define s4 where "s4 = migration_014 now s3"
  define s5 where "s5 = migration_015 s4"
  define s6 where "s6 = migration_016 descr now s5"
  have 1: "passing s1" "granted_roles s1 = granted_roles st" using passing_001 [OF assms] by (simp_all add: s1_def)
  have 2: "passing s2" by (rule passing_more_roles [OF 1(1)]) (auto simp: s2_def migration_003_def)
  have r2: "granted_roles st \<subseteq> granted_roles s2" "set seed_role_modules \<subseteq> granted_roles s2"
    using 1(2) by (auto simp: s2_def migration_003_def)
  have 3: "passing s3" "granted_roles s3 = granted_roles s2" using passing_013 [OF 2] by (simp_all add: s3_def)
  have 4: "passing s4" "granted_roles s4 = granted_roles s3" using passing_014 [OF 3(1)] by (simp_all add: s4_def)
  have seeds: "(''administrator'', ''projects'') \<in> granted_roles s4" "(''administrator'', ''wiki'') \<in> granted_roles s4"
    using r2(2) administrator_seeds 3(2) 4(2) by auto
  note r5 = roles_015 [OF seeds, folded s5_def]
  have 5: "passing s5" by (rule passing_more_roles [OF 4(1)]) (use r5(3) in \<open>simp_all add: s5_def\<close>)
  have 6: "passing s6" "granted_roles s6 = granted_roles s5" using passing_016 [OF 5] by (simp_all add: s6_def)
  have b: "before_018 descr now st = migration_017 s6" by (simp add: before_018_def s1_def s2_def s3_def s4_def s5_def s6_def)
  have "passing (migration_017 s6)" by (rule passing_more_roles [OF 6(1)]) (auto simp: roles_017)
  then show ?thesis unfolding b using r5 r2(1) 3(2) 4(2) 6(2) by (auto simp: roles_017 real_modules_def)
qed

lemma catalogue_passing: "catalogue_ok st \<Longrightarrow> passing st"
  by (auto simp: catalogue_ok_def passing_def row_ok_def passing_row_def granted_roles_def ModuleStatuses_def module_roles_empty)

lemma catalogue_018:
  assumes "passing st" "\<forall>i \<in> set real_modules. (''administrator'', i) \<in> granted_roles st"
  shows "catalogue_ok (migration_018 now st)"
proof -
  define activate where "activate r = (if mo_Status (mr_Module r) = ''ready'' then set_status now ''active'' r else r)" for r
  define settle where "settle r = (if mo_Status (mr_Module r) \<notin> set ModuleStatuses then set_status now ''disabled'' r else r)" for r
  have rows: "ms_modules (migration_018 now st) = map (\<lambda>r. settle (activate r)) (ms_modules st)"
    by (simp add: migration_018_def update_modules_def activate_def settle_def o_def)
  have roles: "granted_roles (migration_018 now st) = granted_roles st" by (simp add: migration_018_def)
  have ids: "row_id (settle (activate r)) = row_id r" for r by (simp add: settle_def activate_def)
  have status: "mo_Status (mr_Module (settle (activate r))) \<in> set ModuleStatuses" for r
    by (simp add: settle_def ModuleStatuses_def)
  have granted: "\<exists>q. (q, row_id r) \<in> granted_roles st"
    if "mo_Status (mr_Module (settle (activate r))) = ''active''" "r \<in> set (ms_modules st)" for r
  proof -
    have "mo_Status (mr_Module r) \<in> {''active'', ''ready''}"
      using that(1) by (auto simp: settle_def activate_def ModuleStatuses_def split: if_splits)
    moreover have "passing_row (granted_roles st) r" using assms(1) that(2) by (simp add: passing_def)
    ultimately show ?thesis using assms(2) by (auto simp: passing_row_def)
  qed
  have "distinct (map row_id (ms_modules (migration_018 now st)))" using assms(1) by (simp add: rows ids passing_def o_def)
  moreover have "row_ok (ms_db (migration_018 now st)) row" if row: "row \<in> set (ms_modules (migration_018 now st))" for row
  proof -
    obtain r where "r \<in> set (ms_modules st)" "row = settle (activate r)" using row unfolding rows by auto
    then show ?thesis using status [of r] granted [of r] roles
      by (auto simp: row_ok_def ids module_roles_empty granted_roles_def)
  qed
  ultimately show ?thesis by (simp add: catalogue_ok_def)
qed

lemma replay_ok:
  assumes "passing st"
  shows "catalogue_ok (replay descr now st)"
proof -
  have "replay descr now st = migration_018 now (before_018 descr now st)" by (simp add: replay_unfold before_018_def)
  then show ?thesis using before_018_passing [OF assms] by (simp add: catalogue_018)
qed

lemma replay_before: "replay descr now st = migration_018 now (before_018 descr now st)"
  by (simp add: replay_unfold before_018_def)

lemma replay_active:
  "has_row ''redmine'' ''active'' (replay descr now st)" "has_row ''outline'' ''active'' (replay descr now st)"
  "has_row ''nextcloud'' ''active'' (replay descr now st)"
proof -
  have kept: "has_row i ''active'' (replay descr now st)" if "has_row i ''ready'' (migration_013 descr now s)" "i \<noteq> ''nextcloud''"
    "before_018 descr now st = migration_017 (migration_016 descr now (migration_015 (migration_014 now (migration_013 descr now s))))" for i s
  proof -
    have "has_row i ''ready'' (migration_015 (migration_014 now (migration_013 descr now s)))"
      by (subst has_row_cong [OF modules_of_grants(2)]) (rule ready_014 [OF that(1)])
    then have "has_row i ''ready'' (before_018 descr now st)"
      unfolding that(3) by (subst has_row_cong [OF modules_of_grants(3)]) (rule ready_016 [OF _ that(2)])
    then show ?thesis unfolding replay_before by (rule active_018)
  qed
  show "has_row ''redmine'' ''active'' (replay descr now st)" by (rule kept [OF seeded_ready(1)]) (simp_all only: before_018_def, simp)
  show "has_row ''outline'' ''active'' (replay descr now st)" by (rule kept [OF seeded_ready(2)]) (simp_all only: before_018_def, simp)
  have "has_row ''nextcloud'' ''ready'' (before_018 descr now st)"
    unfolding before_018_def by (subst has_row_cong [OF modules_of_grants(3)]) (rule nextcloud_016)
  then show "has_row ''nextcloud'' ''active'' (replay descr now st)" unfolding replay_before by (rule active_018)
qed

lemma replay_roles:
  assumes "catalogue_ok st"
  shows "granted_roles st \<subseteq> granted_roles (replay descr now st)"
    and "\<forall>i \<in> set real_modules. (''administrator'', i) \<in> granted_roles (replay descr now st)"
  using before_018_passing [OF catalogue_passing [OF assms]] by (simp_all add: replay_before migration_018_def)

text \<open>
  C11.  A restart undoes an administrator's decision.  The files are replayed at every start, so whatever was saved about the three real
  applications before it (disabled, planned, hidden from every role), the catalogue a start leaves behind shows each of them enabled and active,
  with the administrator's access to it back, and no assignment that was there is gone.
\<close>

theorem startup_reactivates:
  assumes "catalogue_ok st"
  shows "(\<forall>i \<in> {''redmine'', ''outline'', ''nextcloud''}.
      (\<exists>row \<in> set (ms_modules (replay descr now st)). row_id row = i \<and> mo_Status (mr_Module row) = ''active'' \<and> mr_Enabled row) \<and>
      (''administrator'', i) \<in> set (db_role_modules (ms_db (replay descr now st)))) \<and>
    set (db_role_modules (ms_db st)) \<subseteq> set (db_role_modules (ms_db (replay descr now st)))"
  using replay_active [of descr now st] replay_roles [OF assms, of descr now]
  by (simp_all add: has_row_def real_modules_def granted_roles_def)

subsection \<open>Every catalogue the program reaches\<close>

text \<open>The files and the requests one by one.\<close>

lemma passing_018:
  assumes "passing st"
  shows "passing (migration_018 now st)"
  unfolding migration_018_def
  by (intro passing_update assms) (auto simp: passing_row_def ModuleStatuses_def)

lemma passing_file:
  assumes "passing st" "f \<in> set (catalogue_files descr now)"
  shows "passing (f st)"
proof -
  have grants: "passing (migration_003 st)" "passing (migration_015 st)" "passing (migration_017 st)"
    by (rule passing_more_roles [OF assms(1)]; auto simp: migration_003_def migration_015_def roles_017)+
  show ?thesis
    using assms(2) grants passing_001 [OF assms(1)] passing_013 [OF assms(1)] passing_014 [OF assms(1)] passing_016 [OF assms(1)]
      passing_018 [OF assms(1)] by (auto simp: catalogue_files_def)
qed

lemma passing_row_roles:
  "passing_row (granted_roles st) row \<longleftrightarrow>
     mo_Status (mr_Module row) \<in> {''planned'', ''ready''} \<union> set ModuleStatuses \<and>
     (mo_Status (mr_Module row) = ''active'' \<longrightarrow> module_roles (row_id row) (ms_db st) \<noteq> [] \<or> row_id row \<in> set real_modules) \<and>
     (mo_Status (mr_Module row) = ''ready'' \<longrightarrow> row_id row \<in> set real_modules)"
  by (simp add: passing_row_def granted_roles_def module_roles_empty)

lemma created_passing:
  assumes "passing st" "CreateAdminModule down now input actor record st = (Ok a, st')"
  shows "passing st'"
proof (rule passingI)
  note c = CreateAdminModule_ok [OF assms(2)]
  show "distinct (map row_id (ms_modules st'))" using assms(1) c by (auto simp: passing_def row_id_def)
  have old: "passing_row (granted_roles st') row" if "row \<in> set (ms_modules st)" for row
  proof -
    have "row_id row \<noteq> mi_ID input" "passing_row (granted_roles st) row" using assms(1) that c by (force simp: passing_def)+
    moreover have "module_roles (row_id row) (ms_db st') = module_roles (row_id row) (ms_db st)"
      using c calculation(1) by (simp add: module_roles_rows)
    ultimately show ?thesis by (simp add: passing_row_roles)
  qed
  have "passing_row (granted_roles st') \<lparr> mr_Module = am_Module a, mr_SortOrder = 100, mr_Enabled = False, mr_UpdatedBy = actor,
      mr_UpdatedAt = now \<rparr>"
    using c by (simp add: passing_row_def ModuleStatuses_def)
  then show "passing_row (granted_roles st') row" if "row \<in> set (ms_modules st')" for row using that c old by auto
qed

lemma updated_passing:
  assumes "passing st" "UpdateAdminModule down now i patch actor record st = (Ok a, st')"
    and "\<forall>s. mp_Status patch = Some s \<longrightarrow> s \<in> set ModuleStatuses"
  shows "passing st'"
proof (rule passingI)
  note u = UpdateAdminModule_ok [OF assms(2)]
  define f where "f r = (if row_id r = i
      then r \<lparr> mr_Module := (am_Module a) \<lparr> mo_Icon := mo_Icon (mr_Module r) \<rparr>, mr_Enabled := (mo_Status (am_Module a) \<noteq> ''disabled''),
               mr_UpdatedBy := actor, mr_UpdatedAt := now \<rparr> else r)" for r
  have rows: "ms_modules st' = map f (ms_modules st)" using u by (simp add: f_def)
  have db: "ms_db st' = auditInsert now record ((ms_db st) \<lparr> db_role_modules := role_rows i (mp_AllowedRoles patch) (ms_db st) \<rparr>)"
    and guard: "mo_Status (am_Module a) = ''active'' \<Longrightarrow> or_else (mp_AllowedRoles patch) (module_roles i (ms_db st)) \<noteq> []"
    using u by blast+
  have ids: "row_id (f r) = row_id r" for r using u by (simp add: f_def row_id_def)
  show "distinct (map row_id (ms_modules st'))" using assms(1) by (simp add: passing_def rows ids o_def)
  have "\<exists>row \<in> set (ms_modules st). row_id row = i \<and> mo_Status (am_Module a) = or_else (mp_Status patch) (mo_Status (mr_Module row))"
    using u by (auto dest!: found)
  then obtain row where row: "row \<in> set (ms_modules st)" "row_id row = i"
    "mo_Status (am_Module a) = or_else (mp_Status patch) (mo_Status (mr_Module row))" by blast
  have before: "passing_row (granted_roles st) row" using assms(1) row(1) by (simp add: passing_def)
  have seen: "mo_Status (am_Module a) = ''active'' \<longrightarrow> module_roles i (ms_db st') \<noteq> []"
    using guard by (cases "mp_AllowedRoles patch") (simp_all add: db module_roles_rows sort_empty)
  have status: "mo_Status (am_Module a) \<in> {''planned'', ''ready''} \<union> set ModuleStatuses"
    "mo_Status (am_Module a) = ''ready'' \<longrightarrow> i \<in> set real_modules"
    using row(2,3) before assms(3) by (cases "mp_Status patch"; auto simp: passing_row_def ModuleStatuses_def)+
  have "passing_row (granted_roles st') (f r)" if "r \<in> set (ms_modules st)" for r
  proof (cases "row_id r = i")
    case True
    then have "mo_Status (mr_Module (f r)) = mo_Status (am_Module a)" by (simp add: f_def)
    then show ?thesis using True status seen by (simp add: passing_row_roles ids)
  next
    case False
    then have "f r = r" "module_roles (row_id r) (ms_db st') = module_roles (row_id r) (ms_db st)"
      by (simp_all add: f_def db module_roles_rows)
    then show ?thesis using that assms(1) by (simp add: passing_row_roles passing_def)
  qed
  then show "passing_row (granted_roles st') r" if "r \<in> set (ms_modules st')" for r using that by (auto simp: rows)
qed

lemma requests_passing:
  assumes "passing st"
  shows "passing (snd (adminCreateModule down ev hx access input st))" "passing (snd (adminUpdateModule down ev hx access pathID patched st))"
proof -
  obtain r st1 where c: "adminCreateModule down ev hx access input st = (r, st1)" by fastforce
  from c show "passing (snd (adminCreateModule down ev hx access input st))"
    by (cases rule: adminCreateModule_cases) (use c assms created_passing in auto)
  obtain r' st2 where u: "adminUpdateModule down ev hx access pathID patched st = (r', st2)" by fastforce
  from u show "passing (snd (adminUpdateModule down ev hx access pathID patched st))"
    by (cases rule: adminUpdateModule_cases) (use u assms updated_passing patch_of_ok(1) in auto)
qed

text \<open>
  A store starts with no modules; from there the catalogue is written by the files of the starts, each of which may stop before any file (so
  the files come in any order; even those of starts that have lost the migration lock), and by the two administration endpoints of the instances that are
  serving, between two files too, with any statement failing.
\<close>

inductive requests :: "ModuleStore \<Rightarrow> ModuleStore \<Rightarrow> bool" where
  none: "requests st st"
| created: "requests st t \<Longrightarrow> requests st (snd (adminCreateModule down ev hx access input t))"
| updated: "requests st t \<Longrightarrow> requests st (snd (adminUpdateModule down ev hx access pathID patched t))"

inductive catalogue_run :: "ModuleStore \<Rightarrow> bool" where
  fresh: "ms_modules st = [] \<Longrightarrow> catalogue_run st"
| migrated: "catalogue_run st \<Longrightarrow> f \<in> set (catalogue_files descr now) \<Longrightarrow> catalogue_run (f st)"
| requested: "catalogue_run st \<Longrightarrow> requests st st' \<Longrightarrow> catalogue_run st'"

lemma replay_reached:
  assumes "catalogue_run st"
  shows "catalogue_run (replay descr now st)" "catalogue_run (before_018 descr now st)"
proof -
  have files: "catalogue_run (fold (\<lambda>f. f) fs u)" if "set fs \<subseteq> set (catalogue_files descr now)" "catalogue_run u" for fs u
    using that by (induction fs arbitrary: u) (auto intro: catalogue_run.migrated)
  show "catalogue_run (replay descr now st)" unfolding replay_def by (rule files [OF subset_refl assms])
  have "before_018 descr now st = fold (\<lambda>f. f) (butlast (catalogue_files descr now)) st"
    by (simp add: before_018_def catalogue_files_def)
  then show "catalogue_run (before_018 descr now st)" using files [OF _ assms, of "butlast (catalogue_files descr now)"]
    by (simp add: in_set_butlastD subsetI)
qed

text \<open>
  C9.  Every catalogue the program can reach is in order, wherever starts stopped and whatever requests came in, between two files too: module
  identifiers are unique, every status is one of the vocabulary or one that the files write on their way (planned, and ready for the three real applications
  only), and an active module has a role that sees it or is one of those three.  And from each of them a start that gets through its files with
  nothing in between leaves a catalogue, as does every request after it, with statuses of the vocabulary only and a role for every active module.
\<close>

theorem catalogue_always_ok:
  assumes "catalogue_run st"
  shows "distinct (map row_id (ms_modules st)) \<and>
    (\<forall>row \<in> set (ms_modules st).
       mo_Status (mr_Module row) \<in> {''active'', ''disabled'', ''maintenance'', ''planned'', ''ready''} \<and>
       (mo_Status (mr_Module row) = ''ready'' \<longrightarrow> row_id row \<in> {''redmine'', ''outline'', ''nextcloud''}) \<and>
       (mo_Status (mr_Module row) = ''active'' \<longrightarrow>
          module_roles (row_id row) (ms_db st) \<noteq> [] \<or> row_id row \<in> {''redmine'', ''outline'', ''nextcloud''})) \<and>
    (\<forall>st'. requests (replay descr now st) st' \<longrightarrow> distinct (map row_id (ms_modules st')) \<and>
       (\<forall>row \<in> set (ms_modules st'). mo_Status (mr_Module row) \<in> {''active'', ''disabled'', ''maintenance''} \<and>
          (mo_Status (mr_Module row) = ''active'' \<longrightarrow> module_roles (row_id row) (ms_db st') \<noteq> [])))"
proof -
  have kept: "requests st st' \<Longrightarrow> passing st \<Longrightarrow> passing st'" for st st'
    by (induction rule: requests.induct) (simp_all add: requests_passing)
  have pass: "passing st" using assms
  proof (induction rule: catalogue_run.induct)
    case (fresh st)
    then show ?case by (simp add: passing_def)
  next
    case (migrated st f descr now)
    then show ?case using passing_file by blast
  qed (use kept in blast)+
  have "catalogue_ok st'" if "requests (replay descr now st) st'" for st'
    using that replay_ok [OF pass]
    by (induction "replay descr now st" st' rule: requests.induct) (simp_all add: create_keeps_ok update_keeps_ok)
  then show ?thesis using pass
    by (auto simp: passing_def passing_row_roles real_modules_def ModuleStatuses_def catalogue_ok_def row_ok_def)
qed

subsection \<open>A disabled application after a restart\<close>

definition first_start :: ModuleStore where
  "first_start = replay (\<lambda>i. i) 1 \<lparr> ms_db = sample_db, ms_modules = [] \<rparr>"

definition redmine_off :: "AdminModule Reply \<times> ModuleStore" where
  "redmine_off = adminUpdateModule (\<lambda>_. False) demo_env catalogue_hx catalogue_admin ''redmine''
     (Some \<lparr> um_Name = None, um_Description = None, um_LaunchURL = None, um_Status = Some ''disabled'', um_AllowedRoles = Some [] \<rparr>) first_start"

lemma redmine_off_reached: "catalogue_run (snd redmine_off)"
  unfolding redmine_off_def first_start_def
  by (rule catalogue_run.requested [OF replay_reached(1) [OF catalogue_run.fresh] requests.updated [OF requests.none]]) simp

theorem catalogue_always_ok_witness:
  "distinct (map row_id (ms_modules (snd redmine_off))) \<and> ''redmine'' \<in> row_id ` set (ms_modules (snd redmine_off)) \<and> rp_Status (fst redmine_off) = 200"
proof (intro conjI)
  show "distinct (map row_id (ms_modules (snd redmine_off)))"
    by (rule catalogue_always_ok [OF redmine_off_reached, THEN conjunct1])
  show "''redmine'' \<in> row_id ` set (ms_modules (snd redmine_off))" by code_simp
  show "rp_Status (fst redmine_off) = 200" by code_simp
qed

text \<open>
  The exception is there: a request that takes the roles of an application away between the files 017 and 018 of another instance's start is accepted, since
  the module is not active at that moment, and 018 then activates it with nobody to see it.
\<close>

definition roles_taken :: "AdminModule Reply \<times> ModuleStore" where
  "roles_taken = adminUpdateModule (\<lambda>_. False) demo_env catalogue_hx catalogue_admin ''nextcloud''
     (Some \<lparr> um_Name = None, um_Description = None, um_LaunchURL = None, um_Status = None, um_AllowedRoles = Some [] \<rparr>)
     (before_018 (\<lambda>i. i) 9 first_start)"

theorem racing_start_unroles:
  "rp_Status (fst roles_taken) = 200 \<and> catalogue_run (migration_018 9 (snd roles_taken)) \<and>
   (\<exists>row \<in> set (ms_modules (migration_018 9 (snd roles_taken))). row_id row = ''nextcloud'' \<and> mo_Status (mr_Module row) = ''active'' \<and>
      module_roles ''nextcloud'' (ms_db (migration_018 9 (snd roles_taken))) = [])"
proof (intro conjI)
  show "rp_Status (fst roles_taken) = 200" by code_simp
  have "catalogue_run (before_018 (\<lambda>i. i) 9 first_start)"
    unfolding first_start_def by (intro replay_reached catalogue_run.fresh) simp
  then have "catalogue_run (snd roles_taken)"
    unfolding roles_taken_def by (rule catalogue_run.requested) (rule requests.updated [OF requests.none])
  then show "catalogue_run (migration_018 9 (snd roles_taken))"
    by (rule catalogue_run.migrated [where descr = "\<lambda>i. i" and now = 9]) (simp add: catalogue_files_def)
  show "\<exists>row \<in> set (ms_modules (migration_018 9 (snd roles_taken))). row_id row = ''nextcloud'' \<and> mo_Status (mr_Module row) = ''active'' \<and>
      module_roles ''nextcloud'' (ms_db (migration_018 9 (snd roles_taken))) = []"
    by code_simp
qed

theorem startup_reactivates_witness:
  "(\<exists>row \<in> set (ms_modules (snd redmine_off)). row_id row = ''redmine'' \<and> mo_Status (mr_Module row) = ''disabled'' \<and> \<not> mr_Enabled row) \<and>
   (''administrator'', ''redmine'') \<notin> set (db_role_modules (ms_db (snd redmine_off))) \<and>
   (\<exists>row \<in> set (ms_modules (replay (\<lambda>i. i) 9 (snd redmine_off))).
      row_id row = ''redmine'' \<and> mo_Status (mr_Module row) = ''active'' \<and> mr_Enabled row) \<and>
   (''administrator'', ''redmine'') \<in> set (db_role_modules (ms_db (replay (\<lambda>i. i) 9 (snd redmine_off))))"
proof -
  have ok: "catalogue_ok (snd redmine_off)" by code_simp
  have "\<exists>row \<in> set (ms_modules (snd redmine_off)). row_id row = ''redmine'' \<and> mo_Status (mr_Module row) = ''disabled'' \<and> \<not> mr_Enabled row"
    by code_simp
  moreover have "(''administrator'', ''redmine'') \<notin> set (db_role_modules (ms_db (snd redmine_off)))" by code_simp
  ultimately show ?thesis using startup_reactivates [OF ok, of "\<lambda>i. i" 9] by blast
qed

end
