(* ===== verification/MappingAudit.thy ===== *)
theory MappingAudit
  imports Platform "HOL-Library.Multiset"
begin

section \<open>The mapping audit (cmd/mapping-audit)\<close>

text \<open>
  The read-only diagnostic over the mapping table: the SELECTs that collect its input, the four checks, the order of the findings,
  the summary, the text report and the exit code.  Go iterates over a map in any order; the order in which the groups of
  ambiguousSourceIDs are visited is the argument visited.  A column that is NULL and one that is empty are both the empty string, which is
  what NULLIF on the way in and COALESCE on the way out make of them.  The JSON report is not modelled.
\<close>

subsection \<open>Findings and input\<close>

datatype Severity = SeverityError | SeverityWarning

record Finding =
  fi_Kind :: string
  fi_Severity :: Severity
  fi_GlobalID :: string
  fi_EntityType :: string
  fi_Source :: string
  fi_SourceID :: string
  fi_Related :: string
  fi_Detail :: string

record MappingRow =
  ma_GlobalID :: string
  ma_EntityType :: string
  ma_Source :: string
  ma_SourceID :: string
  ma_TenantID :: string

record AuditRelation =
  rf_Holder :: string
  rf_Field :: string
  rf_Target :: string

record AuditInput =
  ai_Mappings :: "MappingRow list"
  ai_Prefixes :: "string \<rightharpoonup> string"
  ai_Relations :: "AuditRelation list"
  ai_OwnerlessHolders :: "AuditRelation list"

definition mapping_finding :: "string \<Rightarrow> string \<Rightarrow> MappingRow \<Rightarrow> Finding" where
  "mapping_finding kind detail m =
     \<lparr> fi_Kind = kind, fi_Severity = SeverityError, fi_GlobalID = ma_GlobalID m, fi_EntityType = ma_EntityType m,
       fi_Source = ma_Source m, fi_SourceID = ma_SourceID m, fi_Related = [], fi_Detail = detail \<rparr>"

definition relation_finding :: "string \<Rightarrow> Severity \<Rightarrow> string \<Rightarrow> string \<Rightarrow> string \<Rightarrow> Finding" where
  "relation_finding kind severity holder related detail =
     \<lparr> fi_Kind = kind, fi_Severity = severity, fi_GlobalID = holder, fi_EntityType = [], fi_Source = [], fi_SourceID = [],
       fi_Related = related, fi_Detail = detail \<rparr>"

subsection \<open>The four checks\<close>

definition carries :: "string \<Rightarrow> string \<Rightarrow> bool" where
  "carries globalID prefix \<longleftrightarrow> HasPrefix globalID (prefix @ ''-'')"

definition prefix_check :: "(string \<rightharpoonup> string) \<Rightarrow> MappingRow \<Rightarrow> Finding list" where
  "prefix_check prefixes m =
     (case prefixes (ma_EntityType m) of
        None \<Rightarrow> [mapping_finding ''unregistered_entity_type'' ''entity type has no registered Global ID prefix'' m]
      | Some prefix \<Rightarrow>
          if carries (ma_GlobalID m) prefix then []
          else [mapping_finding ''invalid_global_id_prefix''
                  ''Global ID does not carry the prefix registered for its entity type'' m])"

definition invalidPrefixes :: "AuditInput \<Rightarrow> Finding list" where
  "invalidPrefixes inp = concat (map (prefix_check (ai_Prefixes inp)) (ai_Mappings inp))"

definition dedupe :: "string list \<Rightarrow> string list" where
  "dedupe values = sort (fold (\<lambda>v out. if v \<in> set out then out else out @ [v]) values [])"

definition source_key :: "MappingRow \<Rightarrow> string \<times> string" where
  "source_key m = (ma_Source m, ma_SourceID m)"

definition source_group :: "(string \<times> string) \<Rightarrow> AuditInput \<Rightarrow> MappingRow list" where
  "source_group k inp = sort_key ma_GlobalID (filter (\<lambda>m. source_key m = k) (ai_Mappings inp))"

definition group_check :: "AuditInput \<Rightarrow> string \<times> string \<Rightarrow> Finding list" where
  "group_check inp k =
     (let grp = source_group k inp; ids = map ma_GlobalID grp
      in if length grp < 2 then []
         else [\<lparr> fi_Kind = ''ambiguous_source_mapping'', fi_Severity = SeverityWarning, fi_GlobalID = hd ids,
                 fi_EntityType = Join (dedupe (map ma_EntityType grp)) '','', fi_Source = fst k, fi_SourceID = snd k,
                 fi_Related = Join (tl ids) '','', fi_Detail = ''one upstream record is mapped to more than one Global ID'' \<rparr>])"

definition ambiguousSourceIDs :: "(string \<times> string) list \<Rightarrow> AuditInput \<Rightarrow> Finding list" where
  "ambiguousSourceIDs visited inp = concat (map (group_check inp) visited)"

definition dangling_check :: "AuditInput \<Rightarrow> AuditRelation \<Rightarrow> Finding list" where
  "dangling_check inp r =
     (if rf_Target r = [] \<or> rf_Target r \<in> ma_GlobalID ` set (ai_Mappings inp) then []
      else [relation_finding ''missing_referenced_mapping'' SeverityError (rf_Holder r) (rf_Target r)
              (''references a Global ID with no mapping, via '' @ rf_Field r)])"

definition danglingReferences :: "AuditInput \<Rightarrow> Finding list" where
  "danglingReferences inp = concat (map (dangling_check inp) (ai_Relations inp))"

definition ownership_finding :: "AuditRelation \<Rightarrow> Finding" where
  "ownership_finding r = relation_finding ''missing_ownership'' SeverityWarning (rf_Holder r) []
     (''no owning client in '' @ rf_Field r @ ''; the record is denied to every customer'')"

definition missingOwnership :: "AuditInput \<Rightarrow> Finding list" where
  "missingOwnership inp = map ownership_finding (ai_OwnerlessHolders inp)"

text \<open>sort.SliceStable with the comparison of Audit: errors first, then by kind, then by identifier.\<close>

definition finding_rank :: "Finding \<Rightarrow> bool \<times> string \<times> string" where
  "finding_rank f = (fi_Severity f \<noteq> SeverityError, fi_Kind f, fi_GlobalID f)"

definition Audit :: "(string \<times> string) list \<Rightarrow> AuditInput \<Rightarrow> Finding list" where
  "Audit visited inp =
     sort_key finding_rank (invalidPrefixes inp @ ambiguousSourceIDs visited inp @ danglingReferences inp @ missingOwnership inp)"

text \<open>The orders in which a range over the map of groups may run.\<close>

definition iteration :: "(string \<times> string) list \<Rightarrow> AuditInput \<Rightarrow> bool" where
  "iteration visited inp \<longleftrightarrow> distinct visited \<and> set visited = source_key ` set (ai_Mappings inp)"

subsection \<open>Summary, report, exit code\<close>

record Summary =
  sm_Errors :: nat
  sm_Warnings :: nat

definition audit_Summarize :: "Finding list \<Rightarrow> Summary" where
  "audit_Summarize findings =
     \<lparr> sm_Errors = length (filter (\<lambda>f. fi_Severity f = SeverityError) findings),
       sm_Warnings = length (filter (\<lambda>f. fi_Severity f = SeverityWarning) findings) \<rparr>"

definition PadRight :: "nat \<Rightarrow> string \<Rightarrow> string" where
  "PadRight n s = s @ replicate (n - length s) CHR '' ''"

definition severity_text :: "Severity \<Rightarrow> string" where
  "severity_text s = (case s of SeverityError \<Rightarrow> ''error'' | SeverityWarning \<Rightarrow> ''warning'')"

definition finding_text :: "Finding \<Rightarrow> string" where
  "finding_text f =
     PadRight 8 (severity_text (fi_Severity f)) @ '' '' @ PadRight 28 (fi_Kind f) @ '' '' @ PadRight 14 (fi_GlobalID f) @ '' '' @
     fi_Detail f @ [CHR 0x0A] @
     (if fi_Source f \<noteq> []
      then ''         source='' @ fi_Source f @ '' source_id='' @ fi_SourceID f @ '' type='' @ fi_EntityType f @ [CHR 0x0A] else []) @
     (if fi_Related f \<noteq> [] then ''         related='' @ fi_Related f @ [CHR 0x0A] else [])"

definition Text :: "Finding list \<Rightarrow> Summary \<Rightarrow> string" where
  "Text findings s =
     ''mapping audit: '' @ Itoa (int (sm_Errors s)) @ '' error(s), '' @ Itoa (int (sm_Warnings s)) @ '' warning(s)'' @ [CHR 0x0A] @
     (if findings = [] then ''no findings'' @ [CHR 0x0A] else concat (map finding_text findings))"

definition exit_code :: "bool \<Rightarrow> string \<Rightarrow> (DBError + AuditInput) \<Rightarrow> (AuditInput \<Rightarrow> (string \<times> string) list) \<Rightarrow> int" where
  "exit_code failOnWarning databaseURL input visited =
     (if TrimSpace databaseURL = [] then 2
      else case input of
        Inl _ \<Rightarrow> 2
      | Inr inp \<Rightarrow>
          (let s = audit_Summarize (Audit (visited inp) inp)
           in if sm_Errors s > 0 \<or> (failOnWarning \<and> sm_Warnings s > 0) then 1 else 0))"

text \<open>strings.ReplaceAll for a substring that is not empty.\<close>

fun ReplaceAll :: "string \<Rightarrow> string \<Rightarrow> string \<Rightarrow> string" where
  "ReplaceAll [] old new = []"
| "ReplaceAll (c # cs) old new =
     (if HasPrefix (c # cs) old then new @ ReplaceAll (drop (length old - 1) cs) old new else c # ReplaceAll cs old new)"

definition redactDSN :: "string \<Rightarrow> string \<Rightarrow> string" where
  "redactDSN message dsn = (if dsn = [] then message else ReplaceAll message dsn ''[DATABASE_URL]'')"

subsection \<open>Collecting the input\<close>

definition mapping_of :: "GlobalEntity \<Rightarrow> MappingRow" where
  "mapping_of e = \<lparr> ma_GlobalID = ge_GlobalID e, ma_EntityType = ge_EntityType e, ma_Source = ge_Source e,
     ma_SourceID = ge_SourceID e, ma_TenantID = ge_TenantID e \<rparr>"

definition relationQueries :: "Platform \<Rightarrow> (string \<times> (string \<times> string) list) list" where
  "relationQueries pf =
     [(''servers.client_id'', map (\<lambda>s. (sr_ID s, sr_ClientID s)) (pf_servers pf)),
      (''servers.project_id'', map (\<lambda>s. (sr_ID s, sr_ProjectID s)) (pf_servers pf)),
      (''support_records.client_id'', map (\<lambda>s. (sp_ID s, sp_ClientID s)) (pf_support pf))]"

definition ownerlessQueries :: "Platform \<Rightarrow> (string \<times> string list) list" where
  "ownerlessQueries pf =
     [(''servers.client_id'', map sr_ID (filter (\<lambda>s. sr_ClientID s = []) (pf_servers pf))),
      (''support_records.client_id'', map sp_ID (filter (\<lambda>s. sp_ClientID s = []) (pf_support pf)))]"

definition audit_read :: "down \<Rightarrow> Platform \<Rightarrow> DBError + AuditInput" where
  "audit_read down pf =
     bind_result (statement down ''connect'' ()) (\<lambda>_.
     bind_result (statement down ''audit_entities'' (map mapping_of (db_entities (pf_db pf)))) (\<lambda>mappings.
     bind_result (statement down ''audit_prefixes'' (map (\<lambda>c. (ct_EntityType c, ct_Prefix c)) (db_counters (pf_db pf)))) (\<lambda>prefixes.
     bind_result (map_result (\<lambda>(field, rows). statement down (''references '' @ field)
         (map (\<lambda>(holder, target). \<lparr> rf_Holder = holder, rf_Field = field, rf_Target = target \<rparr>) rows)) (relationQueries pf)) (\<lambda>relations.
     bind_result (map_result (\<lambda>(field, holders). statement down (''ownerless '' @ field)
         (map (\<lambda>holder. \<lparr> rf_Holder = holder, rf_Field = field, rf_Target = [] \<rparr>) holders)) (ownerlessQueries pf)) (\<lambda>ownerless.
       Ok \<lparr> ai_Mappings = mappings, ai_Prefixes = map_of (rev prefixes), ai_Relations = concat relations,
            ai_OwnerlessHolders = concat ownerless \<rparr>)))))"

subsection \<open>Sorting by rank, and findings by label\<close>

lemma mset_of_ranks:
  assumes "\<And>k. filter (\<lambda>x. f x = k) xs = filter (\<lambda>x. f x = k) ys"
  shows "mset xs = mset ys"
proof (rule multiset_eqI)
  fix x
  have c: "count (mset zs) x = count (mset (filter (\<lambda>y. f y = f x) zs)) x" for zs by simp
  show "count (mset xs) x = count (mset ys) x" unfolding c [of xs] c [of ys] assms by simp
qed

lemma sort_key_by_rank:
  fixes f :: "'a \<Rightarrow> 'k :: linorder"
  assumes "\<And>k. filter (\<lambda>x. f x = k) xs = filter (\<lambda>x. f x = k) ys"
  shows "sort_key f xs = sort_key f ys"
proof (rule properties_for_sort_key)
  show "mset (sort_key f ys) = mset xs" using mset_of_ranks [OF assms] by simp
  show "filter (\<lambda>x. f k = f x) (sort_key f ys) = filter (\<lambda>x. f k = f x) xs" if "k \<in> set (sort_key f ys)" for k
  proof -
    have "filter (\<lambda>x. f x = f k) (sort_key f ys) = filter (\<lambda>x. f x = f k) xs" by (simp add: sort_key_stable assms)
    then show ?thesis by (simp only: eq_commute)
  qed
qed simp

lemma concat_by_label:
  assumes "\<And>x. x \<in> set xs \<Longrightarrow> f x \<noteq> a \<Longrightarrow> h x = []"
  shows "concat (map h xs) = concat (map h (filter (\<lambda>x. f x = a) xs))"
  using assms by (induction xs) auto

lemma one_labelled:
  assumes "mset xs = mset ys" "distinct (map f xs)"
  shows "filter (\<lambda>x. f x = a) xs = filter (\<lambda>x. f x = a) ys"
proof -
  have "length (filter (\<lambda>x. f x = a) xs) \<le> 1" using assms(2)
    by (induction xs) (auto simp: filter_empty_conv image_iff)
  moreover have "mset (filter (\<lambda>x. f x = a) xs) = mset (filter (\<lambda>x. f x = a) ys)" using assms(1) by simp
  ultimately show ?thesis
    by (cases "filter (\<lambda>x. f x = a) xs"; cases "filter (\<lambda>x. f x = a) ys") (auto simp: mset_filter [symmetric] simp del: mset_filter dest: sym)
qed

lemma finding_fields [simp]:
  "fi_GlobalID (mapping_finding k d m) = ma_GlobalID m" "fi_Severity (mapping_finding k d m) = SeverityError"
  "fi_Kind (mapping_finding k d m) = k"
  "fi_GlobalID (relation_finding k s h t d) = h" "fi_Severity (relation_finding k s h t d) = s" "fi_Kind (relation_finding k s h t d) = k"
  by (simp_all add: mapping_finding_def relation_finding_def)

lemma ownership_holder [simp]: "fi_GlobalID (ownership_finding r) = rf_Holder r"
  by (simp add: ownership_finding_def)

text \<open>What a check says of one item, kept if it is of the given rank.\<close>

definition ranked_as :: "bool \<times> string \<times> string \<Rightarrow> ('a \<Rightarrow> Finding list) \<Rightarrow> 'a \<Rightarrow> Finding list" where
  "ranked_as k h x = filter (\<lambda>f. finding_rank f = k) (h x)"

lemma ranked_concat: "filter (\<lambda>f. finding_rank f = k) (concat (map h xs)) = concat (map (ranked_as k h) xs)"
  by (induction xs) (simp_all add: ranked_as_def)

lemma same_findings:
  fixes k :: "bool \<times> string \<times> string"
  assumes "filter (\<lambda>x. f x = snd (snd k)) xs = filter (\<lambda>x. f x = snd (snd k)) ys"
    and "\<And>x g. x \<in> set xs \<union> set ys \<Longrightarrow> g \<in> set (h x) \<Longrightarrow> fi_GlobalID g = f x"
  shows "filter (\<lambda>g. finding_rank g = k) (concat (map h xs)) = filter (\<lambda>g. finding_rank g = k) (concat (map h ys))"
proof -
  have "ranked_as k h x = []" if "x \<in> set xs \<union> set ys" "f x \<noteq> snd (snd k)" for x
    using assms(2) [OF that(1)] that(2) by (fastforce simp: ranked_as_def filter_empty_conv finding_rank_def)
  then have "concat (map (ranked_as k h) zs) = concat (map (ranked_as k h) (filter (\<lambda>x. f x = snd (snd k)) zs))"
    if "set zs \<subseteq> set xs \<union> set ys" for zs by (intro concat_by_label) (use that in blast)
  from this [of xs] this [of ys] show ?thesis unfolding ranked_concat using assms(1) by simp
qed

subsection \<open>The groups\<close>

lemma source_group_in: "m \<in> set (source_group k inp) \<longleftrightarrow> m \<in> set (ai_Mappings inp) \<and> source_key m = k"
  by (auto simp: source_group_def)

lemma source_group_perm:
  assumes "mset (ai_Mappings inp) = mset (ai_Mappings inp')" "distinct (map ma_GlobalID (ai_Mappings inp))"
  shows "source_group k inp = source_group k inp'"
  unfolding source_group_def
proof (rule sort_key_inj_key_eq)
  show "mset (filter (\<lambda>m. source_key m = k) (ai_Mappings inp)) =
      mset (sort_key ma_GlobalID (filter (\<lambda>m. source_key m = k) (ai_Mappings inp')))" using assms(1) by simp
  show "inj_on ma_GlobalID (set (filter (\<lambda>m. source_key m = k) (ai_Mappings inp)))"
    using assms(2) by (auto simp: distinct_map intro: inj_on_subset)
qed simp

definition group_id :: "AuditInput \<Rightarrow> string \<times> string \<Rightarrow> string" where
  "group_id inp k = ma_GlobalID (hd (source_group k inp))"

lemma group_first:
  assumes "k \<in> source_key ` set (ai_Mappings inp)"
  shows "hd (source_group k inp) \<in> set (ai_Mappings inp)" "source_key (hd (source_group k inp)) = k"
proof -
  from assms obtain m where "m \<in> set (ai_Mappings inp)" "source_key m = k" by (rule imageE) simp
  then have "m \<in> set (source_group k inp)" by (simp add: source_group_in)
  then have "hd (source_group k inp) \<in> set (source_group k inp)" by (intro hd_in_set) auto
  then show "hd (source_group k inp) \<in> set (ai_Mappings inp)" "source_key (hd (source_group k inp)) = k"
    by (simp_all add: source_group_in)
qed

lemma group_ids_distinct:
  assumes "iteration visited inp" "distinct (map ma_GlobalID (ai_Mappings inp))"
  shows "distinct (map (group_id inp) visited)"
proof -
  have inj: "inj_on ma_GlobalID (set (ai_Mappings inp))" using assms(2) by (simp add: distinct_map)
  have "inj_on (group_id inp) (source_key ` set (ai_Mappings inp))"
  proof (rule inj_onI)
    fix k k' assume k: "k \<in> source_key ` set (ai_Mappings inp)" "k' \<in> source_key ` set (ai_Mappings inp)" "group_id inp k = group_id inp k'"
    have "hd (source_group k inp) = hd (source_group k' inp)"
      by (rule inj_onD [OF inj k(3) [unfolded group_id_def] group_first(1) [OF k(1)] group_first(1) [OF k(2)]])
    then have "source_key (hd (source_group k inp)) = source_key (hd (source_group k' inp))" by (rule arg_cong)
    then show "k = k'" unfolding group_first(2) [OF k(1)] group_first(2) [OF k(2)] .
  qed
  then show ?thesis using assms(1) unfolding iteration_def distinct_map by metis
qed

lemma group_check_id: "g \<in> set (group_check inp k) \<Longrightarrow> fi_GlobalID g = group_id inp k"
  by (cases "source_group k inp") (auto simp: group_check_def Let_def group_id_def split: if_splits)

text \<open>
  C25.  Two runs over the same tables report the same, line by line: the order in which the rows come back, and the order in which the groups of
  equal source records are visited, make no difference to the list of findings, as long as identifiers are unique and the references one entity
  holds come in the order of the queries.
\<close>

theorem audit_reproducible:
  assumes "iteration visited inp" "iteration visited' inp'"
    and "mset (ai_Mappings inp) = mset (ai_Mappings inp')" "distinct (map ma_GlobalID (ai_Mappings inp))"
    and "ai_Prefixes inp = ai_Prefixes inp'"
    and "\<And>h. filter (\<lambda>r. rf_Holder r = h) (ai_Relations inp) = filter (\<lambda>r. rf_Holder r = h) (ai_Relations inp')"
    and "\<And>h. filter (\<lambda>r. rf_Holder r = h) (ai_OwnerlessHolders inp) = filter (\<lambda>r. rf_Holder r = h) (ai_OwnerlessHolders inp')"
  shows "Audit visited inp = Audit visited' inp'"
  unfolding Audit_def
proof (rule sort_key_by_rank)
  fix k
  let ?k = "\<lambda>g. finding_rank g = k"
  have rows: "set (ai_Mappings inp) = set (ai_Mappings inp')" using assms(3) by (metis set_mset_mset)
  have checks: "group_check inp' = group_check inp" "dangling_check inp' = dangling_check inp"
    using source_group_perm [OF assms(3,4)] rows by (simp_all add: group_check_def dangling_check_def fun_eq_iff)
  have visits: "mset visited = mset visited'" using assms(1,2) rows by (simp add: iteration_def set_eq_iff_mset_eq_distinct [symmetric])
  have "filter ?k (invalidPrefixes inp) = filter ?k (invalidPrefixes inp')"
    unfolding invalidPrefixes_def assms(5)
    by (rule same_findings [where f = ma_GlobalID]) (use one_labelled [OF assms(3,4)] in \<open>auto simp: prefix_check_def split: option.splits if_splits\<close>)
  moreover have "filter ?k (ambiguousSourceIDs visited inp) = filter ?k (ambiguousSourceIDs visited' inp')"
    unfolding ambiguousSourceIDs_def checks
    by (rule same_findings [where f = "group_id inp"])
      (use one_labelled [OF visits group_ids_distinct [OF assms(1,4)]] group_check_id in auto)
  moreover have "filter ?k (danglingReferences inp) = filter ?k (danglingReferences inp')"
    unfolding danglingReferences_def checks
    by (rule same_findings [where f = rf_Holder]) (use assms(6) in \<open>auto simp: dangling_check_def split: if_splits\<close>)
  moreover have "filter ?k (missingOwnership inp) = filter ?k (missingOwnership inp')"
    using same_findings [where f = rf_Holder and xs = "ai_OwnerlessHolders inp" and ys = "ai_OwnerlessHolders inp'" and
        h = "\<lambda>r. [ownership_finding r]" and k = k] assms(7)
    by (simp add: missingOwnership_def)
  ultimately show "filter ?k (invalidPrefixes inp @ ambiguousSourceIDs visited inp @ danglingReferences inp @ missingOwnership inp) =
      filter ?k (invalidPrefixes inp' @ ambiguousSourceIDs visited' inp' @ danglingReferences inp' @ missingOwnership inp')"
    by simp
qed

subsection \<open>The verdict\<close>

lemma all_findings:
  "set (Audit visited inp) = set (invalidPrefixes inp) \<union> set (ambiguousSourceIDs visited inp) \<union>
     set (danglingReferences inp) \<union> set (missingOwnership inp)"
  by (simp add: Audit_def Un_assoc)

lemma no_errors: "sm_Errors (audit_Summarize fs) = 0 \<longleftrightarrow> (\<forall>f \<in> set fs. fi_Severity f = SeverityWarning)"
  by (auto simp: audit_Summarize_def filter_empty_conv) (metis Severity.exhaust)

lemma no_warnings: "sm_Warnings (audit_Summarize fs) = 0 \<longleftrightarrow> (\<forall>f \<in> set fs. fi_Severity f = SeverityError)"
  by (auto simp: audit_Summarize_def filter_empty_conv) (metis Severity.exhaust)

lemma check_severities [simp]:
  "f \<in> set (prefix_check ps m) \<Longrightarrow> fi_Severity f = SeverityError" "f \<in> set (group_check inp k) \<Longrightarrow> fi_Severity f = SeverityWarning"
  "f \<in> set (dangling_check inp r) \<Longrightarrow> fi_Severity f = SeverityError" "fi_Severity (ownership_finding r) = SeverityWarning"
  by (auto simp: prefix_check_def group_check_def dangling_check_def ownership_finding_def Let_def split: option.splits if_splits)

lemma error_findings:
  "(\<forall>f \<in> set (Audit visited inp). fi_Severity f = SeverityWarning) \<longleftrightarrow> invalidPrefixes inp = [] \<and> danglingReferences inp = []"
proof -
  have "\<forall>f \<in> set (invalidPrefixes inp) \<union> set (danglingReferences inp). fi_Severity f = SeverityError"
    by (auto simp: invalidPrefixes_def danglingReferences_def)
  moreover have "\<forall>f \<in> set (ambiguousSourceIDs visited inp) \<union> set (missingOwnership inp). fi_Severity f = SeverityWarning"
    by (auto simp: ambiguousSourceIDs_def missingOwnership_def)
  ultimately show ?thesis unfolding all_findings
    by (cases "invalidPrefixes inp"; cases "danglingReferences inp") auto
qed

lemma warning_findings:
  "(\<forall>f \<in> set (Audit visited inp). fi_Severity f = SeverityError) \<longleftrightarrow> ambiguousSourceIDs visited inp = [] \<and> missingOwnership inp = []"
proof -
  have "\<forall>f \<in> set (invalidPrefixes inp) \<union> set (danglingReferences inp). fi_Severity f = SeverityError"
    by (auto simp: invalidPrefixes_def danglingReferences_def)
  moreover have "\<forall>f \<in> set (ambiguousSourceIDs visited inp) \<union> set (missingOwnership inp). fi_Severity f = SeverityWarning"
    by (auto simp: ambiguousSourceIDs_def missingOwnership_def)
  ultimately show ?thesis unfolding all_findings
    by (cases "ambiguousSourceIDs visited inp"; cases "missingOwnership inp") auto
qed

lemma prefix_check_empty: "prefix_check ps m = [] \<longleftrightarrow> (\<exists>p. ps (ma_EntityType m) = Some p \<and> carries (ma_GlobalID m) p)"
  by (auto simp: prefix_check_def split: option.splits)

lemma short_distinct: "distinct xs \<Longrightarrow> length xs < 2 \<longleftrightarrow> (\<forall>x \<in> set xs. \<forall>y \<in> set xs. x = y)"
  by (cases xs rule: remdups_adj.cases) auto

lemma group_check_empty:
  assumes "distinct (map ma_GlobalID (ai_Mappings inp))"
  shows "group_check inp k = [] \<longleftrightarrow>
    (\<forall>m \<in> set (ai_Mappings inp). \<forall>m' \<in> set (ai_Mappings inp). source_key m = k \<longrightarrow> source_key m' = k \<longrightarrow> m = m')"
proof -
  have "distinct (source_group k inp)" using assms by (auto simp: source_group_def distinct_map)
  from short_distinct [OF this] have "length (source_group k inp) < 2 \<longleftrightarrow>
     (\<forall>m \<in> set (ai_Mappings inp). \<forall>m' \<in> set (ai_Mappings inp). source_key m = k \<longrightarrow> source_key m' = k \<longrightarrow> m = m')"
    by (auto simp: source_group_in)
  moreover have "group_check inp k = [] \<longleftrightarrow> length (source_group k inp) < 2" by (simp add: group_check_def Let_def)
  ultimately show ?thesis by simp
qed

text \<open>
  C24.  The verdict is exact.  The audit counts no error exactly if every mapping carries the prefix registered for its type and every reference that is
  set resolves, and no warning exactly if no upstream record has two mappings and no holder is without an owner; the exit code is 0 on a clean
  table and 1 on one with an error, and a warning alone fails the run only when that was asked for.
\<close>

theorem audit_verdict:
  assumes "iteration (visited inp) inp" "distinct (map ma_GlobalID (ai_Mappings inp))" "TrimSpace dsn \<noteq> []"
  defines "sound \<equiv> (\<forall>m \<in> set (ai_Mappings inp). \<exists>p. ai_Prefixes inp (ma_EntityType m) = Some p \<and> carries (ma_GlobalID m) p) \<and>
      (\<forall>r \<in> set (ai_Relations inp). rf_Target r = [] \<or> rf_Target r \<in> ma_GlobalID ` set (ai_Mappings inp))"
    and "tidy \<equiv> (\<forall>m \<in> set (ai_Mappings inp). \<forall>m' \<in> set (ai_Mappings inp). source_key m = source_key m' \<longrightarrow> m = m') \<and>
      ai_OwnerlessHolders inp = []"
  shows "(sm_Errors (audit_Summarize (Audit (visited inp) inp)) = 0 \<longleftrightarrow> sound) \<and>
    (sm_Warnings (audit_Summarize (Audit (visited inp) inp)) = 0 \<longleftrightarrow> tidy) \<and>
    exit_code failOnWarning dsn (Ok inp) visited = (if sound \<and> (tidy \<or> \<not> failOnWarning) then 0 else 1)"
proof -
  have e: "sm_Errors (audit_Summarize (Audit (visited inp) inp)) = 0 \<longleftrightarrow> sound"
    unfolding no_errors error_findings sound_def
    by (auto simp: invalidPrefixes_def danglingReferences_def prefix_check_empty dangling_check_def)
  have "ambiguousSourceIDs (visited inp) inp = [] \<longleftrightarrow>
      (\<forall>m \<in> set (ai_Mappings inp). \<forall>m' \<in> set (ai_Mappings inp). source_key m = source_key m' \<longrightarrow> m = m')"
    using assms(1) by (auto simp: ambiguousSourceIDs_def group_check_empty [OF assms(2)] iteration_def)
  then have w: "sm_Warnings (audit_Summarize (Audit (visited inp) inp)) = 0 \<longleftrightarrow> tidy"
    unfolding no_warnings warning_findings tidy_def by (simp add: missingOwnership_def)
  show ?thesis using e w assms(3) by (auto simp: exit_code_def Let_def)
qed

subsection \<open>What the platform allocates\<close>

definition registered :: "DB \<Rightarrow> (string \<times> string) list" where
  "registered db = map (\<lambda>c. (ct_EntityType c, ct_Prefix c)) (db_counters db)"

definition prefixed :: "DB \<Rightarrow> bool" where
  "prefixed db \<longleftrightarrow> (\<forall>e \<in> set (db_entities db). \<exists>p. (ge_EntityType e, p) \<in> set (registered db) \<and> carries (ge_GlobalID e) p)"

lemma carries_minted [simp]: "carries (mk_global_id p v) p"
  by (simp add: carries_def mk_global_id_def HasPrefix_def)

lemma take_counter_registered:
  assumes "take_counter t db = Some (p, v, db2)"
  shows "registered db2 = registered db" "(t, p) \<in> set (registered db)"
proof -
  obtain c where c: "find (\<lambda>c. ct_EntityType c = t) (db_counters db) = Some c" "p = ct_Prefix c"
    using assms by (auto simp: take_counter_def split: option.splits)
  then have "c \<in> set (db_counters db)" "ct_EntityType c = t" by (auto simp: find_Some_iff)
  then show "(t, p) \<in> set (registered db)" using c(2) by (auto simp: registered_def)
  show "registered db2 = registered db" using assms by (auto simp: take_counter_def registered_def split: option.splits)
qed

lemma prefixed_frame:
  "prefixed db \<Longrightarrow> db_entities db' = db_entities db \<Longrightarrow> registered db' = registered db \<Longrightarrow> prefixed db'"
  by (simp add: prefixed_def)

lemma registered_frame: "db_counters db' = db_counters db \<Longrightarrow> registered db' = registered db"
  by (simp add: registered_def)

lemma prefixed_added:
  assumes "prefixed db" "db_entities db' = db_entities db @ [e]" "registered db' = registered db"
    and "(ge_EntityType e, p) \<in> set (registered db)" "ge_GlobalID e = mk_global_id p v"
  shows "prefixed db'"
  using assms(1,4) by (auto simp: prefixed_def assms(2,3,5) intro!: exI [of _ p])

lemma managed_fields [simp]:
  "ge_EntityType (managed_entity rx g t subject origin) = t" "ge_GlobalID (managed_entity rx g t subject origin) = g"
  by (simp_all add: managed_entity_def)

definition audited :: "DB \<Rightarrow> bool" where
  "audited db \<longleftrightarrow> prefixed db \<and> distinct (map ct_EntityType (db_counters db))"

lemma audited_frame:
  "audited db \<Longrightarrow> db_entities db' = db_entities db \<Longrightarrow> db_counters db' = db_counters db \<Longrightarrow> audited db'"
  by (simp add: audited_def prefixed_def registered_def)

lemma audited_minted:
  assumes "audited db" "take_counter t db = Some (p, v, db2)" "db_counters db' = db_counters db2"
    and "db_entities db' = db_entities db \<or> db_entities db' = db_entities db @ [e]"
    and "ge_EntityType e = t" "ge_GlobalID e = mk_global_id p v"
  shows "audited db'"
proof -
  note same = registered_frame [OF assms(3), unfolded take_counter_registered(1) [OF assms(2)]]
  have "prefixed db" using assms(1) by (simp add: audited_def)
  moreover have "(ge_EntityType e, p) \<in> set (registered db)" using take_counter_registered(2) [OF assms(2)] assms(5) by simp
  ultimately have "prefixed db'"
    using assms(4) prefixed_frame [OF _ _ same] prefixed_added [OF _ _ same _ assms(6)] by blast
  then show ?thesis using assms(1,3) take_counter_frame(6) [OF assms(2)] by (simp add: audited_def)
qed

lemma CreateGlobalEntity_audited:
  assumes "audited db" "audited (others db)"
  shows "audited (snd (CreateGlobalEntity down rx others t s sid tn meta db))"
proof -
  obtain r db' where c: "CreateGlobalEntity down rx others t s sid tn meta db = (r, db')" by fastforce
  from c have "audited db'"
  proof (cases rule: CreateGlobalEntity_cases)
    case (minted p v db2 e)
    note q = queue_frame [OF minted(6)]
    show ?thesis
      by (rule audited_minted [OF assms(2) minted(2), of db' e])
        (simp_all add: q take_counter_frame(1) [OF minted(2)] minted(3))
  qed (use assms in auto)
  then show ?thesis by (simp add: c)
qed

lemma identity_audited:
  assumes "audited db" "take_counter t db = Some (p, v, db1)"
    and "db_entities db2 = db_entities db1" "db_counters db2 = db_counters db1"
    and "register_identity down rx (managed_entity rx (mk_global_id p v) t subject origin) ev d db2 = Ok db'"
  shows "audited db'"
proof -
  note r = register_identity_ok [OF assms(5)]
  have "db_entities db2 = db_entities db" using assms(3) take_counter_frame(1) [OF assms(2)] by simp
  then have rows: "db_entities db' = db_entities db \<or> db_entities db' = db_entities db @ [managed_entity rx (mk_global_id p v) t subject origin]"
    using r(4) by metis
  show ?thesis by (rule audited_minted [OF assms(1,2) _ rows]) (simp_all add: r(3) assms(4))
qed

lemma EnsureIdentity_audited:
  assumes "audited db"
  shows "audited (snd (EnsureIdentity down rx i db))"
proof -
  obtain r db' where c: "EnsureIdentity down rx i db = (r, db')" by fastforce
  from c have "audited db'"
  proof (cases rule: EnsureIdentity_cases)
    case (known row)
    show ?thesis by (rule audited_frame [OF assms]) (simp_all add: known(3))
  next
    case (first p v db1)
    show ?thesis by (rule identity_audited [OF assms first(2) _ _ first(4)]) simp_all
  qed (use assms in simp)
  then show ?thesis by (simp add: c)
qed

lemma EnsureServiceIdentity_audited:
  assumes "audited db"
  shows "audited (snd (EnsureServiceIdentity down rx i db))"
proof -
  obtain r db' where c: "EnsureServiceIdentity down rx i db = (r, db')" by fastforce
  from c have "audited db'"
  proof (cases rule: EnsureServiceIdentity_cases)
    case (known row)
    show ?thesis by (rule audited_frame [OF assms]) (simp_all add: known(3))
  next
    case (first p v db1)
    show ?thesis by (rule identity_audited [OF assms first(2) _ _ first(4)]) simp_all
  qed (use assms in simp)
  then show ?thesis by (simp add: c)
qed

lemma allocations_audited: "allocations db0 db \<Longrightarrow> audited db0 \<Longrightarrow> audited db"
  by (induction rule: allocations.induct)
    (simp_all add: CreateGlobalEntity_audited EnsureIdentity_audited EnsureServiceIdentity_audited)

text \<open>
  C23.  What the platform allocates passes the audit.  After any history of allocations and first sightings, racing and failing at will,
  from a migrated database, the audit of that database finds no entity type without a prefix and no identifier under the wrong one.
\<close>

theorem allocated_ids_pass_audit:
  assumes "allocations db0 (pf_db pf)" "counters_ok db0" "db_entities db0 = []" "audit_read down pf = Ok inp"
  shows "\<forall>f \<in> set (Audit visited inp). fi_Kind f \<notin> {''unregistered_entity_type'', ''invalid_global_id_prefix''}"
proof -
  have "audited db0" using assms(2) by (simp add: audited_def prefixed_def assms(3) counters_ok_def)
  from allocations_audited [OF assms(1) this]
  have ok: "prefixed (pf_db pf)" "distinct (map ct_EntityType (db_counters (pf_db pf)))" by (simp_all add: audited_def)
  have read: "ai_Mappings inp = map mapping_of (db_entities (pf_db pf))" "ai_Prefixes inp = map_of (rev (registered (pf_db pf)))"
    using assms(4) by (auto simp: audit_read_def statement_def registered_def elim!: bind_result_OkE split: if_splits)
  have fst: "distinct (map fst (rev (registered (pf_db pf))))"
    using ok(2) by (simp add: registered_def o_def rev_map [symmetric])
  have "prefix_check (ai_Prefixes inp) m = []" if m: "m \<in> set (ai_Mappings inp)" for m
  proof -
    obtain e where e: "e \<in> set (db_entities (pf_db pf))" "m = mapping_of e" using m by (auto simp: read)
    then obtain p where p: "(ge_EntityType e, p) \<in> set (registered (pf_db pf))" "carries (ge_GlobalID e) p"
      using ok(1) by (auto simp: prefixed_def)
    have "map_of (rev (registered (pf_db pf))) (ge_EntityType e) = Some p" using fst p(1) by (intro map_of_is_SomeI) simp_all
    then show ?thesis using p(2) by (simp add: prefix_check_empty e(2) mapping_of_def read(2))
  qed
  then have "invalidPrefixes inp = []" by (simp add: invalidPrefixes_def)
  then show ?thesis unfolding all_findings
    by (auto simp: ambiguousSourceIDs_def danglingReferences_def missingOwnership_def group_check_def dangling_check_def
      ownership_finding_def Let_def split: if_splits)
qed

subsection \<open>A backfill gone wrong\<close>

definition backfill :: "MappingRow list" where
  "backfill =
     [\<lparr> ma_GlobalID = ''PR-000001'', ma_EntityType = ''project'', ma_Source = ''redmine'', ma_SourceID = ''7'', ma_TenantID = [] \<rparr>,
      \<lparr> ma_GlobalID = ''CL-000001'', ma_EntityType = ''client'', ma_Source = ''espocrm'', ma_SourceID = ''1'', ma_TenantID = [] \<rparr>,
      \<lparr> ma_GlobalID = ''PR-000002'', ma_EntityType = ''task'', ma_Source = ''redmine'', ma_SourceID = ''7'', ma_TenantID = [] \<rparr>]"

definition backfilled :: "MappingRow list \<Rightarrow> AuditInput" where
  "backfilled rows =
     \<lparr> ai_Mappings = rows, ai_Prefixes = map_of [(''client'', ''CL''), (''project'', ''PR''), (''task'', ''TSK'')],
       ai_Relations = [\<lparr> rf_Holder = ''SRV-000001'', rf_Field = ''servers.client_id'', rf_Target = ''CL-000009'' \<rparr>],
       ai_OwnerlessHolders = [\<lparr> rf_Holder = ''SRV-000002'', rf_Field = ''servers.client_id'', rf_Target = [] \<rparr>] \<rparr>"

definition forth :: "(string \<times> string) list" where "forth = [(''redmine'', ''7''), (''espocrm'', ''1'')]"

lemma backfill_facts:
  "iteration forth (backfilled backfill)" "iteration (rev forth) (backfilled (rev backfill))"
  "distinct (map ma_GlobalID (ai_Mappings (backfilled backfill)))"
  by (simp_all add: iteration_def forth_def backfilled_def backfill_def source_key_def insert_commute)

theorem audit_reproducible_witness:
  "Audit forth (backfilled backfill) = Audit (rev forth) (backfilled (rev backfill)) \<and>
   map fi_Kind (Audit forth (backfilled backfill)) =
     [''invalid_global_id_prefix'', ''missing_referenced_mapping'', ''ambiguous_source_mapping'', ''missing_ownership''] \<and>
   map fi_Related (Audit forth (backfilled backfill)) = [[], ''CL-000009'', ''PR-000002'', []]"
proof (intro conjI)
  show "Audit forth (backfilled backfill) = Audit (rev forth) (backfilled (rev backfill))"
    by (rule audit_reproducible [OF backfill_facts(1,2) _ backfill_facts(3)]) (simp_all add: backfilled_def)
  show "map fi_Kind (Audit forth (backfilled backfill)) =
     [''invalid_global_id_prefix'', ''missing_referenced_mapping'', ''ambiguous_source_mapping'', ''missing_ownership'']" by code_simp
  show "map fi_Related (Audit forth (backfilled backfill)) = [[], ''CL-000009'', ''PR-000002'', []]" by code_simp
qed

theorem audit_verdict_witness:
  "sm_Errors (audit_Summarize (Audit forth (backfilled backfill))) \<noteq> 0 \<and>
   exit_code False ''postgres://'' (Ok (backfilled backfill)) (\<lambda>_. forth) = 1"
proof -
  have c: "\<not> (\<forall>r \<in> set (ai_Relations (backfilled backfill)). rf_Target r = [] \<or>
      rf_Target r \<in> ma_GlobalID ` set (ai_Mappings (backfilled backfill)))"
    by (simp add: backfilled_def backfill_def)
  have "TrimSpace ''postgres://'' \<noteq> []" by code_simp
  from audit_verdict [of "\<lambda>_. forth", OF backfill_facts(1,3) this, of False] show ?thesis using c by (simp only: simp_thms if_False)
qed

definition allocated_platform :: Platform where
  "allocated_platform = \<lparr> pf_db = snd (sample_create sample_db), pf_bus = [], pf_notifications = [], pf_reads = [], pf_notification_seq = 1,
     pf_servers = [], pf_reports = [], pf_report_seq = 1, pf_support = [], pf_support_relations = [], pf_sla_policies = [],
     pf_relationships = [], pf_relationship_seq = 1 \<rparr>"

theorem allocated_ids_pass_audit_witness:
  "\<exists>inp. audit_read (\<lambda>_. False) allocated_platform = Ok inp \<and> map ma_GlobalID (ai_Mappings inp) = [''CL-000001''] \<and>
     (\<forall>f \<in> set (Audit [(''espocrm'', ''a1'')] inp). fi_Kind f \<notin> {''unregistered_entity_type'', ''invalid_global_id_prefix''})"
proof -
  obtain inp where inp: "audit_read (\<lambda>_. False) allocated_platform = Ok inp"
    by (simp add: audit_read_def statement_def relationQueries_def ownerlessQueries_def)
  have "allocations sample_db (pf_db allocated_platform)"
    unfolding allocated_platform_def sample_create_def by simp (intro allocations.create allocations.none, simp add: allocations.none)
  moreover have "counters_ok sample_db" "db_entities sample_db = []" by (simp_all add: counters_ok_def sample_db_def)
  ultimately have "\<forall>f \<in> set (Audit [(''espocrm'', ''a1'')] inp).
      fi_Kind f \<notin> {''unregistered_entity_type'', ''invalid_global_id_prefix''}"
    using inp by (rule allocated_ids_pass_audit)
  moreover have "map ma_GlobalID (ai_Mappings inp) = [''CL-000001'']"
  proof -
    have "ai_Mappings inp = map mapping_of (db_entities (pf_db allocated_platform))"
      using inp by (auto simp: audit_read_def statement_def relationQueries_def ownerlessQueries_def)
    then show ?thesis unfolding \<open>ai_Mappings inp = _\<close> by code_simp
  qed
  ultimately show ?thesis by (intro exI [of _ inp] conjI inp)
qed

end
