(* ===== verification/Metrics.thy ===== *)
theory Metrics
  imports Strconv Complex_Main "HOL-Library.AList" "HOL-Library.Word"
begin

section \<open>The metrics registry (internal/observability/metrics.go, http.go)\<close>

text \<open>
  Counters, gauges, histograms and their text exposition, and the middleware that measures requests.  A float64 is a rational number here, so
  rounding and infinities are not modelled, and strconv.FormatFloat is the argument fmt; the counts of a histogram are uint64 and wrap.  A Go map is
  an association list, and what is rendered depends on its content only.  A metric sampled at scrape time reads a world, the argument
  of Render; the mutexes make each operation atomic.
\<close>

subsection \<open>Labels\<close>

type_synonym labelSet = string

definition escape_label_char :: "char \<Rightarrow> string" where
  "escape_label_char c =
     (if c = CHR 0x5C then [CHR 0x5C, CHR 0x5C] else if c = CHR 0x22 then [CHR 0x5C, CHR 0x22]
      else if c = CHR 0x0A then [CHR 0x5C, CHR ''n''] else [c])"

definition escapeLabelValue :: "string \<Rightarrow> string" where
  "escapeLabelValue v = concat (map escape_label_char v)"

definition label_pair :: "string \<Rightarrow> string \<Rightarrow> string" where
  "label_pair name v = name @ ''='' @ [CHR 0x22] @ escapeLabelValue v @ [CHR 0x22]"

definition label_value :: "string list \<Rightarrow> nat \<Rightarrow> string" where
  "label_value values i = (if i < length values then values ! i else [])"

definition makeLabelSet :: "string list \<Rightarrow> string list \<Rightarrow> labelSet" where
  "makeLabelSet names values =
     (if names = [] then []
      else ''{'' @ Join (sort (map (\<lambda>i. label_pair (names ! i) (label_value values i)) [0..<length names])) '','' @ ''}'')"

definition withExtra :: "labelSet \<Rightarrow> string \<Rightarrow> string \<Rightarrow> string" where
  "withExtra l name v =
     (if l = [] then ''{'' @ label_pair name v @ ''}'' else butlast l @ '','' @ label_pair name v @ ''}'')"

subsection \<open>Shared rendering\<close>

definition newline :: string where "newline = [CHR 0x0A]"

definition writeHeader :: "string \<Rightarrow> string \<Rightarrow> string \<Rightarrow> string" where
  "writeHeader name help kind =
     ''# HELP '' @ name @ '' '' @ map (\<lambda>c. if c = CHR 0x0A then CHR '' '' else c) help @ newline @
     ''# TYPE '' @ name @ '' '' @ kind @ newline"

definition sortedLabelSets :: "(labelSet \<times> 'v) list \<Rightarrow> labelSet list" where
  "sortedLabelSets values = sort (map fst values)"

definition value_at :: "(labelSet \<times> rat) list \<Rightarrow> labelSet \<Rightarrow> rat" where
  "value_at values key = (case map_of values key of None \<Rightarrow> 0 | Some v \<Rightarrow> v)"

definition value_lines :: "(rat \<Rightarrow> string) \<Rightarrow> string \<Rightarrow> (labelSet \<times> rat) list \<Rightarrow> string" where
  "value_lines fmt name values =
     concat (map (\<lambda>key. name @ key @ '' '' @ fmt (value_at values key) @ newline) (sortedLabelSets values))"

subsection \<open>Counters and gauges\<close>

record CounterVec =
  cv_metricName :: string
  cv_help :: string
  cv_labels :: "string list"
  cv_values :: "(labelSet \<times> rat) list"

definition counter_Add :: "rat \<Rightarrow> string list \<Rightarrow> CounterVec \<Rightarrow> CounterVec" where
  "counter_Add delta values c =
     (let key = makeLabelSet (cv_labels c) values
      in c \<lparr> cv_values := AList.update key (value_at (cv_values c) key + delta) (cv_values c) \<rparr>)"

definition counter_Inc :: "string list \<Rightarrow> CounterVec \<Rightarrow> CounterVec" where
  "counter_Inc values = counter_Add 1 values"

definition counter_Value :: "string list \<Rightarrow> CounterVec \<Rightarrow> rat" where
  "counter_Value values c = value_at (cv_values c) (makeLabelSet (cv_labels c) values)"

definition counter_writeTo :: "(rat \<Rightarrow> string) \<Rightarrow> CounterVec \<Rightarrow> string" where
  "counter_writeTo fmt c =
     writeHeader (cv_metricName c) (cv_help c) ''counter'' @ value_lines fmt (cv_metricName c) (cv_values c)"

record GaugeVec =
  gv_metricName :: string
  gv_help :: string
  gv_labels :: "string list"
  gv_values :: "(labelSet \<times> rat) list"

definition gauge_Set :: "rat \<Rightarrow> string list \<Rightarrow> GaugeVec \<Rightarrow> GaugeVec" where
  "gauge_Set v labelValues g = g \<lparr> gv_values := AList.update (makeLabelSet (gv_labels g) labelValues) v (gv_values g) \<rparr>"

definition gauge_Add :: "rat \<Rightarrow> string list \<Rightarrow> GaugeVec \<Rightarrow> GaugeVec" where
  "gauge_Add delta labelValues g =
     (let key = makeLabelSet (gv_labels g) labelValues
      in g \<lparr> gv_values := AList.update key (value_at (gv_values g) key + delta) (gv_values g) \<rparr>)"

definition gauge_Value :: "string list \<Rightarrow> GaugeVec \<Rightarrow> rat" where
  "gauge_Value labelValues g = value_at (gv_values g) (makeLabelSet (gv_labels g) labelValues)"

definition gauge_writeTo :: "(rat \<Rightarrow> string) \<Rightarrow> GaugeVec \<Rightarrow> string" where
  "gauge_writeTo fmt g = writeHeader (gv_metricName g) (gv_help g) ''gauge'' @ value_lines fmt (gv_metricName g) (gv_values g)"

subsection \<open>Sampled metrics\<close>

record Sample =
  sa_Labels :: "string list"
  sa_Value :: rat

record 'w SampledVec =
  sf_metricName :: string
  sf_help :: string
  sf_labels :: "string list"
  sf_sample :: "'w \<Rightarrow> Sample list"

definition rendered_samples :: "string list \<Rightarrow> Sample list \<Rightarrow> (labelSet \<times> rat) list" where
  "rendered_samples labels samples = fold (\<lambda>s. AList.update (makeLabelSet labels (sa_Labels s)) (sa_Value s)) samples []"

definition gaugeFunc_writeTo :: "(rat \<Rightarrow> string) \<Rightarrow> 'w \<Rightarrow> 'w SampledVec \<Rightarrow> string" where
  "gaugeFunc_writeTo fmt w g =
     writeHeader (sf_metricName g) (sf_help g) ''gauge'' @
     value_lines fmt (sf_metricName g) (rendered_samples (sf_labels g) (sf_sample g w))"

definition counterFunc_writeTo :: "(rat \<Rightarrow> string) \<Rightarrow> 'w \<Rightarrow> 'w SampledVec \<Rightarrow> string" where
  "counterFunc_writeTo fmt w c =
     writeHeader (sf_metricName c) (sf_help c) ''counter'' @
     value_lines fmt (sf_metricName c) (rendered_samples (sf_labels c) (sf_sample c w))"

subsection \<open>Histograms\<close>

definition DefaultDurationBuckets :: "rat list" where
  "DefaultDurationBuckets = [5/1000, 1/100, 25/1000, 5/100, 1/10, 25/100, 1/2, 1, 5/2, 5, 10]"

record histogram =
  hg_counts :: "64 word list"
  hg_sum :: rat
  hg_count :: "64 word"

record HistogramVec =
  hv_metricName :: string
  hv_help :: string
  hv_labels :: "string list"
  hv_buckets :: "rat list"
  hv_series :: "(labelSet \<times> histogram) list"

definition new_Histogram :: "string \<Rightarrow> string \<Rightarrow> rat list \<Rightarrow> string list \<Rightarrow> HistogramVec" where
  "new_Histogram name help buckets labels =
     \<lparr> hv_metricName = name, hv_help = help, hv_labels = labels, hv_buckets = sort buckets, hv_series = [] \<rparr>"

definition Observe :: "rat \<Rightarrow> string list \<Rightarrow> HistogramVec \<Rightarrow> HistogramVec" where
  "Observe v labelValues h =
     (let key = makeLabelSet (hv_labels h) labelValues;
          series = (case map_of (hv_series h) key of
            None \<Rightarrow> \<lparr> hg_counts = replicate (length (hv_buckets h)) 0, hg_sum = 0, hg_count = 0 \<rparr>
          | Some s \<Rightarrow> s);
          series' = \<lparr> hg_counts = map (\<lambda>(bound, n). if v \<le> bound then n + 1 else n) (zip (hv_buckets h) (hg_counts series)),
                      hg_sum = hg_sum series + v, hg_count = hg_count series + 1 \<rparr>
      in h \<lparr> hv_series := AList.update key series' (hv_series h) \<rparr>)"

definition histogram_lines :: "(rat \<Rightarrow> string) \<Rightarrow> HistogramVec \<Rightarrow> labelSet \<Rightarrow> histogram \<Rightarrow> string" where
  "histogram_lines fmt h key s =
     concat (map (\<lambda>(bound, n). hv_metricName h @ ''_bucket'' @ withExtra key ''le'' (fmt bound) @ '' '' @ Itoa (uint n) @ newline)
       (zip (hv_buckets h) (hg_counts s))) @
     hv_metricName h @ ''_bucket'' @ withExtra key ''le'' ''+Inf'' @ '' '' @ Itoa (uint (hg_count s)) @ newline @
     hv_metricName h @ ''_sum'' @ key @ '' '' @ fmt (hg_sum s) @ newline @
     hv_metricName h @ ''_count'' @ key @ '' '' @ Itoa (uint (hg_count s)) @ newline"

definition histogram_writeTo :: "(rat \<Rightarrow> string) \<Rightarrow> HistogramVec \<Rightarrow> string" where
  "histogram_writeTo fmt h =
     writeHeader (hv_metricName h) (hv_help h) ''histogram'' @
     concat (map (\<lambda>key. histogram_lines fmt h key (the (map_of (hv_series h) key))) (sortedLabelSets (hv_series h)))"

subsection \<open>The registry\<close>

datatype 'w metric =
  CounterM CounterVec | GaugeM GaugeVec | GaugeFuncM "'w SampledVec" | CounterFuncM "'w SampledVec" | HistogramM HistogramVec

fun metric_name :: "'w metric \<Rightarrow> string" where
  "metric_name (CounterM c) = cv_metricName c"
| "metric_name (GaugeM g) = gv_metricName g"
| "metric_name (GaugeFuncM g) = sf_metricName g"
| "metric_name (CounterFuncM c) = sf_metricName c"
| "metric_name (HistogramM h) = hv_metricName h"

fun metric_writeTo :: "(rat \<Rightarrow> string) \<Rightarrow> 'w \<Rightarrow> 'w metric \<Rightarrow> string" where
  "metric_writeTo fmt w (CounterM c) = counter_writeTo fmt c"
| "metric_writeTo fmt w (GaugeM g) = gauge_writeTo fmt g"
| "metric_writeTo fmt w (GaugeFuncM g) = gaugeFunc_writeTo fmt w g"
| "metric_writeTo fmt w (CounterFuncM c) = counterFunc_writeTo fmt w c"
| "metric_writeTo fmt w (HistogramM h) = histogram_writeTo fmt h"

text \<open>Registering a name twice panics, which is None.\<close>

definition register_metric :: "'w metric \<Rightarrow> 'w metric list \<Rightarrow> 'w metric list option" where
  "register_metric m r = (if metric_name m \<in> metric_name ` set r then None else Some (r @ [m]))"

definition Render :: "(rat \<Rightarrow> string) \<Rightarrow> 'w \<Rightarrow> 'w metric list \<Rightarrow> string" where
  "Render fmt w r = concat (map (metric_writeTo fmt w) (sort_key metric_name r))"

subsection \<open>Measured requests\<close>

record HTTPMetrics =
  hm_Requests :: CounterVec
  hm_Latency :: HistogramVec
  hm_InFlight :: GaugeVec

definition NewHTTPMetrics :: HTTPMetrics where
  "NewHTTPMetrics =
     \<lparr> hm_Requests = \<lparr> cv_metricName = ''bsystem_http_requests_total'',
         cv_help = ''HTTP requests handled, by route, method and status class.'',
         cv_labels = [''route'', ''method'', ''status'', ''status_class''], cv_values = [] \<rparr>,
       hm_Latency = new_Histogram ''bsystem_http_request_duration_seconds'' ''Time to handle an HTTP request, by route and method.''
         DefaultDurationBuckets [''route'', ''method''],
       hm_InFlight = \<lparr> gv_metricName = ''bsystem_http_requests_in_flight'', gv_help = ''Requests currently being handled, by route.'',
         gv_labels = [''route''], gv_values = [] \<rparr> \<rparr>"

definition statusClass :: "int \<Rightarrow> string" where
  "statusClass status =
     (if 500 \<le> status then ''5xx'' else if 400 \<le> status then ''4xx'' else if 300 \<le> status then ''3xx''
      else if 200 \<le> status then ''2xx'' else ''1xx'')"

text \<open>The recorder: the first status written, 200 for a body that comes first, and 200 if nothing is written.\<close>

datatype written = WriteHeader int | WriteBody

record responseRecorder =
  rr_status :: int
  rr_written :: bool

fun recorded :: "written \<Rightarrow> responseRecorder \<Rightarrow> responseRecorder" where
  "recorded (WriteHeader status) r = (if rr_written r then r else \<lparr> rr_status = status, rr_written = True \<rparr>)"
| "recorded WriteBody r = (if rr_written r then r else \<lparr> rr_status = 200, rr_written = True \<rparr>)"

definition recorded_status :: "written list \<Rightarrow> int" where
  "recorded_status writes = rr_status (fold recorded writes \<lparr> rr_status = 200, rr_written = False \<rparr>)"

text \<open>
  Observer.Observe: what happens to the metrics before a handler runs, and after it has returned.  Requests overlap, so the two are separate steps.
  Nothing after the handler is deferred, so one that panics takes the rest of Observe with it.
\<close>

datatype traffic = Started string | Returned string string "written list" rat | Panicked string

fun observed :: "traffic \<Rightarrow> HTTPMetrics \<Rightarrow> HTTPMetrics" where
  "observed (Started route) m = m \<lparr> hm_InFlight := gauge_Add 1 [route] (hm_InFlight m) \<rparr>"
| "observed (Returned route mthd writes elapsed) m =
     (let status = recorded_status writes
      in \<lparr> hm_Requests = counter_Inc [route, mthd, Itoa status, statusClass status] (hm_Requests m),
           hm_Latency = Observe elapsed [route, mthd] (hm_Latency m),
           hm_InFlight = gauge_Add (-1) [route] (hm_InFlight m) \<rparr>)"
| "observed (Panicked route) m = m"

datatype level = LevelDebug | LevelInfo | LevelWarn | LevelError

definition request_level :: "int \<Rightarrow> level" where
  "request_level status = (if 500 \<le> status then LevelError else if 400 \<le> status then LevelWarn else LevelInfo)"

definition LevelFromEnv :: "string \<Rightarrow> level" where
  "LevelFromEnv v =
     (let s = ToLower (TrimSpace v)
      in if s = ''debug'' then LevelDebug else if s \<in> {''warn'', ''warning''} then LevelWarn
         else if s = ''error'' then LevelError else LevelInfo)"

subsection \<open>Labels identify a series\<close>

lemma escape_Cons: "escapeLabelValue (c # v) = escape_label_char c @ escapeLabelValue v" "escapeLabelValue [] = []"
  by (simp_all add: escapeLabelValue_def)

lemma escape_cancel:
  "escapeLabelValue v @ CHR 0x22 # r = escapeLabelValue w @ CHR 0x22 # s \<Longrightarrow> v = w \<and> r = s"
proof (induction v arbitrary: w)
  case Nil
  then show ?case by (cases w) (auto simp: escape_Cons escape_label_char_def split: if_splits)
next
  case (Cons c v)
  show ?case
  proof (cases w)
    case Nil
    then show ?thesis using Cons.prems by (auto simp: escape_Cons escape_label_char_def split: if_splits)
  next
    case (Cons d w')
    then have "c = d \<and> escapeLabelValue v @ CHR 0x22 # r = escapeLabelValue w' @ CHR 0x22 # s"
      using Cons.prems by (auto simp: escape_Cons escape_label_char_def split: if_splits)
    then show ?thesis using Cons.IH [of w'] Cons by simp
  qed
qed

lemma name_cancel:
  "n @ CHR ''='' # r = m @ CHR ''='' # s \<Longrightarrow> CHR ''='' \<notin> set n \<Longrightarrow> CHR ''='' \<notin> set m \<Longrightarrow> n = m \<and> r = s"
proof (induction n arbitrary: m)
  case Nil
  then show ?case by (cases m) auto
next
  case (Cons c n)
  then show ?case by (cases m) auto
qed

lemma pair_cancel:
  assumes "label_pair n v @ r = label_pair m w @ s" "CHR ''='' \<notin> set n" "CHR ''='' \<notin> set m"
  shows "n = m \<and> v = w \<and> r = s"
proof -
  have "n @ CHR ''='' # CHR 0x22 # escapeLabelValue v @ CHR 0x22 # r = m @ CHR ''='' # CHR 0x22 # escapeLabelValue w @ CHR 0x22 # s"
    using assms(1) by (simp add: label_pair_def)
  from name_cancel [OF this assms(2,3)] have "n = m" "escapeLabelValue v @ CHR 0x22 # r = escapeLabelValue w @ CHR 0x22 # s" by simp_all
  then show ?thesis using escape_cancel by blast
qed

definition is_pair :: "string \<Rightarrow> bool" where
  "is_pair x \<longleftrightarrow> (\<exists>n v. x = label_pair n v \<and> CHR ''='' \<notin> set n)"

lemma is_pair_cancel: "is_pair x \<Longrightarrow> is_pair y \<Longrightarrow> x @ r = y @ s \<Longrightarrow> x = y \<and> r = s"
  unfolding is_pair_def using pair_cancel by blast

lemma Join_cancel:
  assumes "\<forall>x \<in> set xs. is_pair x" "\<forall>y \<in> set ys. is_pair y" "xs \<noteq> []" "ys \<noteq> []"
    and "Join xs '','' @ ''}'' = Join ys '','' @ ''}''"
  shows "xs = ys"
  using assms
proof (induction xs arbitrary: ys)
  case (Cons x xs)
  obtain y ys' where ys: "ys = y # ys'" using Cons.prems(4) by (cases ys) auto
  have pairs: "is_pair x" "is_pair y" using Cons.prems(1,2) by (simp_all add: ys)
  have parts: "Join (z # zs) '','' @ ''}'' = z @ (if zs = [] then ''}'' else '','' @ Join zs '','' @ ''}'')" for z zs by (cases zs) simp_all
  from is_pair_cancel [OF pairs Cons.prems(5) [unfolded ys parts]]
  have first: "x = y" and rest: "(if xs = [] then ''}'' else '','' @ Join xs '','' @ ''}'') = (if ys' = [] then ''}'' else '','' @ Join ys' '','' @ ''}'')"
    by simp_all
  have "xs = ys'"
  proof (cases "xs = [] \<or> ys' = []")
    case True
    then show ?thesis using rest by (auto split: if_splits)
  next
    case False
    then have "Join xs '','' @ ''}'' = Join ys' '','' @ ''}''" using rest by simp
    then show ?thesis using Cons.IH [of ys'] Cons.prems(1,2) False by (simp add: ys)
  qed
  then show ?case by (simp add: ys first)
qed simp

definition label_names_ok :: "string list \<Rightarrow> bool" where
  "label_names_ok names \<longleftrightarrow> distinct names \<and> (\<forall>n \<in> set names. CHR ''='' \<notin> set n)"

lemma labels_identify:
  assumes "label_names_ok names"
  shows "makeLabelSet names vs = makeLabelSet names ws \<longleftrightarrow> (\<forall>i < length names. label_value vs i = label_value ws i)"
proof
  assume "\<forall>i < length names. label_value vs i = label_value ws i"
  then have "map (\<lambda>i. label_pair (names ! i) (label_value vs i)) [0..<length names] =
      map (\<lambda>i. label_pair (names ! i) (label_value ws i)) [0..<length names]" by (intro map_cong refl) simp
  then show "makeLabelSet names vs = makeLabelSet names ws" by (simp only: makeLabelSet_def)
next
  assume eq: "makeLabelSet names vs = makeLabelSet names ws"
  show "\<forall>i < length names. label_value vs i = label_value ws i"
  proof (intro allI impI)
    fix i assume i: "i < length names"
    define ps where "ps us = map (\<lambda>i. label_pair (names ! i) (label_value us i)) [0..<length names]" for us
    have some: "names \<noteq> []" using i by auto
    have pair: "\<forall>x \<in> set (sort (ps us)). is_pair x" for us
      using assms by (auto simp: ps_def is_pair_def label_names_ok_def intro!: exI)
    have ne: "sort (ps us) \<noteq> []" for us using i by (simp add: ps_def flip: length_0_conv)
    have "Join (sort (ps vs)) '','' @ ''}'' = Join (sort (ps ws)) '','' @ ''}''"
      using eq some by (simp add: makeLabelSet_def ps_def)
    from Join_cancel [OF pair pair ne ne this] have "set (ps vs) = set (ps ws)" by (metis set_sort)
    moreover have "label_pair (names ! i) (label_value vs i) \<in> set (ps vs)" using i by (simp add: ps_def)
    ultimately obtain j where j: "j < length names" "label_pair (names ! i) (label_value vs i) = label_pair (names ! j) (label_value ws j)"
      by (auto simp: ps_def)
    have "names ! i = names ! j \<and> label_value vs i = label_value ws j"
      using pair_cancel [of "names ! i" "label_value vs i" "[]" "names ! j" "label_value ws j" "[]"] j assms i
      by (simp add: label_names_ok_def)
    then show "label_value vs i = label_value ws i" using i j(1) assms by (auto simp: label_names_ok_def nth_eq_iff_index_eq)
  qed
qed

lemma labels_identify_full:
  assumes "label_names_ok names" "length vs = length names" "length ws = length names"
  shows "makeLabelSet names vs = makeLabelSet names ws \<longleftrightarrow> vs = ws"
  unfolding labels_identify [OF assms(1)] using assms(2,3) by (auto simp: label_value_def list_eq_iff_nth_eq)

text \<open>
  C27.  A series is its labels and nothing else: whatever the values contain (quotes, backslashes, newlines, commas, braces), two lists of label
  values are rendered as the same label set exactly if they agree on every label, a missing value counting as the empty one.
\<close>

theorem series_identified_by_labels:
  assumes "distinct names" "\<forall>n \<in> set names. CHR ''='' \<notin> set n"
  shows "makeLabelSet names vs = makeLabelSet names ws \<longleftrightarrow> (\<forall>i < length names. label_value vs i = label_value ws i)"
  by (rule labels_identify) (simp add: label_names_ok_def assms)

theorem series_identified_by_labels_witness:
  "makeLabelSet [''subject'', ''outcome''] [[CHR 0x22], []] \<noteq> makeLabelSet [''subject'', ''outcome''] [[CHR 0x22, CHR 0x5C], []] \<and>
   makeLabelSet [''subject'', ''outcome''] [''a''] = makeLabelSet [''subject'', ''outcome''] [''a'', []]"
proof
  have ok: "distinct [''subject'', ''outcome'']" "\<forall>n \<in> set [''subject'', ''outcome'']. CHR ''='' \<notin> set n" by simp_all
  show "makeLabelSet [''subject'', ''outcome''] [[CHR 0x22], []] \<noteq> makeLabelSet [''subject'', ''outcome''] [[CHR 0x22, CHR 0x5C], []]"
    unfolding series_identified_by_labels [OF ok] by (auto simp: label_value_def)
  show "makeLabelSet [''subject'', ''outcome''] [''a''] = makeLabelSet [''subject'', ''outcome''] [''a'', []]"
    unfolding series_identified_by_labels [OF ok] by (auto simp: label_value_def nth_Cons')
qed

subsection \<open>Counters\<close>

lemma value_at_update: "value_at (AList.update k v xs) l = (if l = k then v else value_at xs l)"
  by (simp add: value_at_def update_conv')

definition adds_of :: "string list \<Rightarrow> (rat \<times> string list) list \<Rightarrow> labelSet \<Rightarrow> rat" where
  "adds_of labels adds key = (\<Sum>(d, vs) \<leftarrow> adds. if makeLabelSet labels vs = key then d else 0)"

lemma sum_ones: "(\<And>x. x \<in> set xs \<Longrightarrow> f x = (1 :: nat)) \<Longrightarrow> sum_list (map f xs) = length xs"
  by (induction xs) auto

definition series_added :: "string list \<Rightarrow> (rat \<times> string list) list \<Rightarrow> labelSet set" where
  "series_added labels adds = (\<lambda>a. makeLabelSet labels (snd a)) ` set adds"

definition counted :: "(rat \<times> string list) list \<Rightarrow> CounterVec \<Rightarrow> CounterVec" where
  "counted adds c = fold (\<lambda>(d, vs). counter_Add d vs) adds c"

lemma counter_Add_fields [simp]:
  "cv_labels (counter_Add d vs c) = cv_labels c" "cv_metricName (counter_Add d vs c) = cv_metricName c" "cv_help (counter_Add d vs c) = cv_help c"
  "cv_values (counter_Add d vs c) = AList.update (makeLabelSet (cv_labels c) vs) (value_at (cv_values c) (makeLabelSet (cv_labels c) vs) + d) (cv_values c)"
  by (simp_all add: counter_Add_def Let_def)

lemma counted_values:
  "cv_labels (counted adds c) = cv_labels c \<and> cv_metricName (counted adds c) = cv_metricName c \<and> cv_help (counted adds c) = cv_help c \<and>
   value_at (cv_values (counted adds c)) key = value_at (cv_values c) key + adds_of (cv_labels c) adds key \<and>
   fst ` set (cv_values (counted adds c)) = fst ` set (cv_values c) \<union> (\<lambda>a. makeLabelSet (cv_labels c) (snd a)) ` set adds \<and>
   (distinct (map fst (cv_values c)) \<longrightarrow> distinct (map fst (cv_values (counted adds c))))"
proof (induction adds arbitrary: c)
  case (Cons a adds)
  obtain d vs where a: "a = (d, vs)" by (cases a)
  have step: "counted (a # adds) c = counted adds (counter_Add d vs c)" by (simp add: counted_def a)
  show ?case unfolding step using Cons.IH [of "counter_Add d vs c"]
    by (auto simp: a value_at_update adds_of_def dom_update distinct_update)
qed (simp add: counted_def adds_of_def)

definition newlines :: "string \<Rightarrow> nat" where
  "newlines s = count_list s (CHR 0x0A)"

lemma newlines_simps [simp]:
  "newlines (s @ t) = newlines s + newlines t" "newlines [] = 0" "newlines newline = 1"
  "newlines (c # s) = (if c = CHR 0x0A then Suc (newlines s) else newlines s)"
  by (simp_all add: newlines_def newline_def)

lemma newlines_0: "CHR 0x0A \<notin> set s \<Longrightarrow> newlines s = 0"
  by (simp add: newlines_def)

lemma newlines_concat: "newlines (concat ss) = sum_list (map newlines ss)"
  by (induction ss) simp_all

lemma escaped_line: "CHR 0x0A \<notin> set (escapeLabelValue v)"
  by (auto simp: escapeLabelValue_def escape_label_char_def split: if_splits)

lemma set_Join: "set (Join xs sep) \<subseteq> \<Union> (set ` set xs) \<union> set sep"
  by (induction xs sep rule: Join.induct) auto

lemma labels_line:
  assumes "\<forall>n \<in> set names. CHR 0x0A \<notin> set n"
  shows "CHR 0x0A \<notin> set (makeLabelSet names vs)"
proof -
  have "CHR 0x0A \<notin> set (label_pair n v)" if "n \<in> set names" for n v
    using that assms escaped_line by (auto simp: label_pair_def)
  then have "\<forall>x \<in> set (sort (map (\<lambda>i. label_pair (names ! i) (label_value vs i)) [0..<length names])). CHR 0x0A \<notin> set x"
    by simp
  moreover have "CHR 0x0A \<notin> set (Join xs '','')" if "\<forall>x \<in> set xs. CHR 0x0A \<notin> set x" for xs
    using set_Join [of xs "'',''"] that by auto
  ultimately show ?thesis by (simp add: makeLabelSet_def)
qed

lemma header_lines:
  assumes "CHR 0x0A \<notin> set name" "CHR 0x0A \<notin> set kind"
  shows "newlines (writeHeader name help kind) = 2"
proof -
  have "CHR 0x0A \<notin> set (map (\<lambda>c. if c = CHR 0x0A then CHR '' '' else c) help)" by auto
  then show ?thesis using assms by (simp add: writeHeader_def newlines_0)
qed

lemma rendered_values:
  assumes "distinct (map fst values)"
  shows "value_lines fmt name values =
    concat (map (\<lambda>key. name @ key @ '' '' @ fmt (value_at values key) @ newline) (sorted_list_of_set (fst ` set values)))"
proof -
  have "sorted_list_of_set (set (map fst values)) = sort (map fst values)"
    using assms by (simp only: sorted_list_of_set_sort_remdups distinct_remdups_id)
  then show ?thesis by (simp add: value_lines_def sortedLabelSets_def)
qed

text \<open>
  A counter is rendered exactly.  After any additions in any order, the text has the header and one line for each series added to, in the order of
  the label sets, with the sum of what was added to it; and no value of a label, whatever it contains, adds a line of its own.
\<close>

theorem counter_rendered_exactly:
  assumes "cv_values c = []"
  shows "counter_writeTo fmt (counted adds c) = writeHeader (cv_metricName c) (cv_help c) ''counter'' @
      concat (map (\<lambda>key. cv_metricName c @ key @ '' '' @ fmt (adds_of (cv_labels c) adds key) @ newline)
        (sorted_list_of_set (series_added (cv_labels c) adds))) \<and>
    ((\<forall>s \<in> {cv_metricName c} \<union> set (cv_labels c) \<union> range fmt. CHR 0x0A \<notin> set s) \<longrightarrow>
      newlines (counter_writeTo fmt (counted adds c)) = 2 + card (series_added (cv_labels c) adds))"
proof -
  define keys where "keys = series_added (cv_labels c) adds"
  note v = counted_values [of adds c]
  have keys: "fst ` set (cv_values (counted adds c)) = keys" using v assms(1) by (simp add: keys_def series_added_def)
  have sums: "value_at (cv_values (counted adds c)) key = adds_of (cv_labels c) adds key" for key
    using v [of key] assms(1) by (simp add: value_at_def)
  have dist: "distinct (map fst (cv_values (counted adds c)))" using v assms(1) by simp
  have eq: "counter_writeTo fmt (counted adds c) = writeHeader (cv_metricName c) (cv_help c) ''counter'' @
      concat (map (\<lambda>key. cv_metricName c @ key @ '' '' @ fmt (adds_of (cv_labels c) adds key) @ newline) (sorted_list_of_set keys))"
    using v by (simp add: counter_writeTo_def rendered_values [OF dist] keys sums)
  moreover have "(\<forall>s \<in> {cv_metricName c} \<union> set (cv_labels c) \<union> range fmt. CHR 0x0A \<notin> set s) \<longrightarrow>
      newlines (counter_writeTo fmt (counted adds c)) = 2 + card keys"
  proof
    assume ok: "\<forall>s \<in> {cv_metricName c} \<union> set (cv_labels c) \<union> range fmt. CHR 0x0A \<notin> set s"
    define line where "line key = cv_metricName c @ key @ '' '' @ fmt (adds_of (cv_labels c) adds key) @ newline" for key
    have "newlines (line key) = 1" if "key \<in> keys" for key
      using that ok labels_line [of "cv_labels c"] by (auto simp: line_def keys_def series_added_def newlines_0)
    then have "sum_list (map (\<lambda>key. newlines (line key)) (sorted_list_of_set keys)) = length (sorted_list_of_set keys)"
      by (intro sum_ones) (simp add: keys_def series_added_def)
    then have "newlines (concat (map line (sorted_list_of_set keys))) = card keys" by (simp add: newlines_concat o_def)
    moreover have "newlines (writeHeader (cv_metricName c) (cv_help c) ''counter'') = 2" using ok by (intro header_lines) simp_all
    ultimately show "newlines (counter_writeTo fmt (counted adds c)) = 2 + card keys"
      unfolding eq by (simp add: line_def [abs_def])
  qed
  ultimately show ?thesis unfolding keys_def by (rule conjI)
qed

subsection \<open>Histograms\<close>

text \<open>What a series should hold after some observations with its labels.\<close>

definition distribution :: "rat list \<Rightarrow> rat list \<Rightarrow> histogram option" where
  "distribution buckets vs =
     (if vs = [] then None
      else Some \<lparr> hg_counts = map (\<lambda>bound. of_nat (length (filter (\<lambda>v. v \<le> bound) vs))) buckets, hg_sum = sum_list vs,
                  hg_count = of_nat (length vs) \<rparr>)"

definition observed_at :: "string list \<Rightarrow> (rat \<times> string list) list \<Rightarrow> labelSet \<Rightarrow> rat list" where
  "observed_at labels obs key = map fst (filter (\<lambda>o1. makeLabelSet labels (snd o1) = key) obs)"

lemma Observe_fields [simp]:
  "hv_labels (Observe v vs h) = hv_labels h" "hv_buckets (Observe v vs h) = hv_buckets h" "hv_metricName (Observe v vs h) = hv_metricName h"
  by (simp_all add: Observe_def Let_def)

lemma zip_map_both: "map (\<lambda>(b, n). f b n) (zip bs (map g bs)) = map (\<lambda>b. f b (g b)) bs"
  by (induction bs) simp_all

lemma Observe_series:
  assumes "map_of (hv_series h) (makeLabelSet (hv_labels h) ls) = distribution (hv_buckets h) vs"
  shows "map_of (hv_series (Observe v ls h)) key =
    (if key = makeLabelSet (hv_labels h) ls then distribution (hv_buckets h) (vs @ [v]) else map_of (hv_series h) key)"
proof (cases "vs = []")
  case True
  have "replicate (length (hv_buckets h)) (0 :: 64 word) = map (\<lambda>_. 0) (hv_buckets h)" by (simp add: map_replicate_const)
  then have "map (\<lambda>(bound, n). if v \<le> bound then n + 1 else n) (zip (hv_buckets h) (replicate (length (hv_buckets h)) (0 :: 64 word))) =
      map (\<lambda>b. if v \<le> b then 1 else 0) (hv_buckets h)" by (simp add: zip_map_both [of "\<lambda>b n. if v \<le> b then n + 1 else n"])
  then show ?thesis using assms True by (simp add: Observe_def Let_def distribution_def update_conv')
next
  case False
  then have "map_of (hv_series h) (makeLabelSet (hv_labels h) ls) = Some \<lparr> hg_counts = map (\<lambda>bound. of_nat (length (filter (\<lambda>v. v \<le> bound) vs)))
      (hv_buckets h), hg_sum = sum_list vs, hg_count = of_nat (length vs) \<rparr>" using assms by (simp add: distribution_def)
  then show ?thesis
    by (simp add: Observe_def Let_def distribution_def update_conv' zip_map_both [of "\<lambda>b n. if v \<le> b then n + 1 else n"])
qed

lemma filter_length_mono: "(\<And>x. x \<in> set xs \<Longrightarrow> P x \<Longrightarrow> Q x) \<Longrightarrow> length (filter P xs) \<le> length (filter Q xs)"
  by (induction xs) auto

definition measured :: "(rat \<times> string list) list \<Rightarrow> HistogramVec \<Rightarrow> HistogramVec" where
  "measured obs h = fold (\<lambda>(v, ls). Observe v ls) obs h"

lemma measured_series:
  assumes "hv_series h = []"
  shows "hv_labels (measured obs h) = hv_labels h \<and> hv_buckets (measured obs h) = hv_buckets h \<and>
    map_of (hv_series (measured obs h)) key = distribution (hv_buckets h) (observed_at (hv_labels h) obs key)"
proof (induction obs arbitrary: key rule: rev_induct)
  case Nil
  then show ?case using assms by (simp add: measured_def distribution_def observed_at_def)
next
  case (snoc o1 obs)
  obtain v ls where o1: "o1 = (v, ls)" by (cases o1)
  have step: "measured (obs @ [o1]) h = Observe v ls (measured obs h)" by (simp add: measured_def o1)
  have here: "map_of (hv_series (measured obs h)) (makeLabelSet (hv_labels (measured obs h)) ls) =
      distribution (hv_buckets (measured obs h)) (observed_at (hv_labels h) obs (makeLabelSet (hv_labels h) ls))"
    using snoc.IH by simp
  show ?case unfolding step using Observe_series [OF here, of v key] snoc.IH by (auto simp: observed_at_def o1)
qed

text \<open>
  A histogram is exact.  After any measurements, a series exists exactly if something was measured with its labels; it then holds the number
  and the sum of those measurements and, for every bucket, the number of them that are at most its bound (modulo 2^64), and as long as fewer
  than 2^64 measurements were made, the buckets are cumulative and none exceeds the count.
\<close>

theorem histogram_exact:
  "map_of (hv_series (measured obs (new_Histogram name help buckets labels))) key =
     distribution (sort buckets) (observed_at labels obs key) \<and>
   (length obs < 2 ^ 64 \<longrightarrow> (\<forall>s. map_of (hv_series (measured obs (new_Histogram name help buckets labels))) key = Some s \<longrightarrow>
      (\<forall>i j. i \<le> j \<longrightarrow> j < length buckets \<longrightarrow> hg_counts s ! i \<le> hg_counts s ! j \<and> hg_counts s ! j \<le> hg_count s)))"
proof -
  define h where "h = measured obs (new_Histogram name help buckets labels)"
  have m: "map_of (hv_series h) key = distribution (sort buckets) (observed_at labels obs key)"
    using measured_series [of "new_Histogram name help buckets labels" obs key] by (simp add: h_def new_Histogram_def)
  have "hg_counts s ! i \<le> hg_counts s ! j \<and> hg_counts s ! j \<le> hg_count s"
    if "length obs < 2 ^ 64" "map_of (hv_series h) key = Some s" "i \<le> j" "j < length buckets" for s i j
  proof -
    define vs where "vs = observed_at labels obs key"
    define below where "below k = length (filter (\<lambda>v. v \<le> sort buckets ! k) vs)" for k
    have s: "hg_counts s ! k = of_nat (below k)" if "k < length buckets" for k
      using m \<open>map_of (hv_series h) key = Some s\<close> that by (auto simp: distribution_def vs_def below_def split: if_splits)
    have c: "hg_count s = of_nat (length vs)" using m that(2) by (auto simp: distribution_def vs_def split: if_splits)
    have small: "length vs < 2 ^ 64"
      unfolding vs_def observed_at_def length_map by (rule le_less_trans [OF length_filter_le that(1)])
    have "sort buckets ! i \<le> sort buckets ! j" using that(3,4) by (intro sorted_nth_mono) simp_all
    have mono: "below i \<le> below j" unfolding below_def
      by (rule filter_length_mono) (use \<open>sort buckets ! i \<le> sort buckets ! j\<close> in auto)
    have top: "below k \<le> length vs" for k by (simp add: below_def)
    have u: "unat (of_nat n :: 64 word) = n" if "n \<le> length vs" for n using that small by (simp add: unat_of_nat)
    have "unat (hg_counts s ! i) \<le> unat (hg_counts s ! j)" "unat (hg_counts s ! j) \<le> unat (hg_count s)"
      using that(3,4) mono top u by (simp_all add: s c)
    then show ?thesis by (simp only: word_le_nat_alt)
  qed
  then show ?thesis using m unfolding h_def by blast
qed

subsection \<open>Requests\<close>

definition traffic_metrics :: "traffic list \<Rightarrow> HTTPMetrics" where
  "traffic_metrics ts = fold observed ts NewHTTPMetrics"

fun starts :: "string \<Rightarrow> traffic \<Rightarrow> bool" where
  "starts route (Started r) = (r = route)"
| "starts route _ = False"

fun returns :: "string \<Rightarrow> traffic \<Rightarrow> bool" where
  "returns route (Returned r mthd writes elapsed) = (r = route)"
| "returns route _ = False"

text \<open>The status a request was answered with, by what its handler wrote first.\<close>

fun answered_with :: "written list \<Rightarrow> int" where
  "answered_with [] = 200"
| "answered_with (WriteHeader status # later) = status"
| "answered_with (WriteBody # later) = 200"

fun answers :: "string \<Rightarrow> string \<Rightarrow> int \<Rightarrow> traffic \<Rightarrow> bool" where
  "answers route mthd status (Returned r m writes elapsed) = (r = route \<and> m = mthd \<and> answered_with writes = status)"
| "answers route mthd status _ = False"

lemma recorded_first: "recorded_status ws = answered_with ws"
proof -
  have kept: "rr_status (fold recorded ws \<lparr> rr_status = s, rr_written = True \<rparr>) = s" for ws s
  proof (induction ws)
    case (Cons w ws)
    then show ?case by (cases w) simp_all
  qed simp
  show ?thesis by (cases ws rule: answered_with.cases) (simp_all add: recorded_status_def kept)
qed

lemma http_labels:
  "makeLabelSet [''route''] [r] = makeLabelSet [''route''] [r'] \<longleftrightarrow> r = r'"
  "makeLabelSet [''route'', ''method'', ''status'', ''status_class''] [a, b, c, d] =
   makeLabelSet [''route'', ''method'', ''status'', ''status_class''] [a', b', c', d'] \<longleftrightarrow> a = a' \<and> b = b' \<and> c = c' \<and> d = d'"
  by (subst labels_identify_full; simp add: label_names_ok_def)+

lemma observed_fields:
  "cv_labels (hm_Requests (traffic_metrics ts)) = [''route'', ''method'', ''status'', ''status_class''] \<and>
   gv_labels (hm_InFlight (traffic_metrics ts)) = [''route'']"
proof (induction ts rule: rev_induct)
  case (snoc t ts)
  then show ?case by (cases t) (simp_all add: traffic_metrics_def counter_Inc_def gauge_Add_def Let_def)
qed (simp add: traffic_metrics_def NewHTTPMetrics_def)

text \<open>
  C26.  Overlapping requests are counted exactly.  However the starts and the ends of requests interleave, the gauge of a route is the number of its
  requests that have started and not returned, so it is zero when all have returned, and stays one too high for good for every request whose handler panicked; and
  the counter of a route, method and status is the number of requests that returned after being answered so, the status being the first one written, and 200 if a
  body came first or nothing was written.
\<close>

theorem requests_counted:
  "gauge_Value [route] (hm_InFlight (traffic_metrics ts)) =
     of_nat (length (filter (starts route) ts)) - of_nat (length (filter (returns route) ts)) \<and>
   counter_Value [route, mthd, Itoa status, statusClass status] (hm_Requests (traffic_metrics ts)) =
     of_nat (length (filter (answers route mthd status) ts))"
proof (induction ts rule: rev_induct)
  case Nil
  show ?case by (simp add: traffic_metrics_def NewHTTPMetrics_def gauge_Value_def counter_Value_def value_at_def)
next
  case (snoc t ts)
  have step: "traffic_metrics (ts @ [t]) = observed t (traffic_metrics ts)" by (simp add: traffic_metrics_def)
  note labels = observed_fields [of ts]
  show ?case
  proof (cases t)
    case (Started r)
    then show ?thesis using snoc.IH labels
      by (auto simp: step [unfolded Started] gauge_Value_def gauge_Add_def Let_def value_at_update http_labels)
  next
    case (Panicked r)
    then show ?thesis using snoc.IH by (simp add: step [unfolded Panicked])
  next
    case (Returned r m writes elapsed)
    then show ?thesis using snoc.IH labels
      by (auto simp: step [unfolded Returned] gauge_Value_def gauge_Add_def counter_Value_def counter_Inc_def Let_def value_at_update http_labels Itoa_inject recorded_first)
  qed
qed

subsection \<open>Samples\<close>

definition demo_fmt :: "rat \<Rightarrow> string" where "demo_fmt q = (if q = 3 then ''3'' else ''5'')"

definition outcomes :: CounterVec where
  "outcomes = \<lparr> cv_metricName = ''m'', cv_help = ''h'', cv_labels = [''event''], cv_values = [] \<rparr>"

theorem counter_rendered_exactly_witness:
  "newlines (counter_writeTo demo_fmt (counted [(1, [[CHR 0x0A, CHR ''m'']]), (5, [''x'']), (2, [[CHR 0x0A, CHR ''m'']])] outcomes)) = 4"
proof -
  have ok: "\<forall>s \<in> {cv_metricName outcomes} \<union> set (cv_labels outcomes) \<union> range demo_fmt. CHR 0x0A \<notin> set s"
    by (auto simp: outcomes_def demo_fmt_def)
  have "cv_values outcomes = []" by (simp add: outcomes_def)
  from counter_rendered_exactly [OF this, of demo_fmt "[(1, [[CHR 0x0A, CHR ''m'']]), (5, [''x'']), (2, [[CHR 0x0A, CHR ''m'']])]"] ok
  have "newlines (counter_writeTo demo_fmt (counted [(1, [[CHR 0x0A, CHR ''m'']]), (5, [''x'']), (2, [[CHR 0x0A, CHR ''m'']])] outcomes)) =
      2 + card (series_added (cv_labels outcomes) [(1, [[CHR 0x0A, CHR ''m'']]), (5, [''x'']), (2, [[CHR 0x0A, CHR ''m'']])])" by blast
  moreover have "series_added (cv_labels outcomes) [(1, [[CHR 0x0A, CHR ''m'']]), (5, [''x'']), (2, [[CHR 0x0A, CHR ''m'']])] =
      {makeLabelSet [''event''] [[CHR 0x0A, CHR ''m'']], makeLabelSet [''event''] [''x'']}"
    by (auto simp: series_added_def outcomes_def)
  moreover have "makeLabelSet [''event''] [[CHR 0x0A, CHR ''m'']] \<noteq> makeLabelSet [''event''] [''x'']" by code_simp
  ultimately show ?thesis by simp
qed

theorem histogram_exact_witness:
  "map_of (hv_series (measured [(1, [''a'']), (3, [''a''])] (new_Histogram ''m'' ''h'' [2, 1] [''r'']))) (makeLabelSet [''r''] [''a'']) =
     Some \<lparr> hg_counts = [1, 1], hg_sum = 4, hg_count = 2 \<rparr> \<and>
   hg_counts (the (map_of (hv_series (measured [(1, [''a'']), (3, [''a''])] (new_Histogram ''m'' ''h'' [2, 1] [''r'']))) (makeLabelSet [''r''] [''a'']))) ! 1 \<le> (2 :: 64 word)"
proof -
  note e = histogram_exact [of "[(1, [''a'']), (3, [''a''])]" "''m''" "''h''" "[2, 1]" "[''r'']" "makeLabelSet [''r''] [''a'']"]
  have s: "map_of (hv_series (measured [(1, [''a'']), (3, [''a''])] (new_Histogram ''m'' ''h'' [2, 1] [''r'']))) (makeLabelSet [''r''] [''a'']) =
     Some \<lparr> hg_counts = [1, 1], hg_sum = 4, hg_count = 2 \<rparr>"
    using e by (simp add: observed_at_def distribution_def)
  have "hg_counts \<lparr> hg_counts = [1, 1], hg_sum = 4, hg_count = (2 :: 64 word) \<rparr> ! 1 \<le> hg_count \<lparr> hg_counts = [1, 1], hg_sum = 4 :: rat, hg_count = (2 :: 64 word) \<rparr>"
    using e s by fastforce
  then show ?thesis using s by simp
qed

end
