(* ===== verification/Spec2Isabelle.thy ===== *)
theory Spec2Isabelle
  imports Outbox Relationships Confinement Accounts Search AiGateway Migrations MappingAudit Metrics
begin

text \<open>
  Verification development of the BSYSTEM Integration Core, the Go service that stands between the people and machines of a platform and
  its source systems (EspoCRM, Redmine, Outline, authentik).  It keeps platform metadata only: identities, global identifiers of source
  records, roles and scope grants, an audit trail, an event outbox, and the records of its own modules.

  How the parts fit together.  A request crosses the boundary (cmd/server/routes.go, identity.go, ratelimits.go): its bearer token
  becomes an identity, the identity a Global ID and an access profile, the rate limiter spends a token, the route's permission is evaluated, and
  the handler runs.  A handler authorizes the record it is about with the evaluator (internal/authz), reads a source system through an adapter
  (internal/adapters) over the HTTP client with its circuit breaker (internal/adapters/httpx), maps source records to Global IDs and
  writes its tables, audit record and outbox event in one transaction (internal/platformdb).  The outbox worker hands the events to the broker;
  a start replays the migrations.

  Theories and the code they model, from the bottom up.

  Values.  Prelude: Go strings as bytes, results as sums, the strings package.  Float64: float64 values as rationals with the
  rounding of each operation.  Strconv: decimal numbers, base64.  Urls: percent encoding.
  Events: the envelope (internal/events).  Paging: the list envelope, the caller that follows cursors, and the locales paged and
  cursor\_codec, interpreted by the listings that page by them.

  Outgoing calls.  Breaker (httpx/breaker.go): Allow, Succeed and Fail on the record Breaker, and the step relation of concurrent
  callers with the tickets in flight.  HttpClient (httpx/client.go, errors.go): one attempt, the retry loop, its verdict.  Adapters
  (internal/adapters): cursors, the registry and every operation of the three adapters.  AuthentikAdmin (internal/authentikadmin): the
  client of authentik, with its contract as the locale user\_directory.

  The platform's store.  Database: tables, transactions, audit and outbox rows (platformdb/db.go, outbox.go).  Rbac (rbac.go,
  admin\_rbac.go): access profiles, scope grants; it interprets the locale grants of Authz (internal/authz/authz.go).  GlobalIds (db.go,
  identity.go, service\_identity.go): allocation and first sightings.  Outbox (outbox.go): claims, delivery, marks, and the
  interleaved claim, publish and mark steps of several processes.  Platform: the tables of
  the business modules, the bus, and the checks several handlers share.  ModuleCatalogue (modules\_admin.go, admin\_modules.go): the
  launcher's modules and their administration.  Migrations (db.go and migrations/): the start of the database, the ledger of applied
  files, and what the files write to the catalogue.  MappingAudit (cmd/mapping-audit): the diagnostic over the mapping table.

  The boundary.  Oidc (internal/oidc): token validation, the key cache and its refresh.  RateLimit (internal/ratelimit): calls in the
  order in which they get the mutex, each with the clock reading it brought.  Boundary:
  token resolution, the route table routes and the pipeline serve around each handler.  Metrics (internal/observability): the registry
  of series, its exposition, and what a measured request does to it, a panicking one included.

  The handlers.  Business (business.go), Operations, Support, Notifications, Relationships, Search, Accounts (admin\_accounts.go),
  Redaction, AiProviders and AiGateway (internal/ai, cmd/server/ai.go), each with the domain package and the store of its module.  Search
  states what it needs of an engine as the locale ranking\_engine, interpreted on the in-memory one; AiProviders states the
  contract of a model as the locale language\_model.  Confinement spans the detail endpoints of three modules: it states what a
  confined caller may learn as one function and shows that the endpoints refine it.

  State and operations.  A struct is a record with the field names of the source behind a two letter prefix, an enumeration a datatype or
  the source's strings, a table a list of rows in insertion order, a Go map a partial function or an association list whose order stands for
  the order of a range.  An operation takes the state last and returns its answer and the next state; an error is the left of a sum, an HTTP
  answer the record Reply with status, code and body.  The argument down names the statements of the store that fail, so every
  branch of an outage is a value of it; others is what concurrent transactions commit between a read and a write, and what other
  replicas do inside an advisory lock section whose session was lost (Accounts).  Migrations runs the files one at a time, as the
  transactions they are: a start may end after any of them and requests be served in between.  Redaction reads text as the runes
  of its UTF-8 bytes (decode\_rune, as Go decodes, malformed bytes included), lowers each by the parameter lr, the table of
  unicode.ToLower, and slices by byte index, so a slice past the end of a line is its panic.  The verifier's requests follow redirects
  (client\_Do in Oidc); the redirects of the other HTTP clients stay inside their send parameter.  Instants and
  durations are integers of nanoseconds.  Integers are unbounded where the code cannot reach their end, and words or wrap64 where it can (breaker
  episodes, backoff, cursors, token times, histogram counts).

  What the lemmas show.  Each theory first proves the cases of its operations (lemmas whose names end in cases, ok or error), then that they keep an
  invariant (gid\_inv, graph\_ok, ops\_inv, memory\_ok, catalogue\_ok, verifier and breaker reachability), and its theorems rest on
  these.  The main results are: who may do what (the pipeline admits only authenticated, limited and authorized requests; accepted tokens are
  genuine; the platform's decision equals the documented rule; hidden records have no influence on answers; the model sees
  only what its caller may read, redacted); what is kept (identifiers unique, the last administrator, sound relationships, the
  life cycle of support records, the catalogue in order after any starts and requests); what is recorded (grants and module changes with their audit
  row or not at all, one row for each question, edited migrations reported); what ends (listings walked once, bounded retries, the outbox
  drained); and what is exact (search walks, launcher, audit verdict, counters and label sets).  Some theorems state a flaw of the
  code as it is: startup\_reactivates, owned\_server\_refused, half\_open\_wedge, delivered\_yet\_failed, kidless\_token\_refused, lost\_lock\_unmans,
  racing\_start\_unroles, growing\_letters\_panic, republished\_after\_delivery, stale\_readings\_regrant and others.

  Bounds and fuel.  The only fuel is that of follow, the caller that walks a listing: every theorem about it asks for more fuel
  than there are rows, which suffices since each page brings at least one row.  Loops of the code are structural or
  have a measure: the retry loop of the client runs over the attempts left, the pagination of authentik over its page bound.

  What is a parameter.  PostgreSQL beyond the statements translated, the network, the broker, authentik, JSON and URL parsing, hash and
  signature functions, regular SQL collation (bytes), sources of randomness and the clock.  Where a property relies on documented behaviour of
  one of these, it is a named hypothesis (authentik\_ok, crm\_serves), met by a concrete function in the witness.

  Not modelled.  Case folding above 127 outside redaction and white space above 127, float64 rounding outside the rate limiter,
  printed forms of instants.  The OpenSearch client
  (request shapes of an engine outside the repository).  The declarations of the platform's own metric series and the log handler.  Process
  wiring: main, signals, listeners and the environment beyond the settings named above.  The check of host names and the repository guard,
  which are lints of the repository's files.
\<close>

end
